(* ===== verification/Prelude.thy ===== *)
theory Prelude
  imports Main "HOL-Library.AList" "HOL-Library.List_Lexorder" "HOL-Library.Char_ord"
    "HOL-Library.Multiset"
begin

text \<open>
  Shared ground of the development: the JavaScript notions the library's TypeScript code is
  written in, and the generic lemmas about them.

  \<^item> strings are \<open>string\<close> (ASCII characters; a JavaScript string of UTF-16 code units
    restricted to ASCII), with \<open>split\<close>, \<open>startsWith\<close>, \<open>includes\<close>, \<open>join\<close>, \<open>trim\<close>
    and the case conversions;
  \<^item> dynamic values are \<open>jval\<close>: numbers are restricted to the integers, an object is the
    list of its own enumerable properties in insertion order;
  \<^item> a \<open>Map\<close> is an association list in insertion order, updated with the library's
    \<open>AList.update\<close> (in place when the key exists, at the end otherwise) and
    \<open>AList.delete\<close>.
\<close>

section \<open>Theorem collections\<close>

named_theorems js_simps \<open>equations of the JavaScript operations\<close>
named_theorems om_simps \<open>lookup, update and delete of insertion-ordered maps\<close>

section \<open>Strings\<close>

fun js_split :: "char \<Rightarrow> string \<Rightarrow> string list" where
  "js_split c [] = [[]]"
| "js_split c (x # xs) =
     (if x = c then [] # js_split c xs
      else (case js_split c xs of [] \<Rightarrow> [[x]] | w # ws \<Rightarrow> (x # w) # ws))"

fun js_join :: "string \<Rightarrow> string list \<Rightarrow> string" where
  "js_join sep [] = []"
| "js_join sep [w] = w"
| "js_join sep (w # ws) = w @ sep @ js_join sep ws"

fun starts_with :: "string \<Rightarrow> string \<Rightarrow> bool" where
  "starts_with [] s = True"
| "starts_with (p # ps) [] = False"
| "starts_with (p # ps) (x # xs) = (p = x \<and> starts_with ps xs)"

definition lower_char :: "char \<Rightarrow> char" where
  "lower_char c = (let n = of_char c :: nat in if 65 \<le> n \<and> n \<le> 90 then char_of (n + 32) else c)"

definition upper_char :: "char \<Rightarrow> char" where
  "upper_char c = (let n = of_char c :: nat in if 97 \<le> n \<and> n \<le> 122 then char_of (n - 32) else c)"

definition to_lower :: "string \<Rightarrow> string" where
  "to_lower = map lower_char"

definition to_upper :: "string \<Rightarrow> string" where
  "to_upper = map upper_char"

definition is_space :: "char \<Rightarrow> bool" where
  "is_space c \<longleftrightarrow> (let n = of_char c :: nat in n = 32 \<or> (9 \<le> n \<and> n \<le> 13))"

definition js_trim :: "string \<Rightarrow> string" where
  "js_trim s = rev (dropWhile is_space (rev (dropWhile is_space s)))"

lemma js_split_nonempty [simp]: "js_split c s \<noteq> []"
  by (induction s) (auto split: list.splits)

lemma js_split_no_sep: "w \<in> set (js_split c s) \<Longrightarrow> c \<notin> set w"
proof (induction s arbitrary: w)
  case Nil
  then show ?case by simp
next
  case (Cons x xs)
  show ?case
  proof (cases "x = c")
    case True
    with Cons show ?thesis by auto
  next
    case False
    obtain v vs where v: "js_split c xs = v # vs" by (cases "js_split c xs") auto
    from Cons.IH [of v] v have "c \<notin> set v" by simp
    with Cons False v show ?thesis by auto
  qed
qed

lemma js_split_id: "c \<notin> set s \<Longrightarrow> js_split c s = [s]"
  by (induction s) auto

lemma js_join_Cons: "ws \<noteq> [] \<Longrightarrow> js_join sep (w # ws) = w @ sep @ js_join sep ws"
  by (cases ws) auto

lemma js_join_split: "js_join [c] (js_split c s) = s"
proof (induction s)
  case Nil
  then show ?case by simp
next
  case (Cons x xs)
  obtain w ws where w: "js_split c xs = w # ws" by (cases "js_split c xs") auto
  show ?case
  proof (cases "x = c")
    case True
    with Cons w show ?thesis by simp
  next
    case False
    with Cons w show ?thesis by (cases ws) auto
  qed
qed

lemma js_split_inject: "js_split c s = js_split c t \<Longrightarrow> s = t"
  by (metis js_join_split)

lemma js_split_append_sep: "c \<notin> set w \<Longrightarrow> js_split c (w @ c # s) = w # js_split c s"
  by (induction w) auto

lemma starts_with_append [simp]: "starts_with p (p @ s)"
  by (induction p) auto

lemma starts_with_iff: "starts_with p s \<longleftrightarrow> (\<exists>t. s = p @ t)"
  by (induction p s rule: starts_with.induct) auto

section \<open>Option-typed fields\<close>

text \<open>
  An optional field is an \<open>option\<close>, \<open>None\<close> for absent, \<open>undefined\<close> or \<open>null\<close> where the
  code does not tell them apart. \<open>x ?? y\<close> is \<open>coalesce\<close>; the truthiness of an optional
  string (absent and empty are falsy) is \<open>truthy_str\<close>; \<open>x || y\<close> on strings is \<open>or_str\<close>.
\<close>

definition coalesce :: "'a option \<Rightarrow> 'a \<Rightarrow> 'a" where
  "coalesce x d = (case x of None \<Rightarrow> d | Some v \<Rightarrow> v)"

definition coalesce_opt :: "'a option \<Rightarrow> 'a option \<Rightarrow> 'a option" where
  "coalesce_opt x y = (case x of None \<Rightarrow> y | Some v \<Rightarrow> Some v)"

definition truthy_str :: "string option \<Rightarrow> bool" where
  "truthy_str x \<longleftrightarrow> (case x of None \<Rightarrow> False | Some s \<Rightarrow> s \<noteq> [])"

definition or_str :: "string option \<Rightarrow> string option \<Rightarrow> string option" where
  "or_str x y = (if truthy_str x then x else y)"

lemma coalesce_simps [simp, js_simps]: "coalesce None d = d" "coalesce (Some v) d = v"
  by (simp_all add: coalesce_def)

lemma coalesce_opt_simps [simp, js_simps]:
  "coalesce_opt None y = y" "coalesce_opt (Some v) y = Some v"
  by (simp_all add: coalesce_opt_def)

lemma truthy_str_simps [simp, js_simps]:
  "truthy_str None = False" "truthy_str (Some s) = (s \<noteq> [])"
  by (simp_all add: truthy_str_def)

lemma or_str_simps [simp, js_simps]:
  "or_str None y = y" "or_str (Some []) y = y" "or_str (Some (c # cs)) y = Some (c # cs)"
  by (simp_all add: or_str_def)

section \<open>Insertion-ordered maps\<close>

type_synonym ('k, 'v) omap = "('k \<times> 'v) list"

lemma om_get_update [om_simps]:
  "map_of (AList.update k v m) k' = (if k' = k then Some v else map_of m k')"
  by (simp add: update_conv')

lemma om_get_delete [om_simps]:
  "map_of (AList.delete k m) k' = (if k' = k then None else map_of m k')"
  by (simp add: delete_conv')

lemma om_delete_absent: "k \<notin> fst ` set m \<Longrightarrow> AList.delete k m = m"
  by (induction m) (auto simp: AList.delete_eq)

lemma om_update_absent: "k \<notin> fst ` set m \<Longrightarrow> AList.update k v m = m @ [(k, v)]"
  by (induction m) auto

lemma om_update_mem: "(k', v') \<in> set (AList.update k v m) \<Longrightarrow> (k' = k \<and> v' = v) \<or> (k', v') \<in> set m"
  by (induction m) (auto split: if_splits)

lemma om_get_filter_keys:
  "map_of (filter (\<lambda>(k, v). P k) m) k = (if P k then map_of m k else None)"
  by (induction m) auto

lemma om_distinct_filter: "distinct (map fst m) \<Longrightarrow> distinct (map fst (filter P m))"
  by (induction m) auto

lemma om_length_delete: "length (AList.delete k m) \<le> length m"
  by (simp add: AList.delete_eq)

lemma om_mem_iff: "distinct (map fst m) \<Longrightarrow> (k, v) \<in> set m \<longleftrightarrow> map_of m k = Some v"
  by simp

section \<open>Dynamic values\<close>

datatype jval =
    JUndef
  | JNull
  | JBool bool
  | JNum int
  | JStr string
  | JArr "jval list"
  | JObj "(string \<times> jval) list"

fun truthy :: "jval \<Rightarrow> bool" where
  "truthy JUndef = False"
| "truthy JNull = False"
| "truthy (JBool b) = b"
| "truthy (JNum n) = (n \<noteq> 0)"
| "truthy (JStr s) = (s \<noteq> [])"
| "truthy (JArr xs) = True"
| "truthy (JObj kvs) = True"

definition nullish :: "jval \<Rightarrow> bool" where
  "nullish v \<longleftrightarrow> v = JUndef \<or> v = JNull"

text \<open>The operator \<open>??\<close> on dynamic values.\<close>

definition jcoal :: "jval \<Rightarrow> jval \<Rightarrow> jval" where
  "jcoal v d = (if nullish v then d else v)"

text \<open>Property read \<open>v?.[k]\<close>: \<open>undefined\<close> for an absent property or a non-object.\<close>

fun jget :: "jval \<Rightarrow> string \<Rightarrow> jval" where
  "jget (JObj kvs) k = (case map_of kvs k of None \<Rightarrow> JUndef | Some v \<Rightarrow> v)"
| "jget v k = JUndef"

fun jset :: "jval \<Rightarrow> string \<Rightarrow> jval \<Rightarrow> jval" where
  "jset (JObj kvs) k v = JObj (AList.update k v kvs)"
| "jset w k v = w"

fun obj_entries :: "jval \<Rightarrow> (string \<times> jval) list" where
  "obj_entries (JObj kvs) = kvs"
| "obj_entries v = []"

text \<open>Object spread \<open>{...a, ...b}\<close>: the later properties win, a key keeps its first place.\<close>

definition spread :: "(string \<times> jval) list \<Rightarrow> (string \<times> jval) list \<Rightarrow> (string \<times> jval) list" where
  "spread a b = fold (\<lambda>(k, v) acc. AList.update k v acc) b a"

lemma nullish_simps [simp, js_simps]:
  "nullish JUndef" "nullish JNull" "\<not> nullish (JBool b)" "\<not> nullish (JNum n)"
  "\<not> nullish (JStr s)" "\<not> nullish (JArr xs)" "\<not> nullish (JObj kvs)"
  by (simp_all add: nullish_def)

lemma jcoal_simps [simp, js_simps]:
  "jcoal JUndef d = d" "jcoal JNull d = d" "jcoal (JBool b) d = JBool b"
  "jcoal (JNum n) d = JNum n" "jcoal (JStr s) d = JStr s" "jcoal (JArr xs) d = JArr xs"
  "jcoal (JObj kvs) d = JObj kvs"
  by (simp_all add: jcoal_def)

lemma truthy_not_nullish: "truthy v \<Longrightarrow> \<not> nullish v"
  by (cases v) auto

lemma spread_Nil [simp]: "spread a [] = a"
  by (simp add: spread_def)

lemma spread_snoc: "spread a (b @ [(k, v)]) = AList.update k v (spread a b)"
  by (simp add: spread_def)

lemma spread_get:
  "map_of (spread a b) k = (case map_of (rev b) k of None \<Rightarrow> map_of a k | Some v \<Rightarrow> Some v)"
proof (induction b rule: rev_induct)
  case Nil
  then show ?case by simp
next
  case (snoc x b)
  obtain k' v' where x: "x = (k', v')" by (cases x)
  have "map_of (spread a (b @ [x])) k = (if k = k' then Some v' else map_of (spread a b) k)"
    by (simp add: x spread_snoc om_simps)
  with snoc show ?case by (simp add: x)
qed

lemma map_of_distinct_rev: "distinct (map fst b) \<Longrightarrow> map_of (rev b) = map_of b"
  by (simp add: map_of_inject_set rev_map [symmetric])

lemma spread_get_distinct:
  "distinct (map fst b) \<Longrightarrow>
   map_of (spread a b) k = (case map_of b k of None \<Rightarrow> map_of a k | Some v \<Rightarrow> Some v)"
  by (simp add: spread_get map_of_distinct_rev)

lemma jget_jset [js_simps]: "jget (jset (JObj kvs) k v) k' = (if k' = k then v else jget (JObj kvs) k')"
  by (simp add: om_simps)

section \<open>Numbers as text\<close>

definition digit_char :: "nat \<Rightarrow> char" where
  "digit_char d = char_of (48 + d)"

definition char_digit :: "char \<Rightarrow> nat option" where
  "char_digit c = (let n = of_char c :: nat in if 48 \<le> n \<and> n \<le> 57 then Some (n - 48) else None)"

fun nat_str :: "nat \<Rightarrow> string" where
  "nat_str n = (if n < 10 then [digit_char n] else nat_str (n div 10) @ [digit_char (n mod 10)])"

declare nat_str.simps [simp del]

definition int_str :: "int \<Rightarrow> string" where
  "int_str i = (if i < 0 then ''-'' @ nat_str (nat (- i)) else nat_str (nat i))"

text \<open>Reading decimal digits back, left to right.\<close>

fun read_digits :: "nat \<Rightarrow> string \<Rightarrow> nat option" where
  "read_digits acc [] = Some acc"
| "read_digits acc (c # cs) =
     (case char_digit c of None \<Rightarrow> None | Some d \<Rightarrow> read_digits (10 * acc + d) cs)"

definition read_int :: "string \<Rightarrow> int option" where
  "read_int s =
     (case s of [] \<Rightarrow> None
      | c # cs \<Rightarrow>
          if c = CHR ''-'' then (if cs = [] then None else map_option (\<lambda>n. - int n) (read_digits 0 cs))
          else map_option int (read_digits 0 s))"

text \<open>
  \<open>Number(v)\<close>: \<open>None\<close> is \<open>NaN\<close>. Numeric text is read in plain decimal notation, after
  trimming; an array is read through its text, as \<open>Number([5])\<close> is 5.
\<close>

definition number_of_str :: "string \<Rightarrow> int option" where
  "number_of_str s = (let t = js_trim s in if t = [] then Some 0 else read_int t)"

text \<open>\<open>String(v)\<close>: arrays are joined with commas, their nullish elements empty.\<close>

fun js_string :: "jval \<Rightarrow> string" where
  "js_string JUndef = ''undefined''"
| "js_string JNull = ''null''"
| "js_string (JBool b) = (if b then ''true'' else ''false'')"
| "js_string (JNum n) = int_str n"
| "js_string (JStr s) = s"
| "js_string (JArr xs) = js_join '','' (map (\<lambda>x. if nullish x then [] else js_string x) xs)"
| "js_string (JObj kvs) = ''[object Object]''"

fun js_number :: "jval \<Rightarrow> int option" where
  "js_number JUndef = None"
| "js_number JNull = Some 0"
| "js_number (JBool b) = Some (if b then 1 else 0)"
| "js_number (JNum n) = Some n"
| "js_number (JStr s) = number_of_str s"
| "js_number (JArr xs) = number_of_str (js_string (JArr xs))"
| "js_number (JObj kvs) = None"

lemma char_digit_digit_char: "d < 10 \<Longrightarrow> char_digit (digit_char d) = Some d"
  by (simp add: char_digit_def digit_char_def)

lemma read_digits_append:
  "read_digits acc (s @ [c]) =
     (case read_digits acc s of None \<Rightarrow> None | Some n \<Rightarrow> map_option (\<lambda>d. 10 * n + d) (char_digit c))"
  by (induction s arbitrary: acc) (auto split: option.splits)

lemma read_nat_str: "read_digits 0 (nat_str n) = Some n"
proof (induction n rule: nat_str.induct)
  case (1 n)
  show ?case
  proof (cases "n < 10")
    case True
    then show ?thesis by (subst nat_str.simps) (simp add: char_digit_digit_char)
  next
    case False
    with 1 have "read_digits 0 (nat_str (n div 10)) = Some (n div 10)" by simp
    with False show ?thesis
      by (subst nat_str.simps) (simp add: read_digits_append char_digit_digit_char)
  qed
qed

lemma nat_str_inject [simp]: "nat_str m = nat_str n \<longleftrightarrow> m = n"
  by (metis option.inject read_nat_str)

lemma nat_str_digits: "c \<in> set (nat_str n) \<Longrightarrow> \<exists>d < 10. c = digit_char d"
proof (induction n rule: nat_str.induct)
  case (1 n)
  show ?case
  proof (cases "n < 10")
    case True
    with 1(2) show ?thesis by (subst (asm) nat_str.simps) auto
  next
    case False
    with 1(2) have "c \<in> set (nat_str (n div 10)) \<or> c = digit_char (n mod 10)"
      by (subst (asm) nat_str.simps) auto
    moreover have "n mod 10 < 10" by simp
    ultimately show ?thesis using False 1(1) by blast
  qed
qed

lemma digit_char_neq: "d < 10 \<Longrightarrow> digit_char d \<noteq> CHR ''-''" "d < 10 \<Longrightarrow> digit_char d \<noteq> CHR ''.''"
  using char_digit_digit_char [of d] by (auto simp: char_digit_def)

lemma nat_str_no_dash: "CHR ''-'' \<notin> set (nat_str n)" and nat_str_no_dot: "CHR ''.'' \<notin> set (nat_str n)"
  using digit_char_neq nat_str_digits by metis+

lemma nat_str_nonempty [simp]: "nat_str n \<noteq> []"
  by (subst nat_str.simps) simp

lemma int_str_inject [simp]: "int_str i = int_str j \<longleftrightarrow> i = j"
proof
  assume eq: "int_str i = int_str j"
  have dash: "CHR ''-'' \<in> set (int_str k) \<longleftrightarrow> k < 0" for k
    using nat_str_no_dash by (auto simp: int_str_def)
  from eq dash have "(i < 0) = (j < 0)" by metis
  with eq show "i = j" by (auto simp: int_str_def split: if_splits)
qed simp

lemma int_str_no_dot: "CHR ''.'' \<notin> set (int_str i)"
  using nat_str_no_dot by (simp add: int_str_def)

section \<open>Error values\<close>

text \<open>
  What the code throws: the class (its \<open>name\<close>) and the message. The error classes of
  \<open>common/errors.ts\<close> and \<open>amqp-lib/models/errors.model.ts\<close> are told apart by the name,
  as the gateway's status table does.
\<close>

record jserr =
  ename :: string
  emsg :: string

definition mk_err :: "string \<Rightarrow> string \<Rightarrow> jserr" where
  "mk_err n m = \<lparr>ename = n, emsg = m\<rparr>"

abbreviation bad_request :: "string \<Rightarrow> jserr" where
  "bad_request m \<equiv> mk_err ''BadRequestError'' m"

abbreviation forbidden :: "string \<Rightarrow> jserr" where
  "forbidden m \<equiv> mk_err ''ForbiddenError'' m"

abbreviation conflict :: "string \<Rightarrow> jserr" where
  "conflict m \<equiv> mk_err ''ConflictError'' m"

abbreviation generic_error :: "string \<Rightarrow> jserr" where
  "generic_error m \<equiv> mk_err ''Error'' m"

text \<open>\<open>Array.from(new Set(xs))\<close>: the first occurrence of each element, in order.\<close>

fun dedup :: "'a list \<Rightarrow> 'a list" where
  "dedup [] = []"
| "dedup (x # xs) = x # dedup (filter (\<lambda>y. y \<noteq> x) xs)"

lemma set_dedup [simp]: "set (dedup xs) = set xs"
  by (induction xs rule: dedup.induct) auto

lemma distinct_dedup [simp]: "distinct (dedup xs)"
  by (induction xs rule: dedup.induct) auto

lemma filter_neq_absent: "x \<notin> set xs \<Longrightarrow> filter (\<lambda>y. y \<noteq> x) xs = xs"
  by (induction xs) auto

lemma dedup_id: "distinct xs \<Longrightarrow> dedup xs = xs"
  by (induction xs rule: dedup.induct) (auto simp: filter_neq_absent)

lemma dedup_append_absent: "set ys \<inter> set xs = {} \<Longrightarrow> distinct ys \<Longrightarrow> dedup (ys @ xs) = ys @ dedup xs"
  by (induction ys) (auto simp: filter_id_conv [THEN iffD2] filter_neq_absent)

text \<open>\<open>haystack.includes(needle)\<close>.\<close>

fun str_includes :: "string \<Rightarrow> string \<Rightarrow> bool" where
  "str_includes needle [] = (needle = [])"
| "str_includes needle (x # xs) = (starts_with needle (x # xs) \<or> str_includes needle xs)"

text \<open>\<open>xs.slice(a, b)\<close>: negative positions count from the end, both are clamped.\<close>

definition slice_pos :: "nat \<Rightarrow> int \<Rightarrow> nat" where
  "slice_pos n i = (if i < 0 then nat (max 0 (int n + i)) else nat (min (int n) i))"

definition js_slice :: "'a list \<Rightarrow> int \<Rightarrow> int \<Rightarrow> 'a list" where
  "js_slice xs a b = take (slice_pos (length xs) b - slice_pos (length xs) a) (drop (slice_pos (length xs) a) xs)"

text \<open>\<open>Number(v) || d\<close>.\<close>

definition number_or :: "jval \<Rightarrow> int \<Rightarrow> int" where
  "number_or v d = (case js_number v of None \<Rightarrow> d | Some n \<Rightarrow> if n = 0 then d else n)"

section \<open>Effects\<close>

text \<open>
  An operation that reads and writes a state and may throw: the state survives the throw, as a
  JavaScript object does. \<open>and_then\<close> is the sequencing of an \<open>async\<close> body: the first rejection
  ends it.
\<close>

type_synonym ('s, 'a) eff = "'s \<Rightarrow> (jserr + 'a) \<times> 's"

definition ret :: "'a \<Rightarrow> ('s, 'a) eff" where
  "ret x s = (Inr x, s)"

definition throw :: "jserr \<Rightarrow> ('s, 'a) eff" where
  "throw e s = (Inl e, s)"

definition and_then :: "('s, 'a) eff \<Rightarrow> ('a \<Rightarrow> ('s, 'b) eff) \<Rightarrow> ('s, 'b) eff" where
  "and_then m f s = (case m s of (Inl e, t) \<Rightarrow> (Inl e, t) | (Inr x, t) \<Rightarrow> f x t)"

lemma eff_simps [simp]:
  "ret x s = (Inr x, s)" "throw e s = (Inl e, s)"
  "m s = (Inl e, t) \<Longrightarrow> and_then m f s = (Inl e, t)"
  "m s = (Inr x, t) \<Longrightarrow> and_then m f s = f x t"
  by (simp_all add: ret_def throw_def and_then_def)

lemma and_then_InrE:
  assumes "and_then m f s = (Inr y, u)"
  obtains x t where "m s = (Inr x, t)" and "f x t = (Inr y, u)"
  using assms by (auto simp: and_then_def split: prod.splits sum.splits)

lemma and_then_cases:
  assumes "and_then m f s = (r, u)"
  obtains e where "m s = (Inl e, u)" and "r = Inl e"
  | x t where "m s = (Inr x, t)" and "f x t = (r, u)"
  using assms by (auto simp: and_then_def split: prod.splits sum.splits)

text \<open>\<open>try { m } catch (e) { h(e) }\<close>, and a loop with \<open>await\<close> in its body.\<close>

definition try_catch :: "('s, 'a) eff \<Rightarrow> (jserr \<Rightarrow> ('s, 'a) eff) \<Rightarrow> ('s, 'a) eff" where
  "try_catch m h s = (case m s of (Inl e, t) \<Rightarrow> h e t | (Inr x, t) \<Rightarrow> (Inr x, t))"

fun for_each :: "('a \<Rightarrow> ('s, unit) eff) \<Rightarrow> 'a list \<Rightarrow> ('s, unit) eff" where
  "for_each f [] = ret ()"
| "for_each f (x # xs) = and_then (f x) (\<lambda>_. for_each f xs)"

lemma for_each_inv:
  assumes "\<And>x s. x \<in> set xs \<Longrightarrow> I s \<Longrightarrow> I (snd (f x s))" and "I s"
  shows "I (snd (for_each f xs s))"
  using assms
proof (induction xs arbitrary: s)
  case Nil
  then show ?case by simp
next
  case (Cons x xs)
  obtain r t where r: "f x s = (r, t)" by (cases "f x s")
  with Cons.prems(1) [of x s] Cons.prems(2) have t: "I t" by simp
  show ?case
  proof (cases r)
    case (Inl e)
    with r t show ?thesis by simp
  next
    case (Inr u)
    have "I (snd (for_each f xs t))" by (rule Cons.IH [OF _ t]) (simp add: Cons.prems(1))
    with r Inr show ?thesis by simp
  qed
qed

end
