(* ===== verification/Path_Order.thy ===== *)
theory Path_Order
  imports Prelude
begin

text \<open>
  \<open>modules/gateway-admin/util/path-order.ts\<close>: the order in which the gateway's stored
  routes are exported, so that Express matches static segments before parametric ones and
  those before wildcards.
\<close>

section \<open>The comparator\<close>

definition segmentKind :: "string \<Rightarrow> int" where
  "segmentKind segment =
     (if starts_with '':'' segment then 1
      else if segment = ''*'' \<or> CHR ''*'' \<in> set segment then 2
      else 0)"

definition splitSegments :: "string \<Rightarrow> string list" where
  "splitSegments path = filter (\<lambda>s. s \<noteq> []) (js_split (CHR ''/'') path)"

text \<open>The loop over the segment index, as a recursion over both segment lists.\<close>

fun compareSegments :: "string list \<Rightarrow> string list \<Rightarrow> int" where
  "compareSegments [] [] = 0"
| "compareSegments [] (y # ys) = -1"
| "compareSegments (x # xs) [] = 1"
| "compareSegments (x # xs) (y # ys) =
     (let ka = segmentKind x; kb = segmentKind y in
      if ka \<noteq> kb then ka - kb
      else if ka = 0 \<and> x \<noteq> y then (if x < y then -1 else 1)
      else compareSegments xs ys)"

definition comparePaths :: "string \<Rightarrow> string \<Rightarrow> int" where
  "comparePaths a b = compareSegments (splitSegments a) (splitSegments b)"

text \<open>
  \<open>Array.prototype.sort\<close> with a comparator is specified to be a stable sort; it is modelled
  by insertion sort that inserts each element, from the last one on, before the first
  element it is not greater than.
\<close>

fun insert_by :: "('a \<Rightarrow> 'a \<Rightarrow> int) \<Rightarrow> 'a \<Rightarrow> 'a list \<Rightarrow> 'a list" where
  "insert_by cmp x [] = [x]"
| "insert_by cmp x (y # ys) = (if cmp x y \<le> 0 then x # y # ys else y # insert_by cmp x ys)"

fun sort_by :: "('a \<Rightarrow> 'a \<Rightarrow> int) \<Rightarrow> 'a list \<Rightarrow> 'a list" where
  "sort_by cmp [] = []"
| "sort_by cmp (x # xs) = insert_by cmp x (sort_by cmp xs)"

definition orderPaths :: "('a \<Rightarrow> string) \<Rightarrow> 'a list \<Rightarrow> 'a list" where
  "orderPaths pathOf paths = sort_by (\<lambda>a b. comparePaths (pathOf a) (pathOf b)) paths"

section \<open>The abstract order of segments\<close>

text \<open>
  What a segment contributes to the order: a static segment its text, a parameter or a
  wildcard nothing but its kind. The type gets a linear order, static < parameter <
  wildcard, and with it the library's lexicographic order on lists.
\<close>

datatype seg_rank = Static string | Param | Wild

instantiation seg_rank :: linorder
begin

fun less_seg_rank :: "seg_rank \<Rightarrow> seg_rank \<Rightarrow> bool" where
  "less_seg_rank (Static s) (Static t) = (s < t)"
| "less_seg_rank (Static s) Param = True"
| "less_seg_rank (Static s) Wild = True"
| "less_seg_rank Param Wild = True"
| "less_seg_rank x y = False"

definition less_eq_seg_rank :: "seg_rank \<Rightarrow> seg_rank \<Rightarrow> bool" where
  "less_eq_seg_rank x y = (x < y \<or> x = y)"

instance
proof
  fix x y z :: seg_rank
  show "(x < y) = (x \<le> y \<and> \<not> y \<le> x)"
    by (cases x; cases y) (auto simp: less_eq_seg_rank_def)
  show "x \<le> x" by (simp add: less_eq_seg_rank_def)
  show "x \<le> y \<Longrightarrow> y \<le> z \<Longrightarrow> x \<le> z"
    by (cases x; cases y; cases z) (auto simp: less_eq_seg_rank_def)
  show "x \<le> y \<Longrightarrow> y \<le> x \<Longrightarrow> x = y"
    by (cases x; cases y) (auto simp: less_eq_seg_rank_def)
  show "x \<le> y \<or> y \<le> x"
    by (cases x; cases y) (auto simp: less_eq_seg_rank_def)
qed

end

definition rank_of :: "string \<Rightarrow> seg_rank" where
  "rank_of s = (if segmentKind s = 0 then Static s else if segmentKind s = 1 then Param else Wild)"

definition path_rank :: "string \<Rightarrow> seg_rank list" where
  "path_rank p = map rank_of (splitSegments p)"

lemma segmentKind_cases: "segmentKind s = 0 \<or> segmentKind s = 1 \<or> segmentKind s = 2"
  by (simp add: segmentKind_def)

lemma compareSegments_rank:
  "(compareSegments xs ys < 0 \<longleftrightarrow> map rank_of xs < map rank_of ys) \<and>
   (compareSegments xs ys = 0 \<longleftrightarrow> map rank_of xs = map rank_of ys)"
proof (induction xs ys rule: compareSegments.induct)
  case (4 x xs y ys)
  show ?case
    using segmentKind_cases [of x] segmentKind_cases [of y] 4
    by (auto simp: Let_def rank_of_def)
qed (auto simp: rank_of_def)

lemma comparePaths_less: "comparePaths a b < 0 \<longleftrightarrow> path_rank a < path_rank b"
  by (simp add: comparePaths_def path_rank_def compareSegments_rank)

lemma comparePaths_eq: "comparePaths a b = 0 \<longleftrightarrow> path_rank a = path_rank b"
  by (simp add: comparePaths_def path_rank_def compareSegments_rank)

lemma comparePaths_le: "comparePaths a b \<le> 0 \<longleftrightarrow> path_rank a \<le> path_rank b"
  using comparePaths_less [of a b] comparePaths_eq [of a b] by (auto simp: le_less)

lemma insert_by_key:
  "(\<And>a b. cmp a b \<le> 0 \<longleftrightarrow> key a \<le> key b) \<Longrightarrow> insert_by cmp x ys = insort_key key x ys"
  by (induction ys) auto

lemma sort_by_key:
  "(\<And>a b. cmp a b \<le> 0 \<longleftrightarrow> key a \<le> key b) \<Longrightarrow> sort_by cmp xs = sort_key key xs"
  by (induction xs) (auto simp: insert_by_key sort_key_def)

lemma set_sort_by [simp]: "set (sort_by cmp xs) = set xs"
proof -
  have "set (insert_by cmp x ys) = insert x (set ys)" for x ys
    by (induction ys) auto
  then show ?thesis by (induction xs) auto
qed

section \<open>Properties\<close>

text \<open>\<open>comparePaths\<close> is the three-way comparison of a linear order: negative, zero and
  positive exactly when the first path's sequence of ranked segments is less than, equal to
  and greater than the second's. So it is antisymmetric in sign and transitive, as a sort
  comparator must be.\<close>

theorem comparePaths_trichotomy:
  "sgn (comparePaths a b) =
     (if path_rank a < path_rank b then -1 else if path_rank a = path_rank b then 0 else 1)"
  using comparePaths_less [of a b] comparePaths_eq [of a b]
  by (cases "comparePaths a b" "0 :: int" rule: linorder_cases) auto

text \<open>\<open>orderPaths\<close> returns a permutation of its input, ordered by the ranked segments,
  and it is stable: routes of equal rank keep their relative order.\<close>

theorem orderPaths_stable_sort:
  "mset (orderPaths f ps) = mset ps \<and>
   sorted (map (\<lambda>p. path_rank (f p)) (orderPaths f ps)) \<and>
   filter (\<lambda>p. path_rank (f p) = r) (orderPaths f ps) = filter (\<lambda>p. path_rank (f p) = r) ps"
proof -
  have eq: "orderPaths f ps = sort_key (\<lambda>p. path_rank (f p)) ps"
    unfolding orderPaths_def by (rule sort_by_key) (simp add: comparePaths_le)
  show ?thesis
    by (simp add: eq sort_key_stable)
qed

end
