(* ===== verification/Retry_Policy.thy ===== *)
theory Retry_Policy
  imports Prelude
begin

text \<open>
  \<open>amqp-lib/amqp/retry-policy.ts\<close>: the error handler that bounds the number of times a
  failing message is processed.

  The handler talks to the broker: it publishes copies, asserts a wait queue, acks or nacks
  the original. Each such call is a value of \<open>ext_call\<close>, appended to a log; whether it
  succeeds is decided by an environment \<open>env\<close>, where \<open>env n\<close> says whether the \<open>n\<close>-th
  external call succeeds (a rejected publish, a channel that died). Everything proved below
  holds for every environment. Log lines are not modelled.
\<close>

section \<open>Messages, errors and broker calls\<close>

record msg_props =
  p_headers :: "(string \<times> jval) list option"
  p_replyTo :: "string option"
  p_correlationId :: "string option"
  p_expiration :: "jval option"
  p_rest :: "(string \<times> jval) list"

record amqp_msg =
  m_content :: jval
  m_routingKey :: string
  m_props :: msg_props

text \<open>A thrown value, and whether it is a \<open>MessageDeserializationError\<close>.\<close>

datatype thrown = DeserErr jval | OtherErr jval

datatype ext_call =
    CPublish string string jval msg_props
  | CAssertWait string int string
  | CAck
  | CNack bool

type_synonym env = "nat \<Rightarrow> bool"

definition call :: "env \<Rightarrow> ext_call \<Rightarrow> ext_call list \<Rightarrow> bool \<times> ext_call list" where
  "call env c log = (env (length log), log @ [c])"

section \<open>The policy\<close>

datatype exhaust_mode = ModeDeadLetter | ModeDrop

record dead_letter =
  dl_exchange :: string
  dl_routingKey :: "string option"

record retry_policy =
  rp_maxAttempts :: "int option"
  rp_delayMs :: "int option"
  rp_onExhausted :: "exhaust_mode option"
  rp_deadLetter :: "dead_letter option"

definition DEFAULT_RETRY_POLICY :: retry_policy where
  "DEFAULT_RETRY_POLICY =
     \<lparr>rp_maxAttempts = Some 5, rp_delayMs = Some 0, rp_onExhausted = Some ModeDrop, rp_deadLetter = None\<rparr>"

definition eff_maxAttempts :: "retry_policy \<Rightarrow> int" where
  "eff_maxAttempts p = max 1 (coalesce (rp_maxAttempts p) 5)"

definition eff_delayMs :: "retry_policy \<Rightarrow> int" where
  "eff_delayMs p = coalesce (rp_delayMs p) 0"

definition eff_onExhausted :: "retry_policy \<Rightarrow> exhaust_mode" where
  "eff_onExhausted p =
     coalesce (rp_onExhausted p) (if rp_deadLetter p \<noteq> None then ModeDeadLetter else ModeDrop)"

definition RETRY_COUNT_HEADER :: string where "RETRY_COUNT_HEADER = ''x-retry-count''"
definition RETRY_ERROR_HEADER :: string where "RETRY_ERROR_HEADER = ''x-retry-error''"
definition RETRY_ORIGIN_QUEUE_HEADER :: string where
  "RETRY_ORIGIN_QUEUE_HEADER = ''x-retry-origin-queue''"

section \<open>The handler\<close>

fun error_value :: "thrown \<Rightarrow> jval" where
  "error_value (DeserErr e) = e"
| "error_value (OtherErr e) = e"

fun is_retriable :: "thrown \<Rightarrow> bool" where
  "is_retriable (DeserErr e) = False"
| "is_retriable (OtherErr e) = True"

text \<open>\<open>errorToPlain\<close>: the name and the message of a thrown value.\<close>

definition errorToPlain :: "jval \<Rightarrow> jval" where
  "errorToPlain e =
     JObj [(''name'', JStr (if truthy (jget e ''name'') then js_string (jget e ''name'') else ''Error'')),
           (''message'', jcoal (jget e ''message'') (JStr (js_string e)))]"

definition plain_message :: "jval \<Rightarrow> jval" where
  "plain_message e = jget (errorToPlain e) ''message''"

text \<open>The attempts made so far, this one included; \<open>None\<close> when the header is not a number.\<close>

definition attempts_of :: "amqp_msg \<Rightarrow> int option" where
  "attempts_of m =
     map_option (\<lambda>n. n + 1)
       (js_number (jcoal (jget (JObj (coalesce (p_headers (m_props m)) [])) RETRY_COUNT_HEADER) (JNum 0)))"

definition attempts_val :: "int option \<Rightarrow> jval" where
  "attempts_val a = (case a of Some n \<Rightarrow> JNum n | None \<Rightarrow> JNull)"

definition retryProperties ::
  "retry_policy \<Rightarrow> amqp_msg \<Rightarrow> int option \<Rightarrow> (string \<times> jval) list \<Rightarrow> msg_props" where
  "retryProperties p m attempts extra =
     (let props = (m_props m)\<lparr>p_headers :=
            Some (spread (spread (coalesce (p_headers (m_props m)) [])
                    [(RETRY_COUNT_HEADER, attempts_val attempts)]) extra)\<rparr>
      in if eff_delayMs p > 0 then props\<lparr>p_expiration := None\<rparr> else props)"

definition waitQueueName :: "string \<Rightarrow> int \<Rightarrow> string" where
  "waitQueueName queue d = queue @ ''.retry.'' @ int_str d"

definition scheduleRetry ::
  "string \<Rightarrow> retry_policy \<Rightarrow> env \<Rightarrow> amqp_msg \<Rightarrow> int option \<Rightarrow> ext_call list \<Rightarrow> bool \<times> ext_call list" where
  "scheduleRetry queue p env m attempts log =
     (if eff_delayMs p > 0 then
        (let wq = waitQueueName queue (eff_delayMs p);
             (ok, log1) = call env (CAssertWait wq (eff_delayMs p) queue) log
         in if ok then call env (CPublish [] wq (m_content m) (retryProperties p m attempts [])) log1
            else (False, log1))
      else call env (CPublish [] queue (m_content m) (retryProperties p m attempts [])) log)"

definition empty_props :: msg_props where
  "empty_props = \<lparr>p_headers = None, p_replyTo = None, p_correlationId = None, p_expiration = None, p_rest = []\<rparr>"

text \<open>The reply's message text is composed of the attempt count and the cause's message.\<close>

definition attempts_text :: "int option \<Rightarrow> string" where
  "attempts_text a = (case a of Some n \<Rightarrow> int_str n | None \<Rightarrow> ''NaN'')"

definition exhaustedReply :: "string \<Rightarrow> jval \<Rightarrow> int option \<Rightarrow> jval" where
  "exhaustedReply queue e attempts =
     JObj [(''success'', JBool False),
           (''error'', JObj [(''name'', JStr ''RetryExhaustedError''),
              (''message'', JStr (''Handler for queue '' @ [char_of (39 :: nat)] @ queue @ [char_of (39 :: nat)] @
                 '' failed after '' @ attempts_text attempts @ '' attempt(s): '' @ js_string (plain_message e))),
              (''cause'', errorToPlain e)])]"

definition replyErrorToRpcCaller ::
  "string \<Rightarrow> env \<Rightarrow> amqp_msg \<Rightarrow> jval \<Rightarrow> int option \<Rightarrow> ext_call list \<Rightarrow> ext_call list" where
  "replyErrorToRpcCaller queue env m e attempts log =
     (if \<not> truthy_str (p_replyTo (m_props m)) \<or> \<not> truthy_str (p_correlationId (m_props m)) then log
      else snd (call env (CPublish [] (the (p_replyTo (m_props m))) (exhaustedReply queue e attempts)
             (empty_props\<lparr>p_correlationId := p_correlationId (m_props m), p_headers := p_headers (m_props m)\<rparr>)) log))"

definition exhaust ::
  "string \<Rightarrow> retry_policy \<Rightarrow> env \<Rightarrow> amqp_msg \<Rightarrow> jval \<Rightarrow> int option \<Rightarrow> ext_call list \<Rightarrow> bool \<times> ext_call list" where
  "exhaust queue p env m e attempts log =
     (case (eff_onExhausted p, rp_deadLetter p) of
        (ModeDeadLetter, Some dl) \<Rightarrow>
          (if dl_exchange dl \<noteq> [] then
             call env (CPublish (dl_exchange dl) (coalesce (dl_routingKey dl) (m_routingKey m)) (m_content m)
               (retryProperties p m attempts
                 [(RETRY_ERROR_HEADER, plain_message e), (RETRY_ORIGIN_QUEUE_HEADER, JStr queue)])) log
           else (True, log))
      | _ \<Rightarrow> (True, log))"

definition below :: "int option \<Rightarrow> int \<Rightarrow> bool" where
  "below a n = (case a of None \<Rightarrow> False | Some k \<Rightarrow> k < n)"

text \<open>The body of the \<open>try\<close> block: dispose of the message, then ack; \<open>True\<close> if nothing threw.\<close>

definition dispose ::
  "string \<Rightarrow> retry_policy \<Rightarrow> env \<Rightarrow> amqp_msg \<Rightarrow> thrown \<Rightarrow> ext_call list \<Rightarrow> bool \<times> ext_call list" where
  "dispose queue p env m err log =
     (let attempts = attempts_of m in
      if is_retriable err \<and> below attempts (eff_maxAttempts p)
      then scheduleRetry queue p env m attempts log
      else exhaust queue p env m (error_value err) attempts
             (replyErrorToRpcCaller queue env m (error_value err) attempts log))"

definition retry_error_handler ::
  "string \<Rightarrow> retry_policy \<Rightarrow> env \<Rightarrow> amqp_msg \<Rightarrow> thrown \<Rightarrow> ext_call list \<Rightarrow> ext_call list" where
  "retry_error_handler queue p env m err log =
     (let (ok, log1) = dispose queue p env m err log in
      if ok then (let (acked, log2) = call env CAck log1 in
                  if acked then log2 else snd (call env (CNack True) log2))
      else snd (call env (CNack True) log1))"

section \<open>Lemmas\<close>

lemma call_simps [simp]: "call env c log = (env (length log), log @ [c])"
  by (simp add: call_def)

lemma eff_maxAttempts_pos: "eff_maxAttempts p \<ge> 1"
  by (simp add: eff_maxAttempts_def)

fun is_settle :: "ext_call \<Rightarrow> bool" where
  "is_settle CAck = True"
| "is_settle (CNack b) = True"
| "is_settle c = False"

text \<open>The settlements of a log that the environment lets succeed.\<close>

definition settled :: "env \<Rightarrow> ext_call list \<Rightarrow> nat" where
  "settled env log = length (filter (\<lambda>i. is_settle (log ! i) \<and> env i) [0..<length log])"

lemma settled_Nil [simp]: "settled env [] = 0"
  by (simp add: settled_def)

lemma settled_snoc: "settled env (log @ [c]) = settled env log + (if is_settle c \<and> env (length log) then 1 else 0)"
proof -
  have "filter (\<lambda>i. is_settle ((log @ [c]) ! i) \<and> env i) [0..<length log] =
        filter (\<lambda>i. is_settle (log ! i) \<and> env i) [0..<length log]"
    by (rule filter_cong) (auto simp: nth_append)
  then show ?thesis by (simp add: settled_def)
qed

lemma settled_append_calls: "\<forall>c \<in> set xs. \<not> is_settle c \<Longrightarrow> settled env (log @ xs) = settled env log"
proof (induction xs rule: rev_induct)
  case Nil
  then show ?case by simp
next
  case (snoc c xs)
  then show ?case by (simp add: settled_snoc flip: append_assoc)
qed

lemma dispose_extends: "\<exists>xs. snd (dispose queue p env m err log) = log @ xs \<and> (\<forall>c \<in> set xs. \<not> is_settle c)"
  by (auto simp: dispose_def scheduleRetry_def exhaust_def replyErrorToRpcCaller_def Let_def
      split: option.splits exhaust_mode.splits)

lemma dispose_settled: "dispose queue p env m err log = (ok, log1) \<Longrightarrow> settled env log1 = settled env log"
  using dispose_extends [of queue p env m err log] settled_append_calls [of _ env log] by auto

section \<open>Redelivery of a message whose handler always fails\<close>

text \<open>
  The broker delivers a confirmed copy again: an immediate copy goes to the work queue
  through the default exchange, a delayed one is dead-lettered to it by the wait queue.
  What RabbitMQ adds to the properties on the way (such as \<open>x-death\<close>) is the parameter
  \<open>stamp\<close>; the routing key of the copy is the queue's name in both cases.
\<close>

definition copy_target :: "string \<Rightarrow> retry_policy \<Rightarrow> string" where
  "copy_target queue p = (if eff_delayMs p > 0 then waitQueueName queue (eff_delayMs p) else queue)"

fun copy_of :: "string \<Rightarrow> retry_policy \<Rightarrow> ext_call \<Rightarrow> (jval \<times> msg_props) option" where
  "copy_of queue p (CPublish x r c q) = (if x = [] \<and> r = copy_target queue p then Some (c, q) else None)"
| "copy_of queue p c = None"

fun redelivery ::
  "(msg_props \<Rightarrow> msg_props) \<Rightarrow> string \<Rightarrow> retry_policy \<Rightarrow> ext_call list \<Rightarrow> amqp_msg option" where
  "redelivery stamp queue p [] = None"
| "redelivery stamp queue p (c # cs) =
     (case copy_of queue p c of
        Some (body, q) \<Rightarrow> Some \<lparr>m_content = body, m_routingKey = queue, m_props = stamp q\<rparr>
      | None \<Rightarrow> redelivery stamp queue p cs)"

fun run_failing ::
  "nat \<Rightarrow> (msg_props \<Rightarrow> msg_props) \<Rightarrow> string \<Rightarrow> retry_policy \<Rightarrow> jval \<Rightarrow> amqp_msg \<Rightarrow> ext_call list list option" where
  "run_failing 0 stamp queue p e m = None"
| "run_failing (Suc n) stamp queue p e m =
     (let log = retry_error_handler queue p (\<lambda>_. True) m (OtherErr e) [] in
      case redelivery stamp queue p log of
        None \<Rightarrow> Some [log]
      | Some m' \<Rightarrow> map_option ((#) log) (run_failing n stamp queue p e m'))"

text \<open>A stamp keeps the retry counter when it leaves that header alone.\<close>

definition keeps_counter :: "(msg_props \<Rightarrow> msg_props) \<Rightarrow> bool" where
  "keeps_counter stamp \<longleftrightarrow>
     (\<forall>q. jget (JObj (coalesce (p_headers (stamp q)) [])) RETRY_COUNT_HEADER =
          jget (JObj (coalesce (p_headers q) [])) RETRY_COUNT_HEADER \<and> p_replyTo (stamp q) = p_replyTo q)"

lemma attempts_of_copy:
  "keeps_counter stamp \<Longrightarrow>
   attempts_of \<lparr>m_content = c, m_routingKey = r, m_props = stamp (retryProperties p m (Some k) [])\<rparr> = Some (k + 1)"
  by (simp add: attempts_of_def keeps_counter_def retryProperties_def Let_def spread_get attempts_val_def
      om_simps del: jget.simps) (simp add: spread_get)

lemma replyTo_copy:
  "keeps_counter stamp \<Longrightarrow> p_replyTo (stamp (retryProperties p m a x)) = p_replyTo (m_props m)"
  by (simp add: keeps_counter_def retryProperties_def Let_def)

lemma handler_retry_log:
  "below (attempts_of m) (eff_maxAttempts p) \<Longrightarrow>
   redelivery stamp queue p (retry_error_handler queue p (\<lambda>_. True) m (OtherErr e) []) =
     Some \<lparr>m_content = m_content m, m_routingKey = queue, m_props = stamp (retryProperties p m (attempts_of m) [])\<rparr>"
  by (simp add: retry_error_handler_def dispose_def scheduleRetry_def copy_target_def Let_def)

lemma handler_exhaust_log:
  "\<not> below (attempts_of m) (eff_maxAttempts p) \<Longrightarrow> p_replyTo (m_props m) \<noteq> Some (copy_target queue p) \<Longrightarrow>
   redelivery stamp queue p (retry_error_handler queue p (\<lambda>_. True) m (OtherErr e) []) = None"
  by (cases "p_replyTo (m_props m)")
     (auto simp: retry_error_handler_def dispose_def exhaust_def replyErrorToRpcCaller_def Let_def
      split: option.splits exhaust_mode.splits)

lemma waitQueueName_neq: "waitQueueName q d \<noteq> q"
  by (simp add: waitQueueName_def)

lemma js_split_last: "js_split (CHR ''.'') (w @ CHR ''.'' # int_str d) = js_split (CHR ''.'') w @ [int_str d]"
  by (induction w) (auto simp: js_split_id int_str_no_dot split: list.splits)

text \<open>A call of a log that the environment let succeed.\<close>

fun confirmed :: "env \<Rightarrow> nat \<Rightarrow> ext_call list \<Rightarrow> ext_call \<Rightarrow> bool" where
  "confirmed env n [] x = False"
| "confirmed env n (c # cs) x = (c = x \<and> env n \<or> confirmed env (Suc n) cs x)"

lemma retry_extends_settled:
  "\<exists>xs. retry_error_handler queue p env m err log = log @ xs \<and> xs \<noteq> [] \<and> is_settle (last xs) \<and>
        settled env (log @ xs) \<le> Suc (settled env log)"
proof -
  obtain ok log1 where d: "dispose queue p env m err log = (ok, log1)" by (cases "dispose queue p env m err log")
  from dispose_extends [of queue p env m err log] d obtain ys where ys: "log1 = log @ ys" by auto
  have st: "settled env log1 = settled env log" by (rule dispose_settled [OF d])
  have snoc2: "settled env (log1 @ [CAck, CNack True]) =
      settled env log1 + (if env (length log1) then 1 else 0) + (if env (Suc (length log1)) then 1 else 0)"
    using settled_snoc [of env "log1 @ [CAck]" "CNack True"] by (simp add: settled_snoc)
  consider "retry_error_handler queue p env m err log = log1 @ [CAck]"
    | "retry_error_handler queue p env m err log = log1 @ [CAck, CNack True]" "\<not> env (length log1)"
    | "retry_error_handler queue p env m err log = log1 @ [CNack True]"
    using d by (cases ok; cases "env (length log1)") (auto simp: retry_error_handler_def Let_def)
  then show ?thesis
  proof cases
    case 1
    then show ?thesis using st by (intro exI [of _ "ys @ [CAck]"]) (simp add: ys settled_snoc flip: append_assoc)
  next
    case 2
    then show ?thesis using st snoc2 by (intro exI [of _ "ys @ [CAck, CNack True]"]) (simp add: ys)
  next
    case 3
    then show ?thesis using st by (intro exI [of _ "ys @ [CNack True]"]) (simp add: ys settled_snoc flip: append_assoc)
  qed
qed

section \<open>Properties\<close>

text \<open>C6: Whatever the broker does, handling a failure only appends calls, the last of which
  settles the delivery, and at most one settlement takes effect: the handler never leaves a
  message without an attempt to ack or nack it and never settles it twice.\<close>

theorem retry_settles_once:
  "\<exists>xs. retry_error_handler queue p env m err log = log @ xs \<and> xs \<noteq> [] \<and> is_settle (last xs) \<and>
        settled env (log @ xs) \<le> Suc (settled env log)"
  by (rule retry_extends_settled)

text \<open>C4: At-least-once. The original is acked only after it is safe: when another attempt is
  due, its copy (same content, counter increased) has been confirmed on the work queue or the
  wait queue; when the attempts are used up and a dead-letter destination applies, the copy
  has been confirmed there.\<close>

theorem retry_ack_only_when_safe:
  assumes "CAck \<in> set (retry_error_handler queue p env m err [])"
  shows "if is_retriable err \<and> below (attempts_of m) (eff_maxAttempts p)
         then confirmed env 0 (retry_error_handler queue p env m err [])
                (CPublish [] (copy_target queue p) (m_content m) (retryProperties p m (attempts_of m) []))
         else (case (eff_onExhausted p, rp_deadLetter p) of
                 (ModeDeadLetter, Some dl) \<Rightarrow>
                   dl_exchange dl = [] \<or>
                   (\<exists>q. confirmed env 0 (retry_error_handler queue p env m err [])
                     (CPublish (dl_exchange dl) (coalesce (dl_routingKey dl) (m_routingKey m)) (m_content m) q))
               | _ \<Rightarrow> True)"
  using assms
  by (auto simp: retry_error_handler_def dispose_def scheduleRetry_def exhaust_def
      replyErrorToRpcCaller_def copy_target_def Let_def split: option.splits exhaust_mode.splits if_splits)

definition sample_msg :: amqp_msg where
  "sample_msg = \<lparr>m_content = JStr ''x'', m_routingKey = ''orders.new'',
     m_props = \<lparr>p_headers = None, p_replyTo = None, p_correlationId = None, p_expiration = None, p_rest = []\<rparr>\<rparr>"

lemma sample_attempts: "attempts_of sample_msg = Some 1"
  by (simp add: attempts_of_def sample_msg_def)

theorem retry_ack_only_when_safe_witness:
  "confirmed (\<lambda>_. True) 0 (retry_error_handler ''orders'' DEFAULT_RETRY_POLICY (\<lambda>_. True) sample_msg (OtherErr JNull) [])
     (CPublish [] ''orders'' (JStr ''x'') (retryProperties DEFAULT_RETRY_POLICY sample_msg (Some 1) []))"
proof -
  have ack: "CAck \<in> set (retry_error_handler ''orders'' DEFAULT_RETRY_POLICY (\<lambda>_. True) sample_msg (OtherErr JNull) [])"
    by (simp add: retry_error_handler_def dispose_def scheduleRetry_def sample_attempts
        below_def eff_maxAttempts_def eff_delayMs_def DEFAULT_RETRY_POLICY_def)
  from retry_ack_only_when_safe [OF ack] show ?thesis
    by (simp add: sample_attempts below_def eff_maxAttempts_def eff_delayMs_def DEFAULT_RETRY_POLICY_def
        copy_target_def) (simp add: sample_msg_def)
qed

text \<open>C2: The retry loop ends. With a broker that accepts every call, a message whose handler
  always fails, received with its \<open>k\<close>-th attempt, is handled exactly
  \<open>maxAttempts - k + 1\<close> times (once if that is not positive), and then no further copy
  reaches the work queue: a poison message cannot loop. The reply address must not be the
  work queue itself.\<close>

theorem retry_loop_bounded:
  assumes "keeps_counter stamp"
    and "attempts_of m = Some k"
    and "p_replyTo (m_props m) \<noteq> Some (copy_target queue p)"
    and "nat (eff_maxAttempts p - k) < fuel"
  shows "\<exists>logs. run_failing fuel stamp queue p e m = Some logs \<and> length logs = Suc (nat (eff_maxAttempts p - k))"
  using assms(2-4)
proof (induction fuel arbitrary: m k)
  case 0
  then show ?case by simp
next
  case (Suc fuel)
  show ?case
  proof (cases "below (attempts_of m) (eff_maxAttempts p)")
    case False
    with Suc.prems(1) have "eff_maxAttempts p \<le> k" by (simp add: below_def)
    then show ?thesis using handler_exhaust_log [OF False Suc.prems(2)] by simp
  next
    case True
    let ?m' = "\<lparr>m_content = m_content m, m_routingKey = queue, m_props = stamp (retryProperties p m (Some k) [])\<rparr>"
    from True Suc.prems(1) have lt: "k < eff_maxAttempts p" by (simp add: below_def)
    have "attempts_of ?m' = Some (k + 1)" by (rule attempts_of_copy [OF assms(1)])
    moreover have "p_replyTo (m_props ?m') \<noteq> Some (copy_target queue p)"
      using Suc.prems(2) replyTo_copy [OF assms(1)] by simp
    moreover have "nat (eff_maxAttempts p - (k + 1)) < fuel" using lt Suc.prems(3) by linarith
    ultimately obtain logs where "run_failing fuel stamp queue p e ?m' = Some logs"
      and "length logs = Suc (nat (eff_maxAttempts p - (k + 1)))" using Suc.IH by blast
    moreover have "Suc (nat (eff_maxAttempts p - (k + 1))) = nat (eff_maxAttempts p - k)" using lt by linarith
    ultimately show ?thesis
      using handler_retry_log [OF True, of stamp queue e] Suc.prems(1) by simp
  qed
qed

theorem retry_loop_bounded_witness:
  "\<exists>logs. run_failing 5 id ''orders'' DEFAULT_RETRY_POLICY JNull sample_msg = Some logs \<and> length logs = 5"
proof -
  have max: "eff_maxAttempts DEFAULT_RETRY_POLICY = 5" by (simp add: eff_maxAttempts_def DEFAULT_RETRY_POLICY_def)
  have "keeps_counter id" by (simp add: keeps_counter_def)
  moreover have "p_replyTo (m_props sample_msg) \<noteq> Some (copy_target ''orders'' DEFAULT_RETRY_POLICY)"
    by (simp add: sample_msg_def)
  moreover have "nat (eff_maxAttempts DEFAULT_RETRY_POLICY - 1) < 5" by (simp add: max)
  ultimately show ?thesis
    using retry_loop_bounded [of id sample_msg 1 "''orders''" DEFAULT_RETRY_POLICY 5 JNull]
    by (simp add: sample_attempts max)
qed

text \<open>The wait queue's name determines the work queue and the delay, so changing a delay
  never asserts an existing wait queue with other arguments, and two work queues never share
  one; and it is never the work queue itself.\<close>

theorem waitQueueName_determines:
  "(waitQueueName q d = waitQueueName q' d') = (q = q' \<and> d = d') \<and> waitQueueName q d \<noteq> q"
proof -
  have "q = q' \<and> d = d'" if eq: "waitQueueName q d = waitQueueName q' d'"
  proof -
    from eq have eq': "(q @ ''.retry'') @ CHR ''.'' # int_str d = (q' @ ''.retry'') @ CHR ''.'' # int_str d'"
      by (simp add: waitQueueName_def)
    then have "js_split (CHR ''.'') ((q @ ''.retry'') @ CHR ''.'' # int_str d) =
               js_split (CHR ''.'') ((q' @ ''.retry'') @ CHR ''.'' # int_str d')" by (rule arg_cong)
    then have "int_str d = int_str d'" unfolding js_split_last by simp
    with eq' show ?thesis by simp
  qed
  then show ?thesis using waitQueueName_neq by auto
qed

end
