(* ===== verification/Amqp_Utils.thy ===== *)
theory Amqp_Utils
  imports Prelude
begin

text \<open>
  \<open>amqp-lib/amqp/utils.ts\<close>: the routing-key filter of RPC consumers and the connection URL built from its parts. What AMQP itself means by a topic pattern
  is \<open>amqp_match\<close>, the specification the filter is compared with.
\<close>

section \<open>Routing keys\<close>

datatype rk_pattern = NoPattern | OnePattern string | ManyPatterns "string list"

text \<open>The loop over the pattern's words: a \<open>#\<close> accepts at once, the first word that is
  neither \<open>*\<close> nor equal to the key's word at that place fails.\<close>

datatype scan_result = ScanHash | ScanFailed | ScanEnd

fun scanPattern :: "string list \<Rightarrow> string list \<Rightarrow> scan_result" where
  "scanPattern [] ks = ScanEnd"
| "scanPattern (p # ps) ks =
     (if p = ''#'' then ScanHash
      else if p \<noteq> ''*'' \<and> (case ks of [] \<Rightarrow> True | k # _ \<Rightarrow> p \<noteq> k) then ScanFailed
      else scanPattern ps (case ks of [] \<Rightarrow> [] | _ # ks' \<Rightarrow> ks'))"

definition matchesOne :: "string \<Rightarrow> string \<Rightarrow> bool" where
  "matchesOne routingKey p =
     (routingKey = p \<or>
      (let splitKey = js_split (CHR ''.'') routingKey; splitPattern = js_split (CHR ''.'') p in
       case scanPattern splitPattern splitKey of
         ScanHash \<Rightarrow> True
       | ScanFailed \<Rightarrow> False
       | ScanEnd \<Rightarrow> length splitKey = length splitPattern))"

definition matchesRoutingKey :: "string \<Rightarrow> rk_pattern \<Rightarrow> bool" where
  "matchesRoutingKey routingKey pattern =
     (case pattern of
        NoPattern \<Rightarrow> False
      | OnePattern p \<Rightarrow> matchesOne routingKey p
      | ManyPatterns ps \<Rightarrow> list_ex (matchesOne routingKey) ps)"

text \<open>AMQP topic matching: \<open>*\<close> stands for one word, \<open>#\<close> for zero or more.\<close>

fun amqp_match :: "string list \<Rightarrow> string list \<Rightarrow> bool" where
  "amqp_match [] ks = (ks = [])"
| "amqp_match (p # ps) [] = (p = ''#'' \<and> amqp_match ps [])"
| "amqp_match (p # ps) (k # ks) =
     (if p = ''#'' then amqp_match ps (k # ks) \<or> amqp_match (p # ps) ks
      else (p = ''*'' \<or> p = k) \<and> amqp_match ps ks)"

definition amqp_topic_match :: "string \<Rightarrow> string \<Rightarrow> bool" where
  "amqp_topic_match key p = amqp_match (js_split (CHR ''.'') p) (js_split (CHR ''.'') key)"

text \<open>Patterns whose \<open>#\<close>, if any, is the last word.\<close>

fun hash_last :: "string list \<Rightarrow> bool" where
  "hash_last [] = True"
| "hash_last (p # ps) = (if p = ''#'' then ps = [] else hash_last ps)"

lemma scan_complete:
  "amqp_match ps ks \<Longrightarrow> scanPattern ps ks = ScanHash \<or> scanPattern ps ks = ScanEnd \<and> length ks = length ps"
  by (induction ps ks rule: amqp_match.induct) (auto split: if_splits)

lemma amqp_hash_all: "amqp_match [''#''] ks"
  by (induction ks) auto

text \<open>On a key at least as long as the pattern's words before the \<open>#\<close>, the loop agrees
  with AMQP when the \<open>#\<close> comes last.\<close>

fun words_before_hash :: "string list \<Rightarrow> nat" where
  "words_before_hash [] = 0"
| "words_before_hash (p # ps) = (if p = ''#'' then 0 else Suc (words_before_hash ps))"

lemma scan_sound:
  "hash_last ps \<Longrightarrow> words_before_hash ps \<le> length ks \<Longrightarrow>
   scanPattern ps ks = ScanHash \<or> scanPattern ps ks = ScanEnd \<and> length ks = length ps \<Longrightarrow> amqp_match ps ks"
  by (induction ps ks rule: amqp_match.induct) (auto simp: amqp_hash_all split: if_splits)

lemma amqp_match_refl: "hash_last ps \<Longrightarrow> amqp_match ps ps"
  by (induction ps) (auto simp: amqp_hash_all split: if_splits)

lemma words_before_hash_le: "words_before_hash ps \<le> length ps"
  by (induction ps) auto

text \<open>The filter never rejects a message the broker routed: every key that AMQP's topic
  rules match against the pattern is accepted, so no delivered RPC is nacked by mistake.\<close>

theorem matchesRoutingKey_complete:
  "amqp_topic_match key p \<Longrightarrow> matchesRoutingKey key (OnePattern p)"
  using scan_complete [of "js_split (CHR ''.'') p" "js_split (CHR ''.'') key"]
  by (auto simp: amqp_topic_match_def matchesRoutingKey_def matchesOne_def Let_def)

theorem matchesRoutingKey_complete_witness: "matchesRoutingKey ''orders.eu.new'' (OnePattern ''orders.#'')"
  by (rule matchesRoutingKey_complete) (simp add: amqp_topic_match_def)

text \<open>For a pattern whose \<open>#\<close> (if any) is its last word, and a key that has a word for
  each word before it, the filter accepts exactly the keys AMQP matches.\<close>

theorem matchesRoutingKey_exact:
  assumes "hash_last (js_split (CHR ''.'') p)"
    and "words_before_hash (js_split (CHR ''.'') p) \<le> length (js_split (CHR ''.'') key)"
  shows "matchesRoutingKey key (OnePattern p) = amqp_topic_match key p"
proof
  assume "matchesRoutingKey key (OnePattern p)"
  then show "amqp_topic_match key p"
    using scan_sound [OF assms] amqp_match_refl [OF assms(1)]
    by (auto simp: amqp_topic_match_def matchesRoutingKey_def matchesOne_def Let_def split: scan_result.splits)
next
  assume "amqp_topic_match key p"
  then have "scanPattern (js_split (CHR ''.'') p) (js_split (CHR ''.'') key) = ScanHash \<or>
      scanPattern (js_split (CHR ''.'') p) (js_split (CHR ''.'') key) = ScanEnd \<and>
      length (js_split (CHR ''.'') key) = length (js_split (CHR ''.'') p)"
    unfolding amqp_topic_match_def by (rule scan_complete)
  then show "matchesRoutingKey key (OnePattern p)"
    by (auto simp: matchesRoutingKey_def matchesOne_def Let_def)
qed

theorem matchesRoutingKey_exact_witness:
  "matchesRoutingKey ''a.b'' (OnePattern ''a.*.#'') = amqp_topic_match ''a.b'' ''a.*.#''"
  by (rule matchesRoutingKey_exact) simp_all

text \<open>Outside these hypotheses the filter is wider than AMQP: words after a \<open>#\<close> are not
  compared, and a \<open>*\<close> before a \<open>#\<close> accepts a missing word.\<close>

lemma matchesRoutingKey_wider:
  "matchesRoutingKey ''a.x.c'' (OnePattern ''a.#.b'') \<and> \<not> amqp_topic_match ''a.x.c'' ''a.#.b''"
  "matchesRoutingKey ''a'' (OnePattern ''a.*.#'') \<and> \<not> amqp_topic_match ''a'' ''a.*.#''"
  by (simp_all add: matchesRoutingKey_def matchesOne_def amqp_topic_match_def)

section \<open>Connection URLs\<close>

record uri_config =
  uc_hostname :: "string option"
  uc_username :: "string option"
  uc_password :: "string option"
  uc_frameMax :: "int option"
  uc_heartbeat :: "int option"
  uc_vhost :: "string option"
  uc_protocol :: "string option"
  uc_port :: "int option"

definition hex_digit :: "nat \<Rightarrow> char" where
  "hex_digit d = char_of (if d < 10 then 48 + d else 55 + d)"

definition is_unreserved :: "char \<Rightarrow> bool" where
  "is_unreserved c =
     (let n = of_char c :: nat in
      48 \<le> n \<and> n \<le> 57 \<or> 65 \<le> n \<and> n \<le> 90 \<or> 97 \<le> n \<and> n \<le> 122 \<or>
      c \<in> set ''-_.!~*()'' \<or> n = 39)"

definition encodeURIComponent :: "string \<Rightarrow> string" where
  "encodeURIComponent s =
     concat (map (\<lambda>c. if is_unreserved c then [c]
       else (let n = of_char c :: nat in [CHR ''%'', hex_digit (n div 16), hex_digit (n mod 16)])) s)"

definition truthy_int :: "int option \<Rightarrow> bool" where
  "truthy_int x = (case x of None \<Rightarrow> False | Some n \<Rightarrow> n \<noteq> 0)"

definition amqplibUriConfigToUrl :: "uri_config \<Rightarrow> jserr + string" where
  "amqplibUriConfigToUrl c =
     (if \<not> truthy_str (uc_hostname c) then Inl (generic_error ''Configuration object must contain a hostname key.'')
      else
        let auth = (if truthy_str (uc_username c) \<and> truthy_str (uc_password c)
                    then encodeURIComponent (the (uc_username c)) @ '':'' @ encodeURIComponent (the (uc_password c)) @ ''@''
                    else []);
            params = (if truthy_int (uc_frameMax c) then [''frameMax='' @ int_str (the (uc_frameMax c))] else []) @
                     (if truthy_int (uc_heartbeat c) then [''heartbeat='' @ int_str (the (uc_heartbeat c))] else [])
        in Inr (coalesce (uc_protocol c) ''amqp'' @ ''://'' @ auth @ the (uc_hostname c) @ '':'' @
                int_str (coalesce (uc_port c) 5672) @ coalesce (uc_vhost c) [] @
                (if params = [] then [] else ''?'' @ js_join ''&'' params)))"

datatype uri_input = UriString string | UriConfig uri_config

definition converUriConfigObjectsToUris :: "uri_input \<Rightarrow> jserr + string" where
  "converUriConfigObjectsToUris u = (case u of UriString s \<Rightarrow> Inr s | UriConfig c \<Rightarrow> amqplibUriConfigToUrl c)"

text \<open>\<open>new URL(uri).protocol\<close> is the text up to and including the first colon, in lower
  case; the URL parser itself (which also rejects malformed text) is the parameter \<open>parse\<close>.\<close>

definition validateRabbitMqUris :: "(string \<Rightarrow> string option) \<Rightarrow> string \<Rightarrow> jserr + unit" where
  "validateRabbitMqUris parse uri =
     (case parse uri of
        None \<Rightarrow> Inl (mk_err ''TypeError'' ''Invalid URL'')
      | Some protocol \<Rightarrow>
          if starts_with ''amqp'' protocol then Inr ()
          else Inl (generic_error ''RabbitMQ URI protocol must start with amqp or amqps''))"

text \<open>The encoded credentials cannot break out of their place in the URL.\<close>

lemma hex_digit_safe:
  assumes "d < 16"
  shows "hex_digit d \<noteq> CHR '':''" and "hex_digit d \<noteq> CHR ''@''" and "hex_digit d \<noteq> CHR ''/''"
proof -
  have "list_all (\<lambda>d. hex_digit d \<noteq> CHR '':'' \<and> hex_digit d \<noteq> CHR ''@'' \<and> hex_digit d \<noteq> CHR ''/'') [0..<16]"
    by code_simp
  then have "\<forall>d < 16. hex_digit d \<noteq> CHR '':'' \<and> hex_digit d \<noteq> CHR ''@'' \<and> hex_digit d \<noteq> CHR ''/''"
    by (simp add: list_all_iff)
  with assms show "hex_digit d \<noteq> CHR '':''" and "hex_digit d \<noteq> CHR ''@''" and "hex_digit d \<noteq> CHR ''/''" by simp_all
qed

lemma unreserved_safe: "is_unreserved c \<Longrightarrow> c \<noteq> CHR '':'' \<and> c \<noteq> CHR ''@'' \<and> c \<noteq> CHR ''/''"
  by (auto simp: is_unreserved_def)

text \<open>Encoding leaves no delimiter of the authority part in the credentials: user names
  and passwords with \<open>:\<close>, \<open>@\<close> or \<open>/\<close> cannot change the host the connection goes to.\<close>

theorem encodeURIComponent_no_delimiter:
  "set (encodeURIComponent s) \<inter> {CHR '':'', CHR ''@'', CHR ''/''} = {}"
proof (induction s)
  case Nil
  then show ?case by (simp add: encodeURIComponent_def)
next
  case (Cons c s)
  have lt: "of_char c div 16 < (16 :: nat)" "of_char c mod 16 < (16 :: nat)"
    using nat_of_char_less_256 [of c] by (simp_all add: less_mult_imp_div_less)
  show ?case
    using Cons unreserved_safe [of c] hex_digit_safe [OF lt(1)] hex_digit_safe [OF lt(2)]
    by (auto simp: encodeURIComponent_def Let_def)
qed

end
