(* ===== verification/Amqp_Consumer.thy ===== *)
theory Amqp_Consumer
  imports Retry_Policy Amqp_Utils
begin

text \<open>
  The consumer side of \<open>amqp-lib/amqp/connection.ts\<close>: which error handler a subscription
  gets, how a delivery is deserialized, and what the subscriber and RPC callbacks do with it,
  with the legacy behaviours of \<open>errorBehaviors.ts\<close>.

  As in \<open>Retry_Policy\<close>, the calls to the broker go to a log and an environment decides which
  of them succeed. The application's handler and the deserializer are parameters; they are
  collected, with the environment, in a record \<open>runtime\<close>.
\<close>

section \<open>Error behaviours\<close>

datatype legacy_behavior = LegacyAck | LegacyRequeue | LegacyNack

definition getHandlerForLegacyBehavior :: "string \<Rightarrow> legacy_behavior" where
  "getHandlerForLegacyBehavior behavior =
     (if behavior = ''ACK'' then LegacyAck
      else if behavior = ''REQUEUE'' then LegacyRequeue
      else LegacyNack)"

fun legacyErrorHandler :: "legacy_behavior \<Rightarrow> ext_call" where
  "legacyErrorHandler LegacyAck = CAck"
| "legacyErrorHandler LegacyRequeue = CNack True"
| "legacyErrorHandler LegacyNack = CNack False"

text \<open>An application's own error handler sees the message and the error; it may make calls
  of its own and may throw (\<open>False\<close>).\<close>

type_synonym user_handler = "env \<Rightarrow> amqp_msg \<Rightarrow> thrown \<Rightarrow> ext_call list \<Rightarrow> bool \<times> ext_call list"

datatype resolved_handler =
    UserHandler user_handler
  | RetryHandler retry_policy
  | LegacyHandler legacy_behavior

record handler_options =
  ho_queue :: "string option"
  ho_exchange :: "string option"
  ho_routingKey :: rk_pattern
  ho_errorHandler :: "user_handler option"
  ho_retry :: "retry_policy option"
  ho_errorBehavior :: "string option"
  ho_allowNonJson :: bool
  ho_usePersistentReplyTo :: "bool option"

record connection_errors =
  ce_retry :: "retry_policy option"
  ce_defaultRpcErrorHandler :: "user_handler option"
  ce_defaultSubscribeErrorBehavior :: "string option"

datatype consumer_kind = KindRpc | KindSubscribe

definition legacy :: "string \<Rightarrow> resolved_handler" where
  "legacy behavior = LegacyHandler (getHandlerForLegacyBehavior (to_upper behavior))"

definition resolveErrorHandler :: "handler_options \<Rightarrow> connection_errors \<Rightarrow> consumer_kind \<Rightarrow> resolved_handler" where
  "resolveErrorHandler options cfg kind =
     (case ho_errorHandler options of Some h \<Rightarrow> UserHandler h | None \<Rightarrow>
      case ho_retry options of Some p \<Rightarrow> RetryHandler p | None \<Rightarrow>
      if truthy_str (ho_errorBehavior options) then legacy (the (ho_errorBehavior options)) else
      case ce_retry cfg of Some p \<Rightarrow> RetryHandler p | None \<Rightarrow>
      if kind = KindRpc \<and> ce_defaultRpcErrorHandler cfg \<noteq> None
      then UserHandler (the (ce_defaultRpcErrorHandler cfg)) else
      if truthy_str (ce_defaultSubscribeErrorBehavior cfg)
      then legacy (the (ce_defaultSubscribeErrorBehavior cfg))
      else RetryHandler DEFAULT_RETRY_POLICY)"

text \<open>Running the handler inside the callback's \<open>try\<close>: what it throws is logged and dropped.\<close>

fun runErrorHandler ::
  "string \<Rightarrow> env \<Rightarrow> resolved_handler \<Rightarrow> amqp_msg \<Rightarrow> thrown \<Rightarrow> ext_call list \<Rightarrow> ext_call list" where
  "runErrorHandler queue env (UserHandler h) m e log = snd (h env m e log)"
| "runErrorHandler queue env (RetryHandler p) m e log = retry_error_handler queue p env m e log"
| "runErrorHandler queue env (LegacyHandler b) m e log = snd (call env (legacyErrorHandler b) log)"

section \<open>Deliveries\<close>

datatype handler_result = HValue jval | HNack bool | HThrow jval

record runtime =
  rt_env :: env
  rt_deserializer :: "jval \<Rightarrow> jval + jval"
  rt_rawText :: "jval \<Rightarrow> jval"
  rt_serializable :: "jval \<Rightarrow> bool"
  rt_handler :: "jval \<Rightarrow> amqp_msg \<Rightarrow> handler_result"
  rt_callError :: jval

text \<open>A message's content is a buffer, which is truthy even when it is empty; only an absent
  content skips the deserializer.\<close>

definition deserializeMessage :: "runtime \<Rightarrow> handler_options \<Rightarrow> amqp_msg \<Rightarrow> jval + jval" where
  "deserializeMessage rt options m =
     (if nullish (m_content m) then Inr JUndef
      else case rt_deserializer rt (m_content m) of
             Inr v \<Rightarrow> Inr v
           | Inl e \<Rightarrow> if ho_allowNonJson options then Inr (rt_rawText rt (m_content m)) else Inl e)"

definition tryDeserializeMessage :: "runtime \<Rightarrow> handler_options \<Rightarrow> amqp_msg \<Rightarrow> thrown + jval" where
  "tryDeserializeMessage rt options m =
     (case deserializeMessage rt options m of Inl e \<Rightarrow> Inl (DeserErr e) | Inr v \<Rightarrow> Inr v)"

text \<open>The subscriber callback: the \<open>try\<close> block yields the calls made and what it threw.\<close>

definition subscriberTry :: "runtime \<Rightarrow> handler_options \<Rightarrow> amqp_msg \<Rightarrow> ext_call list \<Rightarrow> thrown option \<times> ext_call list" where
  "subscriberTry rt options m log =
     (case tryDeserializeMessage rt options m of
        Inl e \<Rightarrow> (Some e, log)
      | Inr v \<Rightarrow>
         (case rt_handler rt v m of
            HThrow e \<Rightarrow> (Some (OtherErr e), log)
          | HNack requeue \<Rightarrow>
              (let (ok, log1) = call (rt_env rt) (CNack requeue) log in
               (if ok then None else Some (OtherErr (rt_callError rt)), log1))
          | HValue response \<Rightarrow>
              if truthy response \<and> \<not> rt_serializable rt response then (Some (OtherErr (rt_callError rt)), log)
              else (let (ok, log1) = call (rt_env rt) CAck log in
                    (if ok then None else Some (OtherErr (rt_callError rt)), log1))))"

definition subscriberCallback ::
  "runtime \<Rightarrow> string \<Rightarrow> handler_options \<Rightarrow> resolved_handler \<Rightarrow> amqp_msg option \<Rightarrow> ext_call list \<Rightarrow> ext_call list" where
  "subscriberCallback rt queue options eh msg log =
     (case msg of None \<Rightarrow> log
      | Some m \<Rightarrow>
         (case subscriberTry rt options m log of
            (None, log1) \<Rightarrow> log1
          | (Some e, log1) \<Rightarrow> runErrorHandler queue (rt_env rt) eh m e log1))"

definition reply_props :: "handler_options \<Rightarrow> amqp_msg \<Rightarrow> msg_props" where
  "reply_props options m =
     \<lparr>p_headers = p_headers (m_props m), p_replyTo = None, p_correlationId = p_correlationId (m_props m),
      p_expiration = p_expiration (m_props m),
      p_rest = [(''persistent'', JBool (coalesce (ho_usePersistentReplyTo options) False))]\<rparr>"

definition rpcTry :: "runtime \<Rightarrow> handler_options \<Rightarrow> amqp_msg \<Rightarrow> ext_call list \<Rightarrow> thrown option \<times> ext_call list" where
  "rpcTry rt options m log =
     (let err = Some (OtherErr (rt_callError rt)) in
      if \<not> matchesRoutingKey (m_routingKey m) (ho_routingKey options) then
        (let (ok, log1) = call (rt_env rt) (CNack False) log in (if ok then None else err, log1))
      else
       case tryDeserializeMessage rt options m of
         Inl e \<Rightarrow> (Some e, log)
       | Inr v \<Rightarrow>
          (case rt_handler rt v m of
             HThrow e \<Rightarrow> (Some (OtherErr e), log)
           | HNack requeue \<Rightarrow>
               (let (ok, log1) = call (rt_env rt) (CNack requeue) log in (if ok then None else err, log1))
           | HValue response \<Rightarrow>
               (let (sent, log1) =
                  (if truthy_str (p_replyTo (m_props m)) then
                     (if \<not> nullish response \<and> \<not> rt_serializable rt response then (False, log)
                      else call (rt_env rt) (CPublish [] (the (p_replyTo (m_props m))) response (reply_props options m)) log)
                   else (True, log))
                in if \<not> sent then (err, log1)
                   else (let (ok, log2) = call (rt_env rt) CAck log1 in (if ok then None else err, log2)))))"

definition rpcCallback ::
  "runtime \<Rightarrow> string \<Rightarrow> handler_options \<Rightarrow> resolved_handler \<Rightarrow> amqp_msg option \<Rightarrow> ext_call list \<Rightarrow> ext_call list" where
  "rpcCallback rt queue options eh msg log =
     (case msg of None \<Rightarrow> log
      | Some m \<Rightarrow>
         (case rpcTry rt options m log of
            (None, log1) \<Rightarrow> log1
          | (Some e, log1) \<Rightarrow> runErrorHandler queue (rt_env rt) eh m e log1))"

section \<open>Lemmas\<close>

text \<open>The library's own error handlers settle the message, as the retry handler does.\<close>

definition settles :: "env \<Rightarrow> ext_call list \<Rightarrow> ext_call list \<Rightarrow> bool" where
  "settles env log log' \<longleftrightarrow>
     (\<exists>xs. log' = log @ xs \<and> xs \<noteq> [] \<and> is_settle (last xs)) \<and> settled env log' \<le> Suc (settled env log)"

fun is_builtin :: "resolved_handler \<Rightarrow> bool" where
  "is_builtin (UserHandler h) = False"
| "is_builtin (RetryHandler p) = True"
| "is_builtin (LegacyHandler b) = True"

lemma settles_snoc: "is_settle c \<Longrightarrow> settles env log (log @ [c])"
  by (auto simp: settles_def settled_snoc)

lemma retry_settles: "settles env log (retry_error_handler queue p env m e log)"
  using retry_extends_settled [of queue p env m e log] unfolding settles_def by metis

lemma legacy_settle: "is_settle (legacyErrorHandler b)"
  by (cases b) auto

lemma runErrorHandler_settles: "is_builtin eh \<Longrightarrow> settles env log (runErrorHandler queue env eh m e log)"
  by (cases eh) (auto simp: retry_settles legacy_settle intro: settles_snoc)

text \<open>After a prefix that settled nothing, settling still counts once.\<close>

lemma settles_after:
  "settles env (log @ ys) log' \<Longrightarrow> settled env (log @ ys) = settled env log \<Longrightarrow> settles env log log'"
  unfolding settles_def by (metis append.assoc append_is_Nil_conv last_append)

definition settled_or_same :: "env \<Rightarrow> ext_call list \<Rightarrow> thrown option \<times> ext_call list \<Rightarrow> bool" where
  "settled_or_same env log r \<longleftrightarrow>
     (case r of (None, log') \<Rightarrow> settles env log log'
      | (Some e, log') \<Rightarrow> (\<exists>ys. log' = log @ ys) \<and> settled env log' = settled env log)"

lemma callback_settles:
  assumes "settled_or_same env log r" and "is_builtin eh"
  shows "settles env log (case r of (None, log1) \<Rightarrow> log1 | (Some e, log1) \<Rightarrow> runErrorHandler queue env eh m e log1)"
proof -
  obtain o' log1 where r: "r = (o', log1)" by (cases r)
  show ?thesis
  proof (cases o')
    case None
    with assms(1) show ?thesis by (simp add: r settled_or_same_def)
  next
    case (Some e)
    with assms(1) obtain ys where ys: "log1 = log @ ys" "settled env (log @ ys) = settled env log"
      by (auto simp: r settled_or_same_def)
    have "settles env (log @ ys) (runErrorHandler queue env eh m e (log @ ys))"
      by (rule runErrorHandler_settles [OF assms(2)])
    from settles_after [OF this ys(2)] show ?thesis by (simp add: r Some ys(1))
  qed
qed

lemma subscriberTry_settled: "settled_or_same (rt_env rt) log (subscriberTry rt options m log)"
  by (auto simp: subscriberTry_def settled_or_same_def settled_snoc settles_snoc
      split: sum.splits handler_result.splits)

lemma rpcTry_settled: "settled_or_same (rt_env rt) log (rpcTry rt options m log)"
proof -
  have two: "settles env log (log @ [CPublish x r c q, CAck])" for env x r c q
    using settles_after [OF settles_snoc [of CAck env "log @ [CPublish x r c q]"]] by (simp add: settled_snoc)
  have two': "settled env (log @ [CPublish x r c q, d]) = settled env log + (if is_settle d \<and> env (Suc (length log)) then 1 else 0)"
    for env x r c q d
    using settled_snoc [of env "log @ [CPublish x r c q]" d] by (simp add: settled_snoc)
  show ?thesis
    by (auto simp: rpcTry_def Let_def settled_or_same_def settled_snoc settles_snoc two two'
        split: sum.splits handler_result.splits)
qed

section \<open>Properties\<close>

text \<open>Concrete options and runtimes for the witnesses.\<close>

definition sample_options :: handler_options where
  "sample_options = \<lparr>ho_queue = Some ''q'', ho_exchange = None, ho_routingKey = OnePattern ''#'', ho_errorHandler = None,
        ho_retry = None, ho_errorBehavior = None, ho_allowNonJson = False, ho_usePersistentReplyTo = None\<rparr>"

definition sample_runtime :: "env \<Rightarrow> (jval \<Rightarrow> jval + jval) \<Rightarrow> handler_result \<Rightarrow> runtime" where
  "sample_runtime env des r = \<lparr>rt_env = env, rt_deserializer = des, rt_rawText = id,
     rt_serializable = (\<lambda>_. True), rt_handler = (\<lambda>v m. r), rt_callError = JNull\<rparr>"

definition sample_request :: amqp_msg where
  "sample_request = sample_msg\<lparr>m_props := (m_props sample_msg)\<lparr>p_replyTo := Some ''r''\<rparr>\<rparr>"

text \<open>C8: Every delivery is settled: whatever the handler, the deserializer and the broker do,
  the RPC callback with one of the library's own error handlers ends in an ack or nack of the
  message, and at most one such call takes effect.\<close>

theorem rpcCallback_settles:
  "is_builtin eh \<Longrightarrow> settles (rt_env rt) log (rpcCallback rt queue options eh (Some m) log)"
  unfolding rpcCallback_def using callback_settles [OF rpcTry_settled] by simp

theorem rpcCallback_settles_witness:
  "settles (\<lambda>n. n \<noteq> 0) []
     (rpcCallback (sample_runtime (\<lambda>n. n \<noteq> 0) Inr (HThrow JNull)) ''q''
      sample_options
      (LegacyHandler LegacyAck) (Some sample_msg) [])"
  using rpcCallback_settles [of "LegacyHandler LegacyAck"
      "sample_runtime (\<lambda>n. n \<noteq> 0) Inr (HThrow JNull)"] by (simp add: sample_runtime_def)

text \<open>The same holds for the subscriber callback.\<close>

theorem subscriberCallback_settles:
  "is_builtin eh \<Longrightarrow> settles (rt_env rt) log (subscriberCallback rt queue options eh (Some m) log)"
  unfolding subscriberCallback_def using callback_settles [OF subscriberTry_settled] by simp

theorem subscriberCallback_settles_witness:
  "settles (\<lambda>n. False) []
     (subscriberCallback (sample_runtime (\<lambda>n. False) Inl (HValue JUndef)) ''q''
      sample_options
      (RetryHandler DEFAULT_RETRY_POLICY) (Some sample_msg) [])"
  using subscriberCallback_settles [of "RetryHandler DEFAULT_RETRY_POLICY"
      "sample_runtime (\<lambda>n. False) Inl (HValue JUndef)"] by (simp add: sample_runtime_def)

text \<open>The unbounded requeue is opt-in: a consumer gets the requeueing handler only when a
  legacy behaviour equal to \<open>requeue\<close> up to case is configured on the subscription or, with
  neither a retry policy nor an own handler in force, on the connection; with no setting at
  all it gets the built-in bounded policy.\<close>

theorem resolveErrorHandler_requeue_opt_in:
  "(resolveErrorHandler options cfg kind = LegacyHandler LegacyRequeue) =
     (ho_errorHandler options = None \<and> ho_retry options = None \<and>
      (if truthy_str (ho_errorBehavior options) then map_option to_upper (ho_errorBehavior options) = Some ''REQUEUE''
       else ce_retry cfg = None \<and> \<not> (kind = KindRpc \<and> ce_defaultRpcErrorHandler cfg \<noteq> None) \<and>
            map_option to_upper (ce_defaultSubscribeErrorBehavior cfg) = Some ''REQUEUE''))"
  by (cases "ho_errorBehavior options"; cases "ce_defaultSubscribeErrorBehavior cfg")
     (auto simp: resolveErrorHandler_def legacy_def getHandlerForLegacyBehavior_def to_upper_def
       split: option.splits)

text \<open>The subscription's retry policy is taken before its legacy behaviour.\<close>

lemma resolveErrorHandler_retry_first:
  "ho_errorHandler options = None \<Longrightarrow> ho_retry options = Some p \<Longrightarrow>
   resolveErrorHandler options cfg kind = RetryHandler p"
  by (simp add: resolveErrorHandler_def)

text \<open>A message that cannot be deserialized is never retried: under the retry handler no
  copy of it goes back to its work queue or wait queue, unless its reply address is that
  queue.\<close>

theorem undeserializable_not_retried:
  assumes "tryDeserializeMessage rt options m = Inl e"
    and "p_replyTo (m_props m) \<noteq> Some (copy_target queue p)"
  shows "redelivery stamp queue p (subscriberCallback rt queue options (RetryHandler p) (Some m) []) = None"
proof -
  from assms(1) obtain v where e: "e = DeserErr v"
    by (auto simp: tryDeserializeMessage_def split: sum.splits)
  show ?thesis
    using assms by (cases "p_replyTo (m_props m)")
      (auto simp: subscriberCallback_def subscriberTry_def e retry_error_handler_def dispose_def exhaust_def
        replyErrorToRpcCaller_def Let_def split: option.splits exhaust_mode.splits)
qed

theorem undeserializable_not_retried_witness:
  "redelivery id ''q'' DEFAULT_RETRY_POLICY
     (subscriberCallback (sample_runtime (\<lambda>n. True) Inl (HValue JUndef)) ''q''
      sample_options
      (RetryHandler DEFAULT_RETRY_POLICY) (Some sample_msg) []) = None"
  by (rule undeserializable_not_retried [where e = "DeserErr (JStr ''x'')"])
     (simp_all add: tryDeserializeMessage_def deserializeMessage_def sample_msg_def sample_runtime_def
       sample_options_def)

text \<open>A caller's answer comes before the ack: when a request with a reply address was
  handled and its delivery acked by the RPC callback itself, the broker had confirmed the
  reply, addressed to that address with the request's correlation id and headers.\<close>

theorem rpc_reply_before_ack:
  assumes "rpcTry rt options m [] = (None, log)" and "CAck \<in> set log"
    and "p_replyTo (m_props m) = Some (c # cs)"
  shows "\<exists>response. log = [CPublish [] (c # cs) response (reply_props options m), CAck] \<and> rt_env rt 0"
  using assms
  by (auto simp: rpcTry_def Let_def split: if_splits sum.splits handler_result.splits)

theorem rpc_reply_before_ack_witness:
  "\<exists>response. [CPublish [] ''r'' (JNum 7) (reply_props sample_options sample_request), CAck] =
      [CPublish [] ''r'' response (reply_props sample_options sample_request), CAck] \<and>
      rt_env (sample_runtime (\<lambda>n. True) Inr (HValue (JNum 7))) 0"
  by (rule rpc_reply_before_ack [where m = sample_request])
     (simp_all add: rpcTry_def tryDeserializeMessage_def deserializeMessage_def sample_request_def sample_runtime_def
       sample_options_def sample_msg_def matchesRoutingKey_def matchesOne_def)

end
