(* ===== verification/Amqp_Topology.thy ===== *)
theory Amqp_Topology
  imports Prelude
begin

text \<open>
  What \<open>amqp-lib/amqp/connection.ts\<close> declares on the broker when a channel comes up: the
  choice of the default channel, the alternate exchanges and the exchanges that refer to
  them, exchange bindings, configured queues with their bindings, and the direct-reply
  consumers. The calls on a channel are sent in the order the code issues them and are
  modelled as that list; \<open>Promise.all\<close> over a list issues its calls in list order.
\<close>

section \<open>Configuration\<close>

record ae_queue =
  aq_name :: string
  aq_options :: "(string \<times> jval) list option"
  aq_bindingKey :: "string option"
  aq_bindingArgs :: jval

record ae_config =
  ae_name :: string
  ae_type :: "string option"
  ae_options :: "(string \<times> jval) list option"
  ae_unroutableQueue :: "ae_queue option"

datatype ae_raw = AeAbsent | AeName string | AeConfig ae_config

record exchange_config =
  ec_name :: string
  ec_type :: "string option"
  ec_createIfNotExists :: "bool option"
  ec_options :: "(string \<times> jval) list option"
  ec_alternateExchange :: ae_raw

record exchange_binding =
  eb_destination :: string
  eb_source :: string
  eb_pattern :: string
  eb_args :: jval

datatype routing_keys = RkAbsent | RkOne string | RkMany "string option list"

record queue_config =
  qc_name :: "string option"
  qc_createIfNotExists :: "bool option"
  qc_options :: "(string \<times> jval) list option"
  qc_exchange :: "string option"
  qc_routingKey :: routing_keys
  qc_bindArgs :: jval
  qc_consumerTag :: "string option"

record channel_config =
  cc_prefetchCount :: "int option"
  cc_default :: bool

record amqp_config =
  cf_connectionName :: "string option"
  cf_prefetchCount :: int
  cf_channels :: "(string \<times> channel_config) list"
  cf_exchanges :: "exchange_config list"
  cf_exchangeBindings :: "exchange_binding list"
  cf_queues :: "queue_config list"
  cf_defaultExchangeType :: string
  cf_defaultAlternateExchange :: ae_raw
  cf_enableDirectReplyTo :: bool
  cf_replyQueues :: "(string \<times> string) list"

datatype chan_call =
    ChPrefetch int
  | ChAssertExchange string string "(string \<times> jval) list"
  | ChCheckExchange string
  | ChBindExchange string string string jval
  | ChAssertQueue string "(string \<times> jval) list"
  | ChCheckQueue string
  | ChBindQueue string string string jval
  | ChConsume string

section \<open>The default channel\<close>

definition or_int :: "int option \<Rightarrow> int \<Rightarrow> int" where
  "or_int x d = (case x of None \<Rightarrow> d | Some n \<Rightarrow> if n = 0 then d else n)"

definition AMQP_CONNECTION_NAME :: string where "AMQP_CONNECTION_NAME = ''AmqpConnection''"

text \<open>The loop over the configured channels: while the default channel still has the class's
  own name, the first channel marked default takes its place; the others are created.\<close>

fun pickChannels ::
  "int \<Rightarrow> string \<Rightarrow> int \<Rightarrow> (string \<times> channel_config) list \<Rightarrow> string \<times> int \<times> (string \<times> channel_config) list" where
  "pickChannels globalPrefetch dname dprefetch [] = (dname, dprefetch, [])"
| "pickChannels globalPrefetch dname dprefetch ((n, c) # cs) =
     (if dname = AMQP_CONNECTION_NAME \<and> cc_default c
      then pickChannels globalPrefetch n (or_int (cc_prefetchCount c) globalPrefetch) cs
      else (let (dn, dp, created) = pickChannels globalPrefetch dname dprefetch cs
            in (dn, dp, (n, c\<lparr>cc_default := False\<rparr>) # created)))"

text \<open>The channels \<open>initCore\<close> sets up, in order; the default channel comes last.\<close>

definition initChannels :: "amqp_config \<Rightarrow> (string \<times> channel_config) list" where
  "initChannels cfg =
     (let dname = (if truthy_str (cf_connectionName cfg) then the (cf_connectionName cfg) else AMQP_CONNECTION_NAME);
          (dn, dp, created) = pickChannels (cf_prefetchCount cfg) dname (cf_prefetchCount cfg) (cf_channels cfg)
      in created @ [(dn, \<lparr>cc_prefetchCount = Some dp, cc_default = True\<rparr>)])"

record managed_channels =
  mc_channels :: "(string \<times> channel_config) list"
  mc_default :: "string option"

definition setupManagedChannel :: "string \<Rightarrow> channel_config \<Rightarrow> managed_channels \<Rightarrow> managed_channels" where
  "setupManagedChannel name config s =
     s\<lparr>mc_channels := AList.update name config (mc_channels s),
       mc_default := (if cc_default config then Some name else mc_default s)\<rparr>"

definition initCore :: "amqp_config \<Rightarrow> managed_channels" where
  "initCore cfg = fold (\<lambda>(n, c) s. setupManagedChannel n c s) (initChannels cfg) \<lparr>mc_channels = [], mc_default = None\<rparr>"

definition selectManagedChannel :: "managed_channels \<Rightarrow> string option \<Rightarrow> string option" where
  "selectManagedChannel s name =
     (if \<not> truthy_str name then mc_default s
      else if map_of (mc_channels s) (the name) = None then mc_default s
      else name)"

section \<open>Alternate exchanges\<close>

definition normalizeAlternateExchange :: "ae_raw \<Rightarrow> ae_config option" where
  "normalizeAlternateExchange raw =
     (case raw of
        AeAbsent \<Rightarrow> None
      | AeName s \<Rightarrow> if s = [] then None
          else Some \<lparr>ae_name = s, ae_type = None, ae_options = None, ae_unroutableQueue = None\<rparr>
      | AeConfig c \<Rightarrow> Some c)"

text \<open>The registry of all alternate exchanges by name; the first occurrence of a name wins.\<close>

definition registerAe :: "exchange_config \<Rightarrow> (string \<times> ae_config) list \<Rightarrow> (string \<times> ae_config) list" where
  "registerAe x reg =
     (case normalizeAlternateExchange (ec_alternateExchange x) of
        None \<Rightarrow> reg
      | Some ae \<Rightarrow> if map_of reg (ae_name ae) = None then AList.update (ae_name ae) ae reg else reg)"

definition aeRegistry :: "amqp_config \<Rightarrow> (string \<times> ae_config) list" where
  "aeRegistry cfg =
     fold registerAe (cf_exchanges cfg)
       (case normalizeAlternateExchange (cf_defaultAlternateExchange cfg) of
          None \<Rightarrow> [] | Some ae \<Rightarrow> [(ae_name ae, ae)])"

definition setupAlternateExchange :: "ae_config \<Rightarrow> chan_call list" where
  "setupAlternateExchange ae =
     ChAssertExchange (ae_name ae) (if truthy_str (ae_type ae) then the (ae_type ae) else ''fanout'')
       (spread [(''durable'', JBool True)] (coalesce (ae_options ae) [])) #
     (case ae_unroutableQueue ae of
        None \<Rightarrow> []
      | Some q \<Rightarrow>
          [ChAssertQueue (aq_name q) (spread [(''durable'', JBool True)] (coalesce (aq_options q) [])),
           ChBindQueue (aq_name q) (ae_name ae) (coalesce (aq_bindingKey q) []) (aq_bindingArgs q)])"

definition assertExchangeCall :: "amqp_config \<Rightarrow> exchange_config \<Rightarrow> chan_call" where
  "assertExchangeCall cfg x =
     (if coalesce (ec_createIfNotExists x) True then
        (let options = coalesce (ec_options x) [];
             effectiveAe = (case normalizeAlternateExchange (ec_alternateExchange x) of
                              Some ae \<Rightarrow> Some ae
                            | None \<Rightarrow> normalizeAlternateExchange (cf_defaultAlternateExchange cfg));
             options' = (if \<not> truthy (jget (JObj options) ''alternateExchange'')
                         then (case effectiveAe of None \<Rightarrow> options
                               | Some ae \<Rightarrow> AList.update ''alternateExchange'' (JStr (ae_name ae)) options)
                         else options)
         in ChAssertExchange (ec_name x)
              (if truthy_str (ec_type x) then the (ec_type x) else cf_defaultExchangeType cfg) options')
      else ChCheckExchange (ec_name x))"

section \<open>Queues\<close>

text \<open>\<open>setupQueue\<close>: the broker's answer to \<open>assertQueue\<close> and \<open>checkQueue\<close> (the queue's actual
  name, or an error) is the parameter \<open>answer\<close>, the error handler of the subscription is
  \<open>onError\<close>. The result is \<open>None\<close> when an error is thrown.\<close>

definition routingKeyList :: "routing_keys \<Rightarrow> string option list" where
  "routingKeyList rk = (case rk of RkAbsent \<Rightarrow> [None] | RkOne k \<Rightarrow> [Some k] | RkMany ks \<Rightarrow> ks)"

definition bindCalls :: "string \<Rightarrow> string option \<Rightarrow> routing_keys \<Rightarrow> jval \<Rightarrow> chan_call list" where
  "bindCalls actualQueue exchange rk args =
     (if truthy_str exchange
      then map (\<lambda>k. ChBindQueue actualQueue (the exchange) k args) (List.map_filter id (routingKeyList rk))
      else [])"

definition setupQueue ::
  "(string \<Rightarrow> string option) \<Rightarrow> (string \<Rightarrow> string option) \<Rightarrow> string option \<Rightarrow> bool option \<Rightarrow>
   string option \<Rightarrow> routing_keys \<Rightarrow> (string \<times> jval) list option \<Rightarrow> string option \<times> chan_call list" where
  "setupQueue answer onError queue createIfNotExists exchange rk queueOptions =
     (let queueName = coalesce queue [];
          create = coalesce createIfNotExists True;
          first = (if create then ChAssertQueue queueName (coalesce queueOptions []) else ChCheckQueue queueName);
          actual = (case answer queueName of
                      Some q \<Rightarrow> Some q
                    | None \<Rightarrow> if create then onError queueName else None);
          args = jget (JObj (coalesce queueOptions [])) ''bindQueueArguments''
      in case actual of
           None \<Rightarrow> (None, [first])
         | Some q \<Rightarrow> (Some q, first # bindCalls q exchange rk args))"

definition configuredQueueOptions :: "queue_config \<Rightarrow> (string \<times> jval) list" where
  "configuredQueueOptions q =
     (let options = coalesce (qc_options q) []
      in if qc_bindArgs q \<noteq> JUndef then AList.update ''bindQueueArguments'' (qc_bindArgs q) options else options)"

definition setupQueuesWithBindings :: "(string \<Rightarrow> string option) \<Rightarrow> queue_config list \<Rightarrow> (string option \<times> chan_call list) list" where
  "setupQueuesWithBindings answer queues =
     map (\<lambda>q. setupQueue answer (\<lambda>_. None) (qc_name q) (qc_createIfNotExists q) (qc_exchange q)
                (qc_routingKey q) (Some (configuredQueueOptions q))) queues"

section \<open>Channel initialisation\<close>

definition DIRECT_REPLY_QUEUE :: string where "DIRECT_REPLY_QUEUE = ''amq.rabbitmq.reply-to''"

definition setupInitChannel :: "(string \<Rightarrow> string option) \<Rightarrow> amqp_config \<Rightarrow> channel_config \<Rightarrow> chan_call list" where
  "setupInitChannel answer cfg config =
     ChPrefetch (or_int (cc_prefetchCount config) (cf_prefetchCount cfg)) #
     (if cc_default config then
        concat (map (\<lambda>(n, ae). setupAlternateExchange ae) (aeRegistry cfg)) @
        map (assertExchangeCall cfg) (cf_exchanges cfg) @
        map (\<lambda>b. ChBindExchange (eb_destination b) (eb_source b) (eb_pattern b) (eb_args b)) (cf_exchangeBindings cfg) @
        concat (map snd (setupQueuesWithBindings answer (cf_queues cfg))) @
        (if cf_enableDirectReplyTo cfg
         then ChConsume DIRECT_REPLY_QUEUE # map (\<lambda>(x, q). ChConsume q) (cf_replyQueues cfg)
         else [])
      else [])"

section \<open>Lemmas\<close>

lemma registerAe_keeps: "map_of reg n \<noteq> None \<Longrightarrow> map_of (registerAe x reg) n = map_of reg n"
  by (auto simp: registerAe_def om_simps split: option.splits)

lemma fold_registry_keeps: "map_of reg n \<noteq> None \<Longrightarrow> map_of (fold registerAe xs reg) n = map_of reg n"
  by (induction xs arbitrary: reg) (auto simp: registerAe_keeps)

lemma registerAe_has:
  "normalizeAlternateExchange (ec_alternateExchange x) = Some ae \<Longrightarrow> map_of (registerAe x reg) (ae_name ae) \<noteq> None"
  by (auto simp: registerAe_def om_simps)

lemma fold_registry_has:
  "x \<in> set xs \<Longrightarrow> normalizeAlternateExchange (ec_alternateExchange x) = Some ae \<Longrightarrow>
   map_of (fold registerAe xs reg) (ae_name ae) \<noteq> None"
proof (induction xs arbitrary: reg)
  case Nil
  then show ?case by simp
next
  case (Cons y ys)
  show ?case
  proof (cases "y = x")
    case True
    show ?thesis using fold_registry_keeps [OF registerAe_has [OF Cons.prems(2)]] registerAe_has [OF Cons.prems(2)]
      by (simp add: True)
  next
    case False
    with Cons show ?thesis by simp
  qed
qed

lemma aeRegistry_has_global:
  "normalizeAlternateExchange (cf_defaultAlternateExchange cfg) = Some ae \<Longrightarrow>
   map_of (aeRegistry cfg) (ae_name ae) = Some ae"
  unfolding aeRegistry_def by (subst fold_registry_keeps) auto

lemma aeRegistry_has:
  "x \<in> set (cf_exchanges cfg) \<Longrightarrow> normalizeAlternateExchange (ec_alternateExchange x) = Some ae \<Longrightarrow>
   map_of (aeRegistry cfg) (ae_name ae) \<noteq> None"
  unfolding aeRegistry_def by (rule fold_registry_has)

lemma fold_registry_names:
  "\<forall>(n, ae) \<in> set reg. n = ae_name ae \<Longrightarrow> \<forall>(n, ae) \<in> set (fold registerAe xs reg). n = ae_name ae"
proof (induction xs arbitrary: reg)
  case Nil
  then show ?case by simp
next
  case (Cons x xs)
  have "\<forall>(n, ae) \<in> set (registerAe x reg). n = ae_name ae"
    using Cons.prems by (auto simp: registerAe_def om_update_absent map_of_eq_None_iff split: option.splits)
  from Cons.IH [OF this] show ?case by simp
qed

lemma aeRegistry_names: "(n, ae) \<in> set (aeRegistry cfg) \<Longrightarrow> n = ae_name ae"
  unfolding aeRegistry_def
  using fold_registry_names [of "case normalizeAlternateExchange (cf_defaultAlternateExchange cfg) of
      None \<Rightarrow> [] | Some ae \<Rightarrow> [(ae_name ae, ae)]" "cf_exchanges cfg"]
  by (auto split: option.splits)

definition ae_asserts :: "amqp_config \<Rightarrow> string set" where
  "ae_asserts cfg = {n. \<exists>t opts. ChAssertExchange n t opts \<in>
     set (concat (map (\<lambda>(n, ae). setupAlternateExchange ae) (aeRegistry cfg)))}"

lemma ae_asserts_registry: "map_of (aeRegistry cfg) n \<noteq> None \<Longrightarrow> n \<in> ae_asserts cfg"
proof -
  assume "map_of (aeRegistry cfg) n \<noteq> None"
  then obtain ae where ae: "(n, ae) \<in> set (aeRegistry cfg)" by (meson map_of_SomeD not_Some_eq)
  with aeRegistry_names have n: "n = ae_name ae" by blast
  have "\<exists>t opts. ChAssertExchange n t opts \<in> set (setupAlternateExchange ae)"
    by (auto simp: setupAlternateExchange_def n)
  with ae show ?thesis unfolding ae_asserts_def by fastforce
qed

section \<open>Properties\<close>

text \<open>An alternate exchange exists before the exchanges that name it: whenever an exchange
  is asserted with an alternate exchange that its own options did not set, the calls made
  before any configured exchange is asserted include the assertion of that alternate exchange.\<close>

theorem alternate_exchanges_first:
  assumes "x \<in> set (cf_exchanges cfg)"
    and "assertExchangeCall cfg x = ChAssertExchange n t opts"
    and "\<not> truthy (jget (JObj (coalesce (ec_options x) [])) ''alternateExchange'')"
    and "map_of opts ''alternateExchange'' = Some (JStr a)" and "a \<noteq> []"
  shows "a \<in> ae_asserts cfg"
proof -
  have "\<exists>ae. ae_name ae = a \<and>
      (normalizeAlternateExchange (ec_alternateExchange x) = Some ae \<or>
       normalizeAlternateExchange (cf_defaultAlternateExchange cfg) = Some ae)"
    using assms(2-5)
    by (auto simp: assertExchangeCall_def Let_def om_simps split: if_splits option.splits)
  with assms(1) aeRegistry_has aeRegistry_has_global show ?thesis
    by (metis ae_asserts_registry option.distinct(1))
qed

definition sample_exchange :: exchange_config where
  "sample_exchange = \<lparr>ec_name = ''orders'', ec_type = None, ec_createIfNotExists = None, ec_options = None,
     ec_alternateExchange = AeName ''lost''\<rparr>"

definition sample_config :: amqp_config where
  "sample_config = \<lparr>cf_connectionName = None, cf_prefetchCount = 10, cf_channels = [], cf_exchanges = [sample_exchange],
     cf_exchangeBindings = [], cf_queues = [], cf_defaultExchangeType = ''topic'', cf_defaultAlternateExchange = AeAbsent,
     cf_enableDirectReplyTo = True, cf_replyQueues = []\<rparr>"

theorem alternate_exchanges_first_witness: "''lost'' \<in> ae_asserts sample_config"
  by (rule alternate_exchanges_first [where x = sample_exchange and opts = "[(''alternateExchange'', JStr ''lost'')]"])
     (simp_all add: sample_config_def sample_exchange_def assertExchangeCall_def normalizeAlternateExchange_def)

text \<open>The managed channels always have a default channel, it is one of the created
  channels, and selecting a channel by any name yields a created channel: the named one if it
  exists, the default one otherwise.\<close>

theorem selectManagedChannel_total:
  "\<exists>n c. selectManagedChannel (initCore cfg) name = Some n \<and> map_of (mc_channels (initCore cfg)) n = Some c \<and>
     (n = coalesce name [] \<or> mc_default (initCore cfg) = Some n \<and> cc_default c)"
proof -
  obtain dn dp created where p: "pickChannels (cf_prefetchCount cfg)
      (if truthy_str (cf_connectionName cfg) then the (cf_connectionName cfg) else AMQP_CONNECTION_NAME)
      (cf_prefetchCount cfg) (cf_channels cfg) = (dn, dp, created)"
    by (metis prod_cases3)
  let ?s = "fold (\<lambda>(n, c) s. setupManagedChannel n c s) created \<lparr>mc_channels = [], mc_default = None\<rparr>"
  have init: "initCore cfg = setupManagedChannel dn \<lparr>cc_prefetchCount = Some dp, cc_default = True\<rparr> ?s"
    by (simp add: initCore_def initChannels_def p)
  have def: "mc_default (initCore cfg) = Some dn"
    and look: "map_of (mc_channels (initCore cfg)) dn = Some \<lparr>cc_prefetchCount = Some dp, cc_default = True\<rparr>"
    by (simp_all add: init setupManagedChannel_def om_simps)
  show ?thesis
    using def look by (cases name) (auto simp: selectManagedChannel_def)
qed

end
