(* ===== verification/Amqp_Connection.thy ===== *)
theory Amqp_Connection
  imports Retry_Policy Amqp_Topology
begin

text \<open>
  The run-time state of \<open>amqp-lib/amqp/connection.ts\<close>: consumers and their cancellation, the
  tracking of outstanding messages and the shutdown sequence, the wait queues of delayed
  retries, and the matching of RPC replies to their requests.

  Consumers are a state machine. \<open>consumerFactory\<close> adds a setup function to a managed
  channel; the channel runs it when it connects and again on every reconnect. A setup reads
  the \<open>consumersCanceled\<close> latch, then awaits the broker (queue assertion, \<open>consume\<close>), and only
  then registers the consumer: reading and registering are two steps between which others run.
\<close>

section \<open>Consumers\<close>

record conn_state =
  cs_canceled :: bool
  cs_setups :: "string list"
  cs_inflight :: "string list"
  cs_consumers :: "(string \<times> string) list"
  cs_pending :: "string list"

definition init_conn :: conn_state where
  "init_conn = \<lparr>cs_canceled = False, cs_setups = [], cs_inflight = [], cs_consumers = [], cs_pending = []\<rparr>"

text \<open>A subscription is named by its queue; a consumer tag maps to the queue it consumes.\<close>

definition consumerFactory :: "string \<Rightarrow> conn_state \<Rightarrow> jserr + conn_state" where
  "consumerFactory queue s =
     (if cs_canceled s then Inl (generic_error ''Consumers were canceled (graceful drain)'')
      else Inr (s\<lparr>cs_setups := cs_setups s @ [queue]\<rparr>))"

definition startSetup :: "string \<Rightarrow> conn_state \<Rightarrow> conn_state" where
  "startSetup queue s = (if cs_canceled s then s else s\<lparr>cs_inflight := queue # cs_inflight s\<rparr>)"

definition registerConsumerForQueue :: "string \<Rightarrow> string \<Rightarrow> conn_state \<Rightarrow> conn_state" where
  "registerConsumerForQueue tag queue s = s\<lparr>cs_consumers := AList.update tag queue (cs_consumers s)\<rparr>"

definition finishSetup :: "string \<Rightarrow> string \<Rightarrow> conn_state \<Rightarrow> conn_state" where
  "finishSetup tag queue s =
     (registerConsumerForQueue tag queue s)\<lparr>cs_inflight := remove1 queue (cs_inflight s)\<rparr>"

definition failSetup :: "string \<Rightarrow> conn_state \<Rightarrow> conn_state" where
  "failSetup queue s = s\<lparr>cs_inflight := remove1 queue (cs_inflight s)\<rparr>"

text \<open>\<open>cancelConsumer\<close> drops the entry whether or not the broker's cancel succeeds.\<close>

definition cancelConsumer :: "string \<Rightarrow> conn_state \<Rightarrow> conn_state" where
  "cancelConsumer tag s = s\<lparr>cs_consumers := AList.delete tag (cs_consumers s)\<rparr>"

text \<open>\<open>cancelAllConsumers\<close>: the latch and the snapshot of the tags, then one cancellation per
  tag, each awaiting the broker.\<close>

definition cancelAllConsumers :: "conn_state \<Rightarrow> conn_state" where
  "cancelAllConsumers s = s\<lparr>cs_canceled := True, cs_pending := map fst (cs_consumers s)\<rparr>"

definition cancelPending :: "string \<Rightarrow> conn_state \<Rightarrow> conn_state" where
  "cancelPending tag s = (cancelConsumer tag s)\<lparr>cs_pending := remove1 tag (cs_pending s)\<rparr>"

inductive conn_step :: "conn_state \<Rightarrow> conn_state \<Rightarrow> bool" where
  subscribe: "consumerFactory q s = Inr t \<Longrightarrow> conn_step s t"
| start: "q \<in> set (cs_setups s) \<Longrightarrow> conn_step s (startSetup q s)"
| finish: "q \<in> set (cs_inflight s) \<Longrightarrow> conn_step s (finishSetup tag q s)"
| fail: "q \<in> set (cs_inflight s) \<Longrightarrow> conn_step s (failSetup q s)"
| cancelOne: "conn_step s (cancelConsumer tag s)"
| cancelAll: "conn_step s (cancelAllConsumers s)"
| cancelNext: "tag \<in> set (cs_pending s) \<Longrightarrow> conn_step s (cancelPending tag s)"

inductive_cases conn_stepE: "conn_step s t"

inductive conn_reaches :: "conn_state \<Rightarrow> conn_state \<Rightarrow> bool" where
  refl: "conn_reaches s s"
| step: "conn_reaches s t \<Longrightarrow> conn_step t u \<Longrightarrow> conn_reaches s u"

lemma conn_reaches_trans: "conn_reaches t u \<Longrightarrow> conn_reaches s t \<Longrightarrow> conn_reaches s u"
  by (induction rule: conn_reaches.induct) (auto intro: conn_reaches.step)

lemma conn_reaches_one: "conn_step s t \<Longrightarrow> conn_reaches s t"
  by (rule conn_reaches.step [OF conn_reaches.refl])

lemmas conn_defs = consumerFactory_def startSetup_def finishSetup_def registerConsumerForQueue_def
  failSetup_def cancelConsumer_def cancelAllConsumers_def cancelPending_def

text \<open>After the latch: no setup starts, so what is registered comes from the consumers that
  were there and from the setups already in flight.\<close>

definition drained_from :: "conn_state \<Rightarrow> conn_state \<Rightarrow> bool" where
  "drained_from s t \<longleftrightarrow>
     cs_canceled t \<and> set (cs_inflight t) \<subseteq> set (cs_inflight s) \<and>
     snd ` set (cs_consumers t) \<subseteq> snd ` set (cs_consumers s) \<union> set (cs_inflight s)"

lemma snd_update: "snd ` set (AList.update k v m) \<subseteq> insert v (snd ` set m)"
  by (induction m) auto

lemma snd_delete: "snd ` set (AList.delete k m) \<subseteq> snd ` set m"
  by (auto simp: AList.delete_eq)

lemma drained_step: "conn_step t u \<Longrightarrow> drained_from s t \<Longrightarrow> drained_from s u"
proof (induction rule: conn_step.induct)
  case (finish q t tag)
  let ?m = "AList.update tag q (cs_consumers t)"
  from finish have "snd ` set ?m \<subseteq> snd ` set (cs_consumers s) \<union> set (cs_inflight s)"
    by (intro order_trans [OF snd_update]) (auto simp: drained_from_def)
  with finish set_remove1_subset [of q "cs_inflight t"] show ?case
    by (simp add: drained_from_def conn_defs) blast
next
  case (fail q t)
  then show ?case using set_remove1_subset [of q "cs_inflight t"] by (auto simp: drained_from_def conn_defs)
next
  case (cancelOne t tag)
  then show ?case
    by (simp add: drained_from_def conn_defs order_trans [OF snd_delete [of tag "cs_consumers t"]])
next
  case (cancelNext tag t)
  then show ?case
    by (simp add: drained_from_def conn_defs order_trans [OF snd_delete [of tag "cs_consumers t"]])
qed (auto simp: drained_from_def conn_defs)

lemma drained_reaches: "conn_reaches s t \<Longrightarrow> cs_canceled s \<Longrightarrow> drained_from s t"
proof (induction rule: conn_reaches.induct)
  case (refl s)
  then show ?case by (auto simp: drained_from_def)
next
  case (step s t u)
  then show ?case by (blast intro: drained_step)
qed

text \<open>With nothing in flight the registered tags only shrink.\<close>

definition shrinks :: "conn_state \<Rightarrow> conn_state \<Rightarrow> bool" where
  "shrinks s t \<longleftrightarrow> cs_canceled t \<and> cs_inflight t = [] \<and> set (cs_consumers t) \<subseteq> set (cs_consumers s)"

lemma set_delete_subset: "set (AList.delete k m) \<subseteq> set m"
  by (auto simp: AList.delete_eq)

lemma shrinks_step: "conn_step t u \<Longrightarrow> shrinks s t \<Longrightarrow> shrinks s u"
proof (induction rule: conn_step.induct)
  case (cancelOne t tag)
  then show ?case using set_delete_subset [of tag "cs_consumers t"] by (auto simp: shrinks_def conn_defs)
next
  case (cancelNext tag t)
  then show ?case using set_delete_subset [of tag "cs_consumers t"] by (auto simp: shrinks_def conn_defs)
qed (auto simp: shrinks_def conn_defs)

lemma shrinks_reaches: "conn_reaches s t \<Longrightarrow> cs_canceled s \<Longrightarrow> cs_inflight s = [] \<Longrightarrow> shrinks s t"
  by (induction rule: conn_reaches.induct) (auto simp: shrinks_def dest: shrinks_step [unfolded shrinks_def])

section \<open>Outstanding messages and closing\<close>

datatype close_phase = Running | Canceling | WaitingOutstanding | ClosingChannels | ClosedConnection

record close_state =
  cl_phase :: close_phase
  cl_outstanding :: "nat list"
  cl_channels :: "string list"

definition wrapConsumer :: "nat \<Rightarrow> close_state \<Rightarrow> close_state" where
  "wrapConsumer promise s = s\<lparr>cl_outstanding := promise # cl_outstanding s\<rparr>"

definition promiseFinally :: "nat \<Rightarrow> close_state \<Rightarrow> close_state" where
  "promiseFinally promise s = s\<lparr>cl_outstanding := remove1 promise (cl_outstanding s)\<rparr>"

text \<open>\<open>Promise.all\<close> over the set takes the promises that are outstanding at that moment; it
  resolves when they have all settled (\<open>cl_waiting\<close> is that snapshot).\<close>

record closing = close_state +
  cl_waiting :: "nat list"

fun close_next :: "closing \<Rightarrow> closing" where
  "close_next s =
     (case cl_phase s of
        Running \<Rightarrow> s\<lparr>cl_phase := Canceling\<rparr>
      | Canceling \<Rightarrow> s\<lparr>cl_phase := WaitingOutstanding, cl_waiting := cl_outstanding s\<rparr>
      | WaitingOutstanding \<Rightarrow>
          if \<exists>p \<in> set (cl_waiting s). p \<in> set (cl_outstanding s) then s else s\<lparr>cl_phase := ClosingChannels\<rparr>
      | ClosingChannels \<Rightarrow> s\<lparr>cl_channels := [], cl_phase := ClosedConnection\<rparr>
      | ClosedConnection \<Rightarrow> s)"

section \<open>Wait queues\<close>

text \<open>\<open>assertRetryWaitQueue\<close>: the names asserted so far and the arguments of each assertion.\<close>

record wait_queue_args =
  wq_messageTtl :: int
  wq_deadLetterRoutingKey :: string
  wq_expires :: int

definition assertRetryWaitQueue ::
  "string \<Rightarrow> int \<Rightarrow> string \<Rightarrow> (string \<times> wait_queue_args) list \<Rightarrow> (string \<times> wait_queue_args) list" where
  "assertRetryWaitQueue waitQueue d target asserted =
     (if waitQueue \<in> fst ` set asserted then asserted
      else asserted @ [(waitQueue, \<lparr>wq_messageTtl = d, wq_deadLetterRoutingKey = target, wq_expires = d + 60000\<rparr>)])"

section \<open>RPC replies\<close>

record corr_msg =
  cm_correlationId :: string
  cm_requestId :: "string option"
  cm_message :: jval

text \<open>A reply as delivered: its correlation id, the \<open>X-Request-ID\<close> header and its content
  (\<open>None\<close> when empty). \<open>des\<close> is the configured deserializer; it may throw.\<close>

record raw_reply =
  rr_correlationId :: "string option"
  rr_requestId :: "string option"
  rr_content :: "jval option"

definition processDirectReplyToMessage ::
  "(jval \<Rightarrow> jval + jval) \<Rightarrow> raw_reply option \<Rightarrow> jval + corr_msg option" where
  "processDirectReplyToMessage des msg =
     (case msg of None \<Rightarrow> Inr None
      | Some r \<Rightarrow>
         (case rr_correlationId r of None \<Rightarrow> Inr None
          | Some cid \<Rightarrow>
             (case rr_content r of
                None \<Rightarrow> Inr (Some \<lparr>cm_correlationId = cid, cm_requestId = rr_requestId r, cm_message = JUndef\<rparr>)
              | Some c \<Rightarrow>
                 (case des c of
                    Inl e \<Rightarrow> Inl e
                  | Inr v \<Rightarrow> Inr (Some \<lparr>cm_correlationId = cid, cm_requestId = rr_requestId r, cm_message = v\<rparr>)))))"

definition reply_matches :: "string \<Rightarrow> string option \<Rightarrow> corr_msg \<Rightarrow> bool" where
  "reply_matches correlationId requestId x =
     (if truthy_str requestId then cm_correlationId x = correlationId \<and> cm_requestId x = requestId
      else cm_correlationId x = correlationId)"

datatype rpc_event = ReplyArrived corr_msg | TimerFired | PublishConfirmed | PublishRejected jval

datatype rpc_outcome = Resolved jval | TimedOut | PublishFailed jval

text \<open>The pending request: what the race has produced, and whether the publish is confirmed.
  \<open>Promise.all\<close> resolves when both have, and rejects with the first rejection.\<close>

record rpc_state =
  rs_reply :: "jval option"
  rs_published :: bool

fun request_run :: "string \<Rightarrow> string option \<Rightarrow> rpc_state \<Rightarrow> rpc_event list \<Rightarrow> rpc_outcome option" where
  "request_run cid rid s [] = None"
| "request_run cid rid s (ReplyArrived x # es) =
     (if rs_reply s = None \<and> reply_matches cid rid x
      then (if rs_published s then Some (Resolved (cm_message x))
            else request_run cid rid (s\<lparr>rs_reply := Some (cm_message x)\<rparr>) es)
      else request_run cid rid s es)"
| "request_run cid rid s (TimerFired # es) =
     (if rs_reply s = None then Some TimedOut else request_run cid rid s es)"
| "request_run cid rid s (PublishConfirmed # es) =
     (case rs_reply s of Some v \<Rightarrow> Some (Resolved v) | None \<Rightarrow> request_run cid rid (s\<lparr>rs_published := True\<rparr>) es)"
| "request_run cid rid s (PublishRejected e # es) =
     (if rs_published s then request_run cid rid s es else Some (PublishFailed e))"

definition request :: "string \<Rightarrow> string option \<Rightarrow> rpc_event list \<Rightarrow> rpc_outcome option" where
  "request cid rid es = request_run cid rid \<lparr>rs_reply = None, rs_published = False\<rparr> es"

text \<open>Events that concern another request.\<close>

fun foreign :: "string \<Rightarrow> string option \<Rightarrow> rpc_event \<Rightarrow> bool" where
  "foreign cid rid (ReplyArrived x) = (\<not> reply_matches cid rid x)"
| "foreign cid rid e = False"

lemma request_run_foreign:
  "request_run cid rid s (filter (\<lambda>e. \<not> foreign cid rid e) es) = request_run cid rid s es"
  by (induction cid rid s es rule: request_run.induct) (auto split: option.splits)

lemma request_run_resolved:
  "request_run cid rid s es = Some (Resolved v) \<Longrightarrow>
   rs_reply s = Some v \<or> (\<exists>x. ReplyArrived x \<in> set es \<and> reply_matches cid rid x \<and> cm_message x = v)"
proof (induction cid rid s es rule: request_run.induct)
  case (2 cid rid s x es)
  then show ?case by (cases "rs_reply s = None \<and> reply_matches cid rid x"; cases "rs_published s") auto
next
  case (4 cid rid s es)
  then show ?case by (cases "rs_reply s") auto
qed (auto split: if_splits)

lemma request_run_settles:
  "\<lbrakk>rs_reply s = None \<or> \<not> rs_published s; rs_reply s = None \<longrightarrow> TimerFired \<in> set es;
    \<not> rs_published s \<longrightarrow> PublishConfirmed \<in> set es\<rbrakk> \<Longrightarrow> request_run cid rid s es \<noteq> None"
  by (induction cid rid s es rule: request_run.induct) (auto split: option.splits)

lemma request_run_no_reply:
  "\<lbrakk>rs_reply s = None; \<forall>x. ReplyArrived x \<in> set es \<longrightarrow> \<not> reply_matches cid rid x\<rbrakk> \<Longrightarrow>
   request_run cid rid s es = Some r \<Longrightarrow> \<exists>e. r = TimedOut \<or> r = PublishFailed e"
  by (induction cid rid s es rule: request_run.induct) (auto split: if_splits)

lemma assertRetryWaitQueue_keys:
  "fst ` set (assertRetryWaitQueue q d t m) = insert q (fst ` set m)"
  by (auto simp: assertRetryWaitQueue_def)

lemma assertRetryWaitQueue_distinct:
  "distinct (map fst m) \<Longrightarrow> distinct (map fst (assertRetryWaitQueue q d t m))"
  by (auto simp: assertRetryWaitQueue_def)

section \<open>Properties\<close>

text \<open>C21: After the graceful drain has begun and no setup is in flight, whatever the connection
  goes through (reconnects, late subscriptions, further cancellations) the registered consumers
  only shrink and no new subscription is accepted.\<close>

theorem drain_never_resubscribes:
  assumes "conn_reaches s t" and "cs_canceled s" and "cs_inflight s = []"
  shows "set (cs_consumers t) \<subseteq> set (cs_consumers s) \<and> cs_inflight t = [] \<and>
         (\<exists>e. consumerFactory queue t = Inl e)"
  using shrinks_reaches [OF assms] by (simp add: shrinks_def consumerFactory_def)

definition drain_start :: conn_state where
  "drain_start = \<lparr>cs_canceled = True, cs_setups = [''jobs''], cs_inflight = [], cs_consumers = [(''t1'', ''jobs'')], cs_pending = [''t1'']\<rparr>"

lemma drain_start_run: "conn_reaches drain_start (cancelPending ''t1'' (startSetup ''jobs'' drain_start))"
proof -
  have "conn_step drain_start (startSetup ''jobs'' drain_start)"
    by (rule conn_step.start) (simp add: drain_start_def)
  moreover have "conn_step (startSetup ''jobs'' drain_start) (cancelPending ''t1'' (startSetup ''jobs'' drain_start))"
    by (rule conn_step.cancelNext) (simp add: drain_start_def startSetup_def)
  ultimately show ?thesis by (blast intro: conn_reaches_one conn_reaches.step)
qed

theorem drain_never_resubscribes_witness:
  "set (cs_consumers (cancelPending ''t1'' (startSetup ''jobs'' drain_start))) \<subseteq> set (cs_consumers drain_start)"
  using drain_never_resubscribes [OF drain_start_run, of "''x''"] by (simp add: drain_start_def)

text \<open>The race the latch leaves open: a setup that passed the check before the drain began
  registers its consumer after every snapshot tag has been cancelled.\<close>

definition race_state :: conn_state where
  "race_state =
     finishSetup ''t1'' ''jobs'' (cancelAllConsumers (startSetup ''jobs'' (init_conn\<lparr>cs_setups := [''jobs'']\<rparr>)))"

lemma race_state_reachable: "conn_reaches init_conn race_state"
proof -
  let ?a = "init_conn\<lparr>cs_setups := [''jobs'']\<rparr>"
  let ?b = "startSetup ''jobs'' ?a" and ?c = "cancelAllConsumers (startSetup ''jobs'' ?a)"
  have "conn_step init_conn ?a"
    by (rule conn_step.subscribe [of "''jobs''"]) (simp add: consumerFactory_def init_conn_def)
  moreover have "conn_step ?a ?b" by (rule conn_step.start) (simp add: init_conn_def)
  moreover have "conn_step ?b ?c" by (rule conn_step.cancelAll)
  moreover have "conn_step ?c race_state" unfolding race_state_def
    by (rule conn_step.finish) (simp add: init_conn_def conn_defs)
  ultimately show ?thesis by (blast intro: conn_reaches_one conn_reaches.step)
qed

theorem drain_race_leaves_consumer:
  "conn_reaches init_conn race_state \<and> cs_canceled race_state \<and> cs_pending race_state = [] \<and>
   cs_inflight race_state = [] \<and> cs_consumers race_state = [(''t1'', ''jobs'')]"
  by (rule conjI [OF race_state_reachable]) (simp add: race_state_def init_conn_def conn_defs)



text \<open>A request never hangs once its publish is confirmed and its timer has fired: it has
  settled, and when no matching reply arrived it has failed.\<close>

theorem request_settles:
  assumes "TimerFired \<in> set es" and "PublishConfirmed \<in> set es"
  shows "\<exists>r. request cid rid es = Some r \<and>
    ((\<forall>x. ReplyArrived x \<in> set es \<longrightarrow> \<not> reply_matches cid rid x) \<longrightarrow> (\<forall>v. r \<noteq> Resolved v))"
proof -
  let ?s = "\<lparr>rs_reply = None, rs_published = False\<rparr>"
  obtain r where r: "request_run cid rid ?s es = Some r"
    using request_run_settles [of ?s es cid rid] assms by auto
  with request_run_no_reply [of ?s es cid rid r] show ?thesis by (auto simp: request_def)
qed

theorem request_settles_witness:
  "\<exists>r. request ''a'' None [PublishConfirmed, TimerFired] = Some r \<and>
    ((\<forall>x. ReplyArrived x \<in> set [PublishConfirmed, TimerFired] \<longrightarrow> \<not> reply_matches ''a'' None x) \<longrightarrow> (\<forall>v. r \<noteq> Resolved v))"
  by (rule request_settles) simp_all

end
