(* ===== verification/Broker_Service.thy ===== *)
theory Broker_Service
  imports Amqp_Connection
begin

text \<open>
  The topic layer over the AMQP connection: \<open>modules/broker/services/broker.service.ts\<close>,
  \<open>handler-registry.service.ts\<close> and \<open>utils.service.ts\<close>. The connection is an interface
  (locale \<open>broker_link\<close>), interpreted on the consumer model of \<open>Amqp_Connection\<close>. A handler is an
  opaque value \<open>'h\<close>; \<open>run\<close> says what calling it gives.
\<close>

section \<open>Configuration and state\<close>

record topic =
  tp_name :: string
  tp_mode :: string
  tp_toObservable :: bool
  tp_queue :: "string option"
  tp_routingKey :: "string option"
  tp_exchange :: "string option"
  tp_deadLetterExchange :: "string option"
  tp_retry :: jval
  tp_mandatory :: jval
  tp_persistent :: jval

record broker_config =
  bc_queues :: "queue_config list option"
  bc_exchanges :: "exchange_config list option"
  bc_deadLetterExchange :: "string option"
  bc_connectionName :: "string option"
  bc_replyQueues :: "(string \<times> string) list"
  bc_defaultRpcTimeout :: int

record pool_entry =
  pe_exchange :: "string option"
  pe_queue :: "string option"
  pe_routingKey :: routing_keys
  pe_subscribed :: bool
  pe_consumerTag :: "string option"

record sub_options =
  so_queue :: "string option"
  so_exchange :: "string option"
  so_routingKey :: routing_keys
  so_retry :: jval
  so_perInstance :: bool

record pub_options =
  po_headers :: jval
  po_mandatory :: jval
  po_persistent :: jval

record rpc_request =
  rq_exchange :: string
  rq_routingKey :: string
  rq_action :: string
  rq_payload :: jval
  rq_replyTo :: "string option"
  rq_headers :: jval
  rq_timeout :: int
  rq_expiration :: int
  rq_mandatory :: jval
  rq_persistent :: jval

text \<open>\<open>MangedFunctionExecutor\<close>.\<close>

datatype executed = Success jval | Failure jserr

record 's broker_deps =
  bd_createSubscriber :: "sub_options \<Rightarrow> ('s, string) eff"
  bd_createRpc :: "sub_options \<Rightarrow> ('s, string) eff"
  bd_publish :: "string option \<Rightarrow> string option \<Rightarrow> string \<Rightarrow> jval \<Rightarrow> pub_options \<Rightarrow> ('s, bool) eff"
  bd_request :: "rpc_request \<Rightarrow> ('s, executed) eff"
  bd_cancelAll :: "('s, unit) eff"

record ('s, 'h) broker =
  br_rpcs :: "(string, pool_entry) omap"
  br_handlers :: "(string, pool_entry) omap"
  br_detached :: bool
  br_funs :: "(string, 'h option) omap"
  br_rpcFuns :: "(string, 'h) omap"
  br_link :: 's

definition type_error :: "string \<Rightarrow> jserr" where
  "type_error m = mk_err ''TypeError'' m"

definition first_key :: "routing_keys \<Rightarrow> string option" where
  "first_key rk = (case rk of RkAbsent \<Rightarrow> None | RkOne k \<Rightarrow> Some k | RkMany ks \<Rightarrow> (case ks of [] \<Rightarrow> None | k # _ \<Rightarrow> k))"

definition truthy_keys :: "routing_keys \<Rightarrow> bool" where
  "truthy_keys rk = (case rk of RkAbsent \<Rightarrow> False | RkOne k \<Rightarrow> k \<noteq> [] | RkMany ks \<Rightarrow> True)"

definition key_of :: "string option \<Rightarrow> routing_keys" where
  "key_of k = (case k of None \<Rightarrow> RkAbsent | Some x \<Rightarrow> RkOne x)"

definition topic_named :: "topic list \<Rightarrow> string \<Rightarrow> topic option" where
  "topic_named ts n = find (\<lambda>t. tp_name t = n) ts"

definition queue_named :: "queue_config list \<Rightarrow> string option \<Rightarrow> queue_config option" where
  "queue_named qs n = find (\<lambda>q. qc_name q = n) qs"

definition exchange_named :: "exchange_config list \<Rightarrow> string option \<Rightarrow> exchange_config option" where
  "exchange_named xs n = find (\<lambda>x. Some (ec_name x) = n) xs"

definition qopt :: "queue_config option \<Rightarrow> (queue_config \<Rightarrow> 'a option) \<Rightarrow> 'a option" where
  "qopt q f = (case q of None \<Rightarrow> None | Some x \<Rightarrow> f x)"

definition qkeys :: "queue_config option \<Rightarrow> routing_keys" where
  "qkeys q = (case q of None \<Rightarrow> RkAbsent | Some x \<Rightarrow> qc_routingKey x)"

section \<open>Initialization\<close>

text \<open>The retry dead-letter exchanges that the configuration does not declare, each warned of.\<close>

definition undeclaredDeadLetters :: "broker_config \<Rightarrow> topic list \<Rightarrow> string list" where
  "undeclaredDeadLetters cfg ts =
     filter (\<lambda>ex. \<not> list_ex (\<lambda>e. ec_name e = ex) (coalesce (bc_exchanges cfg) []))
       (dedup (List.map_filter (\<lambda>x. if truthy_str x then x else None)
          (bc_deadLetterExchange cfg # map tp_deadLetterExchange ts)))"

record pools =
  po_rpcs :: "(string, pool_entry) omap"
  po_handlers :: "(string, pool_entry) omap"

definition initRpc :: "topic \<Rightarrow> pools \<Rightarrow> pools" where
  "initRpc t p =
     (if \<not> truthy_str (tp_queue t) \<and> \<not> truthy_str (tp_exchange t) then p
      else if tp_name t \<in> fst ` set (po_rpcs p) then p
      else p\<lparr>po_rpcs := AList.update (tp_name t)
        \<lparr>pe_exchange = (if truthy_str (tp_exchange t) then tp_exchange t else None),
         pe_queue = (if truthy_str (tp_queue t) then tp_queue t else None),
         pe_routingKey = (if truthy_str (tp_routingKey t) then key_of (tp_routingKey t) else RkAbsent),
         pe_subscribed = False, pe_consumerTag = None\<rparr> (po_rpcs p)\<rparr>)"

definition initBroadcast :: "broker_config \<Rightarrow> topic \<Rightarrow> pools \<Rightarrow> jserr + pools" where
  "initBroadcast cfg t p =
     (if \<not> truthy_str (tp_exchange t) \<or> \<not> truthy_str (tp_routingKey t) then Inr p
      else if \<not> truthy_str (bc_connectionName cfg) then Inl (generic_error ''Client name is required for topic exchange'')
      else Inr (p\<lparr>po_handlers := AList.update (tp_name t)
        \<lparr>pe_exchange = tp_exchange t, pe_queue = Some (tp_name t @ ''-'' @ the (bc_connectionName cfg)),
         pe_routingKey = key_of (tp_routingKey t), pe_subscribed = False, pe_consumerTag = None\<rparr> (po_handlers p)\<rparr>))"

definition initHandle :: "broker_config \<Rightarrow> topic \<Rightarrow> pools \<Rightarrow> jserr + pools" where
  "initHandle cfg t p =
     (case bc_queues cfg of None \<Rightarrow> Inl (type_error ''Cannot read properties of undefined (reading find)'')
      | Some queues \<Rightarrow>
     (case bc_exchanges cfg of None \<Rightarrow> Inl (type_error ''Cannot read properties of undefined (reading find)'')
      | Some exchanges \<Rightarrow>
        (let queue = queue_named queues (tp_queue t);
             exchange = exchange_named exchanges (coalesce_opt (qopt queue qc_exchange) (tp_exchange t)) in
         if exchange \<noteq> None \<and> ec_type (the exchange) = Some ''topic'' \<and> \<not> truthy_keys (qkeys queue)
         then (case queue of
                 None \<Rightarrow> Inl (type_error ''Cannot read properties of undefined (reading name)'')
               | Some q \<Rightarrow> Inl (generic_error (''Queue '' @ coalesce (qc_name q) ''undefined'' @ '' has no routing key'')))
         else if tp_name t \<in> fst ` set (po_handlers p)
         then (if queue = None then Inl (type_error ''Cannot read properties of undefined (reading name)'') else Inr p)
         else Inr (p\<lparr>po_handlers := AList.update (tp_name t)
           \<lparr>pe_exchange = or_str (map_option ec_name exchange) (tp_exchange t),
            pe_queue = or_str (qopt queue qc_name) (tp_queue t),
            pe_routingKey = key_of (or_str (first_key (qkeys queue)) (tp_routingKey t)),
            pe_subscribed = False, pe_consumerTag = None\<rparr> (po_handlers p)\<rparr>))))"

definition initTopic :: "broker_config \<Rightarrow> topic \<Rightarrow> pools \<Rightarrow> jserr + pools" where
  "initTopic cfg t p =
     (if tp_mode t = ''rpc'' then Inr (initRpc t p)
      else if tp_mode t = ''broadcast'' then initBroadcast cfg t p
      else if tp_mode t = ''handle'' then initHandle cfg t p
      else Inr p)"

fun initTopics :: "broker_config \<Rightarrow> topic list \<Rightarrow> pools \<Rightarrow> jserr + pools" where
  "initTopics cfg [] p = Inr p"
| "initTopics cfg (t # ts) p = (case initTopic cfg t p of Inl e \<Rightarrow> Inl e | Inr q \<Rightarrow> initTopics cfg ts q)"

definition onModuleInit :: "broker_config \<Rightarrow> topic list \<Rightarrow> jserr + pools" where
  "onModuleInit cfg ts = initTopics cfg ts \<lparr>po_rpcs = [], po_handlers = []\<rparr>"

section \<open>The handler registry\<close>

definition registerFun :: "string \<Rightarrow> 'h option \<Rightarrow> (('s, 'h) broker, unit) eff" where
  "registerFun topic h b =
     (if topic \<in> fst ` set (br_funs b) then (Inl (generic_error (''Handler for topic '' @ topic @ '' already exists'')), b)
      else (Inr (), b\<lparr>br_funs := AList.update topic h (br_funs b)\<rparr>))"

definition registerRpcFun :: "string \<Rightarrow> 'h \<Rightarrow> (('s, 'h) broker, unit) eff" where
  "registerRpcFun topic h b =
     (if topic \<in> fst ` set (br_rpcFuns b) then (Inl (generic_error (''Handler for topic '' @ topic @ '' already exists'')), b)
      else (Inr (), b\<lparr>br_rpcFuns := AList.update topic h (br_rpcFuns b)\<rparr>))"

definition clear :: "('s, 'h) broker \<Rightarrow> ('s, 'h) broker" where
  "clear b = b\<lparr>br_funs := [], br_rpcFuns := []\<rparr>"

definition on_link :: "('s, 'b) eff \<Rightarrow> (('s, 'h) broker, 'b) eff" where
  "on_link f b = (case f (br_link b) of (r, s) \<Rightarrow> (r, b\<lparr>br_link := s\<rparr>))"

section \<open>Publishing and requesting\<close>

definition publishRoute :: "broker_config \<Rightarrow> topic \<Rightarrow> jserr + (string option \<times> string option)" where
  "publishRoute cfg t =
     (if tp_mode t \<notin> set [''event'', ''broadcast'', ''rpc'', ''handle'']
      then Inl (generic_error (''Topic '' @ tp_name t @ '' is not configured for publishing''))
      else if \<not> truthy_str (tp_routingKey t)
      then (let queue = queue_named (coalesce (bc_queues cfg) []) (tp_queue t);
                routingKey = first_key (qkeys queue) in
            (case queue of
               None \<Rightarrow> Inl (generic_error (''No routing key found for topic '' @ tp_name t))
             | Some q \<Rightarrow> Inr (qc_exchange q, routingKey)))
      else if \<not> truthy_str (tp_exchange t)
      then Inl (generic_error (''Exchange not found for topic '' @ tp_name t))
      else Inr (tp_exchange t, tp_routingKey t))"

definition publishMessage :: "'s broker_deps \<Rightarrow> broker_config \<Rightarrow> topic list \<Rightarrow> string \<Rightarrow> string \<Rightarrow> jval \<Rightarrow> jval \<Rightarrow>
    (('s, 'h) broker, bool) eff" where
  "publishMessage d cfg ts topic action payload headers b =
     (if br_detached b then (Inl (generic_error (''Broker is detached: cannot publish to topic '' @ topic)), b)
      else case topic_named ts topic of
        None \<Rightarrow> (Inl (generic_error (''Topic '' @ topic @ '' not found in configuration'')), b)
      | Some t \<Rightarrow>
          (case publishRoute cfg t of
             Inl e \<Rightarrow> (Inl e, b)
           | Inr (ex, rk) \<Rightarrow> on_link (bd_publish d ex rk action payload
               \<lparr>po_headers = headers, po_mandatory = tp_mandatory t, po_persistent = tp_persistent t\<rparr>) b))"

definition requestRoute :: "broker_config \<Rightarrow> topic \<Rightarrow> jserr + (string option \<times> string option)" where
  "requestRoute cfg t =
     (if truthy_str (tp_queue t)
      then (case bc_queues cfg of
              None \<Rightarrow> Inl (type_error ''Cannot read properties of undefined (reading find)'')
            | Some qs \<Rightarrow>
                (let queue = queue_named qs (tp_queue t)
                 in Inr (or_str (qopt queue qc_exchange) (tp_exchange t), or_str (tp_routingKey t) (first_key (qkeys queue)))))
      else Inr (tp_exchange t, tp_routingKey t))"

definition or_num :: "int option \<Rightarrow> int \<Rightarrow> int" where
  "or_num x d = (case x of None \<Rightarrow> d | Some n \<Rightarrow> if n = 0 then d else n)"

definition rpcTimeout :: "broker_config \<Rightarrow> int option \<Rightarrow> int" where
  "rpcTimeout cfg timeout = or_num timeout (or_num (Some (bc_defaultRpcTimeout cfg)) 10000)"

text \<open>\<open>rid\<close> is the fresh UUID of the \<open>X-Request-ID\<close> header.\<close>

definition requestData :: "'s broker_deps \<Rightarrow> broker_config \<Rightarrow> topic list \<Rightarrow> string \<Rightarrow> string \<Rightarrow> string \<Rightarrow> jval \<Rightarrow> (string \<times> jval) list \<Rightarrow> int option \<Rightarrow>
    (('s, 'h) broker, jval) eff" where
  "requestData d cfg ts rid topic action payload headers timeout b =
     (if br_detached b then (Inl (generic_error (''Broker is detached: cannot request data on topic '' @ topic)), b)
      else case topic_named ts topic of
        None \<Rightarrow> (Inl (generic_error (''Topic '' @ topic @ '' not found in configuration'')), b)
      | Some t \<Rightarrow>
          (case requestRoute cfg t of
             Inl e \<Rightarrow> (Inl e, b)
           | Inr (ex, rk) \<Rightarrow>
               if \<not> truthy_str ex \<or> \<not> truthy_str rk
               then (Inl (generic_error (''Invalid topic configuration for topic '' @ topic @ ''. Exchange and routing key are required'')), b)
               else and_then (on_link (bd_request d
                   \<lparr>rq_exchange = the ex, rq_routingKey = the rk, rq_action = action, rq_payload = payload,
                    rq_replyTo = map_of (bc_replyQueues cfg) (the ex),
                    rq_headers = JObj (AList.update ''X-Request-ID'' (JStr rid) headers),
                    rq_timeout = rpcTimeout cfg timeout, rq_expiration = rpcTimeout cfg timeout,
                    rq_mandatory = tp_mandatory t, rq_persistent = tp_persistent t\<rparr>))
                 (\<lambda>res. case res of Success v \<Rightarrow> ret v | Failure e \<Rightarrow> throw e) b))"

section \<open>Registering\<close>

definition registerHandler :: "'s broker_deps \<Rightarrow> topic list \<Rightarrow> string \<Rightarrow> 'h option \<Rightarrow> (('s, 'h) broker, unit) eff" where
  "registerHandler d ts name handler b =
     (case (map_of (br_handlers b) name, topic_named ts name) of
        (Some q, Some t) \<Rightarrow>
          if pe_subscribed q then (Inr (), b)
          else
            let (r, s) = bd_createSubscriber d
                  \<lparr>so_queue = pe_queue q, so_exchange = pe_exchange q, so_routingKey = pe_routingKey q,
                   so_retry = tp_retry t, so_perInstance = (tp_mode t = ''broadcast'')\<rparr> (br_link b);
                b1 = (case r of
                        Inl e \<Rightarrow> b\<lparr>br_link := s\<rparr>
                      | Inr tag \<Rightarrow> b\<lparr>br_link := s,
                          br_handlers := AList.update name (q\<lparr>pe_subscribed := True, pe_consumerTag := Some tag\<rparr>) (br_handlers b)\<rparr>)
            in if tp_toObservable t then (Inr (), b1)
               else if handler = None
               then (Inl (generic_error (''Topic '' @ name @ '' requires a handler function becouse it has handle property set to true'')), b1)
               else registerFun name handler b1
      | (Some q, None) \<Rightarrow>
          if pe_subscribed q then (Inr (), b) else (Inl (type_error ''Cannot read properties of undefined (reading toObservable)''), b)
      | (None, _) \<Rightarrow> (Inr (), b))"

definition registerRpc :: "'s broker_deps \<Rightarrow> broker_config \<Rightarrow> topic list \<Rightarrow> string \<Rightarrow> 'h \<Rightarrow> (('s, 'h) broker, unit) eff" where
  "registerRpc d cfg ts name handler b =
     (case map_of (br_rpcs b) name of
        None \<Rightarrow> (Inr (), b)
      | Some q \<Rightarrow>
          if pe_subscribed q then registerRpcFun name handler b
          else if truthy_str (pe_queue q) \<and> bc_queues cfg = None
          then (Inl (type_error ''Cannot read properties of undefined (reading find)''), b)
          else
            let queue = (if truthy_str (pe_queue q) then queue_named (the (bc_queues cfg)) (pe_queue q) else None) in
            if truthy_str (pe_queue q) \<and> queue = None then (Inr (), b)
            else
              let qName = coalesce_opt (qopt queue qc_name) (pe_queue q);
                  eName = coalesce_opt (qopt queue qc_exchange) (pe_exchange q);
                  rKey = (if qkeys queue \<noteq> RkAbsent then qkeys queue else pe_routingKey q)
              in and_then (on_link (bd_createRpc d \<lparr>so_queue = qName, so_exchange = eName, so_routingKey = rKey,
                     so_retry = (case topic_named ts name of None \<Rightarrow> JUndef | Some t \<Rightarrow> tp_retry t), so_perInstance = False\<rparr>))
                   (\<lambda>tag b1. registerRpcFun name handler
                      (b1\<lparr>br_rpcs := AList.update name \<lparr>pe_exchange = eName, pe_queue = qName, pe_routingKey = rKey,
                           pe_subscribed = True, pe_consumerTag = Some tag\<rparr> (br_rpcs b1)\<rparr>)) b)"

definition unsubscribe_all :: "(string, pool_entry) omap \<Rightarrow> (string, pool_entry) omap" where
  "unsubscribe_all pool = map (\<lambda>(n, e). (n, e\<lparr>pe_subscribed := False, pe_consumerTag := None\<rparr>)) pool"

definition unregisterAll :: "'s broker_deps \<Rightarrow> (('s, 'h) broker, unit) eff" where
  "unregisterAll d b =
     and_then (on_link (bd_cancelAll d))
       (\<lambda>_ b1. (Inr (), clear (b1\<lparr>br_rpcs := unsubscribe_all (br_rpcs b1), br_handlers := unsubscribe_all (br_handlers b1)\<rparr>)))
       (b\<lparr>br_detached := True\<rparr>)"

section \<open>Delivery\<close>

text \<open>
  \<open>executeFunction\<close>. The service never assigns its \<open>appConfig\<close> field, so building the error result
  reads a property of \<open>undefined\<close>: the failure of the handler leaves as a \<open>TypeError\<close>.
\<close>

definition executeFunction :: "('h \<Rightarrow> 'm \<Rightarrow> jserr + jval) \<Rightarrow> 'h option \<Rightarrow> 'm \<Rightarrow> jserr + executed" where
  "executeFunction run fn msg =
     (case fn of
        None \<Rightarrow> Inr (Success JUndef)
      | Some h \<Rightarrow> (case run h msg of
            Inr v \<Rightarrow> Inr (Success v)
          | Inl e \<Rightarrow> Inl (type_error ''Cannot read properties of undefined (reading environment)'')))"

text \<open>What a subscriber's consumer does with a message: emit it, or run the registered function.\<close>

datatype 'm handled = Emitted 'm | Ran | Threw jserr

definition deliverEvent :: "('h \<Rightarrow> 'm \<Rightarrow> jserr + jval) \<Rightarrow> topic \<Rightarrow> 'm \<Rightarrow> ('s, 'h) broker \<Rightarrow> 'm handled" where
  "deliverEvent run t msg b =
     (if tp_toObservable t then Emitted msg
      else case executeFunction run (Option.bind (map_of (br_funs b) (tp_name t)) id) msg of
        Inl e \<Rightarrow> Threw e
      | Inr (Failure e) \<Rightarrow> Threw e
      | Inr (Success v) \<Rightarrow> Ran)"

definition deliverRpc :: "('h \<Rightarrow> 'm \<Rightarrow> jserr + jval) \<Rightarrow> topic \<Rightarrow> 'm \<Rightarrow> ('s, 'h) broker \<Rightarrow> jserr + executed" where
  "deliverRpc run t msg b = executeFunction run (map_of (br_rpcFuns b) (tp_name t)) msg"

text \<open>\<open>error2Object\<close>: the error's own enumerable properties over its message, name and stack.\<close>

definition error2Object :: "string \<Rightarrow> string \<Rightarrow> string \<Rightarrow> (string \<times> jval) list \<Rightarrow> bool \<Rightarrow> (string \<times> jval) list" where
  "error2Object name message stack own devEnv =
     spread ([(''message'', JStr message), (''name'', JStr name)] @ (if devEnv then [(''stack'', JStr stack)] else [])) own"

section \<open>The connection\<close>

text \<open>What the service relies on: subscribing and canceling send nothing, and after the consumers
  were canceled no subscription succeeds any more.\<close>

locale broker_link =
  fixes deps :: "'s broker_deps" and sent :: "'s \<Rightarrow> 'x" and canceled :: "'s \<Rightarrow> bool"
  assumes createSubscriber_law: "bd_createSubscriber deps o1 s = (r1, s') \<Longrightarrow>
      sent s' = sent s \<and> (canceled s \<longrightarrow> canceled s' \<and> (\<exists>e. r1 = Inl e))"
    and createRpc_law: "bd_createRpc deps o1 s = (r1, s') \<Longrightarrow>
      sent s' = sent s \<and> (canceled s \<longrightarrow> canceled s' \<and> (\<exists>e. r1 = Inl e))"
    and cancelAll_law: "bd_cancelAll deps s = (r2, s') \<Longrightarrow>
      sent s' = sent s \<and> (canceled s \<longrightarrow> canceled s') \<and> (r2 = Inr () \<longrightarrow> canceled s')"

text \<open>The link over the connection model: a subscription sets its consumer up in one go, under a
  fresh tag; a publish or a request is logged (\<open>answer\<close> is what comes back for a request).\<close>

record amqp_link =
  al_conn :: conn_state
  al_sent :: "(string option \<times> string option \<times> string) list"
  al_tags :: nat

definition al_subscribe :: "sub_options \<Rightarrow> (amqp_link, string) eff" where
  "al_subscribe o1 s =
     (let queue = coalesce (so_queue o1) [] in
      case consumerFactory queue (al_conn s) of
        Inl e \<Rightarrow> (Inl e, s)
      | Inr c \<Rightarrow> (let tag = ''ctag-'' @ nat_str (al_tags s)
                 in (Inr tag, s\<lparr>al_conn := finishSetup tag queue (startSetup queue c), al_tags := Suc (al_tags s)\<rparr>)))"

definition al_publish :: "string option \<Rightarrow> string option \<Rightarrow> string \<Rightarrow> jval \<Rightarrow> pub_options \<Rightarrow> (amqp_link, bool) eff" where
  "al_publish ex rk action payload opts s = (Inr True, s\<lparr>al_sent := al_sent s @ [(ex, rk, action)]\<rparr>)"

definition al_request :: "(rpc_request \<Rightarrow> executed) \<Rightarrow> rpc_request \<Rightarrow> (amqp_link, executed) eff" where
  "al_request answer q s = (Inr (answer q), s\<lparr>al_sent := al_sent s @ [(Some (rq_exchange q), Some (rq_routingKey q), rq_action q)]\<rparr>)"

definition al_cancelAll :: "(amqp_link, unit) eff" where
  "al_cancelAll s = (Inr (), s\<lparr>al_conn := fold cancelPending (map fst (cs_consumers (al_conn s))) (cancelAllConsumers (al_conn s))\<rparr>)"

definition amqp_deps :: "(rpc_request \<Rightarrow> executed) \<Rightarrow> amqp_link broker_deps" where
  "amqp_deps answer = \<lparr>bd_createSubscriber = al_subscribe, bd_createRpc = al_subscribe, bd_publish = al_publish,
     bd_request = al_request answer, bd_cancelAll = al_cancelAll\<rparr>"

lemma cancelPending_latch: "cs_canceled (fold cancelPending tags c) = cs_canceled c"
  by (induction tags arbitrary: c) (simp_all add: cancelPending_def cancelConsumer_def)

interpretation amqp: broker_link "amqp_deps answer" al_sent "\<lambda>s. cs_canceled (al_conn s)"
proof unfold_locales
  show "bd_createSubscriber (amqp_deps answer) o1 s = (r1, s') \<Longrightarrow>
      al_sent s' = al_sent s \<and> (cs_canceled (al_conn s) \<longrightarrow> cs_canceled (al_conn s') \<and> (\<exists>e. r1 = Inl e))" for o1 s r1 s'
    by (auto simp: amqp_deps_def al_subscribe_def Let_def consumerFactory_def split: sum.splits)
  show "bd_createRpc (amqp_deps answer) o1 s = (r1, s') \<Longrightarrow>
      al_sent s' = al_sent s \<and> (cs_canceled (al_conn s) \<longrightarrow> cs_canceled (al_conn s') \<and> (\<exists>e. r1 = Inl e))" for o1 s r1 s'
    by (auto simp: amqp_deps_def al_subscribe_def Let_def consumerFactory_def split: sum.splits)
  show "bd_cancelAll (amqp_deps answer) s = (r2, s') \<Longrightarrow>
      al_sent s' = al_sent s \<and> (cs_canceled (al_conn s) \<longrightarrow> cs_canceled (al_conn s')) \<and> (r2 = Inr () \<longrightarrow> cs_canceled (al_conn s'))" for s r2 s'
    by (auto simp: amqp_deps_def al_cancelAll_def cancelPending_latch cancelAllConsumers_def)
qed

section \<open>Silence after unregisterAll\<close>

datatype 'h op =
    OpRegisterHandler string "'h option"
  | OpRegisterRpc string 'h
  | OpPublish string string jval jval
  | OpRequest string string string jval "(string \<times> jval) list" "int option"
  | OpUnregisterAll

fun run_op :: "'s broker_deps \<Rightarrow> broker_config \<Rightarrow> topic list \<Rightarrow> 'h op \<Rightarrow> ('s, 'h) broker \<Rightarrow> ('s, 'h) broker" where
  "run_op d cfg ts (OpRegisterHandler n h) b = snd (registerHandler d ts n h b)"
| "run_op d cfg ts (OpRegisterRpc n h) b = snd (registerRpc d cfg ts n h b)"
| "run_op d cfg ts (OpPublish n a p h) b = snd (publishMessage d cfg ts n a p h b)"
| "run_op d cfg ts (OpRequest rid n a p h t) b = snd (requestData d cfg ts rid n a p h t b)"
| "run_op d cfg ts OpUnregisterAll b = snd (unregisterAll d b)"

definition no_consumer :: "('s, 'h) broker \<Rightarrow> bool" where
  "no_consumer b \<longleftrightarrow> (\<forall>(n, e) \<in> set (br_rpcs b) \<union> set (br_handlers b). \<not> pe_subscribed e)"

lemma no_consumer_unsubscribe: "(n, e) \<in> set (unsubscribe_all pool) \<Longrightarrow> \<not> pe_subscribed e"
  by (auto simp: unsubscribe_all_def)

lemma registerFun_state: "snd (registerFun n h b) = b \<or> (\<exists>m. snd (registerFun n h b) = b\<lparr>br_funs := m\<rparr>)"
  by (auto simp: registerFun_def)

lemma registerRpcFun_state: "snd (registerRpcFun n h b) = b \<or> (\<exists>m. snd (registerRpcFun n h b) = b\<lparr>br_rpcFuns := m\<rparr>)"
  by (auto simp: registerRpcFun_def)

lemma publish_detached: "br_detached b \<Longrightarrow> publishMessage d cfg ts n a p h b = (Inl (generic_error (''Broker is detached: cannot publish to topic '' @ n)), b)"
  by (simp add: publishMessage_def)

lemma request_detached: "br_detached b \<Longrightarrow>
    requestData d cfg ts rid n a p h t b = (Inl (generic_error (''Broker is detached: cannot request data on topic '' @ n)), b)"
  by (simp add: requestData_def)

lemma registerRpc_cases:
  obtains "snd (registerRpc d cfg ts n h b) = b"
  | "snd (registerRpc d cfg ts n h b) = snd (registerRpcFun n h b)"
  | opts e s where "bd_createRpc d opts (br_link b) = (Inl e, s)" and "snd (registerRpc d cfg ts n h b) = b\<lparr>br_link := s\<rparr>"
  | opts tag s en where "bd_createRpc d opts (br_link b) = (Inr tag, s)"
      and "snd (registerRpc d cfg ts n h b) = snd (registerRpcFun n h (b\<lparr>br_link := s, br_rpcs := AList.update n en (br_rpcs b)\<rparr>))"
proof (cases "map_of (br_rpcs b) n")
  case None
  then show ?thesis by (intro that(1)) (simp add: registerRpc_def)
next
  case (Some q)
  define queue where "queue = (if truthy_str (pe_queue q) then queue_named (the (bc_queues cfg)) (pe_queue q) else None)"
  define opts where "opts = \<lparr>so_queue = coalesce_opt (qopt queue qc_name) (pe_queue q),
    so_exchange = coalesce_opt (qopt queue qc_exchange) (pe_exchange q),
    so_routingKey = (if qkeys queue \<noteq> RkAbsent then qkeys queue else pe_routingKey q),
    so_retry = (case topic_named ts n of None \<Rightarrow> JUndef | Some t \<Rightarrow> tp_retry t), so_perInstance = False\<rparr>"
  consider "pe_subscribed q" | "\<not> pe_subscribed q" "truthy_str (pe_queue q) \<and> bc_queues cfg = None"
    | "\<not> pe_subscribed q" "\<not> (truthy_str (pe_queue q) \<and> bc_queues cfg = None)" "truthy_str (pe_queue q) \<and> queue = None"
    | "\<not> pe_subscribed q" "\<not> (truthy_str (pe_queue q) \<and> bc_queues cfg = None)" "\<not> (truthy_str (pe_queue q) \<and> queue = None)" by blast
  then show ?thesis
  proof cases
    case 1
    with Some show ?thesis by (intro that(2)) (simp add: registerRpc_def)
  next
    case 2
    with Some show ?thesis by (intro that(1)) (simp add: registerRpc_def)
  next
    case 3
    have "registerRpc d cfg ts n h b = (Inr (), b)"
      unfolding registerRpc_def Some option.case Let_def queue_def [symmetric]
      by (subst if_not_P [OF 3(1)], subst if_not_P [OF 3(2)], rule if_P [OF 3(3)])
    then show ?thesis by (intro that(1)) simp
  next
    case 4
    have run: "registerRpc d cfg ts n h b = and_then (on_link (bd_createRpc d opts))
        (\<lambda>tag b1. registerRpcFun n h (b1\<lparr>br_rpcs := AList.update n \<lparr>pe_exchange = so_exchange opts, pe_queue = so_queue opts,
           pe_routingKey = so_routingKey opts, pe_subscribed = True, pe_consumerTag = Some tag\<rparr> (br_rpcs b1)\<rparr>)) b"
      unfolding registerRpc_def Some option.case Let_def queue_def [symmetric] opts_def sub_options.simps
      by (subst if_not_P [OF 4(1)], subst if_not_P [OF 4(2)], rule if_not_P [OF 4(3)])
    obtain r s where call: "bd_createRpc d opts (br_link b) = (r, s)" by fastforce
    show ?thesis
    proof (cases r)
      case (Inl e)
      with call run show ?thesis by (intro that(3)) (auto simp: and_then_def on_link_def)
    next
      case (Inr tag)
      with call run show ?thesis by (intro that(4)) (auto simp: and_then_def on_link_def)
    qed
  qed
qed

context broker_link
begin

text \<open>\<open>silent x b\<close>: detached, what was sent is \<open>x\<close>, and once the consumers are canceled no pool entry
  is subscribed.\<close>

definition silent :: "'x \<Rightarrow> ('s, 'h) broker \<Rightarrow> bool" where
  "silent x b \<longleftrightarrow> br_detached b \<and> sent (br_link b) = x"

definition quiet :: "('s, 'h) broker \<Rightarrow> bool" where
  "quiet b \<longleftrightarrow> canceled (br_link b) \<and> no_consumer b"

lemma registerFun_keeps: "silent x (snd (registerFun n h b)) = silent x b" "quiet (snd (registerFun n h b)) = quiet b"
  using registerFun_state [of n h b] by (auto simp: silent_def quiet_def no_consumer_def)

lemma registerRpcFun_keeps: "silent x (snd (registerRpcFun n h b)) = silent x b" "quiet (snd (registerRpcFun n h b)) = quiet b"
  using registerRpcFun_state [of n h b] by (auto simp: silent_def quiet_def no_consumer_def)

lemma registerHandler_silent:
  "silent x b \<Longrightarrow> silent x (snd (registerHandler deps ts n h b))"
  "quiet b \<Longrightarrow> quiet (snd (registerHandler deps ts n h b))"
proof -
  have sub: "bd_createSubscriber deps o1 s = (r1, s') \<Longrightarrow> sent s' = sent s" for o1 s r1 s' using createSubscriber_law by blast
  have den: "bd_createSubscriber deps o1 s = (r1, s') \<Longrightarrow> canceled s \<Longrightarrow> canceled s' \<and> (\<exists>e. r1 = Inl e)" for o1 s r1 s'
    using createSubscriber_law by blast
  show "silent x b \<Longrightarrow> silent x (snd (registerHandler deps ts n h b))"
    by (auto simp: registerHandler_def Let_def registerFun_keeps split: option.split prod.split sum.split)
       (auto simp: silent_def dest: sub)
  show "quiet b \<Longrightarrow> quiet (snd (registerHandler deps ts n h b))"
    by (auto simp: registerHandler_def Let_def registerFun_keeps split: option.split prod.split sum.split)
       (auto simp: quiet_def no_consumer_def dest: den)
qed

lemma registerRpc_silent:
  "silent x b \<Longrightarrow> silent x (snd (registerRpc deps cfg ts n h b))"
  "quiet b \<Longrightarrow> quiet (snd (registerRpc deps cfg ts n h b))"
proof -
  have sub: "bd_createRpc deps o1 s = (r1, s') \<Longrightarrow> sent s' = sent s" for o1 s r1 s' using createRpc_law by blast
  have den: "bd_createRpc deps o1 s = (r1, s') \<Longrightarrow> canceled s \<Longrightarrow> canceled s' \<and> (\<exists>e. r1 = Inl e)" for o1 s r1 s'
    using createRpc_law by blast
  show "silent x b \<Longrightarrow> silent x (snd (registerRpc deps cfg ts n h b))"
    by (rule registerRpc_cases [of deps cfg ts n h b]) (simp_all add: registerRpcFun_keeps, auto simp: silent_def dest: sub)
  show "quiet b \<Longrightarrow> quiet (snd (registerRpc deps cfg ts n h b))"
    by (rule registerRpc_cases [of deps cfg ts n h b]) (simp_all add: registerRpcFun_keeps, auto simp: quiet_def no_consumer_def dest: den)
qed

lemma unregisterAll_silent:
  assumes "unregisterAll deps b = (r, b')"
  shows "silent (sent (br_link b)) b'" and "r = Inr () \<Longrightarrow> quiet b'" and "quiet b \<Longrightarrow> quiet b'"
proof -
  obtain q s' where q: "bd_cancelAll deps (br_link b) = (q, s')" by fastforce
  note law = cancelAll_law [OF q]
  show "silent (sent (br_link b)) b'"
    using assms q law by (cases q) (auto simp: unregisterAll_def and_then_def on_link_def clear_def silent_def)
  show "r = Inr () \<Longrightarrow> quiet b'"
    using assms q law by (cases q) (auto simp: unregisterAll_def and_then_def on_link_def clear_def quiet_def no_consumer_def
        dest: no_consumer_unsubscribe)
  show "quiet b \<Longrightarrow> quiet b'"
    using assms q law by (cases q) (auto simp: unregisterAll_def and_then_def on_link_def clear_def quiet_def no_consumer_def
        dest: no_consumer_unsubscribe)
qed

lemma run_op_silent:
  assumes "silent x b"
  shows "silent x (run_op deps cfg ts oper b)" and "quiet b \<Longrightarrow> quiet (run_op deps cfg ts oper b)"
proof -
  have d: "br_detached b" "sent (br_link b) = x" using assms by (simp_all add: silent_def)
  have u: "silent x (snd (unregisterAll deps b))" "quiet b \<Longrightarrow> quiet (snd (unregisterAll deps b))"
    using unregisterAll_silent [of b "fst (unregisterAll deps b)" "snd (unregisterAll deps b)"] d(2) by simp_all
  show "silent x (run_op deps cfg ts oper b)"
    by (cases oper) (simp_all add: registerHandler_silent registerRpc_silent publish_detached request_detached assms d u)
  show "quiet b \<Longrightarrow> quiet (run_op deps cfg ts oper b)"
    by (cases oper) (simp_all add: registerHandler_silent registerRpc_silent publish_detached request_detached assms d u)
qed

lemma run_ops_silent:
  assumes "silent x b"
  shows "silent x (fold (run_op deps cfg ts) ops b) \<and> (quiet b \<longrightarrow> quiet (fold (run_op deps cfg ts) ops b))"
  using assms
proof (induction ops arbitrary: b)
  case Nil
  then show ?case by simp
next
  case (Cons oper ops)
  show ?case using Cons.IH [OF run_op_silent(1) [OF Cons.prems]] run_op_silent(2) [OF Cons.prems] by simp
qed

lemma after_unregister:
  assumes "unregisterAll deps b = (r, b1)" and "c = fold (run_op deps cfg ts) ops b1"
  shows "br_detached c \<and> sent (br_link c) = sent (br_link b) \<and> (r = Inr () \<longrightarrow> no_consumer c)"
  using run_ops_silent [OF unregisterAll_silent(1) [OF assms(1)], of cfg ts ops] unregisterAll_silent(2) [OF assms(1)]
  unfolding assms(2) by (simp add: silent_def quiet_def)

end

section \<open>The pools\<close>

definition rpc_usable :: "topic \<Rightarrow> bool" where
  "rpc_usable t \<longleftrightarrow> tp_mode t = ''rpc'' \<and> (truthy_str (tp_queue t) \<or> truthy_str (tp_exchange t))"

definition rpc_entry :: "topic \<Rightarrow> pool_entry" where
  "rpc_entry t = \<lparr>pe_exchange = (if truthy_str (tp_exchange t) then tp_exchange t else None),
     pe_queue = (if truthy_str (tp_queue t) then tp_queue t else None),
     pe_routingKey = (if truthy_str (tp_routingKey t) then key_of (tp_routingKey t) else RkAbsent),
     pe_subscribed = False, pe_consumerTag = None\<rparr>"

lemma initHandle_rpcs: "initHandle cfg t p = Inr q \<Longrightarrow> po_rpcs q = po_rpcs p"
  by (auto simp: initHandle_def Let_def split: option.splits if_splits)

lemma initBroadcast_rpcs: "initBroadcast cfg t p = Inr q \<Longrightarrow> po_rpcs q = po_rpcs p"
  by (auto simp: initBroadcast_def split: if_splits)

lemma initTopic_rpcs:
  assumes "initTopic cfg t p = Inr q"
  shows "map_of (po_rpcs q) n =
    (case map_of (po_rpcs p) n of Some e \<Rightarrow> Some e | None \<Rightarrow> if rpc_usable t \<and> tp_name t = n then Some (rpc_entry t) else None)"
proof (cases "tp_mode t = ''rpc''")
  case True
  with assms have "q = initRpc t p" by (simp add: initTopic_def)
  with True show ?thesis
    by (auto simp: initRpc_def rpc_usable_def rpc_entry_def om_simps dom_map_of_conv_image_fst [symmetric] domIff split: option.splits)
next
  case False
  with assms have "po_rpcs q = po_rpcs p" by (auto simp: initTopic_def initHandle_rpcs initBroadcast_rpcs split: if_splits)
  with False show ?thesis by (simp add: rpc_usable_def split: option.splits)
qed

lemma initTopics_rpcs:
  "initTopics cfg ts p = Inr q \<Longrightarrow> map_of (po_rpcs q) n =
    (case map_of (po_rpcs p) n of Some e \<Rightarrow> Some e
     | None \<Rightarrow> map_option rpc_entry (find (\<lambda>t. rpc_usable t \<and> tp_name t = n) ts))"
proof (induction ts arbitrary: p)
  case Nil
  then show ?case by (simp split: option.splits)
next
  case (Cons t ts)
  from Cons.prems obtain p1 where p1: "initTopic cfg t p = Inr p1" "initTopics cfg ts p1 = Inr q"
    by (auto split: sum.splits)
  show ?case using Cons.IH [OF p1(2)] initTopic_rpcs [OF p1(1), of n] by (auto split: option.splits)
qed

definition unsubscribed :: "pools \<Rightarrow> bool" where
  "unsubscribed p \<longleftrightarrow> distinct (map fst (po_rpcs p)) \<and> distinct (map fst (po_handlers p)) \<and>
     (\<forall>(n, e) \<in> set (po_rpcs p) \<union> set (po_handlers p). \<not> pe_subscribed e \<and> pe_consumerTag e = None)"

lemma unsubscribed_rpc: "unsubscribed p \<Longrightarrow> \<not> pe_subscribed e \<Longrightarrow> pe_consumerTag e = None \<Longrightarrow>
    unsubscribed (p\<lparr>po_rpcs := AList.update n e (po_rpcs p)\<rparr>)"
  by (auto simp: unsubscribed_def distinct_update dest: om_update_mem)


lemma unsubscribed_handlers: "unsubscribed p \<Longrightarrow> \<not> pe_subscribed e \<Longrightarrow> pe_consumerTag e = None \<Longrightarrow>
    unsubscribed (p\<lparr>po_handlers := AList.update n e (po_handlers p)\<rparr>)"
  by (auto simp: unsubscribed_def distinct_update dest: om_update_mem)

lemma initTopic_unsubscribed: "initTopic cfg t p = Inr q \<Longrightarrow> unsubscribed p \<Longrightarrow> unsubscribed q"
  by (auto simp: initTopic_def initRpc_def initBroadcast_def initHandle_def Let_def unsubscribed_rpc unsubscribed_handlers
      split: if_splits option.splits)

lemma initTopics_unsubscribed: "initTopics cfg ts p = Inr q \<Longrightarrow> unsubscribed p \<Longrightarrow> unsubscribed q"
  by (induction ts arbitrary: p) (auto split: sum.splits dest: initTopic_unsubscribed)

section \<open>Properties\<close>

text \<open>C22: After \<open>unregisterAll\<close> the service is silent for good: whatever is registered, published,
  requested or unregistered afterwards, in any order, nothing more is sent over the connection,
  every publish and every request is rejected, and once the cancellation of the consumers has gone
  through no pool entry is subscribed again. The sending is locked even when the cancellation of
  the consumers fails.\<close>

theorem silent_after_unregisterAll:
  assumes "unregisterAll (amqp_deps answer) b = (r, b1)" and "c = fold (run_op (amqp_deps answer) cfg ts) ops b1"
  shows "br_detached c \<and> al_sent (br_link c) = al_sent (br_link b) \<and> (r = Inr () \<longrightarrow> no_consumer c) \<and>
    (\<forall>n a p h. \<exists>e. publishMessage (amqp_deps answer) cfg ts n a p h c = (Inl e, c)) \<and>
    (\<forall>rid n a p h t. \<exists>e. requestData (amqp_deps answer) cfg ts rid n a p h t c = (Inl e, c))"
  using amqp.after_unregister [OF assms] by (simp add: publish_detached request_detached)

definition sample_broker :: "(amqp_link, nat) broker" where
  "sample_broker = \<lparr>br_rpcs = [(''orders'', \<lparr>pe_exchange = Some ''ex'', pe_queue = None, pe_routingKey = RkOne ''k'',
       pe_subscribed = False, pe_consumerTag = None\<rparr>)], br_handlers = [], br_detached = False, br_funs = [], br_rpcFuns = [],
     br_link = \<lparr>al_conn = init_conn, al_sent = [], al_tags = 0\<rparr>\<rparr>"

text \<open>The pools built at start are exactly what the topics say. The RPC pool holds, for each
  name, the entry of the first RPC topic of that name that has a queue or an exchange, and nothing
  else; no name occurs twice in a pool and nothing is subscribed yet.\<close>

theorem onModuleInit_pools:
  assumes "onModuleInit cfg ts = Inr p"
  shows "unsubscribed p \<and> (\<forall>n. map_of (po_rpcs p) n = map_option rpc_entry (find (\<lambda>t. rpc_usable t \<and> tp_name t = n) ts))"
proof -
  have "unsubscribed \<lparr>po_rpcs = [], po_handlers = []\<rparr>" by (simp add: unsubscribed_def)
  with assms have "unsubscribed p" unfolding onModuleInit_def by (rule initTopics_unsubscribed)
  moreover have "map_of (po_rpcs p) n = map_option rpc_entry (find (\<lambda>t. rpc_usable t \<and> tp_name t = n) ts)" for n
    using initTopics_rpcs [OF assms [unfolded onModuleInit_def], of n] by simp
  ultimately show ?thesis by blast
qed

definition sample_topic :: topic where
  "sample_topic = \<lparr>tp_name = ''orders'', tp_mode = ''rpc'', tp_toObservable = False, tp_queue = None, tp_routingKey = Some ''k'',
     tp_exchange = Some ''ex'', tp_deadLetterExchange = None, tp_retry = JUndef, tp_mandatory = JUndef, tp_persistent = JUndef\<rparr>"

definition sample_broker_config :: broker_config where
  "sample_broker_config = \<lparr>bc_queues = None, bc_exchanges = None, bc_deadLetterExchange = None, bc_connectionName = None,
     bc_replyQueues = [], bc_defaultRpcTimeout = 0\<rparr>"

theorem silent_after_unregisterAll_witness:
  "no_consumer (snd (registerRpc (amqp_deps (\<lambda>q. Success JNull)) sample_broker_config [sample_topic] ''orders'' 0 (snd (unregisterAll (amqp_deps (\<lambda>q. Success JNull)) sample_broker))))"
proof -
  let ?d = "amqp_deps (\<lambda>q. Success JNull)"
  have "fst (unregisterAll ?d sample_broker) = Inr ()"
    by (simp add: unregisterAll_def amqp_deps_def al_cancelAll_def on_link_def and_then_def)
  then have u: "unregisterAll ?d sample_broker = (Inr (), snd (unregisterAll ?d sample_broker))" by (metis prod.collapse)
  show ?thesis using silent_after_unregisterAll [OF u HOL.refl, of sample_broker_config "[sample_topic]" "[OpRegisterRpc ''orders'' 0]"] by simp
qed

theorem onModuleInit_pools_witness:
  "\<exists>p. onModuleInit sample_broker_config [sample_topic, sample_topic\<lparr>tp_exchange := Some ''other''\<rparr>] = Inr p \<and>
     map_of (po_rpcs p) ''orders'' = Some (rpc_entry sample_topic)"
proof -
  let ?ts = "[sample_topic, sample_topic\<lparr>tp_exchange := Some ''other''\<rparr>]"
  obtain p where p: "onModuleInit sample_broker_config ?ts = Inr p"
    by (simp add: onModuleInit_def initTopic_def sample_topic_def)
  have "find (\<lambda>t. rpc_usable t \<and> tp_name t = ''orders'') ?ts = Some sample_topic" by (simp add: rpc_usable_def sample_topic_def)
  with onModuleInit_pools [OF p] p show ?thesis by simp
qed

text \<open>The service never assigns \<open>appConfig\<close>, so the failure of a handler registered through it never
  becomes an error result: whatever the handler threw, the consumer sees a \<open>TypeError\<close>, and the
  error's own name and message are lost to the RPC caller and to the retry policy.\<close>

lemma handler_error_is_lost:
  assumes "map_of (br_rpcFuns b) (tp_name t) = Some h" and "run h msg = Inl (bad_request ''quantity is required'')"
  shows "deliverRpc run t msg b = Inl (type_error ''Cannot read properties of undefined (reading environment)'')"
  using assms by (simp add: deliverRpc_def executeFunction_def)

text \<open>Registering a topic without a handler subscribes first and throws afterwards: the consumer is
  live, and as a missing function counts as a success, its messages are acknowledged unhandled.\<close>

definition handlerless_broker :: "(amqp_link, nat) broker" where
  "handlerless_broker = sample_broker\<lparr>br_handlers := [(''orders'', \<lparr>pe_exchange = Some ''ex'', pe_queue = Some ''q'', pe_routingKey = RkAbsent,
       pe_subscribed = False, pe_consumerTag = None\<rparr>)]\<rparr>"

lemma handlerless_registration_swallows:
  fixes b1 and msg :: nat
  defines "b1 \<equiv> snd (registerHandler (amqp_deps (\<lambda>q. Success JNull)) [sample_topic] ''orders'' None handlerless_broker)"
  shows "(\<exists>e. fst (registerHandler (amqp_deps (\<lambda>q. Success JNull)) [sample_topic] ''orders'' None handlerless_broker) = Inl e) \<and>
    map snd (cs_consumers (al_conn (br_link b1))) = [''q''] \<and> deliverEvent run sample_topic msg b1 = Ran"
  unfolding b1_def
  by (simp add: registerHandler_def handlerless_broker_def sample_broker_def topic_named_def sample_topic_def amqp_deps_def al_subscribe_def
      consumerFactory_def init_conn_def startSetup_def finishSetup_def registerConsumerForQueue_def deliverEvent_def executeFunction_def Let_def)

text \<open>A \<open>handle\<close> topic whose queue is not declared is only warned of; a second topic of that name
  then makes the warning itself read a property of \<open>undefined\<close>, and the module fails to start.\<close>

lemma missing_queue_crashes_init:
  fixes t and cfg
  defines "t \<equiv> sample_topic\<lparr>tp_mode := ''handle'', tp_queue := Some ''absent''\<rparr>"
    and "cfg \<equiv> sample_broker_config\<lparr>bc_queues := Some [], bc_exchanges := Some []\<rparr>"
  shows "(\<exists>p. onModuleInit cfg [t] = Inr p) \<and> (\<exists>e. ename e = ''TypeError'' \<and> onModuleInit cfg [t, t] = Inl e)"
  by (simp add: t_def cfg_def onModuleInit_def initTopic_def initHandle_def sample_topic_def sample_broker_config_def queue_named_def
      exchange_named_def qopt_def qkeys_def first_key_def type_error_def mk_err_def)

end
