(* ===== verification/Memory_Collection.thy ===== *)
theory Memory_Collection
  imports Prelude
begin

text \<open>
  The in-memory document collection that the gateway generator emits
  (\<open>schematics/add-gateway/files/db-core/.../in-memory-collection.ts\<close>): documents are the lists
  of their properties, held in a \<open>Map\<close> from id to document in insertion order, with the
  generator's sequence of ids in the state.

  Documents carry string ids; the values of filters are primitive, so that JavaScript's \<open>===\<close>
  is equality.
\<close>

type_synonym doc = "(string \<times> jval) list"

datatype cond = CEq jval | CIn "jval list"

type_synonym filt = "(string \<times> cond) list"

record collection =
  mc_items :: "(string, doc) omap"
  mc_seq :: nat

definition empty_collection :: collection where
  "empty_collection = \<lparr>mc_items = [], mc_seq = 0\<rparr>"

section \<open>Ids\<close>

definition hex_char :: "nat \<Rightarrow> char" where
  "hex_char d = (if d < 10 then char_of (48 + d) else char_of (87 + d))"

definition char_hex :: "char \<Rightarrow> nat" where
  "char_hex c = (let n = of_char c :: nat in if n < 58 then n - 48 else n - 87)"

fun hex_str :: "nat \<Rightarrow> string" where
  "hex_str n = (if n < 16 then [hex_char n] else hex_str (n div 16) @ [hex_char (n mod 16)])"

declare hex_str.simps [simp del]

definition padStart :: "nat \<Rightarrow> char \<Rightarrow> string \<Rightarrow> string" where
  "padStart n c s = replicate (n - length s) c @ s"

definition nextId :: "nat \<Rightarrow> string" where
  "nextId seq = padStart 24 (CHR ''0'') (hex_str (Suc seq))"

fun read_hex :: "nat \<Rightarrow> string \<Rightarrow> nat" where
  "read_hex acc [] = acc"
| "read_hex acc (c # cs) = read_hex (16 * acc + char_hex c) cs"

lemma char_hex_hex_char: "d < 16 \<Longrightarrow> char_hex (hex_char d) = d"
  by (simp add: char_hex_def hex_char_def)

lemma read_hex_append: "read_hex acc (s @ [c]) = 16 * read_hex acc s + char_hex c"
  by (induction s arbitrary: acc) auto

lemma read_hex_zeros: "read_hex 0 (replicate n (CHR ''0'') @ s) = read_hex 0 s"
  by (induction n) (auto simp: char_hex_def)

lemma read_hex_str: "read_hex 0 (hex_str n) = n"
proof (induction n rule: hex_str.induct)
  case (1 n)
  show ?case
  proof (cases "n < 16")
    case True
    then show ?thesis by (subst hex_str.simps) (simp add: char_hex_hex_char)
  next
    case False
    with 1 show ?thesis by (subst hex_str.simps) (simp add: read_hex_append char_hex_hex_char)
  qed
qed

lemma nextId_read: "read_hex 0 (nextId n) = Suc n"
  by (simp add: nextId_def padStart_def read_hex_zeros read_hex_str)

lemma nextId_inject [simp]: "nextId m = nextId n \<longleftrightarrow> m = n"
  by (metis nat.inject nextId_read)

lemma nextId_nonempty [simp]: "nextId n \<noteq> []"
proof
  assume "nextId n = []"
  with nextId_read [of n] show False by simp
qed

section \<open>Matching\<close>

fun cond_ok :: "cond \<Rightarrow> jval \<Rightarrow> bool" where
  "cond_ok (CIn vs) v = (v \<in> set vs)"
| "cond_ok (CEq c) v = (if c = JUndef then True else v = c)"

definition matches :: "doc \<Rightarrow> filt \<Rightarrow> bool" where
  "matches item flt \<longleftrightarrow> (\<forall>(k, c) \<in> set flt. cond_ok c (jget (JObj item) k))"

fun walk :: "string \<Rightarrow> jval \<Rightarrow> bool" where
  "walk needle JUndef = False"
| "walk needle JNull = False"
| "walk needle (JStr s) = str_includes needle (to_lower s)"
| "walk needle (JNum n) = str_includes needle (to_lower (int_str n))"
| "walk needle (JBool b) = str_includes needle (if b then ''true'' else ''false'')"
| "walk needle (JArr xs) = (\<exists>x \<in> set xs. walk needle x)"
| "walk needle (JObj kvs) = (\<exists>kv \<in> set kvs. walk needle (snd kv))"

definition matchesText :: "doc \<Rightarrow> string option \<Rightarrow> bool" where
  "matchesText v q = (if \<not> truthy_str q then True else walk (to_lower (the q)) (JObj v))"

section \<open>Operations\<close>

definition col_insert :: "doc \<Rightarrow> collection \<Rightarrow> doc \<times> collection" where
  "col_insert model c =
     (let given = jget (JObj model) ''_id'';
          i = (if nullish given then nextId (mc_seq c) else js_string given);
          sq = (if nullish given then Suc (mc_seq c) else mc_seq c);
          stored = spread model [(''_id'', JStr i)]
      in (stored, c\<lparr>mc_items := AList.update i stored (mc_items c), mc_seq := sq\<rparr>))"

fun col_insertMany :: "doc list \<Rightarrow> collection \<Rightarrow> doc list \<times> collection" where
  "col_insertMany [] c = ([], c)"
| "col_insertMany (m # ms) c =
     (let (d, c1) = col_insert m c; (ds, c2) = col_insertMany ms c1 in (d # ds, c2))"

definition findId :: "filt \<Rightarrow> collection \<Rightarrow> string option" where
  "findId flt c = map_option fst (find (\<lambda>(i, v). matches v flt) (mc_items c))"

definition col_findById :: "string \<Rightarrow> collection \<Rightarrow> doc option" where
  "col_findById i c = map_of (mc_items c) i"

definition col_findOne :: "filt \<Rightarrow> collection \<Rightarrow> doc option" where
  "col_findOne flt c = find (\<lambda>v. matches v flt) (map snd (mc_items c))"

definition col_filter :: "filt \<Rightarrow> collection \<Rightarrow> doc list" where
  "col_filter flt c = filter (\<lambda>v. matches v flt) (map snd (mc_items c))"

definition patched :: "string \<Rightarrow> doc \<Rightarrow> doc \<Rightarrow> doc" where
  "patched i v patch = spread (spread v patch) [(''_id'', JStr i)]"

definition col_updateById :: "string \<Rightarrow> doc \<Rightarrow> collection \<Rightarrow> doc option \<times> collection" where
  "col_updateById i patch c =
     (case map_of (mc_items c) i of
        None \<Rightarrow> (None, c)
      | Some v \<Rightarrow> (Some (patched i v patch), c\<lparr>mc_items := AList.update i (patched i v patch) (mc_items c)\<rparr>))"

definition col_updateOne :: "filt \<Rightarrow> doc \<Rightarrow> collection \<Rightarrow> doc option \<times> collection" where
  "col_updateOne flt patch c =
     (case find (\<lambda>(i, v). matches v flt) (mc_items c) of
        None \<Rightarrow> (None, c)
      | Some (i, v) \<Rightarrow> (Some (patched i v patch), c\<lparr>mc_items := AList.update i (patched i v patch) (mc_items c)\<rparr>))"

definition col_removeById :: "string \<Rightarrow> collection \<Rightarrow> doc option \<times> collection" where
  "col_removeById i c =
     (case map_of (mc_items c) i of
        None \<Rightarrow> (None, c)
      | Some v \<Rightarrow> (Some v, c\<lparr>mc_items := AList.delete i (mc_items c)\<rparr>))"

definition col_removeOne :: "filt \<Rightarrow> collection \<Rightarrow> doc option \<times> collection" where
  "col_removeOne flt c =
     (case find (\<lambda>(i, v). matches v flt) (mc_items c) of
        None \<Rightarrow> (None, c)
      | Some (i, v) \<Rightarrow> (Some v, c\<lparr>mc_items := AList.delete i (mc_items c)\<rparr>))"

definition col_removeMany :: "filt \<Rightarrow> collection \<Rightarrow> nat \<times> collection" where
  "col_removeMany flt c =
     (let gone = filter (\<lambda>(i, v). matches v flt) (mc_items c)
      in (length gone, c\<lparr>mc_items := fold (\<lambda>(i, v). AList.delete i) gone (mc_items c)\<rparr>))"

definition col_upsertById :: "string \<Rightarrow> doc \<Rightarrow> collection \<Rightarrow> doc \<times> collection" where
  "col_upsertById i patch c =
     (if i \<in> fst ` set (mc_items c)
      then (case col_updateById i patch c of (r, c1) \<Rightarrow> (the r, c1))
      else col_insert (spread patch [(''_id'', JStr i)]) c)"

text \<open>\<open>id ? ... : ...\<close>: an empty id counts as absent.\<close>

definition col_upsertOne :: "filt \<Rightarrow> doc \<Rightarrow> collection \<Rightarrow> doc \<times> collection" where
  "col_upsertOne flt patch c =
     (let i = findId flt c in
      if truthy_str i then (case col_updateById (the i) patch c of (r, c1) \<Rightarrow> (the r, c1))
      else col_insert patch c)"

definition col_all :: "collection \<Rightarrow> doc list" where
  "col_all c = map snd (mc_items c)"

record 'a pagination =
  pg_page :: int
  pg_limit :: int
  pg_total :: nat
  pg_data :: "'a list"

definition paginate_list :: "'a list \<Rightarrow> int \<Rightarrow> int \<Rightarrow> 'a pagination" where
  "paginate_list data page limit =
     (let p = (if page < 1 then 1 else page); start = (p - 1) * limit
      in \<lparr>pg_page = p, pg_limit = limit, pg_total = length data, pg_data = js_slice data start (start + limit)\<rparr>)"

definition col_search :: "string option \<Rightarrow> int \<Rightarrow> int \<Rightarrow> collection \<Rightarrow> doc pagination" where
  "col_search q page limit c = paginate_list (filter (\<lambda>v. matchesText v q) (col_all c)) page limit"

definition col_paginate :: "filt \<Rightarrow> int \<Rightarrow> int \<Rightarrow> collection \<Rightarrow> doc pagination" where
  "col_paginate flt page limit c = paginate_list (col_filter flt c) page limit"

section \<open>Invariant\<close>

text \<open>Every document is stored under its own \<open>_id\<close>, ids are distinct, and the ids still to be
  generated are unused.\<close>

definition col_ok :: "collection \<Rightarrow> bool" where
  "col_ok c \<longleftrightarrow> distinct (map fst (mc_items c)) \<and>
     (\<forall>(i, v) \<in> set (mc_items c). map_of v ''_id'' = Some (JStr i)) \<and>
     (\<forall>n \<ge> mc_seq c. nextId n \<notin> fst ` set (mc_items c))"

lemma update_set: "set (AList.update k v m) \<subseteq> insert (k, v) (set m)"
  by (induction m) auto

lemma update_fst: "fst ` set (AList.update k v m) = insert k (fst ` set m)"
  by (simp add: dom_update)

lemma col_ok_put:
  assumes "col_ok c" and "map_of v ''_id'' = Some (JStr i)" and "mc_seq c \<le> sq" and "\<forall>n \<ge> sq. i \<noteq> nextId n"
  shows "col_ok (c\<lparr>mc_items := AList.update i v (mc_items c), mc_seq := sq\<rparr>)"
  using assms update_set [of i v "mc_items c"]
  by (fastforce simp: col_ok_def distinct_update update_fst)

lemma patched_id: "map_of (patched i v p) ''_id'' = Some (JStr i)"
  by (simp add: patched_def spread_def om_simps)

lemma col_insert_ok:
  assumes "col_ok c" and "nullish (jget (JObj model) ''_id'')"
  shows "col_ok (snd (col_insert model c))"
proof -
  have "map_of (spread model [(''_id'', JStr (nextId (mc_seq c)))]) ''_id'' = Some (JStr (nextId (mc_seq c)))"
    by (simp add: spread_def om_simps)
  with assms show ?thesis
    by (auto simp: col_insert_def Let_def intro!: col_ok_put)
qed

lemma col_ok_seq: "col_ok c \<Longrightarrow> col_ok (c\<lparr>mc_items := m, mc_seq := mc_seq c\<rparr>) \<Longrightarrow> col_ok (c\<lparr>mc_items := m\<rparr>)"
  by simp

lemma col_ok_update_existing:
  assumes "col_ok c" and "i \<in> fst ` set (mc_items c)" and "map_of v ''_id'' = Some (JStr i)"
  shows "col_ok (c\<lparr>mc_items := AList.update i v (mc_items c)\<rparr>)"
proof -
  have "\<forall>(j, w) \<in> set (AList.update i v (mc_items c)). map_of w ''_id'' = Some (JStr j)"
    using assms update_set [of i v "mc_items c"] unfolding col_ok_def by blast
  moreover have "fst ` set (AList.update i v (mc_items c)) = fst ` set (mc_items c)"
    using assms(2) by (simp only: update_fst insert_absorb)
  ultimately show ?thesis using assms(1) unfolding col_ok_def by (simp add: distinct_update)
qed

lemma find_pair: "find P m = Some (i, v) \<Longrightarrow> (i, v) \<in> set m \<and> P (i, v)"
  by (metis find_Some_iff nth_mem)

lemma col_updateById_ok: "col_ok c \<Longrightarrow> col_ok (snd (col_updateById i p c))"
proof (cases "map_of (mc_items c) i")
  case (Some v)
  assume "col_ok c"
  moreover have "i \<in> fst ` set (mc_items c)" using Some by (metis domI dom_map_of_conv_image_fst)
  ultimately show ?thesis using Some by (simp add: col_updateById_def col_ok_update_existing patched_id)
qed (simp add: col_updateById_def)

lemma col_updateOne_ok: "col_ok c \<Longrightarrow> col_ok (snd (col_updateOne f p c))"
proof (cases "find (\<lambda>(i, v). matches v f) (mc_items c)")
  case (Some iv)
  assume "col_ok c"
  obtain i v where iv: "iv = (i, v)" by (cases iv)
  from Some iv have "(i, v) \<in> set (mc_items c)" by (auto dest: find_pair)
  then have "i \<in> fst ` set (mc_items c)" by (rule rev_image_eqI) simp
  with \<open>col_ok c\<close> Some iv show ?thesis by (simp add: col_updateOne_def col_ok_update_existing patched_id)
qed (simp add: col_updateOne_def)

lemma col_ok_delete: "col_ok c \<Longrightarrow> col_ok (c\<lparr>mc_items := AList.delete i (mc_items c)\<rparr>)"
  by (auto simp: col_ok_def AList.delete_eq om_distinct_filter)

lemma col_removeById_ok: "col_ok c \<Longrightarrow> col_ok (snd (col_removeById i c))"
  by (auto simp: col_removeById_def col_ok_delete split: option.splits)

lemma col_removeOne_ok: "col_ok c \<Longrightarrow> col_ok (snd (col_removeOne f c))"
  by (auto simp: col_removeOne_def col_ok_delete split: option.splits)

lemma col_upsertOne_ok:
  assumes "col_ok c" and "nullish (jget (JObj p) ''_id'')"
  shows "col_ok (snd (col_upsertOne f p c))"
  using col_insert_ok [OF assms] col_updateById_ok [OF assms(1)]
  by (auto simp: col_upsertOne_def Let_def split: prod.splits)
     (metis snd_conv)

lemmas col_ops_ok = col_insert_ok col_updateById_ok col_updateOne_ok col_removeById_ok col_removeOne_ok col_upsertOne_ok

text \<open>What the document of each id becomes.\<close>

lemma col_insert_fresh:
  assumes "col_ok c" and "nullish (jget (JObj model) ''_id'')"
  shows "col_insert model c =
    (spread model [(''_id'', JStr (nextId (mc_seq c)))],
     c\<lparr>mc_items := mc_items c @ [(nextId (mc_seq c), spread model [(''_id'', JStr (nextId (mc_seq c)))])],
       mc_seq := Suc (mc_seq c)\<rparr>)"
proof -
  have "nextId (mc_seq c) \<notin> fst ` set (mc_items c)" using assms(1) by (simp add: col_ok_def)
  from om_update_absent [OF this] assms(2) show ?thesis by (simp add: col_insert_def Let_def)
qed

lemma update_map:
  "distinct (map fst m) \<Longrightarrow> k \<in> fst ` set m \<Longrightarrow>
   AList.update k v m = map (\<lambda>(k', v'). (k', if k' = k then v else v')) m"
proof (induction m)
  case Nil
  then show ?case by simp
next
  case (Cons kv m)
  obtain k' v' where kv: "kv = (k', v')" by (cases kv)
  show ?case
  proof (cases "k' = k")
    case True
    with Cons.prems kv have "k \<notin> fst ` set m" by auto
    then have "map (\<lambda>(k', v'). (k', if k' = k then v else v')) m = m"
      by (intro map_idI) (force split: prod.splits)
    with True kv show ?thesis by simp
  next
    case False
    with Cons kv show ?thesis by auto
  qed
qed

section \<open>Properties\<close>

datatype col_op =
    ColInsert doc
  | ColUpdateById string doc
  | ColUpdateOne filt doc
  | ColRemoveById string
  | ColRemoveOne filt
  | ColUpsertOne filt doc

fun col_step :: "col_op \<Rightarrow> collection \<Rightarrow> collection" where
  "col_step (ColInsert d) c = snd (col_insert d c)"
| "col_step (ColUpdateById i p) c = snd (col_updateById i p c)"
| "col_step (ColUpdateOne f p) c = snd (col_updateOne f p c)"
| "col_step (ColRemoveById i) c = snd (col_removeById i c)"
| "col_step (ColRemoveOne f) c = snd (col_removeOne f c)"
| "col_step (ColUpsertOne f p) c = snd (col_upsertOne f p c)"

text \<open>Inserted documents leave the id to the collection.\<close>

fun col_op_ok :: "col_op \<Rightarrow> bool" where
  "col_op_ok (ColInsert d) = nullish (jget (JObj d) ''_id'')"
| "col_op_ok (ColUpsertOne f d) = nullish (jget (JObj d) ''_id'')"
| "col_op_ok _ = True"

lemma col_run_ok: "col_ok c \<Longrightarrow> list_all col_op_ok ops \<Longrightarrow> col_ok (fold col_step ops c)"
proof (induction ops arbitrary: c)
  case Nil
  then show ?case by simp
next
  case (Cons op ops)
  from Cons.prems have "col_ok (col_step op c)" by (cases op) (auto intro: col_ops_ok simp del: jget.simps)
  with Cons show ?case by simp
qed

lemma empty_collection_ok: "col_ok empty_collection"
  by (simp add: col_ok_def empty_collection_def)

text \<open>Whatever is inserted, patched, upserted and removed (patches may even carry an \<open>_id\<close>),
  every stored document is found under its own \<open>_id\<close>, ids never repeat, and the next generated
  id is unused.\<close>

theorem collection_ids_sound:
  assumes "list_all col_op_ok ops"
  shows "let c = fold col_step ops empty_collection in
    (\<forall>d \<in> set (col_all c). \<exists>i. jget (JObj d) ''_id'' = JStr i \<and> col_findById i c = Some d) \<and>
    distinct (map fst (mc_items c)) \<and> col_findById (nextId (mc_seq c)) c = None"
proof -
  let ?c = "fold col_step ops empty_collection"
  have ok: "col_ok ?c" by (rule col_run_ok [OF empty_collection_ok assms])
  have "\<exists>i. jget (JObj d) ''_id'' = JStr i \<and> col_findById i ?c = Some d" if "d \<in> set (col_all ?c)" for d
  proof -
    from that obtain i where i: "(i, d) \<in> set (mc_items ?c)" by (auto simp: col_all_def)
    with ok have "map_of d ''_id'' = Some (JStr i)" and "map_of (mc_items ?c) i = Some d"
      by (auto simp: col_ok_def)
    then show ?thesis by (auto simp: col_findById_def)
  qed
  moreover have "col_findById (nextId (mc_seq ?c)) ?c = None"
    using ok by (auto simp: col_ok_def col_findById_def map_of_eq_None_iff)
  ultimately show ?thesis using ok by (auto simp: col_ok_def Let_def)
qed

theorem collection_ids_sound_witness:
  "distinct (map fst (mc_items (fold col_step [ColInsert [(''a'', JNum 1)], ColInsert [(''a'', JNum 2)],
     ColUpdateOne [(''a'', CEq (JNum 2))] [(''_id'', JStr ''zz'')]] empty_collection)))"
  using collection_ids_sound [of "[ColInsert [(''a'', JNum 1)], ColInsert [(''a'', JNum 2)],
     ColUpdateOne [(''a'', CEq (JNum 2))] [(''_id'', JStr ''zz'')]]"] by (simp add: Let_def del: col_step.simps)

end
