(* ===== verification/Route_Manifest.thy ===== *)
theory Route_Manifest
  imports Memory_Collection
begin

text \<open>
  The content of a route and how two contents are compared:
  \<open>modules/gateway-admin/util/route-manifest.ts\<close>. A route is a dynamic object, the list of its
  properties; \<open>method\<close> and \<open>path\<close>, where present, are strings. Property names are distinct, as
  they are in an object.
\<close>

section \<open>Identity\<close>

definition field :: "doc \<Rightarrow> string \<Rightarrow> jval" where
  "field r k = jget (JObj r) k"

definition str_field :: "doc \<Rightarrow> string \<Rightarrow> string" where
  "str_field r k = (case field r k of JStr s \<Rightarrow> s | _ \<Rightarrow> [])"

definition routeKeyOf :: "doc \<Rightarrow> string" where
  "routeKeyOf r = to_upper (str_field r ''method'') @ '' '' @ str_field r ''path''"

section \<open>Serialization\<close>

definition json_esc :: "char \<Rightarrow> string" where
  "json_esc c =
     (let n = of_char c :: nat in
      if c = CHR 0x22 then [CHR 0x5C, CHR 0x22]
      else if c = CHR 0x5C then [CHR 0x5C, CHR 0x5C]
      else if n = 8 then CHR 0x5C # ''b''
      else if n = 9 then CHR 0x5C # ''t''
      else if n = 10 then CHR 0x5C # ''n''
      else if n = 12 then CHR 0x5C # ''f''
      else if n = 13 then CHR 0x5C # ''r''
      else if n < 32 then CHR 0x5C # ''u'' @ padStart 4 (CHR ''0'') (hex_str n)
      else [c])"

definition json_str :: "string \<Rightarrow> string" where
  "json_str s = CHR 0x22 # concat (map json_esc s) @ [CHR 0x22]"

text \<open>\<open>JSON.stringify\<close>: \<open>None\<close> is \<open>undefined\<close>; undefined properties are left out, undefined
  elements are written as \<open>null\<close>.\<close>

fun json_stringify :: "jval \<Rightarrow> string option" where
  "json_stringify JUndef = None"
| "json_stringify JNull = Some ''null''"
| "json_stringify (JBool b) = Some (if b then ''true'' else ''false'')"
| "json_stringify (JNum n) = Some (int_str n)"
| "json_stringify (JStr s) = Some (json_str s)"
| "json_stringify (JArr xs) = Some (''['' @ js_join '','' (map (\<lambda>x. coalesce (json_stringify x) ''null'') xs) @ '']'')"
| "json_stringify (JObj kvs) =
     Some (''{'' @ js_join '','' (map (\<lambda>(k, s). json_str k @ '':'' @ the s)
        (filter (\<lambda>(k, s). s \<noteq> None) (map (\<lambda>kv. (fst kv, json_stringify (snd kv))) kvs))) @ ''}'')"

fun stableStringify :: "jval \<Rightarrow> string" where
  "stableStringify (JArr xs) = ''['' @ js_join '','' (map stableStringify xs) @ '']''"
| "stableStringify (JObj kvs) =
     ''{'' @ js_join '','' (map (\<lambda>(k, s). json_str k @ '':'' @ s)
        (sort_key fst (map (\<lambda>kv. (fst kv, stableStringify (snd kv))) kvs))) @ ''}''"
| "stableStringify JUndef = ''null''"
| "stableStringify JNull = ''null''"
| "stableStringify (JBool b) = (if b then ''true'' else ''false'')"
| "stableStringify (JNum n) = int_str n"
| "stableStringify (JStr s) = json_str s"

section \<open>Content\<close>

definition ROUTE_FIELDS :: "string list" where
  "ROUTE_FIELDS = [''name'', ''method'', ''path'', ''dataSource'', ''topic'', ''action'', ''mode'', ''auth'',
     ''allowAnonymous'', ''actions'', ''successStatusCode'', ''timeout'', ''parseRaw'', ''binary'', ''redirect'',
     ''headers'', ''forwardHeaders'']"

text \<open>The default \<open>canonicalRoute\<close> gives an absent field; the first seven fields have none.\<close>

definition field_default :: "string \<Rightarrow> jval" where
  "field_default k =
     (if k = ''actions'' then JArr []
      else if k = ''headers'' \<or> k = ''forwardHeaders'' then JObj []
      else if k \<in> {''auth'', ''allowAnonymous'', ''successStatusCode'', ''timeout'', ''parseRaw'', ''binary'', ''redirect''} then JNull
      else JUndef)"

definition canonicalField :: "doc \<Rightarrow> string \<Rightarrow> jval" where
  "canonicalField r k =
     (if field_default k = JUndef then field r k else jcoal (field r k) (field_default k))"

definition canonicalRoute :: "doc \<Rightarrow> doc" where
  "canonicalRoute r = map (\<lambda>k. (k, canonicalField r k)) ROUTE_FIELDS"

definition USER_OVERRIDABLE_FIELDS :: "string list" where
  "USER_OVERRIDABLE_FIELDS = [''enabled'', ''actions'', ''allowAnonymous'', ''timeout'', ''redirect'', ''successStatusCode'']"

definition applyUserOverrides :: "doc \<Rightarrow> doc option \<Rightarrow> string list \<Rightarrow> doc" where
  "applyUserOverrides incoming existing userOverrides =
     (case existing of
        None \<Rightarrow> incoming
      | Some ex \<Rightarrow>
          if userOverrides = [] then incoming
          else fold (\<lambda>f m. if f = ''enabled'' then m else AList.update f (field ex f) m) userOverrides incoming)"

definition routeContent :: "doc \<Rightarrow> string" where
  "routeContent r = stableStringify (JObj (canonicalRoute r))"

definition isValidRoute :: "doc \<Rightarrow> bool" where
  "isValidRoute r \<longleftrightarrow> truthy (field r ''method'') \<and> truthy (field r ''path'') \<and> truthy (field r ''topic'') \<and>
     truthy (field r ''action'') \<and> (field r ''mode'' = JStr ''rpc'' \<or> field r ''mode'' = JStr ''event'')"

section \<open>Field differences\<close>

record field_change =
  fc_field :: string
  fc_added :: "jval list"
  fc_removed :: "jval list"

fun is_arr :: "jval \<Rightarrow> bool" where
  "is_arr (JArr xs) = True"
| "is_arr _ = False"

fun arr_of :: "jval \<Rightarrow> jval list" where
  "arr_of (JArr xs) = xs"
| "arr_of _ = []"

definition diffField :: "doc option \<Rightarrow> doc option \<Rightarrow> string \<Rightarrow> field_change option" where
  "diffField before after k =
     (let b = (case before of None \<Rightarrow> JUndef | Some r \<Rightarrow> field r k);
          a = (case after of None \<Rightarrow> JUndef | Some r \<Rightarrow> field r k) in
      if stableStringify (jcoal b JNull) = stableStringify (jcoal a JNull) then None
      else if is_arr b \<or> is_arr a then
        Some \<lparr>fc_field = k,
              fc_added = filter (\<lambda>x. stableStringify x \<notin> set (map stableStringify (arr_of b))) (arr_of a),
              fc_removed = filter (\<lambda>x. stableStringify x \<notin> set (map stableStringify (arr_of a))) (arr_of b)\<rparr>
      else Some \<lparr>fc_field = k, fc_added = (if nullish a then [] else [a]), fc_removed = (if nullish b then [] else [b])\<rparr>)"

definition diffRouteFields :: "doc option \<Rightarrow> doc option \<Rightarrow> field_change list" where
  "diffRouteFields before after = List.map_filter (diffField before after) ROUTE_FIELDS"

definition fmtChangeValue :: "jval \<Rightarrow> string" where
  "fmtChangeValue v = (case v of JArr xs \<Rightarrow> coalesce (json_stringify v) [] | JObj kvs \<Rightarrow> coalesce (json_stringify v) [] | _ \<Rightarrow> js_string v)"

definition renderChange :: "field_change \<Rightarrow> string" where
  "renderChange c = fc_field c @ '': ['' @
     js_join '', '' (map (\<lambda>v. ''+'' @ fmtChangeValue v) (fc_added c) @ map (\<lambda>v. ''-'' @ fmtChangeValue v) (fc_removed c)) @ '']''"

definition renderChanges :: "field_change list \<Rightarrow> string" where
  "renderChanges changes = js_join '', '' (map renderChange changes)"

section \<open>Order independence\<close>

text \<open>Values that are equal up to the order of the properties of objects, at any depth.\<close>

inductive same_value :: "jval \<Rightarrow> jval \<Rightarrow> bool" where
  same_refl: "same_value v v"
| same_arr: "list_all2 same_value xs ys \<Longrightarrow> same_value (JArr xs) (JArr ys)"
| same_obj: "\<lbrakk>distinct (map fst a); distinct (map fst b); fst ` set a = fst ` set b;
     \<And>k v w. (k, v) \<in> set a \<Longrightarrow> (k, w) \<in> set b \<Longrightarrow> same_value v w\<rbrakk> \<Longrightarrow> same_value (JObj a) (JObj b)"

inductive_cases same_value_ObjE: "same_value (JObj a) (JObj b)"

lemma sort_key_unique:
  fixes f :: "'x \<Rightarrow> 'y :: linorder"
  assumes "distinct (map f xs)" and "distinct (map f ys)" and "set xs = set ys"
  shows "sort_key f xs = sort_key f ys"
proof (rule map_sorted_distinct_set_unique [of f])
  show "inj_on f (set (sort_key f xs) \<union> set (sort_key f ys))" using assms by (simp add: distinct_map)
  show "distinct (map f (sort_key f xs))" "distinct (map f (sort_key f ys))"
    using assms by (simp_all add: distinct_map)
  show "set (sort_key f xs) = set (sort_key f ys)" using assms by simp
qed simp_all

lemma map_pairs_set:
  assumes "fst ` set a = fst ` set b"
    and "\<And>k v w. (k, v) \<in> set a \<Longrightarrow> (k, w) \<in> set b \<Longrightarrow> g v = g w"
  shows "set (map (\<lambda>kv. (fst kv, g (snd kv))) a) \<subseteq> set (map (\<lambda>kv. (fst kv, g (snd kv))) b)"
proof
  fix x assume "x \<in> set (map (\<lambda>kv. (fst kv, g (snd kv))) a)"
  then obtain k v where a: "(k, v) \<in> set a" and x: "x = (k, g v)" by auto
  from a have "k \<in> fst ` set a" by (rule rev_image_eqI) simp
  then obtain w where "(k, w) \<in> set b" using assms(1) by auto
  with assms(2) [OF a this] x show "x \<in> set (map (\<lambda>kv. (fst kv, g (snd kv))) b)" by (auto intro: rev_image_eqI)
qed

lemma same_value_stringify: "same_value v w \<Longrightarrow> stableStringify v = stableStringify w"
proof (induction rule: same_value.induct)
  case (same_arr xs ys)
  then have "map stableStringify xs = map stableStringify ys"
    by (simp add: list_all2_conv_all_nth list_eq_iff_nth_eq)
  then show ?case by simp
next
  case (same_obj a b)
  let ?f = "\<lambda>kv :: string \<times> jval. (fst kv, stableStringify (snd kv))"
  have "set (map ?f a) = set (map ?f b)"
  proof (rule equalityI)
    show "set (map ?f a) \<subseteq> set (map ?f b)" by (rule map_pairs_set [OF same_obj(3)]) (use same_obj in blast)
    show "set (map ?f b) \<subseteq> set (map ?f a)" by (rule map_pairs_set [OF same_obj(3) [symmetric]]) (use same_obj in metis)
  qed
  then have "sort_key fst (map ?f a) = sort_key fst (map ?f b)"
    using same_obj(1,2) by (intro sort_key_unique) (simp_all add: comp_def)
  then show ?case by simp
qed simp

section \<open>Facts about contents\<close>

lemma ROUTE_FIELDS_distinct: "distinct ROUTE_FIELDS"
  by (simp add: ROUTE_FIELDS_def)

lemma routeContent_cong:
  "(\<And>k. k \<in> set ROUTE_FIELDS \<Longrightarrow> field r k = field s k) \<Longrightarrow> routeContent r = routeContent s"
proof -
  assume eq: "\<And>k. k \<in> set ROUTE_FIELDS \<Longrightarrow> field r k = field s k"
  have "canonicalRoute r = canonicalRoute s"
    unfolding canonicalRoute_def by (rule map_cong [OF refl]) (simp add: canonicalField_def eq)
  then show ?thesis by (simp only: routeContent_def)
qed

lemma field_update [simp]: "field (AList.update k v r) k' = (if k' = k then v else field r k')"
  by (simp add: field_def om_simps)

lemma fold_override_field:
  "field (fold (\<lambda>f m. if f = ''enabled'' then m else AList.update f (g f) m) fs m) k =
   (if k \<in> set fs \<and> k \<noteq> ''enabled'' then g k else field m k)"
  by (induction fs arbitrary: m) auto

lemma applyUserOverrides_field:
  "field (applyUserOverrides r (Some ex) fs) k = (if k \<in> set fs \<and> k \<noteq> ''enabled'' then field ex k else field r k)"
  by (simp add: applyUserOverrides_def fold_override_field)

lemma diffField_None_iff:
  "diffField (Some r) (Some s) k = None \<longleftrightarrow> stableStringify (jcoal (field r k) JNull) = stableStringify (jcoal (field s k) JNull)"
  by (simp add: diffField_def Let_def)

lemma diffField_field: "diffField b a k = Some c \<Longrightarrow> fc_field c = k"
  by (auto simp: diffField_def Let_def split: if_splits)

lemma diffRouteFields_fields:
  "map fc_field (diffRouteFields b a) = filter (\<lambda>k. diffField b a k \<noteq> None) ROUTE_FIELDS"
proof -
  have "map fc_field (List.map_filter (diffField b a) ks) = filter (\<lambda>k. diffField b a k \<noteq> None) ks" for ks
    by (induction ks) (auto simp: List.map_filter_def diffField_field)
  then show ?thesis by (simp add: diffRouteFields_def)
qed

section \<open>Properties\<close>

text \<open>The serialization that routes are compared by does not depend on the order of the
  properties of any object in it, at any depth: equal contents always compare equal.\<close>

theorem stableStringify_order_independent:
  assumes "same_value (JObj (canonicalRoute r)) (JObj (canonicalRoute s))"
  shows "routeContent r = routeContent s"
  unfolding routeContent_def by (rule same_value_stringify [OF assms])

definition sample_route :: doc where
  "sample_route = [(''name'', JStr ''r''), (''method'', JStr ''get''), (''path'', JStr ''/a''), (''topic'', JStr ''t''),
     (''action'', JStr ''x''), (''mode'', JStr ''rpc'')]"

lemma canonical_headers:
  assumes "same_value (JObj h) (JObj h')"
  shows "same_value (JObj (canonicalRoute (sample_route @ [(''headers'', JObj h)]))) (JObj (canonicalRoute (sample_route @ [(''headers'', JObj h')])))"
  by (rule same_obj)
     (auto simp: canonicalRoute_def ROUTE_FIELDS_def canonicalField_def field_default_def field_def sample_route_def
       intro: same_refl assms)

theorem stableStringify_order_independent_witness:
  "routeContent (sample_route @ [(''headers'', JObj [(''a'', JNum 1), (''b'', JNum 2)])]) =
   routeContent (sample_route @ [(''headers'', JObj [(''b'', JNum 2), (''a'', JNum 1)])])"
  by (rule stableStringify_order_independent, rule canonical_headers, rule same_obj) (auto intro: same_refl)

end
