(* ===== verification/Route_Diff.thy ===== *)
theory Route_Diff
  imports Route_Manifest
begin

text \<open>
  The pure diff of a service's manifest against its stored routes:
  \<open>modules/gateway-admin/util/route-diff.ts\<close>. The loop over the manifest classifies each valid
  route the first time its key appears; the lemmas restate the result as filters over that list of
  first occurrences, which is what the properties are about.
\<close>

section \<open>The diff\<close>

record upsert =
  up_routeKey :: string
  up_existingId :: "string option"
  up_added :: bool
  up_model :: doc
  up_changes :: "field_change list option"

record route_disable =
  di_id :: string
  di_routeKey :: string
  di_method :: jval
  di_path :: jval

record route_ref =
  rf_routeKey :: string
  rf_method :: jval
  rf_path :: jval
  rf_conflictWith :: string

record route_diff =
  rd_upserts :: "upsert list"
  rd_disables :: "route_disable list"
  rd_collisions :: "route_ref list"
  rd_skipped :: "route_ref list"
  rd_invalid :: "doc list"
  rd_changed :: bool

definition id_of :: "doc \<Rightarrow> string option" where
  "id_of r = (case field r ''_id'' of JStr i \<Rightarrow> Some i | _ \<Rightarrow> None)"

definition strs :: "jval \<Rightarrow> string list" where
  "strs v = (case v of JArr xs \<Rightarrow> map js_string xs | _ \<Rightarrow> [])"

definition is_enabled :: "doc \<Rightarrow> bool" where
  "is_enabled r \<longleftrightarrow> field r ''enabled'' \<noteq> JBool False"

definition existingByKey :: "doc list \<Rightarrow> (string, doc) omap" where
  "existingByKey existing =
     fold (\<lambda>e m. if str_field e ''routeKey'' \<noteq> [] then AList.update (str_field e ''routeKey'') e m else m) existing []"

text \<open>What becomes of one valid route whose key is new in the manifest.\<close>

datatype route_outcome = OCollision string | OSkipped | OUnchanged | OUpsert upsert

definition upsert_model :: "string \<Rightarrow> string \<Rightarrow> bool \<Rightarrow> string list \<Rightarrow> doc \<Rightarrow> doc" where
  "upsert_model service key newEnabled overrides merged =
     spread merged [(''owner'', JStr service), (''routeKey'', JStr key), (''enabled'', JBool newEnabled),
       (''source'', JStr ''microservice''), (''modified'', JBool False), (''userOverrides'', JArr (map JStr overrides))]"

definition classify :: "string \<Rightarrow> (string, doc) omap \<Rightarrow> (string, string) omap \<Rightarrow> doc \<Rightarrow> route_outcome" where
  "classify service byKey reserved r =
     (let key = routeKeyOf r; owner = map_of reserved key in
      if truthy_str owner \<and> owner \<noteq> Some service then OCollision (the owner)
      else
        let ex = map_of byKey key in
        if ex \<noteq> None \<and> field (the ex) ''modified'' = JBool True then OSkipped
        else
          let overrides = (case ex of None \<Rightarrow> [] | Some e \<Rightarrow> strs (field e ''userOverrides''));
              merged = applyUserOverrides r ex overrides;
              exEnabled = (case ex of None \<Rightarrow> True | Some e \<Rightarrow> is_enabled e);
              newEnabled = (if ''enabled'' \<in> set overrides then exEnabled else True)
          in if ex \<noteq> None \<and> newEnabled = exEnabled \<and> routeContent merged = routeContent (the ex) then OUnchanged
             else OUpsert \<lparr>up_routeKey = key,
                           up_existingId = Option.bind ex id_of,
                           up_added = (ex = None),
                           up_model = upsert_model service key newEnabled overrides merged,
                           up_changes = (if ex = None then None else Some (diffRouteFields ex (Some merged)))\<rparr>)"

definition ref_of :: "doc \<Rightarrow> string \<Rightarrow> route_ref" where
  "ref_of r owner = \<lparr>rf_routeKey = routeKeyOf r, rf_method = field r ''method'', rf_path = field r ''path'', rf_conflictWith = owner\<rparr>"

fun record_outcome :: "doc \<Rightarrow> route_outcome \<Rightarrow> route_diff \<Rightarrow> route_diff" where
  "record_outcome r (OCollision owner) d = d\<lparr>rd_collisions := rd_collisions d @ [ref_of r owner]\<rparr>"
| "record_outcome r OSkipped d = d\<lparr>rd_skipped := rd_skipped d @ [ref_of r []]\<rparr>"
| "record_outcome r OUnchanged d = d"
| "record_outcome r (OUpsert u) d = d\<lparr>rd_upserts := rd_upserts d @ [u]\<rparr>"

fun diffLoop :: "string \<Rightarrow> (string, doc) omap \<Rightarrow> (string, string) omap \<Rightarrow> doc list \<Rightarrow> string list \<Rightarrow> route_diff \<Rightarrow>
    route_diff \<times> string list" where
  "diffLoop service byKey reserved [] seen d = (d, seen)"
| "diffLoop service byKey reserved (r # rs) seen d =
     (if \<not> isValidRoute r then diffLoop service byKey reserved rs seen (d\<lparr>rd_invalid := rd_invalid d @ [r]\<rparr>)
      else if routeKeyOf r \<in> set seen then diffLoop service byKey reserved rs seen d
      else diffLoop service byKey reserved rs (seen @ [routeKeyOf r])
        (record_outcome r (classify service byKey reserved r) d))"

definition disablesOf :: "(string, doc) omap \<Rightarrow> string list \<Rightarrow> route_disable list" where
  "disablesOf byKey seen =
     map (\<lambda>(key, ex). \<lparr>di_id = coalesce (id_of ex) [], di_routeKey = key, di_method = field ex ''method'', di_path = field ex ''path''\<rparr>)
       (filter (\<lambda>(key, ex). key \<notin> set seen \<and> is_enabled ex) byKey)"

definition empty_diff :: route_diff where
  "empty_diff = \<lparr>rd_upserts = [], rd_disables = [], rd_collisions = [], rd_skipped = [], rd_invalid = [], rd_changed = False\<rparr>"

definition diffRoutes :: "string \<Rightarrow> doc list \<Rightarrow> doc list \<Rightarrow> (string, string) omap \<Rightarrow> route_diff" where
  "diffRoutes service incoming existing reserved =
     (let byKey = existingByKey existing in
      (case diffLoop service byKey reserved incoming [] empty_diff of
         (d, seen) \<Rightarrow>
           let disables = disablesOf byKey seen
           in d\<lparr>rd_disables := disables, rd_changed := (rd_upserts d \<noteq> [] \<or> disables \<noteq> [])\<rparr>))"

section \<open>The diff as filters\<close>

text \<open>The valid routes, the first of each key.\<close>

fun firsts :: "string list \<Rightarrow> doc list \<Rightarrow> doc list" where
  "firsts seen [] = []"
| "firsts seen (r # rs) =
     (if isValidRoute r \<and> routeKeyOf r \<notin> set seen then r # firsts (routeKeyOf r # seen) rs else firsts seen rs)"

lemma firsts_set_cong: "set s = set t \<Longrightarrow> firsts s rs = firsts t rs"
proof (induction rs arbitrary: s t)
  case Nil
  then show ?case by simp
next
  case (Cons r rs)
  have a: "firsts (routeKeyOf r # s) rs = firsts (routeKeyOf r # t) rs" by (rule Cons.IH) (simp add: Cons.prems)
  have b: "firsts s rs = firsts t rs" by (rule Cons.IH [OF Cons.prems])
  show ?case by (simp only: firsts.simps a b Cons.prems)
qed

lemma firsts_keys: "r \<in> set (firsts seen rs) \<Longrightarrow> r \<in> set rs \<and> isValidRoute r \<and> routeKeyOf r \<notin> set seen"
  by (induction seen rs rule: firsts.induct) (auto split: if_splits)

lemma firsts_distinct: "distinct (map routeKeyOf (firsts seen rs))"
  by (induction seen rs rule: firsts.induct) (auto dest: firsts_keys)

lemma firsts_cover: "r \<in> set rs \<Longrightarrow> isValidRoute r \<Longrightarrow> routeKeyOf r \<notin> set seen \<Longrightarrow> routeKeyOf r \<in> routeKeyOf ` set (firsts seen rs)"
  by (induction seen rs rule: firsts.induct) auto

definition upsert_of :: "route_outcome \<Rightarrow> upsert option" where
  "upsert_of oc = (case oc of OUpsert u \<Rightarrow> Some u | _ \<Rightarrow> None)"

lemma diffLoop_spec:
  "diffLoop service byKey reserved rs seen d = (d', seen') \<Longrightarrow>
   rd_upserts d' = rd_upserts d @ List.map_filter (\<lambda>r. upsert_of (classify service byKey reserved r)) (firsts seen rs) \<and>
   rd_collisions d' = rd_collisions d @
     List.map_filter (\<lambda>r. case classify service byKey reserved r of OCollision owner \<Rightarrow> Some (ref_of r owner) | _ \<Rightarrow> None) (firsts seen rs) \<and>
   rd_skipped d' = rd_skipped d @
     List.map_filter (\<lambda>r. case classify service byKey reserved r of OSkipped \<Rightarrow> Some (ref_of r []) | _ \<Rightarrow> None) (firsts seen rs) \<and>
   rd_invalid d' = rd_invalid d @ filter (\<lambda>r. \<not> isValidRoute r) rs \<and>
   seen' = seen @ map routeKeyOf (firsts seen rs)"
proof (induction rs arbitrary: seen d)
  case Nil
  then show ?case by (auto simp: List.map_filter_def)
next
  case (Cons r rs)
  show ?case
  proof (cases "isValidRoute r \<and> routeKeyOf r \<notin> set seen")
    case False
    with Cons.prems Cons.IH show ?thesis by (auto split: if_splits)
  next
    case True
    let ?o = "classify service byKey reserved r"
    from True Cons.prems have run: "diffLoop service byKey reserved rs (seen @ [routeKeyOf r]) (record_outcome r ?o d) = (d', seen')" by simp
    have same: "firsts (seen @ [routeKeyOf r]) rs = firsts (routeKeyOf r # seen) rs" by (rule firsts_set_cong) simp
    show ?thesis using Cons.IH [OF run] True unfolding same
      by (cases ?o) (auto simp: List.map_filter_def upsert_of_def)
  qed
qed

lemma diffRoutes_spec:
  fixes service incoming existing reserved
  defines "byKey \<equiv> existingByKey existing" and "d \<equiv> diffRoutes service incoming existing reserved"
  shows "rd_upserts d = List.map_filter (\<lambda>r. upsert_of (classify service byKey reserved r)) (firsts [] incoming)"
    and "rd_collisions d = List.map_filter (\<lambda>r. case classify service byKey reserved r of OCollision owner \<Rightarrow> Some (ref_of r owner) | _ \<Rightarrow> None) (firsts [] incoming)"
    and "rd_skipped d = List.map_filter (\<lambda>r. case classify service byKey reserved r of OSkipped \<Rightarrow> Some (ref_of r []) | _ \<Rightarrow> None) (firsts [] incoming)"
    and "rd_disables d = disablesOf byKey (map routeKeyOf (firsts [] incoming))"
    and "rd_changed d \<longleftrightarrow> rd_upserts d \<noteq> [] \<or> rd_disables d \<noteq> []"
proof -
  obtain d' seen' where run: "diffLoop service byKey reserved incoming [] empty_diff = (d', seen')" by fastforce
  note spec = diffLoop_spec [OF this]
  have d: "d = d'\<lparr>rd_disables := disablesOf byKey seen', rd_changed := (rd_upserts d' \<noteq> [] \<or> disablesOf byKey seen' \<noteq> [])\<rparr>"
    using run by (simp add: d_def diffRoutes_def byKey_def Let_def)
  show "rd_upserts d = List.map_filter (\<lambda>r. upsert_of (classify service byKey reserved r)) (firsts [] incoming)"
    "rd_collisions d = List.map_filter (\<lambda>r. case classify service byKey reserved r of OCollision owner \<Rightarrow> Some (ref_of r owner) | _ \<Rightarrow> None) (firsts [] incoming)"
    "rd_skipped d = List.map_filter (\<lambda>r. case classify service byKey reserved r of OSkipped \<Rightarrow> Some (ref_of r []) | _ \<Rightarrow> None) (firsts [] incoming)"
    "rd_disables d = disablesOf byKey (map routeKeyOf (firsts [] incoming))"
    "rd_changed d \<longleftrightarrow> rd_upserts d \<noteq> [] \<or> rd_disables d \<noteq> []"
    using spec by (simp_all add: d empty_diff_def)
qed

lemma diffRoutes_invalid: "rd_invalid (diffRoutes service incoming existing reserved) = filter (\<lambda>r. \<not> isValidRoute r) incoming"
proof -
  obtain d' seen' where run: "diffLoop service (existingByKey existing) reserved incoming [] empty_diff = (d', seen')" by fastforce
  from diffLoop_spec [OF this] run show ?thesis by (simp add: diffRoutes_def Let_def empty_diff_def)
qed

lemma existingByKey_distinct: "distinct (map fst (existingByKey existing))"
proof -
  have "distinct (map fst m) \<Longrightarrow>
    distinct (map fst (fold (\<lambda>e m. if str_field e ''routeKey'' \<noteq> [] then AList.update (str_field e ''routeKey'') e m else m) es m))" for es m
    by (induction es arbitrary: m) (auto simp: distinct_update)
  then show ?thesis by (simp add: existingByKey_def)
qed

lemma existingByKey_mem:
  assumes "map_of (existingByKey existing) k = Some e"
  shows "e \<in> set existing \<and> str_field e ''routeKey'' = k \<and> k \<noteq> []"
proof -
  have "map_of (fold (\<lambda>e m. if str_field e ''routeKey'' \<noteq> [] then AList.update (str_field e ''routeKey'') e m else m) es m) k = Some e \<Longrightarrow>
     map_of m k = Some e \<or> (e \<in> set es \<and> str_field e ''routeKey'' = k \<and> k \<noteq> [])" for es m
  proof (induction es arbitrary: m)
    case Nil
    then show ?case by simp
  next
    case (Cons x es)
    let ?m = "if str_field x ''routeKey'' \<noteq> [] then AList.update (str_field x ''routeKey'') x m else m"
    from Cons.prems have "map_of ?m k = Some e \<or> (e \<in> set es \<and> str_field e ''routeKey'' = k \<and> k \<noteq> [])"
      by (intro Cons.IH) simp
    moreover have "map_of ?m k = Some e \<Longrightarrow> map_of m k = Some e \<or> (e = x \<and> str_field x ''routeKey'' = k \<and> k \<noteq> [])"
      by (simp add: om_simps split: if_splits)
    ultimately show ?case by auto
  qed
  from this [of existing "[]"] assms show ?thesis by (auto simp: existingByKey_def)
qed

lemma existingByKey_get:
  assumes "distinct (map (\<lambda>e. str_field e ''routeKey'') existing)" and "e \<in> set existing" and "str_field e ''routeKey'' \<noteq> []"
  shows "map_of (existingByKey existing) (str_field e ''routeKey'') = Some e"
proof -
  let ?f = "\<lambda>e m. if str_field e ''routeKey'' \<noteq> [] then AList.update (str_field e ''routeKey'') e m else m"
  let ?k = "str_field e ''routeKey''"
  have keep: "?k \<notin> set (map (\<lambda>e. str_field e ''routeKey'') es) \<Longrightarrow> map_of (fold ?f es m) ?k = map_of m ?k" for es m
    by (induction es arbitrary: m) (auto simp: om_simps)
  have "distinct (map (\<lambda>e. str_field e ''routeKey'') es) \<Longrightarrow> e \<in> set es \<Longrightarrow> map_of (fold ?f es m) ?k = Some e" for es m
  proof (induction es arbitrary: m)
    case Nil
    then show ?case by simp
  next
    case (Cons x es)
    show ?case
    proof (cases "x = e")
      case True
      with Cons.prems keep [of es] assms(3) show ?thesis by (simp add: om_simps)
    next
      case False
      with Cons show ?thesis by simp
    qed
  qed
  with assms show ?thesis by (simp add: existingByKey_def)
qed

lemma classify_upsert:
  assumes "classify service byKey reserved r = OUpsert u"
  shows "up_routeKey u = routeKeyOf r \<and> (\<forall>owner. map_of reserved (routeKeyOf r) = Some owner \<longrightarrow> owner = [] \<or> owner = service) \<and>
    (case map_of byKey (routeKeyOf r) of
       None \<Rightarrow> up_existingId u = None \<and> up_added u
     | Some ex \<Rightarrow> up_existingId u = id_of ex \<and> \<not> up_added u \<and> field ex ''modified'' \<noteq> JBool True)"
  using assms unfolding classify_def Let_def
  by (cases "map_of byKey (routeKeyOf r)") (auto split: if_splits simp: truthy_str_def)

section \<open>Idempotence of the classification\<close>

lemma spread_field: "field (spread a b) k = (case map_of (rev b) k of None \<Rightarrow> field a k | Some v \<Rightarrow> v)"
  by (simp add: field_def spread_get split: option.splits)

lemma upsert_model_field:
  "field (upsert_model service key en ov merged) k =
    (if k = ''owner'' then JStr service else if k = ''routeKey'' then JStr key else if k = ''enabled'' then JBool en
     else if k = ''source'' then JStr ''microservice'' else if k = ''modified'' then JBool False
     else if k = ''userOverrides'' then JArr (map JStr ov) else field merged k)"
  by (simp add: upsert_model_def spread_field)

lemma route_fields_content:
  "k \<in> set ROUTE_FIELDS \<Longrightarrow> k \<notin> {''owner'', ''routeKey'', ''enabled'', ''source'', ''modified'', ''userOverrides'', ''_id''}"
  by (auto simp: ROUTE_FIELDS_def)

lemma strs_JStr [simp]: "strs (JArr (map JStr xs)) = xs"
  by (induction xs) (simp_all add: strs_def)

lemma upsert_model_keys: "map_of (upsert_model service key en ov merged) k = None \<Longrightarrow> map_of merged k = None"
  by (auto simp: upsert_model_def spread_get split: option.splits if_splits)

text \<open>The row that an upsert leaves: the model merged over the stored row, or inserted.\<close>

definition row_after :: "string \<Rightarrow> doc option \<Rightarrow> doc \<Rightarrow> doc" where
  "row_after i ex model = (case ex of None \<Rightarrow> spread model [(''_id'', JStr i)] | Some e \<Rightarrow> patched i e model)"

definition defines_fields :: "doc \<Rightarrow> doc \<Rightarrow> bool" where
  "defines_fields r ex \<longleftrightarrow> (\<forall>k \<in> set ROUTE_FIELDS. map_of ex k \<noteq> None \<longrightarrow> map_of r k \<noteq> None)"

lemma fold_override_keys:
  "map_of (fold (\<lambda>f m. if f = ''enabled'' then m else AList.update f (g f) m) fs m) k = None \<Longrightarrow> map_of m k = None"
proof -
  have "k \<in> fst ` set m \<Longrightarrow> k \<in> fst ` set (fold (\<lambda>f m. if f = ''enabled'' then m else AList.update f (g f) m) fs m)"
  proof (induction fs arbitrary: m)
    case Nil
    then show ?case by simp
  next
    case (Cons f fs)
    then have "k \<in> fst ` set (if f = ''enabled'' then m else AList.update f (g f) m)" by (simp add: update_fst)
    from Cons.IH [OF this] show ?case by simp
  qed
  then show "map_of (fold (\<lambda>f m. if f = ''enabled'' then m else AList.update f (g f) m) fs m) k = None \<Longrightarrow> ?thesis"
    by (auto simp: map_of_eq_None_iff)
qed

lemma applyUserOverrides_keys: "map_of (applyUserOverrides r ex fs) k = None \<Longrightarrow> map_of r k = None"
  by (cases ex) (auto simp: applyUserOverrides_def split: if_splits dest: fold_override_keys)

lemma upsert_model_get:
  "map_of (upsert_model service key en ov merged) k =
    (if k = ''owner'' then Some (JStr service) else if k = ''routeKey'' then Some (JStr key) else if k = ''enabled'' then Some (JBool en)
     else if k = ''source'' then Some (JStr ''microservice'') else if k = ''modified'' then Some (JBool False)
     else if k = ''userOverrides'' then Some (JArr (map JStr ov)) else map_of merged k)"
  by (simp add: upsert_model_def spread_get)

lemma row_after_field:
  assumes "distinct (map fst model)"
  shows "field (row_after i ex model) k =
    (if k = ''_id'' then JStr i
     else case map_of model k of Some v \<Rightarrow> v | None \<Rightarrow> (case ex of None \<Rightarrow> JUndef | Some e \<Rightarrow> field e k))"
proof (cases ex)
  case None
  have "field (spread model [(''_id'', JStr i)]) k = (if k = ''_id'' then JStr i else field model k)"
    by (simp add: spread_field)
  then show ?thesis unfolding None row_after_def option.case by (simp only: field_def jget.simps split: option.splits if_splits)
next
  case (Some e)
  have "field (spread e model) k = (case map_of model k of Some v \<Rightarrow> v | None \<Rightarrow> field e k)"
    by (simp add: spread_field map_of_distinct_rev [OF assms] split: option.splits)
  then have "field (patched i e model) k = (if k = ''_id'' then JStr i
      else case map_of model k of Some v \<Rightarrow> v | None \<Rightarrow> field e k)"
    unfolding patched_def spread_field [of "spread e model"] by simp
  then show ?thesis unfolding Some row_after_def option.case .
qed

lemma fold_update_distinct: "distinct (map fst m) \<Longrightarrow> distinct (map fst (fold (\<lambda>(k, v) acc. AList.update k v acc) b m))"
  by (induction b arbitrary: m) (auto simp: distinct_update split: prod.splits)

lemma spread_distinct: "distinct (map fst a) \<Longrightarrow> distinct (map fst (spread a b))"
  by (simp add: spread_def fold_update_distinct)

lemma applyUserOverrides_distinct: "distinct (map fst r) \<Longrightarrow> distinct (map fst (applyUserOverrides r ex fs))"
proof -
  have "distinct (map fst m) \<Longrightarrow> distinct (map fst (fold (\<lambda>f m. if f = ''enabled'' then m else AList.update f (g f) m) fs m))" for g m
    by (induction fs arbitrary: m) (auto simp: distinct_update)
  then show "distinct (map fst r) \<Longrightarrow> ?thesis" by (auto simp: applyUserOverrides_def split: option.splits)
qed

lemma classify_settles:
  assumes "classify service byKey reserved r = OUpsert u" and d: "distinct (map fst r)"
    and cover: "\<And>ex. map_of byKey (routeKeyOf r) = Some ex \<Longrightarrow> defines_fields r ex"
    and "map_of byKey' (routeKeyOf r) = Some (row_after i (map_of byKey (routeKeyOf r)) (up_model u))"
  shows "classify service byKey' reserved r = OUnchanged"
proof -
  define key ex where "key = routeKeyOf r" and "ex = map_of byKey (routeKeyOf r)"
  define ov where "ov = (case ex of None \<Rightarrow> [] | Some e \<Rightarrow> strs (field e ''userOverrides''))"
  define exEnabled where "exEnabled = (case ex of None \<Rightarrow> True | Some e \<Rightarrow> is_enabled e)"
  define merged en where "merged = applyUserOverrides r ex ov" and "en = (if ''enabled'' \<in> set ov then exEnabled else True)"
  define row where "row = row_after i ex (up_model u)"
  note defs = key_def ex_def ov_def exEnabled_def merged_def en_def
  have notres: "\<not> (truthy_str (map_of reserved key) \<and> map_of reserved key \<noteq> Some service)"
    and model: "up_model u = upsert_model service key en ov merged"
    using assms(1) unfolding classify_def Let_def defs by (auto split: if_splits)
  have dm: "distinct (map fst (up_model u))"
    unfolding model upsert_model_def merged_def by (intro spread_distinct applyUserOverrides_distinct d)
  note rowf = row_after_field [OF dm, of i ex, folded row_def, unfolded model upsert_model_get]
  have ctl: "field row ''modified'' = JBool False" "field row ''userOverrides'' = JArr (map JStr ov)" "field row ''enabled'' = JBool en"
    by (simp_all add: rowf)
  have content: "field row k = field merged k" if k: "k \<in> set ROUTE_FIELDS" for k
  proof (cases "map_of merged k")
    case (Some v)
    with route_fields_content [OF k] show ?thesis by (simp add: rowf) (simp add: field_def)
  next
    case None
    then have "map_of r k = None" unfolding merged_def by (rule applyUserOverrides_keys)
    then have "case ex of None \<Rightarrow> True | Some e \<Rightarrow> map_of e k = None"
    proof (cases ex)
      case (Some e)
      then have "defines_fields r e" using cover by (simp add: ex_def)
      with k \<open>map_of r k = None\<close> Some show ?thesis unfolding defines_fields_def by fastforce
    qed simp
    with None route_fields_content [OF k] show ?thesis by (cases ex) (simp_all add: rowf, simp_all add: field_def)
  qed
  have again: "field (applyUserOverrides r (Some row) ov) k = field row k" if k: "k \<in> set ROUTE_FIELDS" for k
  proof (cases ex)
    case None
    with content [OF k] show ?thesis by (simp add: applyUserOverrides_def merged_def ov_def)
  next
    case (Some e)
    with content [OF k] show ?thesis by (simp add: applyUserOverrides_field merged_def)
  qed
  have "routeContent (applyUserOverrides r (Some row) ov) = routeContent row" by (rule routeContent_cong [OF again])
  moreover have "map_of byKey' key = Some row" using assms(4) by (simp add: key_def row_def ex_def)
  moreover have "''enabled'' \<notin> set ov \<longrightarrow> en" by (simp add: en_def)
  ultimately show ?thesis using notres ctl
    unfolding classify_def Let_def key_def [symmetric] by (simp add: is_enabled_def)
qed

section \<open>Properties\<close>

lemma map_filter_mem: "y \<in> set (List.map_filter f xs) \<longleftrightarrow> (\<exists>x \<in> set xs. f x = Some y)"
  by (induction xs) (auto simp: List.map_filter_def)

lemma map_filter_distinct:
  assumes "distinct (map g xs)" and "\<And>x y. f x = Some y \<Longrightarrow> h y = g x"
  shows "distinct (map h (List.map_filter f xs))"
  using assms(1)
proof (induction xs)
  case Nil
  then show ?case by (simp add: List.map_filter_def)
next
  case (Cons x xs)
  have "h y \<noteq> g x" if "y \<in> set (List.map_filter f xs)" for y
  proof -
    from that obtain z where "z \<in> set xs" "f z = Some y" by (auto simp: map_filter_mem)
    with assms(2) Cons.prems show ?thesis by (metis distinct.simps(2) image_eqI list.simps(9) list.set_map)
  qed
  with Cons assms(2) show ?case
    by (cases "f x") (auto simp: List.map_filter_def)
qed

lemma upsert_of_Some: "upsert_of oc = Some u \<longleftrightarrow> oc = OUpsert u"
  by (cases oc) (simp_all add: upsert_of_def)

lemma upsert_origin:
  assumes "u \<in> set (rd_upserts (diffRoutes service incoming existing reserved))"
  shows "\<exists>r \<in> set (firsts [] incoming). classify service (existingByKey existing) reserved r = OUpsert u"
  using assms unfolding diffRoutes_spec by (auto simp: map_filter_mem upsert_of_Some)

lemma disable_origin:
  assumes "x \<in> set (rd_disables (diffRoutes service incoming existing reserved))"
  shows "\<exists>ex. map_of (existingByKey existing) (di_routeKey x) = Some ex \<and> is_enabled ex \<and> di_id x = coalesce (id_of ex) [] \<and>
    di_routeKey x \<notin> routeKeyOf ` set (firsts [] incoming)"
  using assms existingByKey_distinct [of existing] unfolding diffRoutes_spec disablesOf_def by auto

lemma diff_keys_distinct:
  "distinct (map up_routeKey (rd_upserts (diffRoutes service incoming existing reserved)) @
     map di_routeKey (rd_disables (diffRoutes service incoming existing reserved)))"
proof -
  let ?d = "diffRoutes service incoming existing reserved"
  have u: "distinct (map up_routeKey (rd_upserts ?d))" unfolding diffRoutes_spec
    by (rule map_filter_distinct [OF firsts_distinct]) (auto simp: upsert_of_Some dest: classify_upsert)
  have "map di_routeKey (rd_disables ?d) =
      map fst (filter (\<lambda>(key, ex). key \<notin> set (map routeKeyOf (firsts [] incoming)) \<and> is_enabled ex) (existingByKey existing))"
    unfolding diffRoutes_spec disablesOf_def by (auto simp: split_beta)
  then have "distinct (map di_routeKey (rd_disables ?d))"
    by (simp add: om_distinct_filter existingByKey_distinct)
  moreover have "up_routeKey u \<noteq> di_routeKey x" if "u \<in> set (rd_upserts ?d)" "x \<in> set (rd_disables ?d)" for u x
    using upsert_origin [OF that(1)] disable_origin [OF that(2)] by (auto dest!: classify_upsert)
  ultimately show ?thesis using u by auto
qed

text \<open>The diff stays within the service's own routes: an upsert never concerns a key that the
  gateway file or another owner reserves, never an existing row a user has locked, and always a
  valid route of the manifest; a disable always concerns an enabled stored row that no valid route
  of the manifest mentions; and no key is both written and disabled, or written twice.\<close>

theorem diff_stays_in_bounds:
  fixes service incoming existing reserved
  defines "d \<equiv> diffRoutes service incoming existing reserved"
  shows "(\<forall>u \<in> set (rd_upserts d).
      (\<forall>owner. map_of reserved (up_routeKey u) = Some owner \<longrightarrow> owner = [] \<or> owner = service) \<and>
      (\<exists>r \<in> set incoming. isValidRoute r \<and> routeKeyOf r = up_routeKey u) \<and>
      (up_added u \<or> (\<exists>ex \<in> set existing. str_field ex ''routeKey'' = up_routeKey u \<and> up_existingId u = id_of ex \<and> field ex ''modified'' \<noteq> JBool True))) \<and>
    (\<forall>x \<in> set (rd_disables d).
      (\<exists>ex \<in> set existing. str_field ex ''routeKey'' = di_routeKey x \<and> is_enabled ex \<and> di_id x = coalesce (id_of ex) []) \<and>
      (\<forall>r \<in> set incoming. isValidRoute r \<longrightarrow> routeKeyOf r \<noteq> di_routeKey x)) \<and>
    distinct (map up_routeKey (rd_upserts d) @ map di_routeKey (rd_disables d))"
proof -
  have "(\<forall>owner. map_of reserved (up_routeKey u) = Some owner \<longrightarrow> owner = [] \<or> owner = service) \<and>
      (\<exists>r \<in> set incoming. isValidRoute r \<and> routeKeyOf r = up_routeKey u) \<and>
      (up_added u \<or> (\<exists>ex \<in> set existing. str_field ex ''routeKey'' = up_routeKey u \<and> up_existingId u = id_of ex \<and> field ex ''modified'' \<noteq> JBool True))"
    if u: "u \<in> set (rd_upserts d)" for u
  proof -
    obtain r where r: "r \<in> set (firsts [] incoming)" "classify service (existingByKey existing) reserved r = OUpsert u"
      using upsert_origin u unfolding d_def by blast
    note c = classify_upsert [OF r(2)]
    have "r \<in> set incoming \<and> isValidRoute r" using firsts_keys [OF r(1)] by simp
    moreover have "up_added u \<or> (\<exists>ex \<in> set existing. str_field ex ''routeKey'' = up_routeKey u \<and> up_existingId u = id_of ex \<and> field ex ''modified'' \<noteq> JBool True)"
      using c existingByKey_mem [of existing "routeKeyOf r"] by (cases "map_of (existingByKey existing) (routeKeyOf r)") auto
    ultimately show ?thesis using c by auto
  qed
  moreover have "(\<exists>ex \<in> set existing. str_field ex ''routeKey'' = di_routeKey x \<and> is_enabled ex \<and> di_id x = coalesce (id_of ex) []) \<and>
      (\<forall>r \<in> set incoming. isValidRoute r \<longrightarrow> routeKeyOf r \<noteq> di_routeKey x)" if x: "x \<in> set (rd_disables d)" for x
  proof -
    obtain ex where ex: "map_of (existingByKey existing) (di_routeKey x) = Some ex" "is_enabled ex" "di_id x = coalesce (id_of ex) []"
        "di_routeKey x \<notin> routeKeyOf ` set (firsts [] incoming)"
      using disable_origin x unfolding d_def by blast
    have "routeKeyOf r \<noteq> di_routeKey x" if "r \<in> set incoming" "isValidRoute r" for r
      using firsts_cover [OF that, of "[]"] ex(4) by auto
    with existingByKey_mem [OF ex(1)] ex show ?thesis by blast
  qed
  ultimately show ?thesis using diff_keys_distinct unfolding d_def by blast
qed

theorem diff_stays_in_bounds_witness:
  "''GET /a'' \<notin> up_routeKey ` set (rd_upserts (diffRoutes ''svc'' [sample_route] [] [(''GET /a'', ''yaml'')]))"
  using diff_stays_in_bounds [of "''svc''" "[sample_route]" "[]" "[(''GET /a'', ''yaml'')]"] by auto

end
