(* ===== verification/Broker_Metadata.thy ===== *)
theory Broker_Metadata
  imports Broker_Service Amqp_Consumer Route_Diff
begin

text \<open>
  How decorated methods become consumers and routes: the metadata scanner
  (\<open>modules/broker/services/metadata-scanner.service.ts\<close>), the pairing of routes with their
  authentication and the route definitions of a microservice (\<open>config/decorator-paths.ts\<close>), the
  publisher of its manifest (\<open>route-discovery-publisher.service.ts\<close>), and the connection names of
  \<open>broker.module.ts\<close>.

  The entries that \<open>@BrokerHTTP\<close> and \<open>@BrokerAuth\<close> leave on a class are plain documents. The
  mutation of a route by the pairing is written as the list of the paired routes.
\<close>

section \<open>Pairing authentication to routes\<close>

definition pairedAuth :: "bool \<Rightarrow> doc list \<Rightarrow> doc \<Rightarrow> doc option" where
  "pairedAuth multiHttp allAuth h =
     (if multiHttp
      then (if truthy (field h ''name'') then find (\<lambda>a. field a ''httpName'' = field h ''name'') allAuth else None)
      else coalesce_opt (find (\<lambda>a. \<not> truthy (field a ''httpName'')) allAuth) (Some (hd allAuth)))"

definition withAuth :: "doc \<Rightarrow> doc \<Rightarrow> doc" where
  "withAuth h a = spread h [(''auth'', field a ''authName''), (''allowAnonymous'', field a ''allowAnonymous''), (''actions'', field a ''actions'')]"

definition pairRoute :: "bool \<Rightarrow> doc list \<Rightarrow> doc \<Rightarrow> doc" where
  "pairRoute multiHttp allAuth h = (case pairedAuth multiHttp allAuth h of None \<Rightarrow> h | Some a \<Rightarrow> withAuth h a)"

datatype auth_warning = NoHttpName doc | UnknownHttpName doc

definition authWarnings :: "doc list \<Rightarrow> doc list \<Rightarrow> auth_warning list" where
  "authWarnings allHttp allAuth =
     List.map_filter (\<lambda>a. if \<not> truthy (field a ''httpName'') then Some (NoHttpName a)
        else if field a ''httpName'' \<notin> set (filter truthy (map (\<lambda>h. field h ''name'') allHttp)) then Some (UnknownHttpName a)
        else None) allAuth"

definition pairAuthToRoutes :: "doc list \<Rightarrow> doc list \<Rightarrow> doc list \<times> auth_warning list" where
  "pairAuthToRoutes allHttp allAuth =
     (if allHttp = [] \<or> allAuth = [] then (allHttp, [])
      else (let multiHttp = 1 < length allHttp
            in (map (pairRoute multiHttp allAuth) allHttp, if multiHttp then authWarnings allHttp allAuth else [])))"

section \<open>The scan\<close>

record 'p param_meta =
  pm_source :: string
  pm_name :: "string option"
  pm_pipe :: "'p option"

record 'p action_entry =
  an_service :: string
  an_method :: string
  an_type :: "string option"
  an_optional :: bool
  an_auth :: "doc list"
  an_http :: "doc list"
  an_params :: "(string \<times> 'p param_meta) list"

type_synonym 'p metadata = "(string, (string, 'p action_entry) omap) omap"

record method_meta =
  mm_methodName :: string
  mm_topic :: string
  mm_action :: string
  mm_type :: "string option"
  mm_optional :: bool
  mm_params :: "string list"

text \<open>What the decorators of one class hold; \<open>cm_paramMeta\<close> by method and parameter index.\<close>

record 'p class_meta =
  cm_name :: string
  cm_methods :: "method_meta list"
  cm_http :: "doc list"
  cm_auth :: "doc list"
  cm_paramMeta :: "string \<Rightarrow> nat \<Rightarrow> 'p param_meta option"

fun removeDefaultsFromParams :: "string list \<Rightarrow> string list" where
  "removeDefaultsFromParams [] = []"
| "removeDefaultsFromParams [p] = (if p = ''='' then [] else [p])"
| "removeDefaultsFromParams (p # x # ps) =
     (if p = ''='' then removeDefaultsFromParams ps else p # removeDefaultsFromParams (x # ps))"

definition of_method :: "string \<Rightarrow> doc list \<Rightarrow> doc list" where
  "of_method m es = filter (\<lambda>e. field e ''methodName'' = JStr m) es"

definition pairToAction :: "doc list \<Rightarrow> method_meta \<Rightarrow> method_meta list \<Rightarrow> doc list" where
  "pairToAction allEntries m actionsForMethod =
     filter (\<lambda>e. if nullish (field e ''action'') then \<not> 1 < length actionsForMethod
                else if field e ''action'' \<notin> set (map (JStr \<circ> mm_action) actionsForMethod) then False
                else field e ''action'' = JStr (mm_action m))
       (of_method (mm_methodName m) allEntries)"

text \<open>\<open>enumerate\<close> pairs each cleaned parameter with its index.\<close>

definition scanParams :: "'p class_meta \<Rightarrow> method_meta \<Rightarrow> (string \<times> 'p param_meta) list" where
  "scanParams c m =
     fold (\<lambda>(i, p) acc. AList.update p
         (coalesce (cm_paramMeta c (mm_methodName m) i) \<lparr>pm_source = ''body'', pm_name = None, pm_pipe = None\<rparr>) acc)
       (List.enumerate 0 (removeDefaultsFromParams (mm_params m))) []"

definition scanMethod :: "'p class_meta \<Rightarrow> method_meta \<Rightarrow> 'p metadata \<Rightarrow> 'p metadata" where
  "scanMethod c m md =
     (let actionsForMethod = filter (\<lambda>x. mm_methodName x = mm_methodName m) (cm_methods c);
          allAuth = of_method (mm_methodName m) (cm_auth c);
          paired = fst (pairAuthToRoutes (of_method (mm_methodName m) (cm_http c)) allAuth);
          entry = \<lparr>an_service = cm_name c, an_method = mm_methodName m, an_type = mm_type m, an_optional = mm_optional m,
                   an_auth = allAuth, an_http = pairToAction paired m actionsForMethod, an_params = scanParams c m\<rparr>
      in AList.update (mm_topic m) (AList.update (mm_action m) entry (coalesce (map_of md (mm_topic m)) [])) md)"

definition scanClass :: "'p class_meta \<Rightarrow> 'p metadata \<Rightarrow> 'p metadata" where
  "scanClass c md = fold (scanMethod c) (cm_methods c) md"

definition scanAll :: "'p class_meta list \<Rightarrow> 'p metadata" where
  "scanAll cs = fold scanClass cs []"

text \<open>Which consumers the metadata binds. The routing key error of a topic exchange is thrown out
  of the loop, and the topics after it are never bound.\<close>

record 'p binding =
  bi_topic :: string
  bi_actions :: "(string, 'p action_entry) omap"
  bi_options :: sub_options

definition bindTopic :: "broker_config \<Rightarrow> topic list \<Rightarrow> string \<times> (string, 'p action_entry) omap \<Rightarrow> jserr + 'p binding option" where
  "bindTopic cfg ts ta =
     (case ta of (name, actions) \<Rightarrow>
      if name = [] then Inr None
      else case topic_named ts name of
        None \<Rightarrow> Inr None
      | Some t \<Rightarrow>
          (case (bc_queues cfg, bc_exchanges cfg) of
             (Some queues, Some exchanges) \<Rightarrow>
               (let queue = queue_named queues (tp_queue t);
                    exchange = exchange_named exchanges (or_str (qopt queue qc_exchange) (tp_exchange t)) in
                if exchange \<noteq> None \<and> ec_type (the exchange) = Some ''topic'' \<and> \<not> truthy_keys (qkeys queue)
                then Inl (generic_error (''Queue '' @ coalesce (qopt queue qc_name) ''undefined'' @ '' has no routing key''))
                else Inr (Some \<lparr>bi_topic = name, bi_actions = actions,
                       bi_options = \<lparr>so_queue = or_str (qopt queue qc_name) (tp_queue t),
                         so_exchange = or_str (map_option ec_name exchange) (tp_exchange t),
                         so_routingKey = key_of (or_str (tp_routingKey t) (first_key (qkeys queue))),
                         so_retry = tp_retry t, so_perInstance = False\<rparr>\<rparr>))
           | _ \<Rightarrow> Inl (type_error ''Cannot read properties of undefined (reading find)'')))"

fun bindAll :: "broker_config \<Rightarrow> topic list \<Rightarrow> 'p metadata \<Rightarrow> 'p binding list \<Rightarrow> (jserr option) \<times> 'p binding list" where
  "bindAll cfg ts [] acc = (None, acc)"
| "bindAll cfg ts (ta # tas) acc =
     (case bindTopic cfg ts ta of
        Inl e \<Rightarrow> (Some e, acc)
      | Inr None \<Rightarrow> bindAll cfg ts tas acc
      | Inr (Some b) \<Rightarrow> bindAll cfg ts tas (acc @ [b]))"

section \<open>A delivery to a decorated method\<close>

text \<open>The application side: what a pipe makes of a value, what a method returns or throws, the
  stack text of an error, and whether stacks are shown.\<close>

record 'p app =
  ap_pipe :: "'p \<Rightarrow> jval \<Rightarrow> string \<Rightarrow> jserr + jval"
  ap_method :: "string \<Rightarrow> string \<Rightarrow> jval list \<Rightarrow> jserr + jval"
  ap_stack :: "jserr \<Rightarrow> string"
  ap_dev :: bool

record delivery =
  dl_payload :: jval
  dl_headers :: jval
  dl_tag :: jval
  dl_action :: jval
  dl_topic :: string

definition transform :: "'p app \<Rightarrow> 'p param_meta \<Rightarrow> jval \<Rightarrow> string \<Rightarrow> jserr + jval" where
  "transform ap meta v name = (case pm_pipe meta of None \<Rightarrow> Inr v | Some p \<Rightarrow> ap_pipe ap p v name)"

definition param_name :: "string \<Rightarrow> 'p param_meta \<Rightarrow> string" where
  "param_name param meta = (if truthy_str (pm_name meta) then the (pm_name meta) else param)"

definition resolveParam :: "'p app \<Rightarrow> delivery \<Rightarrow> string \<Rightarrow> 'p param_meta \<Rightarrow> jserr + jval list" where
  "resolveParam ap d param meta =
     (let name = param_name param meta; one = map_sum id (\<lambda>v. [v]) in
      if pm_source meta = ''header''
      then (if nullish (dl_headers d) then Inl (type_error (''Cannot read properties of undefined (reading '' @ name @ '')''))
            else one (transform ap meta (jget (dl_headers d) name) name))
      else if pm_source meta = ''body-full'' then one (transform ap meta (dl_payload d) [])
      else if pm_source meta = ''body'' then one (transform ap meta (jget (dl_payload d) name) name)
      else if pm_source meta = ''tag'' then one (transform ap meta (dl_tag d) ''tag'')
      else if pm_source meta = ''action'' then one (transform ap meta (dl_action d) ''action'')
      else if pm_source meta = ''topic'' then one (transform ap meta (JStr (dl_topic d)) ''topic'')
      else Inr [])"

fun resolveParams :: "'p app \<Rightarrow> delivery \<Rightarrow> (string \<times> 'p param_meta) list \<Rightarrow> jserr + jval list" where
  "resolveParams ap d [] = Inr []"
| "resolveParams ap d ((param, meta) # ps) =
     (case resolveParam ap d param meta of
        Inl e \<Rightarrow> Inl e
      | Inr xs \<Rightarrow> map_sum id (\<lambda>ys. xs @ ys) (resolveParams ap d ps))"

definition failure :: "'p app \<Rightarrow> jserr \<Rightarrow> jval" where
  "failure ap e = JObj [(''success'', JBool False), (''error'', JObj (error2Object (ename e) (emsg e) (ap_stack ap e) [] (ap_dev ap)))]"

definition success :: "jval \<Rightarrow> jval" where
  "success v = JObj [(''success'', JBool True), (''payload'', v)]"

definition executeMethod :: "'p app \<Rightarrow> 'p action_entry \<Rightarrow> jval list \<Rightarrow> jval" where
  "executeMethod ap en args =
     (case ap_method ap (an_service en) (an_method en) args of Inr v \<Rightarrow> success v | Inl e \<Rightarrow> failure ap e)"

definition scannedHandler :: "'p app \<Rightarrow> 'p binding \<Rightarrow> (amqp_msg \<Rightarrow> jval) \<Rightarrow> (amqp_msg \<Rightarrow> jval) \<Rightarrow> jval \<Rightarrow> amqp_msg \<Rightarrow> handler_result" where
  "scannedHandler ap b headersOf tagOf msg raw =
     (if nullish msg then HThrow (JStr ''TypeError: Cannot read properties of undefined (reading payload)'')
      else
        let payload = (if truthy (jget msg ''payload'') then jget msg ''payload'' else JObj [])
        in case map_of (bi_actions b) (js_string (jget msg ''action'')) of
             None \<Rightarrow> HNack False
           | Some en \<Rightarrow>
               (case resolveParams ap \<lparr>dl_payload = payload, dl_headers = headersOf raw, dl_tag = tagOf raw,
                       dl_action = jget msg ''action'', dl_topic = bi_topic b\<rparr> (an_params en) of
                  Inl e \<Rightarrow> HValue (failure ap e)
                | Inr args \<Rightarrow> HValue (executeMethod ap en args)))"

section \<open>The manifest of a microservice\<close>

definition cloneParamsWithoutPipe :: "(string \<times> 'p param_meta) list \<Rightarrow> (string \<times> 'p param_meta) list" where
  "cloneParamsWithoutPipe ps = map (\<lambda>(k, m). (k, m\<lparr>pm_pipe := None\<rparr>)) ps"

definition metaInfo :: "'p metadata \<Rightarrow> 'p metadata" where
  "metaInfo md = map (\<lambda>(t, as). (t, map (\<lambda>(a, en). (a, en\<lparr>an_params := cloneParamsWithoutPipe (an_params en)\<rparr>)) as)) md"

definition pathDefinition :: "string \<Rightarrow> string \<Rightarrow> string option \<Rightarrow> doc \<Rightarrow> doc" where
  "pathDefinition topic action type h =
     [(''name'', jcoal (field h ''name'') (JStr (js_join '':'' [topic, action, js_string (field h ''method''), js_string (field h ''path'')]))),
      (''method'', field h ''method''), (''path'', field h ''path''),
      (''dataSource'', jcoal (field h ''dataSource'') (JStr ''body'')),
      (''topic'', JStr topic), (''action'', JStr action),
      (''mode'', jcoal (field h ''mode'') (JStr (if type = Some ''event'' then ''event'' else ''rpc''))),
      (''auth'', field h ''auth''), (''allowAnonymous'', field h ''allowAnonymous''),
      (''actions'', jcoal (field h ''actions'') (JArr [])),
      (''successStatusCode'', field h ''successStatusCode''), (''timeout'', field h ''timeout''), (''parseRaw'', field h ''parseRaw''),
      (''binary'', field h ''binary''), (''redirect'', field h ''redirect''),
      (''headers'', jcoal (field h ''headers'') (JObj [])), (''forwardHeaders'', jcoal (field h ''forwardHeaders'') (JObj []))]"

definition buildPathDefinitionsFromMeta :: "'p metadata \<Rightarrow> doc list" where
  "buildPathDefinitionsFromMeta md =
     concat (map (\<lambda>(t, as). concat (map (\<lambda>(a, en). map (pathDefinition t a (an_type en)) (an_http en)) as)) md)"

definition ROUTE_DISCOVERY_EXCHANGE :: string where "ROUTE_DISCOVERY_EXCHANGE = ''rlb-route-discovery''"
definition ROUTE_SYNC_QUEUE :: string where "ROUTE_SYNC_QUEUE = ''rlb-route-sync''"

record discovery_config =
  dc_serviceName :: "string option"
  dc_publishOnBoot :: "bool option"
  dc_exchange :: "string option"
  dc_queue :: "string option"

datatype discovery_call = DcChannel chan_call | DcPublish string string "doc list"

text \<open>The calls are made one after the other until one fails (\<open>ok n\<close>: call number \<open>n\<close> goes
  through); the result is the confirm of the publish, \<open>false\<close> after a failure.\<close>

fun attempt :: "(nat \<Rightarrow> bool) \<Rightarrow> nat \<Rightarrow> 'c list \<Rightarrow> bool \<times> 'c list" where
  "attempt ok n [] = (True, [])"
| "attempt ok n (c # cs) = (if ok n then (case attempt ok (Suc n) cs of (r, log) \<Rightarrow> (r, c # log)) else (False, [c]))"

definition publishManifest :: "(nat \<Rightarrow> bool) \<Rightarrow> discovery_config \<Rightarrow> 'p metadata \<Rightarrow> bool \<times> discovery_call list" where
  "publishManifest ok cfg md =
     (if \<not> truthy_str (dc_serviceName cfg) then (False, [])
      else
        let routes = buildPathDefinitionsFromMeta (metaInfo md);
            exchange = the (or_str (dc_exchange cfg) (Some ROUTE_DISCOVERY_EXCHANGE));
            queue = the (or_str (dc_queue cfg) (Some ROUTE_SYNC_QUEUE))
        in attempt ok 0
          [DcChannel (ChAssertExchange exchange ''fanout'' [(''durable'', JBool True)]),
           DcChannel (ChAssertQueue queue [(''durable'', JBool True), (''exclusive'', JBool False), (''autoDelete'', JBool False)]),
           DcChannel (ChBindQueue queue exchange [] JUndef),
           DcPublish exchange (the (dc_serviceName cfg)) routes])"

definition publishOnBootstrap :: "(nat \<Rightarrow> bool) \<Rightarrow> discovery_config \<Rightarrow> 'p metadata \<Rightarrow> discovery_call list" where
  "publishOnBootstrap ok cfg md =
     (if \<not> truthy_str (dc_serviceName cfg) \<or> dc_publishOnBoot cfg = Some False then [] else snd (publishManifest ok cfg md))"

section \<open>Connection names\<close>

definition withServiceNameConnection :: "string option \<Rightarrow> string option \<Rightarrow> string option" where
  "withServiceNameConnection serviceName connectionName =
     (if \<not> truthy_str serviceName then connectionName
      else if truthy_str connectionName then connectionName else serviceName)"

definition withInstanceUniqueConnectionName :: "string \<Rightarrow> nat \<Rightarrow> string option \<Rightarrow> string option" where
  "withInstanceUniqueConnectionName hostname pid connectionName =
     (if \<not> truthy_str connectionName then connectionName
      else Some (the connectionName @ ''-'' @ hostname @ ''-'' @ nat_str pid))"

definition buildOptions :: "string \<Rightarrow> nat \<Rightarrow> string option \<Rightarrow> string option \<Rightarrow> string option" where
  "buildOptions hostname pid serviceName connectionName =
     withInstanceUniqueConnectionName hostname pid (withServiceNameConnection serviceName connectionName)"

section \<open>Shutdown\<close>

text \<open>\<open>onModuleDestroy\<close>: the broker is silenced first, then every registered pipeline is drained; a
  failing drain is logged. \<open>drains\<close> are the results of the drains, in order of registration.\<close>

definition onModuleDestroy :: "'s broker_deps \<Rightarrow> (jserr + unit) list \<Rightarrow> (('s, 'h) broker, nat) eff" where
  "onModuleDestroy d drains = and_then (unregisterAll d) (\<lambda>_. ret (length drains))"

definition handleSignal :: "bool \<Rightarrow> bool \<times> bool" where
  "handleSignal shuttingDown = (if shuttingDown then (True, False) else (True, True))"

section \<open>Facts about the pairing and the scan\<close>

lemma withAuth_field:
  "field (withAuth h a) k =
    (if k = ''actions'' then field a ''actions'' else if k = ''allowAnonymous'' then field a ''allowAnonymous''
     else if k = ''auth'' then field a ''authName'' else field h k)"
  by (simp add: withAuth_def spread_field)

lemma pairRoute_field: "k \<notin> {''actions'', ''allowAnonymous'', ''auth''} \<Longrightarrow> field (pairRoute mh allAuth h) k = field h k"
  by (auto simp: pairRoute_def withAuth_field split: option.splits)

lemma pairRoute_named:
  assumes "truthy (field h ''name'')" and "a \<in> set allAuth" and "field a ''httpName'' = field h ''name''"
  shows "\<exists>a' \<in> set allAuth. field a' ''httpName'' = field h ''name'' \<and> pairRoute True allAuth h = withAuth h a'"
proof (cases "find (\<lambda>a. field a ''httpName'' = field h ''name'') allAuth")
  case None
  with assms show ?thesis by (auto simp: find_None_iff)
next
  case (Some a')
  then have "a' \<in> set allAuth" "field a' ''httpName'' = field h ''name''" by (auto simp: find_Some_iff)
  with Some assms(1) show ?thesis by (auto simp: pairRoute_def pairedAuth_def)
qed

lemma pairRoute_single:
  assumes "allAuth \<noteq> []"
  shows "\<exists>a \<in> set allAuth. pairRoute False allAuth h = withAuth h a"
proof (cases "find (\<lambda>a. \<not> truthy (field a ''httpName'')) allAuth")
  case None
  with assms show ?thesis by (auto simp: pairRoute_def pairedAuth_def)
next
  case (Some a)
  then have "a \<in> set allAuth" by (auto simp: find_Some_iff)
  with Some show ?thesis by (auto simp: pairRoute_def pairedAuth_def)
qed

lemma build_mem:
  "r \<in> set (buildPathDefinitionsFromMeta md) \<longleftrightarrow>
    (\<exists>t as a en h. (t, as) \<in> set md \<and> (a, en) \<in> set as \<and> h \<in> set (an_http en) \<and> r = pathDefinition t a (an_type en) h)"
  unfolding buildPathDefinitionsFromMeta_def by (auto simp: image_iff split: prod.splits) blast+

lemma pathDefinition_field:
  "field (pathDefinition t a ty h) ''method'' = field h ''method''" "field (pathDefinition t a ty h) ''path'' = field h ''path''"
  "field (pathDefinition t a ty h) ''topic'' = JStr t" "field (pathDefinition t a ty h) ''action'' = JStr a"
  "field (pathDefinition t a ty h) ''mode'' = jcoal (field h ''mode'') (JStr (if ty = Some ''event'' then ''event'' else ''rpc''))"
  "field (pathDefinition t a ty h) ''auth'' = field h ''auth''"
  by (simp_all add: pathDefinition_def field_def)

lemma scannedHandler_result:
  assumes "\<not> nullish v"
  shows "scannedHandler ap b headersOf tagOf v raw = HNack False \<or>
    (\<exists>x. scannedHandler ap b headersOf tagOf v raw = HValue (success x)) \<or> (\<exists>e. scannedHandler ap b headersOf tagOf v raw = HValue (failure ap e))"
  using assms by (auto simp: scannedHandler_def Let_def executeMethod_def split: option.splits sum.splits)

lemma last_sep_unique:
  assumes "xs @ c # ys = xs' @ c # ys'" and "c \<notin> set ys" and "c \<notin> set ys'"
  shows "xs = xs' \<and> ys = ys'"
  using assms
proof (induction xs arbitrary: xs')
  case Nil
  then show ?case by (cases xs') auto
next
  case (Cons x xs)
  then show ?case by (cases xs') auto
qed

section \<open>Properties\<close>




text \<open>Two instances of a service never share a broadcast queue: whatever logical connection name
  or service name they are configured with, if they differ in host or process id, the queues that
  the same broadcast topic gets in the two instances differ.\<close>

theorem broadcast_queues_per_instance:
  assumes "(host1, pid1) \<noteq> (host2, pid2)"
    and "initBroadcast (cfg\<lparr>bc_connectionName := buildOptions host1 pid1 svc cname\<rparr>) t \<lparr>po_rpcs = [], po_handlers = []\<rparr> = Inr p1"
    and "initBroadcast (cfg\<lparr>bc_connectionName := buildOptions host2 pid2 svc cname\<rparr>) t \<lparr>po_rpcs = [], po_handlers = []\<rparr> = Inr p2"
    and "map_of (po_handlers p1) n = Some e1" and "map_of (po_handlers p2) n = Some e2"
  shows "pe_queue e1 \<noteq> pe_queue e2"
proof
  assume eq: "pe_queue e1 = pe_queue e2"
  define l where "l = withServiceNameConnection svc cname"
  have q: "pe_queue e = Some (tp_name t @ ''-'' @ the l @ ''-'' @ h @ ''-'' @ nat_str pid)"
    if "initBroadcast (cfg\<lparr>bc_connectionName := buildOptions h pid svc cname\<rparr>) t \<lparr>po_rpcs = [], po_handlers = []\<rparr> = Inr p"
      and "map_of (po_handlers p) n = Some e" for h pid p e
    using that by (auto simp: initBroadcast_def buildOptions_def withInstanceUniqueConnectionName_def l_def split: if_splits)
  from eq q [OF assms(2,4)] q [OF assms(3,5)] have "host1 @ CHR ''-'' # nat_str pid1 = host2 @ CHR ''-'' # nat_str pid2" by simp
  from last_sep_unique [OF this nat_str_no_dash nat_str_no_dash] have "host1 = host2 \<and> pid1 = pid2" by simp
  with assms(1) show False by simp
qed

section \<open>Witnesses\<close>

definition sample_entry :: "unit action_entry" where
  "sample_entry = \<lparr>an_service = ''Orders'', an_method = ''create'', an_type = Some ''rpc'', an_optional = False, an_auth = [],
     an_http = [[(''method'', JStr ''POST''), (''path'', JStr ''/orders'')]],
     an_params = [(''qty'', \<lparr>pm_source = ''body'', pm_name = None, pm_pipe = Some ()\<rparr>)]\<rparr>"

definition sample_app :: "unit app" where
  "sample_app = \<lparr>ap_pipe = (\<lambda>p v n. if nullish v then Inl (bad_request (n @ '' is required'')) else Inr v),
     ap_method = (\<lambda>s m args. Inr (JArr args)), ap_stack = (\<lambda>e. []), ap_dev = False\<rparr>"

definition sample_binding :: "unit binding" where
  "sample_binding = \<lparr>bi_topic = ''orders'', bi_actions = [(''create'', sample_entry)],
     bi_options = \<lparr>so_queue = Some ''q'', so_exchange = None, so_routingKey = RkAbsent, so_retry = JUndef, so_perInstance = False\<rparr>\<rparr>"

definition sample_call :: jval where
  "sample_call = JObj [(''action'', JStr ''create''), (''payload'', JObj [])]"

definition sample_scanned :: runtime where
  "sample_scanned = (sample_runtime (\<lambda>n. True) Inr (HValue JNull))
     \<lparr>rt_deserializer := (\<lambda>v. Inr sample_call), rt_serializable := (\<lambda>v. True),
      rt_handler := scannedHandler sample_app sample_binding (\<lambda>m. JObj []) (\<lambda>m. JStr ''tag'')\<rparr>"




definition sample_broadcast :: topic where
  "sample_broadcast = sample_topic\<lparr>tp_mode := ''broadcast''\<rparr>"

theorem broadcast_queues_per_instance_witness:
  "\<exists>p1 p2 e1 e2.
     initBroadcast (sample_broker_config\<lparr>bc_connectionName := buildOptions ''h1'' 1 (Some ''svc'') None\<rparr>) sample_broadcast \<lparr>po_rpcs = [], po_handlers = []\<rparr> = Inr p1 \<and>
     initBroadcast (sample_broker_config\<lparr>bc_connectionName := buildOptions ''h2'' 1 (Some ''svc'') None\<rparr>) sample_broadcast \<lparr>po_rpcs = [], po_handlers = []\<rparr> = Inr p2 \<and>
     map_of (po_handlers p1) ''orders'' = Some e1 \<and> map_of (po_handlers p2) ''orders'' = Some e2 \<and> pe_queue e1 \<noteq> pe_queue e2"
proof -
  let ?i = "\<lambda>h. initBroadcast (sample_broker_config\<lparr>bc_connectionName := buildOptions h 1 (Some ''svc'') None\<rparr>) sample_broadcast \<lparr>po_rpcs = [], po_handlers = []\<rparr>"
  have get: "\<exists>p e. ?i h = Inr p \<and> map_of (po_handlers p) ''orders'' = Some e" for h
    by (simp add: initBroadcast_def sample_broadcast_def sample_topic_def sample_broker_config_def buildOptions_def
        withInstanceUniqueConnectionName_def withServiceNameConnection_def)
  obtain p1 e1 where 1: "?i ''h1'' = Inr p1" "map_of (po_handlers p1) ''orders'' = Some e1" using get by blast
  obtain p2 e2 where 2: "?i ''h2'' = Inr p2" "map_of (po_handlers p2) ''orders'' = Some e2" using get by blast
  have "(''h1'', 1 :: nat) \<noteq> (''h2'', 1)" by simp
  from broadcast_queues_per_instance [OF this 1(1) 2(1) 1(2) 2(2)] 1 2 show ?thesis by blast
qed

end
