(* ===== verification/Amqp_Boot.thy ===== *)
theory Amqp_Boot
  imports Broker_Metadata
begin

text \<open>
  How an instance comes up: the providers of \<open>modules/broker/broker.module.ts\<close> and their connection
  name, the constructor and \<open>init\<close> of \<open>AmqpConnection\<close>
  (\<open>amqp-lib/amqp/connection.ts\<close>), its publisher and return listener, and the setup of a consumer on a
  channel, from the queue to the registered tag.

  Options are dynamic values. Function values among them (\<open>deserializer\<close>, \<open>response\<close>) are opaque
  values handed in. \<open>amqplib\<close>, the URL parser and rxjs are outside: the credential
  mechanisms and \<open>new URL(..)\<close> are arguments, and so is what \<open>lastValueFrom\<close> makes of an empty stream.
\<close>

section \<open>Module options\<close>

definition or_obj :: "jval \<Rightarrow> (string \<times> jval) list" where
  "or_obj v = (if truthy v then obj_entries v else [])"

definition managerOptions :: "jval \<Rightarrow> (string \<times> jval) list" where
  "managerOptions options = or_obj (jget options ''connectionManagerOptions'')"

definition connectionOptions :: "jval \<Rightarrow> (string \<times> jval) list" where
  "connectionOptions options = or_obj (jget (JObj (managerOptions options)) ''connectionOptions'')"

definition clientProperties :: "jval \<Rightarrow> (string \<times> jval) list" where
  "clientProperties options = or_obj (jget (JObj (connectionOptions options)) ''clientProperties'')"

definition configuredName :: "jval \<Rightarrow> jval" where
  "configuredName options = jget (JObj (clientProperties options)) ''connection_name''"

text \<open>The copy of the options with another connection name: every object on the way is copied.\<close>

definition renameConnection :: "jval \<Rightarrow> jval \<Rightarrow> jval" where
  "renameConnection name options =
     JObj (spread (obj_entries options) [(''connectionManagerOptions'',
       JObj (spread (managerOptions options) [(''connectionOptions'',
         JObj (spread (connectionOptions options) [(''clientProperties'',
           JObj (spread (clientProperties options) [(''connection_name'', name)]))]))]))])"

definition serviceNameOptions :: "jval \<Rightarrow> jval" where
  "serviceNameOptions options =
     (let serviceName = jget (jget options ''routeDiscovery'') ''serviceName'' in
      if \<not> truthy serviceName then options
      else if truthy (configuredName options) then options
      else renameConnection serviceName options)"

definition instanceOptions :: "string \<Rightarrow> nat \<Rightarrow> jval \<Rightarrow> jval" where
  "instanceOptions hostname pid options =
     (if \<not> truthy (configuredName options) then options
      else renameConnection (JStr (js_string (configuredName options) @ ''-'' @ hostname @ ''-'' @ nat_str pid)) options)"

definition moduleOptions :: "string \<Rightarrow> nat \<Rightarrow> jval \<Rightarrow> jval" where
  "moduleOptions hostname pid options = instanceOptions hostname pid (serviceNameOptions options)"

record broker_providers =
  pv_options :: jval
  pv_topics :: jval
  pv_app :: jval
  pv_discovery :: jval

definition forRoot :: "string \<Rightarrow> nat \<Rightarrow> jval \<Rightarrow> jval \<Rightarrow> jval \<Rightarrow> jserr + broker_providers" where
  "forRoot hostname pid options topics appOptions =
     (if \<not> truthy options then Inl (generic_error ''RabbitMQConfig is required'')
      else if \<not> truthy topics then Inl (generic_error ''At least one topic is required'')
      else (let opts = moduleOptions hostname pid options in
            Inr \<lparr>pv_options = opts, pv_topics = topics, pv_app = appOptions, pv_discovery = jget opts ''routeDiscovery''\<rparr>))"

text \<open>\<open>forRootAsync\<close>: each provider has a factory that calls the application's \<open>useFactory\<close> anew.
  Nest resolves them in any order; here it is the order of the list.\<close>

record module_config =
  mo_options :: jval
  mo_topics :: jval
  mo_app :: jval

definition optionsFactory :: "string \<Rightarrow> nat \<Rightarrow> ('s, module_config) eff \<Rightarrow> ('s, jval) eff" where
  "optionsFactory hostname pid useFactory =
     and_then useFactory (\<lambda>result.
       if nullish (mo_options result)
       then throw (mk_err ''TypeError'' ''Cannot read properties of undefined (reading 'connectionManagerOptions')'')
       else ret (moduleOptions hostname pid (mo_options result)))"

definition forRootAsync :: "string \<Rightarrow> nat \<Rightarrow> ('s, module_config) eff \<Rightarrow> ('s, broker_providers) eff" where
  "forRootAsync hostname pid useFactory =
     and_then (optionsFactory hostname pid useFactory) (\<lambda>options.
     and_then useFactory (\<lambda>second.
     and_then useFactory (\<lambda>third.
     and_then useFactory (\<lambda>fourth.
       ret \<lparr>pv_options = options, pv_topics = mo_topics second, pv_app = mo_app third,
            pv_discovery = jget (mo_options fourth) ''routeDiscovery''\<rparr>))))"

section \<open>The constructor\<close>

definition defaultInitOptions :: "(string \<times> jval) list" where
  "defaultInitOptions = [(''wait'', JBool True), (''timeout'', JNum 5000), (''reject'', JBool True),
     (''skipConnectionFailedLogging'', JBool False), (''skipDisconnectFailedLogging'', JBool False)]"

definition defaultConfig :: "(string \<times> jval) list" where
  "defaultConfig = [(''name'', JStr ''default''), (''prefetchCount'', JNum 10), (''defaultExchangeType'', JStr ''topic''),
     (''exchanges'', JArr []), (''exchangeBindings'', JArr []), (''queues'', JArr []), (''defaultRpcTimeout'', JNum 10000),
     (''connectionInitOptions'', JObj defaultInitOptions), (''connectionManagerOptions'', JObj []),
     (''registerHandlers'', JBool True), (''enableDirectReplyTo'', JBool True), (''channels'', JObj []),
     (''handlers'', JObj []), (''defaultHandler'', JStr []), (''enableControllerDiscovery'', JBool False)]"

record credential_lib =
  cl_plain :: "jval \<Rightarrow> jval \<Rightarrow> jval"
  cl_external :: jval
  cl_amqplain :: "jval \<Rightarrow> jval \<Rightarrow> jval"

definition hasMechanism :: "string \<Rightarrow> jval \<Rightarrow> jserr + bool" where
  "hasMechanism mechanism cred =
     (if \<not> truthy cred then Inr False
      else case jget cred ''mechanism'' of
             JStr s \<Rightarrow> Inr (to_lower s = mechanism)
           | v \<Rightarrow> if nullish v then Inr False
                  else Inl (mk_err ''TypeError'' ''cred.mechanism?.toLowerCase is not a function''))"

definition addResponse :: "string \<Rightarrow> (jval \<Rightarrow> jval) \<Rightarrow> jval \<Rightarrow> jserr + jval" where
  "addResponse mechanism response cred =
     (case hasMechanism mechanism cred of
        Inl e \<Rightarrow> Inl e
      | Inr b \<Rightarrow> Inr (if b then jset cred ''response'' (response cred) else cred))"

definition prepareCredentials :: "credential_lib \<Rightarrow> jval \<Rightarrow> jserr + jval" where
  "prepareCredentials lib cred0 =
     (case addResponse ''plain'' (\<lambda>c. cl_plain lib (jget c ''username'') (jget c ''password'')) cred0 of
        Inl e \<Rightarrow> Inl e
      | Inr cred1 \<Rightarrow>
         (case addResponse ''external'' (\<lambda>c. cl_external lib) cred1 of
            Inl e \<Rightarrow> Inl e
          | Inr cred2 \<Rightarrow> addResponse ''amqplain'' (\<lambda>c. cl_amqplain lib (jget c ''username'') (jget c ''password'')) cred2))"

definition optString :: "jval \<Rightarrow> string \<Rightarrow> string option" where
  "optString v k = (case jget v k of JStr s \<Rightarrow> Some s | _ \<Rightarrow> None)"

definition optNumber :: "jval \<Rightarrow> string \<Rightarrow> int option" where
  "optNumber v k = (case jget v k of JNum n \<Rightarrow> Some n | _ \<Rightarrow> None)"

text \<open>The fields of \<open>Options.Connect\<close> have the types it declares; \<open>uriInput\<close> reads them as such.\<close>

definition uriInput :: "jval \<Rightarrow> jserr + uri_input" where
  "uriInput v =
     (case v of
        JStr s \<Rightarrow> Inr (UriString s)
      | _ \<Rightarrow> if nullish v then Inl (mk_err ''TypeError'' ''Cannot destructure property 'hostname' as it is undefined.'')
             else Inr (UriConfig \<lparr>uc_hostname = optString v ''hostname'', uc_username = optString v ''username'',
               uc_password = optString v ''password'', uc_frameMax = optNumber v ''frameMax'',
               uc_heartbeat = optNumber v ''heartbeat'', uc_vhost = optString v ''vhost'',
               uc_protocol = optString v ''protocol'', uc_port = optNumber v ''port''\<rparr>))"

definition checkedUri :: "(string \<Rightarrow> string option) \<Rightarrow> jval \<Rightarrow> jserr + string" where
  "checkedUri parse v =
     (case uriInput v of
        Inl e \<Rightarrow> Inl e
      | Inr u \<Rightarrow>
         (case converUriConfigObjectsToUris u of
            Inl e \<Rightarrow> Inl e
          | Inr uri \<Rightarrow> (case validateRabbitMqUris parse uri of Inl e \<Rightarrow> Inl e | Inr _ \<Rightarrow> Inr uri)))"

text \<open>After the constructor: the connection's own \<open>config\<close>, and the object that was injected. The
  credentials are one object that both refer to; \<open>uri\<close> is written to the injected one only.\<close>

record boot =
  bt_config :: jval
  bt_injected :: jval

definition withCredentials :: "jval \<Rightarrow> jval \<Rightarrow> jval" where
  "withCredentials cred config =
     (if \<not> truthy cred then config
      else (let cmo = jget config ''connectionManagerOptions''; co = jget cmo ''connectionOptions''
            in jset config ''connectionManagerOptions'' (jset cmo ''connectionOptions'' (jset co ''credentials'' cred))))"

definition ownConfig :: "jval \<Rightarrow> jval \<Rightarrow> jval \<Rightarrow> jval" where
  "ownConfig deserializer serializer config =
     JObj (spread (spread (spread [(''deserializer'', deserializer), (''serializer'', serializer)] defaultConfig)
        (obj_entries config)) [(''replyQueues'', JObj (or_obj (jget config ''replyQueues'')))])"

definition newAmqpConnection ::
  "credential_lib \<Rightarrow> (string \<Rightarrow> string option) \<Rightarrow> jval \<Rightarrow> jval \<Rightarrow> jval \<Rightarrow> jserr + boot" where
  "newAmqpConnection lib parse deserializer serializer config =
     (if nullish config then Inr \<lparr>bt_config = config, bt_injected = config\<rparr>
      else let cmo = jget config ''connectionManagerOptions''; co = jget cmo ''connectionOptions'' in
        if nullish cmo then Inl (mk_err ''TypeError'' ''Cannot read properties of undefined (reading 'connectionOptions')'')
        else if nullish co then Inl (mk_err ''TypeError'' ''Cannot read properties of undefined (reading 'credentials')'')
        else case prepareCredentials lib (jget co ''credentials'') of
               Inl e \<Rightarrow> Inl e
             | Inr cred \<Rightarrow>
                (let config1 = withCredentials cred config in
                 case checkedUri parse (jget config1 ''uri'') of
                   Inl e \<Rightarrow> Inl e
                 | Inr uri \<Rightarrow> Inr \<lparr>bt_config = ownConfig deserializer serializer config1,
                                  bt_injected = jset config1 ''uri'' (JStr uri)\<rparr>))"

text \<open>What \<open>initCore\<close> hands to \<open>connect\<close>.\<close>

definition connectServers :: "boot \<Rightarrow> jval list" where
  "connectServers b = (case jget (bt_config b) ''uri'' of JArr us \<Rightarrow> us | u \<Rightarrow> [u])"

section \<open>Waiting for the broker\<close>

definition getChannel :: "'c option \<Rightarrow> jserr + 'c" where
  "getChannel c = (case c of None \<Rightarrow> Inl (mk_err ''ChannelNotAvailableError'' ''channel is not available'') | Some x \<Rightarrow> Inr x)"

definition getConnection :: "'c option \<Rightarrow> jserr + 'c" where
  "getConnection c = (case c of None \<Rightarrow> Inl (mk_err ''ConnectionNotAvailableError'' ''connection is not available'') | Some x \<Rightarrow> Inr x)"

text \<open>What happens while \<open>init\<close> waits: the default channel's setup ends (\<open>initialized.next()\<close>), the
  timeout elapses, or the promise of \<open>initCore\<close> settles.\<close>

datatype boot_event = ChannelReady | TimeoutElapsed | CoreSettled "jserr option"

datatype boot_outcome = Started | StartFailed jserr

fun awaitInitialized :: "bool \<Rightarrow> boot_outcome \<Rightarrow> jval \<Rightarrow> boot_event list \<Rightarrow> boot_outcome option" where
  "awaitInitialized reject onEmpty interval [] = None"
| "awaitInitialized reject onEmpty interval (ChannelReady # es) = Some Started"
| "awaitInitialized reject onEmpty interval (TimeoutElapsed # es) =
     Some (if reject
           then StartFailed (generic_error (''Failed to connect to a RabbitMQ broker within a timeout of '' @ js_string interval @ ''ms''))
           else onEmpty)"
| "awaitInitialized reject onEmpty interval (CoreSettled r # es) = awaitInitialized reject onEmpty interval es"

fun awaitCore :: "boot_event list \<Rightarrow> boot_outcome option" where
  "awaitCore [] = None"
| "awaitCore (CoreSettled None # es) = Some Started"
| "awaitCore (CoreSettled (Some e) # es) = Some (StartFailed e)"
| "awaitCore (_ # es) = awaitCore es"

definition initOptions :: "jval \<Rightarrow> jval" where
  "initOptions config = JObj (spread defaultInitOptions (obj_entries (jget config ''connectionInitOptions'')))"

definition initConnection :: "boot_outcome \<Rightarrow> boot \<Rightarrow> boot_event list \<Rightarrow> boot_outcome option" where
  "initConnection onEmpty b es =
     (if nullish (bt_config b)
      then Some (StartFailed (mk_err ''TypeError'' ''Cannot read properties of undefined (reading 'connectionInitOptions')''))
      else let options = initOptions (bt_config b) in
        if \<not> truthy (jget options ''wait'') then awaitCore es
        else awaitInitialized (truthy (jget options ''reject'')) onEmpty (jget options ''timeout'') es)"

section \<open>Publishing\<close>

datatype outgoing = OutBuffer string | OutBytes string | OutValue jval

definition publishBuffer :: "(jval \<Rightarrow> jval + string) \<Rightarrow> outgoing \<Rightarrow> jval + string" where
  "publishBuffer serializer message =
     (case message of
        OutBuffer b \<Rightarrow> Inr b
      | OutBytes b \<Rightarrow> Inr b
      | OutValue v \<Rightarrow> if nullish v then Inr [] else serializer v)"

definition requestPayload :: "outgoing \<Rightarrow> outgoing" where
  "requestPayload payload =
     (case payload of OutValue v \<Rightarrow> OutValue (if truthy v then v else JObj []) | _ \<Rightarrow> payload)"

text \<open>\<open>request\<close> with its publish: the race is subscribed before \<open>publish\<close> runs, and \<open>publish\<close> throws
  at once when the serializer does. Then the request fails, and nobody listens to the race any more:
  the second component says whether its timeout ends as an unhandled rejection.\<close>

fun raceTimesOut :: "string \<Rightarrow> string option \<Rightarrow> rpc_event list \<Rightarrow> bool" where
  "raceTimesOut cid rid [] = False"
| "raceTimesOut cid rid (ReplyArrived x # es) = (\<not> reply_matches cid rid x \<and> raceTimesOut cid rid es)"
| "raceTimesOut cid rid (TimerFired # es) = True"
| "raceTimesOut cid rid (_ # es) = raceTimesOut cid rid es"

definition requestCall ::
  "(jval \<Rightarrow> jval + string) \<Rightarrow> outgoing \<Rightarrow> string \<Rightarrow> string option \<Rightarrow> rpc_event list \<Rightarrow> rpc_outcome option \<times> bool" where
  "requestCall serializer payload cid rid es =
     (case publishBuffer serializer (requestPayload payload) of
        Inl e \<Rightarrow> (Some (PublishFailed e), raceTimesOut cid rid es)
      | Inr _ \<Rightarrow> (request cid rid es, False))"

section \<open>Returned messages\<close>

datatype return_event = WarnedUnroutable string jval jval | Notified | CallbackThrew jval

definition isDirectReplyArtifact :: "jval \<Rightarrow> jval \<Rightarrow> bool" where
  "isDirectReplyArtifact exchange routingKey \<longleftrightarrow>
     exchange = JStr [] \<and> (case routingKey of JStr k \<Rightarrow> starts_with DIRECT_REPLY_QUEUE k | _ \<Rightarrow> False)"

definition onReturn :: "string \<Rightarrow> ('m \<Rightarrow> jval option) option \<Rightarrow> jval \<Rightarrow> jval \<Rightarrow> 'm \<Rightarrow> return_event list" where
  "onReturn channel callback exchange routingKey msg =
     (if isDirectReplyArtifact exchange routingKey then []
      else WarnedUnroutable channel exchange routingKey #
        (case callback of
           None \<Rightarrow> []
         | Some f \<Rightarrow> Notified # (case f msg of None \<Rightarrow> [] | Some e \<Rightarrow> [CallbackThrew (jget e ''message'')])))"

section \<open>Setting up a consumer\<close>

text \<open>The part of \<open>MessageHandlerOptions\<close> that the setup reads.\<close>

record subscription =
  sn_queue :: "string option"
  sn_createIfNotExists :: "bool option"
  sn_exchange :: "string option"
  sn_routingKey :: routing_keys
  sn_queueOptions :: "(string \<times> jval) list option"

record broker_answers =
  ba_queue :: "string \<Rightarrow> string option"
  ba_onError :: "string \<Rightarrow> string option"
  ba_bind :: "string \<Rightarrow> bool"
  ba_consume :: "string \<Rightarrow> string option"

text \<open>A binding is refused when its exchange does not exist; all bindings are sent before the first answer.\<close>

fun bindingRefused :: "broker_answers \<Rightarrow> chan_call \<Rightarrow> bool" where
  "bindingRefused a (ChBindQueue q x k args) = (\<not> ba_bind a x)"
| "bindingRefused a _ = False"

definition setupConsumer :: "broker_answers \<Rightarrow> subscription \<Rightarrow> string option \<times> chan_call list" where
  "setupConsumer a o' =
     (case setupQueue (ba_queue a) (ba_onError a) (sn_queue o') (sn_createIfNotExists o') (sn_exchange o')
             (sn_routingKey o') (sn_queueOptions o') of
        (None, calls) \<Rightarrow> (None, calls)
      | (Some queue, calls) \<Rightarrow>
          if list_ex (bindingRefused a) calls then (None, calls)
          else (ba_consume a queue, calls @ [ChConsume queue]))"

text \<open>One run of the setup function that \<open>consumerFactory\<close> adds to the channel, uninterrupted.\<close>

definition runSetup ::
  "broker_answers \<Rightarrow> subscription \<Rightarrow> conn_state \<Rightarrow> string option \<times> chan_call list \<times> conn_state" where
  "runSetup a o' s =
     (let queue = coalesce (sn_queue o') [] in
      if cs_canceled s then (None, [], s)
      else case setupConsumer a o' of
             (None, calls) \<Rightarrow> (None, calls, failSetup queue (startSetup queue s))
           | (Some tag, calls) \<Rightarrow> (Some tag, calls, finishSetup tag queue (startSetup queue s)))"

text \<open>The promise of \<open>createSubscriber\<close> and \<open>createRpc\<close>: a refused call rejects; otherwise the first run
  that registers a tag resolves it, and nothing else settles it.\<close>

fun subscriptionResult :: "subscription \<Rightarrow> conn_state \<Rightarrow> broker_answers list \<Rightarrow> (jserr + string) option" where
  "subscriptionResult o' s [] = None"
| "subscriptionResult o' s (a # as) =
     (case runSetup a o' s of
        (Some tag, _, _) \<Rightarrow> Some (Inr tag)
      | (None, _, t) \<Rightarrow> subscriptionResult o' t as)"

definition createSubscriber :: "subscription \<Rightarrow> conn_state \<Rightarrow> broker_answers list \<Rightarrow> (jserr + string) option" where
  "createSubscriber o' s runs =
     (case consumerFactory (coalesce (sn_queue o') []) s of
        Inl e \<Rightarrow> Some (Inl e)
      | Inr t \<Rightarrow> subscriptionResult o' t runs)"

section \<open>Redeclaring a queue\<close>

datatype redeclare_call = RdDelete string | RdAssert string "(string \<times> jval) list"

definition forceDeleteAssertQueueErrorHandler ::
  "(string \<Rightarrow> thrown option) \<Rightarrow> (string \<Rightarrow> thrown + string) \<Rightarrow> string \<Rightarrow> (string \<times> jval) list \<Rightarrow> jval \<Rightarrow>
   (thrown + string) \<times> redeclare_call list" where
  "forceDeleteAssertQueueErrorHandler delete assert queueName queueOptions error =
     (if jget error ''code'' = JNum 406 \<or> jget error ''code'' = JStr ''406'' then
        (case delete queueName of
           Some e \<Rightarrow> (Inl e, [RdDelete queueName])
         | None \<Rightarrow> (assert queueName, [RdDelete queueName, RdAssert queueName queueOptions]))
      else (Inl (OtherErr error), []))"

section \<open>Lemmas\<close>

lemma spread_one: "spread a [(k, v)] = AList.update k v a"
  by (simp add: spread_def)

lemma jget_spread_one [js_simps]: "jget (JObj (spread a [(k, v)])) k' = (if k' = k then v else jget (JObj a) k')"
  by (simp add: spread_one om_simps)

lemma jget_obj_entries [simp]: "jget (JObj (obj_entries v)) k = jget v k"
  by (cases v) auto

lemma or_obj_JObj [simp]: "or_obj (JObj kvs) = kvs"
  by (simp add: or_obj_def)

lemma rename_managerOptions:
  "managerOptions (renameConnection name options) = spread (managerOptions options) [(''connectionOptions'',
     JObj (spread (connectionOptions options) [(''clientProperties'', JObj (spread (clientProperties options) [(''connection_name'', name)]))]))]"
  unfolding managerOptions_def [of "renameConnection name options"] unfolding renameConnection_def by (simp add: js_simps del: jget.simps)

lemma rename_connectionOptions:
  "connectionOptions (renameConnection name options) =
     spread (connectionOptions options) [(''clientProperties'', JObj (spread (clientProperties options) [(''connection_name'', name)]))]"
  unfolding connectionOptions_def [of "renameConnection name options"] by (simp add: rename_managerOptions js_simps del: jget.simps)

lemma rename_clientProperties:
  "clientProperties (renameConnection name options) = spread (clientProperties options) [(''connection_name'', name)]"
  unfolding clientProperties_def [of "renameConnection name options"] by (simp add: rename_connectionOptions js_simps del: jget.simps)

lemma configuredName_rename [simp]: "configuredName (renameConnection name options) = name"
  unfolding configuredName_def [of "renameConnection name options"] by (simp add: rename_clientProperties js_simps del: jget.simps)

lemma rename_keeps: "k \<noteq> ''connectionManagerOptions'' \<Longrightarrow> jget (renameConnection name options) k = jget options k"
  unfolding renameConnection_def by (simp add: js_simps del: jget.simps)

lemma moduleOptions_keeps: "k \<noteq> ''connectionManagerOptions'' \<Longrightarrow> jget (moduleOptions h pid options) k = jget options k"
  by (simp add: moduleOptions_def instanceOptions_def serviceNameOptions_def Let_def rename_keeps)

text \<open>An optional string field, and the string it holds.\<close>

definition optional_str :: "jval \<Rightarrow> bool" where
  "optional_str v \<longleftrightarrow> v = JUndef \<or> (\<exists>s. v = JStr s)"

definition str_of :: "jval \<Rightarrow> string option" where
  "str_of v = (case v of JStr s \<Rightarrow> Some s | _ \<Rightarrow> None)"

lemma str_of_simps [simp]: "str_of (JStr s) = Some s" "str_of JUndef = None"
  by (simp_all add: str_of_def)

lemma truthy_str_of: "optional_str v \<Longrightarrow> truthy_str (str_of v) = truthy v"
  by (auto simp: optional_str_def truthy_str_def)

lemma serviceNameOptions_refines:
  assumes "optional_str (jget (jget options ''routeDiscovery'') ''serviceName'')" and "optional_str (configuredName options)"
  shows "str_of (configuredName (serviceNameOptions options)) =
      withServiceNameConnection (str_of (jget (jget options ''routeDiscovery'') ''serviceName'')) (str_of (configuredName options)) \<and>
    optional_str (configuredName (serviceNameOptions options))"
  using assms by (simp add: serviceNameOptions_def withServiceNameConnection_def Let_def truthy_str_of)

lemma instanceOptions_refines:
  assumes "optional_str (configuredName options)"
  shows "str_of (configuredName (instanceOptions h pid options)) =
    withInstanceUniqueConnectionName h pid (str_of (configuredName options))"
  using assms by (auto simp: instanceOptions_def withInstanceUniqueConnectionName_def truthy_str_of optional_str_def truthy_str_def)

text \<open>Once the default channel has a name of its own, no configured channel replaces it.\<close>

lemma pickChannels_named:
  "dn \<noteq> AMQP_CONNECTION_NAME \<Longrightarrow> pickChannels g dn dp cs = (dn, dp, map (\<lambda>(n, c). (n, c\<lparr>cc_default := False\<rparr>)) cs)"
  by (induction cs) auto

lemma fold_setup_not_default:
  "\<forall>(n, c) \<in> set cs. \<not> cc_default c \<Longrightarrow> \<forall>n c. map_of (mc_channels m) n = Some c \<longrightarrow> \<not> cc_default c \<Longrightarrow>
   map_of (mc_channels (fold (\<lambda>(n, c) s. setupManagedChannel n c s) cs m)) n = Some c \<Longrightarrow> \<not> cc_default c"
proof (induction cs arbitrary: m)
  case Nil
  then show ?case by simp
next
  case (Cons x cs)
  obtain k d where x: "x = (k, d)" by (cases x)
  show ?case
    by (rule Cons.IH [of "setupManagedChannel k d m"])
       (use Cons.prems in \<open>auto simp: x setupManagedChannel_def om_simps split: if_splits\<close>)
qed

lemma instance_name_differs: "buildOptions h pid svc name = Some n \<Longrightarrow> n \<noteq> [] \<Longrightarrow> n \<noteq> AMQP_CONNECTION_NAME"
proof -
  assume b: "buildOptions h pid svc name = Some n" and "n \<noteq> []"
  then have "CHR ''-'' \<in> set n"
    by (auto simp: buildOptions_def withInstanceUniqueConnectionName_def truthy_str_def split: if_splits)
  then show ?thesis by (auto simp: AMQP_CONNECTION_NAME_def)
qed

lemma buildOptions_names:
  "truthy_str svc \<or> truthy_str name \<Longrightarrow> \<exists>n. buildOptions h pid svc name = Some n \<and> n \<noteq> []"
  by (cases "truthy_str svc"; cases "truthy_str name")
     (simp_all add: buildOptions_def withInstanceUniqueConnectionName_def withServiceNameConnection_def)

lemma initCore_named:
  assumes "cf_connectionName cfg = Some n" and "n \<noteq> []" and "n \<noteq> AMQP_CONNECTION_NAME"
  shows "mc_default (initCore cfg) = Some n \<and>
    map_of (mc_channels (initCore cfg)) n = Some \<lparr>cc_prefetchCount = Some (cf_prefetchCount cfg), cc_default = True\<rparr> \<and>
    (\<forall>k c. map_of (mc_channels (initCore cfg)) k = Some c \<longrightarrow> cc_default c \<longrightarrow> k = n)"
proof -
  let ?cs = "map (\<lambda>(n, c). (n, c\<lparr>cc_default := False\<rparr>)) (cf_channels cfg)"
  define m where "m = fold (\<lambda>(n, c) s. setupManagedChannel n c s) ?cs \<lparr>mc_channels = [], mc_default = None\<rparr>"
  have init: "initCore cfg = setupManagedChannel n \<lparr>cc_prefetchCount = Some (cf_prefetchCount cfg), cc_default = True\<rparr> m"
    using assms by (simp add: initCore_def initChannels_def truthy_str_def pickChannels_named m_def)
  have "\<not> cc_default c" if "map_of (mc_channels m) k = Some c" for k c
    by (rule fold_setup_not_default [OF _ _ that [unfolded m_def]]) auto
  then show ?thesis unfolding init by (auto simp: setupManagedChannel_def om_simps split: if_splits)
qed

subsection \<open>The constructor\<close>

lemma jget_ownConfig:
  assumes "distinct (map fst (obj_entries config))" and "k \<noteq> ''replyQueues''"
    and "k \<in> fst ` set (obj_entries config)"
  shows "jget (ownConfig des ser config) k = jget config k"
proof -
  from assms(3) obtain v where v: "map_of (obj_entries config) k = Some v"
    by (metis map_of_eq_None_iff not_None_eq)
  then have "jget config k = v" by (cases config) auto
  with assms v show ?thesis
    unfolding ownConfig_def by (simp add: jget_spread_one del: jget.simps) (simp add: spread_get_distinct)
qed

lemma withCredentials_other:
  "k \<noteq> ''connectionManagerOptions'' \<Longrightarrow> jget (withCredentials cred (JObj kvs)) k = jget (JObj kvs) k"
  unfolding withCredentials_def Let_def by (auto simp: jget_jset simp del: jget.simps jset.simps)

lemma keys_jset:
  "fst ` set (obj_entries (jset (JObj kvs) k v)) = insert k (fst ` set kvs)"
  "distinct (map fst kvs) \<Longrightarrow> distinct (map fst (obj_entries (jset (JObj kvs) k v)))"
  by (auto simp: dom_update distinct_update)

lemma withCredentials_obj:
  assumes "distinct (map fst kvs)"
  obtains kvs' where "withCredentials cred (JObj kvs) = JObj kvs'" and "distinct (map fst kvs')"
    and "fst ` set kvs \<subseteq> fst ` set kvs'"
  using assms that
  by (cases "truthy cred") (auto simp: withCredentials_def Let_def dom_update distinct_update)

lemma checkedUri_not_array: "checkedUri parse v = Inr uri \<Longrightarrow> (case v of JArr us \<Rightarrow> us | u \<Rightarrow> [u]) = [v] \<and> \<not> nullish v"
  by (cases v) (auto simp: checkedUri_def uriInput_def optString_def converUriConfigObjectsToUris_def
      amqplibUriConfigToUrl_def truthy_str_def split: sum.splits)

lemma checkedUri_protocol: "checkedUri parse v = Inr uri \<Longrightarrow> \<exists>protocol. parse uri = Some protocol \<and> starts_with ''amqp'' protocol"
  by (auto simp: checkedUri_def validateRabbitMqUris_def split: sum.splits option.splits if_splits)

subsection \<open>Waiting\<close>

lemma awaitInitialized_settles:
  "ChannelReady \<in> set es \<or> TimeoutElapsed \<in> set es \<Longrightarrow> \<exists>r. awaitInitialized reject onEmpty interval es = Some r"
  by (induction reject onEmpty interval es rule: awaitInitialized.induct) auto

lemma awaitInitialized_started:
  "awaitInitialized reject onEmpty interval es = Some Started \<Longrightarrow> ChannelReady \<in> set es \<or> \<not> reject \<and> onEmpty = Started"
  by (induction reject onEmpty interval es rule: awaitInitialized.induct) (auto split: if_splits)

lemma awaitInitialized_empty:
  "TimeoutElapsed \<in> set es \<Longrightarrow> ChannelReady \<notin> set es \<Longrightarrow> awaitInitialized False onEmpty interval es = Some onEmpty"
proof (induction es)
  case Nil
  then show ?case by simp
next
  case (Cons a es)
  then show ?case by (cases a) auto
qed

lemma init_waits:
  assumes "\<not> nullish (bt_config b)" and "truthy (jget (initOptions (bt_config b)) ''wait'')"
    and "onEmpty = StartFailed e" and "ChannelReady \<in> set es \<or> TimeoutElapsed \<in> set es"
  shows "\<exists>r. initConnection onEmpty b es = Some r \<and> (r = Started \<longrightarrow> ChannelReady \<in> set es)"
proof -
  let ?reject = "truthy (jget (initOptions (bt_config b)) ''reject'')"
    and ?interval = "jget (initOptions (bt_config b)) ''timeout''"
  obtain r where r: "awaitInitialized ?reject onEmpty ?interval es = Some r"
    using awaitInitialized_settles [OF assms(4)] by blast
  with awaitInitialized_started [of ?reject onEmpty ?interval es] assms(3) have "r = Started \<longrightarrow> ChannelReady \<in> set es" by auto
  with r assms(1,2) show ?thesis by (simp add: initConnection_def Let_def del: jget.simps)
qed

subsection \<open>Setting up a consumer\<close>

lemma runSetup_cases:
  assumes "runSetup a o' s = (r, calls, t)"
  obtains "cs_canceled s" and "r = None" and "t = s"
  | "\<not> cs_canceled s" and "r = None" and "t = failSetup (coalesce (sn_queue o') []) (startSetup (coalesce (sn_queue o') []) s)"
  | tag where "\<not> cs_canceled s" and "r = Some tag" and "setupConsumer a o' = (Some tag, calls)"
      and "t = finishSetup tag (coalesce (sn_queue o') []) (startSetup (coalesce (sn_queue o') []) s)"
  using assms by (auto simp: runSetup_def Let_def split: if_splits prod.splits option.splits)

text \<open>A run of the setup is one of the interleavings of the connection's steps.\<close>

lemma runSetup_reaches:
  assumes "runSetup a o' s = (r, calls, t)" and "coalesce (sn_queue o') [] \<in> set (cs_setups s)"
  shows "conn_reaches s t \<and> cs_setups t = cs_setups s"
  using assms(1)
proof (cases rule: runSetup_cases)
  case 1
  then show ?thesis by (simp add: conn_reaches.refl)
next
  case 2
  let ?q = "coalesce (sn_queue o') []"
  from 2 have "conn_step (startSetup ?q s) t"
    by (simp add: conn_step.fail startSetup_def)
  with conn_reaches_one [OF conn_step.start [OF assms(2)]] have "conn_reaches s t" by (rule conn_reaches.step)
  with 2 show ?thesis by (simp add: conn_defs)
next
  case (3 tag)
  let ?q = "coalesce (sn_queue o') []"
  from 3 have "conn_step (startSetup ?q s) t"
    by (simp add: conn_step.finish startSetup_def)
  with conn_reaches_one [OF conn_step.start [OF assms(2)]] have "conn_reaches s t" by (rule conn_reaches.step)
  with 3 show ?thesis by (simp add: conn_defs)
qed

lemma runSetup_registers:
  assumes "runSetup a o' s = (Some tag, calls, t)"
  shows "map_of (cs_consumers t) tag = Some (coalesce (sn_queue o') []) \<and> setupConsumer a o' = (Some tag, calls)"
  using assms by (cases rule: runSetup_cases) (auto simp: conn_defs om_simps)

text \<open>What a successful setup has asked of the broker: the queue first, the consumer last, and the
  bindings of every routing key between them.\<close>

lemma setupConsumer_calls:
  assumes "setupConsumer a o' = (Some tag, calls)"
  shows "\<exists>declare queue. calls = declare # bindCalls queue (sn_exchange o') (sn_routingKey o')
        (jget (JObj (coalesce (sn_queueOptions o') [])) ''bindQueueArguments'') @ [ChConsume queue] \<and>
      declare \<in> {ChAssertQueue (coalesce (sn_queue o') []) (coalesce (sn_queueOptions o') []), ChCheckQueue (coalesce (sn_queue o') [])} \<and>
      ba_consume a queue = Some tag"
  using assms by (auto simp: setupConsumer_def setupQueue_def Let_def split: option.splits if_splits)

lemma subscriptionResult_registers:
  "subscriptionResult o' s as = Some (Inr tag) \<Longrightarrow> coalesce (sn_queue o') [] \<in> set (cs_setups s) \<Longrightarrow>
   \<exists>a \<in> set as. \<exists>calls t. conn_reaches s t \<and> setupConsumer a o' = (Some tag, calls) \<and>
     map_of (cs_consumers t) tag = Some (coalesce (sn_queue o') [])"
proof (induction as arbitrary: s)
  case Nil
  then show ?case by simp
next
  case (Cons a as)
  obtain r calls t where run: "runSetup a o' s = (r, calls, t)" by (metis prod_cases3)
  note reach = runSetup_reaches [OF run Cons.prems(2)]
  show ?case
  proof (cases r)
    case None
    from Cons.IH [of t] Cons.prems reach obtain b calls' u where "b \<in> set as" and "conn_reaches t u"
      and "setupConsumer b o' = (Some tag, calls')" and "map_of (cs_consumers u) tag = Some (coalesce (sn_queue o') [])"
      by (auto simp: run None)
    with reach conn_reaches_trans show ?thesis by fastforce
  next
    case (Some tag')
    with Cons.prems(1) run have "tag' = tag" by simp
    with reach runSetup_registers [OF run [unfolded Some]] show ?thesis by auto
  qed
qed

lemma subscriptionResult_pending:
  "(\<forall>a \<in> set as. fst (setupConsumer a o') = None) \<Longrightarrow> subscriptionResult o' s as = None"
proof (induction as arbitrary: s)
  case Nil
  then show ?case by simp
next
  case (Cons a as)
  obtain r calls t where run: "runSetup a o' s = (r, calls, t)" by (metis prod_cases3)
  then have "r = None" using Cons.prems by (cases rule: runSetup_cases) auto
  with Cons run show ?case by simp
qed

lemma connects_at:
  assumes "newAmqpConnection lib parse des ser (JObj kvs) = Inr b" and "distinct (map fst kvs)"
  shows "connectServers b = [jget (JObj kvs) ''uri''] \<and>
    (\<exists>uri protocol. checkedUri parse (jget (JObj kvs) ''uri'') = Inr uri \<and> parse uri = Some protocol \<and>
       starts_with ''amqp'' protocol \<and> jget (bt_injected b) ''uri'' = JStr uri)"
proof -
  obtain cred uri where uri: "checkedUri parse (jget (withCredentials cred (JObj kvs)) ''uri'') = Inr uri"
    and b: "b = \<lparr>bt_config = ownConfig des ser (withCredentials cred (JObj kvs)),
                bt_injected = jset (withCredentials cred (JObj kvs)) ''uri'' (JStr uri)\<rparr>"
    using assms(1) unfolding newAmqpConnection_def Let_def
    by (auto simp del: jget.simps jset.simps split: if_splits sum.splits)
  have same: "jget (withCredentials cred (JObj kvs)) ''uri'' = jget (JObj kvs) ''uri''"
    by (rule withCredentials_other) simp
  obtain kvs' where kvs': "withCredentials cred (JObj kvs) = JObj kvs'" "distinct (map fst kvs')" "fst ` set kvs \<subseteq> fst ` set kvs'"
    by (rule withCredentials_obj [OF assms(2)])
  note arr = checkedUri_not_array [OF uri [unfolded same]]
  have "''uri'' \<in> fst ` set kvs"
    using arr by (cases "map_of kvs ''uri''") (auto simp: nullish_def dest!: map_of_SomeD intro: rev_image_eqI)
  then have "jget (ownConfig des ser (JObj kvs')) ''uri'' = jget (JObj kvs') ''uri''"
    using kvs' by (intro jget_ownConfig) auto
  with arr same kvs'(1) have "connectServers b = [jget (JObj kvs) ''uri'']"
    by (simp add: connectServers_def b del: jget.simps)
  moreover have "jget (bt_injected b) ''uri'' = JStr uri"
    by (simp add: b kvs'(1) jget_jset del: jget.simps jset.simps)
  ultimately show ?thesis using uri [unfolded same] checkedUri_protocol [OF uri] by blast
qed

section \<open>Properties\<close>


definition sample_subscription :: subscription where
  "sample_subscription = \<lparr>sn_queue = Some ''jobs'', sn_createIfNotExists = None, sn_exchange = Some ''work'',
     sn_routingKey = RkOne ''jobs.#'', sn_queueOptions = None\<rparr>"

definition sample_answers :: "bool \<Rightarrow> broker_answers" where
  "sample_answers up = \<lparr>ba_queue = (\<lambda>q. if up then Some q else None), ba_onError = (\<lambda>_. None), ba_bind = (\<lambda>_. True), ba_consume = (\<lambda>q. Some ''t1'')\<rparr>"


text \<open>Nothing rejects the promise once the call was accepted: when every run is refused (the queue has other
  arguments on the broker, say), the caller waits for ever.\<close>

theorem refused_subscription_hangs:
  assumes "\<not> cs_canceled s" and "\<forall>a \<in> set runs. fst (setupConsumer a o') = None"
  shows "createSubscriber o' s runs = None"
  using assms by (simp add: createSubscriber_def consumerFactory_def subscriptionResult_pending)

text \<open>C40: Both ways to declare the module provide the same: with an application factory that answers
  every call alike, the four providers of \<open>forRootAsync\<close> are those of \<open>forRoot\<close> on what the factory
  returns, for options and topics that are there.\<close>

theorem forRootAsync_agrees:
  assumes "\<forall>s. fst (useFactory s) = Inr r" and "truthy (mo_options r)" and "truthy (mo_topics r)"
  shows "fst (forRootAsync hostname pid useFactory s) = forRoot hostname pid (mo_options r) (mo_topics r) (mo_app r)"
proof -
  define next_state where "next_state = (\<lambda>s. snd (useFactory s))"
  have u: "useFactory s = (Inr r, next_state s)" for s
    using assms(1) by (simp add: next_state_def prod_eq_iff)
  have "jget (moduleOptions hostname pid (mo_options r)) ''routeDiscovery'' = jget (mo_options r) ''routeDiscovery''"
    by (rule moduleOptions_keeps) simp
  with assms(2,3) truthy_not_nullish [OF assms(2)] show ?thesis
    by (simp add: forRootAsync_def optionsFactory_def and_then_def u forRoot_def Let_def)
qed

definition sample_module :: module_config where
  "sample_module = \<lparr>mo_options = JObj [(''uri'', JStr ''amqp://h''), (''routeDiscovery'', JObj [(''serviceName'', JStr ''svc'')])],
     mo_topics = JArr [], mo_app = JUndef\<rparr>"

theorem forRootAsync_agrees_witness:
  "fst (forRootAsync ''h1'' 7 (\<lambda>n. (Inr sample_module, Suc n)) 0) =
     forRoot ''h1'' 7 (mo_options sample_module) (mo_topics sample_module) (mo_app sample_module)"
  by (rule forRootAsync_agrees) (simp_all add: sample_module_def)

text \<open>\<open>forRootAsync\<close> validates nothing: without topics \<open>forRoot\<close> throws, the other provides \<open>undefined\<close>.\<close>

theorem forRootAsync_unchecked:
  assumes "useFactory = (\<lambda>s. (Inr (sample_module\<lparr>mo_topics := JUndef\<rparr>), s))"
  shows "(\<exists>p. fst (forRootAsync ''h1'' 7 useFactory s) = Inr p \<and> pv_topics p = JUndef) \<and>
    forRoot ''h1'' 7 (mo_options sample_module) JUndef JUndef = Inl (generic_error ''At least one topic is required'')"
  by (simp add: assms forRootAsync_def optionsFactory_def and_then_def sample_module_def forRoot_def)

text \<open>An instance publishes and consumes by default on the channel that carries its own name: with a
  service name or a connection name in its options (strings, when present), the options the module builds
  name the connection \<open>buildOptions\<close> of the two; \<open>initCore\<close> makes the channel of that name the default
  one, and no other channel of the instance is a default.\<close>

theorem instance_default_channel:
  assumes "optional_str (jget (jget options ''routeDiscovery'') ''serviceName'')" and "optional_str (configuredName options)"
    and "cf_connectionName cfg = str_of (configuredName (moduleOptions hostname pid options))"
    and "truthy (jget (jget options ''routeDiscovery'') ''serviceName'') \<or> truthy (configuredName options)"
  shows "\<exists>n. buildOptions hostname pid (str_of (jget (jget options ''routeDiscovery'') ''serviceName'')) (str_of (configuredName options)) = Some n \<and>
    selectManagedChannel (initCore cfg) None = Some n \<and>
    (\<forall>k c. map_of (mc_channels (initCore cfg)) k = Some c \<longrightarrow> cc_default c \<longrightarrow> k = n)"
proof -
  let ?svc = "str_of (jget (jget options ''routeDiscovery'') ''serviceName'')" and ?name = "str_of (configuredName options)"
  have cfg: "cf_connectionName cfg = buildOptions hostname pid ?svc ?name"
    using serviceNameOptions_refines [OF assms(1,2)]
    by (simp add: assms(3) moduleOptions_def instanceOptions_refines buildOptions_def)
  have "truthy_str ?svc \<or> truthy_str ?name" using assms(1,2,4) by (simp add: truthy_str_of)
  then obtain n where n: "buildOptions hostname pid ?svc ?name = Some n" "n \<noteq> []"
    using buildOptions_names by blast
  from initCore_named [OF _ n(2) instance_name_differs [OF n], of cfg] n(1) cfg show ?thesis
    by (auto simp: selectManagedChannel_def truthy_str_def)
qed

theorem instance_default_channel_witness:
  "\<exists>n. buildOptions ''h1'' 7 (str_of (JStr ''svc'')) (str_of JUndef) = Some n \<and>
    selectManagedChannel (initCore (sample_config\<lparr>cf_connectionName := Some ''svc-h1-7'',
        cf_channels := [(''fast'', \<lparr>cc_prefetchCount = None, cc_default = True\<rparr>)]\<rparr>)) None = Some n \<and>
    (\<forall>k c. map_of (mc_channels (initCore (sample_config\<lparr>cf_connectionName := Some ''svc-h1-7'',
        cf_channels := [(''fast'', \<lparr>cc_prefetchCount = None, cc_default = True\<rparr>)]\<rparr>))) k = Some c \<longrightarrow> cc_default c \<longrightarrow> k = n)"
proof -
  have c: "configuredName (mo_options sample_module) = JUndef"
    by (simp add: sample_module_def configuredName_def clientProperties_def connectionOptions_def managerOptions_def or_obj_def)
  have d: "jget (jget (mo_options sample_module) ''routeDiscovery'') ''serviceName'' = JStr ''svc''"
    by (simp add: sample_module_def)
  have seven: "nat_str 7 = ''7''" by code_simp
  have m: "configuredName (moduleOptions ''h1'' 7 (mo_options sample_module)) = JStr ''svc-h1-7''"
    using c d by (simp add: moduleOptions_def serviceNameOptions_def instanceOptions_def Let_def seven)
  show ?thesis
    using instance_default_channel [of "mo_options sample_module"
        "sample_config\<lparr>cf_connectionName := Some ''svc-h1-7'', cf_channels := [(''fast'', \<lparr>cc_prefetchCount = None, cc_default = True\<rparr>)]\<rparr>"
        "''h1''" 7] unfolding c d by (simp add: optional_str_def m)
qed

text \<open>The server the connection goes to is the one configured value, as it was written: the constructor
  succeeds only for a value that is a URI of an \<open>amqp\<close> scheme or a configuration object that makes one,
  and \<open>initCore\<close> connects to that value. The URI made of a configuration object is written to the
  injected options, not to the connection's own.\<close>

theorem connects_where_configured:
  assumes "newAmqpConnection lib parse des ser (JObj kvs) = Inr b" and "distinct (map fst kvs)"
  shows "connectServers b = [jget (JObj kvs) ''uri''] \<and>
    (\<exists>uri protocol. checkedUri parse (jget (JObj kvs) ''uri'') = Inr uri \<and> parse uri = Some protocol \<and>
       starts_with ''amqp'' protocol \<and> jget (bt_injected b) ''uri'' = JStr uri)"
  by (rule connects_at [OF assms])

theorem connects_where_configured_witness:
  "connectServers \<lparr>bt_config = ownConfig JNull JNull (JObj [(''uri'', JStr ''amqp://h''),
       (''connectionManagerOptions'', JObj [(''connectionOptions'', JObj [])])]),
     bt_injected = JObj [(''uri'', JStr ''amqp://h''), (''connectionManagerOptions'', JObj [(''connectionOptions'', JObj [])])]\<rparr> =
     [JStr ''amqp://h'']"
  using connects_where_configured [of "\<lparr>cl_plain = (\<lambda>u p. JNull), cl_external = JNull, cl_amqplain = (\<lambda>u p. JNull)\<rparr>"
      "\<lambda>u. Some ''amqp:''" JNull JNull "[(''uri'', JStr ''amqp://h''), (''connectionManagerOptions'', JObj [(''connectionOptions'', JObj [])])]"]
  by (simp add: newAmqpConnection_def prepareCredentials_def addResponse_def hasMechanism_def withCredentials_def
      checkedUri_def uriInput_def converUriConfigObjectsToUris_def validateRabbitMqUris_def Let_def)

text \<open>A configuration object is converted for the check only: the connection gets the object.\<close>

theorem uri_object_not_converted:
  assumes "newAmqpConnection lib parse des ser (JObj kvs) = Inr b" and "distinct (map fst kvs)"
    and "jget (JObj kvs) ''uri'' = JObj u"
  shows "connectServers b = [JObj u] \<and> (\<exists>uri. jget (bt_injected b) ''uri'' = JStr uri)"
  using connects_at [OF assms(1,2)] assms(3) by auto

text \<open>The constructor needs \<open>connectionManagerOptions.connectionOptions\<close>, which the defaults leave out.\<close>

theorem manager_options_required:
  assumes "nullish (jget (JObj kvs) ''connectionManagerOptions'') \<or>
    nullish (jget (jget (JObj kvs) ''connectionManagerOptions'') ''connectionOptions'')"
  shows "\<exists>m. newAmqpConnection lib parse des ser (JObj kvs) = Inl (mk_err ''TypeError'' m)"
  using assms by (auto simp: newAmqpConnection_def Let_def simp del: jget.simps)

text \<open>Waiting for the broker ends, and ends well only when the default channel is up: with \<open>wait\<close> on,
  \<open>init\<close> settles as soon as the channel's setup has ended or the timeout has elapsed; it is fulfilled only
  when the setup had ended, as long as an empty stream makes \<open>lastValueFrom\<close> reject.\<close>

theorem init_waits_for_channel:
  assumes "\<not> nullish (bt_config b)" and "truthy (jget (initOptions (bt_config b)) ''wait'')"
    and "onEmpty = StartFailed e" and "ChannelReady \<in> set es \<or> TimeoutElapsed \<in> set es"
  shows "\<exists>r. initConnection onEmpty b es = Some r \<and> (r = Started \<longrightarrow> ChannelReady \<in> set es)"
  by (rule init_waits [OF assms])

theorem init_waits_for_channel_witness:
  "\<exists>r. initConnection (StartFailed (mk_err ''EmptyError'' ''no elements in sequence'')) \<lparr>bt_config = JObj [], bt_injected = JObj []\<rparr>
      [CoreSettled None, ChannelReady] = Some r \<and> (r = Started \<longrightarrow> ChannelReady \<in> set [CoreSettled None, ChannelReady])"
  by (rule init_waits_for_channel [where e = "mk_err ''EmptyError'' ''no elements in sequence''"])
     (simp_all add: initOptions_def defaultInitOptions_def)

text \<open>\<open>reject: false\<close> does not suppress the failure: after the timeout the stream is empty.\<close>

theorem reject_false_still_fails:
  assumes "\<not> nullish (bt_config b)" and "truthy (jget (initOptions (bt_config b)) ''wait'')"
    and "\<not> truthy (jget (initOptions (bt_config b)) ''reject'')"
    and "onEmpty = StartFailed e" and "ChannelReady \<notin> set es" and "TimeoutElapsed \<in> set es"
  shows "initConnection onEmpty b es = Some (StartFailed e)"
  using assms by (simp add: initConnection_def Let_def awaitInitialized_empty del: jget.simps)

text \<open>Without options the constructor skips the connection, and \<open>init\<close> then fails on them.\<close>

theorem skipped_connection_fails:
  "newAmqpConnection lib parse des ser JUndef = Inr b \<Longrightarrow> \<exists>m. initConnection onEmpty b es = Some (StartFailed (mk_err ''TypeError'' m))"
  by (auto simp: newAmqpConnection_def initConnection_def)

text \<open>A payload that cannot be serialized fails the request at once, and leaves the timer of its race
  without a listener: when no reply comes first, its timeout is an unhandled rejection. A request whose payload
  can be serialized leaves none.\<close>

lemma raceTimesOut_iff:
  "TimerFired \<in> set es \<Longrightarrow> \<forall>x. ReplyArrived x \<in> set es \<longrightarrow> \<not> reply_matches cid rid x \<Longrightarrow> raceTimesOut cid rid es"
  by (induction cid rid es rule: raceTimesOut.induct) auto

theorem unserializable_request_leaks_timer:
  assumes "publishBuffer serializer (requestPayload payload) = Inl e"
    and "TimerFired \<in> set es" and "\<forall>x. ReplyArrived x \<in> set es \<longrightarrow> \<not> reply_matches cid rid x"
  shows "requestCall serializer payload cid rid es = (Some (PublishFailed e), True)"
  using assms by (simp add: requestCall_def raceTimesOut_iff)

theorem serializable_request:
  assumes "publishBuffer serializer (requestPayload payload) = Inr b"
  shows "requestCall serializer payload cid rid es = (request cid rid es, False)"
  using assms by (simp add: requestCall_def)

text \<open>The application hears of exactly the returned messages that are not artefacts of direct reply-to.\<close>

theorem return_notifies_once:
  "length (filter (\<lambda>e. e = Notified) (onReturn channel callback exchange routingKey msg)) =
     (if callback \<noteq> None \<and> \<not> isDirectReplyArtifact exchange routingKey then 1 else 0)"
  by (auto simp: onReturn_def split: option.splits)

text \<open>A queue is deleted only when the broker said that its arguments differ.\<close>

theorem force_delete_only_on_mismatch:
  "RdDelete q \<in> set (snd (forceDeleteAssertQueueErrorHandler delete reassert queueName queueOptions error)) \<Longrightarrow>
   q = queueName \<and> (jget error ''code'' = JNum 406 \<or> jget error ''code'' = JStr ''406'')"
  by (auto simp: forceDeleteAssertQueueErrorHandler_def split: if_splits option.splits)

end
