(* ===== verification/Decorators.thy ===== *)
theory Decorators
  imports Broker_Metadata
begin

text \<open>
  The decorators of \<open>modules/broker/decorators/broker-action.decorator.ts\<close>: what they leave in the
  reflection metadata of a class, and how the parameter names of a method are read from its source.

  A metadata value is an array that the decorators extend in place, so the model has a heap of
  arrays and, for each target that owns a value under a key, the array's address. A target is
  looked up along its prototype chain: the class itself first, then the classes it extends.
\<close>

section \<open>Reflection metadata\<close>

record ('k, 'e) reflected =
  rf_own :: "('k \<times> nat) list"
  rf_arrays :: "'e list list"

definition no_metadata :: "('k, 'e) reflected" where
  "no_metadata = \<lparr>rf_own = [], rf_arrays = []\<rparr>"

fun getMetadata :: "'k list \<Rightarrow> ('k, 'e) reflected \<Rightarrow> nat option" where
  "getMetadata [] s = None"
| "getMetadata (c # cs) s = (case map_of (rf_own s) c of Some a \<Rightarrow> Some a | None \<Rightarrow> getMetadata cs s)"

definition metadataOf :: "'k list \<Rightarrow> ('k, 'e) reflected \<Rightarrow> 'e list" where
  "metadataOf chain s = (case getMetadata chain s of None \<Rightarrow> [] | Some a \<Rightarrow> rf_arrays s ! a)"

text \<open>\<open>getMetadata(..) || []\<close>, \<open>push\<close>, \<open>defineMetadata\<close> on the class itself.\<close>

definition pushMetadata :: "'k list \<Rightarrow> 'e \<Rightarrow> ('k, 'e) reflected \<Rightarrow> ('k, 'e) reflected" where
  "pushMetadata chain e s =
     (let (a, arrays) = (case getMetadata chain s of
                           Some a \<Rightarrow> (a, rf_arrays s)
                         | None \<Rightarrow> (length (rf_arrays s), rf_arrays s @ [[]]))
      in s\<lparr>rf_own := AList.update (hd chain) a (rf_own s), rf_arrays := arrays[a := arrays ! a @ [e]]\<rparr>)"

section \<open>Parameter names\<close>

fun afterClose :: "string \<Rightarrow> string option" where
  "afterClose [] = None"
| "afterClose (c # cs) =
     (if c = CHR ''*'' \<and> cs \<noteq> [] \<and> hd cs = CHR ''/'' then Some (tl cs) else afterClose cs)"

lemma afterClose_length: "afterClose s = Some r \<Longrightarrow> length r < length s"
  by (induction s) (auto split: if_splits)

text \<open>The removal of \<open>//\<close> and \<open>/* */\<close> comments; an unclosed block comment stays.\<close>

function stripComments :: "string \<Rightarrow> string" where
  "stripComments s =
     (case s of
        [] \<Rightarrow> []
      | c # r \<Rightarrow>
          if c = CHR ''/'' \<and> r \<noteq> [] \<and> hd r = CHR ''/''
          then stripComments (dropWhile (\<lambda>x. x \<noteq> CHR 0x0A \<and> x \<noteq> CHR 0x0D) (tl r))
          else if c = CHR ''/'' \<and> r \<noteq> [] \<and> hd r = CHR ''*''
          then (case afterClose (tl r) of Some r' \<Rightarrow> stripComments r' | None \<Rightarrow> c # stripComments r)
          else c # stripComments r)"
  by auto

termination
proof (relation "measure length", simp_all)
  fix r :: string
  show "length (dropWhile (\<lambda>x. x \<noteq> CHR 0x0A \<and> x \<noteq> CHR 0x0D) (tl r)) < Suc (length r)"
    using length_dropWhile_le [of _ "tl r"] by (metis (no_types, lifting) Suc_leI diff_le_self le_imp_less_Suc length_tl order_trans)
next
  fix r r' :: string
  assume "afterClose (tl r) = Some r'"
  from afterClose_length [OF this] show "length r' < Suc (length r)" by simp
qed

declare stripComments.simps [simp del]

fun indexOf :: "char \<Rightarrow> string \<Rightarrow> nat option" where
  "indexOf c [] = None"
| "indexOf c (x # xs) = (if x = c then Some 0 else map_option Suc (indexOf c xs))"

definition jsIndexOf :: "char \<Rightarrow> string \<Rightarrow> int" where
  "jsIndexOf c s = (case indexOf c s of None \<Rightarrow> - 1 | Some i \<Rightarrow> int i)"

text \<open>\<open>match(/([^\s,]+)/g)\<close>: the maximal runs of characters that are neither space nor comma.\<close>

definition argumentNames :: "string \<Rightarrow> string list" where
  "argumentNames s = filter (\<lambda>w. w \<noteq> []) (js_split (CHR '','') (map (\<lambda>c. if is_space c then CHR '','' else c) s))"

definition getParamNames :: "string \<Rightarrow> string list" where
  "getParamNames fn =
     (let s = stripComments fn in argumentNames (js_slice s (jsIndexOf (CHR ''('') s + 1) (jsIndexOf (CHR '')'') s)))"

section \<open>The decorators\<close>

record 'p class_decorators =
  cd_methods :: "(string, method_meta) reflected"
  cd_http :: "(string, doc) reflected"
  cd_auth :: "(string, doc) reflected"
  cd_params :: "(string \<times> string, nat \<times> 'p param_meta) reflected"

definition BrokerAction ::
  "string \<Rightarrow> string \<Rightarrow> string option \<Rightarrow> bool \<Rightarrow> string list \<Rightarrow> string \<Rightarrow> string \<Rightarrow> 'p class_decorators \<Rightarrow> 'p class_decorators" where
  "BrokerAction topic action type optional chain methodName fn d =
     d\<lparr>cd_methods := pushMetadata chain
         \<lparr>mm_methodName = methodName, mm_topic = topic, mm_action = action, mm_type = type, mm_optional = optional,
          mm_params = getParamNames fn\<rparr> (cd_methods d)\<rparr>"

definition httpEntry :: "string \<Rightarrow> string \<Rightarrow> string \<Rightarrow> string \<Rightarrow> doc \<Rightarrow> doc" where
  "httpEntry methodName method path dataSource options =
     spread [(''methodName'', JStr methodName), (''method'', JStr method), (''path'', JStr path), (''dataSource'', JStr dataSource)] options"

definition BrokerHTTP ::
  "string \<Rightarrow> string \<Rightarrow> string \<Rightarrow> doc \<Rightarrow> string list \<Rightarrow> string \<Rightarrow> 'p class_decorators \<Rightarrow> 'p class_decorators" where
  "BrokerHTTP method path dataSource options chain methodName d =
     d\<lparr>cd_http := pushMetadata chain (httpEntry methodName method path dataSource options) (cd_http d)\<rparr>"

definition authEntry :: "string \<Rightarrow> jval \<Rightarrow> jval \<Rightarrow> jval \<Rightarrow> jval \<Rightarrow> doc" where
  "authEntry methodName authName allowAnonymous actions httpName =
     [(''methodName'', JStr methodName), (''authName'', authName), (''allowAnonymous'', allowAnonymous),
      (''actions'', actions), (''httpName'', httpName)]"

definition BrokerAuth ::
  "jval \<Rightarrow> jval \<Rightarrow> jval \<Rightarrow> jval \<Rightarrow> string list \<Rightarrow> string \<Rightarrow> 'p class_decorators \<Rightarrow> 'p class_decorators" where
  "BrokerAuth authName allowAnonymous actions httpName chain methodName d =
     d\<lparr>cd_auth := pushMetadata chain (authEntry methodName authName allowAnonymous actions httpName) (cd_auth d)\<rparr>"

definition BrokerParam ::
  "'p param_meta \<Rightarrow> nat \<Rightarrow> string list \<Rightarrow> string \<Rightarrow> 'p class_decorators \<Rightarrow> 'p class_decorators" where
  "BrokerParam p index chain methodName d =
     d\<lparr>cd_params := pushMetadata (map (\<lambda>c. (c, methodName)) chain) (index, p) (cd_params d)\<rparr>"

text \<open>What the scanner reads of a class.\<close>

definition classMeta :: "string list \<Rightarrow> 'p class_decorators \<Rightarrow> 'p class_meta" where
  "classMeta chain d =
     \<lparr>cm_name = hd chain, cm_methods = metadataOf chain (cd_methods d), cm_http = metadataOf chain (cd_http d),
      cm_auth = metadataOf chain (cd_auth d),
      cm_paramMeta = (\<lambda>m i. map_option snd (find (\<lambda>(j, p). j = i) (metadataOf (map (\<lambda>c. (c, m)) chain) (cd_params d))))\<rparr>"

section \<open>Facts\<close>

text \<open>Without inheritance every class has an array of its own.\<close>

definition apart :: "('k, 'e) reflected \<Rightarrow> bool" where
  "apart s \<longleftrightarrow> distinct (map snd (rf_own s)) \<and> distinct (map fst (rf_own s)) \<and> (\<forall>a \<in> set (map snd (rf_own s)). a < length (rf_arrays s))"

lemma push_own:
  assumes "map_of (rf_own s) c = Some a"
  shows "pushMetadata [c] e s = s\<lparr>rf_arrays := (rf_arrays s)[a := rf_arrays s ! a @ [e]]\<rparr>"
proof -
  have "AList.update c a m = m" if "map_of m c = Some a" for m
    using that by (induction m) auto
  with assms show ?thesis by (simp add: pushMetadata_def)
qed

lemma push_fresh:
  assumes "map_of (rf_own s) c = None"
  shows "pushMetadata [c] e s = s\<lparr>rf_own := rf_own s @ [(c, length (rf_arrays s))], rf_arrays := rf_arrays s @ [[e]]\<rparr>"
proof -
  have "c \<notin> fst ` set (rf_own s)" using assms by (simp add: map_of_eq_None_iff)
  then show ?thesis by (simp add: pushMetadata_def assms om_update_absent)
qed

lemma push_apart:
  assumes "apart s"
  shows "apart (pushMetadata [c] e s) \<and> metadataOf [k] (pushMetadata [c] e s) = metadataOf [k] s @ (if k = c then [e] else [])"
proof (cases "map_of (rf_own s) c")
  case None
  have "c \<notin> fst ` set (rf_own s)" using None by (simp add: map_of_eq_None_iff)
  moreover have "a < length (rf_arrays s)" if "map_of (rf_own s) k = Some a" for a
    using assms that by (force simp: apart_def dest: map_of_SomeD)
  ultimately show ?thesis using assms
    by (auto simp: push_fresh [OF None] apart_def metadataOf_def map_add_def nth_append None split: option.splits)
next
  case (Some a)
  have "b \<noteq> a" if "k \<noteq> c" "map_of (rf_own s) k = Some b" for b
    using assms that Some unfolding apart_def by (metis (no_types, lifting) distinct_map inj_onD map_of_SomeD prod.inject snd_conv)
  moreover have "a < length (rf_arrays s)" using assms Some by (force simp: apart_def dest: map_of_SomeD)
  ultimately show ?thesis using assms Some
    by (auto simp: push_own [OF Some] apart_def metadataOf_def nth_list_update split: option.splits)
qed

definition runDecorators :: "('k \<times> 'e) list \<Rightarrow> ('k, 'e) reflected" where
  "runDecorators ds = fold (\<lambda>(c, e). pushMetadata [c] e) ds no_metadata"

lemma runDecorators_metadata:
  "apart (runDecorators ds) \<and> metadataOf [k] (runDecorators ds) = map snd (filter (\<lambda>d. fst d = k) ds)"
proof (induction ds rule: rev_induct)
  case Nil
  then show ?case by (simp add: runDecorators_def no_metadata_def apart_def metadataOf_def)
next
  case (snoc d ds)
  obtain c e where d: "d = (c, e)" by (cases d)
  have "runDecorators (ds @ [d]) = pushMetadata [c] e (runDecorators ds)" by (simp add: runDecorators_def d)
  with snoc push_apart [of "runDecorators ds" c e k] show ?case by (auto simp: d)
qed

text \<open>The comments before a position do not matter when there is none.\<close>

lemma strip_plain: "CHR ''/'' \<notin> set p \<Longrightarrow> stripComments (p @ s) = p @ stripComments s"
proof (induction p)
  case Nil
  then show ?case by simp
next
  case (Cons c p)
  then show ?case by (subst append_Cons, subst stripComments.simps) auto
qed

lemma indexOf_append: "c \<notin> set p \<Longrightarrow> indexOf c (p @ c # s) = Some (length p)"
  by (induction p) auto

lemma js_slice_middle: "js_slice (p @ m @ s) (int (length p)) (int (length p + length m)) = m"
proof -
  have pos: "slice_pos (length (p @ m @ s)) (int k) = k" if "k \<le> length p + length m" for k
    using that by (simp add: slice_pos_def)
  show ?thesis using pos [of "length p"] pos [of "length p + length m"] by (simp add: js_slice_def)
qed

lemma set_js_join: "set (js_join sep ws) \<subseteq> set sep \<union> (\<Union>w \<in> set ws. set w)"
  by (induction sep ws rule: js_join.induct) auto

lemma avoids: "list_all (\<lambda>c. c \<notin> A) w \<Longrightarrow> x \<in> A \<Longrightarrow> x \<notin> set w"
  by (auto simp: list_all_iff)

definition name_char :: "char \<Rightarrow> bool" where
  "name_char c \<longleftrightarrow> \<not> is_space c \<and> c \<notin> set '',()/''"

lemma argumentNames_join:
  assumes "\<forall>w \<in> set ws. w \<noteq> [] \<and> list_all name_char w"
  shows "argumentNames (js_join '', '' ws) = ws"
proof -
  let ?f = "\<lambda>c. if is_space c then CHR '','' else c"
  have plain: "map ?f w = w" "CHR '','' \<notin> set w" if "list_all name_char w" for w
    using that by (auto simp: list_all_iff name_char_def map_idI)
  have sp: "is_space (CHR '' '')" "\<not> is_space (CHR '','')" by (simp_all add: is_space_def)
  show ?thesis using assms
  proof (induction ws)
    case Nil
    then show ?case by (simp add: argumentNames_def)
  next
    case (Cons w ws)
    have w: "w \<noteq> []" "map ?f w = w" "CHR '','' \<notin> set w" using Cons.prems plain [of w] by simp_all
    show ?case
    proof (cases ws)
      case Nil
      with w show ?thesis by (simp add: argumentNames_def js_split_id)
    next
      case (Cons v vs)
      have "argumentNames (js_join '', '' (w # ws)) = w # argumentNames (js_join '', '' ws)"
        using w sp by (simp add: Cons argumentNames_def js_split_append_sep)
      with Cons.IH Cons.prems show ?thesis by simp
    qed
  qed
qed

section \<open>Properties\<close>

text \<open>Decorating keeps classes apart: after any sequence of decorators on classes that extend no decorated
  class, the scanner reads of each class exactly the entries of its own decorators, in the order in which they
  were applied.\<close>

theorem decorators_keep_classes_apart:
  "metadataOf [k] (runDecorators ds) = map snd (filter (\<lambda>d. fst d = k) ds)"
  by (rule runDecorators_metadata [THEN conjunct2])

text \<open>C32: The scanner knows a method's parameters by their names: from the source of a method whose parameter
  list holds plain names, and whose head has no comment, \<open>getParamNames\<close> reads those names, whatever the
  body.\<close>

theorem param_names_read:
  assumes "\<forall>w \<in> set ws. w \<noteq> [] \<and> list_all name_char w" and "list_all (\<lambda>c. c \<notin> set ''()/'') head"
  shows "getParamNames (head @ ''('' @ js_join '', '' ws @ '')'' @ body) = ws"
proof -
  let ?args = "js_join '', '' ws"
  have chars: "list_all (\<lambda>c. c \<notin> set ''()/'') ?args"
    unfolding list_all_iff
  proof
    fix c
    assume "c \<in> set ?args"
    with set_js_join have "c \<in> set '', '' \<union> (\<Union>w \<in> set ws. set w)" by blast
    then consider "c \<in> set '', ''" | "name_char c" using assms(1) by (auto simp: list_all_iff)
    then show "c \<notin> set ''()/''" by cases (auto simp: name_char_def)
  qed
  have none: "CHR ''('' \<notin> set head" "CHR '')'' \<notin> set head" "CHR ''/'' \<notin> set head"
    "CHR '')'' \<notin> set ?args" "CHR ''/'' \<notin> set ?args"
    by (rule avoids [OF assms(2)], simp)+ (rule avoids [OF chars], simp)+
  have "stripComments (head @ ''('' @ ?args @ '')'' @ body) = head @ ''('' @ ?args @ CHR '')'' # stripComments body"
    using strip_plain [of "head @ ''('' @ ?args @ '')''" body] none by simp
  moreover have "jsIndexOf (CHR ''('') (head @ ''('' @ ?args @ CHR '')'' # stripComments body) = int (length head)"
    using none indexOf_append [of "CHR ''(''" head "?args @ CHR '')'' # stripComments body"] by (simp add: jsIndexOf_def)
  moreover have "jsIndexOf (CHR '')'') (head @ ''('' @ ?args @ CHR '')'' # stripComments body) = int (length head + 1 + length ?args)"
    using none indexOf_append [of "CHR '')''" "head @ ''('' @ ?args" "stripComments body"] by (simp add: jsIndexOf_def)
  ultimately have "getParamNames (head @ ''('' @ ?args @ '')'' @ body) =
      argumentNames (js_slice ((head @ ''('') @ ?args @ CHR '')'' # stripComments body)
        (int (length (head @ ''(''))) (int (length (head @ ''('') + length ?args)))"
    by (simp add: getParamNames_def Let_def add.commute)
  then show ?thesis by (simp only: js_slice_middle argumentNames_join [OF assms(1)])
qed

theorem param_names_read_witness:
  "getParamNames (''create'' @ ''('' @ js_join '', '' [''payload'', ''user''] @ '')'' @ '' { return f(payload); }'') = [''payload'', ''user'']"
  by (rule param_names_read) (simp_all add: name_char_def is_space_def)

text \<open>A class that extends a decorated one pushes into the array of the class it extends: the base class
  gets the entries of its subclasses.\<close>

theorem subclass_decorators_leak:
  assumes "map_of (rf_own s) base = Some a" and "a < length (rf_arrays s)" and "map_of (rf_own s) sub = None" and "sub \<noteq> base"
  shows "metadataOf [base] (pushMetadata [sub, base] e s) = metadataOf [base] s @ [e]"
  using assms by (simp add: metadataOf_def pushMetadata_def om_simps)

text \<open>A default value with a call ends the parameter list at the call's parenthesis: the parameters after
  it are not read.\<close>

theorem default_call_hides_parameters:
  "getParamNames ''list(page = first(), limit) {}'' = [''page'', ''='', ''first('']"
  by code_simp

end
