(* ===== verification/Codemod.thy ===== *)
theory Codemod
  imports Decorators
begin

text \<open>
  \<open>scripts/broker-http-decorators.js\<close>: for a method that already has \<open>@BrokerAction\<close>, the routes of a
  gateway configuration with the same topic and action become \<open>@BrokerHTTP\<close> and \<open>@BrokerAuth\<close> decorators.
  The model starts from the decorators found on the method (the script reads them from the source
  line by line) and ends with the lines it inserts; what these lines mean to the scanner is what the
  decorators of \<open>Decorators\<close> store. The theorems are about the two together.
\<close>

section \<open>The routes of the configuration\<close>

definition actionKey :: "jval \<Rightarrow> jval \<Rightarrow> string" where
  "actionKey topic action = js_string topic @ ''::'' @ js_string action"

definition usableRoute :: "doc \<Rightarrow> bool" where
  "usableRoute p \<longleftrightarrow> truthy (field p ''topic'') \<and> truthy (field p ''action'') \<and> truthy (field p ''path'') \<and> truthy (field p ''method'')"

definition routesByKey :: "doc list \<Rightarrow> string \<Rightarrow> doc list" where
  "routesByKey paths key = filter (\<lambda>p. usableRoute p \<and> actionKey (field p ''topic'') (field p ''action'') = key) paths"

section \<open>The decorators of one route\<close>

definition mapDataSource :: "jval \<Rightarrow> string \<times> jval option" where
  "mapDataSource ds =
     (if ds = JStr ''body-query'' then (''body'', Some ds)
      else if ds = JStr ''query-body'' then (''query'', Some ds)
      else if ds = JStr ''query'' then (''query'', None)
      else if ds = JStr ''body'' then (''body'', None)
      else if ds = JStr ''params'' then (''params'', None)
      else (''body'', Some (if truthy ds then ds else JStr ''(none)'')))"

definition COPIED_OPTIONS :: "string list" where
  "COPIED_OPTIONS = [''successStatusCode'', ''timeout'', ''parseRaw'', ''binary'', ''redirect'', ''headers'', ''forwardHeaders'']"

definition httpOptions :: "doc \<Rightarrow> string option \<Rightarrow> string option \<Rightarrow> doc" where
  "httpOptions route action name =
     (if truthy_str name then [(''name'', JStr (the name))] else []) @
     (if truthy_str action then [(''action'', JStr (the action))] else []) @
     map (\<lambda>k. (k, field route k)) (filter (\<lambda>k. \<not> nullish (field route k)) COPIED_OPTIONS)"

text \<open>\<open>objLiteral\<close>: the quotes of simple keys are dropped, \<open>/"(\w+)":/g\<close>.\<close>

definition word_char :: "char \<Rightarrow> bool" where
  "word_char c \<longleftrightarrow> (let n = of_char c :: nat in 48 \<le> n \<and> n \<le> 57 \<or> 65 \<le> n \<and> n \<le> 90 \<or> 97 \<le> n \<and> n \<le> 122 \<or> n = 95)"

function unquoteKeys :: "string \<Rightarrow> string" where
  "unquoteKeys s =
     (case s of
        [] \<Rightarrow> []
      | c # r \<Rightarrow>
          (let w = takeWhile word_char r; rest = dropWhile word_char r in
           if c = CHR 0x22 \<and> w \<noteq> [] \<and> starts_with [CHR 0x22, CHR '':''] rest
           then w @ CHR '':'' # unquoteKeys (drop 2 rest)
           else c # unquoteKeys r))"
  by auto

termination
  by (relation "measure length") (auto simp: less_Suc_eq_le intro: order_trans [OF diff_le_self length_dropWhile_le])

definition objLiteral :: "jval \<Rightarrow> string" where
  "objLiteral v = unquoteKeys (coalesce (json_stringify v) [])"

definition quoteWith :: "char \<Rightarrow> string \<Rightarrow> string" where
  "quoteWith q s = q # s @ [q]"

definition buildHttp :: "char \<Rightarrow> string \<Rightarrow> doc \<Rightarrow> string option \<Rightarrow> string option \<Rightarrow> string list" where
  "buildHttp q indent route action name =
     (let (ds, note) = mapDataSource (field route ''dataSource''); opts = httpOptions route action name;
          tail = (if opts = [] then [] else '', '' @ objLiteral (JObj opts));
          dec = indent @ ''@BrokerHTTP('' @ quoteWith q (to_upper (js_string (field route ''method''))) @ '', '' @
                quoteWith q (js_string (field route ''path'')) @ '', '' @ quoteWith q ds @ tail @ '')''
      in (case note of
            None \<Rightarrow> []
          | Some n \<Rightarrow> [indent @ ''// NOTE: original dataSource '' @ quoteWith (CHR 0x27) (js_string n) @
                       '' is not expressible on @BrokerHTTP; using '' @ quoteWith (CHR 0x27) ds]) @ [dec])"

definition authActions :: "doc \<Rightarrow> jval" where
  "authActions route =
     (case field route ''actions'' of
        JArr as \<Rightarrow> (if as \<noteq> [] then JArr as else JUndef)
      | a \<Rightarrow> (if truthy a then JArr [a] else JUndef))"

definition buildAuth :: "char \<Rightarrow> doc \<Rightarrow> string option \<Rightarrow> string \<Rightarrow> string option" where
  "buildAuth q route httpName indent =
     (if \<not> truthy (field route ''auth'') then None
      else
        let actions = authActions route; anon = field route ''allowAnonymous'';
            needAnon = (anon \<noteq> JUndef \<or> actions \<noteq> JUndef \<or> truthy_str httpName);
            parts = [quoteWith q (js_string (field route ''auth''))] @
              (if needAnon then [js_string anon] else []) @
              (if actions \<noteq> JUndef \<or> truthy_str httpName
               then [if actions \<noteq> JUndef then objLiteral actions else ''undefined''] else []) @
              (if truthy_str httpName then [quoteWith q (the httpName)] else [])
        in Some (indent @ ''@BrokerAuth('' @ js_join '', '' parts @ '')''))"

section \<open>The plan for one method\<close>

record route_plan =
  rp_route :: doc
  rp_action :: string
  rp_name :: "string option"

text \<open>The routes of the method's actions whose path no \<open>@BrokerHTTP\<close> of the method has.\<close>

definition toAdd :: "doc list \<Rightarrow> (string \<times> string) list \<Rightarrow> string set \<Rightarrow> route_plan list" where
  "toAdd paths actions existingPaths =
     concat (map (\<lambda>(topic, action).
        map (\<lambda>r. \<lparr>rp_route = r, rp_action = action, rp_name = None\<rparr>)
          (filter (\<lambda>r. field r ''path'' \<notin> JStr ` existingPaths) (routesByKey paths (actionKey (JStr topic) (JStr action))))) actions)"

definition alnum_char :: "char \<Rightarrow> bool" where
  "alnum_char c \<longleftrightarrow> word_char c \<and> c \<noteq> CHR ''_''"

fun dashRuns :: "bool \<Rightarrow> string \<Rightarrow> string" where
  "dashRuns inRun [] = []"
| "dashRuns inRun (c # cs) =
     (if alnum_char c then c # dashRuns False cs
      else if inRun then dashRuns True cs
      else CHR ''-'' # dashRuns True cs)"

definition trimDash :: "string \<Rightarrow> string" where
  "trimDash s =
     (let t = (if s \<noteq> [] \<and> hd s = CHR ''-'' then tl s else s)
      in if t \<noteq> [] \<and> last t = CHR ''-'' then butlast t else t)"

definition routeSlug :: "doc \<Rightarrow> string" where
  "routeSlug r = trimDash (dashRuns False (js_string (field r ''method'') @ ''-'' @ js_string (field r ''path'')))"

text \<open>\<open>while (used.has(nm)) nm = base-k++\<close>: one of the first \<open>length used + 1\<close> numbered names is free.\<close>

definition numbered :: "string \<Rightarrow> nat \<Rightarrow> string" where
  "numbered base k = base @ ''-'' @ nat_str k"

definition freeName :: "string \<Rightarrow> string list \<Rightarrow> string" where
  "freeName base used =
     (if base \<notin> set used then base
      else hd (filter (\<lambda>n. n \<notin> set used) (map (numbered base) [2..<length used + 3])))"

fun assignNames :: "string list \<Rightarrow> route_plan list \<Rightarrow> route_plan list" where
  "assignNames used [] = []"
| "assignNames used (p # ps) =
     (let nm = freeName (if truthy (field (rp_route p) ''name'') then js_string (field (rp_route p) ''name'') else routeSlug (rp_route p)) used
      in p\<lparr>rp_name := Some nm\<rparr> # assignNames (nm # used) ps)"

definition planMethod :: "doc list \<Rightarrow> (string \<times> string) list \<Rightarrow> string set \<Rightarrow> route_plan list" where
  "planMethod paths actions existingPaths =
     (let added = toAdd paths actions existingPaths in if 1 < length added then assignNames [] added else added)"

definition textLines :: "char \<Rightarrow> string \<Rightarrow> bool \<Rightarrow> route_plan list \<Rightarrow> string list" where
  "textLines q indent multi plan =
     concat (map (\<lambda>p.
        buildHttp q indent (rp_route p) (if multi then Some (rp_action p) else None) (rp_name p) @
        (case buildAuth q (rp_route p) (rp_name p) indent of None \<Rightarrow> [] | Some l \<Rightarrow> [l])) plan)"

text \<open>The insertion of the lines after the last \<open>@BrokerAction\<close>; edits are applied from the bottom up.\<close>

definition applyEdit :: "nat \<times> string list \<Rightarrow> string list \<Rightarrow> string list" where
  "applyEdit e lines = take (Suc (fst e)) lines @ snd e @ drop (Suc (fst e)) lines"

definition applyEdits :: "(nat \<times> string list) list \<Rightarrow> string list \<Rightarrow> string list" where
  "applyEdits edits lines = fold applyEdit (sort_key (\<lambda>e. - int (fst e)) edits) lines"

text \<open>The decorators that the inserted lines are, as they store themselves on the class.\<close>

definition plannedHttp :: "string \<Rightarrow> bool \<Rightarrow> route_plan \<Rightarrow> doc" where
  "plannedHttp methodName multi p =
     httpEntry methodName (to_upper (js_string (field (rp_route p) ''method''))) (js_string (field (rp_route p) ''path''))
       (fst (mapDataSource (field (rp_route p) ''dataSource'')))
       (httpOptions (rp_route p) (if multi then Some (rp_action p) else None) (rp_name p))"

definition plannedAuth :: "string \<Rightarrow> route_plan \<Rightarrow> doc option" where
  "plannedAuth methodName p =
     (if \<not> truthy (field (rp_route p) ''auth'') then None
      else Some (authEntry methodName (JStr (js_string (field (rp_route p) ''auth''))) (field (rp_route p) ''allowAnonymous'')
             (authActions (rp_route p)) (if truthy_str (rp_name p) then JStr (the (rp_name p)) else JUndef)))"

section \<open>Facts\<close>

lemma numbered_inject: "numbered base j = numbered base k \<longleftrightarrow> j = k"
  by (simp add: numbered_def)

lemma freeName_fresh: "freeName base used \<notin> set used"
proof (cases "base \<in> set used")
  case True
  let ?cands = "map (numbered base) [2..<length used + 3]"
  have "\<not> set ?cands \<subseteq> set used"
  proof
    assume "set ?cands \<subseteq> set used"
    then have "card (set ?cands) \<le> length used" by (meson List.finite_set card_length card_mono le_trans)
    moreover have "distinct ?cands" by (simp add: distinct_map inj_on_def numbered_inject)
    ultimately show False using distinct_card [of ?cands] by simp
  qed
  then have "filter (\<lambda>n. n \<notin> set used) ?cands \<noteq> []" by (auto simp: filter_empty_conv)
  from hd_in_set [OF this] True show ?thesis by (simp add: freeName_def)
qed (simp add: freeName_def)

lemma assignNames_facts:
  "map rp_route (assignNames used ps) = map rp_route ps \<and> distinct (map rp_name (assignNames used ps)) \<and>
   (\<forall>p \<in> set (assignNames used ps). \<exists>n. rp_name p = Some n \<and> n \<notin> set used)"
proof (induction ps arbitrary: used)
  case Nil
  then show ?case by simp
next
  case (Cons p ps)
  define nm where "nm = freeName (if truthy (field (rp_route p) ''name'') then js_string (field (rp_route p) ''name'') else routeSlug (rp_route p)) used"
  have nm: "nm \<notin> set used" unfolding nm_def by (rule freeName_fresh)
  have eq: "assignNames used (p # ps) = p\<lparr>rp_name := Some nm\<rparr> # assignNames (nm # used) ps"
    by (simp add: nm_def Let_def)
  from Cons.IH [of "nm # used"] nm show ?case unfolding eq by fastforce
qed

lemma httpOptions_keys:
  "distinct (map fst (httpOptions route action name))"
  "set (map fst (httpOptions route action name)) \<subseteq> {''name'', ''action''} \<union> set COPIED_OPTIONS"
  by (auto simp: httpOptions_def COPIED_OPTIONS_def)

lemma plannedHttp_field:
  "field (plannedHttp m multi p) ''name'' = (if truthy_str (rp_name p) then JStr (the (rp_name p)) else JUndef)"
  "k \<in> {''auth'', ''allowAnonymous'', ''actions''} \<Longrightarrow> field (plannedHttp m multi p) k = JUndef"
proof -
  let ?o = "httpOptions (rp_route p) (if multi then Some (rp_action p) else None) (rp_name p)"
  have get: "field (plannedHttp m multi p) k = (case map_of ?o k of None \<Rightarrow> field [(''methodName'', JStr m), (''method'', JStr (to_upper (js_string (field (rp_route p) ''method'')))),
      (''path'', JStr (js_string (field (rp_route p) ''path''))), (''dataSource'', JStr (fst (mapDataSource (field (rp_route p) ''dataSource''))))] k | Some v \<Rightarrow> v)" for k
    by (simp add: plannedHttp_def httpEntry_def spread_field map_of_distinct_rev [OF httpOptions_keys(1)])
  have "map_of ?o ''name'' = (if truthy_str (rp_name p) then Some (JStr (the (rp_name p))) else None)"
  proof -
    have "map_of (map (\<lambda>k. (k, field (rp_route p) k)) (filter (\<lambda>k. \<not> nullish (field (rp_route p) k)) COPIED_OPTIONS)) ''name'' = None"
      by (simp add: map_of_eq_None_iff COPIED_OPTIONS_def)
    then show ?thesis by (auto simp: httpOptions_def)
  qed
  then show "field (plannedHttp m multi p) ''name'' = (if truthy_str (rp_name p) then JStr (the (rp_name p)) else JUndef)"
    by (simp add: get) (simp add: field_def)
  assume k: "k \<in> {''auth'', ''allowAnonymous'', ''actions''}"
  then have "k \<notin> {''name'', ''action''} \<union> set COPIED_OPTIONS" by (auto simp: COPIED_OPTIONS_def)
  then have "k \<notin> set (map fst ?o)" using httpOptions_keys(2) by blast
  then have "map_of ?o k = None" by (simp add: map_of_eq_None_iff)
  with k show "field (plannedHttp m multi p) k = JUndef" by (auto simp: get) (auto simp: field_def)
qed

lemma plannedAuth_field:
  assumes "plannedAuth m p = Some a"
  shows "truthy (field (rp_route p) ''auth'')"
    and "field a ''httpName'' = (if truthy_str (rp_name p) then JStr (the (rp_name p)) else JUndef)"
    and "field a ''authName'' = JStr (js_string (field (rp_route p) ''auth''))"
    and "field a ''allowAnonymous'' = field (rp_route p) ''allowAnonymous''"
    and "field a ''actions'' = authActions (rp_route p)"
  using assms by (auto simp: plannedAuth_def authEntry_def split: if_splits) (auto simp: field_def)

text \<open>What protects a route: the provider, whether anonymous callers pass, and the actions asked for.\<close>

definition protection :: "doc \<Rightarrow> jval \<times> jval \<times> jval" where
  "protection h = (field h ''auth'', field h ''allowAnonymous'', field h ''actions'')"

definition intended :: "doc \<Rightarrow> jval \<times> jval \<times> jval" where
  "intended route =
     (if truthy (field route ''auth'')
      then (JStr (js_string (field route ''auth'')), field route ''allowAnonymous'', authActions route)
      else (JUndef, JUndef, JUndef))"

lemma protection_withAuth: "protection (withAuth h a) = (field a ''authName'', field a ''allowAnonymous'', field a ''actions'')"
  by (simp add: protection_def withAuth_field)

lemma protection_planned: "protection (plannedHttp m multi p) = (JUndef, JUndef, JUndef)"
  by (simp add: protection_def plannedHttp_field)

lemma protection_auth: "plannedAuth m p = Some a \<Longrightarrow> protection (withAuth h a) = intended (rp_route p)"
  using plannedAuth_field [of m p a] by (simp add: protection_withAuth intended_def)

lemma find_unique:
  assumes "a \<in> set xs" and "P a" and "\<And>b. b \<in> set xs \<Longrightarrow> P b \<Longrightarrow> b = a"
  shows "find P xs = Some a"
  using assms
proof (induction xs)
  case (Cons x xs)
  show ?case
  proof (cases "P x")
    case True
    have "x = a" by (rule Cons.prems(3)) (simp_all add: True)
    with True show ?thesis by simp
  next
    case False
    have "a \<in> set xs" using Cons.prems(1,2) False by auto
    then have "find P xs = Some a" by (rule Cons.IH [OF _ Cons.prems(2)]) (rule Cons.prems(3), simp_all)
    with False show ?thesis by simp
  qed
qed simp

lemma set_map_filter': "set (List.map_filter f xs) = {y. \<exists>x \<in> set xs. f x = Some y}"
  by (auto simp: map_filter_mem)

lemma multi_pairing:
  assumes "distinct (map rp_name plans)" and "\<forall>p \<in> set plans. truthy_str (rp_name p)" and "p \<in> set plans"
    and auths: "set auths = set (List.map_filter (plannedAuth m) plans)"
  shows "protection (pairRoute True auths (plannedHttp m multi p)) = intended (rp_route p)"
proof -
  have t: "truthy (field (plannedHttp m multi p) ''name'')"
    using assms(2,3) by (auto simp: plannedHttp_field truthy_str_def split: option.splits)
  have same: "q = p" if q: "q \<in> set plans" "plannedAuth m q = Some b" "field b ''httpName'' = field (plannedHttp m multi p) ''name''" for q b
  proof -
    from assms(2,3) q(1) have some: "truthy_str (rp_name q)" "truthy_str (rp_name p)" by blast+
    then have "the (rp_name q) = the (rp_name p)"
      using q(3) plannedAuth_field(2) [OF q(2)] by (simp add: plannedHttp_field)
    with some have "rp_name q = rp_name p"
      by (cases "rp_name q"; cases "rp_name p") (simp_all add: truthy_str_def)
    with assms(1,3) q(1) show ?thesis by (metis distinct_map inj_onD)
  qed
  show ?thesis
  proof (cases "plannedAuth m p")
    case None
    then have "\<not> truthy (field (rp_route p) ''auth'')" by (auto simp: plannedAuth_def split: if_splits)
    moreover have "find (\<lambda>a. field a ''httpName'' = field (plannedHttp m multi p) ''name'') auths = None"
      using same None unfolding find_None_iff auths set_map_filter' by fastforce
    ultimately show ?thesis using t by (simp add: pairRoute_def pairedAuth_def protection_planned intended_def)
  next
    case (Some a)
    have "find (\<lambda>a. field a ''httpName'' = field (plannedHttp m multi p) ''name'') auths = Some a"
    proof (rule find_unique)
      show "a \<in> set auths" using Some assms(3) unfolding auths set_map_filter' by blast
      show "field a ''httpName'' = field (plannedHttp m multi p) ''name''"
        using plannedAuth_field(2) [OF Some] by (simp add: plannedHttp_field)
      show "b = a" if "b \<in> set auths" "field b ''httpName'' = field (plannedHttp m multi p) ''name''" for b
        using that same Some unfolding auths set_map_filter' by fastforce
    qed
    with t show ?thesis by (simp add: pairRoute_def pairedAuth_def protection_auth [OF Some])
  qed
qed

lemma planMethod_cases:
  assumes "plan = planMethod paths actions existing" and "\<forall>p \<in> set plan. rp_name p \<noteq> Some []"
  obtains "length plan \<le> 1" and "\<forall>p \<in> set plan. rp_name p = None"
  | "1 < length plan" and "distinct (map rp_name plan)" and "\<forall>p \<in> set plan. truthy_str (rp_name p)"
proof (cases "1 < length (toAdd paths actions existing)")
  case True
  then have plan: "plan = assignNames [] (toAdd paths actions existing)" by (simp add: assms(1) planMethod_def)
  with assignNames_facts [of "[]" "toAdd paths actions existing"]
  have "length plan = length (toAdd paths actions existing)" "distinct (map rp_name plan)" "\<forall>p \<in> set plan. rp_name p \<noteq> None"
    by (metis length_map, simp_all)
  with True assms(2) that(2) show ?thesis by (fastforce simp: truthy_str_def split: option.splits)
next
  case False
  then have plan: "plan = toAdd paths actions existing" by (simp add: assms(1) planMethod_def Let_def)
  have "\<forall>p \<in> set plan. rp_name p = None" unfolding plan by (auto simp: toAdd_def)
  with False plan that(1) show ?thesis by simp
qed

section \<open>Properties\<close>


definition sample_routes :: "doc list" where
  "sample_routes =
     [[(''topic'', JStr ''booking''), (''action'', JStr ''get''), (''path'', JStr ''/b/:id''), (''method'', JStr ''GET''), (''auth'', JStr ''jwks'')],
      [(''topic'', JStr ''booking''), (''action'', JStr ''get''), (''path'', JStr ''/admin/b/:id''), (''method'', JStr ''GET''), (''auth'', JStr ''admin'')]]"


text \<open>With a decorator already on the method this fails: one added route gets no name, so with the unnamed
  route that is there the method has two, and neither is paired: both become public.\<close>

theorem added_route_unprotects:
  assumes "planMethod paths actions existing = [p]" and "\<not> truthy (field h ''name'')"
    and "protection h = (JUndef, JUndef, JUndef)"
  shows "map protection (fst (pairAuthToRoutes [plannedHttp m multi p, h] auths)) = [(JUndef, JUndef, JUndef), (JUndef, JUndef, JUndef)]"
proof -
  have "rp_name p = None"
  proof -
    have "toAdd paths actions existing = [p]"
    proof (cases "1 < length (toAdd paths actions existing)")
      case True
      with assms(1) assignNames_facts [of "[]" "toAdd paths actions existing"] show ?thesis
        by (metis One_nat_def length_Cons length_map less_irrefl list.size(3) planMethod_def)
    qed (use assms(1) in \<open>simp add: planMethod_def Let_def\<close>)
    then have "p \<in> set (toAdd paths actions existing)" by simp
    then show ?thesis by (auto simp: toAdd_def)
  qed
  then have "\<not> truthy (field (plannedHttp m multi p) ''name'')" by (simp add: plannedHttp_field truthy_str_def)
  with assms(2,3) show ?thesis
    by (simp add: pairAuthToRoutes_def pairRoute_def pairedAuth_def protection_planned)
qed

text \<open>The names the codemod invents are unused, however many routes want the same one.\<close>

theorem route_names_distinct:
  "1 < length (planMethod paths actions existing) \<Longrightarrow> distinct (map rp_name (planMethod paths actions existing))"
  using assignNames_facts [of "[]" "toAdd paths actions existing"]
  by (auto simp: planMethod_def Let_def split: if_splits)

end
