(* ===== verification/Base64.thy ===== *)
theory Base64
  imports Prelude
begin

text \<open>
  The part of Node's \<open>Buffer\<close> the gateway uses on credentials:
  \<open>Buffer.from(text, 'base64').toString('ascii')\<close>. The decoder takes both alphabets, stops at
  the first \<open>=\<close> and skips every other character; the ASCII reading keeps the low seven bits of
  a byte. \<open>b64_encode\<close> is what a client does to its credentials, and decoding it gives them
  back.
\<close>

definition b64_val :: "char \<Rightarrow> nat option" where
  "b64_val c =
     (let n = of_char c :: nat in
      if 65 \<le> n \<and> n \<le> 90 then Some (n - 65)
      else if 97 \<le> n \<and> n \<le> 122 then Some (n - 71)
      else if 48 \<le> n \<and> n \<le> 57 then Some (n + 4)
      else if n = 43 \<or> n = 45 then Some 62
      else if n = 47 \<or> n = 95 then Some 63
      else None)"

fun sextets_bytes :: "nat list \<Rightarrow> nat list" where
  "sextets_bytes (a # b # c # d # rest) =
     (4 * a + b div 16) # (16 * (b mod 16) + c div 4) # (64 * (c mod 4) + d) # sextets_bytes rest"
| "sextets_bytes [a, b, c] = [4 * a + b div 16, 16 * (b mod 16) + c div 4]"
| "sextets_bytes [a, b] = [4 * a + b div 16]"
| "sextets_bytes _ = []"

definition b64_decode :: "string \<Rightarrow> nat list" where
  "b64_decode s = sextets_bytes (List.map_filter b64_val (takeWhile (\<lambda>c. c \<noteq> CHR ''='') s))"

definition bytes_ascii :: "nat list \<Rightarrow> string" where
  "bytes_ascii bs = map (\<lambda>b. char_of (b mod 128)) bs"

definition ascii_bytes :: "string \<Rightarrow> nat list" where
  "ascii_bytes s = map of_char s"

subsection \<open>The encoder of a client\<close>

definition b64_char :: "nat \<Rightarrow> char" where
  "b64_char n = char_of (if n < 26 then n + 65 else if n < 52 then n + 71 else if n < 62 then n - 4 else if n = 62 then 43 else 47)"

fun b64_encode :: "nat list \<Rightarrow> string" where
  "b64_encode (x # y # z # rest) =
     b64_char (x div 4) # b64_char (16 * (x mod 4) + y div 16) # b64_char (4 * (y mod 16) + z div 64) # b64_char (z mod 64)
     # b64_encode rest"
| "b64_encode [x, y] = [b64_char (x div 4), b64_char (16 * (x mod 4) + y div 16), b64_char (4 * (y mod 16)), CHR ''='']"
| "b64_encode [x] = [b64_char (x div 4), b64_char (16 * (x mod 4)), CHR ''='', CHR ''='']"
| "b64_encode [] = []"

lemma char_neq_code: "(of_char c :: nat) \<noteq> of_char d \<Longrightarrow> c \<noteq> d"
  by auto

lemma b64_char_code: "n < 64 \<Longrightarrow>
  (of_char (b64_char n) :: nat) = (if n < 26 then n + 65 else if n < 52 then n + 71 else if n < 62 then n - 4 else if n = 62 then 43 else 47)"
  by (auto simp: b64_char_def)

lemma b64_char_props [simp]:
  assumes "n < 64"
  shows "b64_val (b64_char n) = Some n" "b64_char n \<noteq> CHR ''=''" "b64_char n \<noteq> CHR '' ''"
proof -
  show "b64_val (b64_char n) = Some n"
    using assms by (auto simp: b64_val_def b64_char_code [OF assms] Let_def)
  show "b64_char n \<noteq> CHR ''=''" by (rule char_neq_code) (use assms in \<open>auto simp: b64_char_code [OF assms]\<close>)
  show "b64_char n \<noteq> CHR '' ''" by (rule char_neq_code) (use assms in \<open>auto simp: b64_char_code [OF assms]\<close>)
qed

lemma map_filter_simps [simp]:
  "List.map_filter f [] = []"
  "List.map_filter f (x # xs) = (case f x of None \<Rightarrow> List.map_filter f xs | Some y \<Rightarrow> y # List.map_filter f xs)"
  by (simp_all add: List.map_filter_def split: option.split)

lemma low_digit:
  fixes a b n :: nat
  assumes "b < n"
  shows "(n * a + b) div n = a" "(n * a + b) mod n = b"
  using assms by simp_all

lemma byte_parts:
  fixes x y z :: nat
  assumes "x < 256" and "y < 256" and "z < 256"
  shows "x div 4 < 64" "16 * (x mod 4) + y div 16 < 64" "4 * (y mod 16) + z div 64 < 64" "z mod 64 < 64"
    "4 * (x div 4) + (16 * (x mod 4) + y div 16) div 16 = x"
    "16 * ((16 * (x mod 4) + y div 16) mod 16) + (4 * (y mod 16) + z div 64) div 4 = y"
    "64 * ((4 * (y mod 16) + z div 64) mod 4) + z mod 64 = z"
proof -
  have d: "y div 16 < 16" "z div 64 < 4" "x mod 4 < 4" "y mod 16 < 16" using assms by auto
  note l = low_digit [OF d(1), of "x mod 4"] low_digit [OF d(2), of "y mod 16"]
  show "x div 4 < 64" using assms(1) by simp
  show "16 * (x mod 4) + y div 16 < 64" "4 * (y mod 16) + z div 64 < 64" using d by linarith+
  show "z mod 64 < 64" by simp
  show "4 * (x div 4) + (16 * (x mod 4) + y div 16) div 16 = x" unfolding l(1) by (rule mult_div_mod_eq)
  show "16 * ((16 * (x mod 4) + y div 16) mod 16) + (4 * (y mod 16) + z div 64) div 4 = y"
    unfolding l(2,3) by (rule mult_div_mod_eq)
  show "64 * ((4 * (y mod 16) + z div 64) mod 4) + z mod 64 = z" unfolding l(4) by (rule mult_div_mod_eq)
qed

lemma byte_parts_two:
  fixes x y :: nat
  assumes "x < 256" and "y < 256"
  shows "4 * (y mod 16) < 64" "16 * ((16 * (x mod 4) + y div 16) mod 16) + (4 * (y mod 16)) div 4 = y"
    "16 * (x mod 4) < 64" "4 * (x div 4) + (16 * (x mod 4)) div 16 = x"
  using byte_parts [OF assms, of 0] byte_parts [OF assms(1), of 0 0] by simp_all

theorem b64_decode_encode: "\<forall>b \<in> set bs. b < 256 \<Longrightarrow> b64_decode (b64_encode bs) = bs"
proof (induction bs rule: b64_encode.induct)
  case (1 x y z rest)
  then have "x < 256" "y < 256" "z < 256" by simp_all
  note p = byte_parts [OF this]
  have "b64_decode (b64_encode rest) = rest" using 1 by simp
  then show ?case unfolding b64_decode_def
    by (simp only: b64_encode.simps takeWhile.simps b64_char_props [OF p(1)] b64_char_props [OF p(2)] b64_char_props [OF p(3)]
        b64_char_props [OF p(4)] simp_thms if_True map_filter_simps option.case sextets_bytes.simps p(5-7))
next
  case (2 x y)
  then have "x < 256" "y < 256" by simp_all
  note p = byte_parts [OF this, of 0] byte_parts_two [OF this]
  show ?case unfolding b64_decode_def
    by (simp only: b64_encode.simps takeWhile.simps b64_char_props [OF p(1)] b64_char_props [OF p(2)] b64_char_props [OF p(8)]
        simp_thms if_True if_False map_filter_simps option.case sextets_bytes.simps p(5,9))
next
  case (3 x)
  then have "x < 256" by simp
  note p = byte_parts [OF this, of 0 0] byte_parts_two [OF this, of 0]
  show ?case unfolding b64_decode_def
    by (simp only: b64_encode.simps takeWhile.simps b64_char_props [OF p(1)] b64_char_props [OF p(10)]
        simp_thms if_True if_False map_filter_simps option.case sextets_bytes.simps p(11))
qed (simp add: b64_decode_def)

lemma b64_encode_no_space: "\<forall>b \<in> set bs. b < 256 \<Longrightarrow> CHR '' '' \<notin> set (b64_encode bs)"
proof (induction bs rule: b64_encode.induct)
  case (1 x y z rest)
  then have "x < 256" "y < 256" "z < 256" by simp_all
  note p = byte_parts [OF this]
  show ?case using 1 p(1-4) [THEN b64_char_props(3), symmetric] by simp
next
  case (2 x y)
  then have "x < 256" "y < 256" by simp_all
  note p = byte_parts [OF this, of 0] byte_parts_two [OF this]
  show ?case using p(1,2,8) [THEN b64_char_props(3), symmetric] by simp
next
  case (3 x)
  then have "x < 256" by simp
  note p = byte_parts [OF this, of 0 0] byte_parts_two [OF this, of 0]
  show ?case using p(1,10) [THEN b64_char_props(3), symmetric] by simp
qed simp

definition ascii :: "string \<Rightarrow> bool" where
  "ascii s \<longleftrightarrow> (\<forall>c \<in> set s. (of_char c :: nat) < 128)"

lemma ascii_append [simp]: "ascii (s @ t) \<longleftrightarrow> ascii s \<and> ascii t"
  by (auto simp: ascii_def)

lemma ascii_Cons [simp]: "ascii (c # s) \<longleftrightarrow> (of_char c :: nat) < 128 \<and> ascii s"
  by (simp add: ascii_def)

lemma ascii_bytes_range: "\<forall>b \<in> set (ascii_bytes s). b < 256"
  by (auto simp: ascii_bytes_def)

lemma decode_text: "ascii s \<Longrightarrow> bytes_ascii (b64_decode (b64_encode (ascii_bytes s))) = s"
  by (subst b64_decode_encode [OF ascii_bytes_range])
    (simp add: bytes_ascii_def ascii_bytes_def ascii_def map_idI)

end
