(* ===== verification/Acl_Cache.thy ===== *)
theory Acl_Cache
  imports Prelude
begin

text \<open>
  The two-tier cache of access decisions: \<open>modules/acl/cache/acl-cache.service.ts\<close> over the
  pluggable store of \<open>cache-store.ts\<close>, with the in-memory store that the gateway generator
  emits (\<open>schematics/add-gateway/files/acl/src/cache/in-memory-acl-store.ts\<close>).

  The store is an interface, so the cache's operations take the store's operations as arguments
  and the locale \<open>l2_store\<close> states what an implementation owes; the in-memory store interprets
  it. \<open>get\<close> and \<open>invalidate\<close> await the store in the middle: each half is a definition of its own,
  so that an invalidation can be placed between them.
\<close>

section \<open>Glob patterns\<close>

text \<open>\<open>globToRegExp\<close>: \<open>*\<close> is any sequence and \<open>?\<close> any character, line terminators excepted
  (they are \<open>.*\<close> and \<open>.\<close> of a regular expression without the \<open>s\<close> flag); the rest is literal.\<close>

definition dot_char :: "char \<Rightarrow> bool" where
  "dot_char c \<longleftrightarrow> c \<noteq> CHR 0x0A \<and> c \<noteq> CHR 0x0D"

function globToRegExp :: "string \<Rightarrow> string \<Rightarrow> bool" where
  "globToRegExp [] s = (s = [])"
| "globToRegExp (p # ps) s =
     (if p = CHR ''*'' then
        globToRegExp ps s \<or> (case s of [] \<Rightarrow> False | x # xs \<Rightarrow> dot_char x \<and> globToRegExp (p # ps) xs)
      else if p = CHR ''?'' then (case s of [] \<Rightarrow> False | x # xs \<Rightarrow> dot_char x \<and> globToRegExp ps xs)
      else (case s of [] \<Rightarrow> False | x # xs \<Rightarrow> p = x \<and> globToRegExp ps xs))"
  by pat_completeness auto
termination by (relation "measure (\<lambda>(p, s). length p + length s)") auto

lemma glob_star: "list_all dot_char s \<Longrightarrow> globToRegExp ''*'' s"
  by (induction s) auto

lemma glob_literal_self:
  "list_all dot_char u \<Longrightarrow> globToRegExp p s \<Longrightarrow> globToRegExp (u @ p) (u @ s)"
proof (induction u)
  case Nil
  then show ?case by simp
next
  case (Cons c u)
  then have IH: "globToRegExp (u @ p) (u @ s)" and c: "dot_char c" by simp_all
  show ?case
  proof (cases "c = CHR ''*''")
    case True
    have "globToRegExp (c # u @ p) (u @ s)" using IH True by simp
    with c True show ?thesis by simp
  next
    case False
    with IH c show ?thesis by auto
  qed
qed

section \<open>The cache\<close>

record ram_entry =
  re_v :: bool
  re_exp :: int

record 's acl_cache =
  ac_ram :: "(string, ram_entry) omap"
  ac_ramTtlMs :: int
  ac_l2TtlSec :: int
  ac_maxRamEntries :: int
  ac_gen :: nat
  ac_store :: "'s option"

record acl_cache_options =
  co_ramTtlMs :: "int option"
  co_l2TtlSec :: "int option"
  co_maxRamEntries :: "int option"

definition mkAclCache :: "acl_cache_options option \<Rightarrow> 's option \<Rightarrow> 's acl_cache" where
  "mkAclCache cfg store =
     \<lparr>ac_ram = [],
      ac_ramTtlMs = coalesce (Option.bind cfg co_ramTtlMs) 30000,
      ac_l2TtlSec = coalesce (Option.bind cfg co_l2TtlSec) 600,
      ac_maxRamEntries = coalesce (Option.bind cfg co_maxRamEntries) 50000,
      ac_gen = 0, ac_store = store\<rparr>"

definition cache_key :: "string \<Rightarrow> string \<Rightarrow> string" where
  "cache_key userId action = ''acl/'' @ userId @ ''/'' @ action"

text \<open>The eviction loop of \<open>ramSet\<close>: the front of the insertion order goes first.\<close>

fun evict :: "int \<Rightarrow> (string, ram_entry) omap \<Rightarrow> (string, ram_entry) omap" where
  "evict cap [] = []"
| "evict cap (x # xs) = (if int (length (x # xs)) > cap then evict cap xs else x # xs)"

definition ramSet :: "string \<Rightarrow> ram_entry \<Rightarrow> 's acl_cache \<Rightarrow> 's acl_cache" where
  "ramSet key entry c =
     (let ram = AList.delete key (ac_ram c) @ [(key, entry)] in
      c\<lparr>ac_ram := if ac_maxRamEntries c > 0 then evict (ac_maxRamEntries c) ram else ram\<rparr>)"

text \<open>\<open>get\<close> up to the store: the answer of the RAM tier, an expired entry dropped.\<close>

definition cache_get_ram :: "int \<Rightarrow> string \<Rightarrow> 's acl_cache \<Rightarrow> bool option \<times> 's acl_cache" where
  "cache_get_ram now key c =
     (case map_of (ac_ram c) key of
        None \<Rightarrow> (None, c)
      | Some e \<Rightarrow> if re_exp e > now then (Some (re_v e), c)
                 else (None, c\<lparr>ac_ram := AList.delete key (ac_ram c)\<rparr>))"

text \<open>\<open>get\<close> after the store's answer (\<open>Inl\<close> when it threw): a decision found there re-enters
  the RAM tier.\<close>

definition cache_get_resume :: "int \<Rightarrow> string \<Rightarrow> jserr + string option \<Rightarrow> 's acl_cache \<Rightarrow> bool option \<times> 's acl_cache" where
  "cache_get_resume now key answer c =
     (case answer of
        Inl e \<Rightarrow> (None, c)
      | Inr cached \<Rightarrow>
          if cached = Some ''1'' \<or> cached = Some ''0''
          then (Some (cached = Some ''1''),
                ramSet key \<lparr>re_v = (cached = Some ''1''), re_exp = now + ac_ramTtlMs c\<rparr> c)
          else (None, c))"

definition cache_get ::
  "(int \<Rightarrow> string \<Rightarrow> ('s, string option) eff) \<Rightarrow> int \<Rightarrow> string \<Rightarrow> string \<Rightarrow> 's acl_cache \<Rightarrow> bool option \<times> 's acl_cache" where
  "cache_get stget now userId action c =
     (let key = cache_key userId action in
      (case cache_get_ram now key c of
         (Some v, c1) \<Rightarrow> (Some v, c1)
       | (None, c1) \<Rightarrow>
           (case ac_store c1 of
              None \<Rightarrow> (None, c1)
            | Some s \<Rightarrow> (case stget now key s of (answer, s') \<Rightarrow> cache_get_resume now key answer (c1\<lparr>ac_store := Some s'\<rparr>)))))"

text \<open>A failing write to the store is logged and swallowed.\<close>

definition cache_set ::
  "(int \<Rightarrow> string \<Rightarrow> string \<Rightarrow> int \<Rightarrow> ('s, unit) eff) \<Rightarrow> int \<Rightarrow> string \<Rightarrow> string \<Rightarrow> bool \<Rightarrow> nat option \<Rightarrow> 's acl_cache \<Rightarrow> 's acl_cache" where
  "cache_set stset now userId action val seenGen c =
     (if seenGen \<noteq> None \<and> seenGen \<noteq> Some (ac_gen c) then c
      else
        let key = cache_key userId action;
            c1 = ramSet key \<lparr>re_v = val, re_exp = now + ac_ramTtlMs c\<rparr> c
        in (case ac_store c1 of
              None \<Rightarrow> c1
            | Some s \<Rightarrow> c1\<lparr>ac_store := Some (snd (stset now key (if val then ''1'' else ''0'') (ac_l2TtlSec c1) s))\<rparr>))"

definition invalidateLocalRam :: "string option \<Rightarrow> 's acl_cache \<Rightarrow> 's acl_cache" where
  "invalidateLocalRam userId c =
     (let c1 = c\<lparr>ac_gen := ac_gen c + 1\<rparr> in
      if \<not> truthy_str userId then c1\<lparr>ac_ram := []\<rparr>
      else c1\<lparr>ac_ram := filter (\<lambda>(k, e). \<not> starts_with (''acl/'' @ the userId @ ''/'') k) (ac_ram c1)\<rparr>)"

definition invalidate_store ::
  "(string \<Rightarrow> ('s, string list) eff) \<Rightarrow> (string list \<Rightarrow> ('s, unit) eff) \<Rightarrow> string option \<Rightarrow> 's \<Rightarrow> 's" where
  "invalidate_store stkeys stdel userId s =
     (let pattern = (if truthy_str userId then ''acl/'' @ the userId @ ''/*'' else ''acl/*'') in
      snd (and_then (stkeys pattern) (\<lambda>ks. if ks \<noteq> [] then stdel ks else ret ()) s))"

definition cache_invalidate ::
  "(string \<Rightarrow> ('s, string list) eff) \<Rightarrow> (string list \<Rightarrow> ('s, unit) eff) \<Rightarrow> string option \<Rightarrow> 's acl_cache \<Rightarrow> 's acl_cache" where
  "cache_invalidate stkeys stdel userId c =
     (let c1 = invalidateLocalRam userId c in
      (case ac_store c1 of None \<Rightarrow> c1 | Some s \<Rightarrow> c1\<lparr>ac_store := Some (invalidate_store stkeys stdel userId s)\<rparr>))"

section \<open>The bound of the RAM tier\<close>

lemma evict_suffix: "\<exists>ys. xs = ys @ evict cap xs"
  by (induction xs) (auto simp del: of_nat_Suc, metis append_Cons)

lemma evict_length: "cap > 0 \<Longrightarrow> int (length (evict cap xs)) \<le> cap"
  by (induction xs) auto

lemma evict_set: "set (evict cap xs) \<subseteq> set xs"
  using evict_suffix [of xs cap] by (metis Un_upper2 set_append)

lemma evict_distinct: "distinct (map fst xs) \<Longrightarrow> distinct (map fst (evict cap xs))"
  using evict_suffix [of xs cap] by (metis distinct_append map_append)

lemma evict_keeps_last: "cap > 0 \<Longrightarrow> x \<in> set (evict cap (xs @ [x]))"
  by (induction xs) auto

definition ram_ok :: "'s acl_cache \<Rightarrow> bool" where
  "ram_ok c \<longleftrightarrow> distinct (map fst (ac_ram c)) \<and>
     (ac_maxRamEntries c > 0 \<longrightarrow> int (length (ac_ram c)) \<le> ac_maxRamEntries c)"

lemma delete_distinct_append:
  "distinct (map fst m) \<Longrightarrow> distinct (map fst (AList.delete k m @ [(k, v)]))"
  by (auto simp: delete_keys distinct_removeAll)

lemma ramSet_ok: "ram_ok c \<Longrightarrow> ram_ok (ramSet k e c)"
proof -
  assume "ram_ok c"
  then have d: "distinct (map fst (AList.delete k (ac_ram c) @ [(k, e)]))"
    unfolding ram_ok_def by (blast intro: delete_distinct_append)
  show ?thesis using d evict_distinct [OF d] evict_length by (simp add: ram_ok_def ramSet_def Let_def)
qed

lemma ramSet_fields [simp]:
  "ac_gen (ramSet k e c) = ac_gen c" "ac_store (ramSet k e c) = ac_store c"
  "ac_ramTtlMs (ramSet k e c) = ac_ramTtlMs c" "ac_l2TtlSec (ramSet k e c) = ac_l2TtlSec c"
  "ac_maxRamEntries (ramSet k e c) = ac_maxRamEntries c"
  by (simp_all add: ramSet_def Let_def)

lemma ramSet_get: "ram_ok c \<Longrightarrow> map_of (ac_ram (ramSet k e c)) k = Some e"
proof -
  assume ok: "ram_ok c"
  let ?m = "AList.delete k (ac_ram c) @ [(k, e)]"
  have d: "distinct (map fst ?m)" using ok unfolding ram_ok_def by (blast intro: delete_distinct_append)
  have "(k, e) \<in> set (ac_ram (ramSet k e c))"
    using evict_keeps_last [of "ac_maxRamEntries c" "(k, e)"] by (simp add: ramSet_def Let_def)
  moreover have "distinct (map fst (ac_ram (ramSet k e c)))"
    using ramSet_ok [OF ok] by (simp add: ram_ok_def)
  ultimately show ?thesis by simp
qed

lemma ramSet_mem: "(k', e') \<in> set (ac_ram (ramSet k e c)) \<Longrightarrow> (k', e') = (k, e) \<or> (k', e') \<in> set (ac_ram c)"
  using evict_set by (fastforce simp: ramSet_def Let_def AList.delete_eq split: if_splits)

lemma cache_get_ram_ok: "ram_ok c \<Longrightarrow> ram_ok (snd (cache_get_ram now k c))"
  using om_length_delete [of k "ac_ram c"]
  by (auto simp: cache_get_ram_def ram_ok_def distinct_delete split: option.splits)

lemma cache_get_resume_ok: "ram_ok c \<Longrightarrow> ram_ok (snd (cache_get_resume now k r c))"
  by (auto simp: cache_get_resume_def ramSet_ok split: sum.splits)

lemma ram_ok_store [simp]: "ram_ok (c\<lparr>ac_store := s\<rparr>) = ram_ok c"
  by (simp add: ram_ok_def)

lemma cache_get_ok: "ram_ok c \<Longrightarrow> ram_ok (snd (cache_get stget now u a c))"
  using cache_get_ram_ok [of c now "cache_key u a"]
  by (auto simp: cache_get_def Let_def cache_get_resume_ok split: prod.splits option.splits)

lemma cache_set_ok: "ram_ok c \<Longrightarrow> ram_ok (cache_set stset now u a v g c)"
  by (auto simp: cache_set_def Let_def ramSet_ok split: option.splits)

lemma invalidateLocalRam_ok: "ram_ok c \<Longrightarrow> ram_ok (invalidateLocalRam u c)"
  by (auto simp: invalidateLocalRam_def ram_ok_def om_distinct_filter Let_def
      intro: order_trans [OF of_nat_mono [OF length_filter_le]])

lemma cache_invalidate_ok: "ram_ok c \<Longrightarrow> ram_ok (cache_invalidate stkeys stdel u c)"
  using invalidateLocalRam_ok [of c u] by (auto simp: cache_invalidate_def Let_def split: option.splits)

lemma mkAclCache_ok: "ram_ok (mkAclCache cfg store)"
  by (simp add: ram_ok_def mkAclCache_def)

lemmas cache_ops_ok = cache_get_ok cache_set_ok invalidateLocalRam_ok cache_invalidate_ok

section \<open>The contract of the store\<close>

text \<open>
  \<open>live t s k\<close> is what the store holds for \<open>k\<close> at time \<open>t\<close>, expiry taken into account. A call
  that throws may or may not have taken effect.
\<close>

locale l2_store =
  fixes stget :: "int \<Rightarrow> string \<Rightarrow> ('s, string option) eff"
    and stset :: "int \<Rightarrow> string \<Rightarrow> string \<Rightarrow> int \<Rightarrow> ('s, unit) eff"
    and stkeys :: "string \<Rightarrow> ('s, string list) eff"
    and stdel :: "string list \<Rightarrow> ('s, unit) eff"
    and live :: "int \<Rightarrow> 's \<Rightarrow> string \<Rightarrow> string option"
  assumes get_keeps: "stget now k s = (r1, s') \<Longrightarrow> now \<le> t \<Longrightarrow> live t s' = live t s"
    and get_answer: "stget now k s = (Inr x, s') \<Longrightarrow> x = live now s k"
    and set_may: "stset now k v ttl s = (r2, s') \<Longrightarrow>
      live t s' = live t s \<or> live t s' = (live t s)(k := if t < now + ttl * 1000 then Some v else None)"
    and set_does: "stset now k v ttl s = (Inr u2, s') \<Longrightarrow>
      live t s' = (live t s)(k := if t < now + ttl * 1000 then Some v else None)"
    and keys_keeps: "stkeys p s = (r3, s') \<Longrightarrow> live t s' = live t s"
    and keys_cover: "stkeys p s = (Inr ks, s') \<Longrightarrow> live t s k \<noteq> None \<Longrightarrow> globToRegExp p k \<Longrightarrow> k \<in> set ks"
    and del_shrinks: "stdel ks s = (r4, s') \<Longrightarrow> live t s' k = None \<or> live t s' k = live t s k"
    and del_does: "stdel ks s = (Inr u3, s') \<Longrightarrow> k \<in> set ks \<Longrightarrow> live t s' k = None"
begin

lemma invalidate_store_shrinks:
  "live t (invalidate_store stkeys stdel u s) k = None \<or> live t (invalidate_store stkeys stdel u s) k = live t s k"
proof -
  let ?p = "if truthy_str u then ''acl/'' @ the u @ ''/*'' else ''acl/*''"
  obtain r s1 where k: "stkeys ?p s = (r, s1)" by (cases "stkeys ?p s")
  from keys_keeps [OF k] have eq: "live t s1 = live t s" by simp
  show ?thesis
  proof (cases r)
    case (Inl e)
    with k eq show ?thesis by (simp add: invalidate_store_def)
  next
    case (Inr ks)
    obtain r2 s2 where d: "stdel ks s1 = (r2, s2)" by (cases "stdel ks s1")
    from Inr k d eq del_shrinks [OF d, of t k] show ?thesis
      by (auto simp: invalidate_store_def)
  qed
qed

lemma invalidate_store_forgets:
  assumes "stkeys (''acl/'' @ u @ ''/*'') s = (Inr ks, s1)" and "stdel ks s1 = (Inr x, s2)"
    and "u \<noteq> []" and "list_all dot_char u" and "list_all dot_char a"
  shows "live t (invalidate_store stkeys stdel (Some u) s) (cache_key u a) = None"
proof -
  have dots: "list_all dot_char (''acl/'' @ u @ ''/'')" using assms(4) by (simp add: dot_char_def)
  have m: "globToRegExp (''acl/'' @ u @ ''/*'') (cache_key u a)"
    using glob_literal_self [OF dots glob_star [OF assms(5)]] by (simp add: cache_key_def)
  show ?thesis
  proof (cases "live t s (cache_key u a) = None")
    case True
    with invalidate_store_shrinks [of t "Some u" s "cache_key u a"] show ?thesis by auto
  next
    case False
    from keys_cover [OF assms(1) False m] have ks: "cache_key u a \<in> set ks" .
    with assms del_does [OF assms(2) ks] show ?thesis by (auto simp: invalidate_store_def)
  qed
qed

text \<open>A property of all the decisions a cache can still serve from \<open>now\<close> on.\<close>

definition serves :: "int \<Rightarrow> (string \<Rightarrow> bool \<Rightarrow> bool) \<Rightarrow> 's acl_cache \<Rightarrow> bool" where
  "serves now P c \<longleftrightarrow>
     (\<forall>k e. (k, e) \<in> set (ac_ram c) \<longrightarrow> P k (re_v e)) \<and>
     (\<forall>s t k v. ac_store c = Some s \<longrightarrow> now \<le> t \<longrightarrow> live t s k = Some v \<longrightarrow> v \<in> {''1'', ''0''} \<longrightarrow> P k (v = ''1''))"

lemma serves_ram: "serves now P c \<Longrightarrow> (k, e) \<in> set (ac_ram c) \<Longrightarrow> P k (re_v e)"
  by (simp add: serves_def)

lemma serves_store:
  "serves now P c \<Longrightarrow> ac_store c = Some s \<Longrightarrow> now \<le> t \<Longrightarrow> live t s k = Some v \<Longrightarrow> v \<in> {''1'', ''0''} \<Longrightarrow> P k (v = ''1'')"
  unfolding serves_def by blast

lemma serves_later: "serves now P c \<Longrightarrow> now \<le> now' \<Longrightarrow> serves now' P c"
  unfolding serves_def by (meson order_trans)

lemma serves_ramSet: "serves now P c \<Longrightarrow> P k (re_v e) \<Longrightarrow> serves now P (ramSet k e c)"
  using ramSet_mem by (fastforce simp: serves_def)

lemma serves_get_ram:
  assumes "serves now P c" and "cache_get_ram now k c = (r, c1)"
  shows "serves now P c1 \<and> (\<forall>v. r = Some v \<longrightarrow> P k v)"
  using assms by (auto simp: cache_get_ram_def serves_def AList.delete_eq split: option.splits if_splits dest: map_of_SomeD)

lemma serves_get:
  assumes "serves now P c" and "cache_get stget now u a c = (r, c')"
  shows "serves now P c' \<and> (\<forall>v. r = Some v \<longrightarrow> P (cache_key u a) v)"
proof -
  let ?k = "cache_key u a"
  obtain r1 c1 where g: "cache_get_ram now ?k c = (r1, c1)" by (cases "cache_get_ram now ?k c")
  from serves_get_ram [OF assms(1) g] have c1: "serves now P c1" and r1: "\<And>v. r1 = Some v \<Longrightarrow> P ?k v" by auto
  show ?thesis
  proof (cases r1)
    case (Some v)
    with g assms(2) c1 r1 show ?thesis by (simp add: cache_get_def)
  next
    case None
    show ?thesis
    proof (cases "ac_store c1")
      case None
      with \<open>r1 = None\<close> g assms(2) c1 show ?thesis by (simp add: cache_get_def)
    next
      case (Some s)
      obtain ans s' where q: "stget now ?k s = (ans, s')" by (cases "stget now ?k s")
      let ?c2 = "c1\<lparr>ac_store := Some s'\<rparr>"
      have c2: "serves now P ?c2"
        using c1 Some get_keeps [OF q] by (auto simp: serves_def)
      have hit: "P ?k (v = ''1'')" if "ans = Inr (Some v)" and "v \<in> {''1'', ''0''}" for v
        using serves_store [OF c1 Some order_refl _ that(2), of ?k] get_answer [of now ?k s "Some v" s'] q that(1)
        by simp
      from Some \<open>r1 = None\<close> g q assms(2) have res: "cache_get_resume now ?k ans ?c2 = (r, c')"
        by (simp add: cache_get_def)
      show ?thesis
        using res c2 hit serves_ramSet [OF c2, of ?k]
        by (auto simp: cache_get_resume_def split: sum.splits if_splits)
    qed
  qed
qed

lemma serves_set:
  assumes "serves now P c" and "P (cache_key u a) v"
  shows "serves now P (cache_set stset now u a v g c)"
proof -
  let ?k = "cache_key u a" and ?e = "\<lparr>re_v = v, re_exp = now + ac_ramTtlMs c\<rparr>"
  have c1: "serves now P (ramSet ?k ?e c)" using assms by (intro serves_ramSet) simp_all
  show ?thesis
  proof (cases "ac_store c")
    case None
    with c1 assms show ?thesis by (simp add: cache_set_def Let_def)
  next
    case (Some s)
    let ?v = "if v then ''1'' else ''0''"
    obtain r s' where q: "stset now ?k ?v (ac_l2TtlSec c) s = (r, s')" by (cases "stset now ?k ?v (ac_l2TtlSec c) s")
    have "P k (w = ''1'')" if "now \<le> t" and "live t s' k = Some w" and "w \<in> {''1'', ''0''}" for t k w
    proof (cases "live t s' k = live t s k")
      case True
      with that assms(1) Some show ?thesis by (auto simp: serves_def)
    next
      case False
      with set_may [OF q, of t] that have "k = ?k \<and> w = ?v" by (auto split: if_splits)
      with assms(2) show ?thesis by (cases v) auto
    qed
    with c1 have "serves now P ((ramSet ?k ?e c)\<lparr>ac_store := Some s'\<rparr>)" by (auto simp: serves_def)
    with Some q assms(1) show ?thesis by (simp add: cache_set_def Let_def)
  qed
qed

lemma serves_invalidateLocalRam: "serves now P c \<Longrightarrow> serves now P (invalidateLocalRam u c)"
  by (auto simp: serves_def invalidateLocalRam_def Let_def)

lemma serves_invalidate: "serves now P c \<Longrightarrow> serves now P (cache_invalidate stkeys stdel u c)"
proof -
  assume "serves now P c"
  from serves_invalidateLocalRam [OF this, of u] have c1: "serves now P (invalidateLocalRam u c)" .
  show ?thesis
  proof (cases "ac_store (invalidateLocalRam u c)")
    case None
    with c1 show ?thesis by (simp add: cache_invalidate_def Let_def)
  next
    case (Some s)
    have "P k (v = ''1'')"
      if "now \<le> t" and "live t (invalidate_store stkeys stdel u s) k = Some v" and "v \<in> {''1'', ''0''}" for t k v
      using serves_store [OF c1 Some that(1) _ that(3), of k] invalidate_store_shrinks [of t u s k] that(2) by auto
    with c1 Some show ?thesis unfolding serves_def by (simp add: cache_invalidate_def Let_def)
  qed
qed

end

text \<open>A store whose invalidations go through.\<close>

locale reliable_l2_store = l2_store +
  assumes keys_answer: "\<exists>ks s'. stkeys p s = (Inr ks, s')"
    and del_answer: "\<exists>s'. stdel ks s = (Inr (), s')"
begin

lemma invalidate_store_drops:
  assumes "globToRegExp (if truthy_str u then ''acl/'' @ the u @ ''/*'' else ''acl/*'') k"
  shows "live t (invalidate_store stkeys stdel u s) k = None"
proof -
  let ?p = "if truthy_str u then ''acl/'' @ the u @ ''/*'' else ''acl/*''"
  obtain ks s1 where k: "stkeys ?p s = (Inr ks, s1)" using keys_answer by blast
  obtain s2 where d: "stdel ks s1 = (Inr (), s2)" using del_answer by blast
  have inv: "invalidate_store stkeys stdel u s = (if ks \<noteq> [] then s2 else s1)"
    using k d by (simp add: invalidate_store_def)
  show ?thesis
  proof (cases "live t s k = None")
    case True
    then show ?thesis using invalidate_store_shrinks [of t u s k] by auto
  next
    case False
    from keys_cover [OF k False assms] have "k \<in> set ks" .
    moreover from this have "ks \<noteq> []" by auto
    ultimately show ?thesis using inv del_does [OF d] by simp
  qed
qed

lemma serves_after_invalidate:
  assumes "serves now P c"
    and ram: "\<And>k v. P k v \<Longrightarrow> (if truthy_str u then starts_with (''acl/'' @ the u @ ''/'') k else True) \<or> Q k v"
    and l2: "\<And>k v. P k v \<Longrightarrow> globToRegExp (if truthy_str u then ''acl/'' @ the u @ ''/*'' else ''acl/*'') k \<or> Q k v"
  shows "serves now Q (cache_invalidate stkeys stdel u c)"
proof -
  let ?c = "cache_invalidate stkeys stdel u c"
  have "Q k (re_v e)" if "(k, e) \<in> set (ac_ram ?c)" for k e
    using that serves_ram [OF assms(1), of k e] ram [of k "re_v e"]
    by (auto simp: cache_invalidate_def invalidateLocalRam_def Let_def split: option.splits if_splits)
  moreover have "Q k (v = ''1'')"
    if s: "ac_store ?c = Some s" and t: "now \<le> t" and v: "live t s k = Some v" "v \<in> {''1'', ''0''}" for s t k v
  proof -
    from s obtain s0 where s0: "ac_store c = Some s0" and eq: "s = invalidate_store stkeys stdel u s0"
      by (auto simp: cache_invalidate_def invalidateLocalRam_def Let_def split: option.splits if_splits)
    from invalidate_store_drops [of u k t s0] v eq
    have ng: "\<not> globToRegExp (if truthy_str u then ''acl/'' @ the u @ ''/*'' else ''acl/*'') k" by auto
    have "live t s0 k = Some v" using invalidate_store_shrinks [of t u s0 k] v eq by auto
    from l2 [OF serves_store [OF assms(1) s0 t this v(2)]] ng show ?thesis by blast
  qed
  ultimately show ?thesis unfolding serves_def by blast
qed

end

section \<open>The in-memory store\<close>

type_synonym mem_store = "(string, string \<times> int) omap"

definition mem_get :: "int \<Rightarrow> string \<Rightarrow> (mem_store, string option) eff" where
  "mem_get now key s =
     (case map_of s key of
        None \<Rightarrow> (Inr None, s)
      | Some (v, ex) \<Rightarrow> if ex \<le> now then (Inr None, AList.delete key s) else (Inr (Some v), s))"

definition mem_set :: "int \<Rightarrow> string \<Rightarrow> string \<Rightarrow> int \<Rightarrow> (mem_store, unit) eff" where
  "mem_set now key v ttlSeconds s = (Inr (), AList.update key (v, now + ttlSeconds * 1000) s)"

definition mem_del :: "string list \<Rightarrow> (mem_store, unit) eff" where
  "mem_del ks s = (Inr (), fold AList.delete ks s)"

definition mem_keys :: "string \<Rightarrow> (mem_store, string list) eff" where
  "mem_keys p s = (Inr (filter (globToRegExp p) (map fst s)), s)"

definition mem_live :: "int \<Rightarrow> mem_store \<Rightarrow> string \<Rightarrow> string option" where
  "mem_live t s k = (case map_of s k of None \<Rightarrow> None | Some (v, ex) \<Rightarrow> if ex \<le> t then None else Some v)"

lemma fold_delete_get: "map_of (fold AList.delete ks s) k = (if k \<in> set ks then None else map_of s k)"
  by (induction ks arbitrary: s) (auto simp: om_simps)

lemma mem_live_update: "mem_live t (AList.update k (v, ex) s) = (mem_live t s)(k := if t < ex then Some v else None)"
  by (rule ext) (simp add: mem_live_def om_simps)

interpretation mem: reliable_l2_store mem_get mem_set mem_keys mem_del mem_live
proof unfold_locales
  fix now k s r s' and t :: int
  assume "mem_get now k s = (r, s')" and "now \<le> t"
  then show "mem_live t s' = mem_live t s"
    by (auto simp: mem_get_def mem_live_def om_simps fun_eq_iff split: option.splits if_splits)
next
  fix now k s x s'
  assume "mem_get now k s = (Inr x, s')"
  then show "x = mem_live now s k"
    by (auto simp: mem_get_def mem_live_def split: option.splits if_splits)
next
  fix p s ks s' t k
  assume "mem_keys p s = (Inr ks, s')" and "mem_live t s k \<noteq> None" and "globToRegExp p k"
  then show "k \<in> set ks"
    by (auto simp: mem_keys_def mem_live_def split: option.splits dest!: map_of_SomeD) (metis fst_conv image_eqI)
qed (auto simp: mem_set_def mem_del_def mem_keys_def mem_live_update mem_live_def fold_delete_get split: option.splits)

section \<open>Runs of the cache\<close>

datatype cache_op =
    OpGet int string string
  | OpSet int string string bool "nat option"
  | OpInvalidate "string option"
  | OpInvalidateRam "string option"

fun cache_step :: "cache_op \<Rightarrow> mem_store acl_cache \<Rightarrow> mem_store acl_cache" where
  "cache_step (OpGet now u a) c = snd (cache_get mem_get now u a c)"
| "cache_step (OpSet now u a v g) c = cache_set mem_set now u a v g c"
| "cache_step (OpInvalidate u) c = cache_invalidate mem_keys mem_del u c"
| "cache_step (OpInvalidateRam u) c = invalidateLocalRam u c"

fun is_invalidation :: "cache_op \<Rightarrow> bool" where
  "is_invalidation (OpInvalidate u) = True"
| "is_invalidation (OpInvalidateRam u) = True"
| "is_invalidation _ = False"

lemma cache_step_ok: "ram_ok c \<Longrightarrow> ram_ok (cache_step op c)"
  by (cases op) (simp_all add: cache_ops_ok)

lemma cache_run_ok: "ram_ok c \<Longrightarrow> ram_ok (fold cache_step ops c)"
  by (induction ops arbitrary: c) (auto simp: cache_step_ok)

lemma cache_get_ram_fields:
  "cache_get_ram now k c = (r, c') \<Longrightarrow>
   ac_gen c' = ac_gen c \<and> ac_maxRamEntries c' = ac_maxRamEntries c"
  by (auto simp: cache_get_ram_def split: option.splits if_splits)

lemma cache_get_fields:
  "ac_gen (snd (cache_get stget now u a c)) = ac_gen c \<and>
   ac_maxRamEntries (snd (cache_get stget now u a c)) = ac_maxRamEntries c"
  by (auto simp: cache_get_def Let_def cache_get_resume_def split: prod.splits option.splits sum.splits
      dest!: cache_get_ram_fields)

lemma cache_step_gen:
  "ac_gen (cache_step op c) = ac_gen c + (if is_invalidation op then 1 else 0)"
  by (cases op) (auto simp: cache_get_fields cache_set_def cache_invalidate_def invalidateLocalRam_def Let_def
      split: option.splits)

lemma cache_step_max: "ac_maxRamEntries (cache_step op c) = ac_maxRamEntries c"
  by (cases op) (auto simp: cache_get_fields cache_set_def cache_invalidate_def invalidateLocalRam_def Let_def
      split: option.splits)

lemma cache_run_gen: "ac_gen (fold cache_step ops c) = ac_gen c + length (filter is_invalidation ops)"
  by (induction ops arbitrary: c) (auto simp: cache_step_gen)

lemma cache_run_max: "ac_maxRamEntries (fold cache_step ops c) = ac_maxRamEntries c"
  by (induction ops arbitrary: c) (auto simp: cache_step_max)

fun op_time :: "cache_op \<Rightarrow> int option" where
  "op_time (OpGet now u a) = Some now"
| "op_time (OpSet now u a v g) = Some now"
| "op_time _ = None"

text \<open>The clock does not run backwards.\<close>

fun clock_ok :: "int \<Rightarrow> cache_op list \<Rightarrow> int \<Rightarrow> bool" where
  "clock_ok lo [] hi = (lo \<le> hi)"
| "clock_ok lo (op # ops) hi =
     (case op_time op of None \<Rightarrow> clock_ok lo ops hi | Some t \<Rightarrow> lo \<le> t \<and> clock_ok t ops hi)"

definition was_set :: "cache_op list \<Rightarrow> string \<Rightarrow> bool \<Rightarrow> bool" where
  "was_set ops k v \<longleftrightarrow> (\<exists>t u a g. OpSet t u a v g \<in> set ops \<and> k = cache_key u a)"

lemma run_serves:
  "\<lbrakk>mem.serves lo (was_set all_ops) c; set ops \<subseteq> set all_ops; clock_ok lo ops hi\<rbrakk> \<Longrightarrow>
   mem.serves hi (was_set all_ops) (fold cache_step ops c)"
proof (induction ops arbitrary: c lo)
  case Nil
  then show ?case by (simp add: mem.serves_later)
next
  case (Cons op ops)
  let ?P = "was_set all_ops"
  obtain t where t: "lo \<le> t" "clock_ok t ops hi" "op_time op = None \<or> op_time op = Some t"
    using Cons.prems(3) by (cases "op_time op") auto
  have c: "mem.serves t ?P c" by (rule mem.serves_later [OF Cons.prems(1) t(1)])
  have "mem.serves t ?P (cache_step op c)"
  proof (cases op)
    case (OpGet t' u a)
    obtain r c' where "cache_get mem_get t' u a c = (r, c')" by (cases "cache_get mem_get t' u a c")
    with mem.serves_get [OF c, of u a r c'] OpGet t show ?thesis by simp
  next
    case (OpSet t' u a v g)
    then have "?P (cache_key u a) v" using Cons.prems(2) unfolding was_set_def by auto
    with mem.serves_set [OF c] OpSet t show ?thesis by simp
  qed (simp_all add: mem.serves_invalidate [OF c] mem.serves_invalidateLocalRam [OF c])
  with Cons.IH [OF _ _ t(2)] Cons.prems(2) show ?case by simp
qed

section \<open>Properties\<close>

text \<open>The RAM tier never holds more than \<open>maxRamEntries\<close> decisions and never two for one
  key, whatever sequence of reads, writes and invalidations the cache goes through.\<close>

theorem acl_cache_bounded:
  assumes "0 < coalesce (Option.bind cfg co_maxRamEntries) 50000"
  shows "int (length (ac_ram (fold cache_step ops (mkAclCache cfg store)))) \<le> coalesce (Option.bind cfg co_maxRamEntries) 50000
    \<and> distinct (map fst (ac_ram (fold cache_step ops (mkAclCache cfg store))))"
  using assms cache_run_ok [OF mkAclCache_ok, of ops cfg store] cache_run_max [of ops "mkAclCache cfg store"]
  by (simp add: ram_ok_def) (simp add: mkAclCache_def)

theorem acl_cache_bounded_witness:
  "int (length (ac_ram (fold cache_step [OpSet 0 ''u'' ''a'' True None, OpSet 1 ''u'' ''b'' True None]
     (mkAclCache (Some \<lparr>co_ramTtlMs = None, co_l2TtlSec = None, co_maxRamEntries = Some 1\<rparr>) (Some []))))) \<le> 1"
  using acl_cache_bounded [of "Some \<lparr>co_ramTtlMs = None, co_l2TtlSec = None, co_maxRamEntries = Some 1\<rparr>"
    "[OpSet 0 ''u'' ''a'' True None, OpSet 1 ''u'' ''b'' True None]" "Some []"] by simp


definition cache_sample :: "mem_store acl_cache" where
  "cache_sample = cache_set mem_set 0 ''u1'' ''x'' True None (mkAclCache None (Some []))"


text \<open>C27: A decision computed before an invalidation is never written after it: when any
  invalidation ran since the generation was read, \<open>set\<close> leaves the cache as it is.\<close>

theorem stale_decision_dropped:
  assumes "\<exists>op \<in> set ops. is_invalidation op"
  shows "cache_set stset now u a v (Some (ac_gen c)) (fold cache_step ops c) = fold cache_step ops c"
proof -
  from assms have "filter is_invalidation ops \<noteq> []" by (auto simp: filter_empty_conv)
  then have "ac_gen (fold cache_step ops c) \<noteq> ac_gen c" by (simp add: cache_run_gen)
  then show ?thesis by (simp add: cache_set_def)
qed

theorem stale_decision_dropped_witness:
  "cache_set mem_set 9 ''u1'' ''x'' True (Some (ac_gen cache_sample)) (fold cache_step [OpInvalidate (Some ''u1'')] cache_sample)
   = fold cache_step [OpInvalidate (Some ''u1'')] cache_sample"
  by (rule stale_decision_dropped) simp

text \<open>The cache invents nothing: a decision it serves is the value of some earlier \<open>set\<close> for
  the same key, through any mix of expiries, evictions, store round trips and invalidations.\<close>

theorem cache_serves_what_was_set:
  assumes "clock_ok t0 ops now"
    and "fst (cache_get mem_get now u a (fold cache_step ops (mkAclCache cfg (Some [])))) = Some v"
  shows "\<exists>t u' a' g. OpSet t u' a' v g \<in> set ops \<and> cache_key u' a' = cache_key u a"
proof -
  have "mem.serves t0 (was_set ops) (mkAclCache cfg (Some []))"
    by (simp add: mem.serves_def mkAclCache_def mem_live_def)
  from run_serves [OF this order_refl assms(1)]
  have s: "mem.serves now (was_set ops) (fold cache_step ops (mkAclCache cfg (Some [])))" .
  obtain c' where "cache_get mem_get now u a (fold cache_step ops (mkAclCache cfg (Some []))) = (Some v, c')"
    using assms(2) by (metis fst_conv prod.collapse)
  from mem.serves_get [OF s this] show ?thesis unfolding was_set_def by metis
qed

theorem cache_serves_what_was_set_witness:
  "\<exists>t u' a' g. OpSet t u' a' False g \<in> set [OpSet 3 ''u'' ''x'' False None] \<and> cache_key u' a' = cache_key ''u'' ''x''"
  by (rule cache_serves_what_was_set [of 0 _ 4 _ _ None])
     (simp_all add: mkAclCache_def cache_set_def cache_get_def cache_get_ram_def ramSet_def Let_def cache_key_def)

text \<open>What \<open>get\<close> itself leaves open: a decision read from the store before an invalidation
  re-enters the RAM tier after it, and is served from there.\<close>

theorem get_resurrects_invalidated:
  "let c = cache_invalidate mem_keys mem_del (Some ''u1'') (mkAclCache None (Some [(cache_key ''u1'' ''x'', (''1'', 1000))]));
       c' = snd (cache_get_resume 10 (cache_key ''u1'' ''x'') (fst (mem_get 9 (cache_key ''u1'' ''x'') [(cache_key ''u1'' ''x'', (''1'', 1000))])) c)
   in fst (cache_get mem_get 20 ''u1'' ''x'' c) = None \<and> fst (cache_get mem_get 20 ''u1'' ''x'' c') = Some True"
proof -
  have g: "globToRegExp ''acl/u1/*'' ''acl/u1/x''" by (simp add: dot_char_def)
  show ?thesis
    using g by (simp add: mkAclCache_def cache_invalidate_def invalidateLocalRam_def invalidate_store_def mem_keys_def mem_del_def
      mem_get_def cache_get_resume_def cache_get_def cache_get_ram_def ramSet_def Let_def cache_key_def and_then_def
      del: globToRegExp.simps)
qed

end
