(* ===== verification/Acl_Repository.thy ===== *)
theory Acl_Repository
  imports Memory_Collection
begin

text \<open>
  The data model of the access-control module (\<open>modules/acl/models.ts\<close>), the contracts of its
  repositories (\<open>modules/acl/repository/*.ts\<close>, abstract classes an application implements) as
  locales, and the in-memory repositories of the gateway generator
  (\<open>schematics/add-gateway/files/acl/.../acl.repository.ts\<close>) as their interpretations.
\<close>

section \<open>Models\<close>

record acl_action =
  an_name :: string
  an_description :: "string option"

record acl_role =
  ro_name :: string
  ro_description :: "string option"
  ro_actions :: "string list"

record acl_grant =
  g_id :: "string option"
  g_userId :: string
  g_resourceId :: "string option"
  g_companyId :: "string option"
  g_friendlyName :: "string option"
  g_roles :: "string list"

text \<open>The patches the module sends to \<open>updateById\<close>: a key that is absent (\<open>None\<close>) is kept.\<close>

record grant_patch =
  gp_roles :: "string list"
  gp_companyId :: "string option option"
  gp_friendlyName :: "string option option"

definition apply_patch :: "grant_patch \<Rightarrow> acl_grant \<Rightarrow> acl_grant" where
  "apply_patch p g = g\<lparr>g_roles := gp_roles p,
     g_companyId := coalesce (gp_companyId p) (g_companyId g),
     g_friendlyName := coalesce (gp_friendlyName p) (g_friendlyName g)\<rparr>"

text \<open>\<open>{name, actions, ...(description !== undefined ? {description} : {})}\<close> over what is stored.\<close>

definition apply_role :: "acl_role \<Rightarrow> acl_role \<Rightarrow> acl_role" where
  "apply_role m r = r\<lparr>ro_actions := ro_actions m, ro_description := coalesce_opt (ro_description m) (ro_description r)\<rparr>"

definition apply_action :: "acl_action \<Rightarrow> acl_action \<Rightarrow> acl_action" where
  "apply_action m a = a\<lparr>an_description := coalesce_opt (an_description m) (an_description a)\<rparr>"

section \<open>Contracts\<close>

text \<open>\<open>gview\<close> is what the repository holds; \<open>gok\<close> is its own invariant.\<close>

locale grant_repository =
  fixes gfilter :: "string \<Rightarrow> ('g, acl_grant list) eff"
    and ginsert :: "acl_grant \<Rightarrow> ('g, acl_grant) eff"
    and gupdate :: "string \<Rightarrow> grant_patch \<Rightarrow> ('g, acl_grant option) eff"
    and gremove :: "string \<Rightarrow> ('g, acl_grant option) eff"
    and gview :: "'g \<Rightarrow> acl_grant list"
    and gok :: "'g \<Rightarrow> bool"
  assumes gfilter_law: "gok s \<Longrightarrow> gfilter u s = (r1, s') \<Longrightarrow>
      gok s' \<and> gview s' = gview s \<and> (\<forall>gs. r1 = Inr gs \<longrightarrow> gs = filter (\<lambda>g. g_userId g = u) (gview s))"
    and ginsert_law: "gok s \<Longrightarrow> g_id g = None \<Longrightarrow> ginsert g s = (r2, s') \<Longrightarrow>
      gok s' \<and> (case r2 of Inl e \<Rightarrow> gview s' = gview s
        | Inr g' \<Rightarrow> (\<exists>i. g' = g\<lparr>g_id := Some i\<rparr>) \<and> gview s' = gview s @ [g'])"
    and gupdate_law: "gok s \<Longrightarrow> gupdate i p s = (r3, s') \<Longrightarrow>
      gok s' \<and> (case r3 of Inl e \<Rightarrow> gview s' = gview s
        | Inr x \<Rightarrow> gview s' = map (\<lambda>g. if g_id g = Some i then apply_patch p g else g) (gview s))"
    and gremove_law: "gok s \<Longrightarrow> gremove i s = (r3, s') \<Longrightarrow>
      gok s' \<and> (case r3 of Inl e \<Rightarrow> gview s' = gview s
        | Inr x \<Rightarrow> gview s' = filter (\<lambda>g. g_id g \<noteq> Some i) (gview s))"
    and gids: "gok s \<Longrightarrow> distinct (map g_id (gview s)) \<and> (\<forall>g \<in> set (gview s). g_id g \<noteq> None)"

locale role_repository =
  fixes rlist :: "('r, acl_role list) eff"
    and rfilter :: "string list \<Rightarrow> ('r, acl_role list) eff"
    and rupsert :: "acl_role \<Rightarrow> ('r, acl_role) eff"
    and rremove :: "string \<Rightarrow> ('r, acl_role option) eff"
    and rview :: "'r \<Rightarrow> acl_role list"
    and rok :: "'r \<Rightarrow> bool"
  assumes rlist_law: "rok s \<Longrightarrow> rlist s = (r1, s') \<Longrightarrow>
      rok s' \<and> rview s' = rview s \<and> (\<forall>rs. r1 = Inr rs \<longrightarrow> rs = rview s)"
    and rfilter_law: "rok s \<Longrightarrow> rfilter ns s = (r1, s') \<Longrightarrow>
      rok s' \<and> rview s' = rview s \<and> (\<forall>rs. r1 = Inr rs \<longrightarrow> rs = filter (\<lambda>r. ro_name r \<in> set ns) (rview s))"
    and rupsert_law: "rok s \<Longrightarrow> rupsert m s = (r2, s') \<Longrightarrow>
      rok s' \<and> (case r2 of Inl e \<Rightarrow> rview s' = rview s
        | Inr x \<Rightarrow> rview s' = (if ro_name m \<in> ro_name ` set (rview s)
            then map (\<lambda>r. if ro_name r = ro_name m then apply_role m r else r) (rview s) else rview s @ [m]))"
    and rremove_law: "rok s \<Longrightarrow> rremove n s = (r3, s') \<Longrightarrow>
      rok s' \<and> (case r3 of Inl e \<Rightarrow> rview s' = rview s | Inr x \<Rightarrow> rview s' = filter (\<lambda>r. ro_name r \<noteq> n) (rview s))"
    and rnames: "rok s \<Longrightarrow> distinct (map ro_name (rview s))"

locale action_repository =
  fixes afilter :: "string list \<Rightarrow> ('a, acl_action list) eff"
    and aupsert :: "acl_action \<Rightarrow> ('a, acl_action) eff"
    and aremove :: "string \<Rightarrow> ('a, acl_action option) eff"
    and aview :: "'a \<Rightarrow> acl_action list"
    and aok :: "'a \<Rightarrow> bool"
  assumes afilter_law: "aok s \<Longrightarrow> afilter ns s = (r1, s') \<Longrightarrow>
      aok s' \<and> aview s' = aview s \<and> (\<forall>rs. r1 = Inr rs \<longrightarrow> rs = filter (\<lambda>a. an_name a \<in> set ns) (aview s))"
    and aupsert_law: "aok s \<Longrightarrow> aupsert m s = (r2, s') \<Longrightarrow> aok s'"
    and aremove_law: "aok s \<Longrightarrow> aremove n s = (r3, s') \<Longrightarrow> aok s'"

section \<open>Documents of grants\<close>

definition opt_str :: "string option \<Rightarrow> jval" where
  "opt_str x = (case x of None \<Rightarrow> JUndef | Some s \<Rightarrow> JStr s)"

definition str_opt :: "jval \<Rightarrow> string option" where
  "str_opt v = (case v of JStr s \<Rightarrow> Some s | _ \<Rightarrow> None)"

definition str_list :: "jval \<Rightarrow> string list" where
  "str_list v = (case v of JArr xs \<Rightarrow> map js_string xs | _ \<Rightarrow> [])"

lemma str_opt_opt_str [simp]: "str_opt (opt_str x) = x"
  by (cases x) (simp_all add: opt_str_def str_opt_def)

lemma str_list_JArr [simp]: "str_list (JArr (map JStr xs)) = xs"
  by (induction xs) (simp_all add: str_list_def)

lemma str_opt_JStr [simp]: "str_opt (JStr s) = Some s" "str_opt JUndef = None"
  by (simp_all add: str_opt_def)

definition grant_doc :: "acl_grant \<Rightarrow> doc" where
  "grant_doc g = [(''userId'', JStr (g_userId g)), (''roles'', JArr (map JStr (g_roles g))),
     (''resourceId'', opt_str (g_resourceId g)), (''companyId'', opt_str (g_companyId g)),
     (''friendlyName'', opt_str (g_friendlyName g))] @ (case g_id g of None \<Rightarrow> [] | Some i \<Rightarrow> [(''_id'', JStr i)])"

definition doc_grant :: "doc \<Rightarrow> acl_grant" where
  "doc_grant d = \<lparr>g_id = str_opt (jget (JObj d) ''_id''), g_userId = js_string (jget (JObj d) ''userId''),
     g_resourceId = str_opt (jget (JObj d) ''resourceId''), g_companyId = str_opt (jget (JObj d) ''companyId''),
     g_friendlyName = str_opt (jget (JObj d) ''friendlyName''), g_roles = str_list (jget (JObj d) ''roles'')\<rparr>"

definition patch_doc :: "grant_patch \<Rightarrow> doc" where
  "patch_doc p = [(''roles'', JArr (map JStr (gp_roles p)))] @
     (case gp_companyId p of None \<Rightarrow> [] | Some c \<Rightarrow> [(''companyId'', opt_str c)]) @
     (case gp_friendlyName p of None \<Rightarrow> [] | Some n \<Rightarrow> [(''friendlyName'', opt_str n)])"

definition mg_filter :: "string \<Rightarrow> (collection, acl_grant list) eff" where
  "mg_filter u c = (Inr (map doc_grant (col_filter [(''userId'', CEq (JStr u))] c)), c)"

definition mg_insert :: "acl_grant \<Rightarrow> (collection, acl_grant) eff" where
  "mg_insert g c = (case col_insert (grant_doc g) c of (d, c') \<Rightarrow> (Inr (doc_grant d), c'))"

definition mg_updateById :: "string \<Rightarrow> grant_patch \<Rightarrow> (collection, acl_grant option) eff" where
  "mg_updateById i p c = (case col_updateById i (patch_doc p) c of (r, c') \<Rightarrow> (Inr (map_option doc_grant r), c'))"

definition mg_removeById :: "string \<Rightarrow> (collection, acl_grant option) eff" where
  "mg_removeById i c = (case col_removeById i c of (r, c') \<Rightarrow> (Inr (map_option doc_grant r), c'))"

definition mg_view :: "collection \<Rightarrow> acl_grant list" where
  "mg_view c = map doc_grant (col_all c)"

definition user_doc :: "doc \<Rightarrow> bool" where
  "user_doc d \<longleftrightarrow> (\<exists>u. map_of d ''userId'' = Some (JStr u))"

definition mg_ok :: "collection \<Rightarrow> bool" where
  "mg_ok c \<longleftrightarrow> col_ok c \<and> (\<forall>d \<in> set (col_all c). user_doc d)"

lemma spread_single: "spread d [(k, v)] = AList.update k v d"
  by (simp add: spread_def)

lemma doc_grant_inserted:
  "g_id g = None \<Longrightarrow> doc_grant (spread (grant_doc g) [(''_id'', JStr i)]) = g\<lparr>g_id := Some i\<rparr>"
  by (cases g) (simp add: doc_grant_def grant_doc_def spread_single om_simps)

lemma patch_get:
  "map_of (spread d (patch_doc p)) k =
    (if k = ''roles'' then Some (JArr (map JStr (gp_roles p)))
     else if k = ''companyId'' \<and> gp_companyId p \<noteq> None then Some (opt_str (the (gp_companyId p)))
     else if k = ''friendlyName'' \<and> gp_friendlyName p \<noteq> None then Some (opt_str (the (gp_friendlyName p)))
     else map_of d k)"
  by (auto simp: spread_def patch_doc_def om_simps split: option.splits)

lemma doc_grant_patched:
  "map_of d ''_id'' = Some (JStr i) \<Longrightarrow> doc_grant (patched i d (patch_doc p)) = apply_patch p (doc_grant d)"
  by (auto simp: doc_grant_def patched_def spread_single om_simps patch_get apply_patch_def coalesce_def
      split: option.splits)

lemma user_doc_patched: "user_doc d \<Longrightarrow> user_doc (patched i d (patch_doc p))"
  by (auto simp: user_doc_def patched_def spread_single om_simps patch_get)

lemma col_id: "col_ok c \<Longrightarrow> (i, d) \<in> set (mc_items c) \<Longrightarrow> g_id (doc_grant d) = Some i"
  by (auto simp: col_ok_def doc_grant_def)

lemma matches_user: "user_doc d \<Longrightarrow> matches d [(''userId'', CEq (JStr u))] \<longleftrightarrow> g_userId (doc_grant d) = u"
  by (auto simp: matches_def user_doc_def doc_grant_def)

lemma mg_view_items: "mg_view c = map (\<lambda>(i, d). doc_grant d) (mc_items c)"
  by (simp add: mg_view_def col_all_def split_beta)

lemma mg_ids: "col_ok c \<Longrightarrow> map g_id (mg_view c) = map (\<lambda>(i, d). Some i) (mc_items c)"
  by (auto simp: mg_view_items col_id)

lemma mg_filter_view:
  assumes "mg_ok c"
  shows "map doc_grant (col_filter [(''userId'', CEq (JStr u))] c) = filter (\<lambda>g. g_userId g = u) (mg_view c)"
proof -
  have "filter (\<lambda>v. matches v [(''userId'', CEq (JStr u))]) (col_all c) = filter (\<lambda>v. g_userId (doc_grant v) = u) (col_all c)"
    using assms by (intro filter_cong) (auto simp: mg_ok_def matches_user)
  then show ?thesis by (simp add: col_filter_def mg_view_def filter_map comp_def col_all_def)
qed

lemma mg_insert_view:
  assumes "mg_ok c" and "g_id g = None" and "mg_insert g c = (r, c')"
  shows "mg_ok c' \<and> (\<exists>i. r = Inr (g\<lparr>g_id := Some i\<rparr>) \<and> mg_view c' = mg_view c @ [g\<lparr>g_id := Some i\<rparr>])"
proof -
  have n: "nullish (jget (JObj (grant_doc g)) ''_id'')" using assms(2) by (simp add: grant_doc_def)
  have ok: "col_ok c" using assms(1) by (simp add: mg_ok_def)
  let ?d = "spread (grant_doc g) [(''_id'', JStr (nextId (mc_seq c)))]"
  have u: "user_doc ?d" by (simp add: user_doc_def spread_single om_simps grant_doc_def)
  show ?thesis
    using assms col_insert_fresh [OF ok n] col_insert_ok [OF ok n] u doc_grant_inserted [OF assms(2)]
    by (auto simp: mg_insert_def mg_ok_def mg_view_def col_all_def)
qed

lemma mg_update_view:
  assumes "mg_ok c" and "mg_updateById i p c = (r, c')"
  shows "mg_ok c' \<and> mg_view c' = map (\<lambda>g. if g_id g = Some i then apply_patch p g else g) (mg_view c)"
proof -
  have ok: "col_ok c" using assms(1) by (simp add: mg_ok_def)
  show ?thesis
  proof (cases "map_of (mc_items c) i")
    case None
    have "mg_view c = map (\<lambda>g. if g_id g = Some i then apply_patch p g else g) (mg_view c)"
    proof (rule map_idI [symmetric])
      fix g assume "g \<in> set (mg_view c)"
      then obtain j d where "(j, d) \<in> set (mc_items c)" and "g = doc_grant d" by (auto simp: mg_view_items)
      with col_id [OF ok] None show "(if g_id g = Some i then apply_patch p g else g) = g"
        by (force simp: map_of_eq_None_iff)
    qed
    with None assms show ?thesis by (simp add: mg_updateById_def col_updateById_def)
  next
    case (Some v)
    then have vin: "(i, v) \<in> set (mc_items c)" by (rule map_of_SomeD)
    have iin: "i \<in> fst ` set (mc_items c)" using vin by (rule rev_image_eqI) simp
    have d: "distinct (map fst (mc_items c))" and vid: "map_of v ''_id'' = Some (JStr i)"
      using ok vin by (auto simp: col_ok_def)
    let ?v = "patched i v (patch_doc p)"
    have upd: "AList.update i ?v (mc_items c) = map (\<lambda>(k', v'). (k', if k' = i then ?v else v')) (mc_items c)"
      by (rule update_map [OF d iin])
    have same: "v' = v" if "(i, v') \<in> set (mc_items c)" for v' using that Some d by auto
    have "mg_view (c\<lparr>mc_items := AList.update i ?v (mc_items c)\<rparr>) = map (\<lambda>g. if g_id g = Some i then apply_patch p g else g) (mg_view c)"
      unfolding mg_view_items using same col_id [OF ok] doc_grant_patched [OF vid]
      by (auto simp: upd)
    moreover have "\<forall>d \<in> set (col_all (c\<lparr>mc_items := AList.update i ?v (mc_items c)\<rparr>)). user_doc d"
      using assms(1) vin unfolding mg_ok_def by (fastforce simp: upd col_all_def intro: user_doc_patched)
    ultimately show ?thesis using assms Some col_updateById_ok [OF ok, of i "patch_doc p"]
      by (auto simp: mg_updateById_def col_updateById_def mg_ok_def)
  qed
qed

lemma mg_remove_view:
  assumes "mg_ok c" and "mg_removeById i c = (r, c')"
  shows "mg_ok c' \<and> mg_view c' = filter (\<lambda>g. g_id g \<noteq> Some i) (mg_view c)"
proof -
  have ok: "col_ok c" using assms(1) by (simp add: mg_ok_def)
  have view: "filter (\<lambda>g. g_id g \<noteq> Some i) (mg_view c) = map (\<lambda>(j, d). doc_grant d) (AList.delete i (mc_items c))"
    using col_id [OF ok]
    by (auto simp: mg_view_items AList.delete_eq filter_map comp_def split_beta intro!: arg_cong [where f = "map _"] filter_cong)
  have items: "mc_items c' = AList.delete i (mc_items c)"
    using assms(2) by (auto simp: mg_removeById_def col_removeById_def om_delete_absent map_of_eq_None_iff split: option.splits)
  have "col_ok c'" using col_removeById_ok [OF ok, of i] assms(2) by (auto simp: mg_removeById_def split: prod.splits)
  moreover have "\<forall>d \<in> set (col_all c'). user_doc d"
    using assms(1) by (auto simp: items mg_ok_def col_all_def AList.delete_eq)
  ultimately show ?thesis by (simp add: view mg_ok_def mg_view_items [of c'] items)
qed

interpretation mem_grants: grant_repository mg_filter mg_insert mg_updateById mg_removeById mg_view mg_ok
proof unfold_locales
  fix s u and r1 :: "jserr + acl_grant list" and s'
  assume "mg_ok s" and "mg_filter u s = (r1, s')"
  with mg_filter_view [of s u]
  show "mg_ok s' \<and> mg_view s' = mg_view s \<and> (\<forall>gs. r1 = Inr gs \<longrightarrow> gs = filter (\<lambda>g. g_userId g = u) (mg_view s))"
    by (auto simp: mg_filter_def)
next
  fix s g and r2 :: "jserr + acl_grant" and s'
  assume "mg_ok s" and "g_id g = None" and "mg_insert g s = (r2, s')"
  from mg_insert_view [OF this]
  show "mg_ok s' \<and> (case r2 of Inl e \<Rightarrow> mg_view s' = mg_view s
    | Inr g' \<Rightarrow> (\<exists>i. g' = g\<lparr>g_id := Some i\<rparr>) \<and> mg_view s' = mg_view s @ [g'])" by auto
next
  fix s i p and r3 :: "jserr + acl_grant option" and s'
  assume a: "mg_ok s" and "mg_updateById i p s = (r3, s')"
  moreover from this obtain x where "r3 = Inr x" by (auto simp: mg_updateById_def split: prod.splits)
  ultimately show "mg_ok s' \<and> (case r3 of Inl e \<Rightarrow> mg_view s' = mg_view s
    | Inr x \<Rightarrow> mg_view s' = map (\<lambda>g. if g_id g = Some i then apply_patch p g else g) (mg_view s))"
    using mg_update_view [of s i p r3 s'] by simp
next
  fix s i and r3 :: "jserr + acl_grant option" and s'
  assume "mg_ok s" and "mg_removeById i s = (r3, s')"
  moreover from this obtain x where "r3 = Inr x" by (auto simp: mg_removeById_def split: prod.splits)
  ultimately show "mg_ok s' \<and> (case r3 of Inl e \<Rightarrow> mg_view s' = mg_view s
    | Inr x \<Rightarrow> mg_view s' = filter (\<lambda>g. g_id g \<noteq> Some i) (mg_view s))"
    using mg_remove_view [of s i r3 s'] by simp
next
  fix s assume "mg_ok s"
  then have ok: "col_ok s" by (simp add: mg_ok_def)
  have "distinct (map (\<lambda>(i, d). Some i) (mc_items s))"
    using ok by (auto simp: col_ok_def distinct_map inj_on_def split_beta)
  moreover have "\<forall>g \<in> set (mg_view s). g_id g \<noteq> None"
    using col_id [OF ok] by (auto simp: mg_view_items)
  ultimately show "distinct (map g_id (mg_view s)) \<and> (\<forall>g \<in> set (mg_view s). g_id g \<noteq> None)"
    by (simp add: mg_ids [OF ok])
qed

section \<open>Documents of roles and actions\<close>

text \<open>Both are keyed by their \<open>name\<close>; the collection's own id stays internal.\<close>

definition dname :: "doc \<Rightarrow> string" where
  "dname d = js_string (jget (JObj d) ''name'')"

definition named_doc :: "doc \<Rightarrow> bool" where
  "named_doc d \<longleftrightarrow> map_of d ''name'' = Some (JStr (dname d))"

definition named_ok :: "collection \<Rightarrow> bool" where
  "named_ok c \<longleftrightarrow> col_ok c \<and> [] \<notin> fst ` set (mc_items c) \<and> (\<forall>d \<in> set (col_all c). named_doc d) \<and>
     distinct (map dname (col_all c))"

definition own_id :: "doc \<Rightarrow> string" where
  "own_id d = js_string (jget (JObj d) ''_id'')"

lemma named_okD:
  assumes "named_ok c" and "(i, d) \<in> set (mc_items c)"
  shows "i \<noteq> []" and "named_doc d" and "own_id d = i" and "d \<in> set (col_all c)"
proof -
  have i: "i \<in> fst ` set (mc_items c)" using assms(2) by (rule rev_image_eqI) simp
  show d: "d \<in> set (col_all c)" unfolding col_all_def set_map using assms(2) by (rule rev_image_eqI) simp
  show "i \<noteq> []" using assms(1) i unfolding named_ok_def by metis
  show "named_doc d" using assms(1) d by (simp add: named_ok_def)
  have "map_of d ''_id'' = Some (JStr i)" using assms unfolding named_ok_def col_ok_def by blast
  then show "own_id d = i" by (simp add: own_id_def)
qed

definition by_name :: "string \<Rightarrow> filt" where
  "by_name n = [(''name'', CEq (JStr n))]"

lemma matches_by_name: "named_doc d \<Longrightarrow> matches d (by_name n) \<longleftrightarrow> dname d = n"
  by (auto simp: matches_def by_name_def named_doc_def)

lemma matches_in_names: "named_doc d \<Longrightarrow> matches d [(''name'', CIn (map JStr ns))] \<longleftrightarrow> dname d \<in> set ns"
  by (auto simp: matches_def named_doc_def)

lemma find_name:
  assumes "named_ok c"
  shows "find (\<lambda>(i, v). matches v (by_name n)) (mc_items c) = find (\<lambda>(i, v). dname v = n) (mc_items c)"
  using named_okD [OF assms] by (intro find_cong) (auto simp: matches_by_name)

lemma named_found:
  assumes "named_ok c" and "find (\<lambda>(i, v). dname v = n) (mc_items c) = Some (i, v)"
  shows "(i, v) \<in> set (mc_items c)" and "dname v = n"
    and "(j, w) \<in> set (mc_items c) \<Longrightarrow> dname w = n \<longleftrightarrow> j = i"
proof -
  from find_pair [OF assms(2)] show iv: "(i, v) \<in> set (mc_items c)" and n: "dname v = n" by auto
  assume jw: "(j, w) \<in> set (mc_items c)"
  have d: "distinct (map fst (mc_items c))" using assms(1) by (simp add: named_ok_def col_ok_def)
  have inj: "inj_on dname (set (col_all c))" using assms(1) by (simp add: named_ok_def distinct_map)
  have "j = i" if "dname w = n"
  proof -
    have "w = v" using inj named_okD(4) [OF assms(1) iv] named_okD(4) [OF assms(1) jw] n that by (simp add: inj_on_def)
    with named_okD(3) [OF assms(1) iv] named_okD(3) [OF assms(1) jw] show ?thesis by simp
  qed
  moreover have "w = v" if "j = i" using d iv jw that by (auto simp: eq_key_imp_eq_value)
  ultimately show "dname w = n \<longleftrightarrow> j = i" using n by blast
qed

lemma named_absent:
  assumes "find (\<lambda>(i, v). dname v = n) (mc_items c) = None"
  shows "n \<notin> dname ` set (col_all c)"
  using assms by (force simp: find_None_iff col_all_def)

lemma named_upsert_docs:
  assumes "named_ok c" and "nullish (jget (JObj p) ''_id'')"
  shows "col_all (snd (col_upsertOne (by_name n) p c)) =
    (if n \<in> dname ` set (col_all c)
     then map (\<lambda>d. if dname d = n then patched (own_id d) d p else d) (col_all c)
     else col_all c @ [spread p [(''_id'', JStr (nextId (mc_seq c)))]])"
proof (cases "find (\<lambda>(i, v). dname v = n) (mc_items c)")
  case None
  moreover have "findId (by_name n) c = None" using None find_name [OF assms(1)] by (simp add: findId_def)
  ultimately show ?thesis using assms col_insert_fresh [OF _ assms(2), of c] named_absent [OF None]
    by (simp add: col_upsertOne_def named_ok_def col_all_def)
next
  case (Some iv)
  obtain i v where iv: "iv = (i, v)" by (cases iv)
  note found = named_found [OF assms(1) Some [unfolded iv]]
  have d: "distinct (map fst (mc_items c))" using assms(1) by (simp add: named_ok_def col_ok_def)
  have iin: "i \<in> fst ` set (mc_items c)" using found(1) by (rule rev_image_eqI) simp
  have get: "map_of (mc_items c) i = Some v" using d found(1) by simp
  have id: "findId (by_name n) c = Some i" using Some iv find_name [OF assms(1)] by (simp add: findId_def)
  have "n \<in> dname ` set (col_all c)" using found(2) named_okD(4) [OF assms(1) found(1)] by blast
  moreover have "map snd (AList.update i (patched i v p) (mc_items c)) =
      map (\<lambda>d. if dname d = n then patched (own_id d) d p else d) (map snd (mc_items c))"
    unfolding update_map [OF d iin] map_map
  proof (rule map_cong [OF refl])
    fix x assume x: "x \<in> set (mc_items c)"
    obtain j w where jw: "x = (j, w)" by (cases x)
    have "w = v" if "j = i" using d x jw that found(1) by (auto simp: eq_key_imp_eq_value)
    then show "(snd \<circ> (\<lambda>(k', v'). (k', if k' = i then patched i v p else v'))) x =
        ((\<lambda>d. if dname d = n then patched (own_id d) d p else d) \<circ> snd) x"
      using found(3) [of j w] named_okD(3) [OF assms(1), of j w] x jw by auto
  qed
  ultimately show ?thesis using named_okD(1) [OF assms(1) found(1)] id get
    by (simp add: col_upsertOne_def col_updateById_def col_all_def truthy_str_def)
qed

lemma named_upsert_keys:
  assumes "named_ok c" and "nullish (jget (JObj p) ''_id'')"
  shows "[] \<notin> fst ` set (mc_items (snd (col_upsertOne f p c)))"
proof (cases "truthy_str (findId f c)")
  case True
  then obtain i where "findId f c = Some i" and "i \<noteq> []" by (cases "findId f c") auto
  with True assms(1) show ?thesis
    by (auto simp: named_ok_def col_upsertOne_def col_updateById_def update_fst split: option.splits)
next
  case False
  have ok: "col_ok c" using assms(1) by (simp add: named_ok_def)
  from False assms(1) col_insert_fresh [OF ok assms(2)] nextId_nonempty [of "mc_seq c", symmetric] show ?thesis
    by (auto simp: named_ok_def col_upsertOne_def)
qed

lemma named_upsert_ok:
  assumes "named_ok c" and "nullish (jget (JObj p) ''_id'')" and "distinct (map fst p)" and "map_of p ''name'' = Some (JStr n)"
  shows "named_ok (snd (col_upsertOne (by_name n) p c))"
proof -
  have pn: "dname (patched i d p) = n" "named_doc (patched i d p)" for i d
    using assms(3,4) by (simp_all add: dname_def named_doc_def patched_def spread_single om_simps spread_get_distinct)
  have sn: "dname (spread p [(''_id'', JStr i)]) = n" "named_doc (spread p [(''_id'', JStr i)])" for i
    using assms(4) by (simp_all add: dname_def named_doc_def spread_single om_simps)
  have same: "dname \<circ> (\<lambda>d. if dname d = n then patched (own_id d) d p else d) = dname"
    by (auto simp: fun_eq_iff pn)
  have docs: "(\<forall>d \<in> set (col_all (snd (col_upsertOne (by_name n) p c))). named_doc d) \<and>
      distinct (map dname (col_all (snd (col_upsertOne (by_name n) p c))))"
    unfolding named_upsert_docs [OF assms(1,2)] using assms(1) pn sn
    by (auto simp: named_ok_def same)
  with col_upsertOne_ok [OF _ assms(2), of c "by_name n"] named_upsert_keys [OF assms(1,2)] assms(1)
  show ?thesis by (simp add: named_ok_def)
qed

lemma named_remove_items:
  assumes "named_ok c"
  shows "mc_items (snd (col_removeOne (by_name n) c)) = filter (\<lambda>(i, d). dname d \<noteq> n) (mc_items c)"
proof (cases "find (\<lambda>(i, v). dname v = n) (mc_items c)")
  case None
  from None have "filter (\<lambda>(i, d). dname d \<noteq> n) (mc_items c) = mc_items c"
    by (auto simp: filter_id_conv find_None_iff)
  with None find_name [OF assms] show ?thesis by (simp add: col_removeOne_def)
next
  case (Some iv)
  obtain i v where iv: "iv = (i, v)" by (cases iv)
  note found = named_found [OF assms Some [unfolded iv]]
  have "AList.delete i (mc_items c) = filter (\<lambda>(i, d). dname d \<noteq> n) (mc_items c)"
    unfolding AList.delete_eq using found(3) by (intro filter_cong) auto
  with Some iv find_name [OF assms] show ?thesis by (simp add: col_removeOne_def)
qed

lemma snd_filter: "map snd (filter (\<lambda>(i, d). P d) m) = filter P (map snd m)"
  by (induction m) auto

lemma named_remove_docs:
  "named_ok c \<Longrightarrow> col_all (snd (col_removeOne (by_name n) c)) = filter (\<lambda>d. dname d \<noteq> n) (col_all c)"
  by (simp add: col_all_def named_remove_items snd_filter)

lemma named_remove_ok: "named_ok c \<Longrightarrow> named_ok (snd (col_removeOne (by_name n) c))"
  using named_remove_docs [of c n] col_removeOne_ok [of c "by_name n"] named_remove_items [of c n]
  by (auto simp: named_ok_def distinct_map_filter)

lemma named_filter_docs:
  "named_ok c \<Longrightarrow> col_filter [(''name'', CIn (map JStr ns))] c = filter (\<lambda>d. dname d \<in> set ns) (col_all c)"
  unfolding col_filter_def col_all_def [symmetric]
  by (intro filter_cong) (auto simp: named_ok_def matches_in_names)

definition role_doc :: "acl_role \<Rightarrow> doc" where
  "role_doc r = [(''name'', JStr (ro_name r)), (''actions'', JArr (map JStr (ro_actions r)))] @
     (case ro_description r of None \<Rightarrow> [] | Some s \<Rightarrow> [(''description'', JStr s)])"

definition doc_role :: "doc \<Rightarrow> acl_role" where
  "doc_role d = \<lparr>ro_name = dname d, ro_description = str_opt (jget (JObj d) ''description''),
     ro_actions = str_list (jget (JObj d) ''actions'')\<rparr>"

definition mr_list :: "(collection, acl_role list) eff" where
  "mr_list c = (Inr (map doc_role (col_all c)), c)"

definition mr_filter :: "string list \<Rightarrow> (collection, acl_role list) eff" where
  "mr_filter ns c = (Inr (map doc_role (col_filter [(''name'', CIn (map JStr ns))] c)), c)"

definition mr_upsert :: "acl_role \<Rightarrow> (collection, acl_role) eff" where
  "mr_upsert m c = (case col_upsertOne (by_name (ro_name m)) (role_doc m) c of (d, c') \<Rightarrow> (Inr (doc_role d), c'))"

definition mr_remove :: "string \<Rightarrow> (collection, acl_role option) eff" where
  "mr_remove n c = (case col_removeOne (by_name n) c of (d, c') \<Rightarrow> (Inr (map_option doc_role d), c'))"

definition mr_getActionsByNames :: "string list \<Rightarrow> collection \<Rightarrow> string list" where
  "mr_getActionsByNames ns c =
     (if ns = [] then []
      else dedup (concat (map (\<lambda>d. ro_actions (doc_role d)) (col_filter [(''name'', CIn (map JStr ns))] c))))"

definition mr_view :: "collection \<Rightarrow> acl_role list" where
  "mr_view c = map doc_role (col_all c)"

lemma role_doc_get:
  "map_of (role_doc r) k = (if k = ''name'' then Some (JStr (ro_name r))
     else if k = ''actions'' then Some (JArr (map JStr (ro_actions r)))
     else if k = ''description'' then map_option JStr (ro_description r) else None)"
  by (auto simp: role_doc_def split: option.splits)

lemma role_doc_distinct: "distinct (map fst (role_doc r))"
  by (auto simp: role_doc_def split: option.splits)

lemma doc_role_new: "doc_role (spread (role_doc r) [(''_id'', JStr i)]) = r"
  by (cases r) (auto simp: doc_role_def dname_def spread_single om_simps role_doc_get split: option.splits)

lemma doc_role_patched: "dname d = ro_name r \<Longrightarrow> doc_role (patched i d (role_doc r)) = apply_role r (doc_role d)"
  by (auto simp: doc_role_def patched_def spread_single om_simps spread_get_distinct [OF role_doc_distinct] role_doc_get
      dname_def apply_role_def coalesce_opt_def split: option.splits)

lemma doc_role_name [simp]: "ro_name (doc_role d) = dname d"
  by (simp add: doc_role_def)

lemma mr_view_names: "ro_name ` set (mr_view c) = dname ` set (col_all c)"
  by (simp add: mr_view_def image_image)

lemma mr_upsert_view:
  assumes "named_ok c" and "mr_upsert m c = (r, c')"
  shows "named_ok c' \<and> (\<exists>x. r = Inr x) \<and> mr_view c' = (if ro_name m \<in> ro_name ` set (mr_view c)
    then map (\<lambda>r. if ro_name r = ro_name m then apply_role m r else r) (mr_view c) else mr_view c @ [m])"
proof -
  have n: "nullish (jget (JObj (role_doc m)) ''_id'')" by (simp add: role_doc_get)
  have c': "c' = snd (col_upsertOne (by_name (ro_name m)) (role_doc m) c)" and r: "\<exists>x. r = Inr x"
    using assms(2) by (auto simp: mr_upsert_def split: prod.splits)
  have nm: "map_of (role_doc m) ''name'' = Some (JStr (ro_name m))" by (simp add: role_doc_get)
  have "mr_view c' = (if ro_name m \<in> dname ` set (col_all c)
      then map (\<lambda>r. if ro_name r = ro_name m then apply_role m r else r) (mr_view c) else mr_view c @ [m])"
    unfolding c' mr_view_def named_upsert_docs [OF assms(1) n]
    by (simp add: doc_role_new doc_role_patched)
  with r named_upsert_ok [OF assms(1) n role_doc_distinct nm] show ?thesis by (simp add: c' mr_view_names)
qed

lemma mr_remove_view:
  assumes "named_ok c" and "mr_remove n c = (r, c')"
  shows "named_ok c' \<and> (\<exists>x. r = Inr x) \<and> mr_view c' = filter (\<lambda>r. ro_name r \<noteq> n) (mr_view c)"
  using assms(2) named_remove_ok [OF assms(1), of n] named_remove_docs [OF assms(1), of n]
  by (auto simp: mr_remove_def mr_view_def filter_map comp_def split: prod.splits)

lemma mr_filter_view:
  "named_ok c \<Longrightarrow>
   map doc_role (col_filter [(''name'', CIn (map JStr ns))] c) = filter (\<lambda>r. ro_name r \<in> set ns) (mr_view c)"
  by (simp add: named_filter_docs mr_view_def filter_map comp_def)

interpretation mem_roles: role_repository mr_list mr_filter mr_upsert mr_remove mr_view named_ok
proof unfold_locales
  fix s and r1 :: "jserr + acl_role list" and s'
  assume "named_ok s" and "mr_list s = (r1, s')"
  then show "named_ok s' \<and> mr_view s' = mr_view s \<and> (\<forall>rs. r1 = Inr rs \<longrightarrow> rs = mr_view s)"
    by (auto simp: mr_list_def mr_view_def)
next
  fix s ns and r1 :: "jserr + acl_role list" and s'
  assume "named_ok s" and "mr_filter ns s = (r1, s')"
  with mr_filter_view [of s ns]
  show "named_ok s' \<and> mr_view s' = mr_view s \<and> (\<forall>rs. r1 = Inr rs \<longrightarrow> rs = filter (\<lambda>r. ro_name r \<in> set ns) (mr_view s))"
    by (auto simp: mr_filter_def)
next
  fix s m and r2 :: "jserr + acl_role" and s'
  assume "named_ok s" and "mr_upsert m s = (r2, s')"
  from mr_upsert_view [OF this]
  show "named_ok s' \<and> (case r2 of Inl e \<Rightarrow> mr_view s' = mr_view s
    | Inr x \<Rightarrow> mr_view s' = (if ro_name m \<in> ro_name ` set (mr_view s)
        then map (\<lambda>r. if ro_name r = ro_name m then apply_role m r else r) (mr_view s) else mr_view s @ [m]))" by auto
next
  fix s n and r3 :: "jserr + acl_role option" and s'
  assume "named_ok s" and "mr_remove n s = (r3, s')"
  from mr_remove_view [OF this]
  show "named_ok s' \<and> (case r3 of Inl e \<Rightarrow> mr_view s' = mr_view s | Inr x \<Rightarrow> mr_view s' = filter (\<lambda>r. ro_name r \<noteq> n) (mr_view s))"
    by auto
next
  fix s assume "named_ok s"
  then show "distinct (map ro_name (mr_view s))"
    by (simp add: named_ok_def mr_view_def comp_def)
qed

definition action_doc :: "acl_action \<Rightarrow> doc" where
  "action_doc a = [(''name'', JStr (an_name a))] @ (case an_description a of None \<Rightarrow> [] | Some s \<Rightarrow> [(''description'', JStr s)])"

definition doc_action :: "doc \<Rightarrow> acl_action" where
  "doc_action d = \<lparr>an_name = dname d, an_description = str_opt (jget (JObj d) ''description'')\<rparr>"

definition ma_filter :: "string list \<Rightarrow> (collection, acl_action list) eff" where
  "ma_filter ns c = (Inr (map doc_action (col_filter [(''name'', CIn (map JStr ns))] c)), c)"

definition ma_upsert :: "acl_action \<Rightarrow> (collection, acl_action) eff" where
  "ma_upsert m c = (case col_upsertOne (by_name (an_name m)) (action_doc m) c of (d, c') \<Rightarrow> (Inr (doc_action d), c'))"

definition ma_remove :: "string \<Rightarrow> (collection, acl_action option) eff" where
  "ma_remove n c = (case col_removeOne (by_name n) c of (d, c') \<Rightarrow> (Inr (map_option doc_action d), c'))"

definition ma_view :: "collection \<Rightarrow> acl_action list" where
  "ma_view c = map doc_action (col_all c)"

lemma action_doc_facts:
  "nullish (jget (JObj (action_doc a)) ''_id'')" "distinct (map fst (action_doc a))"
  "map_of (action_doc a) ''name'' = Some (JStr (an_name a))"
  by (auto simp: action_doc_def split: option.splits)

interpretation mem_actions: action_repository ma_filter ma_upsert ma_remove ma_view named_ok
proof unfold_locales
  fix s ns and r1 :: "jserr + acl_action list" and s'
  assume ok: "named_ok s" and q: "ma_filter ns s = (r1, s')"
  from ok q show "named_ok s' \<and> ma_view s' = ma_view s \<and> (\<forall>rs. r1 = Inr rs \<longrightarrow> rs = filter (\<lambda>a. an_name a \<in> set ns) (ma_view s))"
    by (auto simp: ma_filter_def ma_view_def named_filter_docs filter_map comp_def doc_action_def)
next
  fix s m and r2 :: "jserr + acl_action" and s'
  assume "named_ok s" and "ma_upsert m s = (r2, s')"
  then show "named_ok s'"
    using named_upsert_ok [of s "action_doc m" "an_name m"] action_doc_facts [of m] by (auto simp: ma_upsert_def split: prod.splits)
next
  fix s n and r3 :: "jserr + acl_action option" and s'
  assume "named_ok s" and "ma_remove n s = (r3, s')"
  then show "named_ok s'" using named_remove_ok [of s n] by (auto simp: ma_remove_def split: prod.splits)
qed

end
