(* ===== verification/Acl_Service.thy ===== *)
theory Acl_Service
  imports Acl_Cache Acl_Repository
begin

text \<open>
  The access check: \<open>modules/acl/auth-match.ts\<close> and \<open>modules/acl/services/acl.service.ts\<close>. The
  repositories and the cache store are arguments (\<open>acl_deps\<close>); the locale \<open>acl_system\<close>
  collects their contracts, and the in-memory implementations interpret it.

  The reference is \<open>authorized\<close>, a statement about the grants and roles the database holds.
  \<open>coherent\<close> says that whatever the caches can still serve agrees with it; a check run in a
  coherent world answers what the database says and leaves the world coherent.
\<close>

section \<open>Matching grants\<close>

record acl_ctx =
  cx_companyId :: "string option"
  cx_resourceId :: "string option"

definition norm :: "string option \<Rightarrow> string option" where
  "norm v = (if v = None \<or> v = Some [] then None else v)"

definition grantMatchesResource :: "acl_grant \<Rightarrow> acl_ctx option \<Rightarrow> bool" where
  "grantMatchesResource g ctx \<longleftrightarrow>
     norm (g_companyId g) = norm (Option.bind ctx cx_companyId) \<and>
     norm (g_resourceId g) = norm (Option.bind ctx cx_resourceId)"

definition authorized :: "acl_role list \<Rightarrow> acl_grant list \<Rightarrow> string \<Rightarrow> acl_ctx option \<Rightarrow> string list \<Rightarrow> bool" where
  "authorized roles grants u ctx acts \<longleftrightarrow>
     (\<exists>g \<in> set grants. g_userId g = u \<and> (ctx = None \<or> grantMatchesResource g ctx) \<and>
        (\<exists>r \<in> set roles. ro_name r \<in> set (g_roles g) \<and> (\<exists>a \<in> set (ro_actions r). a \<in> set acts)))"

section \<open>The world of the service\<close>

record ('g, 'r, 'a, 's) acl_deps =
  d_gfilter :: "string \<Rightarrow> ('g, acl_grant list) eff"
  d_ginsert :: "acl_grant \<Rightarrow> ('g, acl_grant) eff"
  d_gupdate :: "string \<Rightarrow> grant_patch \<Rightarrow> ('g, acl_grant option) eff"
  d_gremove :: "string \<Rightarrow> ('g, acl_grant option) eff"
  d_rlist :: "('r, acl_role list) eff"
  d_rfilter :: "string list \<Rightarrow> ('r, acl_role list) eff"
  d_rupsert :: "acl_role \<Rightarrow> ('r, acl_role) eff"
  d_rremove :: "string \<Rightarrow> ('r, acl_role option) eff"
  d_afilter :: "string list \<Rightarrow> ('a, acl_action list) eff"
  d_aupsert :: "acl_action \<Rightarrow> ('a, acl_action) eff"
  d_aremove :: "string \<Rightarrow> ('a, acl_action option) eff"
  d_stget :: "int \<Rightarrow> string \<Rightarrow> ('s, string option) eff"
  d_stset :: "int \<Rightarrow> string \<Rightarrow> string \<Rightarrow> int \<Rightarrow> ('s, unit) eff"
  d_stkeys :: "string \<Rightarrow> ('s, string list) eff"
  d_stdel :: "string list \<Rightarrow> ('s, unit) eff"

record ('g, 'r, 'a, 's) acl_world =
  aw_grants :: 'g
  aw_roles :: 'r
  aw_actions :: 'a
  aw_cache :: "'s acl_cache"
  aw_rolesCache :: "(acl_role list \<times> int) option"
  aw_broadcasts :: "(string \<times> string option) list"

record acl_config =
  af_rolesTtlMs :: int
  af_checkTimeoutMs :: int
  af_roleMgmtAction :: string
  af_roleSystemAction :: string
  af_broadcast :: bool

definition on_grants :: "('g, 'b) eff \<Rightarrow> (('g, 'r, 'a, 's) acl_world, 'b) eff" where
  "on_grants f w = (case f (aw_grants w) of (r, g) \<Rightarrow> (r, w\<lparr>aw_grants := g\<rparr>))"

definition on_roles :: "('r, 'b) eff \<Rightarrow> (('g, 'r, 'a, 's) acl_world, 'b) eff" where
  "on_roles f w = (case f (aw_roles w) of (r, x) \<Rightarrow> (r, w\<lparr>aw_roles := x\<rparr>))"

definition on_actions :: "('a, 'b) eff \<Rightarrow> (('g, 'r, 'a, 's) acl_world, 'b) eff" where
  "on_actions f w = (case f (aw_actions w) of (r, x) \<Rightarrow> (r, w\<lparr>aw_actions := x\<rparr>))"

section \<open>The operations\<close>

text \<open>\<open>withTimeout\<close>: a promise is the time it takes (\<open>None\<close> when it never settles) and its
  outcome; the result is \<open>None\<close> when nothing ever settles.\<close>

definition withTimeout :: "int option \<times> (jserr + 'b) \<Rightarrow> int \<Rightarrow> string \<Rightarrow> (jserr + 'b) option" where
  "withTimeout p ms lbl =
     (case p of (took, r) \<Rightarrow>
        if ms \<le> 0 then (case took of None \<Rightarrow> None | Some t \<Rightarrow> Some r)
        else (case took of
                Some t \<Rightarrow> if t < ms then Some r else Some (Inl (generic_error (''ACL '' @ lbl @ '' timed out after '' @ int_str ms @ ''ms'')))
              | None \<Rightarrow> Some (Inl (generic_error (''ACL '' @ lbl @ '' timed out after '' @ int_str ms @ ''ms'')))))"

text \<open>\<open>listRolesCached\<close>: the memo is written when the listing arrives, with the deadline taken
  from the time it was asked for.\<close>

definition rolesCache_store :: "int \<Rightarrow> int \<Rightarrow> acl_role list \<Rightarrow> ('g, 'r, 'a, 's) acl_world \<Rightarrow> ('g, 'r, 'a, 's) acl_world" where
  "rolesCache_store asked ttl data w = w\<lparr>aw_rolesCache := Some (data, asked + ttl)\<rparr>"

definition rolesCache_fresh :: "int \<Rightarrow> (acl_role list \<times> int) option \<Rightarrow> acl_role list option" where
  "rolesCache_fresh now m = (case m of Some (data, ex) \<Rightarrow> if ex > now then Some data else None | None \<Rightarrow> None)"

definition listRolesCached ::
  "('g, 'r, 'a, 's) acl_deps \<Rightarrow> acl_config \<Rightarrow> int \<Rightarrow> (('g, 'r, 'a, 's) acl_world, acl_role list) eff" where
  "listRolesCached d cfg now w =
     (case rolesCache_fresh now (aw_rolesCache w) of
        Some data \<Rightarrow> (Inr data, w)
      | None \<Rightarrow>
          (case on_roles (d_rlist d) w of
             (Inl e, w1) \<Rightarrow> (Inl e, w1)
           | (Inr data, w1) \<Rightarrow> (Inr data, rolesCache_store now (af_rolesTtlMs cfg) data w1)))"

definition invalidateRolesCache :: "('g, 'r, 'a, 's) acl_world \<Rightarrow> ('g, 'r, 'a, 's) acl_world" where
  "invalidateRolesCache w = w\<lparr>aw_rolesCache := None\<rparr>"

definition resolveAllowed ::
  "('g, 'r, 'a, 's) acl_deps \<Rightarrow> acl_config \<Rightarrow> int \<Rightarrow> string \<Rightarrow> acl_ctx option \<Rightarrow> string list \<Rightarrow>
   (('g, 'r, 'a, 's) acl_world, bool) eff" where
  "resolveAllowed d cfg now u ctx acts =
     and_then (listRolesCached d cfg now) (\<lambda>allRoles.
       let roleNames = map ro_name (filter (\<lambda>r. \<exists>a \<in> set (ro_actions r). a \<in> set acts) allRoles) in
       if roleNames = [] then ret False
       else and_then (on_grants (d_gfilter d u)) (\<lambda>grants.
         let scoped = (if ctx = None then grants else filter (\<lambda>g. grantMatchesResource g ctx) grants) in
         ret (\<exists>g \<in> set scoped. \<exists>r \<in> set (g_roles g). r \<in> set roleNames)))"

definition scopeKey :: "acl_ctx option \<Rightarrow> string" where
  "scopeKey ctx =
     (case ctx of None \<Rightarrow> ''agnostic''
      | Some c \<Rightarrow> coalesce (cx_companyId c) ''*'' @ ''|'' @ coalesce (cx_resourceId c) ''*'')"

definition cacheAction :: "acl_ctx option \<Rightarrow> string list \<Rightarrow> string" where
  "cacheAction ctx acts = ''act:'' @ scopeKey ctx @ '':'' @ js_join '','' (sort acts)"

text \<open>\<open>toList\<close>: a single action, or a list of them.\<close>

datatype action_arg = OneAction string | ManyActions "string list"

fun toList :: "action_arg \<Rightarrow> string list" where
  "toList (OneAction a) = (if a = [] then [] else [a])"
| "toList (ManyActions as) = as"

text \<open>\<open>checkAction\<close>: \<open>took\<close> is how long the database takes. When the deadline passes the check
  rejects, and what the resolution still does in the background (the roles memo) is kept.\<close>

definition checkAction ::
  "('g, 'r, 'a, 's) acl_deps \<Rightarrow> acl_config \<Rightarrow> int \<Rightarrow> int \<Rightarrow> string \<Rightarrow> acl_ctx option \<Rightarrow> action_arg \<Rightarrow>
   (('g, 'r, 'a, 's) acl_world, bool) eff" where
  "checkAction d cfg now took u ctx act w =
     (let acts = toList act in
      if u = [] \<or> acts = [] then (Inr False, w)
      else
        let ca = cacheAction ctx acts in
        (case cache_get (d_stget d) now u ca (aw_cache w) of
           (Some v, c) \<Rightarrow> (Inr v, w\<lparr>aw_cache := c\<rparr>)
         | (None, c) \<Rightarrow>
             (case resolveAllowed d cfg now u ctx acts (w\<lparr>aw_cache := c\<rparr>) of
                (r, w2) \<Rightarrow>
                  (case the (withTimeout (Some took, r) (af_checkTimeoutMs cfg) ''checkAction'') of
                     Inl e \<Rightarrow> (Inl e, w2)
                   | Inr allowed \<Rightarrow>
                       (Inr allowed, w2\<lparr>aw_cache := cache_set (d_stset d) now u ca allowed (Some (ac_gen c)) (aw_cache w2)\<rparr>)))))"

definition handleCheckAction ::
  "('g, 'r, 'a, 's) acl_deps \<Rightarrow> acl_config \<Rightarrow> int \<Rightarrow> int \<Rightarrow> string \<Rightarrow> action_arg \<Rightarrow> string option \<Rightarrow> string option \<Rightarrow>
   (('g, 'r, 'a, 's) acl_world, bool) eff" where
  "handleCheckAction d cfg now took u act companyId resourceId w =
     (case checkAction d cfg now took u (Some \<lparr>cx_companyId = companyId, cx_resourceId = resourceId\<rparr>) act w of
        (Inl e, w') \<Rightarrow> (Inr False, w')
      | (Inr b, w') \<Rightarrow> (Inr b, w'))"

subsection \<open>Listing a user's resources\<close>

record acl_resource =
  rs_resourceId :: "string option"
  rs_actions :: "string list"
  rs_friendlyName :: "string option"

record acl_group =
  gr_companyId :: "string option"
  gr_resources :: "acl_resource list"

text \<open>\<open>resources.find(r => r.resourceId === item.resourceId)\<close>, or a new one pushed; then the
  actions added, duplicates dropped.\<close>

fun addResource :: "acl_grant \<Rightarrow> string list \<Rightarrow> acl_resource list \<Rightarrow> acl_resource list" where
  "addResource item actions [] =
     [\<lparr>rs_resourceId = g_resourceId item, rs_actions = dedup actions, rs_friendlyName = g_friendlyName item\<rparr>]"
| "addResource item actions (r # rs) =
     (if rs_resourceId r = g_resourceId item then r\<lparr>rs_actions := dedup (rs_actions r @ actions)\<rparr> # rs
      else r # addResource item actions rs)"

definition grantActions :: "acl_role list \<Rightarrow> acl_grant \<Rightarrow> string list" where
  "grantActions roles item =
     concat (map (\<lambda>rn. coalesce (map_of (rev (map (\<lambda>r. (ro_name r, ro_actions r)) roles)) rn) []) (g_roles item))"

definition addGrant :: "acl_role list \<Rightarrow> acl_grant \<Rightarrow> (string, acl_group) omap \<Rightarrow> (string, acl_group) omap" where
  "addGrant roles item grouped =
     (let key = coalesce (g_companyId item) [];
          g0 = coalesce (map_of grouped key) \<lparr>gr_companyId = g_companyId item, gr_resources = []\<rparr>
      in AList.update key (g0\<lparr>gr_resources := addResource item (grantActions roles item) (gr_resources g0)\<rparr>) grouped)"

definition listResourcesByUser ::
  "('g, 'r, 'a, 's) acl_deps \<Rightarrow> acl_config \<Rightarrow> int \<Rightarrow> string option \<Rightarrow> (('g, 'r, 'a, 's) acl_world, acl_group list) eff" where
  "listResourcesByUser d cfg now userId =
     (if \<not> truthy_str userId then throw (mk_err ''UnauthorizedError'' ''User ID is required'')
      else and_then (on_grants (d_gfilter d (the userId))) (\<lambda>acls.
        and_then (listRolesCached d cfg now) (\<lambda>roles.
          ret (map snd (fold (addGrant roles) acls [])))))"

text \<open>The actions a listing shows for a company key and a resource.\<close>

definition resource_actions :: "acl_resource list \<Rightarrow> string option \<Rightarrow> string set" where
  "resource_actions rs rid = {a. \<exists>r \<in> set rs. rs_resourceId r = rid \<and> a \<in> set (rs_actions r)}"

definition listed :: "acl_group list \<Rightarrow> string \<Rightarrow> string option \<Rightarrow> string set" where
  "listed groups ck rid = {a. \<exists>g \<in> set groups. coalesce (gr_companyId g) [] = ck \<and> a \<in> resource_actions (gr_resources g) rid}"

lemma addResource_actions:
  "resource_actions (addResource item acts rs) rid =
   resource_actions rs rid \<union> (if rid = g_resourceId item then set acts else {})"
  by (induction rs) (auto simp: resource_actions_def)

lemma resource_actions_Nil: "resource_actions [] rid = {}"
  by (simp add: resource_actions_def)

definition groups_ok :: "(string, acl_group) omap \<Rightarrow> bool" where
  "groups_ok m \<longleftrightarrow> distinct (map fst m) \<and> (\<forall>(k, g) \<in> set m. coalesce (gr_companyId g) [] = k)"

lemma listed_map_of:
  assumes "groups_ok m"
  shows "listed (map snd m) ck rid = (case map_of m ck of None \<Rightarrow> {} | Some g \<Rightarrow> resource_actions (gr_resources g) rid)"
proof (cases "map_of m ck")
  case None
  then have "\<forall>(k, g) \<in> set m. k \<noteq> ck" by (force simp: map_of_eq_None_iff)
  with assms None show ?thesis by (fastforce simp: listed_def groups_ok_def)
next
  case (Some g)
  then have g: "(ck, g) \<in> set m" by (rule map_of_SomeD)
  have key: "coalesce (gr_companyId h) [] = k" if "(k, h) \<in> set m" for k h using assms that by (auto simp: groups_ok_def)
  have d: "distinct (map fst m)" using assms by (simp add: groups_ok_def)
  have only: "h = g" if "h \<in> set (map snd m)" "coalesce (gr_companyId h) [] = ck" for h
  proof -
    from that(1) obtain k where "(k, h) \<in> set m" by auto
    with key [OF this] that(2) d g show ?thesis by (auto simp: eq_key_imp_eq_value)
  qed
  have "g \<in> set (map snd m)" using g by (auto intro: rev_image_eqI)
  then have "listed (map snd m) ck rid = resource_actions (gr_resources g) rid"
    unfolding listed_def using only key [OF g] by blast
  then show ?thesis by (simp add: Some)
qed

lemma addGrant_ok: "groups_ok m \<Longrightarrow> groups_ok (addGrant roles item m)"
proof -
  assume ok: "groups_ok m"
  let ?k = "coalesce (g_companyId item) []"
  have "coalesce (gr_companyId (coalesce (map_of m ?k) \<lparr>gr_companyId = g_companyId item, gr_resources = []\<rparr>)) [] = ?k"
    using ok by (cases "map_of m ?k") (auto simp: groups_ok_def dest: map_of_SomeD)
  then have new: "coalesce (gr_companyId ((coalesce (map_of m ?k) \<lparr>gr_companyId = g_companyId item, gr_resources = []\<rparr>)
      \<lparr>gr_resources := rs\<rparr>)) [] = ?k" for rs by simp
  have "\<forall>(k, g) \<in> set (addGrant roles item m). coalesce (gr_companyId g) [] = k"
    unfolding addGrant_def Let_def using ok update_set [of ?k _ m] new unfolding groups_ok_def by fast
  moreover have "distinct (map fst (addGrant roles item m))"
    using ok by (simp add: addGrant_def Let_def distinct_update groups_ok_def)
  ultimately show ?thesis by (simp add: groups_ok_def)
qed

lemma addGrant_listed:
  assumes "groups_ok m"
  shows "listed (map snd (addGrant roles item m)) ck rid = listed (map snd m) ck rid \<union>
    (if coalesce (g_companyId item) [] = ck \<and> g_resourceId item = rid then set (grantActions roles item) else {})"
  unfolding listed_map_of [OF assms] listed_map_of [OF addGrant_ok [OF assms]]
  by (cases "map_of m ck") (auto simp: addGrant_def Let_def om_simps addResource_actions resource_actions_Nil simp del: addResource.simps)

lemma fold_addGrant_listed:
  "groups_ok m \<Longrightarrow> listed (map snd (fold (addGrant roles) gs m)) ck rid = listed (map snd m) ck rid \<union>
    {a. \<exists>g \<in> set gs. coalesce (g_companyId g) [] = ck \<and> g_resourceId g = rid \<and> a \<in> set (grantActions roles g)}"
proof (induction gs arbitrary: m)
  case Nil
  then show ?case by simp
next
  case (Cons g gs)
  from Cons.IH [OF addGrant_ok [OF Cons.prems]] addGrant_listed [OF Cons.prems, of roles g ck rid] show ?case by auto
qed

lemma grantActions_set:
  assumes "distinct (map ro_name roles)"
  shows "a \<in> set (grantActions roles g) \<longleftrightarrow> (\<exists>r \<in> set roles. ro_name r \<in> set (g_roles g) \<and> a \<in> set (ro_actions r))"
proof -
  let ?m = "map (\<lambda>r. (ro_name r, ro_actions r)) roles"
  have d: "distinct (map fst ?m)" using assms by (simp add: comp_def)
  have each: "a \<in> set (coalesce (map_of (rev ?m) rn) []) \<longleftrightarrow> (\<exists>r \<in> set roles. ro_name r = rn \<and> a \<in> set (ro_actions r))" for rn
  proof (cases "map_of ?m rn")
    case None
    moreover from None have "\<forall>r \<in> set roles. ro_name r \<noteq> rn" by (force simp: map_of_eq_None_iff)
    ultimately show ?thesis unfolding map_of_distinct_rev [OF d] by auto
  next
    case (Some acts)
    then have "(rn, acts) \<in> set ?m" by (rule map_of_SomeD)
    then obtain r where r: "r \<in> set roles" "ro_name r = rn" "ro_actions r = acts" by auto
    have "r' = r" if "r' \<in> set roles" "ro_name r' = rn" for r' using assms r that by (auto simp: distinct_map inj_on_def)
    then have "(\<exists>r \<in> set roles. ro_name r = rn \<and> a \<in> set (ro_actions r)) \<longleftrightarrow> a \<in> set acts" using r by blast
    then show ?thesis unfolding map_of_distinct_rev [OF d] by (simp add: Some)
  qed
  have all: "a \<in> set (grantActions roles g) \<longleftrightarrow> (\<exists>rn \<in> set (g_roles g). a \<in> set (coalesce (map_of (rev ?m) rn) []))"
    unfolding grantActions_def set_concat set_map by blast
  show ?thesis unfolding all each by blast
qed

section \<open>Cache keys\<close>

text \<open>Requests whose parts do not contain the separators of the key.\<close>

definition plain_id :: "string option \<Rightarrow> bool" where
  "plain_id x \<longleftrightarrow> (case x of None \<Rightarrow> True
     | Some s \<Rightarrow> s \<noteq> ''*'' \<and> CHR ''|'' \<notin> set s \<and> CHR '':'' \<notin> set s \<and> list_all dot_char s)"

definition plain_request :: "string \<Rightarrow> acl_ctx option \<Rightarrow> string list \<Rightarrow> bool" where
  "plain_request u ctx acts \<longleftrightarrow> u \<noteq> [] \<and> CHR ''/'' \<notin> set u \<and> list_all dot_char u \<and>
     (case ctx of None \<Rightarrow> True | Some c \<Rightarrow> plain_id (cx_companyId c) \<and> plain_id (cx_resourceId c)) \<and>
     acts \<noteq> [] \<and> (\<forall>a \<in> set acts. CHR '','' \<notin> set a \<and> list_all dot_char a)"

lemma sep_inject: "c \<notin> set a \<Longrightarrow> c \<notin> set a' \<Longrightarrow> a @ c # b = a' @ c # b' \<longleftrightarrow> a = a' \<and> b = b'"
proof (induction a arbitrary: a')
  case Nil
  then show ?case by (cases a') auto
next
  case (Cons x a)
  then show ?case by (cases a') auto
qed

lemma js_split_join:
  "ws \<noteq> [] \<Longrightarrow> \<forall>w \<in> set ws. c \<notin> set w \<Longrightarrow> js_split c (js_join [c] ws) = ws"
proof (induction ws)
  case Nil
  then show ?case by simp
next
  case (Cons w ws)
  show ?case
  proof (cases "ws = []")
    case True
    with Cons show ?thesis by (simp add: js_split_id)
  next
    case False
    with Cons show ?thesis by (simp add: js_join_Cons js_split_append_sep)
  qed
qed

lemma coalesce_star_inject: "plain_id x \<Longrightarrow> plain_id y \<Longrightarrow> coalesce x ''*'' = coalesce y ''*'' \<longleftrightarrow> x = y"
  by (cases x; cases y) (auto simp: plain_id_def)

lemma plain_no_sep:
  "plain_id x \<Longrightarrow> CHR ''|'' \<notin> set (coalesce x ''*'')" "plain_id x \<Longrightarrow> CHR '':'' \<notin> set (coalesce x ''*'')"
  "plain_id x \<Longrightarrow> list_all dot_char (coalesce x ''*'')"
  by (cases x; simp add: plain_id_def dot_char_def)+

lemma scopeKey_no_colon:
  "plain_request u ctx acts \<Longrightarrow> CHR '':'' \<notin> set (scopeKey ctx)"
  using plain_no_sep by (auto simp: plain_request_def scopeKey_def split: option.splits)

lemma scopeKey_inject:
  assumes "plain_request u ctx acts" and "plain_request u' ctx' acts'"
  shows "scopeKey ctx = scopeKey ctx' \<longleftrightarrow> ctx = ctx'"
proof (cases ctx)
  case None
  show ?thesis
  proof (cases ctx')
    case (Some c')
    have "CHR ''|'' \<notin> set (scopeKey ctx)" using None by (simp add: scopeKey_def)
    moreover have "CHR ''|'' \<in> set (scopeKey ctx')" using Some by (simp add: scopeKey_def)
    ultimately show ?thesis using None Some by auto
  qed (simp add: None)
next
  case (Some c)
  show ?thesis
  proof (cases ctx')
    case None
    have "CHR ''|'' \<notin> set (scopeKey ctx')" using None by (simp add: scopeKey_def)
    moreover have "CHR ''|'' \<in> set (scopeKey ctx)" using Some by (simp add: scopeKey_def)
    ultimately show ?thesis using None Some by auto
  next
    fix c' assume c': "ctx' = Some c'"
    have p: "plain_id (cx_companyId c)" "plain_id (cx_resourceId c)" "plain_id (cx_companyId c')" "plain_id (cx_resourceId c')"
      using assms Some c' by (simp_all add: plain_request_def)
    show ?thesis
      using p plain_no_sep by (simp add: Some c' scopeKey_def sep_inject coalesce_star_inject) (metis acl_ctx.equality old.unit.exhaust)
  qed
qed

lemma cache_key_inject:
  assumes "plain_request u ctx acts" and "plain_request u' ctx' acts'"
    and "cache_key u (cacheAction ctx acts) = cache_key u' (cacheAction ctx' acts')"
  shows "u = u' \<and> ctx = ctx' \<and> set acts = set acts'"
proof -
  have u: "CHR ''/'' \<notin> set u" "CHR ''/'' \<notin> set u'" using assms(1,2) by (simp_all add: plain_request_def)
  from assms(3) have "u @ CHR ''/'' # cacheAction ctx acts = u' @ CHR ''/'' # cacheAction ctx' acts'"
    by (simp add: cache_key_def)
  with u have uu: "u = u'" and "cacheAction ctx acts = cacheAction ctx' acts'" by (simp_all add: sep_inject)
  then have "scopeKey ctx @ CHR '':'' # js_join '','' (sort acts) = scopeKey ctx' @ CHR '':'' # js_join '','' (sort acts')"
    by (simp add: cacheAction_def)
  with scopeKey_no_colon [OF assms(1)] scopeKey_no_colon [OF assms(2)]
  have "scopeKey ctx = scopeKey ctx'" and j: "js_join '','' (sort acts) = js_join '','' (sort acts')"
    by (simp_all add: sep_inject)
  with scopeKey_inject [OF assms(1,2)] have "ctx = ctx'" by simp
  moreover have "sort acts = sort acts'"
  proof -
    have ne: "sort acts \<noteq> []" "sort acts' \<noteq> []"
      using assms(1,2) by (auto simp: plain_request_def dest: arg_cong [where f = length])
    have "\<forall>w \<in> set (sort acts). CHR '','' \<notin> set w" "\<forall>w \<in> set (sort acts'). CHR '','' \<notin> set w"
      using assms(1,2) by (simp_all add: plain_request_def)
    with js_split_join [OF ne(1)] js_split_join [OF ne(2)] j show ?thesis by metis
  qed
  then have "set acts = set acts'" by (metis set_sort)
  ultimately show ?thesis using uu by simp
qed

lemma dots_join: "\<forall>w \<in> set ws. list_all dot_char w \<Longrightarrow> list_all dot_char (js_join '','' ws)"
  by (induction "'',''" ws rule: js_join.induct) (auto simp: dot_char_def)

lemma cacheAction_dots: "plain_request u ctx acts \<Longrightarrow> list_all dot_char (cacheAction ctx acts)"
  using plain_no_sep(3) dots_join [of "sort acts"]
  by (auto simp: cacheAction_def scopeKey_def plain_request_def dot_char_def split: option.splits)

lemma cache_key_dots: "plain_request u ctx acts \<Longrightarrow> list_all dot_char (u @ ''/'' @ cacheAction ctx acts)"
  using cacheAction_dots [of u ctx acts] by (simp add: plain_request_def dot_char_def)

section \<open>Coherence\<close>

text \<open>What a decision under a key must be, given the roles and grants of the database.\<close>

definition right_decision :: "acl_role list \<Rightarrow> acl_grant list \<Rightarrow> string \<Rightarrow> bool \<Rightarrow> bool" where
  "right_decision roles grants k v \<longleftrightarrow>
     (\<forall>u ctx acts. plain_request u ctx acts \<longrightarrow> k = cache_key u (cacheAction ctx acts) \<longrightarrow> v = authorized roles grants u ctx acts)"

lemma authorized_acts: "set acts = set acts' \<Longrightarrow> authorized rs gs u ctx acts = authorized rs gs u ctx acts'"
  by (simp add: authorized_def)

lemma right_decision_own:
  "plain_request u ctx acts \<Longrightarrow> right_decision rs gs (cache_key u (cacheAction ctx acts)) (authorized rs gs u ctx acts)"
  unfolding right_decision_def using cache_key_inject authorized_acts by metis

lemma right_decision_at:
  "right_decision rs gs (cache_key u (cacheAction ctx acts)) v \<Longrightarrow> plain_request u ctx acts \<Longrightarrow> v = authorized rs gs u ctx acts"
  by (simp add: right_decision_def)

lemma resolve_authorized:
  "(\<exists>g \<in> set (if ctx = None then gs else filter (\<lambda>g. grantMatchesResource g ctx) gs).
      \<exists>r \<in> set (g_roles g). r \<in> set (map ro_name (filter (\<lambda>r. \<exists>a \<in> set (ro_actions r). a \<in> set acts) roles)))
   = authorized roles all_gs u ctx acts"
  if "gs = filter (\<lambda>g. g_userId g = u) all_gs"
  unfolding that authorized_def by (cases "ctx = None") auto

locale acl_system =
  gr: grant_repository "d_gfilter deps" "d_ginsert deps" "d_gupdate deps" "d_gremove deps" gview gok +
  rr: role_repository "d_rlist deps" "d_rfilter deps" "d_rupsert deps" "d_rremove deps" rview rok +
  ar: action_repository "d_afilter deps" "d_aupsert deps" "d_aremove deps" aview aok +
  l2: reliable_l2_store "d_stget deps" "d_stset deps" "d_stkeys deps" "d_stdel deps" live
  for deps :: "('g, 'r, 'a, 's) acl_deps" and gview gok rview rok aview aok live
begin

definition db_ok :: "('g, 'r, 'a, 's) acl_world \<Rightarrow> bool" where
  "db_ok w \<longleftrightarrow> gok (aw_grants w) \<and> rok (aw_roles w) \<and> aok (aw_actions w)"

definition decides :: "('g, 'r, 'a, 's) acl_world \<Rightarrow> string \<Rightarrow> acl_ctx option \<Rightarrow> string list \<Rightarrow> bool" where
  "decides w u ctx acts \<longleftrightarrow> authorized (rview (aw_roles w)) (gview (aw_grants w)) u ctx acts"

definition coherent :: "int \<Rightarrow> ('g, 'r, 'a, 's) acl_world \<Rightarrow> bool" where
  "coherent now w \<longleftrightarrow> db_ok w \<and>
     l2.serves now (right_decision (rview (aw_roles w)) (gview (aw_grants w))) (aw_cache w) \<and>
     (\<forall>data ex. aw_rolesCache w = Some (data, ex) \<longrightarrow> data = rview (aw_roles w))"

text \<open>Two worlds with the same database contents.\<close>

definition same_db :: "('g, 'r, 'a, 's) acl_world \<Rightarrow> ('g, 'r, 'a, 's) acl_world \<Rightarrow> bool" where
  "same_db w w' \<longleftrightarrow> gview (aw_grants w') = gview (aw_grants w) \<and> rview (aw_roles w') = rview (aw_roles w)"

lemma same_db_trans: "same_db w w1 \<Longrightarrow> same_db w1 w2 \<Longrightarrow> same_db w w2"
  by (simp add: same_db_def)

lemma same_db_refl [simp]: "same_db w w"
  by (simp add: same_db_def)

lemma same_db_decides: "same_db w w' \<Longrightarrow> decides w' = decides w"
  by (simp add: same_db_def decides_def fun_eq_iff)

lemma coherent_later: "coherent now w \<Longrightarrow> now \<le> now' \<Longrightarrow> coherent now' w"
  unfolding coherent_def using l2.serves_later by blast

lemma coherent_cache:
  "coherent now w \<Longrightarrow> l2.serves now (right_decision (rview (aw_roles w)) (gview (aw_grants w))) c \<Longrightarrow> coherent now (w\<lparr>aw_cache := c\<rparr>)"
  by (simp add: coherent_def db_ok_def)

lemma listRolesCached_coherent:
  assumes "coherent now w" and "listRolesCached deps cfg now w = (r, w')"
  shows "coherent now w' \<and> same_db w w' \<and> (\<forall>rs. r = Inr rs \<longrightarrow> rs = rview (aw_roles w))"
proof (cases "rolesCache_fresh now (aw_rolesCache w)")
  case (Some data)
  then have "\<exists>ex. aw_rolesCache w = Some (data, ex)"
    by (auto simp: rolesCache_fresh_def split: option.splits prod.splits if_splits)
  with Some assms show ?thesis by (auto simp: listRolesCached_def coherent_def)
next
  case None
  obtain q x where q: "d_rlist deps (aw_roles w) = (q, x)" by (cases "d_rlist deps (aw_roles w)")
  have "rok (aw_roles w)" using assms(1) by (simp add: coherent_def db_ok_def)
  from rr.rlist_law [OF this q] None q assms show ?thesis
    by (auto simp: listRolesCached_def on_roles_def rolesCache_store_def coherent_def db_ok_def same_db_def split: sum.splits)
qed

lemma grants_of_coherent:
  assumes "coherent now w" and "on_grants (d_gfilter deps u) w = (r, w')"
  shows "coherent now w' \<and> same_db w w' \<and> (\<forall>gs. r = Inr gs \<longrightarrow> gs = filter (\<lambda>g. g_userId g = u) (gview (aw_grants w)))"
proof -
  obtain q x where q: "d_gfilter deps u (aw_grants w) = (q, x)" by (cases "d_gfilter deps u (aw_grants w)")
  have "gok (aw_grants w)" using assms(1) by (simp add: coherent_def db_ok_def)
  from gr.gfilter_law [OF this q] q assms show ?thesis
    by (auto simp: on_grants_def coherent_def db_ok_def same_db_def)
qed

lemma resolveAllowed_coherent:
  assumes "coherent now w" and "resolveAllowed deps cfg now u ctx acts w = (r, w')"
  shows "coherent now w' \<and> same_db w w' \<and> (\<forall>b. r = Inr b \<longrightarrow> b = decides w u ctx acts)"
proof -
  obtain r1 w1 where l: "listRolesCached deps cfg now w = (r1, w1)" by (cases "listRolesCached deps cfg now w")
  note c1 = listRolesCached_coherent [OF assms(1) l]
  show ?thesis
  proof (cases r1)
    case (Inl e)
    with l assms(2) c1 show ?thesis by (auto simp: resolveAllowed_def)
  next
    case (Inr roles)
    let ?names = "map ro_name (filter (\<lambda>r. \<exists>a \<in> set (ro_actions r). a \<in> set acts) roles)"
    have roles: "roles = rview (aw_roles w)" using c1 Inr by simp
    show ?thesis
    proof (cases "?names = []")
      case True
      then have "\<not> decides w u ctx acts"
        by (auto simp: decides_def authorized_def roles filter_empty_conv)
      with True Inr l assms(2) c1 show ?thesis by (auto simp: resolveAllowed_def)
    next
      case False
      obtain r2 w2 where g: "on_grants (d_gfilter deps u) w1 = (r2, w2)" by (cases "on_grants (d_gfilter deps u) w1")
      note c2 = grants_of_coherent [OF conjunct1 [OF c1] g]
      show ?thesis
      proof (cases r2)
        case (Inl e)
        with False Inr l g assms(2) c1 c2 show ?thesis
          by (auto simp: resolveAllowed_def Let_def same_db_def)
      next
        fix gs assume r2: "r2 = Inr gs"
        with c1 c2 have gs: "gs = filter (\<lambda>g. g_userId g = u) (gview (aw_grants w))" by (simp add: same_db_def)
        from False Inr l g r2 assms(2)
        have "(r, w') = (Inr (\<exists>g \<in> set (if ctx = None then gs else filter (\<lambda>g. grantMatchesResource g ctx) gs).
            \<exists>r \<in> set (g_roles g). r \<in> set ?names), w2)"
          by (simp add: resolveAllowed_def Let_def)
        with resolve_authorized [OF gs, of ctx acts roles] c1 c2 show ?thesis
          unfolding decides_def roles same_db_def by auto
      qed
    qed
  qed
qed

lemma checkAction_coherent:
  assumes "coherent now w" and "plain_request u ctx (toList act)" and "checkAction deps cfg now took u ctx act w = (r, w')"
  shows "coherent now w' \<and> same_db w w' \<and> (\<forall>b. r = Inr b \<longrightarrow> b = decides w u ctx (toList act))"
proof -
  let ?acts = "toList act" and ?ca = "cacheAction ctx (toList act)"
  have guard: "\<not> (u = [] \<or> ?acts = [])" using assms(2) by (simp add: plain_request_def)
  have sv: "l2.serves now (right_decision (rview (aw_roles w)) (gview (aw_grants w))) (aw_cache w)"
    using assms(1) by (simp add: coherent_def)
  obtain g c where q: "cache_get (d_stget deps) now u ?ca (aw_cache w) = (g, c)" by fastforce
  from l2.serves_get [OF sv q] have c: "coherent now (w\<lparr>aw_cache := c\<rparr>)"
    and hit: "\<And>v. g = Some v \<Longrightarrow> v = decides w u ctx ?acts"
    using coherent_cache [OF assms(1)] right_decision_at [OF _ assms(2)] by (auto simp: decides_def)
  show ?thesis
  proof (cases g)
    case (Some v)
    with guard q assms(3) c hit show ?thesis by (auto simp: checkAction_def Let_def same_db_def)
  next
    case None
    obtain r2 w2 where res: "resolveAllowed deps cfg now u ctx ?acts (w\<lparr>aw_cache := c\<rparr>) = (r2, w2)" by fastforce
    note rc = resolveAllowed_coherent [OF c res]
    obtain out where out: "the (withTimeout (Some took, r2) (af_checkTimeoutMs cfg) ''checkAction'') = out" by simp
    have same: "same_db w w2" using rc by (simp add: same_db_def)
    show ?thesis
    proof (cases out)
      case (Inl e)
      with guard q None res out assms(3) rc same show ?thesis by (auto simp: checkAction_def Let_def)
    next
      case (Inr b)
      then have r2: "r2 = Inr b" using out by (auto simp: withTimeout_def split: if_splits)
      with rc have b: "b = decides w u ctx ?acts" by (simp add: decides_def)
      let ?c3 = "cache_set (d_stset deps) now u ?ca b (Some (ac_gen c)) (aw_cache w2)"
      have "right_decision (rview (aw_roles w2)) (gview (aw_grants w2)) (cache_key u ?ca) b"
        using right_decision_own [OF assms(2)] b same by (simp add: decides_def same_db_def)
      then have "coherent now (w2\<lparr>aw_cache := ?c3\<rparr>)"
        using rc by (intro coherent_cache l2.serves_set) (auto simp: coherent_def)
      with guard q None res out Inr assms(3) b same show ?thesis by (auto simp: checkAction_def Let_def same_db_def)
    qed
  qed
qed

text \<open>The check of an absent user answers \<open>false\<close> and touches nothing.\<close>

lemma checkAction_no_user: "checkAction deps cfg now took [] ctx act w = (Inr False, w)"
  by (simp add: checkAction_def Let_def)

text \<open>The caches after a mutation, once the affected decisions are invalidated.\<close>

lemma coherent_after_user_change:
  assumes "coherent now w" and "truthy_str (Some u)" and "list_all dot_char u"
    and "db_ok w'" and "aw_cache w' = cache_invalidate (d_stkeys deps) (d_stdel deps) (Some u) (aw_cache w)"
    and "aw_rolesCache w' = aw_rolesCache w" and "rview (aw_roles w') = rview (aw_roles w)"
    and others: "\<And>v. v \<noteq> u \<Longrightarrow> filter (\<lambda>g. g_userId g = v) (gview (aw_grants w')) = filter (\<lambda>g. g_userId g = v) (gview (aw_grants w))"
  shows "coherent now w'"
proof -
  let ?P = "right_decision (rview (aw_roles w)) (gview (aw_grants w))"
  let ?Q = "right_decision (rview (aw_roles w')) (gview (aw_grants w'))"
  have sv: "l2.serves now ?P (aw_cache w)" using assms(1) by (simp add: coherent_def)
  have same: "authorized rs (gview (aw_grants w')) v ctx acts = authorized rs (gview (aw_grants w)) v ctx acts"
    if "v \<noteq> u" for rs v ctx acts
  proof -
    have "\<And>g. g_userId g = v \<Longrightarrow> g \<in> set (gview (aw_grants w')) \<longleftrightarrow> g \<in> set (gview (aw_grants w))"
      using arg_cong [OF others [OF that], of set] by auto
    then show ?thesis unfolding authorized_def by blast
  qed
  have step: "(\<exists>ctx acts. plain_request u ctx acts \<and> k = cache_key u (cacheAction ctx acts)) \<or> ?Q k v" if "?P k v" for k v
    using that same assms(7) unfolding right_decision_def by metis
  have ram: "(if truthy_str (Some u) then starts_with (''acl/'' @ the (Some u) @ ''/'') k else True) \<or> ?Q k v" if "?P k v" for k v
    using step [OF that] assms(2) starts_with_append [of "''acl/'' @ u @ ''/''"] by (auto simp: cache_key_def)
  have dots: "list_all dot_char (''acl/'' @ u @ ''/'')" using assms(3) by (simp add: dot_char_def)
  have l2: "globToRegExp (if truthy_str (Some u) then ''acl/'' @ the (Some u) @ ''/*'' else ''acl/*'') k \<or> ?Q k v" if "?P k v" for k v
    using step [OF that] assms(2) glob_literal_self [OF dots glob_star [OF cacheAction_dots]]
    by (auto simp: cache_key_def simp del: globToRegExp.simps)
  have "l2.serves now ?Q (aw_cache w')"
    unfolding assms(5) by (rule l2.serves_after_invalidate [OF sv ram l2])
  then show ?thesis using assms(1,4,6,7) by (simp add: coherent_def)
qed

lemma coherent_after_all_change:
  assumes "coherent now w" and "db_ok w'"
    and "aw_cache w' = cache_invalidate (d_stkeys deps) (d_stdel deps) None (aw_cache w)" and "aw_rolesCache w' = None"
  shows "coherent now w'"
proof -
  let ?P = "right_decision (rview (aw_roles w)) (gview (aw_grants w))"
  let ?Q = "right_decision (rview (aw_roles w')) (gview (aw_grants w'))"
  have sv: "l2.serves now ?P (aw_cache w)" using assms(1) by (simp add: coherent_def)
  have dots: "list_all dot_char ''acl/''" by (simp add: dot_char_def)
  have "globToRegExp ''acl/*'' k \<or> ?Q k v" for k v
    using glob_literal_self [OF dots glob_star [OF cache_key_dots]]
    by (auto simp: right_decision_def cache_key_def simp del: globToRegExp.simps)
  then have "l2.serves now ?Q (aw_cache w')"
    unfolding assms(3) by (intro l2.serves_after_invalidate [OF sv]) (auto simp del: globToRegExp.simps)
  then show ?thesis using assms(2,4) by (simp add: coherent_def)
qed

end

section \<open>The in-memory system\<close>

definition mem_deps :: "(collection, collection, collection, mem_store) acl_deps" where
  "mem_deps = \<lparr>d_gfilter = mg_filter, d_ginsert = mg_insert, d_gupdate = mg_updateById, d_gremove = mg_removeById,
     d_rlist = mr_list, d_rfilter = mr_filter, d_rupsert = mr_upsert, d_rremove = mr_remove,
     d_afilter = ma_filter, d_aupsert = ma_upsert, d_aremove = ma_remove,
     d_stget = mem_get, d_stset = mem_set, d_stkeys = mem_keys, d_stdel = mem_del\<rparr>"

type_synonym mem_world = "(collection, collection, collection, mem_store) acl_world"

interpretation acl: acl_system mem_deps mg_view mg_ok mr_view named_ok ma_view named_ok mem_live
  by (simp add: acl_system_def mem_deps_def mem_grants.grant_repository_axioms mem_roles.role_repository_axioms
      mem_actions.action_repository_axioms mem.reliable_l2_store_axioms)

end
