(* ===== verification/Gateway_Auth.thy ===== *)
theory Gateway_Auth
  imports Base64 Acl_Service
begin

text \<open>
  Authentication and authorisation of the gateway: \<open>proxy/services/jwt.service.ts\<close>,
  \<open>auth-provider-registry.service.ts\<close> and \<open>http-auth-handler.service.ts\<close>.

  \<open>verify\<close> of the package jsonwebtoken and the JWKS client of jwks-rsa are arguments: a
  verifier takes the key source, the options and the token, and gives the payload or an error.
  The access check is an argument too, as it is an injected service in the code; the locale
  \<open>acl_gate\<close> states what the gateway needs of it, and the service of \<open>Acl_Service\<close> over the
  in-memory repositories interprets it. Log output is left out.
\<close>

section \<open>Configuration and state\<close>

datatype auth_type = AtJwt | AtJwks | AtBasic | AtStrCompare | AtNone

record auth_provider =
  ap_name :: string
  ap_type :: auth_type
  ap_issuer :: "string option"
  ap_audience :: "string option"
  ap_algorithms :: "string list option"
  ap_secret :: "string option"
  ap_jwksUri :: "string option"
  ap_httpsAllowUnauthorized :: "bool option"
  ap_clientSecret :: "string option"
  ap_clientId :: "string option"
  ap_uidClaim :: "string option"
  ap_jwtMap :: "string list option"
  ap_headerPrefix :: "string option"

record jwks_client =
  jc_uri :: string
  jc_rejectUnauthorized :: bool

datatype verify_key = SecretKey string | JwksKey jwks_client

record verify_opts =
  vo_issuer :: "string option"
  vo_audience :: "string option"
  vo_algorithms :: "string list"

type_synonym verifier = "verify_key \<Rightarrow> verify_opts \<Rightarrow> string \<Rightarrow> jserr + jval"
type_synonym clients = "(string, jwks_client) omap"

text \<open>A template literal renders an absent value as the word undefined.\<close>

definition tpl :: "string option \<Rightarrow> string" where
  "tpl x = coalesce x ''undefined''"

definition auth_key :: "auth_provider \<Rightarrow> string \<Rightarrow> string" where
  "auth_key p suffix = tpl (ap_headerPrefix p) @ suffix"

section \<open>Token verification\<close>

definition is_none_alg :: "string \<Rightarrow> bool" where
  "is_none_alg alg \<longleftrightarrow> to_lower alg = ''none''"

definition is_hs_alg :: "string \<Rightarrow> bool" where
  "is_hs_alg alg \<longleftrightarrow> starts_with ''hs'' (to_lower alg)"

definition isSymmetricOrNone :: "string \<Rightarrow> bool" where
  "isSymmetricOrNone alg \<longleftrightarrow> is_hs_alg alg \<or> is_none_alg alg"

definition mk_client :: "auth_provider \<Rightarrow> jwks_client" where
  "mk_client p = \<lparr>jc_uri = the (ap_jwksUri p), jc_rejectUnauthorized = (ap_httpsAllowUnauthorized p \<noteq> Some True)\<rparr>"

definition jwksClientFor :: "auth_provider \<Rightarrow> clients \<Rightarrow> jwks_client option \<times> clients" where
  "jwksClientFor p cs =
     (if ap_type p \<noteq> AtJwks \<or> \<not> truthy_str (ap_jwksUri p) then (None, cs)
      else (case map_of cs (ap_name p) of
              Some c \<Rightarrow> (Some c, cs)
            | None \<Rightarrow> (Some (mk_client p), AList.update (ap_name p) (mk_client p) cs)))"

definition resetClients :: "clients \<Rightarrow> clients" where
  "resetClients cs = []"

text \<open>The messages of \<open>validateProviderConfig\<close>, by what they are about.\<close>

datatype config_warning =
    AlgorithmsMissing | JwksSymmetric | NoneAlgorithm | JwtSecretMissing | JwtMapMissing | StrCompareOpen | BasicOpen

definition validateProviderConfig :: "auth_provider \<Rightarrow> config_warning list" where
  "validateProviderConfig p =
     (if ap_type p = AtJwt \<or> ap_type p = AtJwks then
        (case ap_algorithms p of
           None \<Rightarrow> [AlgorithmsMissing]
         | Some algs \<Rightarrow>
             if algs = [] then [AlgorithmsMissing]
             else if ap_type p = AtJwks \<and> list_ex isSymmetricOrNone algs then [JwksSymmetric]
             else if list_ex is_none_alg algs then [NoneAlgorithm] else [])
        @ (if ap_type p = AtJwt \<and> \<not> truthy_str (ap_secret p) then [JwtSecretMissing] else [])
        @ (if ap_jwtMap p = None then [JwtMapMissing] else [])
      else [])
     @ (if ap_type p = AtStrCompare \<and> \<not> truthy_str (ap_secret p) then [StrCompareOpen] else [])
     @ (if ap_type p = AtBasic \<and> \<not> truthy_str (ap_clientSecret p) then [BasicOpen] else [])"

fun jwt_onModuleInit :: "auth_provider list \<Rightarrow> clients \<Rightarrow> clients \<times> config_warning list" where
  "jwt_onModuleInit [] cs = (cs, [])"
| "jwt_onModuleInit (p # ps) cs =
     (case jwt_onModuleInit ps (snd (jwksClientFor p cs)) of
        (cs', ws) \<Rightarrow> (cs', validateProviderConfig p @ ws))"

definition resolveAlgorithms :: "auth_provider \<Rightarrow> bool \<Rightarrow> string list option" where
  "resolveAlgorithms p requireAsymmetric =
     (case ap_algorithms p of
        None \<Rightarrow> None
      | Some algs \<Rightarrow>
          if algs = [] then None
          else if list_ex is_none_alg algs then None
          else if requireAsymmetric \<and> list_ex is_hs_alg algs then None
          else Some algs)"

definition verify_opts_of :: "auth_provider \<Rightarrow> string list \<Rightarrow> verify_opts" where
  "verify_opts_of p algs = \<lparr>vo_issuer = ap_issuer p, vo_audience = ap_audience p, vo_algorithms = algs\<rparr>"

definition run_verify :: "verifier \<Rightarrow> verify_key \<Rightarrow> verify_opts \<Rightarrow> string option \<Rightarrow> jval" where
  "run_verify verify key opts token =
     (if \<not> truthy_str token then JUndef
      else (case verify key opts (the token) of Inl e \<Rightarrow> JUndef | Inr payload \<Rightarrow> payload))"

definition verifyTokenJwks :: "verifier \<Rightarrow> auth_provider \<Rightarrow> string option \<Rightarrow> clients \<Rightarrow> jval \<times> clients" where
  "verifyTokenJwks verify p token cs =
     (case jwksClientFor p cs of
        (None, cs') \<Rightarrow> (JUndef, cs')
      | (Some client, cs') \<Rightarrow>
          (case resolveAlgorithms p True of
             None \<Rightarrow> (JUndef, cs')
           | Some algs \<Rightarrow> (run_verify verify (JwksKey client) (verify_opts_of p algs) token, cs')))"

definition verifyTokenSecret :: "verifier \<Rightarrow> auth_provider \<Rightarrow> string option \<Rightarrow> jval" where
  "verifyTokenSecret verify p token =
     (if \<not> truthy_str (ap_secret p) then JUndef
      else (case resolveAlgorithms p False of
              None \<Rightarrow> JUndef
            | Some algs \<Rightarrow> run_verify verify (SecretKey (the (ap_secret p))) (verify_opts_of p algs) token))"

definition verifyToken :: "verifier \<Rightarrow> auth_provider \<Rightarrow> string option \<Rightarrow> clients \<Rightarrow> jval \<times> clients" where
  "verifyToken verify p token cs =
     (if \<not> truthy_str token then (JUndef, cs)
      else (case ap_type p of
              AtJwt \<Rightarrow> (verifyTokenSecret verify p token, cs)
            | AtJwks \<Rightarrow> verifyTokenJwks verify p token cs
            | _ \<Rightarrow> (JUndef, cs)))"

section \<open>The provider registry\<close>

record gw_auth =
  ga_yaml :: "auth_provider list"
  ga_current :: "auth_provider list"
  ga_clients :: clients

definition registry_init :: "auth_provider list \<Rightarrow> clients \<Rightarrow> gw_auth" where
  "registry_init yaml cs = \<lparr>ga_yaml = yaml, ga_current = yaml, ga_clients = cs\<rparr>"

definition find_in :: "string option \<Rightarrow> auth_provider list \<Rightarrow> auth_provider option" where
  "find_in nm ps = (if truthy_str nm then find (\<lambda>p. ap_name p = the nm) ps else None)"

definition reg_find :: "string option \<Rightarrow> gw_auth \<Rightarrow> auth_provider option" where
  "reg_find nm g = find_in nm (ga_current g)"

definition reg_list :: "gw_auth \<Rightarrow> auth_provider list" where
  "reg_list g = ga_current g"

definition named_updates :: "auth_provider list \<Rightarrow> (string, auth_provider) omap \<Rightarrow> (string, auth_provider) omap" where
  "named_updates ps m = fold (\<lambda>p acc. if ap_name p \<noteq> [] then AList.update (ap_name p) p acc else acc) ps m"

text \<open>\<open>reload\<close>: \<open>db\<close> is what the database source answers, \<open>None\<close> when no source is wired.\<close>

definition reg_reload :: "(jserr + auth_provider list) option \<Rightarrow> gw_auth \<Rightarrow> nat \<times> gw_auth" where
  "reg_reload db g =
     (case db of
        Some (Inl e) \<Rightarrow> (length (ga_current g), g)
      | _ \<Rightarrow>
          let stored = (case db of Some (Inr ps) \<Rightarrow> ps | _ \<Rightarrow> []);
              now = map snd (named_updates stored (named_updates (ga_yaml g) []))
          in (length now, g\<lparr>ga_current := now, ga_clients := resetClients (ga_clients g)\<rparr>))"

section \<open>Authenticating a request\<close>

record http_req =
  rq_method :: string
  rq_headers :: "(string, jval) omap"
  rq_params :: jval
  rq_query :: jval
  rq_body :: jval
  rq_files :: jval
  rq_rawBody :: jval

text \<open>
  The processed authentication is the object the code builds: \<open>success\<close> first, then the
  forwarded claims by header name.
\<close>

type_synonym auth_data = "(string, jval) omap"

definition auth_result :: "bool \<Rightarrow> auth_data" where
  "auth_result b = [(''success'', JBool b)]"

definition auth_success :: "auth_data \<Rightarrow> bool" where
  "auth_success a \<longleftrightarrow> truthy (jget (JObj a) ''success'')"

definition authorization :: "http_req \<Rightarrow> string option" where
  "authorization r = (case map_of (rq_headers r) ''authorization'' of Some (JStr s) \<Rightarrow> Some s | _ \<Rightarrow> None)"

definition second_word :: "char \<Rightarrow> string \<Rightarrow> string option" where
  "second_word c s = (case js_split c s of _ # w # _ \<Rightarrow> Some w | _ \<Rightarrow> None)"

text \<open>One entry of \<open>jwtMap\<close>: an entry without a colon has no destination, and trimming it
  throws once the claim is there.\<close>

definition mapClaim :: "auth_provider \<Rightarrow> jval \<Rightarrow> string \<Rightarrow> auth_data \<Rightarrow> jserr + auth_data" where
  "mapClaim p decoded entry out =
     (let source = hd (js_split CHR '':'' entry); v = jget decoded source in
      if truthy v then
        (case second_word CHR '':'' entry of
           None \<Rightarrow> Inl (mk_err ''TypeError'' ''dest is undefined'')
         | Some dest \<Rightarrow> Inr (AList.update (auth_key p (to_upper (js_trim dest))) v out))
      else Inr out)"

fun mapEntries :: "auth_provider \<Rightarrow> jval \<Rightarrow> string list \<Rightarrow> auth_data \<Rightarrow> jserr + auth_data" where
  "mapEntries p decoded [] out = Inr out"
| "mapEntries p decoded (e # es) out =
     (case mapClaim p decoded e out of Inl err \<Rightarrow> Inl err | Inr out' \<Rightarrow> mapEntries p decoded es out')"

definition mapClaims :: "auth_provider \<Rightarrow> jval \<Rightarrow> jserr + auth_data" where
  "mapClaims p decoded =
     (if \<not> truthy decoded then Inr (auth_result False)
      else (case ap_jwtMap p of
              None \<Rightarrow> Inr (auth_result True)
            | Some entries \<Rightarrow> mapEntries p decoded entries (auth_result True)))"

definition bearer :: "http_req \<Rightarrow> string option" where
  "bearer r = (case authorization r of None \<Rightarrow> None | Some h \<Rightarrow> second_word CHR '' '' h)"

definition checkJwt :: "verifier \<Rightarrow> http_req \<Rightarrow> auth_provider \<Rightarrow> clients \<Rightarrow> (jserr + auth_data) \<times> clients" where
  "checkJwt verify r p cs =
     (case verifyToken verify p (bearer r) cs of (decoded, cs') \<Rightarrow> (mapClaims p decoded, cs'))"

definition basic_credentials :: "string \<Rightarrow> string \<times> string option" where
  "basic_credentials h =
     (let text = bytes_ascii (b64_decode (coalesce (second_word CHR '' '' h) [])) in
      (hd (js_split CHR '':'' text), second_word CHR '':'' text))"

definition checkBasicAuth :: "http_req \<Rightarrow> auth_provider \<Rightarrow> auth_data" where
  "checkBasicAuth r p =
     (case authorization r of
        None \<Rightarrow> auth_result False
      | Some h \<Rightarrow>
          if \<not> starts_with ''Basic '' h then auth_result False
          else if \<not> truthy_str (ap_clientSecret p) then auth_result True
          else (case basic_credentials h of (username, password) \<Rightarrow>
            if password = ap_clientSecret p \<and> (\<not> truthy_str (ap_clientId p) \<or> Some username = ap_clientId p)
            then AList.update ''success'' (JBool True)
                   (AList.update (auth_key p ''USERID'') (JStr username)
                     (AList.update (auth_key p ''USERNAME'') (JStr username) (auth_result False)))
            else auth_result False))"

definition checkStringCompare :: "http_req \<Rightarrow> auth_provider \<Rightarrow> auth_data" where
  "checkStringCompare r p =
     (if \<not> truthy_str (ap_secret p) then auth_result True
      else if \<not> truthy_str (ap_headerPrefix p) then auth_result False
      else if authorization r = ap_secret p
      then AList.update ''success'' (JBool True) (AList.update (auth_key p ''TOKEN'') (JStr (the (ap_secret p))) (auth_result False))
      else auth_result False)"

text \<open>A request handler's view of a route: the fields of \<open>PathDefinition\<close> it reads.\<close>

record route =
  rt_name :: string
  rt_method :: string
  rt_path :: string
  rt_topic :: string
  rt_action :: string
  rt_mode :: string
  rt_dataSource :: string
  rt_parseRaw :: bool
  rt_successStatusCode :: "int option"
  rt_auth :: "string option"
  rt_allowAnonymous :: "bool option"
  rt_actions :: "string list"
  rt_timeout :: "int option"
  rt_binary :: bool
  rt_headers :: "(string, jval) omap"
  rt_forwardHeaders :: "(string, string) omap"
  rt_redirect :: "int option"

definition processAuthData :: "verifier \<Rightarrow> http_req \<Rightarrow> route \<Rightarrow> gw_auth \<Rightarrow> (jserr + auth_data) \<times> gw_auth" where
  "processAuthData verify r path g =
     (if \<not> truthy_str (rt_auth path) then (Inr (auth_result False), g)
      else (case reg_find (rt_auth path) g of
              None \<Rightarrow> (Inr (auth_result False), g)
            | Some p \<Rightarrow>
                (case ap_type p of
                   AtBasic \<Rightarrow> (Inr (checkBasicAuth r p), g)
                 | AtStrCompare \<Rightarrow> (Inr (checkStringCompare r p), g)
                 | AtNone \<Rightarrow> (Inr (auth_result False), g)
                 | _ \<Rightarrow> (case checkJwt verify r p (ga_clients g) of (res, cs') \<Rightarrow> (res, g\<lparr>ga_clients := cs'\<rparr>)))))"

section \<open>Authorising a request\<close>

record res_ctx =
  rc_companyId :: jval
  rc_resourceId :: jval

text \<open>The injected access check: the user id of the claims, the resource context (absent for
  WebSocket events), and the actions.\<close>

type_synonym 'w acl_check = "jval \<Rightarrow> res_ctx option \<Rightarrow> string list \<Rightarrow> ('w, bool) eff"

definition checkActionsForClaims ::
  "'w acl_check option \<Rightarrow> auth_provider \<Rightarrow> auth_data option \<Rightarrow> string list \<Rightarrow> res_ctx option \<Rightarrow> ('w, bool) eff" where
  "checkActionsForClaims acl p claims actions ctx =
     (if actions = [] then ret True
      else if ap_type p \<noteq> AtJwt \<and> ap_type p \<noteq> AtJwks then ret False
      else if \<not> truthy_str (ap_uidClaim p) then ret False
      else (case acl of
              None \<Rightarrow> ret False
            | Some check \<Rightarrow>
                (case claims of
                   None \<Rightarrow> ret False
                 | Some cl \<Rightarrow>
                     let userId = jget (JObj cl) (auth_key p (the (ap_uidClaim p))) in
                     if \<not> truthy userId then ret False else check userId ctx actions)))"

definition extractResourceContext :: "http_req \<Rightarrow> res_ctx" where
  "extractResourceContext r =
     \<lparr>rc_companyId = jcoal (jcoal (jget (rq_params r) ''companyId'') (jget (rq_query r) ''companyId'')) (jget (rq_body r) ''companyId''),
      rc_resourceId = jcoal (jcoal (jget (rq_params r) ''resourceId'') (jget (rq_query r) ''resourceId'')) (jget (rq_body r) ''resourceId'')\<rparr>"

definition checkActions ::
  "'w acl_check option \<Rightarrow> gw_auth \<Rightarrow> auth_data \<Rightarrow> route \<Rightarrow> res_ctx \<Rightarrow> ('w, bool) eff" where
  "checkActions acl g data path ctx =
     (if rt_actions path = [] then ret True
      else if \<not> truthy_str (rt_auth path) then ret False
      else (case reg_find (rt_auth path) g of
              None \<Rightarrow> ret False
            | Some p \<Rightarrow> checkActionsForClaims acl p (Some data) (rt_actions path) (Some ctx)))"

section \<open>The registry and the JWKS clients\<close>

definition usable_jwks :: "auth_provider \<Rightarrow> bool" where
  "usable_jwks p \<longleftrightarrow> ap_type p = AtJwks \<and> truthy_str (ap_jwksUri p)"

text \<open>Whatever client is cached for the provider a name stands for was built from that
  provider's own configuration.\<close>

definition clients_ok :: "gw_auth \<Rightarrow> bool" where
  "clients_ok g \<longleftrightarrow>
     (\<forall>n c p. map_of (ga_clients g) n = Some c \<longrightarrow> find_in (Some n) (ga_current g) = Some p \<longrightarrow> usable_jwks p \<longrightarrow> c = mk_client p)"

definition gw_boot :: "auth_provider list \<Rightarrow> gw_auth" where
  "gw_boot yaml = registry_init yaml (fst (jwt_onModuleInit yaml []))"

inductive auth_reaches :: "auth_provider list \<Rightarrow> gw_auth \<Rightarrow> bool" for yaml where
  boot: "auth_reaches yaml (gw_boot yaml)"
| reload: "auth_reaches yaml g \<Longrightarrow> auth_reaches yaml (snd (reg_reload db g))"
| request: "auth_reaches yaml g \<Longrightarrow> auth_reaches yaml (snd (processAuthData verify r path g))"

lemma jwksClientFor_get:
  "map_of (snd (jwksClientFor p cs)) n =
     (case map_of cs n of Some c \<Rightarrow> Some c
      | None \<Rightarrow> if usable_jwks p \<and> n = ap_name p then Some (mk_client p) else None)"
  by (auto simp: jwksClientFor_def usable_jwks_def om_simps split: option.splits)

lemma jwt_onModuleInit_get:
  "map_of (fst (jwt_onModuleInit ps cs)) n =
     (case map_of cs n of Some c \<Rightarrow> Some c
      | None \<Rightarrow> map_option mk_client (find (\<lambda>p. usable_jwks p \<and> ap_name p = n) ps))"
proof (induction ps arbitrary: cs)
  case (Cons p ps)
  show ?case using Cons [of "snd (jwksClientFor p cs)"]
    by (auto simp: jwksClientFor_get split: prod.splits option.splits if_splits)
qed (simp split: option.split)

lemma find_first: "find P xs = Some x \<Longrightarrow> Q x \<Longrightarrow> find (\<lambda>y. Q y \<and> P y) xs = Some x"
  by (induction xs) (auto split: if_splits)

lemma boot_clients_ok: "clients_ok (gw_boot yaml)"
  unfolding clients_ok_def gw_boot_def registry_init_def find_in_def
  by (auto simp: jwt_onModuleInit_get dest: find_first [where Q = usable_jwks])

lemma reload_clients_ok: "clients_ok g \<Longrightarrow> clients_ok (snd (reg_reload db g))"
  by (auto simp: clients_ok_def reg_reload_def resetClients_def Let_def split: option.splits sum.splits)

lemma verifyToken_clients:
  "snd (verifyToken verify p tok cs) = cs \<or> snd (verifyToken verify p tok cs) = snd (jwksClientFor p cs)"
  by (auto simp: verifyToken_def verifyTokenJwks_def split: auth_type.splits prod.splits option.splits)

lemma jwksClientFor_ok:
  assumes "clients_ok g" and "find_in (Some (ap_name p)) (ga_current g) = Some p"
  shows "clients_ok (g\<lparr>ga_clients := snd (jwksClientFor p (ga_clients g))\<rparr>)"
  using assms unfolding clients_ok_def by (auto simp: jwksClientFor_get split: option.splits if_splits)

lemma find_in_name: "find_in nm ps = Some p \<Longrightarrow> truthy_str nm \<and> nm = Some (ap_name p) \<and> p \<in> set ps"
  by (cases nm) (auto simp: find_in_def find_Some_iff split: if_splits)

lemma request_clients_ok:
  assumes "clients_ok g"
  shows "clients_ok (snd (processAuthData verify r path g))"
proof (cases "reg_find (rt_auth path) g")
  case None
  with assms show ?thesis by (simp add: processAuthData_def)
next
  case (Some p)
  then have "find_in (Some (ap_name p)) (ga_current g) = Some p"
    using find_in_name [of "rt_auth path"] by (simp add: reg_find_def)
  from jwksClientFor_ok [OF assms this] assms Some show ?thesis
    using verifyToken_clients [of verify p "bearer r" "ga_clients g"]
    by (auto simp: processAuthData_def checkJwt_def split: auth_type.split prod.split)
qed

lemma clients_always_ok: "auth_reaches yaml g \<Longrightarrow> clients_ok g"
  by (induction rule: auth_reaches.induct) (auto intro: boot_clients_ok reload_clients_ok request_clients_ok)

subsection \<open>Merging the stored providers\<close>

definition keyed_by_name :: "(string, auth_provider) omap \<Rightarrow> bool" where
  "keyed_by_name m \<longleftrightarrow> distinct (map fst m) \<and> (\<forall>(n, p) \<in> set m. ap_name p = n)"

lemma named_updates_keyed: "keyed_by_name m \<Longrightarrow> keyed_by_name (named_updates ps m)"
proof (induction ps arbitrary: m)
  case (Cons p ps)
  have "keyed_by_name (if ap_name p \<noteq> [] then AList.update (ap_name p) p m else m)"
    using Cons.prems by (auto simp: keyed_by_name_def distinct_update dest!: om_update_mem)
  from Cons.IH [OF this] show ?case by (simp add: named_updates_def)
qed (simp add: named_updates_def)

lemma named_updates_get:
  "n \<noteq> [] \<Longrightarrow> map_of (named_updates ps m) n = (case find (\<lambda>p. ap_name p = n) (rev ps) of Some p \<Rightarrow> Some p | None \<Rightarrow> map_of m n)"
proof (induction ps rule: rev_induct)
  case (snoc p ps)
  then show ?case by (simp add: named_updates_def om_simps)
qed (simp add: named_updates_def)

lemma keyed_find:
  assumes "keyed_by_name m"
  shows "find (\<lambda>p. ap_name p = n) (map snd m) = map_of m n"
  using assms by (induction m) (auto simp: keyed_by_name_def)

lemma reload_find:
  assumes "n \<noteq> []"
  shows "reg_find (Some n) (snd (reg_reload (Some (Inr ps)) g)) =
    (case find (\<lambda>p. ap_name p = n) (rev ps) of Some p \<Rightarrow> Some p | None \<Rightarrow> find (\<lambda>p. ap_name p = n) (rev (ga_yaml g)))"
proof -
  have "keyed_by_name (named_updates ps (named_updates (ga_yaml g) []))"
    by (intro named_updates_keyed) (simp add: keyed_by_name_def)
  from keyed_find [OF this, of n] assms show ?thesis
    by (simp add: reg_find_def find_in_def reg_reload_def Let_def named_updates_get split: option.split)
qed

lemma named_updates_yaml: "ga_yaml (snd (reg_reload db g)) = ga_yaml g"
  by (simp add: reg_reload_def Let_def split: option.split sum.split)

section \<open>What a successful authentication means\<close>

definition safe_algorithms :: "auth_provider \<Rightarrow> string list \<Rightarrow> bool" where
  "safe_algorithms p algs \<longleftrightarrow> ap_algorithms p = Some algs \<and> algs \<noteq> [] \<and>
     (\<forall>a \<in> set algs. to_lower a \<noteq> ''none'' \<and> (ap_type p = AtJwks \<longrightarrow> \<not> starts_with ''hs'' (to_lower a)))"

definition token_key :: "auth_provider \<Rightarrow> verify_key option" where
  "token_key p =
     (case ap_type p of
        AtJwt \<Rightarrow> (if truthy_str (ap_secret p) then Some (SecretKey (the (ap_secret p))) else None)
      | AtJwks \<Rightarrow> (if usable_jwks p then Some (JwksKey (mk_client p)) else None)
      | _ \<Rightarrow> None)"

definition token_accepted :: "verifier \<Rightarrow> auth_provider \<Rightarrow> string option \<Rightarrow> jval \<Rightarrow> bool" where
  "token_accepted verify p token payload \<longleftrightarrow>
     (\<exists>key tok algs. token_key p = Some key \<and> token = Some tok \<and> tok \<noteq> [] \<and> safe_algorithms p algs \<and>
        verify key (verify_opts_of p algs) tok = Inr payload)"

definition vouched :: "verifier \<Rightarrow> http_req \<Rightarrow> auth_provider \<Rightarrow> bool" where
  "vouched verify r p \<longleftrightarrow>
     (case ap_type p of
        AtNone \<Rightarrow> False
      | AtStrCompare \<Rightarrow> \<not> truthy_str (ap_secret p) \<or> authorization r = ap_secret p
      | AtBasic \<Rightarrow> (\<exists>h. authorization r = Some h \<and> starts_with ''Basic '' h \<and>
          (\<not> truthy_str (ap_clientSecret p) \<or> snd (basic_credentials h) = ap_clientSecret p))
      | _ \<Rightarrow> (\<exists>payload. token_accepted verify p (bearer r) payload \<and> truthy payload))"

lemma auth_result_simps [simp]: "auth_success (auth_result b) = b" "map_of (auth_result b) k = (if k = ''success'' then Some (JBool b) else None)"
  by (simp_all add: auth_result_def auth_success_def)

lemma auth_success_update:
  "auth_success (AList.update k v out) = (if k = ''success'' then truthy v else auth_success out)"
  by (simp add: auth_success_def om_simps)

lemma resolveAlgorithms_safe:
  "resolveAlgorithms p (ap_type p = AtJwks) = Some algs \<Longrightarrow> safe_algorithms p algs"
  by (auto simp: resolveAlgorithms_def safe_algorithms_def is_none_alg_def is_hs_alg_def list_ex_iff
      split: option.splits if_splits)

lemma run_verify_accepted:
  assumes "truthy (run_verify verify key opts token)"
  obtains tok where "token = Some tok" and "tok \<noteq> []" and "verify key opts tok = Inr (run_verify verify key opts token)"
  using assms by (cases token) (auto simp: run_verify_def split: if_splits sum.splits)

lemma verifyToken_jwt:
  assumes "ap_type p = AtJwt" and "truthy (fst (verifyToken verify p token cs))"
  shows "token_accepted verify p token (fst (verifyToken verify p token cs))"
proof -
  from assms obtain algs where a: "resolveAlgorithms p False = Some algs" "truthy_str (ap_secret p)" "truthy_str token"
      and v: "fst (verifyToken verify p token cs) = run_verify verify (SecretKey (the (ap_secret p))) (verify_opts_of p algs) token"
    by (auto simp: verifyToken_def verifyTokenSecret_def split: if_splits option.splits)
  have "safe_algorithms p algs" using resolveAlgorithms_safe [of p algs] a(1) assms(1) by simp
  moreover obtain tok where "token = Some tok" "tok \<noteq> []"
      "verify (SecretKey (the (ap_secret p))) (verify_opts_of p algs) tok = Inr (fst (verifyToken verify p token cs))"
    using run_verify_accepted assms(2) unfolding v by metis
  ultimately show ?thesis using assms(1) a by (auto simp: token_accepted_def token_key_def)
qed

lemma verifyToken_jwks:
  assumes "ap_type p = AtJwks" and "truthy (fst (verifyToken verify p token cs))"
    and "\<And>c. map_of cs (ap_name p) = Some c \<Longrightarrow> usable_jwks p \<Longrightarrow> c = mk_client p"
  shows "token_accepted verify p token (fst (verifyToken verify p token cs))"
proof -
  from assms(1,2) obtain client cs' algs where c: "jwksClientFor p cs = (Some client, cs')" and a: "resolveAlgorithms p True = Some algs"
      and v: "fst (verifyToken verify p token cs) = run_verify verify (JwksKey client) (verify_opts_of p algs) token"
    by (auto simp: verifyToken_def verifyTokenJwks_def split: if_splits option.splits prod.splits)
  have u: "usable_jwks p" and "client = mk_client p"
    using c assms(1,3) by (auto simp: jwksClientFor_def usable_jwks_def split: if_splits option.splits)
  moreover have "safe_algorithms p algs" using resolveAlgorithms_safe [of p algs] a assms(1) by simp
  moreover obtain tok where "token = Some tok" "tok \<noteq> []"
      "verify (JwksKey client) (verify_opts_of p algs) tok = Inr (fst (verifyToken verify p token cs))"
    using run_verify_accepted assms(2) unfolding v by metis
  ultimately show ?thesis using assms(1) by (auto simp: token_accepted_def token_key_def)
qed

text \<open>A verification through a provider the registry names, in any reachable state.\<close>

lemma verifyToken_accepted:
  assumes "clients_ok g" and "reg_find nm g = Some p" and "verifyToken verify p token (ga_clients g) = (payload, cs')" and "truthy payload"
  shows "token_accepted verify p token payload \<and> (ap_type p = AtJwt \<or> ap_type p = AtJwks)"
proof -
  have f: "find_in (Some (ap_name p)) (ga_current g) = Some p"
    using assms(2) find_in_name [of nm] by (simp add: reg_find_def)
  have pl: "payload = fst (verifyToken verify p token (ga_clients g))" by (simp add: assms(3))
  have ty: "ap_type p = AtJwt \<or> ap_type p = AtJwks"
    using assms(3,4) by (cases "ap_type p") (auto simp: verifyToken_def split: if_splits)
  then have "token_accepted verify p token payload"
    using verifyToken_jwt [of p verify token "ga_clients g"] verifyToken_jwks [of p verify token "ga_clients g"]
      assms(1,4) f unfolding pl clients_ok_def by blast
  with ty show ?thesis by simp
qed

lemma mapClaims_success: "mapClaims p decoded = Inr out \<Longrightarrow> auth_success out \<Longrightarrow> truthy decoded"
  by (auto simp: mapClaims_def split: if_splits)

text \<open>Where a forwarded claim comes from.\<close>

definition claim_source :: "auth_provider \<Rightarrow> jval \<Rightarrow> string \<Rightarrow> jval \<Rightarrow> bool" where
  "claim_source p decoded k v \<longleftrightarrow>
     (\<exists>entries entry dest. ap_jwtMap p = Some entries \<and> entry \<in> set entries \<and> second_word CHR '':'' entry = Some dest \<and>
        k = auth_key p (to_upper (js_trim dest)) \<and> v = jget decoded (hd (js_split CHR '':'' entry)) \<and> truthy v)"

lemma mapEntries_sources:
  assumes "mapEntries p decoded es out = Inr out'" and "map_of out' k = Some v"
  shows "map_of out k = Some v \<or>
     (\<exists>entry dest. entry \<in> set es \<and> second_word CHR '':'' entry = Some dest \<and> k = auth_key p (to_upper (js_trim dest)) \<and>
        v = jget decoded (hd (js_split CHR '':'' entry)) \<and> truthy v)"
  using assms
proof (induction es arbitrary: out)
  case (Cons e es)
  from Cons.prems(1) obtain out1 where o: "mapClaim p decoded e out = Inr out1" "mapEntries p decoded es out1 = Inr out'"
    by (auto split: sum.splits)
  from Cons.IH [OF o(2) Cons.prems(2)] show ?case
  proof (elim disjE)
    assume "map_of out1 k = Some v"
    with o(1) show ?thesis
      by (auto simp: mapClaim_def Let_def om_simps split: if_splits option.splits)
  qed (simp, blast)
qed simp

lemma mapEntries_success:
  assumes "mapEntries p decoded es out = Inr out'" and "auth_success out"
  shows "auth_success out'"
  using assms
proof (induction es arbitrary: out)
  case (Cons e es)
  from Cons.prems(1) obtain out1 where o: "mapClaim p decoded e out = Inr out1" "mapEntries p decoded es out1 = Inr out'"
    by (auto split: sum.splits)
  have "auth_success out1"
    using o(1) Cons.prems(2) by (auto simp: mapClaim_def Let_def auth_success_update split: if_splits option.splits)
  from Cons.IH [OF o(2) this] show ?case .
qed simp


text \<open>C5: In every state the gateway can reach through boots, reloads and requests, a request is
  authenticated only by the provider its route names: a token verified with that provider's own
  key (its secret, or the JWKS client of its own configuration), under its listed algorithms,
  none of them unsigned and none symmetric for JWKS; or its credentials; or by a provider left
  open on purpose. An unknown provider never authenticates.\<close>

theorem authenticated_by_named_provider:
  assumes "auth_reaches yaml g" and "processAuthData verify r path g = (Inr out, g')" and "auth_success out"
  shows "\<exists>p. reg_find (rt_auth path) g = Some p \<and> vouched verify r p"
proof -
  obtain p where p: "reg_find (rt_auth path) g = Some p"
    using assms(2,3) by (auto simp: processAuthData_def split: if_splits option.splits)
  have "vouched verify r p"
  proof (cases "ap_type p = AtJwt \<or> ap_type p = AtJwks")
    case True
    obtain payload cs' where v: "verifyToken verify p (bearer r) (ga_clients g) = (payload, cs')" by fastforce
    have "truthy payload"
      using True assms(2,3) p v mapClaims_success [of p payload out]
      by (auto simp: processAuthData_def checkJwt_def split: if_splits)
    from verifyToken_accepted [OF clients_always_ok [OF assms(1)] p v this] True this show ?thesis
      by (auto simp: vouched_def)
  next
    case False
    with assms(2,3) p show ?thesis
      by (cases "ap_type p") (auto simp: processAuthData_def vouched_def checkBasicAuth_def checkStringCompare_def
          split: if_splits option.splits prod.splits)
  qed
  with p show ?thesis by blast
qed

definition demo_provider :: auth_provider where
  "demo_provider = \<lparr>ap_name = ''p'', ap_type = AtJwks, ap_issuer = Some ''iss'', ap_audience = None, ap_algorithms = Some [''RS256''],
     ap_secret = None, ap_jwksUri = Some ''u'', ap_httpsAllowUnauthorized = None, ap_clientSecret = None, ap_clientId = None,
     ap_uidClaim = Some ''USERID'', ap_jwtMap = Some [''sub:USERID''], ap_headerPrefix = Some ''X-''\<rparr>"

definition demo_route :: route where
  "demo_route = \<lparr>rt_name = ''r'', rt_method = ''POST'', rt_path = ''/r'', rt_topic = ''t'', rt_action = ''a'', rt_mode = ''rpc'',
     rt_dataSource = ''body'', rt_parseRaw = False, rt_successStatusCode = None, rt_auth = Some ''p'', rt_allowAnonymous = None,
     rt_actions = [''edit''], rt_timeout = None, rt_binary = False, rt_headers = [], rt_forwardHeaders = [], rt_redirect = None\<rparr>"

definition demo_req :: http_req where
  "demo_req = \<lparr>rq_method = ''POST'', rq_headers = [(''authorization'', JStr ''Bearer tok'')], rq_params = JObj [], rq_query = JObj [],
     rq_body = JObj [(''companyId'', JStr ''c1'')], rq_files = JUndef, rq_rawBody = JUndef\<rparr>"

definition demo_verify :: verifier where
  "demo_verify key opts tok = (if tok = ''tok'' then Inr (JObj [(''sub'', JStr ''u1'')]) else Inl (generic_error ''jwt malformed''))"

lemma demo_authenticates:
  "processAuthData demo_verify demo_req demo_route (gw_boot [demo_provider]) =
     (Inr [(''success'', JBool True), (''X-USERID'', JStr ''u1'')], gw_boot [demo_provider])"
  by code_simp

theorem authenticated_by_named_provider_witness:
  "\<exists>p. reg_find (rt_auth demo_route) (gw_boot [demo_provider]) = Some p \<and> vouched demo_verify demo_req p"
  by (rule authenticated_by_named_provider [OF auth_reaches.boot demo_authenticates]) code_simp

text \<open>The headers made of a verified token carry nothing but what the provider's \<open>jwtMap\<close>
  lists: every entry besides \<open>success\<close> is a non-empty claim under the prefixed name of its map
  entry, and a provider without a map forwards no claim at all.\<close>

theorem only_mapped_claims_forwarded:
  assumes "mapClaims p decoded = Inr out" and "map_of out k = Some v" and "k \<noteq> ''success''"
  shows "claim_source p decoded k v"
  using assms mapEntries_sources [of p decoded "the (ap_jwtMap p)" "auth_result True" out k v]
  by (auto simp: mapClaims_def claim_source_def split: if_splits option.splits)

theorem only_mapped_claims_forwarded_witness:
  "claim_source demo_provider (JObj [(''sub'', JStr ''u1''), (''email'', JStr ''e'')]) ''X-USERID'' (JStr ''u1'')"
  by (rule only_mapped_claims_forwarded [where out = "[(''success'', JBool True), (''X-USERID'', JStr ''u1'')]"]) code_simp+

text \<open>After a reload from the database the provider of a name is the last one stored under
  it, and otherwise the last one of the file; when the database fails nothing changes.\<close>

theorem reload_stored_over_file:
  assumes "n \<noteq> []"
  shows "reg_find (Some n) (snd (reg_reload (Some (Inr ps)) g)) =
      (case find (\<lambda>p. ap_name p = n) (rev ps) of Some p \<Rightarrow> Some p | None \<Rightarrow> find (\<lambda>p. ap_name p = n) (rev (ga_yaml g))) \<and>
    reg_reload (Some (Inl e)) g = (length (reg_list g), g)"
  using reload_find [OF assms] by (simp add: reg_reload_def reg_list_def)

theorem reload_stored_over_file_witness:
  "reg_find (Some ''p'') (snd (reg_reload (Some (Inr [demo_provider\<lparr>ap_secret := Some ''s''\<rparr>])) (gw_boot [demo_provider]))) =
     Some (demo_provider\<lparr>ap_secret := Some ''s''\<rparr>)"
  using reload_stored_over_file [of "''p''" "[demo_provider\<lparr>ap_secret := Some ''s''\<rparr>]" "gw_boot [demo_provider]" "generic_error ''x''"]
  by (simp add: demo_provider_def)

text \<open>Two providers of the file under one name: the first is used at boot, the last after a
  reload that reads nothing from the database.\<close>

lemma duplicate_name_changes_provider:
  "reg_find (Some ''p'') (gw_boot [demo_provider, demo_provider\<lparr>ap_type := AtBasic\<rparr>]) = Some demo_provider \<and>
   reg_find (Some ''p'') (snd (reg_reload None (gw_boot [demo_provider, demo_provider\<lparr>ap_type := AtBasic\<rparr>]))) =
     Some (demo_provider\<lparr>ap_type := AtBasic\<rparr>)"
  by code_simp

text \<open>The start-up warning about a missing \<open>jwtMap\<close> says all claims would be forwarded; none is.\<close>

lemma missing_map_forwards_nothing:
  "JwtMapMissing \<in> set (validateProviderConfig (demo_provider\<lparr>ap_jwtMap := None\<rparr>)) \<and>
   mapClaims (demo_provider\<lparr>ap_jwtMap := None\<rparr>) (JObj kvs) = Inr (auth_result True)"
  by (simp add: demo_provider_def validateProviderConfig_def mapClaims_def)

text \<open>A map entry without a colon makes the handler of an authenticated request throw.\<close>

lemma map_entry_without_colon_throws:
  "mapClaims (demo_provider\<lparr>ap_jwtMap := Some [''sub'']\<rparr>) (JObj [(''sub'', JStr ''u1'')]) = Inl (mk_err ''TypeError'' ''dest is undefined'')"
  by code_simp

section \<open>Basic credentials\<close>

definition basic_req :: "string \<Rightarrow> http_req" where
  "basic_req credentials = demo_req\<lparr>rq_headers := [(''authorization'', JStr (''Basic '' @ b64_encode (ascii_bytes credentials)))]\<rparr>"

lemma js_split_space: "CHR '' '' \<notin> set w \<Longrightarrow> js_split CHR '' '' (''Basic '' @ w) = [''Basic'', w]"
  using js_split_append_sep [of "CHR '' ''" "''Basic''" w] by (simp add: js_split_id)

lemma basic_credentials_encoded:
  assumes "ascii (user @ rest)" and "CHR '':'' \<notin> set user"
  shows "basic_credentials (''Basic '' @ b64_encode (ascii_bytes (user @ CHR '':'' # rest))) = (user, Some (hd (js_split CHR '':'' rest)))"
proof -
  let ?text = "user @ CHR '':'' # rest"
  have "second_word CHR '' '' (''Basic '' @ b64_encode (ascii_bytes ?text)) = Some (b64_encode (ascii_bytes ?text))"
    unfolding second_word_def by (simp only: js_split_space [OF b64_encode_no_space [OF ascii_bytes_range]] list.case)
  moreover have "bytes_ascii (b64_decode (b64_encode (ascii_bytes ?text))) = ?text"
    by (rule decode_text) (use assms(1) in simp)
  moreover obtain w ws where "js_split CHR '':'' rest = w # ws" by (cases "js_split CHR '':'' rest") auto
  ultimately show ?thesis
    by (simp add: basic_credentials_def second_word_def [of "CHR '':''"] js_split_append_sep [OF assms(2)])
qed

lemma authorization_basic: "authorization (basic_req cr) = Some (''Basic '' @ b64_encode (ascii_bytes cr))"
  by (simp add: basic_req_def authorization_def demo_req_def)

lemma checkBasicAuth_encoded:
  assumes "ascii (user @ rest)" and "CHR '':'' \<notin> set user" and "truthy_str (ap_clientSecret p)"
  shows "checkBasicAuth (basic_req (user @ CHR '':'' # rest)) p =
    (if Some (hd (js_split CHR '':'' rest)) = ap_clientSecret p \<and> (\<not> truthy_str (ap_clientId p) \<or> Some user = ap_clientId p)
     then AList.update ''success'' (JBool True) (AList.update (auth_key p ''USERID'') (JStr user)
            (AList.update (auth_key p ''USERNAME'') (JStr user) (auth_result False)))
     else auth_result False)"
  unfolding checkBasicAuth_def authorization_basic option.case
  using assms(3) by (simp only: basic_credentials_encoded [OF assms(1,2)] starts_with_append prod.case simp_thms if_False)


definition basic_provider :: auth_provider where
  "basic_provider = demo_provider\<lparr>ap_type := AtBasic, ap_clientSecret := Some ''s3'', ap_clientId := None\<rparr>"


text \<open>RFC 7617 lets a password contain colons; the code keeps what precedes the second colon. A
  password is accepted with anything after a colon appended, and a secret that contains a colon
  is never matched.\<close>

lemma basic_password_is_truncated:
  assumes "ascii user" and "ascii pass" and "ascii junk" and "CHR '':'' \<notin> set user" and "CHR '':'' \<notin> set pass"
    and "truthy_str (ap_clientSecret p)"
  shows "checkBasicAuth (basic_req (user @ CHR '':'' # pass @ CHR '':'' # junk)) p = checkBasicAuth (basic_req (user @ CHR '':'' # pass)) p"
proof -
  have "hd (js_split CHR '':'' (pass @ CHR '':'' # junk)) = pass" by (simp add: js_split_append_sep [OF assms(5)])
  then show ?thesis
    using checkBasicAuth_encoded [OF _ assms(4,6), of "pass @ CHR '':'' # junk"] checkBasicAuth_encoded [OF _ assms(4,6), of pass] assms
    by (simp add: js_split_id)
qed

lemma colon_secret_never_matches:
  assumes "ap_clientSecret p = Some secret" and "CHR '':'' \<in> set secret"
  shows "\<not> auth_success (checkBasicAuth r p)"
proof -
  have "snd (basic_credentials h) \<noteq> Some secret" for h
  proof
    assume "snd (basic_credentials h) = Some secret"
    then have "secret \<in> set (js_split CHR '':'' (bytes_ascii (b64_decode (coalesce (second_word CHR '' '' h) []))))"
      by (auto simp: basic_credentials_def Let_def second_word_def split: list.splits)
    with js_split_no_sep assms(2) show False by metis
  qed
  moreover have "truthy_str (ap_clientSecret p)" using assms by (cases secret) auto
  ultimately show ?thesis using assms(1)
    by (auto simp: checkBasicAuth_def split: option.splits prod.splits if_splits) (metis snd_conv)+
qed

section \<open>The access check the gateway relies on\<close>

definition ctx_text :: "res_ctx option \<Rightarrow> acl_ctx option option" where
  "ctx_text ctx =
     (let text = (\<lambda>v. case v of JUndef \<Rightarrow> Some None | JNull \<Rightarrow> Some None | JStr s \<Rightarrow> Some (Some s) | _ \<Rightarrow> None) in
      case ctx of
        None \<Rightarrow> Some None
      | Some c \<Rightarrow>
          (case (text (rc_companyId c), text (rc_resourceId c)) of
             (Some a, Some b) \<Rightarrow> Some (Some \<lparr>cx_companyId = a, cx_resourceId = b\<rparr>)
           | _ \<Rightarrow> None))"

text \<open>
  The contract: in a good state, for a textual user id and context, an answer is the one the
  permissions give, and the state stays good.
\<close>

locale acl_gate =
  fixes check :: "'w acl_check"
    and ok :: "'w \<Rightarrow> bool"
    and plain :: "string \<Rightarrow> acl_ctx option \<Rightarrow> string list \<Rightarrow> bool"
    and permits :: "'w \<Rightarrow> string \<Rightarrow> acl_ctx option \<Rightarrow> string list \<Rightarrow> bool"
  assumes check_law: "ok w \<Longrightarrow> ctx_text ctx = Some c \<Longrightarrow> plain u c acts \<Longrightarrow> check (JStr u) ctx acts w = (res, w') \<Longrightarrow>
      ok w' \<and> (\<forall>b. res = Inr b \<longrightarrow> b = permits w u c acts)"
begin

definition claims_plain :: "auth_provider \<Rightarrow> auth_data \<Rightarrow> res_ctx option \<Rightarrow> string list \<Rightarrow> bool" where
  "claims_plain p claims ctx acts \<longleftrightarrow>
     (\<forall>v. map_of claims (auth_key p (the (ap_uidClaim p))) = Some v \<longrightarrow> truthy v \<longrightarrow>
        (\<exists>u c. v = JStr u \<and> ctx_text ctx = Some c \<and> plain u c acts))"

lemma claims_checked:
  assumes "ok w" and "claims_plain p claims ctx acts"
    and "checkActionsForClaims (Some check) p (Some claims) acts ctx w = (Inr True, w')" and "acts \<noteq> []"
  shows "\<exists>u c. (ap_type p = AtJwt \<or> ap_type p = AtJwks) \<and> jget (JObj claims) (auth_key p (the (ap_uidClaim p))) = JStr u \<and>
    ctx_text ctx = Some c \<and> permits w u c acts \<and> ok w'"
proof -
  let ?v = "jget (JObj claims) (auth_key p (the (ap_uidClaim p)))"
  from assms(3,4) have ty: "ap_type p = AtJwt \<or> ap_type p = AtJwks" and t: "truthy ?v" and c: "check ?v ctx acts w = (Inr True, w')"
    by (auto simp: checkActionsForClaims_def Let_def split: if_splits)
  from t assms(2) obtain u cx where u: "?v = JStr u" "ctx_text ctx = Some cx" "plain u cx acts"
    by (auto simp: claims_plain_def split: option.splits)
  from check_law [OF assms(1) u(2,3) c [unfolded u(1)]] u ty show ?thesis by blast
qed

lemma claims_ok:
  assumes "ok w" and "claims_plain p claims ctx acts"
  shows "ok (snd (checkActionsForClaims (Some check) p (Some claims) acts ctx w))"
proof -
  let ?v = "jget (JObj claims) (auth_key p (the (ap_uidClaim p)))"
  have "ok (snd (check ?v ctx acts w))" if "truthy ?v"
  proof -
    from that assms(2) obtain u cx where u: "?v = JStr u" "ctx_text ctx = Some cx" "plain u cx acts"
      by (auto simp: claims_plain_def split: option.splits)
    obtain res w' where "check (JStr u) ctx acts w = (res, w')" by fastforce
    from check_law [OF assms(1) u(2,3) this] this u(1) show ?thesis by simp
  qed
  with assms(1) show ?thesis by (simp add: checkActionsForClaims_def Let_def)
qed

end

text \<open>The service of \<open>Acl_Service\<close> over the in-memory repositories. What it does with an id that is
  not text (\<open>oddly\<close>) is left open.\<close>

definition service_check :: "acl_config \<Rightarrow> int \<Rightarrow> int \<Rightarrow> mem_world acl_check \<Rightarrow> mem_world acl_check" where
  "service_check cfg now took oddly u ctx acts =
     (case (u, ctx_text ctx) of
        (JStr s, Some c) \<Rightarrow> checkAction mem_deps cfg now took s c (ManyActions acts)
      | _ \<Rightarrow> oddly u ctx acts)"

interpretation gate: acl_gate "service_check cfg now took oddly" "acl.coherent now" plain_request acl.decides
proof
  fix w ctx c u acts res w'
  assume "acl.coherent now w" "ctx_text ctx = Some c" "plain_request u c acts"
    and "service_check cfg now took oddly (JStr u) ctx acts w = (res, w')"
  then show "acl.coherent now w' \<and> (\<forall>b. res = Inr b \<longrightarrow> b = acl.decides w u c acts)"
    using acl.checkAction_coherent [of now w u c "ManyActions acts" cfg took res w'] by (simp add: service_check_def)
qed

end
