(* ===== verification/Acl_Management.thy ===== *)
theory Acl_Management
  imports Acl_Service
begin

text \<open>
  Grants, roles and actions as they are changed: \<open>modules/acl/services/acl-management.service.ts\<close>
  and the cross-instance invalidation of \<open>acl-invalidation.service.ts\<close>. Each operation runs its
  guards, writes the repository and then invalidates; the lemmas of \<open>acl_system\<close> show that a
  coherent world stays coherent, so that the next check answers from the new database.
\<close>

section \<open>Invalidation\<close>

text \<open>\<open>broadcast\<close> never throws; a broadcast is recorded whether or not the broker takes it.\<close>

definition broadcast :: "acl_config \<Rightarrow> string \<Rightarrow> string option \<Rightarrow> ('g, 'r, 'a, 's) acl_world \<Rightarrow> ('g, 'r, 'a, 's) acl_world" where
  "broadcast cfg scope userId w =
     (if \<not> af_broadcast cfg then w else w\<lparr>aw_broadcasts := aw_broadcasts w @ [(scope, userId)]\<rparr>)"

text \<open>\<open>apply\<close>: a peer's message, flushed from the local tiers only.\<close>

definition apply_invalidation :: "(string \<times> string option) option \<Rightarrow> ('g, 'r, 'a, 's) acl_world \<Rightarrow> ('g, 'r, 'a, 's) acl_world" where
  "apply_invalidation msg w =
     (if map_option fst msg = Some ''all''
      then invalidateRolesCache (w\<lparr>aw_cache := invalidateLocalRam None (aw_cache w)\<rparr>)
      else w\<lparr>aw_cache := invalidateLocalRam (Option.bind msg snd) (aw_cache w)\<rparr>)"

definition invalidateUser ::
  "('g, 'r, 'a, 's) acl_deps \<Rightarrow> acl_config \<Rightarrow> string \<Rightarrow> ('g, 'r, 'a, 's) acl_world \<Rightarrow> ('g, 'r, 'a, 's) acl_world" where
  "invalidateUser d cfg u w =
     broadcast cfg ''user'' (Some u) (w\<lparr>aw_cache := cache_invalidate (d_stkeys d) (d_stdel d) (Some u) (aw_cache w)\<rparr>)"

definition invalidateAll ::
  "('g, 'r, 'a, 's) acl_deps \<Rightarrow> acl_config \<Rightarrow> ('g, 'r, 'a, 's) acl_world \<Rightarrow> ('g, 'r, 'a, 's) acl_world" where
  "invalidateAll d cfg w =
     broadcast cfg ''all'' None (invalidateRolesCache (w\<lparr>aw_cache := cache_invalidate (d_stkeys d) (d_stdel d) None (aw_cache w)\<rparr>))"

section \<open>Grants\<close>

definition mk_ctx :: "string option \<Rightarrow> string option \<Rightarrow> acl_ctx" where
  "mk_ctx companyId resourceId = \<lparr>cx_companyId = companyId, cx_resourceId = resourceId\<rparr>"

definition assertCanManage ::
  "('g, 'r, 'a, 's) acl_deps \<Rightarrow> acl_config \<Rightarrow> int \<Rightarrow> int \<Rightarrow> string \<Rightarrow> string option \<Rightarrow> string option \<Rightarrow> string \<Rightarrow>
   (('g, 'r, 'a, 's) acl_world, unit) eff" where
  "assertCanManage d cfg now took currentUser companyId resourceId verb =
     and_then (checkAction d cfg now took currentUser (Some (mk_ctx companyId resourceId)) (OneAction (af_roleMgmtAction cfg))) (\<lambda>ok.
       if ok then ret ()
       else and_then (checkAction d cfg now took currentUser None (OneAction (af_roleSystemAction cfg))) (\<lambda>ok2.
         if ok2 then ret ()
         else throw (forbidden (CHR 0x27 # af_roleMgmtAction cfg @ [CHR 0x27] @ '' on the target resource, or the system-level '' @
              CHR 0x27 # af_roleSystemAction cfg @ [CHR 0x27] @ '', is required to '' @ verb))))"

definition assertRolesExist :: "('g, 'r, 'a, 's) acl_deps \<Rightarrow> string list \<Rightarrow> (('g, 'r, 'a, 's) acl_world, unit) eff" where
  "assertRolesExist d names =
     and_then (on_roles (d_rfilter d names)) (\<lambda>found.
       let missing = filter (\<lambda>n. \<not> (\<exists>r \<in> set found. ro_name r = n)) names in
       if missing \<noteq> [] then throw (bad_request (''Unknown roles: '' @ js_join '', '' missing)) else ret ())"

definition assertActionsExist :: "('g, 'r, 'a, 's) acl_deps \<Rightarrow> string list \<Rightarrow> (('g, 'r, 'a, 's) acl_world, unit) eff" where
  "assertActionsExist d names =
     and_then (on_actions (d_afilter d names)) (\<lambda>found.
       let missing = filter (\<lambda>n. \<not> (\<exists>a \<in> set found. an_name a = n)) names in
       if missing \<noteq> [] then throw (bad_request (''Unknown actions: '' @ js_join '', '' missing)) else ret ())"

definition findGrant ::
  "('g, 'r, 'a, 's) acl_deps \<Rightarrow> string \<Rightarrow> string option \<Rightarrow> string option \<Rightarrow> (('g, 'r, 'a, 's) acl_world, acl_grant option) eff" where
  "findGrant d userId companyId resourceId =
     and_then (on_grants (d_gfilter d userId)) (\<lambda>all.
       ret (find (\<lambda>g. grantMatchesResource g (Some (mk_ctx companyId resourceId))) all))"

definition merged_patch :: "acl_grant \<Rightarrow> string list \<Rightarrow> string option \<Rightarrow> string option \<Rightarrow> grant_patch" where
  "merged_patch existing roles companyId friendlyName =
     \<lparr>gp_roles = dedup (g_roles existing @ roles),
      gp_companyId = Some (coalesce_opt companyId (g_companyId existing)),
      gp_friendlyName = Some (coalesce_opt friendlyName (g_friendlyName existing))\<rparr>"

definition new_grant :: "string \<Rightarrow> string list \<Rightarrow> string option \<Rightarrow> string option \<Rightarrow> string option \<Rightarrow> acl_grant" where
  "new_grant userId roles resourceId companyId friendlyName =
     \<lparr>g_id = None, g_userId = userId, g_resourceId = resourceId, g_companyId = companyId,
      g_friendlyName = friendlyName, g_roles = dedup roles\<rparr>"

definition then_invalidate_user ::
  "('g, 'r, 'a, 's) acl_deps \<Rightarrow> acl_config \<Rightarrow> string \<Rightarrow> 'b \<Rightarrow> (('g, 'r, 'a, 's) acl_world, 'b) eff" where
  "then_invalidate_user d cfg u x w = (Inr x, invalidateUser d cfg u w)"

definition then_invalidate_all ::
  "('g, 'r, 'a, 's) acl_deps \<Rightarrow> acl_config \<Rightarrow> 'b \<Rightarrow> (('g, 'r, 'a, 's) acl_world, 'b) eff" where
  "then_invalidate_all d cfg x w = (Inr x, invalidateAll d cfg w)"

definition applyGrant ::
  "('g, 'r, 'a, 's) acl_deps \<Rightarrow> acl_config \<Rightarrow> string \<Rightarrow> string list \<Rightarrow> string option \<Rightarrow> string option \<Rightarrow> string option \<Rightarrow>
   (('g, 'r, 'a, 's) acl_world, acl_grant option) eff" where
  "applyGrant d cfg userId roles resourceId companyId friendlyName =
     (if userId = [] then throw (bad_request ''userId is required'')
      else if roles = [] then throw (bad_request ''roles are required'')
      else and_then (assertRolesExist d roles) (\<lambda>_.
        and_then (findGrant d userId companyId resourceId) (\<lambda>existing.
          case existing of
            Some g \<Rightarrow>
              and_then (on_grants (d_gupdate d (the (g_id g)) (merged_patch g roles companyId friendlyName)))
                (then_invalidate_user d cfg userId)
          | None \<Rightarrow>
              and_then (on_grants (d_ginsert d (new_grant userId roles resourceId companyId friendlyName)))
                (\<lambda>g. then_invalidate_user d cfg userId (Some g)))))"

definition applyRevoke ::
  "('g, 'r, 'a, 's) acl_deps \<Rightarrow> acl_config \<Rightarrow> string \<Rightarrow> string list \<Rightarrow> string option \<Rightarrow> string option \<Rightarrow>
   (('g, 'r, 'a, 's) acl_world, acl_grant option) eff" where
  "applyRevoke d cfg userId roles resourceId companyId =
     (if userId = [] then throw (bad_request ''userId is required'')
      else if roles = [] then throw (bad_request ''roles are required'')
      else and_then (findGrant d userId companyId resourceId) (\<lambda>existing.
        case existing of
          None \<Rightarrow> ret None
        | Some g \<Rightarrow>
            let remaining = filter (\<lambda>r. r \<notin> set roles) (g_roles g) in
            and_then
              (if remaining \<noteq> []
               then on_grants (d_gupdate d (the (g_id g)) \<lparr>gp_roles = remaining, gp_companyId = None, gp_friendlyName = None\<rparr>)
               else on_grants (d_gremove d (the (g_id g))))
              (then_invalidate_user d cfg userId)))"

definition grant ::
  "('g, 'r, 'a, 's) acl_deps \<Rightarrow> acl_config \<Rightarrow> int \<Rightarrow> int \<Rightarrow> string \<Rightarrow> string list \<Rightarrow> string option \<Rightarrow> string option \<Rightarrow>
   string option \<Rightarrow> string option \<Rightarrow> (('g, 'r, 'a, 's) acl_world, acl_grant option) eff" where
  "grant d cfg now took userId roles resourceId companyId friendlyName currentUser =
     and_then (assertCanManage d cfg now took (coalesce currentUser []) companyId resourceId ''grant'')
       (\<lambda>_. applyGrant d cfg userId roles resourceId companyId friendlyName)"

definition revoke ::
  "('g, 'r, 'a, 's) acl_deps \<Rightarrow> acl_config \<Rightarrow> int \<Rightarrow> int \<Rightarrow> string \<Rightarrow> string list \<Rightarrow> string option \<Rightarrow> string option \<Rightarrow>
   string option \<Rightarrow> (('g, 'r, 'a, 's) acl_world, acl_grant option) eff" where
  "revoke d cfg now took userId roles resourceId companyId currentUser =
     and_then (assertCanManage d cfg now took (coalesce currentUser []) companyId resourceId ''revoke'')
       (\<lambda>_. applyRevoke d cfg userId roles resourceId companyId)"

definition adminGrant ::
  "('g, 'r, 'a, 's) acl_deps \<Rightarrow> acl_config \<Rightarrow> string \<Rightarrow> string list \<Rightarrow> string option \<Rightarrow> string option \<Rightarrow> string option \<Rightarrow>
   (('g, 'r, 'a, 's) acl_world, acl_grant option) eff" where
  "adminGrant d cfg userId roles resourceId companyId friendlyName =
     applyGrant d cfg userId roles resourceId companyId friendlyName"

definition adminRevoke ::
  "('g, 'r, 'a, 's) acl_deps \<Rightarrow> acl_config \<Rightarrow> string \<Rightarrow> string list \<Rightarrow> string option \<Rightarrow> string option \<Rightarrow>
   (('g, 'r, 'a, 's) acl_world, acl_grant option) eff" where
  "adminRevoke d cfg userId roles resourceId companyId = applyRevoke d cfg userId roles resourceId companyId"

section \<open>Actions and roles\<close>

definition upsertAction ::
  "('g, 'r, 'a, 's) acl_deps \<Rightarrow> acl_config \<Rightarrow> string \<Rightarrow> string option \<Rightarrow> (('g, 'r, 'a, 's) acl_world, acl_action) eff" where
  "upsertAction d cfg nm description =
     (if nm = [] then throw (bad_request ''name is required'')
      else and_then (on_actions (d_aupsert d \<lparr>an_name = nm, an_description = description\<rparr>)) (then_invalidate_all d cfg))"

definition deleteAction ::
  "('g, 'r, 'a, 's) acl_deps \<Rightarrow> acl_config \<Rightarrow> string \<Rightarrow> (('g, 'r, 'a, 's) acl_world, acl_action option) eff" where
  "deleteAction d cfg nm =
     (if nm = [] then throw (bad_request ''name is required'')
      else and_then (on_actions (d_aremove d nm)) (then_invalidate_all d cfg))"

definition upsertRole ::
  "('g, 'r, 'a, 's) acl_deps \<Rightarrow> acl_config \<Rightarrow> string \<Rightarrow> string list \<Rightarrow> string option \<Rightarrow> (('g, 'r, 'a, 's) acl_world, acl_role) eff" where
  "upsertRole d cfg nm actions description =
     (if nm = [] then throw (bad_request ''name is required'')
      else if actions = [] then throw (bad_request ''actions are required'')
      else and_then (assertActionsExist d actions) (\<lambda>_.
        and_then (on_roles (d_rupsert d \<lparr>ro_name = nm, ro_description = description, ro_actions = actions\<rparr>))
          (then_invalidate_all d cfg)))"

definition deleteRole ::
  "('g, 'r, 'a, 's) acl_deps \<Rightarrow> acl_config \<Rightarrow> string \<Rightarrow> (('g, 'r, 'a, 's) acl_world, acl_role option) eff" where
  "deleteRole d cfg nm =
     (if nm = [] then throw (bad_request ''name is required'')
      else and_then (on_roles (d_rremove d nm)) (then_invalidate_all d cfg))"

section \<open>What each step does to a coherent world\<close>

lemma broadcast_fields [simp]:
  "aw_grants (broadcast cfg sc u w) = aw_grants w" "aw_roles (broadcast cfg sc u w) = aw_roles w"
  "aw_actions (broadcast cfg sc u w) = aw_actions w" "aw_cache (broadcast cfg sc u w) = aw_cache w"
  "aw_rolesCache (broadcast cfg sc u w) = aw_rolesCache w"
  by (simp_all add: broadcast_def)

lemma invalidateUser_fields [simp]:
  "aw_grants (invalidateUser d cfg u w) = aw_grants w" "aw_roles (invalidateUser d cfg u w) = aw_roles w"
  "aw_actions (invalidateUser d cfg u w) = aw_actions w" "aw_rolesCache (invalidateUser d cfg u w) = aw_rolesCache w"
  "aw_cache (invalidateUser d cfg u w) = cache_invalidate (d_stkeys d) (d_stdel d) (Some u) (aw_cache w)"
  by (simp_all add: invalidateUser_def)

lemma invalidateAll_fields [simp]:
  "aw_grants (invalidateAll d cfg w) = aw_grants w" "aw_roles (invalidateAll d cfg w) = aw_roles w"
  "aw_actions (invalidateAll d cfg w) = aw_actions w" "aw_rolesCache (invalidateAll d cfg w) = None"
  "aw_cache (invalidateAll d cfg w) = cache_invalidate (d_stkeys d) (d_stdel d) None (aw_cache w)"
  by (simp_all add: invalidateAll_def invalidateRolesCache_def)

context acl_system
begin

lemma rolesExist_coherent:
  assumes "coherent now w" and "assertRolesExist deps names w = (r, w')"
  shows "coherent now w' \<and> same_db w w' \<and>
    (r = Inr () \<longrightarrow> set names \<subseteq> ro_name ` set (rview (aw_roles w)))"
proof -
  obtain q x where q: "d_rfilter deps names (aw_roles w) = (q, x)" by fastforce
  have "rok (aw_roles w)" using assms(1) by (simp add: coherent_def db_ok_def)
  note law = rr.rfilter_law [OF this q]
  have world: "on_roles (d_rfilter deps names) w = (q, w\<lparr>aw_roles := x\<rparr>)" by (simp add: on_roles_def q)
  have coh: "coherent now (w\<lparr>aw_roles := x\<rparr>)" and same: "same_db w (w\<lparr>aw_roles := x\<rparr>)"
    using law assms(1) by (simp_all add: coherent_def db_ok_def same_db_def)
  show ?thesis
  proof (cases q)
    case (Inl e)
    with world coh same assms(2) show ?thesis by (auto simp: assertRolesExist_def)
  next
    case (Inr found)
    then have "found = filter (\<lambda>r. ro_name r \<in> set names) (rview (aw_roles w))" using law by simp
    with Inr world coh same assms(2) show ?thesis
      by (auto simp: assertRolesExist_def Let_def filter_empty_conv split: if_splits)
  qed
qed

lemma actionsExist_coherent:
  assumes "coherent now w" and "assertActionsExist deps names w = (r, w')"
  shows "coherent now w' \<and> same_db w w'"
proof -
  obtain q x where q: "d_afilter deps names (aw_actions w) = (q, x)" by fastforce
  have "aok (aw_actions w)" using assms(1) by (simp add: coherent_def db_ok_def)
  note law = ar.afilter_law [OF this q]
  have world: "on_actions (d_afilter deps names) w = (q, w\<lparr>aw_actions := x\<rparr>)" by (simp add: on_actions_def q)
  have coh: "coherent now (w\<lparr>aw_actions := x\<rparr>)" and same: "same_db w (w\<lparr>aw_actions := x\<rparr>)"
    using law assms(1) by (simp_all add: coherent_def db_ok_def same_db_def)
  show ?thesis
  proof (cases q)
    case (Inl e)
    with world coh same assms(2) show ?thesis by (auto simp: assertActionsExist_def)
  next
    case (Inr found)
    with world coh same assms(2) show ?thesis by (auto simp: assertActionsExist_def Let_def split: if_splits)
  qed
qed

lemma findGrant_coherent:
  assumes "coherent now w" and "findGrant deps u c rs w = (r, w')"
  shows "coherent now w' \<and> same_db w w' \<and>
    (\<forall>g. r = Inr (Some g) \<longrightarrow> g \<in> set (gview (aw_grants w)) \<and> g_userId g = u \<and> grantMatchesResource g (Some (mk_ctx c rs))) \<and>
    (r = Inr None \<longrightarrow> (\<forall>g \<in> set (gview (aw_grants w)). g_userId g = u \<longrightarrow> \<not> grantMatchesResource g (Some (mk_ctx c rs))))"
proof -
  obtain q w1 where q: "on_grants (d_gfilter deps u) w = (q, w1)" by fastforce
  note law = grants_of_coherent [OF assms(1) q]
  show ?thesis
  proof (cases q)
    case (Inl e)
    with q law assms(2) show ?thesis by (auto simp: findGrant_def)
  next
    case (Inr all)
    with q assms(2) have "r = Inr (find (\<lambda>g. grantMatchesResource g (Some (mk_ctx c rs))) all)" and "w' = w1"
      by (auto simp: findGrant_def)
    moreover have "all = filter (\<lambda>g. g_userId g = u) (gview (aw_grants w))" using law Inr by simp
    ultimately show ?thesis using law by (auto simp: find_None_iff find_Some_iff dest: nth_mem)
  qed
qed

text \<open>The write of one grant, followed by the invalidation of its user.\<close>

lemma user_write_coherent:
  assumes "coherent now w" and "u \<noteq> []" and "list_all dot_char u" and "gok x"
    and "\<And>v. v \<noteq> u \<Longrightarrow> filter (\<lambda>g. g_userId g = v) (gview x) = filter (\<lambda>g. g_userId g = v) (gview (aw_grants w))"
  shows "coherent now (invalidateUser deps cfg u (w\<lparr>aw_grants := x\<rparr>))"
  by (rule coherent_after_user_change [OF assms(1) _ assms(3)])
     (use assms in \<open>simp_all add: db_ok_def coherent_def\<close>)

lemma user_fail_coherent:
  "coherent now w \<Longrightarrow> gok x \<Longrightarrow> gview x = gview (aw_grants w) \<Longrightarrow> coherent now (w\<lparr>aw_grants := x\<rparr>)"
  by (simp add: coherent_def db_ok_def)

lemma filter_map_others:
  assumes "\<And>g. P g \<Longrightarrow> g_userId g = u" and "\<And>g. g_userId (f g) = g_userId g" and "v \<noteq> u"
  shows "filter (\<lambda>g. g_userId g = v) (map (\<lambda>g. if P g then f g else g) gs) = filter (\<lambda>g. g_userId g = v) gs"
  using assms by (induction gs) auto

lemma apply_patch_user [simp]: "g_userId (apply_patch p g) = g_userId g"
  by (simp add: apply_patch_def)

lemma id_owner:
  assumes "gok s" and "g \<in> set (gview s)" and "h \<in> set (gview s)" and "g_id h = g_id g"
  shows "h = g"
  using gr.gids [OF assms(1)] assms(2-4) by (auto simp: distinct_map inj_on_def)

lemma map_others:
  assumes "gok s" and "g \<in> set (gview s)" and "v \<noteq> g_userId g"
  shows "filter (\<lambda>h. g_userId h = v) (map (\<lambda>h. if g_id h = g_id g then apply_patch p h else h) (gview s)) =
    filter (\<lambda>h. g_userId h = v) (gview s)"
proof -
  have eq: "map (\<lambda>h. if g_id h = g_id g then apply_patch p h else h) (gview s) =
      map (\<lambda>h. if h = g then apply_patch p h else h) (gview s)"
    using id_owner [OF assms(1,2)] by (intro map_cong) auto
  show ?thesis unfolding eq using filter_map_others [of "\<lambda>h. h = g" "g_userId g" "apply_patch p" v "gview s"] assms(3) by simp
qed

lemma filter_others:
  assumes "gok s" and "g \<in> set (gview s)" and "v \<noteq> g_userId g"
  shows "filter (\<lambda>h. g_userId h = v) (filter (\<lambda>h. g_id h \<noteq> g_id g) (gview s)) = filter (\<lambda>h. g_userId h = v) (gview s)"
  using id_owner [OF assms(1,2)] assms(3) by (auto simp: filter_filter intro!: filter_cong)

lemma gupdate_coherent:
  assumes "coherent now w" and g: "g \<in> set (gview (aw_grants w))" and u: "g_userId g = u" "u \<noteq> []" "list_all dot_char u"
    and "and_then (on_grants (d_gupdate deps (the (g_id g)) p)) (then_invalidate_user deps cfg u) w = (r, w')"
  shows "coherent now w'"
proof -
  have ok: "gok (aw_grants w)" using assms(1) by (simp add: coherent_def db_ok_def)
  obtain q x where q: "d_gupdate deps (the (g_id g)) p (aw_grants w) = (q, x)" by fastforce
  obtain i where i: "g_id g = Some i" using gr.gids [OF ok] g by auto
  note law = gr.gupdate_law [OF ok q]
  show ?thesis
  proof (cases q)
    case (Inl e)
    with q assms(6) law user_fail_coherent [OF assms(1)] show ?thesis by (auto simp: on_grants_def and_then_def)
  next
    case (Inr y)
    then have w': "w' = invalidateUser deps cfg u (w\<lparr>aw_grants := x\<rparr>)"
      using q assms(6) by (simp add: on_grants_def and_then_def then_invalidate_user_def)
    have "gview x = map (\<lambda>h. if g_id h = g_id g then apply_patch p h else h) (gview (aw_grants w))"
      using law Inr i by simp
    with map_others [OF ok g] law u show ?thesis unfolding w' by (intro user_write_coherent [OF assms(1)]) auto
  qed
qed

lemma gremove_coherent:
  assumes "coherent now w" and g: "g \<in> set (gview (aw_grants w))" and u: "g_userId g = u" "u \<noteq> []" "list_all dot_char u"
    and "and_then (on_grants (d_gremove deps (the (g_id g)))) (then_invalidate_user deps cfg u) w = (r, w')"
  shows "coherent now w'"
proof -
  have ok: "gok (aw_grants w)" using assms(1) by (simp add: coherent_def db_ok_def)
  obtain q x where q: "d_gremove deps (the (g_id g)) (aw_grants w) = (q, x)" by fastforce
  obtain i where i: "g_id g = Some i" using gr.gids [OF ok] g by auto
  note law = gr.gremove_law [OF ok q]
  show ?thesis
  proof (cases q)
    case (Inl e)
    with q assms(6) law user_fail_coherent [OF assms(1)] show ?thesis by (auto simp: on_grants_def and_then_def)
  next
    case (Inr y)
    then have w': "w' = invalidateUser deps cfg u (w\<lparr>aw_grants := x\<rparr>)"
      using q assms(6) by (simp add: on_grants_def and_then_def then_invalidate_user_def)
    have "gview x = filter (\<lambda>h. g_id h \<noteq> g_id g) (gview (aw_grants w))" using law Inr i by simp
    with filter_others [OF ok g] law u show ?thesis unfolding w' by (intro user_write_coherent [OF assms(1)]) auto
  qed
qed

lemma ginsert_coherent:
  assumes "coherent now w" and u: "g_userId g = u" "u \<noteq> []" "list_all dot_char u" and "g_id g = None"
    and "and_then (on_grants (d_ginsert deps g)) (\<lambda>g. then_invalidate_user deps cfg u (Some g)) w = (r, w')"
  shows "coherent now w'"
proof -
  have ok: "gok (aw_grants w)" using assms(1) by (simp add: coherent_def db_ok_def)
  obtain q x where q: "d_ginsert deps g (aw_grants w) = (q, x)" by fastforce
  note law = gr.ginsert_law [OF ok assms(5) q]
  show ?thesis
  proof (cases q)
    case (Inl e)
    with q assms(6) law user_fail_coherent [OF assms(1)] show ?thesis by (auto simp: on_grants_def and_then_def)
  next
    case (Inr y)
    then have w': "w' = invalidateUser deps cfg u (w\<lparr>aw_grants := x\<rparr>)"
      using q assms(6) by (simp add: on_grants_def and_then_def then_invalidate_user_def)
    have "gview x = gview (aw_grants w) @ [y]" and "g_userId y = u" using law Inr u by auto
    with law u show ?thesis unfolding w' by (intro user_write_coherent [OF assms(1)]) auto
  qed
qed

lemma applyGrant_coherent:
  assumes "coherent now w" and "list_all dot_char u" and "applyGrant deps cfg u roles rs c fn w = (r, w')"
  shows "coherent now w'"
proof (cases "u = [] \<or> roles = []")
  case True
  with assms show ?thesis by (auto simp: applyGrant_def split: if_splits)
next
  case False
  with assms(3) have run: "and_then (assertRolesExist deps roles) (\<lambda>_. and_then (findGrant deps u c rs) (\<lambda>existing.
      case existing of Some g \<Rightarrow> and_then (on_grants (d_gupdate deps (the (g_id g)) (merged_patch g roles c fn))) (then_invalidate_user deps cfg u)
      | None \<Rightarrow> and_then (on_grants (d_ginsert deps (new_grant u roles rs c fn))) (\<lambda>g. then_invalidate_user deps cfg u (Some g)))) w = (r, w')"
    by (simp add: applyGrant_def)
  then show ?thesis
  proof (cases rule: and_then_cases)
    case (1 e)
    with rolesExist_coherent [OF assms(1)] show ?thesis by auto
  next
    case (2 x w1)
    have c1: "coherent now w1" using rolesExist_coherent [OF assms(1) 2(1)] by simp
    from 2(2) show ?thesis
    proof (cases rule: and_then_cases)
      case (1 e)
      with findGrant_coherent [OF c1] show ?thesis by auto
    next
      case (2 ex w2)
      note fg = findGrant_coherent [OF c1 2(1)]
      show ?thesis
      proof (cases ex)
        case None
        with 2(2) have q: "and_then (on_grants (d_ginsert deps (new_grant u roles rs c fn))) (\<lambda>g. then_invalidate_user deps cfg u (Some g)) w2 = (r, w')" by simp
        show ?thesis by (rule ginsert_coherent [OF _ _ _ assms(2) _ q]) (use fg False in \<open>auto simp: new_grant_def\<close>)
      next
        case (Some g)
        with 2(2) have q: "and_then (on_grants (d_gupdate deps (the (g_id g)) (merged_patch g roles c fn))) (then_invalidate_user deps cfg u) w2 = (r, w')" by simp
        show ?thesis by (rule gupdate_coherent [OF _ _ _ _ assms(2) q]) (use fg False Some in \<open>auto simp: same_db_def\<close>)
      qed
    qed
  qed
qed

lemma applyRevoke_coherent:
  assumes "coherent now w" and "list_all dot_char u" and "applyRevoke deps cfg u roles rs c w = (r, w')"
  shows "coherent now w'"
proof (cases "u = [] \<or> roles = []")
  case True
  with assms show ?thesis by (auto simp: applyRevoke_def split: if_splits)
next
  case False
  let ?rest = "\<lambda>existing. case existing of None \<Rightarrow> ret None
        | Some g \<Rightarrow>
            let remaining = filter (\<lambda>r. r \<notin> set roles) (g_roles g) in
            and_then
              (if remaining \<noteq> []
               then on_grants (d_gupdate deps (the (g_id g)) \<lparr>gp_roles = remaining, gp_companyId = None, gp_friendlyName = None\<rparr>)
               else on_grants (d_gremove deps (the (g_id g))))
              (then_invalidate_user deps cfg u)"
  from False assms(3) have "and_then (findGrant deps u c rs) ?rest w = (r, w')" by (simp add: applyRevoke_def)
  then show ?thesis
  proof (cases rule: and_then_cases)
    case (1 e)
    with findGrant_coherent [OF assms(1)] show ?thesis by auto
  next
    case (2 ex w2)
    note fg = findGrant_coherent [OF assms(1) 2(1)]
    show ?thesis
    proof (cases ex)
      case None
      with 2(2) fg show ?thesis by auto
    next
      case (Some g)
      have g: "g \<in> set (gview (aw_grants w2))" "g_userId g = u" "coherent now w2" using fg Some by (auto simp: same_db_def)
      let ?rem = "filter (\<lambda>r. r \<notin> set roles) (g_roles g)"
      show ?thesis
      proof (cases "?rem = []")
        case True
        with Some 2(2) have q: "and_then (on_grants (d_gremove deps (the (g_id g)))) (then_invalidate_user deps cfg u) w2 = (r, w')"
          by (simp add: Let_def)
        show ?thesis by (rule gremove_coherent [OF g(3,1,2) _ assms(2) q]) (use False in simp)
      next
        case nonempty: False
        with Some 2(2) have q: "and_then (on_grants (d_gupdate deps (the (g_id g)) \<lparr>gp_roles = ?rem, gp_companyId = None, gp_friendlyName = None\<rparr>))
            (then_invalidate_user deps cfg u) w2 = (r, w')"
          by (simp add: Let_def)
        show ?thesis by (rule gupdate_coherent [OF g(3,1,2) _ assms(2) q]) (use False in simp)
      qed
    qed
  qed
qed

text \<open>Who may manage: the requests of the guard must be plain, unless the caller is absent.\<close>

definition plain_manager :: "acl_config \<Rightarrow> string \<Rightarrow> string option \<Rightarrow> string option \<Rightarrow> bool" where
  "plain_manager cfg cu c rs \<longleftrightarrow> cu = [] \<or>
     plain_request cu (Some (mk_ctx c rs)) (toList (OneAction (af_roleMgmtAction cfg))) \<and>
     plain_request cu None (toList (OneAction (af_roleSystemAction cfg)))"

definition may_manage :: "acl_config \<Rightarrow> ('g, 'r, 'a, 's) acl_world \<Rightarrow> string \<Rightarrow> string option \<Rightarrow> string option \<Rightarrow> bool" where
  "may_manage cfg w cu c rs \<longleftrightarrow> cu \<noteq> [] \<and>
     (decides w cu (Some (mk_ctx c rs)) (toList (OneAction (af_roleMgmtAction cfg))) \<or>
      decides w cu None (toList (OneAction (af_roleSystemAction cfg))))"

lemma check_no_user_then: "and_then (checkAction deps cfg now took [] ctx act) f w = f False w"
  by (simp add: checkAction_no_user)

lemma assertCanManage_coherent:
  assumes "coherent now w" and "plain_manager cfg cu c rs" and "assertCanManage deps cfg now took cu c rs verb w = (r, w')"
  shows "coherent now w' \<and> same_db w w' \<and> (r = Inr () \<longrightarrow> may_manage cfg w cu c rs)"
proof (cases "cu = []")
  case True
  with assms show ?thesis by (auto simp: assertCanManage_def check_no_user_then)
next
  case False
  have p: "plain_request cu (Some (mk_ctx c rs)) (toList (OneAction (af_roleMgmtAction cfg)))"
    "plain_request cu None (toList (OneAction (af_roleSystemAction cfg)))"
    using assms(2) False by (simp_all add: plain_manager_def)
  from assms(3) show ?thesis unfolding assertCanManage_def
  proof (cases rule: and_then_cases)
    case (1 e)
    with checkAction_coherent [OF assms(1) p(1) 1(1)] show ?thesis by simp
  next
    case (2 ok w1)
    note c1 = checkAction_coherent [OF assms(1) p(1) 2(1)]
    show ?thesis
    proof (cases ok)
      case True
      with 2 c1 False show ?thesis by (auto simp: may_manage_def)
    next
      case no: False
      with 2(2) have "and_then (checkAction deps cfg now took cu None (OneAction (af_roleSystemAction cfg))) (\<lambda>ok2.
         if ok2 then ret () else throw (forbidden (CHR 0x27 # af_roleMgmtAction cfg @ [CHR 0x27] @ '' on the target resource, or the system-level '' @
              CHR 0x27 # af_roleSystemAction cfg @ [CHR 0x27] @ '', is required to '' @ verb))) w1 = (r, w')" by simp
      then show ?thesis
      proof (cases rule: and_then_cases)
        case (1 e)
        with checkAction_coherent [OF conjunct1 [OF c1] p(2) 1(1)] c1 show ?thesis by (auto intro: same_db_trans)
      next
        case (2 ok2 w2)
        note c2 = checkAction_coherent [OF conjunct1 [OF c1] p(2) 2(1)]
        have "same_db w w2" and "decides w1 = decides w" using c1 c2 same_db_decides by (auto intro: same_db_trans)
        with 2(2) c2 False show ?thesis by (auto simp: may_manage_def split: if_splits)
      qed
    qed
  qed
qed

lemma all_write_coherent:
  assumes "coherent now w" and "db_ok w'"
  shows "coherent now (invalidateAll deps cfg (w'\<lparr>aw_cache := aw_cache w\<rparr>))"
  by (rule coherent_after_all_change [OF assms(1)]) (use assms in \<open>simp_all add: db_ok_def\<close>)

lemma on_actions_coherent:
  assumes "coherent now w" and "\<And>q x. f (aw_actions w) = (q, x) \<Longrightarrow> aok x"
    and "and_then (on_actions f) (then_invalidate_all deps cfg) w = (r, w')"
  shows "coherent now w'"
proof -
  obtain q x where q: "f (aw_actions w) = (q, x)" by fastforce
  have w1: "coherent now (w\<lparr>aw_actions := x\<rparr>)" using assms(1) assms(2) [OF q] by (simp add: coherent_def db_ok_def)
  show ?thesis
  proof (cases q)
    case (Inl e)
    with q assms(3) w1 show ?thesis by (simp add: on_actions_def and_then_def)
  next
    case (Inr y)
    with q assms(3) have "w' = invalidateAll deps cfg (w\<lparr>aw_actions := x\<rparr>)"
      by (simp add: on_actions_def and_then_def then_invalidate_all_def)
    with all_write_coherent [OF w1, of "w\<lparr>aw_actions := x\<rparr>"] w1 show ?thesis by (simp add: coherent_def)
  qed
qed

lemma on_roles_coherent:
  assumes "coherent now w" and "\<And>q x. f (aw_roles w) = (q, x) \<Longrightarrow> rok x \<and> (\<forall>e. q = Inl e \<longrightarrow> rview x = rview (aw_roles w))"
    and "and_then (on_roles f) (then_invalidate_all deps cfg) w = (r, w')"
  shows "coherent now w'"
proof -
  obtain q x where q: "f (aw_roles w) = (q, x)" by fastforce
  show ?thesis
  proof (cases q)
    case (Inl e)
    with q assms(3) assms(1) assms(2) [OF q] show ?thesis by (auto simp: on_roles_def and_then_def coherent_def db_ok_def)
  next
    case (Inr y)
    with q assms(3) have w': "w' = invalidateAll deps cfg (w\<lparr>aw_roles := x\<rparr>)"
      by (simp add: on_roles_def and_then_def then_invalidate_all_def)
    have "db_ok (w\<lparr>aw_roles := x\<rparr>)" using assms(1) assms(2) [OF q] by (simp add: coherent_def db_ok_def)
    with all_write_coherent [OF assms(1), of "w\<lparr>aw_roles := x\<rparr>"] show ?thesis by (simp add: w')
  qed
qed

lemma role_ops_coherent:
  assumes "coherent now w"
  shows "upsertRole deps cfg n acts desc w = (r1, w1) \<Longrightarrow> coherent now w1"
    and "deleteRole deps cfg n w = (r2, w2) \<Longrightarrow> coherent now w2"
    and "upsertAction deps cfg n desc w = (r3, w3) \<Longrightarrow> coherent now w3"
    and "deleteAction deps cfg n w = (r4, w4) \<Longrightarrow> coherent now w4"
proof -
  have rok: "coherent now v \<Longrightarrow> rok (aw_roles v)" and aok: "coherent now v \<Longrightarrow> aok (aw_actions v)" for v
    by (simp_all add: coherent_def db_ok_def)
  have up: "rok x \<and> (\<forall>e. q = Inl e \<longrightarrow> rview x = rview s)" if "rok s" and "d_rupsert deps m s = (q, x)" for m s q x
    using rr.rupsert_law [OF that] by auto
  have rm: "rok x \<and> (\<forall>e. q = Inl e \<longrightarrow> rview x = rview s)" if "rok s" and "d_rremove deps m s = (q, x)" for m s q x
    using rr.rremove_law [OF that] by auto
  show "coherent now w1" if run: "upsertRole deps cfg n acts desc w = (r1, w1)"
  proof (cases "n = [] \<or> acts = []")
    case True
    with run assms show ?thesis by (auto simp: upsertRole_def split: if_splits)
  next
    case False
    with run have "and_then (assertActionsExist deps acts) (\<lambda>_. and_then (on_roles (d_rupsert deps \<lparr>ro_name = n, ro_description = desc, ro_actions = acts\<rparr>))
        (then_invalidate_all deps cfg)) w = (r1, w1)" by (simp add: upsertRole_def)
    then show ?thesis
    proof (cases rule: and_then_cases)
      case (1 e)
      with actionsExist_coherent [OF assms 1(1)] show ?thesis by simp
    next
      case (2 x v)
      note c = conjunct1 [OF actionsExist_coherent [OF assms 2(1)]]
      show ?thesis by (rule on_roles_coherent [OF c _ 2(2)]) (rule up [OF rok [OF c]])
    qed
  qed
  show "coherent now w2" if run: "deleteRole deps cfg n w = (r2, w2)"
  proof (cases "n = []")
    case False
    with run have "and_then (on_roles (d_rremove deps n)) (then_invalidate_all deps cfg) w = (r2, w2)" by (simp add: deleteRole_def)
    then show ?thesis by (rule on_roles_coherent [OF assms, rotated]) (rule rm [OF rok [OF assms]])
  qed (use run assms in \<open>simp add: deleteRole_def\<close>)
  show "coherent now w3" if run: "upsertAction deps cfg n desc w = (r3, w3)"
  proof (cases "n = []")
    case False
    with run have "and_then (on_actions (d_aupsert deps \<lparr>an_name = n, an_description = desc\<rparr>)) (then_invalidate_all deps cfg) w = (r3, w3)"
      by (simp add: upsertAction_def)
    then show ?thesis by (rule on_actions_coherent [OF assms, rotated]) (rule ar.aupsert_law [OF aok [OF assms]])
  qed (use run assms in \<open>simp add: upsertAction_def\<close>)
  show "coherent now w4" if run: "deleteAction deps cfg n w = (r4, w4)"
  proof (cases "n = []")
    case False
    with run have "and_then (on_actions (d_aremove deps n)) (then_invalidate_all deps cfg) w = (r4, w4)" by (simp add: deleteAction_def)
    then show ?thesis by (rule on_actions_coherent [OF assms, rotated]) (rule ar.aremove_law [OF aok [OF assms]])
  qed (use run assms in \<open>simp add: deleteAction_def\<close>)
qed

text \<open>The effect of the writes on the grants.\<close>

lemma write_effect:
  assumes "gok (aw_grants w)" and "f (aw_grants w) = (q, x)"
    and "and_then (on_grants f) (\<lambda>y. then_invalidate_user deps cfg u (h y)) w = (r, w')"
  shows "aw_grants w' = x \<and> aw_roles w' = aw_roles w \<and> (case q of Inl e \<Rightarrow> r = Inl e | Inr y \<Rightarrow> r = Inr (h y))"
proof (cases q)
  case (Inl e)
  with assms(2,3) show ?thesis by (auto simp: on_grants_def and_then_def)
next
  case (Inr y)
  with assms(2,3) have "r = Inr (h y)" and "w' = invalidateUser deps cfg u (w\<lparr>aw_grants := x\<rparr>)"
    by (simp_all add: on_grants_def and_then_def then_invalidate_user_def)
  with Inr show ?thesis by simp
qed

lemma id_eq_iff:
  assumes "gok s" and "g \<in> set (gview s)" and "g_id g = Some i" and "h \<in> set (gview s)"
  shows "g_id h = Some i \<longleftrightarrow> h = g"
proof
  assume "g_id h = Some i"
  then have "g_id h = g_id g" by (simp only: assms(3))
  then show "h = g" by (rule id_owner [OF assms(1,2,4)])
next
  assume "h = g"
  then show "g_id h = Some i" by (simp only: assms(3))
qed

lemma map_id_eq:
  assumes "gok s" and "g \<in> set (gview s)" and "g_id g = Some i"
  shows "map (\<lambda>h. if g_id h = Some i then f h else h) (gview s) = map (\<lambda>h. if h = g then f h else h) (gview s)"
  by (rule map_cong [OF refl]) (simp only: id_eq_iff [OF assms])

lemma filter_id_eq:
  assumes "gok s" and "g \<in> set (gview s)" and "g_id g = Some i"
  shows "filter (\<lambda>h. g_id h \<noteq> Some i) (gview s) = filter (\<lambda>h. h \<noteq> g) (gview s)"
  by (rule filter_cong [OF refl]) (simp only: id_eq_iff [OF assms])

lemma applyGrant_effect:
  assumes "coherent now w" and "applyGrant deps cfg u roles rs c fn w = (r, w')"
  shows "case r of
      Inl e \<Rightarrow> same_db w w'
    | Inr res \<Rightarrow> u \<noteq> [] \<and> set roles \<subseteq> ro_name ` set (rview (aw_roles w)) \<and> rview (aw_roles w') = rview (aw_roles w) \<and>
        ((\<exists>g \<in> set (gview (aw_grants w)). g_userId g = u \<and> grantMatchesResource g (Some (mk_ctx c rs)) \<and>
            gview (aw_grants w') = map (\<lambda>h. if h = g then apply_patch (merged_patch g roles c fn) h else h) (gview (aw_grants w))) \<or>
         ((\<forall>g \<in> set (gview (aw_grants w)). g_userId g = u \<longrightarrow> \<not> grantMatchesResource g (Some (mk_ctx c rs))) \<and>
          (\<exists>i. gview (aw_grants w') = gview (aw_grants w) @ [(new_grant u roles rs c fn)\<lparr>g_id := Some i\<rparr>])))"
proof (cases "u = [] \<or> roles = []")
  case True
  with assms show ?thesis by (auto simp: applyGrant_def split: if_splits)
next
  case False
  with assms(2) have run: "and_then (assertRolesExist deps roles) (\<lambda>_. and_then (findGrant deps u c rs) (\<lambda>existing.
      case existing of Some g \<Rightarrow> and_then (on_grants (d_gupdate deps (the (g_id g)) (merged_patch g roles c fn))) (then_invalidate_user deps cfg u)
      | None \<Rightarrow> and_then (on_grants (d_ginsert deps (new_grant u roles rs c fn))) (\<lambda>g. then_invalidate_user deps cfg u (Some g)))) w = (r, w')"
    by (simp add: applyGrant_def)
  then show ?thesis
  proof (cases rule: and_then_cases)
    case (1 e)
    with rolesExist_coherent [OF assms(1)] show ?thesis by auto
  next
    case (2 x w1)
    note re = rolesExist_coherent [OF assms(1) 2(1)]
    from 2(2) show ?thesis
    proof (cases rule: and_then_cases)
      case (1 e)
      with findGrant_coherent [OF conjunct1 [OF re]] re show ?thesis by (auto intro: same_db_trans)
    next
      case (2 ex w2)
      note fg = findGrant_coherent [OF conjunct1 [OF re] 2(1)]
      have ok: "gok (aw_grants w2)" using fg by (simp add: coherent_def db_ok_def)
      have same: "same_db w w2" using re fg by (auto intro: same_db_trans)
      have roles: "set roles \<subseteq> ro_name ` set (rview (aw_roles w))" using re by (cases x) auto
      show ?thesis
      proof (cases ex)
        case None
        obtain q s where q: "d_ginsert deps (new_grant u roles rs c fn) (aw_grants w2) = (q, s)" by fastforce
        have "g_id (new_grant u roles rs c fn) = None" by (simp add: new_grant_def)
        note law = gr.ginsert_law [OF ok this q]
        have "and_then (on_grants (d_ginsert deps (new_grant u roles rs c fn))) (\<lambda>g. then_invalidate_user deps cfg u (Some g)) w2 = (r, w')"
          using 2(2) None by simp
        from write_effect [OF ok q this] law same roles fg None re False show ?thesis
          by (cases q) (auto simp: same_db_def)
      next
        case (Some g)
        have g: "g \<in> set (gview (aw_grants w2))" "g_userId g = u" "grantMatchesResource g (Some (mk_ctx c rs))"
          using fg Some by (auto simp: same_db_def)
        obtain i where i: "g_id g = Some i" using gr.gids [OF ok] g by auto
        obtain q s where q: "d_gupdate deps (the (g_id g)) (merged_patch g roles c fn) (aw_grants w2) = (q, s)" by fastforce
        note law = gr.gupdate_law [OF ok q]
        have "and_then (on_grants (d_gupdate deps (the (g_id g)) (merged_patch g roles c fn))) (then_invalidate_user deps cfg u) w2 = (r, w')"
          using 2(2) Some by simp
        from write_effect [OF ok q this] law same roles g i False map_id_eq [OF ok g(1) i] show ?thesis
          by (cases q) (auto simp: same_db_def)
      qed
    qed
  qed
qed

lemma applyRevoke_effect:
  assumes "coherent now w" and "applyRevoke deps cfg u roles rs c w = (r, w')"
  shows "case r of
      Inl e \<Rightarrow> same_db w w'
    | Inr res \<Rightarrow> u \<noteq> [] \<and> rview (aw_roles w') = rview (aw_roles w) \<and>
        ((\<forall>g \<in> set (gview (aw_grants w)). g_userId g = u \<longrightarrow> \<not> grantMatchesResource g (Some (mk_ctx c rs))) \<and> same_db w w' \<or>
         (\<exists>g \<in> set (gview (aw_grants w)). g_userId g = u \<and> grantMatchesResource g (Some (mk_ctx c rs)) \<and>
            gview (aw_grants w') =
              (if set (g_roles g) \<subseteq> set roles then filter (\<lambda>h. h \<noteq> g) (gview (aw_grants w))
               else map (\<lambda>h. if h = g then h\<lparr>g_roles := filter (\<lambda>r. r \<notin> set roles) (g_roles h)\<rparr> else h) (gview (aw_grants w)))))"
proof (cases "u = [] \<or> roles = []")
  case True
  with assms show ?thesis by (auto simp: applyRevoke_def split: if_splits)
next
  case False
  let ?rest = "\<lambda>existing. case existing of None \<Rightarrow> ret None
        | Some g \<Rightarrow>
            let remaining = filter (\<lambda>r. r \<notin> set roles) (g_roles g) in
            and_then
              (if remaining \<noteq> []
               then on_grants (d_gupdate deps (the (g_id g)) \<lparr>gp_roles = remaining, gp_companyId = None, gp_friendlyName = None\<rparr>)
               else on_grants (d_gremove deps (the (g_id g))))
              (then_invalidate_user deps cfg u)"
  from False assms(2) have "and_then (findGrant deps u c rs) ?rest w = (r, w')" by (simp add: applyRevoke_def)
  then show ?thesis
  proof (cases rule: and_then_cases)
    case (1 e)
    with findGrant_coherent [OF assms(1)] show ?thesis by auto
  next
    case (2 ex w2)
    note fg = findGrant_coherent [OF assms(1) 2(1)]
    have ok: "gok (aw_grants w2)" using fg by (simp add: coherent_def db_ok_def)
    show ?thesis
    proof (cases ex)
      case None
      with 2(2) fg False show ?thesis by (auto simp: same_db_def)
    next
      case (Some g)
      have g: "g \<in> set (gview (aw_grants w2))" "g_userId g = u" "grantMatchesResource g (Some (mk_ctx c rs))"
        using fg Some by (auto simp: same_db_def)
      obtain i where i: "g_id g = Some i" using gr.gids [OF ok] g by auto
      let ?rem = "filter (\<lambda>r. r \<notin> set roles) (g_roles g)"
      let ?p = "\<lparr>gp_roles = ?rem, gp_companyId = None, gp_friendlyName = None\<rparr>"
      have empty_iff: "?rem = [] \<longleftrightarrow> set (g_roles g) \<subseteq> set roles" by (auto simp: filter_empty_conv)
      have patch: "(\<lambda>h. if h = g then apply_patch ?p h else h) = (\<lambda>h. if h = g then h\<lparr>g_roles := filter (\<lambda>r. r \<notin> set roles) (g_roles h)\<rparr> else h)"
        by (auto simp: fun_eq_iff apply_patch_def)
      show ?thesis
      proof (cases "?rem = []")
        case True
        obtain q s where q: "d_gremove deps (the (g_id g)) (aw_grants w2) = (q, s)" by fastforce
        from True Some 2(2) have run: "and_then (on_grants (d_gremove deps (the (g_id g)))) (then_invalidate_user deps cfg u) w2 = (r, w')"
          by (simp add: Let_def)
        have sub: "set (g_roles g) \<subseteq> set roles" using True empty_iff by simp
        from write_effect [OF ok q run] gr.gremove_law [OF ok q] fg g i sub False filter_id_eq [OF ok g(1) i] show ?thesis
          by (cases q) (auto simp: same_db_def)
      next
        case nonempty: False
        obtain q s where q: "d_gupdate deps (the (g_id g)) ?p (aw_grants w2) = (q, s)" by fastforce
        from nonempty Some 2(2) have run: "and_then (on_grants (d_gupdate deps (the (g_id g)) ?p)) (then_invalidate_user deps cfg u) w2 = (r, w')"
          by (simp add: Let_def)
        have nsub: "\<not> set (g_roles g) \<subseteq> set roles" using nonempty empty_iff by simp
        note eff = write_effect [OF ok q run]
        note law = gr.gupdate_law [OF ok q]
        have base: "gview (aw_grants w2) = gview (aw_grants w)" "rview (aw_roles w2) = rview (aw_roles w)"
          using fg by (simp_all add: same_db_def)
        show ?thesis
        proof (cases q)
          case (Inl e)
          with eff law base show ?thesis by (simp add: same_db_def)
        next
          case (Inr y)
          then have "gview (aw_grants w') = map (\<lambda>h. if g_id h = Some i then apply_patch ?p h else h) (gview (aw_grants w2))"
            using eff law i by simp
          then have "gview (aw_grants w') = map (\<lambda>h. if h = g then h\<lparr>g_roles := filter (\<lambda>r. r \<notin> set roles) (g_roles h)\<rparr> else h) (gview (aw_grants w))"
            using map_id_eq [OF ok g(1) i, of "apply_patch ?p"] patch base by metis
          moreover have "r = Inr y" and "rview (aw_roles w') = rview (aw_roles w)" using eff Inr base by auto
          ultimately show ?thesis using g base nsub False by auto
        qed
      qed
    qed
  qed
qed

end

section \<open>The relation the grants stand for\<close>

text \<open>The roles held by a user on one (company, resource).\<close>

definition held :: "acl_grant list \<Rightarrow> string \<Rightarrow> string option \<Rightarrow> string option \<Rightarrow> string set" where
  "held gs u c r = {x. \<exists>g \<in> set gs. g_userId g = u \<and> norm (g_companyId g) = c \<and> norm (g_resourceId g) = r \<and> x \<in> set (g_roles g)}"

definition scope_of :: "acl_grant \<Rightarrow> string \<times> string option \<times> string option" where
  "scope_of g = (g_userId g, norm (g_companyId g), norm (g_resourceId g))"

text \<open>One record per (user, company, resource).\<close>

definition one_per_scope :: "acl_grant list \<Rightarrow> bool" where
  "one_per_scope gs \<longleftrightarrow> distinct (map scope_of gs)"

lemma held_alt: "held gs u c r = {x. \<exists>g \<in> set gs. scope_of g = (u, c, r) \<and> x \<in> set (g_roles g)}"
  by (simp add: held_def scope_of_def)

lemma matches_scope:
  "g_userId g = u \<and> grantMatchesResource g (Some (mk_ctx c rs)) \<longleftrightarrow> scope_of g = (u, norm c, norm rs)"
  by (auto simp: grantMatchesResource_def scope_of_def mk_ctx_def)

lemma merged_scope:
  "scope_of g = (u, norm c, norm rs) \<Longrightarrow> scope_of (apply_patch (merged_patch g roles c fn) g) = scope_of g"
  by (cases c) (auto simp: scope_of_def apply_patch_def merged_patch_def)

lemma merged_roles: "set (g_roles (apply_patch (merged_patch g roles c fn) g)) = set (g_roles g) \<union> set roles"
  by (simp add: apply_patch_def merged_patch_def)

lemma map_at_scope:
  assumes "\<And>h. h = g \<Longrightarrow> scope_of (f h) = scope_of h"
  shows "map scope_of (map (\<lambda>h. if h = g then f h else h) gs) = map scope_of gs"
  using assms by simp

lemma held_map_at:
  assumes "g \<in> set gs" and "scope_of (f g) = scope_of g"
  shows "x \<in> held (map (\<lambda>h. if h = g then f h else h) gs) u c r \<longleftrightarrow>
    (if scope_of g = (u, c, r) \<and> x \<in> set (g_roles (f g)) then True
     else \<exists>h \<in> set gs. h \<noteq> g \<and> scope_of h = (u, c, r) \<and> x \<in> set (g_roles h))"
  using assms unfolding held_alt by auto

lemma held_map_other:
  assumes "scope_of (f g) = scope_of g" and "scope_of g \<noteq> (u, c, r)"
  shows "held (map (\<lambda>h. if h = g then f h else h) gs) u c r = held gs u c r"
proof -
  have "(scope_of (if h = g then f h else h) = (u, c, r) \<and> x \<in> set (g_roles (if h = g then f h else h))) =
      (scope_of h = (u, c, r) \<and> x \<in> set (g_roles h))" for h x
    using assms by auto
  then show ?thesis unfolding held_alt set_map bex_simps by (simp only: bex_simps)
qed

lemma grant_relation:
  assumes "(\<exists>g \<in> set gs. g_userId g = u \<and> grantMatchesResource g (Some (mk_ctx c rs)) \<and>
        gs' = map (\<lambda>h. if h = g then apply_patch (merged_patch g roles c fn) h else h) gs) \<or>
      ((\<forall>g \<in> set gs. g_userId g = u \<longrightarrow> \<not> grantMatchesResource g (Some (mk_ctx c rs))) \<and>
        (\<exists>i. gs' = gs @ [(new_grant u roles rs c fn)\<lparr>g_id := Some i\<rparr>]))"
    and "one_per_scope gs"
  shows "one_per_scope gs' \<and>
    held gs' v d e = (if (v, d, e) = (u, norm c, norm rs) then held gs v d e \<union> set roles else held gs v d e)"
  using assms(1)
proof
  assume "\<exists>g \<in> set gs. g_userId g = u \<and> grantMatchesResource g (Some (mk_ctx c rs)) \<and>
      gs' = map (\<lambda>h. if h = g then apply_patch (merged_patch g roles c fn) h else h) gs"
  then obtain g where g: "g \<in> set gs" "scope_of g = (u, norm c, norm rs)"
    and gs': "gs' = map (\<lambda>h. if h = g then apply_patch (merged_patch g roles c fn) h else h) gs"
    using matches_scope by blast
  note sc = merged_scope [OF g(2), of roles fn]
  have one: "one_per_scope gs'"
    using assms(2) unfolding one_per_scope_def gs' by (subst map_at_scope) (auto simp: sc)
  have "x \<in> held gs' v d e \<longleftrightarrow> x \<in> (if (v, d, e) = (u, norm c, norm rs) then held gs v d e \<union> set roles else held gs v d e)" for x
  proof (cases "(v, d, e) = (u, norm c, norm rs)")
    case True
    then show ?thesis
      unfolding gs' held_map_at [of g gs "apply_patch (merged_patch g roles c fn)", OF g(1) sc] merged_roles using g by (auto simp: held_alt)
  next
    case False
    then have "scope_of g \<noteq> (v, d, e)" using g by auto
    then have "held gs' v d e = held gs v d e"
      unfolding gs' by (rule held_map_other [of "apply_patch (merged_patch g roles c fn)" g, OF sc])
    then show ?thesis by (simp only: if_not_P [OF False])
  qed
  with one show ?thesis by blast
next
  assume "(\<forall>g \<in> set gs. g_userId g = u \<longrightarrow> \<not> grantMatchesResource g (Some (mk_ctx c rs))) \<and>
      (\<exists>i. gs' = gs @ [(new_grant u roles rs c fn)\<lparr>g_id := Some i\<rparr>])"
  then obtain i where fresh: "\<forall>g \<in> set gs. scope_of g \<noteq> (u, norm c, norm rs)"
    and gs': "gs' = gs @ [(new_grant u roles rs c fn)\<lparr>g_id := Some i\<rparr>]"
    using matches_scope by blast
  have sc: "scope_of ((new_grant u roles rs c fn)\<lparr>g_id := Some i\<rparr>) = (u, norm c, norm rs)"
    "set (g_roles ((new_grant u roles rs c fn)\<lparr>g_id := Some i\<rparr>)) = set roles"
    by (simp_all add: scope_of_def new_grant_def)
  have "one_per_scope gs'" using assms(2) fresh sc unfolding one_per_scope_def gs' by auto
  moreover have "held gs' v d e = (if (v, d, e) = (u, norm c, norm rs) then held gs v d e \<union> set roles else held gs v d e)"
    unfolding gs' held_alt using sc by auto
  ultimately show ?thesis by blast
qed

lemma one_per_scopeD:
  "one_per_scope gs \<Longrightarrow> g \<in> set gs \<Longrightarrow> h \<in> set gs \<Longrightarrow> scope_of g = scope_of h \<Longrightarrow> g = h"
  by (auto simp: one_per_scope_def distinct_map inj_on_def)

lemma revoke_relation:
  assumes "(\<forall>g \<in> set gs. g_userId g = u \<longrightarrow> \<not> grantMatchesResource g (Some (mk_ctx c rs))) \<and> gs' = gs \<or>
      (\<exists>g \<in> set gs. g_userId g = u \<and> grantMatchesResource g (Some (mk_ctx c rs)) \<and>
        gs' = (if set (g_roles g) \<subseteq> set roles then filter (\<lambda>h. h \<noteq> g) gs
               else map (\<lambda>h. if h = g then h\<lparr>g_roles := filter (\<lambda>r. r \<notin> set roles) (g_roles h)\<rparr> else h) gs))"
    and "one_per_scope gs"
  shows "one_per_scope gs' \<and>
    held gs' v d e = (if (v, d, e) = (u, norm c, norm rs) then held gs v d e - set roles else held gs v d e)"
  using assms(1)
proof
  assume none: "(\<forall>g \<in> set gs. g_userId g = u \<longrightarrow> \<not> grantMatchesResource g (Some (mk_ctx c rs))) \<and> gs' = gs"
  then have "\<forall>g \<in> set gs. scope_of g \<noteq> (u, norm c, norm rs)" using matches_scope by blast
  then have "held gs u (norm c) (norm rs) = {}" unfolding held_alt by blast
  with none assms(2) show ?thesis by simp
next
  assume "\<exists>g \<in> set gs. g_userId g = u \<and> grantMatchesResource g (Some (mk_ctx c rs)) \<and>
        gs' = (if set (g_roles g) \<subseteq> set roles then filter (\<lambda>h. h \<noteq> g) gs
               else map (\<lambda>h. if h = g then h\<lparr>g_roles := filter (\<lambda>r. r \<notin> set roles) (g_roles h)\<rparr> else h) gs)"
  then obtain g where g: "g \<in> set gs" "scope_of g = (u, norm c, norm rs)"
    and gs': "gs' = (if set (g_roles g) \<subseteq> set roles then filter (\<lambda>h. h \<noteq> g) gs
               else map (\<lambda>h. if h = g then h\<lparr>g_roles := filter (\<lambda>r. r \<notin> set roles) (g_roles h)\<rparr> else h) gs)"
    using matches_scope by blast
  have only: "h = g" if "h \<in> set gs" "scope_of h = (u, norm c, norm rs)" for h
    using one_per_scopeD [OF assms(2) g(1) that(1)] g(2) that(2) by simp
  show ?thesis
  proof (cases "set (g_roles g) \<subseteq> set roles")
    case True
    then have "gs' = filter (\<lambda>h. h \<noteq> g) gs" using gs' by simp
    moreover have "one_per_scope (filter (\<lambda>h. h \<noteq> g) gs)" using assms(2) by (simp add: one_per_scope_def distinct_map_filter)
    moreover have "x \<in> held (filter (\<lambda>h. h \<noteq> g) gs) v d e \<longleftrightarrow>
        x \<in> (if (v, d, e) = (u, norm c, norm rs) then held gs v d e - set roles else held gs v d e)" for x
    proof (cases "(v, d, e) = (u, norm c, norm rs)")
      case same: True
      have "held (filter (\<lambda>h. h \<noteq> g) gs) v d e = {}" using only same by (auto simp: held_alt)
      moreover have "held gs v d e - set roles = {}" using only same True by (auto simp: held_alt)
      ultimately show ?thesis unfolding if_P [OF same] by blast
    next
      case False
      then show ?thesis using g(2) by (auto simp: held_alt)
    qed
    ultimately show ?thesis by blast
  next
    case False
    let ?f = "\<lambda>h. h\<lparr>g_roles := filter (\<lambda>r. r \<notin> set roles) (g_roles h)\<rparr>"
    have sc: "scope_of (?f h) = scope_of h" for h by (simp add: scope_of_def)
    from False have gs'': "gs' = map (\<lambda>h. if h = g then ?f h else h) gs" using gs' by simp
    have one: "one_per_scope gs'" using assms(2) unfolding one_per_scope_def gs'' by (subst map_at_scope) (auto simp: sc)
    have "x \<in> held gs' v d e \<longleftrightarrow> x \<in> (if (v, d, e) = (u, norm c, norm rs) then held gs v d e - set roles else held gs v d e)" for x
    proof (cases "(v, d, e) = (u, norm c, norm rs)")
      case same: True
      have vde: "scope_of g = (v, d, e)" using g(2) same by (simp only:)
      have uniq: "h = g" if "h \<in> set gs" "scope_of h = (v, d, e)" for h using only that same by (simp only:)
      have a: "\<not> (\<exists>h \<in> set gs. h \<noteq> g \<and> scope_of h = (v, d, e) \<and> x \<in> set (g_roles h))" using uniq by blast
      have b: "x \<in> held gs v d e \<longleftrightarrow> x \<in> set (g_roles g)" unfolding held_alt using g(1) vde uniq by blast
      have c: "x \<in> set (g_roles (?f g)) \<longleftrightarrow> x \<in> set (g_roles g) \<and> x \<notin> set roles" by simp
      show ?thesis unfolding gs'' held_map_at [of g gs ?f, OF g(1) sc] if_P [OF same] Diff_iff b c using a vde by meson
    next
      case other: False
      then have "scope_of g \<noteq> (v, d, e)" using g by auto
      then have "held gs' v d e = held gs v d e" unfolding gs'' by (rule held_map_other [of ?f g, OF sc])
      then show ?thesis by (simp only: if_not_P [OF other])
    qed
    with one show ?thesis by blast
  qed
qed

section \<open>Runs of the in-memory system\<close>

datatype acl_op =
    CheckOp int string "acl_ctx option" action_arg
  | GrantOp int string "string list" "string option" "string option" "string option" "string option"
  | RevokeOp int string "string list" "string option" "string option" "string option"
  | AdminGrantOp string "string list" "string option" "string option" "string option"
  | AdminRevokeOp string "string list" "string option" "string option"
  | UpsertRoleOp string "string list" "string option"
  | DeleteRoleOp string
  | UpsertActionOp string "string option"
  | DeleteActionOp string

fun acl_step :: "acl_config \<Rightarrow> int \<Rightarrow> acl_op \<Rightarrow> mem_world \<Rightarrow> mem_world" where
  "acl_step cfg now (CheckOp took u ctx act) w = snd (checkAction mem_deps cfg now took u ctx act w)"
| "acl_step cfg now (GrantOp took u roles rs c fn cu) w = snd (grant mem_deps cfg now took u roles rs c fn cu w)"
| "acl_step cfg now (RevokeOp took u roles rs c cu) w = snd (revoke mem_deps cfg now took u roles rs c cu w)"
| "acl_step cfg now (AdminGrantOp u roles rs c fn) w = snd (adminGrant mem_deps cfg u roles rs c fn w)"
| "acl_step cfg now (AdminRevokeOp u roles rs c) w = snd (adminRevoke mem_deps cfg u roles rs c w)"
| "acl_step cfg now (UpsertRoleOp n acts desc) w = snd (upsertRole mem_deps cfg n acts desc w)"
| "acl_step cfg now (DeleteRoleOp n) w = snd (deleteRole mem_deps cfg n w)"
| "acl_step cfg now (UpsertActionOp n desc) w = snd (upsertAction mem_deps cfg n desc w)"
| "acl_step cfg now (DeleteActionOp n) w = snd (deleteAction mem_deps cfg n w)"

definition plain_caller :: "acl_config \<Rightarrow> string option \<Rightarrow> string option \<Rightarrow> string option \<Rightarrow> bool" where
  "plain_caller cfg cu c rs \<longleftrightarrow> coalesce cu [] = [] \<or>
     plain_request (coalesce cu []) (Some (mk_ctx c rs)) (toList (OneAction (af_roleMgmtAction cfg))) \<and>
     plain_request (coalesce cu []) None (toList (OneAction (af_roleSystemAction cfg)))"

fun op_plain :: "acl_config \<Rightarrow> acl_op \<Rightarrow> bool" where
  "op_plain cfg (CheckOp took u ctx act) = plain_request u ctx (toList act)"
| "op_plain cfg (GrantOp took u roles rs c fn cu) = (list_all dot_char u \<and> plain_caller cfg cu c rs)"
| "op_plain cfg (RevokeOp took u roles rs c cu) = (list_all dot_char u \<and> plain_caller cfg cu c rs)"
| "op_plain cfg (AdminGrantOp u roles rs c fn) = list_all dot_char u"
| "op_plain cfg (AdminRevokeOp u roles rs c) = list_all dot_char u"
| "op_plain cfg _ = True"

definition acl_start :: "acl_cache_options option \<Rightarrow> mem_world" where
  "acl_start opts = \<lparr>aw_grants = empty_collection, aw_roles = empty_collection, aw_actions = empty_collection,
     aw_cache = mkAclCache opts (Some []), aw_rolesCache = None, aw_broadcasts = []\<rparr>"

definition acl_run :: "acl_config \<Rightarrow> acl_cache_options option \<Rightarrow> (int \<times> acl_op) list \<Rightarrow> mem_world" where
  "acl_run cfg opts ops = fold (\<lambda>(now, op). acl_step cfg now op) ops (acl_start opts)"

lemma acl_start_coherent: "acl.coherent now (acl_start opts)"
  by (simp add: acl.coherent_def acl.db_ok_def acl_start_def mg_ok_def named_ok_def empty_collection_ok col_all_def)
     (simp add: empty_collection_def mem.serves_def mkAclCache_def mem_live_def)

lemma plain_caller_manager: "plain_caller cfg cu c rs \<longleftrightarrow> acl.plain_manager cfg (coalesce cu []) c rs"
  by (simp add: plain_caller_def acl.plain_manager_def)

lemma grant_step:
  assumes "acl.coherent now w" and "list_all dot_char u" and "plain_caller cfg cu c rs"
  shows "acl.coherent now (snd (grant mem_deps cfg now took u roles rs c fn cu w))"
    and "acl.coherent now (snd (revoke mem_deps cfg now took u roles rs c cu w))"
proof -
  have m: "acl.plain_manager cfg (coalesce cu []) c rs" using assms(3) by (simp add: plain_caller_manager)
  obtain r w' where g: "grant mem_deps cfg now took u roles rs c fn cu w = (r, w')" by fastforce
  from g have "acl.coherent now w'" unfolding grant_def
  proof (cases rule: and_then_cases)
    case (1 e)
    with acl.assertCanManage_coherent [OF assms(1) m 1(1)] show ?thesis by simp
  next
    case (2 x t)
    show ?thesis by (rule acl.applyGrant_coherent [OF _ assms(2) 2(2)]) (use acl.assertCanManage_coherent [OF assms(1) m 2(1)] in simp)
  qed
  with g show "acl.coherent now (snd (grant mem_deps cfg now took u roles rs c fn cu w))" by simp
  obtain r w' where g: "revoke mem_deps cfg now took u roles rs c cu w = (r, w')" by fastforce
  from g have "acl.coherent now w'" unfolding revoke_def
  proof (cases rule: and_then_cases)
    case (1 e)
    with acl.assertCanManage_coherent [OF assms(1) m 1(1)] show ?thesis by simp
  next
    case (2 x t)
    show ?thesis by (rule acl.applyRevoke_coherent [OF _ assms(2) 2(2)]) (use acl.assertCanManage_coherent [OF assms(1) m 2(1)] in simp)
  qed
  with g show "acl.coherent now (snd (revoke mem_deps cfg now took u roles rs c cu w))" by simp
qed

lemma acl_step_coherent:
  assumes "acl.coherent now w" and "op_plain cfg op"
  shows "acl.coherent now (acl_step cfg now op w)"
  using assms grant_step [OF assms(1)] acl.checkAction_coherent [OF assms(1)] acl.applyGrant_coherent [OF assms(1)]
    acl.applyRevoke_coherent [OF assms(1)] acl.role_ops_coherent [OF assms(1)]
  by (cases op) (simp_all add: adminGrant_def adminRevoke_def, (metis prod.collapse)+)

lemma acl_fold_coherent:
  "\<lbrakk>acl.coherent t0 w; sorted (t0 # map fst ops @ [now]); list_all (op_plain cfg) (map snd ops)\<rbrakk> \<Longrightarrow>
   acl.coherent now (fold (\<lambda>(now, op). acl_step cfg now op) ops w)"
proof (induction ops arbitrary: w t0)
  case Nil
  then show ?case by (auto intro: acl.coherent_later)
next
  case (Cons top ops)
  obtain t op where top: "top = (t, op)" by (cases top)
  from Cons.prems top have "acl.coherent t w" by (auto intro: acl.coherent_later)
  then have "acl.coherent t (acl_step cfg t op w)" using Cons.prems(3) top by (auto intro: acl_step_coherent)
  from Cons.IH [OF this] Cons.prems top show ?case by simp
qed

lemma acl_run_coherent:
  assumes "sorted (map fst ops @ [now])" and "list_all (op_plain cfg) (map snd ops)"
  shows "acl.coherent now (acl_run cfg opts ops)"
proof -
  let ?t0 = "Min (set (map fst ops @ [now]))"
  have "sorted (?t0 # map fst ops @ [now])" using assms(1) by (simp del: set_append)
  from acl_fold_coherent [OF acl_start_coherent this assms(2)] show ?thesis by (simp add: acl_run_def)
qed

lemma grant_one_per_scope:
  assumes "acl.coherent now w" and "one_per_scope (mg_view (aw_grants w))" and "applyGrant mem_deps cfg u roles rs c fn w = (r, w')"
  shows "one_per_scope (mg_view (aw_grants w'))"
proof (cases r)
  case (Inl e)
  with acl.applyGrant_effect [OF assms(1,3)] assms(2) show ?thesis by (simp add: acl.same_db_def)
next
  case (Inr res)
  with acl.applyGrant_effect [OF assms(1,3)] grant_relation [OF _ assms(2), of u c rs _ roles fn] show ?thesis by simp
qed

lemma revoke_cases:
  assumes "acl.coherent now w" and "applyRevoke mem_deps cfg u roles rs c w = (Inr res, w')"
  shows "(\<forall>g \<in> set (mg_view (aw_grants w)). g_userId g = u \<longrightarrow> \<not> grantMatchesResource g (Some (mk_ctx c rs))) \<and>
        mg_view (aw_grants w') = mg_view (aw_grants w) \<or>
      (\<exists>g \<in> set (mg_view (aw_grants w)). g_userId g = u \<and> grantMatchesResource g (Some (mk_ctx c rs)) \<and>
        mg_view (aw_grants w') = (if set (g_roles g) \<subseteq> set roles then filter (\<lambda>h. h \<noteq> g) (mg_view (aw_grants w))
               else map (\<lambda>h. if h = g then h\<lparr>g_roles := filter (\<lambda>r. r \<notin> set roles) (g_roles h)\<rparr> else h) (mg_view (aw_grants w))))"
  using acl.applyRevoke_effect [OF assms] unfolding acl.same_db_def sum.case by blast

lemma revoke_one_per_scope:
  assumes "acl.coherent now w" and "one_per_scope (mg_view (aw_grants w))" and "applyRevoke mem_deps cfg u roles rs c w = (r, w')"
  shows "one_per_scope (mg_view (aw_grants w'))"
proof (cases r)
  case (Inl e)
  with acl.applyRevoke_effect [OF assms(1,3)] assms(2) show ?thesis by (simp add: acl.same_db_def)
next
  case (Inr res)
  from revoke_relation [OF revoke_cases [OF assms(1) assms(3) [unfolded Inr]] assms(2)] show ?thesis by blast
qed

lemma role_ops_grants:
  "aw_grants (snd (upsertRole mem_deps cfg n acts desc w)) = aw_grants w"
  "aw_grants (snd (deleteRole mem_deps cfg n w)) = aw_grants w"
  "aw_grants (snd (upsertAction mem_deps cfg n desc w)) = aw_grants w"
  "aw_grants (snd (deleteAction mem_deps cfg n w)) = aw_grants w"
  by (simp_all add: upsertRole_def deleteRole_def upsertAction_def deleteAction_def and_then_def on_roles_def on_actions_def
      then_invalidate_all_def assertActionsExist_def Let_def split: prod.splits sum.splits)

lemma acl_step_one:
  assumes "acl.coherent now w" and "op_plain cfg op" and one: "one_per_scope (mg_view (aw_grants w))"
  shows "one_per_scope (mg_view (aw_grants (acl_step cfg now op w)))"
proof (cases op)
  case (CheckOp took u ctx act)
  obtain r w' where "checkAction mem_deps cfg now took u ctx act w = (r, w')" by fastforce
  with acl.checkAction_coherent [OF assms(1), of u ctx act cfg took r w'] assms CheckOp show ?thesis by (simp add: acl.same_db_def)
next
  case (GrantOp took u roles rs c fn cu)
  have m: "acl.plain_manager cfg (coalesce cu []) c rs" using assms(2) GrantOp by (simp add: plain_caller_manager)
  obtain r w' where g: "grant mem_deps cfg now took u roles rs c fn cu w = (r, w')" by fastforce
  from g have "one_per_scope (mg_view (aw_grants w'))" unfolding grant_def
  proof (cases rule: and_then_cases)
    case (1 e)
    with acl.assertCanManage_coherent [OF assms(1) m 1(1)] one show ?thesis by (simp add: acl.same_db_def)
  next
    case (2 x t)
    show ?thesis by (rule grant_one_per_scope [of now, OF _ _ 2(2)])
      (use acl.assertCanManage_coherent [OF assms(1) m 2(1)] one in \<open>simp_all add: acl.same_db_def\<close>)
  qed
  with g GrantOp show ?thesis by simp
next
  case (RevokeOp took u roles rs c cu)
  have m: "acl.plain_manager cfg (coalesce cu []) c rs" using assms(2) RevokeOp by (simp add: plain_caller_manager)
  obtain r w' where g: "revoke mem_deps cfg now took u roles rs c cu w = (r, w')" by fastforce
  from g have "one_per_scope (mg_view (aw_grants w'))" unfolding revoke_def
  proof (cases rule: and_then_cases)
    case (1 e)
    with acl.assertCanManage_coherent [OF assms(1) m 1(1)] one show ?thesis by (simp add: acl.same_db_def)
  next
    case (2 x t)
    show ?thesis by (rule revoke_one_per_scope [of now, OF _ _ 2(2)])
      (use acl.assertCanManage_coherent [OF assms(1) m 2(1)] one in \<open>simp_all add: acl.same_db_def\<close>)
  qed
  with g RevokeOp show ?thesis by simp
next
  case (AdminGrantOp u roles rs c fn)
  obtain r w' where "applyGrant mem_deps cfg u roles rs c fn w = (r, w')" by fastforce
  with grant_one_per_scope [OF assms(1) one this] AdminGrantOp show ?thesis by (simp add: adminGrant_def)
next
  case (AdminRevokeOp u roles rs c)
  obtain r w' where "applyRevoke mem_deps cfg u roles rs c w = (r, w')" by fastforce
  with revoke_one_per_scope [OF assms(1) one this] AdminRevokeOp show ?thesis by (simp add: adminRevoke_def)
qed (simp_all add: role_ops_grants one)

lemma acl_fold_one:
  "\<lbrakk>acl.coherent t0 w; one_per_scope (mg_view (aw_grants w)); sorted (t0 # map fst ops @ [now]); list_all (op_plain cfg) (map snd ops)\<rbrakk> \<Longrightarrow>
   one_per_scope (mg_view (aw_grants (fold (\<lambda>(now, op). acl_step cfg now op) ops w)))"
proof (induction ops arbitrary: w t0)
  case Nil
  then show ?case by simp
next
  case (Cons top ops)
  obtain t op where top: "top = (t, op)" by (cases top)
  have op: "op_plain cfg op" using Cons.prems(4) top by simp
  have w: "acl.coherent t w" using Cons.prems(1,3) top by (auto intro: acl.coherent_later)
  from Cons.IH [OF acl_step_coherent [OF w op] acl_step_one [OF w op Cons.prems(2)]] Cons.prems(3,4) top show ?case by simp
qed

lemma acl_run_one:
  assumes "sorted (map fst ops @ [now])" and "list_all (op_plain cfg) (map snd ops)"
  shows "one_per_scope (mg_view (aw_grants (acl_run cfg opts ops)))"
proof -
  let ?t0 = "Min (set (map fst ops @ [now]))"
  have s: "sorted (?t0 # map fst ops @ [now])" using assms(1) by (simp del: set_append)
  have "one_per_scope (mg_view (aw_grants (acl_start opts)))"
    by (simp add: acl_start_def mg_view_def col_all_def empty_collection_def one_per_scope_def)
  from acl_fold_one [OF acl_start_coherent this s assms(2)] show ?thesis by (simp add: acl_run_def)
qed

lemma mem_resolves: "\<exists>b. fst (resolveAllowed mem_deps cfg now u ctx acts w) = Inr b"
  by (cases "rolesCache_fresh now (aw_rolesCache w)")
     (auto simp: resolveAllowed_def and_then_def listRolesCached_def on_roles_def on_grants_def mem_deps_def mr_list_def
      mg_filter_def Let_def)

lemma mem_check_answers:
  assumes "af_checkTimeoutMs cfg \<le> 0 \<or> took < af_checkTimeoutMs cfg"
  shows "\<exists>b. fst (checkAction mem_deps cfg now took u ctx act w) = Inr b"
proof -
  obtain b where "fst (resolveAllowed mem_deps cfg now u ctx (toList act)
      (w\<lparr>aw_cache := snd (cache_get (d_stget mem_deps) now u (cacheAction ctx (toList act)) (aw_cache w))\<rparr>)) = Inr b"
    using mem_resolves by blast
  with assms show ?thesis
    by (auto simp: checkAction_def Let_def withTimeout_def split: prod.splits option.splits)
qed

section \<open>Properties\<close>


definition sample_cfg :: acl_config where
  "sample_cfg = \<lparr>af_rolesTtlMs = 30000, af_checkTimeoutMs = 5000, af_roleMgmtAction = ''role-management'',
     af_roleSystemAction = ''role-system'', af_broadcast = False\<rparr>"

definition sample_ops :: "(int \<times> acl_op) list" where
  "sample_ops = [(0, UpsertActionOp ''read'' None), (1, UpsertRoleOp ''viewer'' [''read''] None),
     (2, AdminGrantOp ''u1'' [''viewer''] None None None), (3, CheckOp 1 ''u1'' None (OneAction ''read'')),
     (4, AdminRevokeOp ''u1'' [''viewer''] None None)]"



lemma no_grants_unauthorized: "\<not> authorized rs [] u ctx acts"
  by (simp add: authorized_def)


text \<open>C13: Grants and revocations refine a relation between users, scopes and roles: a successful
  grant adds exactly the given roles for the given (user, company, resource), a successful revoke
  removes exactly those, absent and empty ids are the same scope, every other scope is untouched,
  and there is never more than one record per scope.\<close>

theorem grants_refine_relation:
  assumes "sorted (map fst ops @ [now])" and "list_all (op_plain cfg) (map snd ops)" and "w = acl_run cfg opts ops"
  shows "one_per_scope (mg_view (aw_grants w)) \<and>
    (\<forall>res w'. applyGrant mem_deps cfg u roles rs c fn w = (Inr res, w') \<longrightarrow>
        (\<forall>v d e. held (mg_view (aw_grants w')) v d e =
          (if (v, d, e) = (u, norm c, norm rs) then held (mg_view (aw_grants w)) v d e \<union> set roles else held (mg_view (aw_grants w)) v d e)))
    \<and> (\<forall>res w'. applyRevoke mem_deps cfg u roles rs c w = (Inr res, w') \<longrightarrow>
        (\<forall>v d e. held (mg_view (aw_grants w')) v d e =
          (if (v, d, e) = (u, norm c, norm rs) then held (mg_view (aw_grants w)) v d e - set roles else held (mg_view (aw_grants w)) v d e)))"
proof -
  have coh: "acl.coherent now w" unfolding assms(3) by (rule acl_run_coherent [OF assms(1,2)])
  have one: "one_per_scope (mg_view (aw_grants w))" unfolding assms(3) by (rule acl_run_one [OF assms(1,2)])
  have "held (mg_view (aw_grants w')) v d e =
      (if (v, d, e) = (u, norm c, norm rs) then held (mg_view (aw_grants w)) v d e \<union> set roles else held (mg_view (aw_grants w)) v d e)"
    if "applyGrant mem_deps cfg u roles rs c fn w = (Inr res, w')" for res w' v d e
    using acl.applyGrant_effect [OF coh that] grant_relation [OF _ one, of u c rs _ roles fn] by simp
  moreover have "held (mg_view (aw_grants w')) v d e =
      (if (v, d, e) = (u, norm c, norm rs) then held (mg_view (aw_grants w)) v d e - set roles else held (mg_view (aw_grants w)) v d e)"
    if "applyRevoke mem_deps cfg u roles rs c w = (Inr res, w')" for res w' v d e
    using revoke_relation [OF revoke_cases [OF coh that] one] by blast
  ultimately show ?thesis using one by blast
qed

theorem grants_refine_relation_witness:
  "\<exists>res w'. applyRevoke mem_deps sample_cfg ''u1'' [''viewer''] None None (acl_run sample_cfg None sample_ops) = (Inr res, w') \<and>
     held (mg_view (aw_grants w')) ''u1'' None None = held (mg_view (aw_grants (acl_run sample_cfg None sample_ops))) ''u1'' None None - {''viewer''}"
proof -
  let ?run = "applyRevoke mem_deps sample_cfg ''u1'' [''viewer''] None None (acl_run sample_cfg None sample_ops)"
  have "case fst ?run of Inl e \<Rightarrow> False | Inr res \<Rightarrow> True" by code_simp
  then obtain res w' where run: "?run = (Inr res, w')" by (cases ?run) (auto split: sum.splits)
  with grants_refine_relation [of sample_ops 9 sample_cfg "acl_run sample_cfg None sample_ops" None "''u1''" "[''viewer'']" None None None]
  show ?thesis by (simp add: sample_ops_def sample_cfg_def plain_request_def dot_char_def norm_def)
qed

section \<open>What separators and timing leave open\<close>

text \<open>Keys do not separate the scopes of ids that contain the separators, so a decision cached for
  one scope is served for the other.\<close>

theorem scope_keys_collide:
  "cacheAction (Some (mk_ctx (Some ''a|b'') (Some ''c''))) acts = cacheAction (Some (mk_ctx (Some ''a'') (Some ''b|c''))) acts \<and>
   cacheAction (Some (mk_ctx (Some ''*'') (Some ''*''))) acts = cacheAction (Some (mk_ctx None None)) acts \<and>
   (\<exists>g. grantMatchesResource g (Some (mk_ctx None None)) \<and> \<not> grantMatchesResource g (Some (mk_ctx (Some ''*'') (Some ''*''))))"
proof -
  have "grantMatchesResource (new_grant ''u'' [] None None None) (Some (mk_ctx None None))"
    and "\<not> grantMatchesResource (new_grant ''u'' [] None None None) (Some (mk_ctx (Some ''*'') (Some ''*'')))"
    by (simp_all add: grantMatchesResource_def mk_ctx_def new_grant_def norm_def)
  then show ?thesis by (auto simp: cacheAction_def scopeKey_def mk_ctx_def)
qed

text \<open>A listing of the roles that was in flight while a role was deleted writes its memo after the
  invalidation; the next check answers from it, against the database, and caches the answer under
  the current generation.\<close>

definition stale_memo_world :: mem_world where
  "stale_memo_world =
     (let before = acl_run sample_cfg None [(0, UpsertActionOp ''read'' None), (1, UpsertRoleOp ''viewer'' [''read''] None),
            (2, AdminGrantOp ''u1'' [''viewer''] None None None)]
      in rolesCache_store 3 (af_rolesTtlMs sample_cfg) (mr_view (aw_roles before)) (acl_step sample_cfg 4 (DeleteRoleOp ''viewer'') before))"

theorem stale_memo_decides:
  "fst (checkAction mem_deps sample_cfg 5 1 ''u1'' None (OneAction ''read'') stale_memo_world) = Inr True \<and>
   \<not> authorized (mr_view (aw_roles stale_memo_world)) (mg_view (aw_grants stale_memo_world)) ''u1'' None [''read'']"
  by code_simp

text \<open>Listing and checking agree: after any run, \<open>listResourcesByUser\<close> shows an action for a
  company and a resource exactly when some grant of the user with these ids carries a role that
  includes the action.\<close>

theorem listing_exact:
  assumes "sorted (map fst ops @ [now])" and "list_all (op_plain cfg) (map snd ops)"
    and "w = acl_run cfg opts ops" and "listResourcesByUser mem_deps cfg now (Some u) w = (Inr groups, w')"
  shows "listed groups ck rid = {a. \<exists>g \<in> set (mg_view (aw_grants w)). g_userId g = u \<and>
      coalesce (g_companyId g) [] = ck \<and> g_resourceId g = rid \<and>
      (\<exists>r \<in> set (mr_view (aw_roles w)). ro_name r \<in> set (g_roles g) \<and> a \<in> set (ro_actions r))}"
proof -
  have coh: "acl.coherent now w" unfolding assms(3) by (rule acl_run_coherent [OF assms(1,2)])
  have "u \<noteq> []" using assms(4) by (auto simp: listResourcesByUser_def)
  with assms(4) have "and_then (on_grants (d_gfilter mem_deps u)) (\<lambda>acls. and_then (listRolesCached mem_deps cfg now) (\<lambda>roles.
          ret (map snd (fold (addGrant roles) acls [])))) w = (Inr groups, w')"
    by (simp add: listResourcesByUser_def)
  then obtain acls w1 where a: "on_grants (d_gfilter mem_deps u) w = (Inr acls, w1)"
    and b: "and_then (listRolesCached mem_deps cfg now) (\<lambda>roles. ret (map snd (fold (addGrant roles) acls []))) w1 = (Inr groups, w')"
    by (rule and_then_InrE)
  note ga = acl.grants_of_coherent [OF coh a]
  from b obtain roles w2 where l: "listRolesCached mem_deps cfg now w1 = (Inr roles, w2)"
    and groups: "groups = map snd (fold (addGrant roles) acls [])"
    by (rule and_then_InrE) auto
  have acls: "acls = filter (\<lambda>g. g_userId g = u) (mg_view (aw_grants w))" using ga by simp
  have roles: "roles = mr_view (aw_roles w)" using acl.listRolesCached_coherent [OF conjunct1 [OF ga] l] ga by (simp add: acl.same_db_def)
  have "named_ok (aw_roles w)" using coh by (simp add: acl.coherent_def acl.db_ok_def)
  then have d: "distinct (map ro_name roles)" unfolding roles by (rule mem_roles.rnames)
  have "groups_ok []" by (simp add: groups_ok_def)
  from fold_addGrant_listed [OF this, of roles acls ck rid] show ?thesis
    unfolding groups grantActions_set [OF d] by (auto simp: listed_def acls roles)
qed

theorem listing_exact_witness:
  "\<exists>groups w'. listResourcesByUser mem_deps sample_cfg 9 (Some ''u1'') (acl_run sample_cfg None []) = (Inr groups, w') \<and>
     listed groups [] None = {}"
proof -
  let ?w = "acl_run sample_cfg None []"
  obtain groups w' where l: "listResourcesByUser mem_deps sample_cfg 9 (Some ''u1'') ?w = (Inr groups, w')"
    by (simp add: listResourcesByUser_def and_then_def on_grants_def mem_deps_def mg_filter_def listRolesCached_def
        rolesCache_fresh_def acl_run_def acl_start_def on_roles_def mr_list_def)
  from listing_exact [OF _ _ refl l, of "[]" None] have "listed groups [] None = {}"
    by (simp add: acl_run_def acl_start_def mg_view_def col_all_def empty_collection_def)
  with l show ?thesis by blast
qed

end
