(* ===== verification/Gateway_Http.thy ===== *)
theory Gateway_Http
  imports Gateway_Auth Acl_Management
begin

text \<open>
  How the gateway serves one request: the handler \<open>registerPath\<close> installs in
  \<open>proxy/services/http-handler.service.ts\<close>, its error envelope, its header forwarding and its
  metrics hook.

  The broker calls and the multipart parser are arguments with an outcome each. A request is
  handled at three moments (authentication, the access check after the upload has been parsed,
  the broker call), and the provider registry may be reloaded between the first two, so the
  handler takes the registry as it is at each. A handler that rejects outside its own error
  envelope is the outcome \<open>Rejected\<close>: what the client then sees is up to the framework. The
  configured response headers are taken to be valid header lines.
\<close>

section \<open>Errors and replies\<close>

record gw_error =
  ge_name :: string
  ge_message :: "string option"
  ge_details :: jval
  ge_stack :: jval

datatype thrown = ThrownText string | ThrownError gw_error

definition plain_error :: "string \<Rightarrow> string \<Rightarrow> thrown" where
  "plain_error n m = ThrownError \<lparr>ge_name = n, ge_message = Some m, ge_details = JUndef, ge_stack = JUndef\<rparr>"

text \<open>An error the runtime throws inside the handler; of its stack, the first line.\<close>

definition runtime_error :: "jserr \<Rightarrow> thrown" where
  "runtime_error e = ThrownError \<lparr>ge_name = ename e, ge_message = Some (emsg e), ge_details = JUndef,
     ge_stack = JStr (ename e @ '': '' @ emsg e)\<rparr>"

definition ERROR_STATUS :: "(string \<times> int) list" where
  "ERROR_STATUS = [(''BadRequestError'', 400), (''InvalidParamsErrror'', 400), (''UnauthorizedError'', 401),
     (''ForbiddenError'', 403), (''NotFoundError'', 404), (''ConflictError'', 409), (''RpcTimeoutError'', 504),
     (''RetryExhaustedError'', 502)]"

record envelope =
  ev_statusCode :: int
  ev_code :: string
  ev_message :: string
  ev_details :: "jval option"

definition error_code :: "thrown \<Rightarrow> string" where
  "error_code e = (case e of ThrownText s \<Rightarrow> ''Error'' | ThrownError x \<Rightarrow> if ge_name x = [] then ''Error'' else ge_name x)"

definition error_status :: "thrown \<Rightarrow> int option \<Rightarrow> int" where
  "error_status e override = coalesce override (coalesce (map_of ERROR_STATUS (error_code e)) 500)"

definition sendError :: "bool \<Rightarrow> thrown \<Rightarrow> int option \<Rightarrow> envelope" where
  "sendError production e override =
     \<lparr>ev_statusCode = error_status e override, ev_code = error_code e,
      ev_message = (case e of ThrownText s \<Rightarrow> s | ThrownError x \<Rightarrow> coalesce (ge_message x) ''Internal server error''),
      ev_details =
        (case e of ThrownText s \<Rightarrow> None
         | ThrownError x \<Rightarrow>
             if ge_details x \<noteq> JUndef then Some (ge_details x)
             else if \<not> production \<and> truthy (ge_stack x) then Some (ge_stack x) else None)\<rparr>"

type_synonym headers = "(string, jval) omap"

datatype reply =
    ErrorReply envelope
  | JsonReply int headers jval
  | TextReply int headers string
  | BinaryReply int headers "nat list"
  | EmptyReply int headers
  | RedirectReply int jval

fun reply_status :: "reply \<Rightarrow> int" where
  "reply_status (ErrorReply e) = ev_statusCode e"
| "reply_status (JsonReply n h v) = n"
| "reply_status (TextReply n h s) = n"
| "reply_status (BinaryReply n h bs) = n"
| "reply_status (EmptyReply n h) = n"
| "reply_status (RedirectReply n v) = n"

datatype outcome = Answered reply | Rejected jserr

record call =
  ca_topic :: string
  ca_action :: string
  ca_data :: jval
  ca_headers :: headers

datatype sent = Published call | Requested call "int option"

fun sent_call :: "sent \<Rightarrow> call" where
  "sent_call (Published c) = c"
| "sent_call (Requested c t) = c"

record http_env =
  he_production :: bool
  he_headerPrefix :: "string option"
  he_parse :: "http_req \<Rightarrow> thrown + http_req"
  he_publish :: "call \<Rightarrow> thrown + unit"
  he_request :: "call \<Rightarrow> int option \<Rightarrow> thrown + jval"

section \<open>What is forwarded\<close>

definition lower_trim :: "string \<Rightarrow> string" where
  "lower_trim s = js_trim (to_lower s)"

fun httpHeaders :: "string option \<Rightarrow> headers \<Rightarrow> (string, string) omap \<Rightarrow> headers \<Rightarrow> headers" where
  "httpHeaders prefix reqHeaders [] data = data"
| "httpHeaders prefix reqHeaders ((key, wanted) # wants) data =
     httpHeaders prefix reqHeaders wants
       (case find (\<lambda>(h, v). lower_trim h = lower_trim wanted) reqHeaders of
          None \<Rightarrow> data
        | Some (h, v) \<Rightarrow>
            if h = [] then data
            else AList.update ((if truthy_str prefix then the prefix else []) @ key) (the (map_of reqHeaders h)) data)"

text \<open>The own enumerable properties a spread copies: those of an object, the positions of an
  array or a text.\<close>

fun own_entries :: "jval \<Rightarrow> (string \<times> jval) list" where
  "own_entries (JObj kvs) = kvs"
| "own_entries (JArr xs) = zip (map nat_str [0..<length xs]) xs"
| "own_entries (JStr s) = zip (map nat_str [0..<length s]) (map (\<lambda>c. JStr [c]) s)"
| "own_entries v = []"

definition merge3 :: "jval \<Rightarrow> jval \<Rightarrow> jval \<Rightarrow> (string \<times> jval) list" where
  "merge3 a b c = spread (spread (spread [] (own_entries a)) (own_entries b)) (own_entries c)"

definition base_data :: "string \<Rightarrow> http_req \<Rightarrow> (string \<times> jval) list" where
  "base_data source r =
     (if source = ''body'' then merge3 (rq_params r) (rq_body r) JUndef
      else if source = ''query'' then merge3 (rq_params r) (rq_query r) JUndef
      else if source = ''params'' then own_entries (rq_params r)
      else if source = ''body-query'' then merge3 (rq_params r) (rq_query r) (rq_body r)
      else if source = ''query-body'' then merge3 (rq_params r) (rq_body r) (rq_query r)
      else merge3 (rq_params r) (rq_body r) (rq_query r))"

text \<open>The text of an uploaded file's bytes. A field named \<open>$files\<close> may come from the client's own
  data too, and then it need not be a list of files.\<close>

definition type_error :: "string \<Rightarrow> jserr" where
  "type_error m = mk_err ''TypeError'' m"

definition file_text :: "jval \<Rightarrow> jserr + jval" where
  "file_text file =
     (case jget file ''buffer'' of
        JUndef \<Rightarrow> Inl (type_error ''buffer is undefined'')
      | JNull \<Rightarrow> Inl (type_error ''buffer is null'')
      | JNum n \<Rightarrow> Inl (mk_err ''RangeError'' ''radix'')
      | b \<Rightarrow> Inr (jset file ''buffer'' (JStr (js_string b))))"

fun file_texts :: "jval list \<Rightarrow> jserr + jval list" where
  "file_texts [] = Inr []"
| "file_texts (f # fs) =
     (case file_text f of
        Inl e \<Rightarrow> Inl e
      | Inr f' \<Rightarrow> (case file_texts fs of Inl e \<Rightarrow> Inl e | Inr fs' \<Rightarrow> Inr (f' # fs')))"

definition encode_files :: "(string \<times> jval) list \<Rightarrow> jserr + (string \<times> jval) list" where
  "encode_files data =
     (let v = jget (JObj data) ''$files'' in
      if \<not> truthy v then Inr data
      else (case v of
              JArr fs \<Rightarrow> (case file_texts fs of Inl e \<Rightarrow> Inl e | Inr fs' \<Rightarrow> Inr (AList.update ''$files'' (JArr fs') data))
            | JStr s \<Rightarrow> Inl (type_error ''buffer is undefined'')
            | _ \<Rightarrow> Inl (type_error ''not iterable'')))"

definition forwarded_data :: "route \<Rightarrow> http_req \<Rightarrow> jserr + (string \<times> jval) list" where
  "forwarded_data path r =
     (let d1 = base_data (rt_dataSource path) r;
          d2 = (if rt_parseRaw path then AList.update ''$raw'' (rq_rawBody r) d1 else d1);
          d3 = (if truthy (rq_files r) then AList.update ''$files'' (rq_files r) d2 else d2);
          d4 = (if rt_dataSource path = ''params'' then d3 else spread d3 (own_entries (rq_params r)))
      in encode_files d4)"

definition forwarded_headers :: "http_env \<Rightarrow> route \<Rightarrow> http_req \<Rightarrow> auth_data \<Rightarrow> headers" where
  "forwarded_headers env path r auth =
     spread (spread (httpHeaders (he_headerPrefix env) (rq_headers r) (rt_forwardHeaders path) []) (AList.delete ''success'' auth))
       [(''X-GTW-METHOD'', JStr (rq_method r)), (''X-GTW-PATH'', JStr (rt_path path))]"


section \<open>Answering\<close>

text \<open>Setting a status outside 100..999 throws in Express.\<close>

definition with_status :: "int \<Rightarrow> reply \<Rightarrow> thrown + reply" where
  "with_status n rep =
     (if 100 \<le> n \<and> n \<le> 999 then Inr rep else Inl (runtime_error (mk_err ''RangeError'' ''Invalid status code'')))"

definition status_or :: "int option \<Rightarrow> int \<Rightarrow> int" where
  "status_or s d = (case s of None \<Rightarrow> d | Some n \<Rightarrow> if n = 0 then d else n)"

text \<open>The reply to an RPC result; a non-text body can only be sent as JSON.\<close>

definition rpc_reply :: "route \<Rightarrow> jval \<Rightarrow> thrown + reply" where
  "rpc_reply path resp =
     (if resp \<noteq> JUndef \<and> resp \<noteq> JNull then
        (if status_or (rt_redirect path) 0 \<noteq> 0 then Inr (RedirectReply (the (rt_redirect path)) resp)
         else
           let hs = (if map_of (rt_headers path) ''Content-Type'' = None
                     then AList.update ''Content-Type'' (JStr ''application/json'') (rt_headers path) else rt_headers path);
               ct = the (map_of hs ''Content-Type'');
               n = status_or (rt_successStatusCode path) 200
           in if nullish ct then Inl (runtime_error (type_error ''Content-Type''))
              else if str_includes ''json'' (js_string ct) then with_status n (JsonReply n hs resp)
              else if rt_binary path then with_status n (BinaryReply n hs (b64_decode (js_string resp)))
              else (case resp of
                      JStr s \<Rightarrow> with_status n (TextReply n hs s)
                    | _ \<Rightarrow> (case with_status n (TextReply n hs []) of Inl e \<Rightarrow> Inl e | Inr x \<Rightarrow> Inl (runtime_error (type_error ''chunk'')))))
      else with_status (status_or (rt_successStatusCode path) 204) (EmptyReply (status_or (rt_successStatusCode path) 204) []))"

definition answer :: "bool \<Rightarrow> int option \<Rightarrow> thrown + reply \<Rightarrow> outcome" where
  "answer production override x =
     (case x of Inl e \<Rightarrow> Answered (ErrorReply (sendError production e override)) | Inr rep \<Rightarrow> Answered rep)"

text \<open>The call to the broker, and the answer to what came of it.\<close>

definition forward :: "http_env \<Rightarrow> route \<Rightarrow> http_req \<Rightarrow> auth_data \<Rightarrow> sent list \<times> outcome" where
  "forward env path r auth =
     (case forwarded_data path r of
        Inl e \<Rightarrow> ([], Rejected e)
      | Inr kvs \<Rightarrow>
          let c = \<lparr>ca_topic = rt_topic path, ca_action = rt_action path, ca_data = JObj kvs,
                   ca_headers = forwarded_headers env path r auth\<rparr>
          in if rt_mode path = ''event'' then
               ([Published c],
                answer (he_production env) (Some 503)
                  (case he_publish env c of
                     Inl e \<Rightarrow> Inl e
                   | Inr u \<Rightarrow> with_status (status_or (rt_successStatusCode path) 202) (EmptyReply (status_or (rt_successStatusCode path) 202) (rt_headers path))))
             else if rt_mode path = ''rpc'' then
               ([Requested c (rt_timeout path)],
                answer (he_production env) None
                  (case he_request env c (rt_timeout path) of Inl e \<Rightarrow> Inl e | Inr resp \<Rightarrow> rpc_reply path resp))
             else ([], answer (he_production env) None (Inl (runtime_error (generic_error (''Invalid mode '' @ rt_mode path))))))"

section \<open>The gate\<close>

definition anonymous :: "route \<Rightarrow> bool" where
  "anonymous path \<longleftrightarrow> rt_allowAnonymous path = Some True"

definition deny :: "http_env \<Rightarrow> string \<Rightarrow> string \<Rightarrow> int \<Rightarrow> outcome" where
  "deny env n m status = Answered (ErrorReply (sendError (he_production env) (plain_error n m) (Some status)))"

definition upload_status :: "thrown \<Rightarrow> int" where
  "upload_status e = (case e of ThrownError x \<Rightarrow> if ge_name x = ''MulterError'' then 413 else 400 | _ \<Rightarrow> 400)"

definition gate_authorize ::
  "http_env \<Rightarrow> 'w acl_check option \<Rightarrow> route \<Rightarrow> http_req \<Rightarrow> auth_data \<Rightarrow> gw_auth \<Rightarrow> 'w \<Rightarrow> outcome option \<times> 'w" where
  "gate_authorize env acl path r auth g w =
     (if anonymous path then (None, w)
      else (case checkActions acl g auth path (extractResourceContext r) w of
              (Inl e, w') \<Rightarrow> (Some (deny env ''ServiceUnavailable'' ''Authorization service unavailable'' 503), w')
            | (Inr allowed, w') \<Rightarrow> (if allowed then None else Some (deny env ''Forbidden'' ''Forbidden'' 403), w')))"

text \<open>\<open>g\<close> is the registry when the request arrives, \<open>later\<close> what it has become when the upload is
  parsed.\<close>

definition handle_route ::
  "http_env \<Rightarrow> verifier \<Rightarrow> 'w acl_check option \<Rightarrow> route \<Rightarrow> http_req \<Rightarrow> gw_auth \<Rightarrow> (gw_auth \<Rightarrow> gw_auth) \<Rightarrow> 'w \<Rightarrow>
   (sent list \<times> outcome) \<times> gw_auth \<times> 'w" where
  "handle_route env verify acl path r g later w =
     (case processAuthData verify r path g of
        (Inl e, g1) \<Rightarrow> (([], Rejected e), g1, w)
      | (Inr auth, g1) \<Rightarrow>
          if \<not> anonymous path \<and> truthy_str (rt_auth path) \<and> \<not> auth_success auth
          then (([], deny env ''Unauthorized'' ''Unauthorized'' 401), g1, w)
          else (case he_parse env r of
                  Inl e \<Rightarrow> (([], Answered (ErrorReply (sendError (he_production env) e (Some (upload_status e))))), g1, w)
                | Inr r2 \<Rightarrow>
                    (case gate_authorize env acl path r2 auth (later g1) w of
                       (Some out, w') \<Rightarrow> (([], out), later g1, w')
                     | (None, w') \<Rightarrow> (forward env path r2 auth, later g1, w'))))"

section \<open>Metrics\<close>

record metric_point =
  mp_ts :: int
  mp_method :: string
  mp_route :: string
  mp_name :: string
  mp_topic :: string
  mp_action :: string
  mp_mode :: string
  mp_status :: int
  mp_durationMs :: int
  mp_code :: "string option"

datatype metric_effect = TrackBroker string string metric_point | TrackHook metric_point

definition reply_code :: "reply \<Rightarrow> string option" where
  "reply_code rep = (case rep of ErrorReply e \<Rightarrow> Some (ev_code e) | _ \<Rightarrow> None)"

definition trackMetrics :: "(string \<times> string) option \<Rightarrow> bool \<Rightarrow> http_req \<Rightarrow> route \<Rightarrow> int \<Rightarrow> int \<Rightarrow> reply \<Rightarrow> metric_effect list" where
  "trackMetrics sink hook r path started finished rep =
     (let point = \<lparr>mp_ts = finished, mp_method = rq_method r, mp_route = rt_path path, mp_name = rt_name path, mp_topic = rt_topic path,
           mp_action = rt_action path, mp_mode = rt_mode path, mp_status = reply_status rep, mp_durationMs = finished - started,
           mp_code = reply_code rep\<rparr>
      in (case sink of None \<Rightarrow> [] | Some (t, a) \<Rightarrow> if t \<noteq> [] \<and> a \<noteq> [] then [TrackBroker t a point] else [])
         @ (if hook then [TrackHook point] else []))"


section \<open>Lemmas on the gate\<close>

lemma handle_route_cases [consumes 1, case_names thrown unauthorized upload denied forwarded]:
  assumes "handle_route env verify acl path r g later w = ((calls, out), g', w')"
  obtains e where "processAuthData verify r path g = (Inl e, g')" and "calls = []" and "out = Rejected e"
  | auth where "processAuthData verify r path g = (Inr auth, g')" and "\<not> anonymous path" and "truthy_str (rt_auth path)"
      and "\<not> auth_success auth" and "calls = []" and "out = deny env ''Unauthorized'' ''Unauthorized'' 401"
  | auth e where "processAuthData verify r path g = (Inr auth, g')" and "he_parse env r = Inl e" and "calls = []"
      and "out = Answered (ErrorReply (sendError (he_production env) e (Some (upload_status e))))"
  | auth g1 r2 where "processAuthData verify r path g = (Inr auth, g1)" and "he_parse env r = Inr r2"
      and "gate_authorize env acl path r2 auth (later g1) w = (Some out, w')" and "calls = []"
  | auth g1 r2 where "processAuthData verify r path g = (Inr auth, g1)" and "he_parse env r = Inr r2"
      and "anonymous path \<or> \<not> truthy_str (rt_auth path) \<or> auth_success auth"
      and "gate_authorize env acl path r2 auth (later g1) w = (None, w')" and "(calls, out) = forward env path r2 auth" and "g' = later g1"
proof -
  obtain res g1 where pa: "processAuthData verify r path g = (res, g1)" by fastforce
  show ?thesis
  proof (cases res)
    case (Inl e)
    with pa assms that(1) show ?thesis by (simp add: handle_route_def)
  next
    case (Inr auth)
    show ?thesis
    proof (cases "\<not> anonymous path \<and> truthy_str (rt_auth path) \<and> \<not> auth_success auth")
      case True
      with pa Inr assms that(2) show ?thesis by (simp add: handle_route_def)
    next
      case gate: False
      show ?thesis
      proof (cases "he_parse env r")
        case (Inl e)
        with gate pa Inr assms that(3) show ?thesis by (simp add: handle_route_def split: if_splits)
      next
        case parsed: (Inr r2)
        obtain d w1 where ga: "gate_authorize env acl path r2 auth (later g1) w = (d, w1)" by fastforce
        have gate': "anonymous path \<or> \<not> truthy_str (rt_auth path) \<or> auth_success auth" using gate by blast
        have h: "handle_route env verify acl path r g later w =
            (case d of Some out \<Rightarrow> (([], out), later g1, w1) | None \<Rightarrow> (forward env path r2 auth, later g1, w1))"
          unfolding handle_route_def pa prod.case Inr sum.case if_not_P [OF gate] parsed ga by (rule HOL.refl)
        show ?thesis
        proof (cases d)
          case None
          with h assms have "forward env path r2 auth = (calls, out)" "g' = later g1" "w' = w1" by simp_all
          then show ?thesis using that(5) [of auth g1 r2] pa Inr parsed gate' ga None by simp
        next
          case (Some x)
          with h assms have "calls = []" "x = out" "w' = w1" by simp_all
          then show ?thesis using that(4) [of auth g1 r2] pa Inr parsed ga Some by simp
        qed
      qed
    qed
  qed
qed

lemma gate_authorize_allows:
  assumes "gate_authorize env acl path r auth g w = (None, w')" and "\<not> anonymous path"
  shows "checkActions acl g auth path (extractResourceContext r) w = (Inr True, w')"
  using assms by (auto simp: gate_authorize_def split: prod.splits sum.splits if_splits)

lemma forward_calls:
  assumes "forward env path r auth = (calls, out)" and "c \<in> set calls"
  obtains kvs where "forwarded_data path r = Inr kvs"
    and "sent_call c = \<lparr>ca_topic = rt_topic path, ca_action = rt_action path, ca_data = JObj kvs, ca_headers = forwarded_headers env path r auth\<rparr>"
  using assms by (auto simp: forward_def Let_def split: sum.splits if_splits)

lemma forwarded_call:
  assumes "handle_route env verify acl path r g later w = ((calls, out), g', w')" and "calls \<noteq> []"
  obtains auth g1 r2 where "processAuthData verify r path g = (Inr auth, g1)" and "he_parse env r = Inr r2"
      and "anonymous path \<or> \<not> truthy_str (rt_auth path) \<or> auth_success auth"
      and "gate_authorize env acl path r2 auth (later g1) w = (None, w')" and "forward env path r2 auth = (calls, out)" and "g' = later g1"
  using assms by (cases rule: handle_route_cases) auto

definition entitled :: "mem_world \<Rightarrow> auth_provider \<Rightarrow> auth_data \<Rightarrow> res_ctx \<Rightarrow> string list \<Rightarrow> bool" where
  "entitled w p auth rc acts \<longleftrightarrow> (ap_type p = AtJwt \<or> ap_type p = AtJwks) \<and>
     (\<exists>u c. jget (JObj auth) (auth_key p (the (ap_uidClaim p))) = JStr u \<and> ctx_text (Some rc) = Some c \<and>
        authorized (mr_view (aw_roles w)) (mg_view (aw_grants w)) u c acts)"

lemma checkActions_entitled:
  assumes "acl.coherent now w" and "checkActions (Some (service_check cfg now took oddly)) g auth path rc w = (Inr True, w')"
    and "rt_actions path \<noteq> []" and "\<And>p. reg_find (rt_auth path) g = Some p \<Longrightarrow> gate.claims_plain p auth (Some rc) (rt_actions path)"
  shows "\<exists>p. reg_find (rt_auth path) g = Some p \<and> entitled w p auth rc (rt_actions path)"
proof -
  from assms(2,3) obtain p where p: "reg_find (rt_auth path) g = Some p"
      and c: "checkActionsForClaims (Some (service_check cfg now took oddly)) p (Some auth) (rt_actions path) (Some rc) w = (Inr True, w')"
    by (auto simp: checkActions_def split: if_splits option.splits)
  from gate.claims_checked [OF assms(1) assms(4) [OF p] c assms(3)] p show ?thesis
    unfolding entitled_def acl.decides_def by blast
qed

subsection \<open>Header precedence\<close>

lemma distinct_update_keys [simp]: "distinct (map fst m) \<Longrightarrow> distinct (map fst (AList.update k v m))"
  by (rule distinct_update)

lemma auth_result_distinct [simp]: "distinct (map fst (auth_result b))"
  by (simp add: auth_result_def)

lemma mapEntries_distinct:
  "mapEntries p decoded es out = Inr out' \<Longrightarrow> distinct (map fst out) \<Longrightarrow> distinct (map fst out')"
  by (induction es arbitrary: out) (auto simp: mapClaim_def Let_def split: sum.splits if_splits option.splits)

lemma processAuthData_distinct:
  assumes "processAuthData verify r path g = (Inr auth, g1)"
  shows "distinct (map fst auth)"
proof -
  have m: "mapClaims p d = Inr auth \<Longrightarrow> distinct (map fst auth)" for p d
    using mapEntries_distinct [of p d _ "auth_result True" auth] by (auto simp: mapClaims_def split: if_splits option.splits)
  have b: "distinct (map fst (checkBasicAuth r p))" "distinct (map fst (checkStringCompare r p))" for p
    by (auto simp: checkBasicAuth_def checkStringCompare_def split: option.split prod.split)
  from assms show ?thesis
    by (auto simp: processAuthData_def checkJwt_def b dest: m split: if_splits option.splits auth_type.splits prod.splits)
qed

lemma delete_distinct: "distinct (map fst m) \<Longrightarrow> distinct (map fst (AList.delete k m))"
  by (rule distinct_delete)

lemma forwarded_headers_get:
  assumes "distinct (map fst auth)"
  shows "map_of (forwarded_headers env path r auth) k =
    (if k = ''X-GTW-PATH'' then Some (JStr (rt_path path))
     else if k = ''X-GTW-METHOD'' then Some (JStr (rq_method r))
     else case (if k = ''success'' then None else map_of auth k) of Some v \<Rightarrow> Some v
          | None \<Rightarrow> map_of (httpHeaders (he_headerPrefix env) (rq_headers r) (rt_forwardHeaders path) []) k)"
  using delete_distinct [OF assms, of "''success''"]
  by (simp add: forwarded_headers_def spread_get map_of_distinct_rev om_simps)


subsection \<open>The resource that is checked and the data that is forwarded\<close>

definition plain_object :: "jval \<Rightarrow> bool" where
  "plain_object v \<longleftrightarrow> (case v of JObj kvs \<Rightarrow> distinct (map fst kvs) \<and> list_all (\<lambda>(k, x). \<not> nullish x) kvs | JUndef \<Rightarrow> True | _ \<Rightarrow> False)"

definition request_id :: "http_req \<Rightarrow> string \<Rightarrow> jval" where
  "request_id r k = jcoal (jcoal (jget (rq_params r) k) (jget (rq_query r) k)) (jget (rq_body r) k)"

text \<open>A route that lets the body override the query, and a query that names an id the path does
  not.\<close>

definition body_overrides :: "route \<Rightarrow> http_req \<Rightarrow> string \<Rightarrow> bool" where
  "body_overrides path r k \<longleftrightarrow> rt_dataSource path \<in> {''body'', ''body-query''} \<and> jget (rq_query r) k \<noteq> JUndef \<and> jget (rq_params r) k = JUndef"

lemma extractResourceContext_request_id:
  "extractResourceContext r = \<lparr>rc_companyId = request_id r ''companyId'', rc_resourceId = request_id r ''resourceId''\<rparr>"
  by (simp add: extractResourceContext_def request_id_def)

lemma own_entries_get:
  assumes "plain_object v"
  shows "map_of (rev (own_entries v)) k = (if jget v k = JUndef then None else Some (jget v k))"
    and "nullish (jget v k) \<longleftrightarrow> jget v k = JUndef"
proof -
  show "map_of (rev (own_entries v)) k = (if jget v k = JUndef then None else Some (jget v k))"
    using assms by (cases v) (auto simp: plain_object_def map_of_distinct_rev list_all_iff split: option.split dest!: map_of_SomeD)
  show "nullish (jget v k) \<longleftrightarrow> jget v k = JUndef"
    using assms by (cases v) (auto simp: plain_object_def list_all_iff split: option.split dest!: map_of_SomeD)
qed

lemma encode_files_get: "encode_files d = Inr d' \<Longrightarrow> k \<noteq> ''$files'' \<Longrightarrow> map_of d' k = map_of d k"
  by (auto simp: encode_files_def Let_def om_simps split: if_splits jval.splits sum.splits)

lemma forwarded_data_get:
  assumes "forwarded_data path r = Inr kvs" and "k \<noteq> ''$files''" and "k \<noteq> ''$raw''"
  shows "map_of kvs k =
    (case (if rt_dataSource path = ''params'' then None else map_of (rev (own_entries (rq_params r))) k) of Some v \<Rightarrow> Some v
     | None \<Rightarrow> map_of (base_data (rt_dataSource path) r) k)"
proof -
  note f = encode_files_get [OF assms(1) [unfolded forwarded_data_def Let_def] assms(2)]
  show ?thesis unfolding f using assms(2,3) by (auto simp: om_simps spread_get split: option.split)
qed

lemma checked_id_forwarded:
  assumes "plain_object (rq_params r)" and "plain_object (rq_query r)" and "plain_object (rq_body r)"
    and "forwarded_data path r = Inr kvs" and "k \<noteq> ''$files''" and "k \<noteq> ''$raw''" and "\<not> body_overrides path r k"
  shows "jget (JObj kvs) k \<in> {request_id r k, JUndef}"
proof -
  note own = own_entries_get [OF assms(1)] own_entries_get [OF assms(2)] own_entries_get [OF assms(3)]
  have raw: "map_of (own_entries v) k = map_of (rev (own_entries v)) k" if "plain_object v" for v
    using that by (cases v) (auto simp: plain_object_def map_of_distinct_rev)
  have u: "own_entries JUndef = []" by simp
  show ?thesis
    using assms(7)
    by (auto simp: forwarded_data_get [OF assms(4-6)] base_data_def merge3_def spread_get u raw [OF assms(1)] own
        request_id_def jcoal_def body_overrides_def split: if_splits)
qed


section \<open>Properties\<close>


definition demo_env :: http_env where
  "demo_env = \<lparr>he_production = True, he_headerPrefix = None, he_parse = (\<lambda>r. Inr r), he_publish = (\<lambda>c. Inr ()),
     he_request = (\<lambda>c t. Inr (JBool False))\<rparr>"

definition demo_acl_cfg :: acl_config where
  "demo_acl_cfg = \<lparr>af_rolesTtlMs = 3, af_checkTimeoutMs = 5, af_roleMgmtAction = ''m'', af_roleSystemAction = ''s'', af_broadcast = False\<rparr>"

definition demo_ops :: "(int \<times> acl_op) list" where
  "demo_ops = [(0, UpsertActionOp ''edit'' None), (0, UpsertRoleOp ''ed'' [''edit''] None),
     (0, AdminGrantOp ''u1'' [''ed''] None (Some ''c1'') None)]"

definition demo_handled :: "(sent list \<times> outcome) \<times> gw_auth \<times> mem_world" where
  "demo_handled = handle_route demo_env demo_verify (Some (service_check demo_acl_cfg 1 1 (\<lambda>u ctx acts. ret False))) demo_route demo_req
     (gw_boot [demo_provider]) (\<lambda>g. g) (acl_run demo_acl_cfg None demo_ops)"

lemma demo_handled_value:
  "fst demo_handled =
     ([Requested \<lparr>ca_topic = ''t'', ca_action = ''a'', ca_data = JObj [(''companyId'', JStr ''c1'')],
         ca_headers = [(''X-USERID'', JStr ''u1''), (''X-GTW-METHOD'', JStr ''POST''), (''X-GTW-PATH'', JStr ''/r'')]\<rparr> None],
      Answered (JsonReply 200 [(''Content-Type'', JStr ''application/json'')] (JBool False)))"
  "fst (snd demo_handled) = gw_boot [demo_provider]"
  by code_simp+

lemma demo_claims_plain:
  "reg_find (Some ''p'') (gw_boot [demo_provider]) = Some p \<Longrightarrow>
   gate.claims_plain p [(''success'', JBool True), (''X-USERID'', JStr ''u1'')] (Some (extractResourceContext demo_req)) [''edit'']"
  by (auto simp: gate.claims_plain_def gw_boot_def registry_init_def reg_find_def find_in_def demo_provider_def auth_key_def tpl_def
      extractResourceContext_def demo_req_def ctx_text_def plain_request_def plain_id_def dot_char_def split: if_splits)


text \<open>C11: Identity headers cannot be spoofed: in every message the gateway sends for a request,
  the header of an authenticated claim has the verified value, whatever the client sent and the
  route forwards, and the two headers that name the method and the route are the gateway's own.\<close>

theorem identity_headers_are_verified:
  assumes "handle_route env verify acl path r g later w = ((calls, out), g', w')" and "c \<in> set calls"
    and "fst (processAuthData verify r path g) = Inr auth" and "he_parse env r = Inr r2"
  shows "map_of (ca_headers (sent_call c)) k =
    (if k = ''X-GTW-PATH'' then Some (JStr (rt_path path))
     else if k = ''X-GTW-METHOD'' then Some (JStr (rq_method r2))
     else case (if k = ''success'' then None else map_of auth k) of Some v \<Rightarrow> Some v
          | None \<Rightarrow> map_of (httpHeaders (he_headerPrefix env) (rq_headers r2) (rt_forwardHeaders path) []) k)"
proof -
  obtain a g1 r' where pa: "processAuthData verify r path g = (Inr a, g1)" and pr: "he_parse env r = Inr r'"
      and f: "forward env path r' a = (calls, out)"
    using assms(2) forwarded_call [OF assms(1)] by (metis empty_iff list.set(1))
  have same: "a = auth" "r' = r2" using pa pr assms(3,4) by simp_all
  from forward_calls [OF f assms(2)] obtain kvs where "ca_headers (sent_call c) = forwarded_headers env path r2 auth"
    unfolding same by (metis call.select_convs(4))
  then show ?thesis
    using forwarded_headers_get [OF processAuthData_distinct [OF pa]] by (simp add: same)
qed

definition spoof_route :: route where
  "spoof_route = demo_route\<lparr>rt_actions := [], rt_forwardHeaders := [(''X-USERID'', ''x-evil''), (''X-TRACE'', ''x-evil'')]\<rparr>"

definition spoof_req :: http_req where
  "spoof_req = demo_req\<lparr>rq_headers := [(''authorization'', JStr ''Bearer tok''), (''x-evil'', JStr ''root'')]\<rparr>"

lemma run_parts: "fst run = (calls, out) \<Longrightarrow> \<exists>g' w'. run = ((calls, out), g', w')"
  by (metis prod.exhaust_sel)

definition spoof_sent :: sent where
  "spoof_sent = Requested \<lparr>ca_topic = ''t'', ca_action = ''a'', ca_data = JObj [(''companyId'', JStr ''c1'')],
     ca_headers = [(''X-USERID'', JStr ''u1''), (''X-TRACE'', JStr ''root''), (''X-GTW-METHOD'', JStr ''POST''), (''X-GTW-PATH'', JStr ''/r'')]\<rparr> None"

lemma spoof_run:
  "fst (handle_route demo_env demo_verify (None :: unit acl_check option) spoof_route spoof_req (gw_boot [demo_provider]) (\<lambda>g. g) ()) =
     ([spoof_sent], Answered (JsonReply 200 [(''Content-Type'', JStr ''application/json'')] (JBool False)))"
  "fst (processAuthData demo_verify spoof_req spoof_route (gw_boot [demo_provider])) = Inr [(''success'', JBool True), (''X-USERID'', JStr ''u1'')]"
  by code_simp+

theorem identity_headers_are_verified_witness:
  "map_of (ca_headers (sent_call spoof_sent)) ''X-USERID'' = Some (JStr ''u1'') \<and>
   map_of (ca_headers (sent_call spoof_sent)) ''X-GTW-PATH'' = Some (JStr ''/r'')"
proof -
  have pr: "he_parse demo_env spoof_req = Inr spoof_req" by (simp add: demo_env_def)
  from run_parts [OF spoof_run(1)] obtain g' w' where
    h: "handle_route demo_env demo_verify (None :: unit acl_check option) spoof_route spoof_req (gw_boot [demo_provider]) (\<lambda>g. g) () =
      (([spoof_sent], Answered (JsonReply 200 [(''Content-Type'', JStr ''application/json'')] (JBool False))), g', w')" by blast
  show ?thesis
    using identity_headers_are_verified [OF h _ spoof_run(2) pr, of spoof_sent "''X-USERID''"]
      identity_headers_are_verified [OF h _ spoof_run(2) pr, of spoof_sent "''X-GTW-PATH''"]
    by (simp add: spoof_route_def demo_route_def)
qed

text \<open>C19: The resource the access check looks at is the one the microservice will read. For both
  ids, what is forwarded is the value that was checked, or nothing, unless the route takes the
  body over the query and the query names the id although the path does not.\<close>

theorem checked_resource_is_forwarded:
  assumes "plain_object (rq_params r)" and "plain_object (rq_query r)" and "plain_object (rq_body r)"
    and "forwarded_data path r = Inr kvs"
    and "\<not> body_overrides path r ''companyId''" and "\<not> body_overrides path r ''resourceId''"
  shows "jget (JObj kvs) ''companyId'' \<in> {rc_companyId (extractResourceContext r), JUndef} \<and>
    jget (JObj kvs) ''resourceId'' \<in> {rc_resourceId (extractResourceContext r), JUndef}"
  using checked_id_forwarded [OF assms(1-4) _ _ assms(5)] checked_id_forwarded [OF assms(1-4) _ _ assms(6)]
  by (simp add: extractResourceContext_request_id)

theorem checked_resource_is_forwarded_witness:
  "jget (JObj [(''companyId'', JStr ''c1'')]) ''companyId'' \<in> {rc_companyId (extractResourceContext demo_req), JUndef} \<and>
   jget (JObj [(''companyId'', JStr ''c1'')]) ''resourceId'' \<in> {rc_resourceId (extractResourceContext demo_req), JUndef}"
  by (rule checked_resource_is_forwarded [of demo_req demo_route]) code_simp+

text \<open>The exception is real: with the data source \<open>body\<close>, the id of the query is checked and the
  id of the body is sent.\<close>

definition smuggle_req :: http_req where
  "smuggle_req = demo_req\<lparr>rq_query := JObj [(''companyId'', JStr ''mine'')], rq_body := JObj [(''companyId'', JStr ''theirs'')]\<rparr>"

definition only_mine :: "unit acl_check" where
  "only_mine u ctx acts = ret (ctx = Some \<lparr>rc_companyId = JStr ''mine'', rc_resourceId = JUndef\<rparr>)"

lemma checked_id_is_not_the_sent_one:
  "map ca_data (map sent_call (fst (fst (handle_route demo_env demo_verify (Some only_mine) demo_route smuggle_req
     (gw_boot [demo_provider]) (\<lambda>g. g) ())))) = [JObj [(''companyId'', JStr ''theirs'')]]"
  by code_simp

text \<open>A body field named \<open>$files\<close> that is no list of files makes the handler reject before its
  error envelope.\<close>

lemma files_field_rejects:
  "snd (fst (handle_route demo_env demo_verify (Some (\<lambda>u ctx acts. ret True)) demo_route
     (demo_req\<lparr>rq_body := JObj [(''$files'', JNum 5)]\<rparr>) (gw_boot [demo_provider]) (\<lambda>g. g) ())) = Rejected (type_error ''not iterable'')"
  by code_simp

text \<open>C14: A reply that is not an error means the broker took the message: exactly one call was
  made, an event was confirmed by the broker before the client was told, and the reply of a
  request is built from the answer that came back, falsy answers included.\<close>

theorem success_reply_means_processed:
  assumes "handle_route env verify acl path r g later w = ((calls, Answered rep), g', w')" and "\<nexists>e. rep = ErrorReply e"
  shows "\<exists>c. (calls = [Published c] \<and> rt_mode path = ''event'' \<and> he_publish env c = Inr ()) \<or>
    (\<exists>resp. calls = [Requested c (rt_timeout path)] \<and> rt_mode path = ''rpc'' \<and> he_request env c (rt_timeout path) = Inr resp \<and>
       rpc_reply path resp = Inr rep \<and>
       (nullish resp \<or> rep = RedirectReply (the (rt_redirect path)) resp \<or> (\<exists>n h. rep = JsonReply n h resp) \<or>
        (\<exists>n h. rep = BinaryReply n h (b64_decode (js_string resp))) \<or> (\<exists>n h s. rep = TextReply n h s \<and> resp = JStr s)))"
proof -
  from assms obtain auth r2 where f: "forward env path r2 auth = (calls, Answered rep)"
    by (cases rule: handle_route_cases) (auto simp: gate_authorize_def deny_def split: prod.splits sum.splits if_splits)
  have shape: "rpc_reply path resp = Inr rep \<Longrightarrow>
      nullish resp \<or> rep = RedirectReply (the (rt_redirect path)) resp \<or> (\<exists>n h. rep = JsonReply n h resp) \<or>
        (\<exists>n h. rep = BinaryReply n h (b64_decode (js_string resp))) \<or> (\<exists>n h s. rep = TextReply n h s \<and> resp = JStr s)" for resp
    by (auto simp: rpc_reply_def with_status_def Let_def nullish_def split: if_splits jval.splits sum.splits)
  show ?thesis
    using f assms(2) by (auto simp: forward_def answer_def Let_def dest: shape split: sum.splits if_splits)
qed

theorem success_reply_means_processed_witness:
  "\<exists>c resp. fst (fst demo_handled) = [Requested c None] \<and> he_request demo_env c None = Inr resp \<and>
     rpc_reply demo_route resp = Inr (JsonReply 200 [(''Content-Type'', JStr ''application/json'')] (JBool False))"
proof -
  have m: "rt_mode demo_route = ''rpc''" "rt_timeout demo_route = None" by (simp_all add: demo_route_def)
  obtain calls where v: "fst demo_handled = (calls, Answered (JsonReply 200 [(''Content-Type'', JStr ''application/json'')] (JBool False)))"
    using demo_handled_value(1) by blast
  from run_parts [OF v] obtain g' w' where
    h: "demo_handled = ((calls, Answered (JsonReply 200 [(''Content-Type'', JStr ''application/json'')] (JBool False))), g', w')" by blast
  show ?thesis
    unfolding v fst_conv using success_reply_means_processed [OF h [unfolded demo_handled_def]] unfolding m by auto
qed

end
