(* ===== verification/Gateway_Reload.thy ===== *)
theory Gateway_Reload
  imports Gateway_Http
begin

text \<open>
  The rest of \<open>proxy/services/http-handler.service.ts\<close>: the cap on concurrent requests, the
  registration of routes, the reload of the route table with its coalescing of signals, the
  control messages, and the order of the start-up.

  Reloads are a state machine over the events of the process: the stored routes change, a signal
  arrives, the export of the running pass is answered or fails, the pass swaps its table in.
  \<open>rs_dirty\<close> is a history variable: the stored routes have changed since the last signal.
\<close>

section \<open>The concurrency cap\<close>

text \<open>Every admitted request has its own \<open>released\<close> flag; \<open>finish\<close> and \<open>close\<close> of a response both
  try to release it.\<close>

record cap_state =
  cp_inFlight :: int
  cp_released :: "(nat, bool) omap"

datatype cap_event = Arrive nat | Finish nat | Close nat

datatype cap_effect = Admitted | Refused envelope "(string \<times> string) list" | Silent

definition cap_enabled :: "int option \<Rightarrow> bool" where
  "cap_enabled maxConcurrent \<longleftrightarrow> (case maxConcurrent of None \<Rightarrow> False | Some n \<Rightarrow> n > 0)"

definition cap_release :: "nat \<Rightarrow> cap_state \<Rightarrow> cap_state" where
  "cap_release i s =
     (if map_of (cp_released s) i = Some False
      then s\<lparr>cp_inFlight := cp_inFlight s - 1, cp_released := AList.update i True (cp_released s)\<rparr> else s)"

fun cap_step :: "bool \<Rightarrow> int option \<Rightarrow> cap_event \<Rightarrow> cap_state \<Rightarrow> cap_effect \<times> cap_state" where
  "cap_step production maxConcurrent (Arrive i) s =
     (if \<not> cap_enabled maxConcurrent then (Admitted, s)
      else if cp_inFlight s \<ge> the maxConcurrent
      then (Refused (sendError production (plain_error ''ServiceUnavailable'' ''Server busy'') (Some 503)) [(''Retry-After'', ''1'')], s)
      else (Admitted, s\<lparr>cp_inFlight := cp_inFlight s + 1, cp_released := AList.update i False (cp_released s)\<rparr>))"
| "cap_step production maxConcurrent (Finish i) s = (Silent, cap_release i s)"
| "cap_step production maxConcurrent (Close i) s = (Silent, cap_release i s)"

definition cap_start :: cap_state where
  "cap_start = \<lparr>cp_inFlight = 0, cp_released = []\<rparr>"

definition cap_run :: "bool \<Rightarrow> int option \<Rightarrow> cap_event list \<Rightarrow> cap_state" where
  "cap_run production maxConcurrent evs = fold (\<lambda>e s. snd (cap_step production maxConcurrent e s)) evs cap_start"

section \<open>Registering routes\<close>

datatype route_warning = ActionsWithoutAuth | UnknownProvider

definition register_warnings :: "gw_auth \<Rightarrow> route \<Rightarrow> route_warning list" where
  "register_warnings g path =
     (if rt_actions path \<noteq> [] \<and> \<not> truthy_str (rt_auth path) then [ActionsWithoutAuth] else [])
     @ (if truthy_str (rt_auth path) \<and> reg_find (rt_auth path) g = None then [UnknownProvider] else [])"

text \<open>\<open>accepts\<close> is the framework's router: whether it has the method and can compile the path.\<close>

definition registerPath :: "(route \<Rightarrow> bool) \<Rightarrow> route \<Rightarrow> route list \<Rightarrow> jserr + route list" where
  "registerPath accepts path table =
     (if rt_method path = [] then Inl (generic_error ''Method is required for path definition'')
      else if rt_path path = [] then Inl (generic_error ''Path is required for path definition'')
      else if rt_topic path = [] then Inl (generic_error ''Topic is required for path definition'')
      else if rt_mode path = [] then Inl (generic_error ''Mode is required for path definition'')
      else if \<not> accepts path then Inl (type_error ''not a route'')
      else Inr (table @ [path]))"

fun registerAll :: "(route \<Rightarrow> bool) \<Rightarrow> route list \<Rightarrow> nat \<Rightarrow> route list \<Rightarrow> nat \<times> route list" where
  "registerAll accepts [] ok table = (ok, table)"
| "registerAll accepts (path # paths) ok table =
     (case registerPath accepts path table of
        Inl e \<Rightarrow> registerAll accepts paths ok table
      | Inr table' \<Rightarrow> registerAll accepts paths (Suc ok) table')"

text \<open>What the export of the stored routes gave: nothing is configured, it failed, it was no list,
  or the routes.\<close>

datatype export = NoExport | ExportFailed jserr | ExportNotList | Exported "route list"

definition ext_paths :: "export \<Rightarrow> route list" where
  "ext_paths x = (case x of Exported ps \<Rightarrow> ps | _ \<Rightarrow> [])"

definition doReload :: "(route \<Rightarrow> bool) \<Rightarrow> route list \<Rightarrow> export \<Rightarrow> nat \<times> route list" where
  "doReload accepts yaml x = registerAll accepts (yaml @ ext_paths x) 0 []"

section \<open>Coalesced reloads\<close>

record reload_state =
  rs_stored :: "route list"
  rs_inFlight :: bool
  rs_pending :: bool
  rs_export :: "export option"
  rs_table :: "route list option"
  rs_dirty :: bool

datatype reload_event = Change "route list" | Signal | ExportAnswered | ExportFails jserr | Swap

definition start_pass :: "reload_state \<Rightarrow> reload_state" where
  "start_pass s = s\<lparr>rs_pending := False, rs_export := None\<rparr>"

definition reload_call :: "reload_state \<Rightarrow> int option \<times> reload_state" where
  "reload_call s =
     (if rs_inFlight s then (Some (- 1), s\<lparr>rs_pending := True\<rparr>)
      else (None, start_pass (s\<lparr>rs_inFlight := True\<rparr>)))"

definition pass_end :: "reload_state \<Rightarrow> reload_state" where
  "pass_end s = (if rs_pending s then start_pass s else s\<lparr>rs_inFlight := False, rs_export := None\<rparr>)"

fun reload_step :: "(route \<Rightarrow> bool) \<Rightarrow> route list \<Rightarrow> reload_event \<Rightarrow> reload_state \<Rightarrow> reload_state" where
  "reload_step accepts yaml (Change ps) s = s\<lparr>rs_stored := ps, rs_dirty := True\<rparr>"
| "reload_step accepts yaml Signal s = snd (reload_call (s\<lparr>rs_dirty := False\<rparr>))"
| "reload_step accepts yaml ExportAnswered s =
     (if rs_inFlight s \<and> rs_export s = None then s\<lparr>rs_export := Some (Exported (rs_stored s))\<rparr> else s)"
| "reload_step accepts yaml (ExportFails e) s =
     (if rs_inFlight s \<and> rs_export s = None then s\<lparr>rs_export := Some (ExportFailed e)\<rparr> else s)"
| "reload_step accepts yaml Swap s =
     (case rs_export s of
        Some x \<Rightarrow> if rs_inFlight s then pass_end (s\<lparr>rs_table := Some (snd (doReload accepts yaml x))\<rparr>) else s
      | None \<Rightarrow> s)"

definition reload_start :: "route list \<Rightarrow> reload_state" where
  "reload_start stored = \<lparr>rs_stored = stored, rs_inFlight = False, rs_pending = False, rs_export = None, rs_table = None, rs_dirty = True\<rparr>"

definition reload_run :: "(route \<Rightarrow> bool) \<Rightarrow> route list \<Rightarrow> route list \<Rightarrow> reload_event list \<Rightarrow> reload_state" where
  "reload_run accepts yaml stored evs = fold (reload_step accepts yaml) evs (reload_start stored)"

section \<open>Control messages and start-up\<close>

definition GW_RELOAD_ACTION :: string where
  "GW_RELOAD_ACTION = ''gw-reload''"

definition GW_AUTH_RELOAD_ACTION :: string where
  "GW_AUTH_RELOAD_ACTION = ''gw-auth-reload''"

datatype control_effect = ReloadAuth | ReloadRoutes | Ignored

definition onControl :: "jval \<Rightarrow> control_effect" where
  "onControl msg =
     (let action = jget msg ''action'' in
      if action = JStr GW_AUTH_RELOAD_ACTION then ReloadAuth
      else if truthy action \<and> action \<noteq> JStr GW_RELOAD_ACTION then Ignored
      else ReloadRoutes)"

datatype boot_step = MountCap | MountRouter | LoadAuth | LoadRoutes | ListenControl string

definition http_onModuleInit :: "int option \<Rightarrow> string option \<Rightarrow> boot_step list" where
  "http_onModuleInit maxConcurrent reloadTopic =
     (if cap_enabled maxConcurrent then [MountCap] else []) @ [MountRouter, LoadAuth, LoadRoutes]
     @ (if truthy_str reloadTopic then [ListenControl (the reloadTopic)] else [])"

text \<open>The mounted delegator: the current table, if there is one, otherwise the next handler.\<close>

definition delegate :: "reload_state \<Rightarrow> route list option" where
  "delegate s = rs_table s"


section \<open>Lemmas on the cap\<close>

definition open_requests :: "cap_state \<Rightarrow> nat set" where
  "open_requests s = {i. map_of (cp_released s) i = Some False}"

fun arrivals :: "cap_event list \<Rightarrow> nat list" where
  "arrivals [] = []"
| "arrivals (Arrive i # evs) = i # arrivals evs"
| "arrivals (_ # evs) = arrivals evs"

lemma arrivals_append [simp]: "arrivals (xs @ ys) = arrivals xs @ arrivals ys"
  by (induction xs rule: arrivals.induct) auto

definition cap_ok :: "int \<Rightarrow> nat list \<Rightarrow> cap_state \<Rightarrow> bool" where
  "cap_ok m ids s \<longleftrightarrow> cp_inFlight s = int (card (open_requests s)) \<and> cp_inFlight s \<le> m \<and> fst ` set (cp_released s) \<subseteq> set ids"

lemma open_finite [simp]: "finite (open_requests s)"
proof (rule finite_subset)
  show "open_requests s \<subseteq> fst ` set (cp_released s)"
    by (auto simp: open_requests_def dest!: map_of_SomeD intro: rev_image_eqI)
qed simp

lemma cap_release_ok:
  assumes "cap_ok m ids s"
  shows "cap_ok m ids (cap_release i s)"
proof (cases "map_of (cp_released s) i = Some False")
  case True
  then have i: "i \<in> open_requests s" by (simp add: open_requests_def)
  have o: "open_requests (cap_release i s) = open_requests s - {i}"
    using True by (auto simp: open_requests_def cap_release_def om_simps)
  have "card (open_requests s) = Suc (card (open_requests s - {i}))" by (rule card.remove [OF open_finite i])
  moreover have "fst ` set (cp_released (cap_release i s)) \<subseteq> set ids"
    using assms True by (auto simp: cap_ok_def cap_release_def dom_update dest!: map_of_SomeD)
  ultimately show ?thesis
    using assms True unfolding cap_ok_def o by (simp add: cap_release_def)
next
  case False
  with assms show ?thesis by (simp add: cap_release_def)
qed

lemma cap_arrive_ok:
  assumes "cap_ok m ids s" and "i \<notin> set ids" and "0 < m"
  shows "cap_ok m (ids @ [i]) (snd (cap_step production (Some m) (Arrive i) s))"
proof (cases "cp_inFlight s \<ge> m")
  case True
  with assms show ?thesis by (auto simp: cap_ok_def cap_enabled_def)
next
  case False
  let ?t = "snd (cap_step production (Some m) (Arrive i) s)"
  have t: "cp_inFlight ?t = cp_inFlight s + 1" "cp_released ?t = AList.update i False (cp_released s)"
    using False assms(3) by (simp_all add: cap_enabled_def)
  have new: "i \<notin> open_requests s"
    using assms(1,2) by (auto simp: cap_ok_def open_requests_def dest!: map_of_SomeD)
  have "open_requests ?t = insert i (open_requests s)"
    unfolding open_requests_def t by (auto simp: om_simps)
  with new have c: "card (open_requests ?t) = Suc (card (open_requests s))" by simp
  have k: "fst ` set (cp_released ?t) \<subseteq> set (ids @ [i])"
    using assms(1) unfolding t by (auto simp: cap_ok_def dom_update)
  show ?thesis using assms(1) False k unfolding cap_ok_def c t(1) by simp
qed

lemma cap_run_ok:
  assumes "0 < m" and "distinct (arrivals evs)"
  shows "cap_ok m (arrivals evs) (cap_run production (Some m) evs)"
  using assms(2)
proof (induction evs rule: rev_induct)
  case Nil
  show ?case using assms(1) by (simp add: cap_run_def cap_start_def cap_ok_def open_requests_def)
next
  case (snoc e evs)
  then have ih: "cap_ok m (arrivals evs) (cap_run production (Some m) evs)" by simp
  have step: "cap_run production (Some m) (evs @ [e]) = snd (cap_step production (Some m) e (cap_run production (Some m) evs))"
    by (simp add: cap_run_def)
  show ?case
  proof (cases e)
    case (Arrive i)
    with snoc.prems cap_arrive_ok [OF ih _ assms(1)] show ?thesis unfolding step by simp
  next
    case (Finish i)
    with cap_release_ok [OF ih] show ?thesis unfolding step by simp
  next
    case (Close i)
    with cap_release_ok [OF ih] show ?thesis unfolding step by simp
  qed
qed

text \<open>The cap holds: with a cap of \<open>m\<close>, whatever the order of arrivals, finished responses and
  closed sockets (both may happen to one response), the counter is the number of admitted
  requests still open, never more than \<open>m\<close>, and a new request is admitted exactly when fewer
  than \<open>m\<close> are open.\<close>

theorem concurrency_cap_holds:
  assumes "0 < m" and "distinct (arrivals evs)" and "s = cap_run production (Some m) evs"
  shows "cp_inFlight s = int (card (open_requests s)) \<and> int (card (open_requests s)) \<le> m \<and>
    (fst (cap_step production (Some m) (Arrive i) s) = Admitted) = (int (card (open_requests s)) < m)"
  using cap_run_ok [OF assms(1,2), of production] assms(1)
  unfolding assms(3) [symmetric] cap_ok_def by (auto simp: cap_enabled_def)

theorem concurrency_cap_holds_witness:
  "cp_inFlight (cap_run True (Some 2) [Arrive 1, Arrive 2, Arrive 3, Finish 1, Close 1, Close 3]) = 1 \<and>
   int (card (open_requests (cap_run True (Some 2) [Arrive 1, Arrive 2, Arrive 3, Finish 1, Close 1, Close 3]))) = 1"
proof -
  have "cp_inFlight (cap_run True (Some 2) [Arrive 1, Arrive 2, Arrive 3, Finish 1, Close 1, Close 3]) = 1" by code_simp
  with concurrency_cap_holds [OF _ _ HOL.refl, of 2 "[Arrive 1, Arrive 2, Arrive 3, Finish 1, Close 1, Close 3]" True]
  show ?thesis by simp
qed

section \<open>Lemmas on reloading\<close>

definition valid_route :: "(route \<Rightarrow> bool) \<Rightarrow> route \<Rightarrow> bool" where
  "valid_route accepts p \<longleftrightarrow> rt_method p \<noteq> [] \<and> rt_path p \<noteq> [] \<and> rt_topic p \<noteq> [] \<and> rt_mode p \<noteq> [] \<and> accepts p"

lemma registerAll_valid:
  "registerAll accepts ps n table = (n + length (filter (valid_route accepts) ps), table @ filter (valid_route accepts) ps)"
  by (induction ps arbitrary: n table) (auto simp: registerPath_def valid_route_def)

lemma doReload_valid: "snd (doReload accepts yaml x) = filter (valid_route accepts) (yaml @ ext_paths x)"
  by (simp add: doReload_def registerAll_valid)

definition reload_ok :: "(route \<Rightarrow> bool) \<Rightarrow> route list \<Rightarrow> reload_state \<Rightarrow> bool" where
  "reload_ok accepts yaml s \<longleftrightarrow> (rs_pending s \<longrightarrow> rs_inFlight s) \<and>
     (\<not> rs_dirty s \<and> \<not> rs_inFlight s \<longrightarrow> rs_table s = Some (filter (valid_route accepts) (yaml @ rs_stored s))) \<and>
     (\<not> rs_dirty s \<and> rs_inFlight s \<and> \<not> rs_pending s \<longrightarrow> rs_export s = None \<or> rs_export s = Some (Exported (rs_stored s)))"

lemmas reload_defs = reload_call_def start_pass_def pass_end_def

lemma reload_step_ok:
  assumes "reload_ok accepts yaml s" and "\<nexists>e. ev = ExportFails e"
  shows "reload_ok accepts yaml (reload_step accepts yaml ev s)"
  using assms by (cases ev) (auto simp: reload_ok_def reload_defs doReload_valid ext_paths_def split: option.split)

lemma reload_run_snoc: "reload_run accepts yaml stored (evs @ [e]) = reload_step accepts yaml e (reload_run accepts yaml stored evs)"
  by (simp add: reload_run_def)

lemma reload_run_ok:
  "(\<forall>e. ExportFails e \<notin> set evs) \<Longrightarrow> reload_ok accepts yaml (reload_run accepts yaml stored evs)"
proof (induction evs rule: rev_induct)
  case Nil
  show ?case by (simp add: reload_run_def reload_start_def reload_ok_def)
next
  case (snoc e evs)
  then show ?case unfolding reload_run_snoc by (intro reload_step_ok) auto
qed

text \<open>Two more answered exports settle any state in which no further signal arrives.\<close>

lemma two_passes_settle:
  assumes "rs_pending s \<Longrightarrow> rs_inFlight s"
  shows "\<not> rs_inFlight (fold (reload_step accepts yaml) [ExportAnswered, Swap, ExportAnswered, Swap] s)"
  using assms by (auto simp: reload_defs split: option.split)



end
