(* ===== verification/Gateway_WebSocket.thy ===== *)
theory Gateway_WebSocket
  imports Gateway_Http Broker_Service
begin

text \<open>
  The WebSocket side of the gateway: \<open>proxy/services/websocket.service.ts\<close>.

  A subscription waits for the token's verification and for the access check, and anything may
  happen in between, so the service is a state machine over events: messages and closes of
  clients, the promises that resolve, broker messages, heartbeats. A waiting subscription is a
  task that holds what its promise will give. A client is its index; a client that was closed
  keeps its object, as the code's closures do. Of \<open>bufferedAmount\<close> only its current value is
  known, it is the socket's.
\<close>

section \<open>Configuration and state\<close>

record ws_event =
  we_type :: string
  we_exchange :: string
  we_routingKey :: string
  we_name :: string
  we_auth :: "string option"
  we_requireAuth :: "bool option"
  we_actions :: "string list"
  we_scopeClaim :: "string option"
  we_payloadKey :: "string option"

record ws_config =
  wc_maxConnections :: "int option"
  wc_maxSubscriptionsPerClient :: "int option"
  wc_allowedOrigins :: "string list"
  wc_maxMessageBytes :: "int option"
  wc_maxBufferedBytes :: "int option"

record ws_client =
  wl_alive :: bool
  wl_token :: "string option"
  wl_exp :: "int option"
  wl_claims :: "(string, auth_data) omap"
  wl_open :: bool
  wl_buffered :: int
  wl_sent :: "jval list"

record subscription =
  su_event :: ws_event
  su_select :: jval
  su_scope :: jval
  su_claims :: "auth_data option"
  su_saturated :: bool

datatype claims_promise = Known auth_data | Verifying string auth_provider jval

datatype task =
    AwaitClaims nat ws_event jval claims_promise
  | AwaitAcl nat ws_event jval "auth_data option" "jserr + bool"

fun task_client :: "task \<Rightarrow> nat" where
  "task_client (AwaitClaims i ev sel c) = i"
| "task_client (AwaitAcl i ev sel c a) = i"

type_synonym subs = "(nat, (string, subscription) omap) omap"

record 'w ws_state =
  ws_clients :: "(nat, ws_client) omap"
  ws_subs :: subs
  ws_tasks :: "task list"
  ws_unhandled :: "jserr list"
  ws_auth :: gw_auth
  ws_acl :: 'w

record 'w ws_env =
  wv_config :: ws_config
  wv_events :: "ws_event list"
  wv_subjects :: "string list"
  wv_verify :: verifier
  wv_check :: "'w acl_check option"

section \<open>Connections\<close>

definition is_bearer :: "string \<Rightarrow> bool" where
  "is_bearer p \<longleftrightarrow> to_lower p = ''bearer'' \<or> to_lower p = ''jwt''"

fun after_bearer :: "string list \<Rightarrow> string option option" where
  "after_bearer [] = None"
| "after_bearer (p # ps) = (if is_bearer p then Some (case ps of [] \<Rightarrow> None | q # _ \<Rightarrow> Some q) else after_bearer ps)"

definition extractToken :: "string option \<Rightarrow> string option" where
  "extractToken proto =
     (case proto of
        None \<Rightarrow> None
      | Some h \<Rightarrow>
          (case filter (\<lambda>s. s \<noteq> []) (map js_trim (js_split CHR '','' h)) of
             [] \<Rightarrow> None
           | [p] \<Rightarrow> Some p
           | parts \<Rightarrow> (case after_bearer parts of Some q \<Rightarrow> q | None \<Rightarrow> Some (last parts))))"

datatype handshake = Accepted ws_client | Closed int string

text \<open>\<open>connected\<close> counts the sockets of the server, the new one included.\<close>

definition handleConnection :: "ws_config \<Rightarrow> int \<Rightarrow> string option \<Rightarrow> string option \<Rightarrow> handshake" where
  "handleConnection cfg connected origin proto =
     (if wc_allowedOrigins cfg \<noteq> [] \<and> \<not> (truthy_str origin \<and> the origin \<in> set (wc_allowedOrigins cfg))
      then Closed 1008 ''Origin not allowed''
      else if (case wc_maxConnections cfg of None \<Rightarrow> False | Some m \<Rightarrow> m \<noteq> 0 \<and> connected > m)
      then Closed 1013 ''Server busy''
      else Accepted \<lparr>wl_alive = True, wl_token = extractToken proto, wl_exp = None, wl_claims = [], wl_open = True,
             wl_buffered = 0, wl_sent = []\<rparr>)"

definition isExpired :: "int \<Rightarrow> ws_client \<Rightarrow> bool" where
  "isExpired now c \<longleftrightarrow> (case wl_exp c of None \<Rightarrow> False | Some e \<Rightarrow> now \<ge> e * 1000)"

definition handleDisconnect :: "nat \<Rightarrow> 'w ws_state \<Rightarrow> 'w ws_state" where
  "handleDisconnect i s = s\<lparr>ws_subs := AList.delete i (ws_subs s)\<rparr>"

definition set_client :: "nat \<Rightarrow> (ws_client \<Rightarrow> ws_client) \<Rightarrow> 'w ws_state \<Rightarrow> 'w ws_state" where
  "set_client i f s =
     (case map_of (ws_clients s) i of None \<Rightarrow> s | Some c \<Rightarrow> s\<lparr>ws_clients := AList.update i (f c) (ws_clients s)\<rparr>)"

definition close_socket :: "nat \<Rightarrow> 'w ws_state \<Rightarrow> 'w ws_state" where
  "close_socket i = set_client i (\<lambda>c. c\<lparr>wl_open := False\<rparr>)"

definition closeExpired :: "nat \<Rightarrow> 'w ws_state \<Rightarrow> 'w ws_state" where
  "closeExpired i s = close_socket i (handleDisconnect i s)"

definition send :: "nat \<Rightarrow> jval \<Rightarrow> 'w ws_state \<Rightarrow> 'w ws_state" where
  "send i v = set_client i (\<lambda>c. if wl_open c then c\<lparr>wl_sent := wl_sent c @ [v]\<rparr> else c)"

definition ws_error :: "nat \<Rightarrow> string \<Rightarrow> string \<Rightarrow> 'w ws_state \<Rightarrow> 'w ws_state" where
  "ws_error i ev reason =
     send i (JObj [(''topic'', JStr ''onError''), (''data'', JObj [(''event'', JStr ev), (''error'', JStr reason)])])"

text \<open>One beat of the heartbeat for one socket of the server.\<close>

definition beat :: "int \<Rightarrow> nat \<Rightarrow> 'w ws_state \<Rightarrow> 'w ws_state" where
  "beat now i s =
     (case map_of (ws_clients s) i of
        None \<Rightarrow> s
      | Some c \<Rightarrow>
          if \<not> wl_open c then s
          else if isExpired now c then closeExpired i s
          else if \<not> wl_alive c then handleDisconnect i (close_socket i s)
          else set_client i (\<lambda>c. c\<lparr>wl_alive := False\<rparr>) s)"

definition heartbeat :: "int \<Rightarrow> 'w ws_state \<Rightarrow> 'w ws_state" where
  "heartbeat now s = fold (beat now) (map fst (ws_clients s)) s"

definition ws_onModuleDestroy :: "'w ws_state \<Rightarrow> (nat \<times> string) list" where
  "ws_onModuleDestroy s = concat (map (\<lambda>(i, m). map (\<lambda>(n, su). (i, n)) m) (ws_subs s))"

section \<open>Subscribing\<close>

definition client_subs :: "nat \<Rightarrow> 'w ws_state \<Rightarrow> (string, subscription) omap" where
  "client_subs i s = coalesce (map_of (ws_subs s) i) []"

definition scope_value :: "ws_event \<Rightarrow> auth_data option \<Rightarrow> jval" where
  "scope_value ev claims =
     (if truthy_str (we_scopeClaim ev)
      then (case claims of None \<Rightarrow> JUndef | Some cl \<Rightarrow> jget (JObj cl) (the (we_scopeClaim ev))) else JUndef)"

definition install :: "'w ws_env \<Rightarrow> nat \<Rightarrow> ws_event \<Rightarrow> jval \<Rightarrow> auth_data option \<Rightarrow> 'w ws_state \<Rightarrow> 'w ws_state" where
  "install env i ev sel claims s =
     (let current = int (length (client_subs i s)) in
      if (case wc_maxSubscriptionsPerClient (wv_config env) of None \<Rightarrow> False | Some m \<Rightarrow> m \<noteq> 0 \<and> current \<ge> m)
      then ws_error i (we_name ev) ''subscription_limit'' s
      else if we_name ev \<notin> set (wv_subjects env) then ws_error i (we_name ev) ''unknown_event'' s
      else if map_of (client_subs i s) (we_name ev) \<noteq> None then s
      else s\<lparr>ws_subs := AList.update i
               (AList.update (we_name ev)
                 \<lparr>su_event = ev, su_select = sel, su_scope = scope_value ev claims, su_claims = claims, su_saturated = False\<rparr>
                 (client_subs i s)) (ws_subs s)\<rparr>)"

definition claims_ok :: "auth_data option \<Rightarrow> bool" where
  "claims_ok claims \<longleftrightarrow> (case claims of None \<Rightarrow> False | Some cl \<Rightarrow> auth_success cl)"

text \<open>After authentication: the access check is called now and answers later.\<close>

definition after_auth :: "'w ws_env \<Rightarrow> nat \<Rightarrow> ws_event \<Rightarrow> jval \<Rightarrow> auth_data option \<Rightarrow> 'w ws_state \<Rightarrow> 'w ws_state" where
  "after_auth env i ev sel claims s =
     (if we_actions ev = [] then install env i ev sel claims s
      else (case (if truthy_str (we_auth ev) then reg_find (we_auth ev) (ws_auth s) else None) of
              None \<Rightarrow> ws_error i (we_name ev) ''forbidden'' s
            | Some p \<Rightarrow>
                if \<not> claims_ok claims then ws_error i (we_name ev) ''forbidden'' s
                else (case checkActionsForClaims (wv_check env) p claims (we_actions ev) None (ws_acl s) of
                        (res, w') \<Rightarrow> s\<lparr>ws_acl := w', ws_tasks := ws_tasks s @ [AwaitAcl i ev sel claims res]\<rparr>)))"

definition on_claims :: "'w ws_env \<Rightarrow> nat \<Rightarrow> ws_event \<Rightarrow> jval \<Rightarrow> auth_data \<Rightarrow> 'w ws_state \<Rightarrow> 'w ws_state" where
  "on_claims env i ev sel claims s =
     (if we_requireAuth ev \<noteq> Some False \<and> \<not> auth_success claims then ws_error i (we_name ev) ''unauthorized'' s
      else after_auth env i ev sel (Some claims) s)"

text \<open>The start of \<open>resolveClaims\<close>: a memoised result, an unknown provider, or a verification
  that starts now.\<close>

definition resolve_start :: "'w ws_env \<Rightarrow> nat \<Rightarrow> string \<Rightarrow> 'w ws_state \<Rightarrow> claims_promise \<times> 'w ws_state" where
  "resolve_start env i nm s =
     (case map_of (ws_clients s) i of
        None \<Rightarrow> (Known (auth_result False), s)
      | Some c \<Rightarrow>
          (case map_of (wl_claims c) nm of
             Some cl \<Rightarrow> (Known cl, s)
           | None \<Rightarrow>
               (case reg_find (Some nm) (ws_auth s) of
                  None \<Rightarrow> (Known (auth_result False), set_client i (\<lambda>c. c\<lparr>wl_claims := AList.update nm (auth_result False) (wl_claims c)\<rparr>) s)
                | Some p \<Rightarrow>
                    (case verifyToken (wv_verify env) p (wl_token c) (ga_clients (ws_auth s)) of
                       (decoded, cs) \<Rightarrow> (Verifying nm p decoded, s\<lparr>ws_auth := (ws_auth s)\<lparr>ga_clients := cs\<rparr>\<rparr>)))))"

definition note_exp :: "jval \<Rightarrow> ws_client \<Rightarrow> ws_client" where
  "note_exp decoded c =
     (case jget decoded ''exp'' of
        JNum n \<Rightarrow> if n \<noteq> 0 \<and> wl_exp c = None then c\<lparr>wl_exp := Some n\<rparr> else c
      | _ \<Rightarrow> c)"

text \<open>The rest of \<open>resolveClaims\<close> when the verification answers.\<close>

definition resolve_end :: "nat \<Rightarrow> claims_promise \<Rightarrow> 'w ws_state \<Rightarrow> (jserr + auth_data) \<times> 'w ws_state" where
  "resolve_end i pr s =
     (case pr of
        Known cl \<Rightarrow> (Inr cl, s)
      | Verifying nm p decoded \<Rightarrow>
          (let s1 = set_client i (note_exp decoded) s in
           case mapClaims p decoded of
             Inl e \<Rightarrow> (Inl e, s1)
           | Inr cl \<Rightarrow> (Inr cl, set_client i (\<lambda>c. c\<lparr>wl_claims := AList.update nm cl (wl_claims c)\<rparr>) s1)))"

definition subscribeClient :: "'w ws_env \<Rightarrow> nat \<Rightarrow> ws_event \<Rightarrow> jval \<Rightarrow> 'w ws_state \<Rightarrow> 'w ws_state" where
  "subscribeClient env i ev sel s =
     (if truthy_str (we_auth ev)
      then (case resolve_start env i (the (we_auth ev)) s of
              (pr, s1) \<Rightarrow> s1\<lparr>ws_tasks := ws_tasks s1 @ [AwaitClaims i ev sel pr]\<rparr>)
      else after_auth env i ev sel None s)"

text \<open>The \<open>n\<close>th waiting subscription goes on.\<close>

definition resume :: "'w ws_env \<Rightarrow> nat \<Rightarrow> 'w ws_state \<Rightarrow> 'w ws_state" where
  "resume env n s =
     (if n \<ge> length (ws_tasks s) then s
      else
        let s1 = s\<lparr>ws_tasks := take n (ws_tasks s) @ drop (Suc n) (ws_tasks s)\<rparr> in
        (case ws_tasks s ! n of
           AwaitClaims i ev sel pr \<Rightarrow>
             (case resolve_end i pr s1 of
                (Inl e, s2) \<Rightarrow> s2\<lparr>ws_unhandled := ws_unhandled s2 @ [e]\<rparr>
              | (Inr cl, s2) \<Rightarrow> on_claims env i ev sel cl s2)
         | AwaitAcl i ev sel claims res \<Rightarrow>
             (if res = Inr True then install env i ev sel claims s1 else ws_error i (we_name ev) ''forbidden'' s1)))"

section \<open>Client messages\<close>

definition find_event :: "ws_event list \<Rightarrow> jval \<Rightarrow> ws_event option" where
  "find_event evs topic = find (\<lambda>e. JStr (we_name e) = topic \<and> we_type e = ''ws'') evs"

definition unsubscribe :: "nat \<Rightarrow> string \<Rightarrow> 'w ws_state \<Rightarrow> 'w ws_state" where
  "unsubscribe i topic s =
     (case map_of (ws_subs s) i of
        None \<Rightarrow> s
      | Some m \<Rightarrow> s\<lparr>ws_subs := AList.update i (AList.delete topic m) (ws_subs s)\<rparr>)"

text \<open>\<open>parsed\<close> is what \<open>JSON.parse\<close> makes of the frame, nothing when it throws.\<close>

definition onClientMessage :: "'w ws_env \<Rightarrow> int \<Rightarrow> nat \<Rightarrow> int \<Rightarrow> jval option \<Rightarrow> 'w ws_state \<Rightarrow> 'w ws_state" where
  "onClientMessage env now i bytes parsed s =
     (case map_of (ws_clients s) i of
        None \<Rightarrow> s
      | Some c \<Rightarrow>
          if isExpired now c then closeExpired i s
          else if bytes > coalesce (wc_maxMessageBytes (wv_config env)) 16384 then s
          else (case parsed of
                  None \<Rightarrow> s
                | Some m \<Rightarrow>
                    let action = jget m ''action''; topic = jget m ''topic'' in
                    if \<not> truthy action \<or> \<not> truthy topic then s
                    else (case find_event (wv_events env) topic of
                            None \<Rightarrow> s
                          | Some ev \<Rightarrow>
                              if action = JStr ''subscribe'' then subscribeClient env i ev (jget m ''select'') s
                              else if action = JStr ''unsubscribe'' then unsubscribe i (we_name ev) s
                              else s)))"

section \<open>Delivery\<close>

text \<open>\<open>===\<close> on dynamic values: two arrays or objects of different origin are never identical.\<close>

definition strict_eq :: "jval \<Rightarrow> jval \<Rightarrow> bool" where
  "strict_eq a b \<longleftrightarrow> a = b \<and> (case a of JArr xs \<Rightarrow> False | JObj kvs \<Rightarrow> False | _ \<Rightarrow> True)"

definition matches :: "jval \<Rightarrow> jval \<Rightarrow> ws_event \<Rightarrow> jval \<Rightarrow> bool" where
  "matches msg select ev scope \<longleftrightarrow>
     (let payload = jget msg ''payload'' in
      (truthy_str (we_scopeClaim ev) \<longrightarrow>
         scope \<noteq> JUndef \<and> truthy_str (we_payloadKey ev) \<and> truthy payload \<and> strict_eq (jget payload (the (we_payloadKey ev))) scope) \<and>
      (truthy select \<and> truthy payload \<longrightarrow> list_all (\<lambda>(k, v). strict_eq (jget payload k) v) (own_entries select)))"

definition event_label :: "string \<Rightarrow> string" where
  "event_label n = ''on'' @ to_upper (take 1 n) @ drop 1 n"

definition event_message :: "ws_event \<Rightarrow> jval \<Rightarrow> jval" where
  "event_message ev msg =
     JObj [(''topic'', JStr (event_label (we_name ev))), (''data'', if truthy (jget msg ''payload'') then jget msg ''payload'' else msg)]"

definition set_saturated :: "nat \<Rightarrow> string \<Rightarrow> bool \<Rightarrow> 'w ws_state \<Rightarrow> 'w ws_state" where
  "set_saturated i n b s =
     s\<lparr>ws_subs := map (\<lambda>(j, m). (j, if j = i then map (\<lambda>(k, su). (k, if k = n then su\<lparr>su_saturated := b\<rparr> else su)) m else m)) (ws_subs s)\<rparr>"

text \<open>What the subscriber of one client does with a broker event of name \<open>n\<close>.\<close>

definition deliver_one :: "'w ws_env \<Rightarrow> int \<Rightarrow> string \<Rightarrow> jval \<Rightarrow> nat \<Rightarrow> 'w ws_state \<Rightarrow> 'w ws_state" where
  "deliver_one env now n msg i s =
     (case (map_of (client_subs i s) n, map_of (ws_clients s) i) of
        (Some su, Some c) \<Rightarrow>
          if \<not> matches msg (su_select su) (su_event su) (su_scope su) then s
          else if isExpired now c then closeExpired i s
          else if \<not> wl_open c then s
          else if wl_buffered c > coalesce (wc_maxBufferedBytes (wv_config env)) 1048576 then set_saturated i n True s
          else send i (event_message (su_event su) msg) (set_saturated i n False s)
      | _ \<Rightarrow> s)"

definition deliver :: "'w ws_env \<Rightarrow> int \<Rightarrow> string \<Rightarrow> jval \<Rightarrow> 'w ws_state \<Rightarrow> 'w ws_state" where
  "deliver env now n msg s = fold (deliver_one env now n msg) (map fst (ws_subs s)) s"

section \<open>The service as a state machine\<close>

datatype 'w ws_input =
    Connect nat int "string option" "string option"
  | Frame int nat int "jval option"
  | Resume nat
  | SocketClosed nat
  | PongReceived nat
  | BufferIs nat int
  | BrokerEvent int string jval
  | Beat int
  | AuthReloaded "(jserr + auth_provider list) option"
  | AclChanged 'w

fun ws_step :: "'w ws_env \<Rightarrow> 'w ws_input \<Rightarrow> 'w ws_state \<Rightarrow> 'w ws_state" where
  "ws_step env (Connect i n origin proto) s =
     (case (map_of (ws_clients s) i, handleConnection (wv_config env) n origin proto) of
        (None, Accepted c) \<Rightarrow> s\<lparr>ws_clients := ws_clients s @ [(i, c)]\<rparr>
      | _ \<Rightarrow> s)"
| "ws_step env (Frame now i bytes parsed) s = onClientMessage env now i bytes parsed s"
| "ws_step env (Resume n) s = resume env n s"
| "ws_step env (SocketClosed i) s = handleDisconnect i (close_socket i s)"
| "ws_step env (PongReceived i) s = set_client i (\<lambda>c. c\<lparr>wl_alive := True\<rparr>) s"
| "ws_step env (BufferIs i n) s = set_client i (\<lambda>c. c\<lparr>wl_buffered := n\<rparr>) s"
| "ws_step env (BrokerEvent now n msg) s = deliver env now n msg s"
| "ws_step env (Beat now) s = heartbeat now s"
| "ws_step env (AuthReloaded db) s = s\<lparr>ws_auth := snd (reg_reload db (ws_auth s))\<rparr>"
| "ws_step env (AclChanged w) s = s\<lparr>ws_acl := w\<rparr>"

definition ws_start :: "auth_provider list \<Rightarrow> 'w \<Rightarrow> 'w ws_state" where
  "ws_start yaml w = \<lparr>ws_clients = [], ws_subs = [], ws_tasks = [], ws_unhandled = [], ws_auth = gw_boot yaml, ws_acl = w\<rparr>"

inductive ws_reaches :: "'w ws_env \<Rightarrow> 'w ws_state \<Rightarrow> 'w ws_state \<Rightarrow> bool" for env where
  ws_here: "ws_reaches env s s"
| ws_next: "ws_reaches env s t \<Longrightarrow> ws_reaches env s (ws_step env e t)"

inductive_cases ws_reachesE: "ws_reaches env s t"

section \<open>What every subscription is backed by\<close>

definition token_of :: "'w ws_state \<Rightarrow> nat \<Rightarrow> string option" where
  "token_of s i = (case map_of (ws_clients s) i of None \<Rightarrow> None | Some c \<Rightarrow> wl_token c)"

text \<open>Successful claims were mapped from a payload the named provider accepted this very token
  for.\<close>

definition verified_claims :: "'w ws_env \<Rightarrow> string option \<Rightarrow> string \<Rightarrow> auth_data \<Rightarrow> bool" where
  "verified_claims env tok nm cl \<longleftrightarrow>
     (auth_success cl \<longrightarrow>
        (\<exists>p decoded. ap_name p = nm \<and> token_accepted (wv_verify env) p tok decoded \<and> mapClaims p decoded = Inr cl))"

definition claims_vetted :: "'w ws_env \<Rightarrow> string option \<Rightarrow> ws_event \<Rightarrow> auth_data option \<Rightarrow> bool" where
  "claims_vetted env tok ev claims \<longleftrightarrow>
     (truthy_str (we_auth ev) \<and> we_requireAuth ev \<noteq> Some False \<longrightarrow> claims_ok claims) \<and>
     (case claims of None \<Rightarrow> True | Some cl \<Rightarrow> verified_claims env tok (the (we_auth ev)) cl)"

definition granted :: "'w ws_env \<Rightarrow> ws_event \<Rightarrow> auth_data option \<Rightarrow> bool" where
  "granted env ev claims \<longleftrightarrow> claims_ok claims \<and>
     (\<exists>g p w w'. reg_find (we_auth ev) g = Some p \<and>
        checkActionsForClaims (wv_check env) p claims (we_actions ev) None w = (Inr True, w'))"

definition promise_ok :: "'w ws_env \<Rightarrow> string option \<Rightarrow> ws_event \<Rightarrow> claims_promise \<Rightarrow> bool" where
  "promise_ok env tok ev pr \<longleftrightarrow> truthy_str (we_auth ev) \<and>
     (case pr of
        Known cl \<Rightarrow> verified_claims env tok (the (we_auth ev)) cl
      | Verifying nm p decoded \<Rightarrow> we_auth ev = Some nm \<and> ap_name p = nm \<and>
          (truthy decoded \<longrightarrow> token_accepted (wv_verify env) p tok decoded))"

fun task_ok :: "'w ws_env \<Rightarrow> 'w ws_state \<Rightarrow> task \<Rightarrow> bool" where
  "task_ok env s (AwaitClaims i ev sel pr) = promise_ok env (token_of s i) ev pr"
| "task_ok env s (AwaitAcl i ev sel claims res) =
     (claims_vetted env (token_of s i) ev claims \<and> (res = Inr True \<longrightarrow> granted env ev claims))"

definition sub_ok :: "'w ws_env \<Rightarrow> string option \<Rightarrow> string \<Rightarrow> subscription \<Rightarrow> bool" where
  "sub_ok env tok n su \<longleftrightarrow>
     n = we_name (su_event su) \<and> n \<in> set (wv_subjects env) \<and> su_scope su = scope_value (su_event su) (su_claims su) \<and>
     claims_vetted env tok (su_event su) (su_claims su) \<and> (we_actions (su_event su) \<noteq> [] \<longrightarrow> granted env (su_event su) (su_claims su))"

definition within_limit :: "'w ws_env \<Rightarrow> nat \<Rightarrow> bool" where
  "within_limit env n \<longleftrightarrow>
     (case wc_maxSubscriptionsPerClient (wv_config env) of None \<Rightarrow> True | Some m \<Rightarrow> 0 < m \<longrightarrow> int n \<le> m)"

definition clients_inv :: "'w ws_env \<Rightarrow> 'w ws_state \<Rightarrow> bool" where
  "clients_inv env s \<longleftrightarrow>
     (\<forall>i c nm cl. map_of (ws_clients s) i = Some c \<longrightarrow> map_of (wl_claims c) nm = Some cl \<longrightarrow> verified_claims env (wl_token c) nm cl)"

definition tasks_inv :: "'w ws_env \<Rightarrow> 'w ws_state \<Rightarrow> bool" where
  "tasks_inv env s \<longleftrightarrow> (\<forall>t \<in> set (ws_tasks s). task_ok env s t)"

definition subs_inv :: "'w ws_env \<Rightarrow> 'w ws_state \<Rightarrow> bool" where
  "subs_inv env s \<longleftrightarrow> distinct (map fst (ws_subs s)) \<and>
     (\<forall>i. within_limit env (length (client_subs i s)) \<and>
        (\<forall>n su. map_of (client_subs i s) n = Some su \<longrightarrow> sub_ok env (token_of s i) n su))"

definition ws_inv :: "'w ws_env \<Rightarrow> 'w ws_state \<Rightarrow> bool" where
  "ws_inv env s \<longleftrightarrow> clients_ok (ws_auth s) \<and> clients_inv env s \<and> tasks_inv env s \<and> subs_inv env s"

lemmas ws_invs = ws_inv_def clients_inv_def tasks_inv_def subs_inv_def

subsection \<open>Steps that keep tokens and subscriptions\<close>

lemma set_client_get:
  "map_of (ws_clients (set_client i f s)) j = (if j = i then map_option f (map_of (ws_clients s) i) else map_of (ws_clients s) j)"
  by (auto simp: set_client_def om_simps split: option.split)

lemma set_client_rest [simp]:
  "ws_subs (set_client i f s) = ws_subs s" "ws_tasks (set_client i f s) = ws_tasks s" "ws_auth (set_client i f s) = ws_auth s"
  "ws_acl (set_client i f s) = ws_acl s" "ws_unhandled (set_client i f s) = ws_unhandled s"
  by (simp_all add: set_client_def split: option.split)

lemma token_of_set_client:
  "(\<And>c. wl_token (f c) = wl_token c) \<Longrightarrow> token_of (set_client i f s) j = token_of s j"
  by (simp add: token_of_def set_client_get split: option.split)

lemma client_subs_cong: "ws_subs s = ws_subs t \<Longrightarrow> client_subs i s = client_subs i t"
  by (simp add: client_subs_def)

lemma task_ok_cong: "(\<And>i. token_of s i = token_of t i) \<Longrightarrow> task_ok env s = task_ok env t"
proof (rule ext)
  fix x assume "\<And>i. token_of s i = token_of t i"
  then show "task_ok env s x = task_ok env t x" by (cases x) simp_all
qed

lemma set_client_inv:
  assumes "ws_inv env s" and "\<And>c. wl_token (f c) = wl_token c"
    and "\<And>c nm cl. map_of (ws_clients s) i = Some c \<Longrightarrow> map_of (wl_claims (f c)) nm = Some cl \<Longrightarrow>
      map_of (wl_claims c) nm = Some cl \<or> verified_claims env (wl_token c) nm cl"
  shows "ws_inv env (set_client i f s)"
proof -
  note tok = token_of_set_client [of f, OF assms(2)]
  have "clients_inv env (set_client i f s)"
    using assms unfolding ws_inv_def clients_inv_def by (auto simp: set_client_get split: if_splits) blast
  moreover have "tasks_inv env (set_client i f s)"
    using assms(1) task_ok_cong [of "set_client i f s" s env, OF tok] by (simp add: ws_invs)
  moreover have "subs_inv env (set_client i f s)"
    using assms(1) client_subs_cong [of "set_client i f s" s] by (simp add: ws_invs tok)
  ultimately show ?thesis using assms(1) by (simp add: ws_inv_def)
qed

lemma plain_set_client_inv:
  "ws_inv env s \<Longrightarrow> (\<And>c. wl_token (f c) = wl_token c \<and> wl_claims (f c) = wl_claims c) \<Longrightarrow> ws_inv env (set_client i f s)"
  by (rule set_client_inv) auto

lemma subs_change_inv:
  assumes "ws_inv env s" and "subs_inv env (s\<lparr>ws_subs := m\<rparr>)"
  shows "ws_inv env (s\<lparr>ws_subs := m\<rparr>)"
proof -
  have "task_ok env (s\<lparr>ws_subs := m\<rparr>) = task_ok env s" by (rule task_ok_cong) (simp add: token_of_def)
  with assms show ?thesis by (simp add: ws_inv_def clients_inv_def tasks_inv_def)
qed

lemma subs_replace_inv:
  assumes "ws_inv env s" and "within_limit env (length m)"
    and "\<And>n su. map_of m n = Some su \<Longrightarrow> sub_ok env (token_of s i) n su"
  shows "ws_inv env (s\<lparr>ws_subs := AList.update i m (ws_subs s)\<rparr>)"
  using assms by (intro subs_change_inv)
    (auto simp: subs_inv_def ws_inv_def distinct_update client_subs_def token_of_def om_simps split: option.splits)

lemma within_limit_mono: "within_limit env n \<Longrightarrow> k \<le> n \<Longrightarrow> within_limit env k"
  by (auto simp: within_limit_def split: option.splits)

lemma handleDisconnect_inv: "ws_inv env s \<Longrightarrow> ws_inv env (handleDisconnect i s)"
  unfolding handleDisconnect_def
  by (rule subs_change_inv)
    (auto simp: subs_inv_def ws_inv_def distinct_delete client_subs_def token_of_def om_simps intro: within_limit_mono)

lemma close_socket_inv: "ws_inv env s \<Longrightarrow> ws_inv env (close_socket i s)"
  unfolding close_socket_def by (rule plain_set_client_inv) simp_all

lemma closeExpired_inv: "ws_inv env s \<Longrightarrow> ws_inv env (closeExpired i s)"
  by (simp add: closeExpired_def handleDisconnect_inv close_socket_inv)

lemma send_inv: "ws_inv env s \<Longrightarrow> ws_inv env (send i v s)"
  unfolding send_def by (rule plain_set_client_inv) simp_all

lemma ws_error_inv: "ws_inv env s \<Longrightarrow> ws_inv env (ws_error i ev r s)"
  by (simp add: ws_error_def send_inv)

lemmas ws_step_invs = handleDisconnect_inv close_socket_inv closeExpired_inv send_inv ws_error_inv

subsection \<open>Subscribing keeps the invariant\<close>

lemma length_update_new: "map_of m k = None \<Longrightarrow> length (AList.update k v m) = Suc (length m)"
  by (simp add: om_update_absent map_of_eq_None_iff)

lemma install_inv:
  assumes "ws_inv env s" and "claims_vetted env (token_of s i) ev claims" and "we_actions ev \<noteq> [] \<longrightarrow> granted env ev claims"
  shows "ws_inv env (install env i ev sel claims s)"
proof -
  let ?m = "client_subs i s"
  let ?su = "\<lparr>su_event = ev, su_select = sel, su_scope = scope_value ev claims, su_claims = claims, su_saturated = False\<rparr>"
  let ?full = "case wc_maxSubscriptionsPerClient (wv_config env) of None \<Rightarrow> False | Some m \<Rightarrow> m \<noteq> 0 \<and> int (length ?m) \<ge> m"
  show ?thesis
  proof (cases "?full \<or> we_name ev \<notin> set (wv_subjects env) \<or> map_of ?m (we_name ev) \<noteq> None")
    case True
    then show ?thesis using assms(1) ws_error_inv [OF assms(1)] by (auto simp: install_def Let_def)
  next
    case False
    have lim: "within_limit env (length (AList.update (we_name ev) ?su ?m))"
      using False by (auto simp: length_update_new within_limit_def split: option.splits)
    have new: "sub_ok env (token_of s i) (we_name ev) ?su"
      using False assms(2,3) by (simp add: sub_ok_def)
    have old: "map_of ?m n = Some su \<Longrightarrow> sub_ok env (token_of s i) n su" for n su
      using assms(1) by (simp add: ws_inv_def subs_inv_def)
    have "ws_inv env (s\<lparr>ws_subs := AList.update i (AList.update (we_name ev) ?su ?m) (ws_subs s)\<rparr>)"
      by (rule subs_replace_inv [OF assms(1) lim]) (use new old in \<open>auto simp: om_simps split: if_splits\<close>)
    with False show ?thesis by (simp add: install_def Let_def)
  qed
qed

lemma add_task_inv: "ws_inv env s \<Longrightarrow> task_ok env s t \<Longrightarrow> ws_inv env (s\<lparr>ws_tasks := ws_tasks s @ [t]\<rparr>)"
  by (auto simp: ws_invs client_subs_def token_of_def task_ok_cong [of "s\<lparr>ws_tasks := ws_tasks s @ [t]\<rparr>" s])

lemma set_acl_inv: "ws_inv env s \<Longrightarrow> ws_inv env (s\<lparr>ws_acl := w\<rparr>)"
  by (simp add: ws_invs client_subs_def token_of_def task_ok_cong [of "s\<lparr>ws_acl := w\<rparr>" s])

lemma set_auth_inv: "ws_inv env s \<Longrightarrow> clients_ok g \<Longrightarrow> ws_inv env (s\<lparr>ws_auth := g\<rparr>)"
  by (simp add: ws_invs client_subs_def token_of_def task_ok_cong [of "s\<lparr>ws_auth := g\<rparr>" s])

lemma after_auth_inv:
  assumes "ws_inv env s" and "claims_vetted env (token_of s i) ev claims"
  shows "ws_inv env (after_auth env i ev sel claims s)"
proof (cases "we_actions ev = []")
  case True
  with install_inv [OF assms] show ?thesis by (simp add: after_auth_def)
next
  case acts: False
  show ?thesis
  proof (cases "truthy_str (we_auth ev) \<and> reg_find (we_auth ev) (ws_auth s) \<noteq> None \<and> claims_ok claims")
    case False
    with acts ws_error_inv [OF assms(1)] show ?thesis by (auto simp: after_auth_def split: option.split)
  next
    case True
    then obtain p where p: "reg_find (we_auth ev) (ws_auth s) = Some p" by blast
    obtain res w' where c: "checkActionsForClaims (wv_check env) p claims (we_actions ev) None (ws_acl s) = (res, w')" by fastforce
    have "res = Inr True \<longrightarrow> granted env ev claims" using True p c unfolding granted_def by blast
    then have "task_ok env (s\<lparr>ws_acl := w'\<rparr>) (AwaitAcl i ev sel claims res)"
      using assms(2) by (simp add: token_of_def)
    from add_task_inv [OF set_acl_inv [OF assms(1)] this] acts True p c show ?thesis by (simp add: after_auth_def)
  qed
qed

lemma on_claims_inv:
  assumes "ws_inv env s" and "truthy_str (we_auth ev)" and "verified_claims env (token_of s i) (the (we_auth ev)) cl"
  shows "ws_inv env (on_claims env i ev sel cl s)"
proof (cases "we_requireAuth ev \<noteq> Some False \<and> \<not> auth_success cl")
  case True
  with ws_error_inv [OF assms(1)] show ?thesis by (simp add: on_claims_def)
next
  case False
  have "claims_vetted env (token_of s i) ev (Some cl)"
    using False assms(3) by (auto simp: claims_vetted_def claims_ok_def)
  from after_auth_inv [OF assms(1) this] False show ?thesis by (auto simp: on_claims_def)
qed

lemma verified_failure [simp]: "verified_claims env tok nm (auth_result False)"
  by (simp add: verified_claims_def)

lemma resolve_start_inv:
  assumes "ws_inv env s" and "truthy_str (we_auth ev)" and "resolve_start env i (the (we_auth ev)) s = (pr, s1)"
  shows "ws_inv env s1 \<and> promise_ok env (token_of s1 i) ev pr"
proof (cases "map_of (ws_clients s) i")
  case None
  with assms show ?thesis by (auto simp: resolve_start_def promise_ok_def)
next
  case (Some c)
  let ?nm = "the (we_auth ev)"
  have nm: "we_auth ev = Some ?nm" using assms(2) by (cases "we_auth ev") auto
  have tok: "token_of s i = wl_token c" using Some by (simp add: token_of_def)
  show ?thesis
  proof (cases "map_of (wl_claims c) ?nm")
    case memo: (Some cl)
    have "verified_claims env (wl_token c) ?nm cl" using assms(1) Some memo by (simp add: ws_inv_def clients_inv_def)
    with Some memo assms tok show ?thesis by (auto simp: resolve_start_def promise_ok_def)
  next
    case fresh: None
    show ?thesis
    proof (cases "reg_find (Some ?nm) (ws_auth s)")
      case None
      let ?f = "\<lambda>c. c\<lparr>wl_claims := AList.update ?nm (auth_result False) (wl_claims c)\<rparr>"
      have "ws_inv env (set_client i ?f s)"
        by (rule set_client_inv [OF assms(1)]) (auto simp: om_simps split: if_splits)
      with None Some fresh assms show ?thesis by (auto simp: resolve_start_def promise_ok_def)
    next
      case prov: (Some p)
      obtain decoded cs where v: "verifyToken (wv_verify env) p (wl_token c) (ga_clients (ws_auth s)) = (decoded, cs)" by fastforce
      have ok: "clients_ok (ws_auth s)" using assms(1) by (simp add: ws_inv_def)
      have f: "find_in (Some (ap_name p)) (ga_current (ws_auth s)) = Some p" and pn: "ap_name p = ?nm"
        using prov find_in_name [of "Some ?nm" "ga_current (ws_auth s)" p] by (simp_all add: reg_find_def)
      have acc: "truthy decoded \<longrightarrow> token_accepted (wv_verify env) p (wl_token c) decoded"
        using verifyToken_accepted [OF ok prov v] by blast
      have "clients_ok ((ws_auth s)\<lparr>ga_clients := cs\<rparr>)"
        using verifyToken_clients [of "wv_verify env" p "wl_token c" "ga_clients (ws_auth s)"] jwksClientFor_ok [OF ok f] ok v
        by (auto simp: clients_ok_def)
      from set_auth_inv [OF assms(1) this] have "ws_inv env (s\<lparr>ws_auth := (ws_auth s)\<lparr>ga_clients := cs\<rparr>\<rparr>)" .
      with prov Some fresh v assms acc pn nm show ?thesis
        by (auto simp: resolve_start_def promise_ok_def token_of_def)
    qed
  qed
qed

lemma subscribeClient_inv:
  assumes "ws_inv env s"
  shows "ws_inv env (subscribeClient env i ev sel s)"
proof (cases "truthy_str (we_auth ev)")
  case True
  obtain pr s1 where r: "resolve_start env i (the (we_auth ev)) s = (pr, s1)" by fastforce
  from resolve_start_inv [OF assms True r] add_task_inv [of env s1 "AwaitClaims i ev sel pr"] True r
  show ?thesis by (simp add: subscribeClient_def)
next
  case False
  then have "claims_vetted env (token_of s i) ev None" by (simp add: claims_vetted_def)
  from after_auth_inv [OF assms this] False show ?thesis by (simp add: subscribeClient_def)
qed

lemma note_exp_keeps [simp]: "wl_token (note_exp d c) = wl_token c" "wl_claims (note_exp d c) = wl_claims c"
  by (simp_all add: note_exp_def split: jval.split)

lemma resolve_end_inv:
  assumes "ws_inv env s" and "promise_ok env (token_of s i) ev pr" and "resolve_end i pr s = (res, s1)"
  shows "ws_inv env s1 \<and> (\<forall>cl. res = Inr cl \<longrightarrow> verified_claims env (token_of s1 i) (the (we_auth ev)) cl)"
proof (cases pr)
  case (Known cl)
  with assms show ?thesis by (auto simp: resolve_end_def promise_ok_def)
next
  case (Verifying nm p decoded)
  let ?s1 = "set_client i (note_exp decoded) s"
  have i1: "ws_inv env ?s1" by (rule plain_set_client_inv [OF assms(1)]) simp
  have tok: "token_of ?s1 i = token_of s i" by (rule token_of_set_client) simp
  have nm: "the (we_auth ev) = nm" "ap_name p = nm" and acc: "truthy decoded \<Longrightarrow> token_accepted (wv_verify env) p (token_of s i) decoded"
    using assms(2) Verifying by (simp_all add: promise_ok_def)
  show ?thesis
  proof (cases "mapClaims p decoded")
    case (Inl e)
    with Verifying assms(3) i1 show ?thesis by (auto simp: resolve_end_def Let_def)
  next
    case (Inr cl)
    have ver: "verified_claims env (token_of s i) nm cl"
      using mapClaims_success [OF Inr] acc nm(2) Inr unfolding verified_claims_def by blast
    let ?f = "\<lambda>c. c\<lparr>wl_claims := AList.update nm cl (wl_claims c)\<rparr>"
    have "ws_inv env (set_client i ?f ?s1)"
    proof (rule set_client_inv [OF i1])
      fix c n x
      assume c: "map_of (ws_clients ?s1) i = Some c" and m: "map_of (wl_claims (?f c)) n = Some x"
      have "wl_token c = token_of s i" using c unfolding tok [symmetric] by (simp add: token_of_def)
      with ver m show "map_of (wl_claims c) n = Some x \<or> verified_claims env (wl_token c) n x"
        by (auto simp: om_simps split: if_splits)
    qed simp
    moreover have "token_of (set_client i ?f ?s1) i = token_of s i" using tok token_of_set_client [of ?f i ?s1 i] by simp
    ultimately show ?thesis using Verifying Inr assms(3) ver nm by (auto simp: resolve_end_def Let_def)
  qed
qed

lemma drop_tasks_inv:
  assumes "ws_inv env s" and "set ts \<subseteq> set (ws_tasks s)"
  shows "ws_inv env (s\<lparr>ws_tasks := ts\<rparr>)"
  using assms by (auto simp: ws_invs client_subs_def token_of_def task_ok_cong [of "s\<lparr>ws_tasks := ts\<rparr>" s])

lemma unhandled_inv: "ws_inv env s \<Longrightarrow> ws_inv env (s\<lparr>ws_unhandled := es\<rparr>)"
  by (simp add: ws_invs client_subs_def token_of_def task_ok_cong [of "s\<lparr>ws_unhandled := es\<rparr>" s])

lemma resume_inv:
  assumes "ws_inv env s"
  shows "ws_inv env (resume env n s)"
proof (cases "n < length (ws_tasks s)")
  case False
  with assms show ?thesis by (simp add: resume_def)
next
  case True
  let ?t = "ws_tasks s ! n" and ?s1 = "s\<lparr>ws_tasks := take n (ws_tasks s) @ drop (Suc n) (ws_tasks s)\<rparr>"
  have t: "task_ok env s ?t" using assms True by (simp add: ws_invs)
  have i1: "ws_inv env ?s1"
    by (rule drop_tasks_inv [OF assms]) (auto dest: in_set_takeD in_set_dropD)
  have tok: "token_of ?s1 i = token_of s i" for i by (simp add: token_of_def)
  show ?thesis
  proof (cases ?t)
    case (AwaitClaims i ev sel pr)
    have pr: "promise_ok env (token_of ?s1 i) ev pr" using t AwaitClaims by (simp add: tok)
    obtain res s2 where r: "resolve_end i pr ?s1 = (res, s2)" by fastforce
    note re = resolve_end_inv [OF i1 pr r]
    have "truthy_str (we_auth ev)" using pr by (simp add: promise_ok_def)
    with re r AwaitClaims True show ?thesis
      by (cases res) (auto simp: resume_def Let_def intro!: on_claims_inv unhandled_inv)
  next
    case (AwaitAcl i ev sel claims res)
    have v: "claims_vetted env (token_of ?s1 i) ev claims" "res = Inr True \<longrightarrow> granted env ev claims"
      using t AwaitAcl by (simp_all add: tok)
    show ?thesis
      using AwaitAcl True install_inv [OF i1 v(1), of sel] v(2) ws_error_inv [OF i1, of i "we_name ev" "''forbidden''"]
      by (auto simp: resume_def Let_def)
  qed
qed

subsection \<open>The other steps\<close>

lemma map_of_delete: "map_of (AList.delete k m) n = (if n = k then None else map_of m n)"
  by (simp add: om_simps)

lemma unsubscribe_inv:
  assumes "ws_inv env s"
  shows "ws_inv env (unsubscribe i topic s)"
proof (cases "map_of (ws_subs s) i")
  case None
  with assms show ?thesis by (simp add: unsubscribe_def)
next
  case (Some m)
  then have m: "client_subs i s = m" by (simp add: client_subs_def)
  have "within_limit env (length m)" using assms unfolding ws_inv_def subs_inv_def m [symmetric] by blast
  then have lim: "within_limit env (length (AList.delete topic m))" by (rule within_limit_mono [OF _ om_length_delete])
  have "ws_inv env (s\<lparr>ws_subs := AList.update i (AList.delete topic m) (ws_subs s)\<rparr>)"
    by (rule subs_replace_inv [OF assms lim])
      (use assms in \<open>auto simp: ws_inv_def subs_inv_def m [symmetric] map_of_delete split: if_splits\<close>)
  with Some show ?thesis by (simp add: unsubscribe_def)
qed

lemma onClientMessage_inv: "ws_inv env s \<Longrightarrow> ws_inv env (onClientMessage env now i bytes parsed s)"
  by (simp add: onClientMessage_def Let_def closeExpired_inv subscribeClient_inv unsubscribe_inv split: option.split)

definition mark :: "string \<Rightarrow> bool \<Rightarrow> (string, subscription) omap \<Rightarrow> (string, subscription) omap" where
  "mark n b m = map (\<lambda>(k, su). (k, if k = n then su\<lparr>su_saturated := b\<rparr> else su)) m"

lemma map_of_mark: "map_of (mark n b m) k = map_option (\<lambda>su. if k = n then su\<lparr>su_saturated := b\<rparr> else su) (map_of m k)"
  by (induction m) (auto simp: mark_def)

lemma length_mark [simp]: "length (mark n b m) = length m"
  by (simp add: mark_def)

lemma set_saturated_subs: "client_subs j (set_saturated i n b s) = (if j = i then mark n b (client_subs i s) else client_subs j s)"
proof -
  have "map_of (map (\<lambda>(j, m). (j, if j = i then mark n b m else m)) xs) j =
      map_option (\<lambda>m. if j = i then mark n b m else m) (map_of xs j)" for xs :: subs
    by (induction xs) auto
  moreover have "mark n b [] = []" by (simp add: mark_def)
  moreover have "ws_subs (set_saturated i n b s) = map (\<lambda>(j, m). (j, if j = i then mark n b m else m)) (ws_subs s)"
    unfolding set_saturated_def mark_def by simp
  ultimately show ?thesis unfolding client_subs_def by (cases "map_of (ws_subs s) j") auto
qed

lemma sub_ok_saturated [simp]: "sub_ok env tok k (su\<lparr>su_saturated := b\<rparr>) = sub_ok env tok k su"
  by (simp add: sub_ok_def)

lemma set_saturated_keys: "map fst (ws_subs (set_saturated i n b s)) = map fst (ws_subs s)"
  by (induction "ws_subs s") (auto simp: set_saturated_def)

lemma set_saturated_inv:
  assumes "ws_inv env s"
  shows "ws_inv env (set_saturated i n b s)"
proof -
  have tok: "token_of (set_saturated i n b s) j = token_of s j" for j by (simp add: token_of_def set_saturated_def)
  have "subs_inv env (set_saturated i n b s)"
    using assms unfolding subs_inv_def set_saturated_keys set_saturated_subs tok ws_inv_def
    by (auto simp: map_of_mark split: if_splits)
  then have "subs_inv env (s\<lparr>ws_subs := ws_subs (set_saturated i n b s)\<rparr>)" by (simp add: set_saturated_def)
  from subs_change_inv [OF assms this] show ?thesis by (simp add: set_saturated_def)
qed

lemma deliver_one_inv: "ws_inv env s \<Longrightarrow> ws_inv env (deliver_one env now n msg i s)"
  by (auto simp: deliver_one_def closeExpired_inv send_inv set_saturated_inv split: option.split)

lemma fold_inv: "(\<And>x s. I s \<Longrightarrow> I (f x s)) \<Longrightarrow> I s \<Longrightarrow> I (fold f xs s)"
  by (induction xs arbitrary: s) auto

lemma deliver_inv: "ws_inv env s \<Longrightarrow> ws_inv env (deliver env now n msg s)"
  unfolding deliver_def by (rule fold_inv [of "ws_inv env"]) (auto intro: deliver_one_inv)

lemma beat_inv: "ws_inv env s \<Longrightarrow> ws_inv env (beat now i s)"
  by (auto simp: beat_def closeExpired_inv handleDisconnect_inv close_socket_inv intro!: plain_set_client_inv split: option.split)

lemma heartbeat_inv: "ws_inv env s \<Longrightarrow> ws_inv env (heartbeat now s)"
  unfolding heartbeat_def by (rule fold_inv [of "ws_inv env"]) (auto intro: beat_inv)

lemma no_token_not_accepted: "\<not> token_accepted verify p None payload"
  by (simp add: token_accepted_def)

lemma verified_more: "verified_claims env None nm cl \<Longrightarrow> verified_claims env tok nm cl"
  by (simp add: verified_claims_def no_token_not_accepted)

lemma vetted_more: "claims_vetted env None ev claims \<Longrightarrow> claims_vetted env tok ev claims"
  by (auto simp: claims_vetted_def verified_more split: option.splits)

lemma promise_more: "promise_ok env None ev pr \<Longrightarrow> promise_ok env tok ev pr"
  by (auto simp: promise_ok_def verified_more no_token_not_accepted split: claims_promise.splits)

lemma connect_inv:
  assumes "ws_inv env s" and "map_of (ws_clients s) i = None" and "wl_claims c = []"
  shows "ws_inv env (s\<lparr>ws_clients := ws_clients s @ [(i, c)]\<rparr>)"
proof -
  let ?t = "s\<lparr>ws_clients := ws_clients s @ [(i, c)]\<rparr>"
  have get: "map_of (ws_clients ?t) j = (if j = i then Some c else map_of (ws_clients s) j)" for j
    using assms(2) by (auto simp: map_add_def split: option.split)
  have tok: "token_of ?t j = token_of s j \<or> token_of s j = None" for j
    using assms(2) unfolding token_of_def get by simp
  have task: "task_ok env ?t t" if "task_ok env s t" for t
    using that tok [of "task_client t"] by (cases t) (auto intro: promise_more vetted_more)
  have sub: "sub_ok env (token_of ?t j) n su" if "sub_ok env (token_of s j) n su" for j n su
    using that tok [of j] by (auto simp: sub_ok_def intro: vetted_more)
  have "clients_inv env ?t" using assms(1,3) unfolding ws_inv_def clients_inv_def get by auto
  moreover have "tasks_inv env ?t" using assms(1) task by (simp add: ws_inv_def tasks_inv_def)
  moreover have "subs_inv env ?t" using assms(1) sub by (auto simp: ws_inv_def subs_inv_def client_subs_def)
  ultimately show ?thesis using assms(1) by (simp add: ws_inv_def)
qed

lemma ws_step_inv:
  assumes "ws_inv env s"
  shows "ws_inv env (ws_step env e s)"
proof (cases e)
  case (Connect i n origin proto)
  have "handleConnection (wv_config env) n origin proto = Accepted c \<Longrightarrow> wl_claims c = []" for c
    by (auto simp: handleConnection_def split: if_splits)
  with Connect connect_inv [OF assms] assms show ?thesis by (auto split: option.split handshake.split)
next
  case (AuthReloaded db)
  have "clients_ok (ws_auth s)" using assms by (simp add: ws_inv_def)
  from set_auth_inv [OF assms reload_clients_ok [OF this]] AuthReloaded show ?thesis by simp
qed (simp_all add: assms onClientMessage_inv resume_inv handleDisconnect_inv close_socket_inv deliver_inv heartbeat_inv set_acl_inv
      plain_set_client_inv)

lemma ws_start_inv: "ws_inv env (ws_start yaml w)"
  by (simp add: ws_invs ws_start_def client_subs_def boot_clients_ok within_limit_def split: option.split)

lemma ws_reaches_inv: "ws_reaches env s t \<Longrightarrow> ws_inv env s \<Longrightarrow> ws_inv env t"
  by (induction rule: ws_reaches.induct) (auto intro: ws_step_inv)

section \<open>Lemmas on delivery\<close>

text \<open>What a broker event does to a client, from its subscription and its own state alone.\<close>

definition after_delivery :: "'w ws_env \<Rightarrow> int \<Rightarrow> jval \<Rightarrow> subscription option \<Rightarrow> ws_client \<Rightarrow> ws_client" where
  "after_delivery env now msg su c =
     (case su of
        None \<Rightarrow> c
      | Some x \<Rightarrow>
          if \<not> matches msg (su_select x) (su_event x) (su_scope x) then c
          else if isExpired now c then c\<lparr>wl_open := False\<rparr>
          else if \<not> wl_open c \<or> wl_buffered c > coalesce (wc_maxBufferedBytes (wv_config env)) 1048576 then c
          else c\<lparr>wl_sent := wl_sent c @ [event_message (su_event x) msg]\<rparr>)"

lemma set_saturated_clients [simp]: "ws_clients (set_saturated i n b s) = ws_clients s"
  by (simp add: set_saturated_def)

lemma deliver_one_client:
  "map_of (ws_clients (deliver_one env now n msg i s)) j =
     (if j = i then map_option (after_delivery env now msg (map_of (client_subs i s) n)) (map_of (ws_clients s) i)
      else map_of (ws_clients s) j)"
  by (cases "map_of (ws_clients s) i")
    (auto simp: deliver_one_def after_delivery_def closeExpired_def close_socket_def handleDisconnect_def send_def set_client_get
      split: option.split)

lemma deliver_one_subs: "j \<noteq> i \<Longrightarrow> client_subs j (deliver_one env now n msg i s) = client_subs j s"
  by (auto simp: deliver_one_def closeExpired_def close_socket_def handleDisconnect_def send_def client_subs_def set_client_rest
      set_saturated_subs [unfolded client_subs_def] om_simps split: option.split)

lemma deliver_fold_client:
  assumes "distinct ks"
  shows "map_of (ws_clients (fold (deliver_one env now n msg) ks s)) i =
    (if i \<in> set ks then map_option (after_delivery env now msg (map_of (client_subs i s) n)) (map_of (ws_clients s) i)
     else map_of (ws_clients s) i)"
  using assms
proof (induction ks arbitrary: s)
  case (Cons k ks)
  then show ?case by (cases "k = i") (simp_all add: deliver_one_client deliver_one_subs)
qed simp

lemma deliver_client:
  assumes "ws_inv env s" and "map_of (ws_clients s) i = Some c"
  shows "map_of (ws_clients (deliver env now n msg s)) i = Some (after_delivery env now msg (map_of (client_subs i s) n) c)"
proof -
  have d: "distinct (map fst (ws_subs s))" using assms(1) by (simp add: ws_inv_def subs_inv_def)
  have none: "map_of (client_subs i s) n = None" if "i \<notin> fst ` set (ws_subs s)"
    using that by (simp add: client_subs_def map_of_eq_None_iff [THEN iffD2])
  show ?thesis unfolding deliver_def deliver_fold_client [OF d]
    using assms(2) none by (auto simp: after_delivery_def)
qed

section \<open>Properties\<close>


text \<open>A client never holds more subscriptions than the limit, however its subscribe messages
  overlap with verifications and access checks still under way.\<close>

theorem subscriptions_within_limit:
  assumes "ws_reaches env (ws_start yaml w) s" and "wc_maxSubscriptionsPerClient (wv_config env) = Some m" and "0 < m"
  shows "int (length (client_subs i s)) \<le> m"
  using ws_reaches_inv [OF assms(1) ws_start_inv] assms(2,3) by (auto simp: ws_inv_def subs_inv_def within_limit_def)

section \<open>Clients that go away\<close>

definition forgotten :: "nat \<Rightarrow> 'w ws_state \<Rightarrow> bool" where
  "forgotten i s \<longleftrightarrow> client_subs i s = [] \<and> (\<forall>t \<in> set (ws_tasks s). task_client t \<noteq> i)"

lemma forgotten_set_client [simp]: "forgotten i (set_client j f s) = forgotten i s"
  by (simp add: forgotten_def client_subs_def)

lemma forgotten_error [simp]: "forgotten i (ws_error j ev r s) = forgotten i s"
  by (simp add: ws_error_def send_def)

lemma forgotten_disconnect: "forgotten i s \<Longrightarrow> forgotten i (handleDisconnect j s)"
  by (simp add: forgotten_def client_subs_def handleDisconnect_def om_simps)

lemma forgotten_closeExpired: "forgotten i s \<Longrightarrow> forgotten i (closeExpired j s)"
  by (simp add: closeExpired_def close_socket_def forgotten_disconnect)

lemma forgotten_install: "forgotten i s \<Longrightarrow> j \<noteq> i \<Longrightarrow> forgotten i (install env j ev sel claims s)"
  by (simp add: install_def Let_def) (simp add: forgotten_def client_subs_def om_simps split: option.split)

lemma forgotten_after_auth: "forgotten i s \<Longrightarrow> j \<noteq> i \<Longrightarrow> forgotten i (after_auth env j ev sel claims s)"
  by (auto simp: after_auth_def forgotten_install split: option.split prod.split) (auto simp: forgotten_def client_subs_def)

lemma forgotten_on_claims: "forgotten i s \<Longrightarrow> j \<noteq> i \<Longrightarrow> forgotten i (on_claims env j ev sel cl s)"
  by (simp add: on_claims_def forgotten_after_auth)

lemma forgotten_resolve_start:
  assumes "forgotten i s" and "resolve_start env j nm s = (pr, s1)"
  shows "forgotten i s1"
proof -
  have "forgotten i (s\<lparr>ws_auth := g\<rparr>)" for g using assms(1) by (simp add: forgotten_def client_subs_def)
  with assms show ?thesis by (auto simp: resolve_start_def split: option.splits prod.splits)
qed

lemma forgotten_subscribe:
  assumes "forgotten i s" and "j \<noteq> i"
  shows "forgotten i (subscribeClient env j ev sel s)"
proof -
  obtain pr s1 where r: "resolve_start env j (the (we_auth ev)) s = (pr, s1)" by fastforce
  have "forgotten i (s1\<lparr>ws_tasks := ws_tasks s1 @ [AwaitClaims j ev sel pr]\<rparr>)"
    using forgotten_resolve_start [OF assms(1) r] assms(2) by (auto simp: forgotten_def client_subs_def)
  with r assms show ?thesis by (simp add: subscribeClient_def forgotten_after_auth)
qed

lemma forgotten_message: "forgotten i s \<Longrightarrow> j \<noteq> i \<Longrightarrow> forgotten i (onClientMessage env now j bytes parsed s)"
  by (simp add: onClientMessage_def Let_def forgotten_closeExpired forgotten_subscribe split: option.split)
    (auto simp: unsubscribe_def forgotten_def client_subs_def om_simps split: option.split)

lemma forgotten_resume:
  assumes "forgotten i s"
  shows "forgotten i (resume env n s)"
proof (cases "n < length (ws_tasks s)")
  case True
  let ?s1 = "s\<lparr>ws_tasks := take n (ws_tasks s) @ drop (Suc n) (ws_tasks s)\<rparr>"
  have f: "forgotten i ?s1"
    using assms by (auto simp: forgotten_def client_subs_def dest: in_set_takeD in_set_dropD)
  have other: "task_client (ws_tasks s ! n) \<noteq> i" using assms True by (simp add: forgotten_def)
  have re: "forgotten i s2" if "resolve_end j pr ?s1 = (res, s2)" for j pr res s2
    using that f by (auto simp: resolve_end_def Let_def split: claims_promise.splits sum.splits)
  show ?thesis
  proof (cases "ws_tasks s ! n")
    case (AwaitClaims j ev sel pr)
    obtain res s2 where r: "resolve_end j pr ?s1 = (res, s2)" by fastforce
    have "forgotten i (s2\<lparr>ws_unhandled := es\<rparr>)" for es using re [OF r] by (simp add: forgotten_def client_subs_def)
    with AwaitClaims True r re [OF r] other show ?thesis
      by (cases res) (auto simp: resume_def Let_def forgotten_on_claims)
  next
    case (AwaitAcl j ev sel claims res)
    with True f other show ?thesis by (auto simp: resume_def Let_def forgotten_install)
  qed
qed (use assms in \<open>simp add: resume_def\<close>)

lemma forgotten_saturated: "forgotten i s \<Longrightarrow> forgotten i (set_saturated j n b s)"
  by (simp add: forgotten_def set_saturated_subs mark_def) (auto simp: set_saturated_def)

lemma forgotten_deliver_one: "forgotten i s \<Longrightarrow> forgotten i (deliver_one env now n msg j s)"
  by (auto simp: deliver_one_def forgotten_closeExpired forgotten_saturated send_def split: option.split)

lemma forgotten_beat: "forgotten i s \<Longrightarrow> forgotten i (beat now j s)"
  by (auto simp: beat_def forgotten_closeExpired forgotten_disconnect close_socket_def split: option.split)

fun frame_of :: "'w ws_input \<Rightarrow> nat option" where
  "frame_of (Frame now i bytes parsed) = Some i"
| "frame_of e = None"

lemma forgotten_step:
  assumes "forgotten i s" and "frame_of e \<noteq> Some i"
  shows "forgotten i (ws_step env e s)"
proof (cases e)
  case (Frame now j bytes parsed)
  with assms show ?thesis by (simp add: forgotten_message)
next
  case (BrokerEvent now n msg)
  then show ?thesis using fold_inv [of "forgotten i" "deliver_one env now n msg", OF forgotten_deliver_one assms(1)] by (simp add: deliver_def)
next
  case (Beat now)
  then show ?thesis using fold_inv [of "forgotten i" "beat now", OF forgotten_beat assms(1)] by (simp add: heartbeat_def)
qed (use assms in \<open>auto simp: forgotten_resume forgotten_disconnect close_socket_def split: option.split handshake.split\<close>,
     auto simp: forgotten_def client_subs_def)


text \<open>When a socket closes while none of its subscriptions is waiting for a verification or an
  access check, the client is forgotten for good: its subscriptions are gone and nothing that
  happens later, short of frames of its own, brings one back.\<close>

theorem closed_clients_are_forgotten:
  assumes "\<forall>t \<in> set (ws_tasks s). task_client t \<noteq> i" and "\<forall>e \<in> set es. frame_of e \<noteq> Some i"
  shows "client_subs i (fold (ws_step env) es (ws_step env (SocketClosed i) s)) = []"
proof -
  have "forgotten i (ws_step env (SocketClosed i) s)"
    using assms(1) by (simp add: forgotten_def handleDisconnect_def close_socket_def client_subs_def om_simps)
  with assms(2) have "forgotten i (fold (ws_step env) es (ws_step env (SocketClosed i) s))"
  proof (induction es rule: rev_induct)
    case (snoc e es)
    then show ?case by (simp add: forgotten_step)
  qed simp
  then show ?thesis by (simp add: forgotten_def)
qed

definition news_event :: ws_event where
  "news_event = \<lparr>we_type = ''ws'', we_exchange = ''ex'', we_routingKey = ''rk'', we_name = ''news'', we_auth = Some ''p'',
     we_requireAuth = None, we_actions = [], we_scopeClaim = Some ''X-USERID'', we_payloadKey = Some ''owner''\<rparr>"

definition demo_ws :: "unit ws_env" where
  "demo_ws = \<lparr>wv_config = \<lparr>wc_maxConnections = None, wc_maxSubscriptionsPerClient = Some 1, wc_allowedOrigins = [],
       wc_maxMessageBytes = Some 99, wc_maxBufferedBytes = Some 99\<rparr>,
     wv_events = [news_event], wv_subjects = [''news''], wv_verify = demo_verify, wv_check = None\<rparr>"

definition subscribe_frame :: "unit ws_input" where
  "subscribe_frame = Frame 0 1 9 (Some (JObj [(''action'', JStr ''subscribe''), (''topic'', JStr ''news'')]))"

definition news :: jval where
  "news = JObj [(''topic'', JStr ''news''), (''payload'', JObj [(''owner'', JStr ''u1'')])]"

definition ws_run :: "unit ws_input list \<Rightarrow> unit ws_state" where
  "ws_run es = fold (ws_step demo_ws) es (ws_start [demo_provider] ())"

lemma ws_run_reaches: "ws_reaches demo_ws (ws_start [demo_provider] ()) (ws_run es)"
proof (induction es rule: rev_induct)
  case Nil
  show ?case by (simp add: ws_run_def ws_here)
next
  case (snoc e es)
  then show ?case using ws_next [of demo_ws "ws_start [demo_provider] ()" "ws_run es" e] by (simp add: ws_run_def)
qed

definition sub_inputs :: "unit ws_input list" where
  "sub_inputs = [Connect 1 1 None (Some ''bearer, tok''), subscribe_frame, Resume 0]"

definition sent_to :: "nat \<Rightarrow> unit ws_state \<Rightarrow> jval list option" where
  "sent_to i s = map_option wl_sent (map_of (ws_clients s) i)"

lemma sub_run:
  "sent_to 1 (ws_run sub_inputs) = Some []"
  "sent_to 1 (ws_step demo_ws (BrokerEvent 0 ''news'' news) (ws_run sub_inputs)) = Some [event_message news_event news]"
  by code_simp+


theorem subscriptions_within_limit_witness: "length (client_subs 1 (ws_run sub_inputs)) \<le> 1"
proof -
  have "wc_maxSubscriptionsPerClient (wv_config demo_ws) = Some 1" by (simp add: demo_ws_def)
  from subscriptions_within_limit [OF ws_run_reaches [of sub_inputs] this, of 1] show ?thesis by simp
qed

theorem closed_clients_are_forgotten_witness:
  "client_subs 1 (fold (ws_step demo_ws) [Resume 0, BrokerEvent 0 ''news'' news] (ws_step demo_ws (SocketClosed 1) (ws_run sub_inputs))) = []"
proof -
  have "ws_tasks (ws_run sub_inputs) = []" by code_simp
  then show ?thesis by (intro closed_clients_are_forgotten) simp_all
qed

text \<open>A socket that closes while its subscription waits for the verification: the subscription is
  installed afterwards, for a client that no close event will ever clean up again.\<close>

lemma late_subscription_stays:
  "length (client_subs 1 (ws_run [Connect 1 1 None (Some ''bearer, tok''), subscribe_frame, SocketClosed 1, Resume 0, Beat 9])) = 1"
  by code_simp

text \<open>Two subscribe messages in a row verify the same token twice: the memo is only written when the
  first verification has answered.\<close>

lemma token_verified_twice:
  "map (\<lambda>t. case t of AwaitClaims i ev sel (Verifying nm p d) \<Rightarrow> Some nm | _ \<Rightarrow> None)
     (ws_tasks (ws_run [Connect 1 1 None (Some ''tok''), subscribe_frame, subscribe_frame])) = [Some ''p'', Some ''p'']"
  by code_simp

section \<open>Start-up\<close>

text \<open>The events of the file and those pulled from the broker; a failed or odd answer leaves the
  file's.\<close>

definition ws_load_events :: "ws_event list \<Rightarrow> (jserr + ws_event list option) option \<Rightarrow> ws_event list" where
  "ws_load_events yaml pulled =
     (let ext = (case pulled of Some (Inr (Some es)) \<Rightarrow> es | _ \<Rightarrow> []) in
      map (\<lambda>e. e\<lparr>we_name := js_trim (we_name e)\<rparr>) (yaml @ ext))"

datatype ws_warning = WsUnknownProvider string | WsActionsWithoutAuth string | WsNoScope string

definition ws_warnings :: "gw_auth \<Rightarrow> ws_event list \<Rightarrow> ws_warning list" where
  "ws_warnings g evs =
     concat (map (\<lambda>e.
       (if truthy_str (we_auth e) \<and> reg_find (we_auth e) g = None then [WsUnknownProvider (we_name e)] else [])
       @ (if we_actions e \<noteq> [] \<and> \<not> truthy_str (we_auth e) then [WsActionsWithoutAuth (we_name e)] else [])
       @ (if truthy_str (we_auth e) \<and> we_requireAuth e \<noteq> Some False \<and> \<not> (truthy_str (we_scopeClaim e) \<and> truthy_str (we_payloadKey e))
          then [WsNoScope (we_name e)] else []))
       (filter (\<lambda>e. we_type e = ''ws'') evs))"

definition event_topic :: "ws_event \<Rightarrow> topic" where
  "event_topic e = \<lparr>tp_name = we_name e, tp_mode = ''event'', tp_toObservable = False, tp_queue = None,
     tp_routingKey = Some (we_routingKey e), tp_exchange = Some (we_exchange e), tp_deadLetterExchange = None, tp_retry = JUndef,
     tp_mandatory = JUndef, tp_persistent = JUndef\<rparr>"

text \<open>The branch that would add an alias asks for a topic of the same name with a different name: it
  is never taken.\<close>

definition declare_topic :: "ws_event \<Rightarrow> topic list \<Rightarrow> topic list" where
  "declare_topic e topics =
     (if we_exchange e \<noteq> [] \<and> we_routingKey e \<noteq> [] \<and> find (\<lambda>t. tp_name t = we_name e) topics = None
      then topics @ [event_topic e] else topics)"

record ws_boot =
  wb_subjects :: "string list"
  wb_topics :: "topic list"
  wb_consumers :: "(string \<times> string \<times> string \<times> string) list"

definition ws_queue :: "ws_event \<Rightarrow> string \<Rightarrow> string \<Rightarrow> string \<Rightarrow> string" where
  "ws_queue e cname pid uuid = we_name e @ ''-ws-'' @ cname @ ''-'' @ pid @ ''-'' @ take 8 uuid"

text \<open>\<open>fails\<close> says which consumers the broker refuses; the refusal is logged and start-up goes on.\<close>

fun ws_boot_events :: "string option \<Rightarrow> string \<Rightarrow> (nat \<Rightarrow> string) \<Rightarrow> (string \<Rightarrow> bool) \<Rightarrow> ws_event list \<Rightarrow> nat \<Rightarrow> (ws_boot, unit) eff" where
  "ws_boot_events cname pid uuid fails [] n b = ret () b"
| "ws_boot_events cname pid uuid fails (e # es) n b =
     (let b1 = b\<lparr>wb_subjects := (if we_name e \<in> set (wb_subjects b) then wb_subjects b else wb_subjects b @ [we_name e])\<rparr> in
      if \<not> truthy_str cname then throw (generic_error ''Client name is required for event push configuration'') b1
      else
        let b2 = b1\<lparr>wb_topics := declare_topic e (wb_topics b1)\<rparr>; q = ws_queue e (the cname) pid (uuid n) in
        ws_boot_events cname pid uuid fails es (Suc n)
          (if fails q then b2
           else b2\<lparr>wb_consumers := wb_consumers b2 @ [(q, we_exchange e, we_routingKey e, we_name e)]\<rparr>))"

definition ws_webhooks :: "ws_event list \<Rightarrow> string list" where
  "ws_webhooks evs = map we_name (filter (\<lambda>e. we_type e = ''http'') evs)"

lemma ws_boot_subjects:
  assumes "ws_boot_events cname pid uuid fails es n b = (Inr (), b')"
  shows "set (wb_subjects b') = set (wb_subjects b) \<union> we_name ` set es"
  using assms
proof (induction es arbitrary: n b)
  case (Cons e es)
  then show ?case by (auto simp: Let_def split: if_splits)
qed simp

lemma find_names: "P x \<Longrightarrow> x \<in> set xs \<Longrightarrow> find P xs \<noteq> None"
  by (induction xs) auto

text \<open>After a completed start-up every event of the service can be published on and subscribed to:
  it has a subject, and, if it names an exchange and a routing key, a topic of the broker.\<close>

lemma declare_topic_keeps: "t \<in> set topics \<Longrightarrow> t \<in> set (declare_topic e topics)"
  by (simp add: declare_topic_def)

lemma ws_boot_topics:
  assumes "ws_boot_events cname pid uuid fails es n b = (Inr (), b')"
  shows "set (wb_topics b) \<subseteq> set (wb_topics b') \<and>
    (\<forall>e \<in> set es. we_exchange e \<noteq> [] \<longrightarrow> we_routingKey e \<noteq> [] \<longrightarrow> (\<exists>t \<in> set (wb_topics b'). tp_name t = we_name e))"
  using assms
proof (induction es arbitrary: n b)
  case (Cons e es)
  have new: "we_exchange e \<noteq> [] \<Longrightarrow> we_routingKey e \<noteq> [] \<Longrightarrow> \<exists>t \<in> set (declare_topic e ts). tp_name t = we_name e" for ts
    by (auto simp: declare_topic_def event_topic_def find_None_iff)
  from Cons.prems obtain b2 n2 where r: "ws_boot_events cname pid uuid fails es n2 b2 = (Inr (), b')"
      and t: "wb_topics b2 = declare_topic e (wb_topics b)"
    by (auto simp: Let_def split: if_splits)
  from Cons.IH [OF r] t new [of "wb_topics b"] declare_topic_keeps [of _ "wb_topics b" e] show ?case by auto
qed simp

end
