(* ===== verification/Metrics.thy ===== *)
theory Metrics
  imports Prelude Complex_Main "HOL-Library.Product_Lexorder"
begin

text \<open>
  The metric aggregations of \<open>gateway-admin/util/metrics.ts\<close>: status classes, nearest-rank
  percentiles, time series, the dashboard summary, the hourly rollups and the Prometheus text.

  Times and durations are integers (milliseconds), a rate is a rational. The code accumulates
  into a map keyed by bucket or by text; the reference is the grouping it means: for every key
  the points with that key.
\<close>

section \<open>Points and accumulators\<close>

record metric =
  m_ts :: int
  m_method :: string
  m_route :: string
  m_name :: "string option"
  m_status :: "int option"
  m_durationMs :: "int option"

datatype status_class = S2xx | S3xx | S4xx | S5xx

definition statusClass :: "int option \<Rightarrow> status_class option" where
  "statusClass status =
     (case status of
        None \<Rightarrow> None
      | Some s \<Rightarrow>
          if s \<ge> 500 then Some S5xx else if s \<ge> 400 then Some S4xx
          else if s \<ge> 300 then Some S3xx else if s \<ge> 200 then Some S2xx else None)"

text \<open>\<open>Math.ceil(p / 100 * n)\<close> for a whole \<open>p\<close>.\<close>

definition percentile :: "int list \<Rightarrow> int \<Rightarrow> int option" where
  "percentile sortedAsc p =
     (if sortedAsc = [] then None
      else
        let n = int (length sortedAsc); rank = (p * n + 99) div 100; idx = min (n - 1) (max 0 (rank - 1))
        in Some (sortedAsc ! nat idx))"

type_synonym status_classes = "status_class \<Rightarrow> int"

definition emptyStatusClasses :: status_classes where
  "emptyStatusClasses = (\<lambda>c. 0)"

definition count_status :: "int option \<Rightarrow> status_classes \<Rightarrow> status_classes" where
  "count_status status by = (case statusClass status of None \<Rightarrow> by | Some c \<Rightarrow> by(c := by c + 1))"

definition is_error :: "int option \<Rightarrow> bool" where
  "is_error status \<longleftrightarrow> coalesce status 0 \<ge> 400"

definition duration :: "metric \<Rightarrow> int" where
  "duration p = coalesce (m_durationMs p) 0"

definition min_opt :: "int option \<Rightarrow> int \<Rightarrow> int option" where
  "min_opt m d = Some (case m of None \<Rightarrow> d | Some x \<Rightarrow> min x d)"

definition max_opt :: "int option \<Rightarrow> int \<Rightarrow> int option" where
  "max_opt m d = Some (case m of None \<Rightarrow> d | Some x \<Rightarrow> max x d)"

record bucket =
  b_durations :: "int list"
  b_count :: int
  b_errorCount :: int
  b_total :: int
  b_min :: "int option"
  b_max :: "int option"
  b_byStatus :: status_classes

definition empty_bucket :: bucket where
  "empty_bucket = \<lparr>b_durations = [], b_count = 0, b_errorCount = 0, b_total = 0, b_min = None, b_max = None, b_byStatus = emptyStatusClasses\<rparr>"

definition add_point :: "metric \<Rightarrow> bucket \<Rightarrow> bucket" where
  "add_point p b = \<lparr>b_durations = b_durations b @ [duration p], b_count = b_count b + 1,
     b_errorCount = b_errorCount b + (if is_error (m_status p) then 1 else 0), b_total = b_total b + duration p,
     b_min = min_opt (b_min b) (duration p), b_max = max_opt (b_max b) (duration p), b_byStatus = count_status (m_status p) (b_byStatus b)\<rparr>"

text \<open>The loop all three aggregations share: look the key up, start an accumulator if there is none,
  add the point.\<close>

definition group_step :: "('p \<Rightarrow> 'k) \<Rightarrow> ('p \<Rightarrow> 'b) \<Rightarrow> ('p \<Rightarrow> 'b \<Rightarrow> 'b) \<Rightarrow> 'p \<Rightarrow> ('k, 'b) omap \<Rightarrow> ('k, 'b) omap" where
  "group_step key init add p m = AList.update (key p) (add p (coalesce (map_of m (key p)) (init p))) m"

definition group_by :: "('p \<Rightarrow> 'k) \<Rightarrow> ('p \<Rightarrow> 'b) \<Rightarrow> ('p \<Rightarrow> 'b \<Rightarrow> 'b) \<Rightarrow> 'p list \<Rightarrow> ('k, 'b) omap" where
  "group_by key init add ps = fold (group_step key init add) ps []"

section \<open>Time series\<close>

definition bucket_start :: "int \<Rightarrow> int \<Rightarrow> int" where
  "bucket_start width ts = ts div width * width"

definition js_round_div :: "int \<Rightarrow> int \<Rightarrow> int" where
  "js_round_div t n = (2 * t + n) div (2 * n)"

record series_bucket =
  sb_bucketStart :: int
  sb_count :: int
  sb_errorCount :: int
  sb_totalDurationMs :: int
  sb_avgDurationMs :: int
  sb_minDurationMs :: "int option"
  sb_maxDurationMs :: "int option"
  sb_p50 :: "int option"
  sb_p95 :: "int option"
  sb_p99 :: "int option"
  sb_byStatus :: status_classes

definition finish_bucket :: "int \<Rightarrow> bucket \<Rightarrow> series_bucket" where
  "finish_bucket start b =
     (let sorted = sort (b_durations b) in
      \<lparr>sb_bucketStart = start, sb_count = b_count b, sb_errorCount = b_errorCount b, sb_totalDurationMs = b_total b,
       sb_avgDurationMs = (if b_count b \<noteq> 0 then js_round_div (b_total b) (b_count b) else 0),
       sb_minDurationMs = b_min b, sb_maxDurationMs = b_max b,
       sb_p50 = percentile sorted 50, sb_p95 = percentile sorted 95, sb_p99 = percentile sorted 99, sb_byStatus = b_byStatus b\<rparr>)"

definition buildSeries :: "metric list \<Rightarrow> int \<Rightarrow> series_bucket list" where
  "buildSeries points bucketMs =
     (let width = (if bucketMs > 0 then bucketMs else 60000);
          buckets = group_by (\<lambda>p. bucket_start width (m_ts p)) (\<lambda>p. empty_bucket) add_point points
      in map (\<lambda>(start, b). finish_bucket start b) (sort_key fst buckets))"

section \<open>Summary\<close>

record route_stats =
  rs_method :: string
  rs_route :: string
  rs_name :: "string option"
  rs_count :: int
  rs_errorCount :: int
  rs_total :: int
  rs_durations :: "int list"

record top_entry =
  te_method :: string
  te_route :: string
  te_name :: "string option"
  te_count :: int
  te_errorCount :: int
  te_errorRate :: rat
  te_avgDurationMs :: int
  te_p95 :: "int option"

record summary =
  su_totalRequests :: int
  su_totalErrors :: int
  su_errorRate :: rat
  su_avgDurationMs :: int
  su_p50 :: "int option"
  su_p95 :: "int option"
  su_p99 :: "int option"
  su_byStatus :: status_classes
  su_topByTraffic :: "top_entry list"
  su_topByErrors :: "top_entry list"
  su_topByLatency :: "top_entry list"

definition rate :: "int \<Rightarrow> int \<Rightarrow> rat" where
  "rate e n = (if n \<noteq> 0 then of_int e / of_int n else 0)"

definition route_key :: "metric \<Rightarrow> string" where
  "route_key p = m_method p @ '' '' @ m_route p"

definition new_stats :: "metric \<Rightarrow> route_stats" where
  "new_stats p = \<lparr>rs_method = m_method p, rs_route = m_route p, rs_name = m_name p, rs_count = 0, rs_errorCount = 0, rs_total = 0, rs_durations = []\<rparr>"

definition add_stats :: "metric \<Rightarrow> route_stats \<Rightarrow> route_stats" where
  "add_stats p e = e\<lparr>rs_count := rs_count e + 1, rs_total := rs_total e + duration p, rs_durations := rs_durations e @ [duration p],
     rs_errorCount := rs_errorCount e + (if is_error (m_status p) then 1 else 0)\<rparr>"

definition finish_stats :: "route_stats \<Rightarrow> top_entry" where
  "finish_stats e =
     \<lparr>te_method = rs_method e, te_route = rs_route e, te_name = rs_name e, te_count = rs_count e, te_errorCount = rs_errorCount e,
      te_errorRate = rate (rs_errorCount e) (rs_count e),
      te_avgDurationMs = (if rs_count e \<noteq> 0 then js_round_div (rs_total e) (rs_count e) else 0),
      te_p95 = percentile (sort (rs_durations e)) 95\<rparr>"

definition top_by :: "(top_entry \<Rightarrow> 'k::linorder) \<Rightarrow> int \<Rightarrow> top_entry list \<Rightarrow> top_entry list" where
  "top_by key topN entries = js_slice (sort_key key entries) 0 topN"

definition buildSummary :: "metric list \<Rightarrow> int \<Rightarrow> summary" where
  "buildSummary points topN =
     (let all = fold add_point points empty_bucket;
          entries = map (finish_stats \<circ> snd) (group_by route_key new_stats add_stats points);
          n = int (length points); sortedAll = sort (b_durations all)
      in \<lparr>su_totalRequests = n, su_totalErrors = b_errorCount all, su_errorRate = rate (b_errorCount all) n,
          su_avgDurationMs = (if n \<noteq> 0 then js_round_div (b_total all) n else 0),
          su_p50 = percentile sortedAll 50, su_p95 = percentile sortedAll 95, su_p99 = percentile sortedAll 99,
          su_byStatus = b_byStatus all,
          su_topByTraffic = top_by (\<lambda>e. - te_count e) topN entries,
          su_topByErrors = top_by (\<lambda>e. (- te_errorCount e, - te_errorRate e)) topN entries,
          su_topByLatency = top_by (\<lambda>e. - coalesce (te_p95 e) 0) topN entries\<rparr>)"

section \<open>Rollups\<close>

record rollup =
  ru_bucketStart :: int
  ru_granularityMs :: int
  ru_method :: string
  ru_route :: string
  ru_name :: "string option"
  ru_count :: int
  ru_errorCount :: int
  ru_totalDurationMs :: int
  ru_min :: "int option"
  ru_max :: "int option"
  ru_byStatus :: status_classes

definition rollup_key :: "int \<Rightarrow> metric \<Rightarrow> string" where
  "rollup_key g p = int_str (bucket_start g (m_ts p)) @ ''|'' @ m_method p @ ''|'' @ m_route p"

definition new_rollup :: "int \<Rightarrow> metric \<Rightarrow> rollup" where
  "new_rollup g p = \<lparr>ru_bucketStart = bucket_start g (m_ts p), ru_granularityMs = g, ru_method = m_method p, ru_route = m_route p,
     ru_name = m_name p, ru_count = 0, ru_errorCount = 0, ru_totalDurationMs = 0, ru_min = None, ru_max = None, ru_byStatus = emptyStatusClasses\<rparr>"

definition add_rollup :: "metric \<Rightarrow> rollup \<Rightarrow> rollup" where
  "add_rollup p r = r\<lparr>ru_count := ru_count r + 1, ru_errorCount := ru_errorCount r + (if is_error (m_status p) then 1 else 0),
     ru_totalDurationMs := ru_totalDurationMs r + duration p, ru_min := min_opt (ru_min r) (duration p), ru_max := max_opt (ru_max r) (duration p),
     ru_byStatus := count_status (m_status p) (ru_byStatus r)\<rparr>"

definition aggregateRollups :: "metric list \<Rightarrow> int \<Rightarrow> rollup list" where
  "aggregateRollups points granularityMs =
     (let g = (if granularityMs > 0 then granularityMs else 3600000)
      in map snd (group_by (rollup_key g) (new_rollup g) add_rollup points))"

section \<open>Prometheus text\<close>

fun escapeLabel :: "string \<Rightarrow> string" where
  "escapeLabel [] = []"
| "escapeLabel (c # cs) =
     (if c = CHR 0x5C then [CHR 0x5C, CHR 0x5C]
      else if c = CHR 0x22 then [CHR 0x5C, CHR 0x22]
      else if c = CHR 0x0A then '' '' else [c]) @ escapeLabel cs"

record counter =
  co_method :: string
  co_route :: string
  co_name :: "string option"
  co_count :: int
  co_errorCount :: int
  co_totalDurationMs :: int

definition label :: "string \<Rightarrow> string \<Rightarrow> string" where
  "label name v = name @ [CHR ''='', CHR 0x22] @ escapeLabel v @ [CHR 0x22]"

definition labels :: "counter \<Rightarrow> string" where
  "labels m = label ''method'' (co_method m) @ '','' @ label ''route'' (co_route m) @
     (if truthy_str (co_name m) then '','' @ label ''name'' (the (co_name m)) else [])"

definition sample :: "string \<Rightarrow> (counter \<Rightarrow> int) \<Rightarrow> counter \<Rightarrow> string" where
  "sample name value m = name @ ''{'' @ labels m @ ''} '' @ int_str (value m)"

definition toPrometheus :: "counter list \<Rightarrow> string" where
  "toPrometheus counters =
     js_join [CHR 0x0A]
       ([''# HELP gateway_requests_total Total HTTP requests handled by the gateway.'',
         ''# TYPE gateway_requests_total counter'']
        @ map (sample ''gateway_requests_total'' co_count) counters
        @ [''# HELP gateway_request_errors_total Error responses (status >= 400).'',
           ''# TYPE gateway_request_errors_total counter'']
        @ map (sample ''gateway_request_errors_total'' co_errorCount) counters
        @ [''# HELP gateway_request_duration_ms_sum Total request duration in milliseconds.'',
           ''# TYPE gateway_request_duration_ms_sum counter'']
        @ map (sample ''gateway_request_duration_ms_sum'' co_totalDurationMs) counters)
     @ [CHR 0x0A]"

section \<open>Lemmas on grouping\<close>

lemma group_by_snoc: "group_by key init add (ps @ [p]) = group_step key init add p (group_by key init add ps)"
  by (simp add: group_by_def)

lemma group_by_get:
  "map_of (group_by key init add ps) k =
     (case filter (\<lambda>p. key p = k) ps of [] \<Rightarrow> None | q # qs \<Rightarrow> Some (fold add (q # qs) (init q)))"
proof (induction ps rule: rev_induct)
  case Nil
  show ?case by (simp add: group_by_def)
next
  case (snoc p ps)
  show ?case
  proof (cases "key p = k")
    case True
    with snoc show ?thesis by (simp add: group_by_snoc group_step_def om_simps split: list.split)
  next
    case False
    with snoc show ?thesis by (simp add: group_by_snoc group_step_def om_simps split: list.split)
  qed
qed

lemma group_by_distinct: "distinct (map fst (group_by key init add ps))"
  by (induction ps rule: rev_induct) (auto simp: group_by_def group_step_def distinct_update)

lemma group_by_keys: "fst ` set (group_by key init add ps) = key ` set ps"
proof (induction ps rule: rev_induct)
  case (snoc p ps)
  then show ?case by (simp add: group_by_snoc group_step_def dom_update)
qed (simp add: group_by_def)

lemma group_by_entry:
  assumes "(k, b) \<in> set (group_by key init add ps)"
  obtains q qs where "filter (\<lambda>p. key p = k) ps = q # qs" and "b = fold add (q # qs) (init q)"
proof -
  have "map_of (group_by key init add ps) k = Some b" using assms by (simp add: om_mem_iff [OF group_by_distinct])
  with that show ?thesis by (auto simp: group_by_get split: list.splits)
qed

lemma sum_update:
  fixes f :: "'b \<Rightarrow> int"
  shows "distinct (map fst m) \<Longrightarrow>
    sum_list (map (f \<circ> snd) (AList.update k v m)) =
      sum_list (map (f \<circ> snd) m) + f v - (case map_of m k of None \<Rightarrow> 0 | Some x \<Rightarrow> f x)"
proof (induction m)
  case (Cons e m)
  have "map_of m k = None" if "fst e = k" using Cons.prems that by (auto simp: map_of_eq_None_iff)
  with Cons show ?case by (cases e) (auto split: option.split)
qed simp

lemma group_by_sum:
  fixes f :: "'b \<Rightarrow> int"
  assumes "\<And>p b. f (add p b) = f b + h p" and "\<And>p. f (init p) = 0"
  shows "sum_list (map (f \<circ> snd) (group_by key init add ps)) = sum_list (map h ps)"
proof (induction ps rule: rev_induct)
  case (snoc p ps)
  show ?case
    unfolding group_by_snoc group_step_def sum_update [OF group_by_distinct] snoc [symmetric]
    by (cases "map_of (group_by key init add ps) (key p)") (simp_all add: assms snoc)
qed (simp add: group_by_def)

subsection \<open>What an accumulator holds\<close>

lemma fold_add_point:
  "b_durations (fold add_point ps b) = b_durations b @ map duration ps"
  "b_count (fold add_point ps b) = b_count b + int (length ps)"
  "b_errorCount (fold add_point ps b) = b_errorCount b + int (length (filter (\<lambda>p. is_error (m_status p)) ps))"
  "b_total (fold add_point ps b) = b_total b + sum_list (map duration ps)"
  by (induction ps arbitrary: b) (simp_all add: add_point_def)

lemma fold_add_min:
  "b_min (fold add_point ps (b\<lparr>b_min := Some m\<rparr>)) = Some (Min (insert m (duration ` set ps)))"
  "b_max (fold add_point ps (b\<lparr>b_max := Some m\<rparr>)) = Some (Max (insert m (duration ` set ps)))"
proof -
  have "b_min (fold add_point ps b) = Some (Min (insert m (duration ` set ps)))" if "b_min b = Some m" for b m
    using that
  proof (induction ps arbitrary: b m)
    case (Cons p ps)
    have "b_min (add_point p b) = Some (min m (duration p))" using Cons.prems by (simp add: add_point_def min_opt_def)
    from Cons.IH [OF this] show ?case by (cases "ps = []") (simp_all add: min.assoc)
  qed simp
  then show "b_min (fold add_point ps (b\<lparr>b_min := Some m\<rparr>)) = Some (Min (insert m (duration ` set ps)))" by simp
  have "b_max (fold add_point ps b) = Some (Max (insert m (duration ` set ps)))" if "b_max b = Some m" for b m
    using that
  proof (induction ps arbitrary: b m)
    case (Cons p ps)
    have "b_max (add_point p b) = Some (max m (duration p))" using Cons.prems by (simp add: add_point_def max_opt_def)
    from Cons.IH [OF this] show ?case by (cases "ps = []") (simp_all add: max.assoc)
  qed simp
  then show "b_max (fold add_point ps (b\<lparr>b_max := Some m\<rparr>)) = Some (Max (insert m (duration ` set ps)))" by simp
qed

definition bucket_of :: "metric list \<Rightarrow> bucket" where
  "bucket_of ps = fold add_point ps empty_bucket"

lemma bucket_of_simps:
  "b_durations (bucket_of ps) = map duration ps" "b_count (bucket_of ps) = int (length ps)"
  "b_errorCount (bucket_of ps) = int (length (filter (\<lambda>p. is_error (m_status p)) ps))"
  "b_total (bucket_of ps) = sum_list (map duration ps)"
  by (simp_all add: bucket_of_def fold_add_point empty_bucket_def)

lemma bucket_of_min_max:
  assumes "ps \<noteq> []"
  shows "b_min (bucket_of ps) = Some (Min (duration ` set ps))" "b_max (bucket_of ps) = Some (Max (duration ` set ps))"
proof -
  obtain p qs where ps: "ps = p # qs" using assms by (cases ps) auto
  have eq: "add_point p empty_bucket = (add_point p empty_bucket)\<lparr>b_min := Some (duration p)\<rparr>"
    "add_point p empty_bucket = (add_point p empty_bucket)\<lparr>b_max := Some (duration p)\<rparr>"
    by (simp_all add: add_point_def empty_bucket_def min_opt_def max_opt_def)
  show "b_min (bucket_of ps) = Some (Min (duration ` set ps))"
    unfolding bucket_of_def ps fold_simps by (subst eq(1), subst fold_add_min(1)) simp
  show "b_max (bucket_of ps) = Some (Max (duration ` set ps))"
    unfolding bucket_of_def ps fold_simps by (subst eq(2), subst fold_add_min(2)) simp
qed

text \<open>A bucket is a half-open interval.\<close>

lemma bucket_start_interval:
  fixes w :: int
  assumes "0 < w"
  shows "bucket_start w t = bucket_start w u \<longleftrightarrow> bucket_start w u \<le> t \<and> t < bucket_start w u + w"
proof
  assume "bucket_start w t = bucket_start w u"
  then show "bucket_start w u \<le> t \<and> t < bucket_start w u + w"
    using assms div_mult_mod_eq [of t w] pos_mod_bound [OF assms, of t] pos_mod_sign [OF assms, of t]
    unfolding bucket_start_def by linarith
next
  assume i: "bucket_start w u \<le> t \<and> t < bucket_start w u + w"
  have "t div w = u div w"
    using i assms by (intro int_div_pos_eq [of t w "u div w" "t - bucket_start w u"]) (auto simp: bucket_start_def mult.commute)
  then show "bucket_start w t = bucket_start w u" by (simp add: bucket_start_def)
qed


section \<open>Percentiles\<close>

lemma sorted_count_le:
  fixes xs :: "int list"
  assumes "sorted xs" and "i < length xs"
  shows "Suc i \<le> length (filter (\<lambda>x. x \<le> xs ! i) xs)" and "length (filter (\<lambda>x. x < xs ! i) xs) \<le> i"
proof -
  have "{..i} \<subseteq> {j. j < length xs \<and> xs ! j \<le> xs ! i}"
    using assms by (auto intro: sorted_nth_mono)
  from card_mono [OF _ this] show "Suc i \<le> length (filter (\<lambda>x. x \<le> xs ! i) xs)" by (simp add: length_filter_conv_card)
  have "{j. j < length xs \<and> xs ! j < xs ! i} \<subseteq> {..<i}"
  proof
    fix j assume j: "j \<in> {j. j < length xs \<and> xs ! j < xs ! i}"
    then have "\<not> i \<le> j" using sorted_nth_mono [OF assms(1), of i j] by auto
    then show "j \<in> {..<i}" by simp
  qed
  from card_mono [OF _ this] show "length (filter (\<lambda>x. x < xs ! i) xs) \<le> i" by (simp add: length_filter_conv_card)
qed

lemma ceil_hundred:
  fixes k :: int
  shows "k \<le> 100 * ((k + 99) div 100)" and "100 * ((k + 99) div 100 - 1) < k"
proof -
  have "k + 99 = 100 * ((k + 99) div 100) + (k + 99) mod 100" by simp
  moreover have "0 \<le> (k + 99) mod 100" "(k + 99) mod 100 < 100" by simp_all
  ultimately show "k \<le> 100 * ((k + 99) div 100)" "100 * ((k + 99) div 100 - 1) < k" by (simp_all add: right_diff_distrib)
qed

text \<open>\<open>percentile\<close> is the nearest-rank percentile: of a non-empty sorted list it is an element
  with at least \<open>p\<close> percent of the list at or below it and less than \<open>p\<close> percent below it.\<close>

theorem percentile_nearest_rank:
  assumes "sorted xs" and "xs \<noteq> []" and "0 < p" and "p \<le> 100"
  shows "\<exists>v \<in> set xs. percentile xs p = Some v \<and>
    p * int (length xs) \<le> 100 * int (length (filter (\<lambda>x. x \<le> v) xs)) \<and>
    100 * int (length (filter (\<lambda>x. x < v) xs)) < p * int (length xs)"
proof -
  let ?n = "int (length xs)" and ?rank = "(p * int (length xs) + 99) div 100"
  have n: "1 \<le> ?n" using assms(2) by (cases xs) auto
  have pn: "1 \<le> p * ?n" using mult_mono [of 1 p 1 ?n] n assms(3) by simp
  have "p * ?n \<le> 100 * ?n" using n assms(4) by (intro mult_right_mono) auto
  then have r: "1 \<le> ?rank" "?rank \<le> ?n" "p * ?n \<le> 100 * ?rank" "100 * (?rank - 1) < p * ?n"
    using pn ceil_hundred [of "p * ?n"] by (linarith, linarith, blast, blast)
  let ?i = "nat (?rank - 1)"
  have i: "?i < length xs" using r by linarith
  have idx: "nat (min (?n - 1) (max 0 (?rank - 1))) = ?i" using r by simp
  note c = sorted_count_le [OF assms(1) i]
  have "percentile xs p = Some (xs ! ?i)" using assms(2) idx by (simp add: percentile_def Let_def)
  moreover have "p * ?n \<le> 100 * int (length (filter (\<lambda>x. x \<le> xs ! ?i) xs))" using c(1) r by linarith
  moreover have "100 * int (length (filter (\<lambda>x. x < xs ! ?i) xs)) < p * ?n" using c(2) r by linarith
  ultimately show ?thesis using i by (intro bexI [of _ "xs ! ?i"]) auto
qed

theorem percentile_nearest_rank_witness: "\<exists>v \<in> {1, 5, 7, 9}. percentile [1, 5, 7, 9] 95 = Some v"
  using percentile_nearest_rank [of "[1, 5, 7, 9]" 95] by auto

section \<open>The series\<close>

definition points_in :: "int \<Rightarrow> int \<Rightarrow> metric list \<Rightarrow> metric list" where
  "points_in start width ps = filter (\<lambda>p. start \<le> m_ts p \<and> m_ts p < start + width) ps"

definition series_groups :: "metric list \<Rightarrow> int \<Rightarrow> (int, bucket) omap" where
  "series_groups ps w = group_by (\<lambda>p. bucket_start w (m_ts p)) (\<lambda>p. empty_bucket) add_point ps"

lemma series_groups_entry:
  assumes "0 < w" and "(s, b) \<in> set (series_groups ps w)"
  shows "points_in s w ps \<noteq> [] \<and> b = bucket_of (points_in s w ps)"
proof -
  from assms(2) obtain q qs where f: "filter (\<lambda>p. bucket_start w (m_ts p) = s) ps = q # qs" and b: "b = fold add_point (q # qs) empty_bucket"
    unfolding series_groups_def by (rule group_by_entry)
  have s: "s = bucket_start w (m_ts q)" using arg_cong [OF f, of set] by auto
  have "points_in s w ps = q # qs"
    unfolding points_in_def f [symmetric] by (rule filter_cong) (simp_all add: s bucket_start_interval [OF assms(1)])
  with b show ?thesis by (simp add: bucket_of_def)
qed

lemma buildSeries_groups:
  "0 < w \<Longrightarrow> buildSeries ps w = map (\<lambda>(s, b). finish_bucket s b) (sort_key fst (series_groups ps w))"
  by (simp add: buildSeries_def series_groups_def)

lemma finish_start [simp]: "sb_bucketStart (finish_bucket s b) = s"
  by (simp add: finish_bucket_def Let_def)

lemma series_starts: "0 < w \<Longrightarrow> map sb_bucketStart (buildSeries ps w) = map fst (sort_key fst (series_groups ps w))"
  by (simp add: buildSeries_groups split_def comp_def)

text \<open>A time series is exact: its buckets are the intervals of the asked width that contain a
  point, in ascending order and each once, and a bucket's count, errors, total, extremes and
  percentiles are those of the points inside its interval.\<close>

theorem series_is_exact:
  assumes "0 < w"
  shows "sorted_wrt (<) (map sb_bucketStart (buildSeries ps w)) \<and>
    set (map sb_bucketStart (buildSeries ps w)) = (\<lambda>p. m_ts p div w * w) ` set ps \<and>
    (\<forall>b \<in> set (buildSeries ps w). let inside = points_in (sb_bucketStart b) w ps; ds = map duration inside in
       inside \<noteq> [] \<and> sb_count b = int (length inside) \<and> sb_errorCount b = int (length (filter (\<lambda>p. is_error (m_status p)) inside)) \<and>
       sb_totalDurationMs b = sum_list ds \<and> sb_minDurationMs b = Some (Min (set ds)) \<and> sb_maxDurationMs b = Some (Max (set ds)) \<and>
       sb_p50 b = percentile (sort ds) 50 \<and> sb_p95 b = percentile (sort ds) 95 \<and> sb_p99 b = percentile (sort ds) 99)"
proof -
  let ?gs = "sort_key fst (series_groups ps w)"
  have "distinct (map fst ?gs)"
    using group_by_distinct [of "\<lambda>p. bucket_start w (m_ts p)" "\<lambda>p. empty_bucket" add_point ps]
    by (simp add: distinct_map series_groups_def inj_on_def)
  moreover have "sorted (map fst ?gs)" by simp
  ultimately have o: "sorted_wrt (<) (map sb_bucketStart (buildSeries ps w))"
    unfolding series_starts [OF assms] by (simp add: strict_sorted_iff)
  have k: "set (map sb_bucketStart (buildSeries ps w)) = (\<lambda>p. m_ts p div w * w) ` set ps"
    unfolding series_starts [OF assms] using group_by_keys [of "\<lambda>p. bucket_start w (m_ts p)" "\<lambda>p. empty_bucket" add_point ps]
    by (simp add: series_groups_def bucket_start_def)
  have "let inside = points_in (sb_bucketStart b) w ps; ds = map duration inside in
       inside \<noteq> [] \<and> sb_count b = int (length inside) \<and> sb_errorCount b = int (length (filter (\<lambda>p. is_error (m_status p)) inside)) \<and>
       sb_totalDurationMs b = sum_list ds \<and> sb_minDurationMs b = Some (Min (set ds)) \<and> sb_maxDurationMs b = Some (Max (set ds)) \<and>
       sb_p50 b = percentile (sort ds) 50 \<and> sb_p95 b = percentile (sort ds) 95 \<and> sb_p99 b = percentile (sort ds) 99"
    if b: "b \<in> set (buildSeries ps w)" for b
  proof -
    from b obtain s g where g: "(s, g) \<in> set (series_groups ps w)" and bb: "b = finish_bucket s g"
      by (auto simp: buildSeries_groups [OF assms])
    from series_groups_entry [OF assms g] have ne: "points_in s w ps \<noteq> []" and gg: "g = bucket_of (points_in s w ps)" by simp_all
    show ?thesis using ne by (simp add: bb gg finish_bucket_def Let_def bucket_of_simps bucket_of_min_max)
  qed
  with o k show ?thesis by blast
qed

definition demo_points :: "metric list" where
  "demo_points = [\<lparr>m_ts = 25, m_method = ''GET'', m_route = ''/a'', m_name = None, m_status = Some 200, m_durationMs = Some 4\<rparr>,
     \<lparr>m_ts = 7, m_method = ''GET'', m_route = ''/a'', m_name = None, m_status = Some 500, m_durationMs = Some 8\<rparr>,
     \<lparr>m_ts = 21, m_method = ''GET'', m_route = ''/b'', m_name = None, m_status = None, m_durationMs = None\<rparr>]"

theorem series_is_exact_witness: "set (map sb_bucketStart (buildSeries demo_points 10)) = {0, 20}"
  using series_is_exact [of 10 demo_points] by (auto simp: demo_points_def)

section \<open>The rollups\<close>

lemma rollup_rows_distinct: "distinct (map (\<lambda>r. (ru_bucketStart r, ru_method r, ru_route r)) (aggregateRollups ps g))"
proof -
  let ?g = "if g > 0 then g else 3600000"
  let ?m = "group_by (rollup_key ?g) (new_rollup ?g) add_rollup ps"
  let ?key = "\<lambda>r. int_str (ru_bucketStart r) @ ''|'' @ ru_method r @ ''|'' @ ru_route r"
  have fold_key: "ru_bucketStart (fold add_rollup qs r) = ru_bucketStart r \<and> ru_method (fold add_rollup qs r) = ru_method r \<and>
      ru_route (fold add_rollup qs r) = ru_route r" for qs r
    by (induction qs arbitrary: r) (simp_all add: add_rollup_def)
  have k: "?key (snd x) = fst x" if "x \<in> set ?m" for x
  proof -
    obtain k r where x: "x = (k, r)" by (cases x)
    with that obtain q qs where f: "filter (\<lambda>p. rollup_key ?g p = k) ps = q # qs" and r: "r = fold add_rollup (q # qs) (new_rollup ?g q)"
      by (auto elim: group_by_entry)
    have "rollup_key ?g q = k" using arg_cong [OF f, of set] by auto
    then show ?thesis using fold_key [of "q # qs" "new_rollup ?g q"] unfolding x r by (simp add: new_rollup_def rollup_key_def)
  qed
  have "distinct (map (?key \<circ> snd) ?m)"
    using group_by_distinct [of "rollup_key ?g" "new_rollup ?g" add_rollup ps] k by (simp cong: map_cong)
  moreover have "aggregateRollups ps g = map snd ?m" by (simp add: aggregateRollups_def)
  ultimately show ?thesis by (auto simp: distinct_map inj_on_def)
qed

text \<open>Rollups lose no call: whatever the granularity, the counts, the errors and the total
  duration of all rollups add up to those of the points, and no two rollups have the same bucket,
  method and route.\<close>

theorem rollups_add_up:
  "sum_list (map ru_count (aggregateRollups ps g)) = int (length ps) \<and>
   sum_list (map ru_errorCount (aggregateRollups ps g)) = int (length (filter (\<lambda>p. is_error (m_status p)) ps)) \<and>
   sum_list (map ru_totalDurationMs (aggregateRollups ps g)) = sum_list (map duration ps) \<and>
   distinct (map (\<lambda>r. (ru_bucketStart r, ru_method r, ru_route r)) (aggregateRollups ps g))"
proof -
  let ?g = "if g > 0 then g else 3600000"
  let ?m = "group_by (rollup_key ?g) (new_rollup ?g) add_rollup ps"
  have agg: "aggregateRollups ps g = map snd ?m" by (simp add: aggregateRollups_def)
  have c: "sum_list (map (ru_count \<circ> snd) ?m) = sum_list (map (\<lambda>p. 1) ps)"
    by (rule group_by_sum) (simp_all add: add_rollup_def new_rollup_def)
  have e: "sum_list (map (ru_errorCount \<circ> snd) ?m) = sum_list (map (\<lambda>p. if is_error (m_status p) then 1 else 0) ps)"
    by (rule group_by_sum) (simp_all add: add_rollup_def new_rollup_def)
  have t: "sum_list (map (ru_totalDurationMs \<circ> snd) ?m) = sum_list (map duration ps)"
    by (rule group_by_sum) (simp_all add: add_rollup_def new_rollup_def)
  have ones: "sum_list (map (\<lambda>p. 1) ps) = int (length ps)" by (induction ps) simp_all
  have errs: "sum_list (map (\<lambda>p. if is_error (m_status p) then 1 else 0) ps) = int (length (filter (\<lambda>p. is_error (m_status p)) ps))"
    by (induction ps) simp_all
  from c e t rollup_rows_distinct [of ps g] show ?thesis by (simp add: agg ones errs comp_def)
qed

section \<open>Prometheus labels\<close>

text \<open>How a scraper reads a label value, from after its opening quote: the value and what follows the
  closing quote.\<close>

fun read_label :: "string \<Rightarrow> (string \<times> string) option" where
  "read_label [] = None"
| "read_label (c # cs) =
     (if c = CHR 0x22 then Some ([], cs)
      else if c = CHR 0x5C then
        (case cs of [] \<Rightarrow> None
         | d # ds \<Rightarrow> (case read_label ds of None \<Rightarrow> None | Some (v, rest) \<Rightarrow> Some (d # v, rest)))
      else (case read_label cs of None \<Rightarrow> None | Some (v, rest) \<Rightarrow> Some (c # v, rest)))"

definition one_line :: "string \<Rightarrow> string" where
  "one_line s = map (\<lambda>c. if c = CHR 0x0A then CHR '' '' else c) s"

lemma read_escaped: "read_label (escapeLabel s @ CHR 0x22 # rest) = Some (one_line s, rest)"
  by (induction s) (simp_all add: one_line_def)

lemma escaped_no_newline: "CHR 0x0A \<notin> set (escapeLabel s)"
  by (induction s) auto

lemma split_join:
  assumes "ws \<noteq> []" and "\<forall>w \<in> set ws. c \<notin> set w"
  shows "js_split c (js_join [c] ws) = ws"
  using assms
proof (induction ws)
  case (Cons w ws)
  then show ?case by (cases "ws = []") (simp_all add: js_split_id js_join_Cons js_split_append_sep)
qed simp

lemma digit_not_newline: "d < 10 \<Longrightarrow> digit_char d \<noteq> CHR 0x0A"
proof
  assume "d < 10" and "digit_char d = CHR 0x0A"
  then have "(of_char (digit_char d) :: nat) = 10" by simp
  with \<open>d < 10\<close> show False by (simp add: digit_char_def)
qed

lemma int_str_no_newline: "CHR 0x0A \<notin> set (int_str i)"
  using nat_str_digits digit_not_newline by (auto simp: int_str_def) metis+

definition prometheus_lines :: "counter list \<Rightarrow> string list" where
  "prometheus_lines counters =
     [''# HELP gateway_requests_total Total HTTP requests handled by the gateway.'',
      ''# TYPE gateway_requests_total counter'']
     @ map (sample ''gateway_requests_total'' co_count) counters
     @ [''# HELP gateway_request_errors_total Error responses (status >= 400).'',
        ''# TYPE gateway_request_errors_total counter'']
     @ map (sample ''gateway_request_errors_total'' co_errorCount) counters
     @ [''# HELP gateway_request_duration_ms_sum Total request duration in milliseconds.'',
        ''# TYPE gateway_request_duration_ms_sum counter'']
     @ map (sample ''gateway_request_duration_ms_sum'' co_totalDurationMs) counters"

lemma label_no_newline: "CHR 0x0A \<notin> set n \<Longrightarrow> CHR 0x0A \<notin> set (label n v)"
  by (simp add: label_def escaped_no_newline)

lemma sample_no_newline: "CHR 0x0A \<notin> set n \<Longrightarrow> CHR 0x0A \<notin> set (sample n f m)"
  by (simp add: sample_def labels_def label_no_newline int_str_no_newline)

text \<open>C30: The Prometheus text cannot be broken by what is measured. Whatever methods, routes and
  names the counters carry, splitting the text at its newlines gives back the six header lines
  and one sample per counter and metric, and a scraper that reads a label value gets the value
  back (a newline as a space) and continues after its closing quote.\<close>

theorem prometheus_text_intact:
  "js_split (CHR 0x0A) (toPrometheus counters) = prometheus_lines counters @ [[]] \<and>
   read_label (drop (length n + 2) (label n v @ rest)) = Some (one_line v, rest)"
proof -
  have nl: "\<forall>w \<in> set (prometheus_lines counters). CHR 0x0A \<notin> set w"
    by (simp add: prometheus_lines_def sample_no_newline ball_Un)
  have "toPrometheus counters = js_join [CHR 0x0A] (prometheus_lines counters @ [[]])"
  proof -
    have j: "js_join sep (ws @ [[]]) = js_join sep ws @ sep" if "ws \<noteq> []" for sep and ws :: "string list"
      using that
    proof (induction ws)
      case (Cons w ws)
      then show ?case by (cases "ws = []") (simp_all add: js_join_Cons)
    qed simp
    have "prometheus_lines counters \<noteq> []" by (simp add: prometheus_lines_def)
    then show ?thesis unfolding toPrometheus_def prometheus_lines_def [symmetric] by (rule j [symmetric])
  qed
  moreover have "js_split (CHR 0x0A) (js_join [CHR 0x0A] (prometheus_lines counters @ [[]])) = prometheus_lines counters @ [[]]"
    by (rule split_join) (use nl in auto)
  moreover have "read_label (drop (length n + 2) (label n v @ rest)) = Some (one_line v, rest)"
    by (simp add: label_def read_escaped)
  ultimately show ?thesis by simp
qed

end
