(* ===== verification/Metric_Jobs.thy ===== *)
theory Metric_Jobs
  imports Metrics
begin

text \<open>
  The metrics service and the scheduled jobs of the gateway admin:
  \<open>gateway-metrics.service.ts\<close>, \<open>gateway-metrics-rollup.service.ts\<close>,
  \<open>gateway-retention.service.ts\<close>, the contracts \<open>http-metric.repository.ts\<close> and
  \<open>scheduler-lock.ts\<close>, the in-memory metric repository the gateway generator emits and the
  in-process lock of the hardening sample.

  Both contracts are locales, interpreted by these two implementations. The repository keeps its
  rows in lists in insertion order; the ids of its rows are left out, a row stands for itself.
  \<open>now\<close> is what \<open>Date.now()\<close> gives.
\<close>

section \<open>The metric repository\<close>

record track_input =
  ti_method :: string
  ti_route :: string
  ti_name :: "string option"
  ti_topic :: "string option"
  ti_action :: "string option"
  ti_status :: "int option"
  ti_durationMs :: "int option"
  ti_code :: "string option"
  ti_ts :: "int option"

record http_metric =
  hm_method :: string
  hm_route :: string
  hm_name :: "string option"
  hm_topic :: "string option"
  hm_action :: "string option"
  hm_count :: int
  hm_errorCount :: int
  hm_lastStatus :: "int option"
  hm_lastCalledAt :: int
  hm_totalDurationMs :: int
  hm_lastErrorCode :: "string option"

record metric_query =
  mq_method :: "string option"
  mq_route :: "string option"
  mq_name :: "string option"
  mq_from :: "int option"
  mq_to :: "int option"
  mq_limit :: "int option"

record 's metric_deps =
  md_increment :: "int \<Rightarrow> track_input \<Rightarrow> ('s, unit) eff"
  md_list :: "string option \<Rightarrow> ('s, http_metric list) eff"
  md_record :: "int \<Rightarrow> track_input \<Rightarrow> ('s, unit) eff"
  md_points :: "metric_query \<Rightarrow> ('s, metric list) eff"
  md_recordRollups :: "rollup list \<Rightarrow> ('s, unit) eff"
  md_rollupSeries :: "metric_query \<Rightarrow> ('s, rollup list) eff"
  md_pruneRollups :: "int \<Rightarrow> ('s, nat) eff"
  md_prunePoints :: "int \<Rightarrow> ('s, nat) eff"

definition wanted :: "string option \<Rightarrow> string option \<Rightarrow> bool" where
  "wanted q v \<longleftrightarrow> \<not> truthy_str q \<or> v = q"

definition in_range :: "metric_query \<Rightarrow> int \<Rightarrow> bool" where
  "in_range q t \<longleftrightarrow> (case mq_from q of None \<Rightarrow> True | Some f \<Rightarrow> f \<le> t) \<and> (case mq_to q of None \<Rightarrow> True | Some u \<Rightarrow> t \<le> u)"

definition matchPoint :: "metric_query \<Rightarrow> metric \<Rightarrow> bool" where
  "matchPoint q p \<longleftrightarrow> wanted (mq_method q) (Some (m_method p)) \<and> wanted (mq_route q) (Some (m_route p)) \<and>
     wanted (mq_name q) (m_name p) \<and> in_range q (m_ts p)"

type_synonym rollup_id = "int \<times> int \<times> string \<times> string"

definition rollup_id_of :: "rollup \<Rightarrow> rollup_id" where
  "rollup_id_of r = (ru_bucketStart r, ru_granularityMs r, ru_method r, ru_route r)"

section \<open>The in-memory repository\<close>

record metric_store =
  ms_counters :: "http_metric list"
  ms_points :: "metric list"
  ms_rollups :: "rollup list"

definition new_counter :: "int \<Rightarrow> track_input \<Rightarrow> http_metric" where
  "new_counter now i =
     \<lparr>hm_method = ti_method i, hm_route = ti_route i, hm_name = ti_name i, hm_topic = ti_topic i, hm_action = ti_action i,
      hm_count = 1, hm_errorCount = (if is_error (ti_status i) then 1 else 0), hm_lastStatus = ti_status i, hm_lastCalledAt = now,
      hm_totalDurationMs = coalesce (ti_durationMs i) 0, hm_lastErrorCode = (if is_error (ti_status i) then ti_code i else None)\<rparr>"

definition bump_counter :: "int \<Rightarrow> track_input \<Rightarrow> http_metric \<Rightarrow> http_metric" where
  "bump_counter now i m =
     m\<lparr>hm_name := coalesce_opt (ti_name i) (hm_name m), hm_topic := coalesce_opt (ti_topic i) (hm_topic m),
       hm_action := coalesce_opt (ti_action i) (hm_action m), hm_count := hm_count m + 1,
       hm_errorCount := hm_errorCount m + (if is_error (ti_status i) then 1 else 0), hm_lastStatus := ti_status i,
       hm_lastCalledAt := now, hm_totalDurationMs := hm_totalDurationMs m + coalesce (ti_durationMs i) 0,
       hm_lastErrorCode := (if is_error (ti_status i) then ti_code i else hm_lastErrorCode m)\<rparr>"

fun update_first :: "('a \<Rightarrow> bool) \<Rightarrow> ('a \<Rightarrow> 'a) \<Rightarrow> 'a list \<Rightarrow> 'a list" where
  "update_first P f [] = []"
| "update_first P f (x # xs) = (if P x then f x # xs else x # update_first P f xs)"

definition same_route :: "track_input \<Rightarrow> http_metric \<Rightarrow> bool" where
  "same_route i m \<longleftrightarrow> hm_method m = ti_method i \<and> hm_route m = ti_route i"

definition im_increment :: "int \<Rightarrow> track_input \<Rightarrow> (metric_store, unit) eff" where
  "im_increment now i s =
     (if ti_method i = [] \<or> ti_route i = [] then ret () s
      else if find (same_route i) (ms_counters s) = None
      then ret () (s\<lparr>ms_counters := ms_counters s @ [new_counter now i]\<rparr>)
      else ret () (s\<lparr>ms_counters := update_first (same_route i) (bump_counter now i) (ms_counters s)\<rparr>))"

definition im_list :: "string option \<Rightarrow> (metric_store, http_metric list) eff" where
  "im_list route s = ret (if truthy_str route then filter (\<lambda>m. hm_route m = the route) (ms_counters s) else ms_counters s) s"

text \<open>The rows of \<open>list\<close> carry two computed fields more.\<close>

definition avgDurationMs :: "http_metric \<Rightarrow> int" where
  "avgDurationMs m = (if hm_count m > 0 then js_round_div (hm_totalDurationMs m) (hm_count m) else 0)"

definition errorRate :: "http_metric \<Rightarrow> rat" where
  "errorRate m = rate (hm_errorCount m) (hm_count m)"

definition point_of :: "int \<Rightarrow> track_input \<Rightarrow> metric" where
  "point_of now i = \<lparr>m_ts = coalesce (ti_ts i) now, m_method = ti_method i, m_route = ti_route i, m_name = ti_name i,
     m_status = ti_status i, m_durationMs = ti_durationMs i\<rparr>"

definition im_record :: "int \<Rightarrow> track_input \<Rightarrow> (metric_store, unit) eff" where
  "im_record now i s =
     (if ti_method i = [] \<or> ti_route i = [] then ret () s
      else ret () (s\<lparr>ms_points := ms_points s @ [point_of now i]\<rparr>))"

definition limited :: "int option \<Rightarrow> 'a list \<Rightarrow> 'a list" where
  "limited n xs = (case n of None \<Rightarrow> xs | Some k \<Rightarrow> if k = 0 then xs else js_slice xs 0 k)"

definition im_points :: "metric_query \<Rightarrow> (metric_store, metric list) eff" where
  "im_points q s = ret (limited (mq_limit q) (sort_key (\<lambda>p. - m_ts p) (filter (matchPoint q) (ms_points s)))) s"

definition put_rollup :: "rollup \<Rightarrow> metric_store \<Rightarrow> metric_store" where
  "put_rollup r s = s\<lparr>ms_rollups := filter (\<lambda>x. rollup_id_of x \<noteq> rollup_id_of r) (ms_rollups s) @ [r]\<rparr>"

definition im_recordRollups :: "rollup list \<Rightarrow> (metric_store, unit) eff" where
  "im_recordRollups rs s = ret () (fold put_rollup rs s)"

definition im_rollupSeries :: "metric_query \<Rightarrow> (metric_store, rollup list) eff" where
  "im_rollupSeries q s =
     ret (sort_key ru_bucketStart (filter (\<lambda>r. in_range q (ru_bucketStart r) \<and> wanted (mq_method q) (Some (ru_method r)) \<and>
       wanted (mq_route q) (Some (ru_route r)) \<and> wanted (mq_name q) (ru_name r)) (ms_rollups s))) s"

definition im_pruneRollups :: "int \<Rightarrow> (metric_store, nat) eff" where
  "im_pruneRollups t s =
     ret (length (filter (\<lambda>r. ru_bucketStart r < t) (ms_rollups s))) (s\<lparr>ms_rollups := filter (\<lambda>r. \<not> ru_bucketStart r < t) (ms_rollups s)\<rparr>)"

definition im_prunePoints :: "int \<Rightarrow> (metric_store, nat) eff" where
  "im_prunePoints t s =
     ret (length (filter (\<lambda>p. m_ts p < t) (ms_points s))) (s\<lparr>ms_points := filter (\<lambda>p. \<not> m_ts p < t) (ms_points s)\<rparr>)"

definition mem_metrics :: "metric_store metric_deps" where
  "mem_metrics = \<lparr>md_increment = im_increment, md_list = im_list, md_record = im_record, md_points = im_points,
     md_recordRollups = im_recordRollups, md_rollupSeries = im_rollupSeries, md_pruneRollups = im_pruneRollups,
     md_prunePoints = im_prunePoints\<rparr>"

section \<open>The metrics service\<close>

definition any_query :: metric_query where
  "any_query = \<lparr>mq_method = None, mq_route = None, mq_name = None, mq_from = None, mq_to = None, mq_limit = None\<rparr>"

text \<open>\<open>x != null ? Number(x) : undefined\<close>; a \<open>NaN\<close> bound filters nothing, as no bound does.\<close>

definition opt_number :: "jval \<Rightarrow> int option" where
  "opt_number v = (if nullish v then None else js_number v)"

definition track :: "'s metric_deps \<Rightarrow> int \<Rightarrow> track_input \<Rightarrow> ('s, unit) eff" where
  "track d now i =
     (if ti_method i = [] \<or> ti_route i = [] then ret ()
      else try_catch (and_then (md_record d now i) (\<lambda>_. md_increment d now i)) (\<lambda>e. ret ()))"

definition pointsCapped :: "'s metric_deps \<Rightarrow> int \<Rightarrow> metric_query \<Rightarrow> ('s, metric list \<times> bool) eff" where
  "pointsCapped d cap q =
     and_then (md_points d (if cap > 0 then q\<lparr>mq_limit := Some cap\<rparr> else q))
       (\<lambda>ps. ret (ps, cap > 0 \<and> int (length ps) \<ge> cap))"

definition metrics_get :: "'s metric_deps \<Rightarrow> string option \<Rightarrow> ('s, http_metric list) eff" where
  "metrics_get d route = md_list d route"

definition series :: "'s metric_deps \<Rightarrow> int \<Rightarrow> jval \<Rightarrow> jval \<Rightarrow> jval \<Rightarrow> metric_query \<Rightarrow> ('s, series_bucket list) eff" where
  "series d cap bucketMs from to q =
     and_then (pointsCapped d cap (q\<lparr>mq_from := opt_number from, mq_to := opt_number to, mq_limit := None\<rparr>))
       (\<lambda>(ps, _). ret (buildSeries ps (number_or bucketMs 60000)))"

definition metrics_points :: "'s metric_deps \<Rightarrow> jval \<Rightarrow> jval \<Rightarrow> jval \<Rightarrow> metric_query \<Rightarrow> ('s, metric list) eff" where
  "metrics_points d from to limit q =
     md_points d (q\<lparr>mq_name := None, mq_from := opt_number from, mq_to := opt_number to, mq_limit := opt_number limit\<rparr>)"

definition metrics_summary :: "'s metric_deps \<Rightarrow> int \<Rightarrow> jval \<Rightarrow> jval \<Rightarrow> jval \<Rightarrow> metric_query \<Rightarrow> ('s, summary) eff" where
  "metrics_summary d cap from to topN q =
     and_then (pointsCapped d cap (q\<lparr>mq_from := opt_number from, mq_to := opt_number to, mq_limit := None\<rparr>))
       (\<lambda>(ps, _). ret (buildSummary ps (number_or topN 10)))"

definition counter_of :: "http_metric \<Rightarrow> counter" where
  "counter_of m = \<lparr>co_method = hm_method m, co_route = hm_route m, co_name = hm_name m, co_count = hm_count m,
     co_errorCount = hm_errorCount m, co_totalDurationMs = hm_totalDurationMs m\<rparr>"

definition prometheus :: "'s metric_deps \<Rightarrow> string option \<Rightarrow> ('s, string) eff" where
  "prometheus d route = and_then (md_list d route) (\<lambda>ms. ret (toPrometheus (map counter_of ms)))"

definition rollups :: "'s metric_deps \<Rightarrow> jval \<Rightarrow> jval \<Rightarrow> metric_query \<Rightarrow> ('s, rollup list) eff" where
  "rollups d from to q = md_rollupSeries d (q\<lparr>mq_from := opt_number from, mq_to := opt_number to\<rparr>)"

section \<open>The scheduler lock\<close>

record 'l lock_deps =
  lk_tryAcquire :: "int \<Rightarrow> string \<Rightarrow> int \<Rightarrow> ('l, bool) eff"
  lk_release :: "(string \<Rightarrow> ('l, unit) eff) option"

type_synonym leases = "(string, int) omap"

definition il_tryAcquire :: "int \<Rightarrow> string \<Rightarrow> int \<Rightarrow> (leases, bool) eff" where
  "il_tryAcquire now name ttl l =
     (if (case map_of l name of None \<Rightarrow> False | Some t \<Rightarrow> t > now) then ret False l
      else ret True (AList.update name (now + ttl) l))"

definition il_release :: "string \<Rightarrow> (leases, unit) eff" where
  "il_release name l = ret () (AList.delete name l)"

definition mem_lock :: "leases lock_deps" where
  "mem_lock = \<lparr>lk_tryAcquire = il_tryAcquire, lk_release = Some il_release\<rparr>"

section \<open>The scheduled jobs\<close>

definition HOUR_MS :: int where "HOUR_MS = 3600000"

definition DAY_MS :: int where "DAY_MS = 86400000"

definition ROLLUP_TTL_MS :: int where "ROLLUP_TTL_MS = 5 * 60000"

definition RETENTION_TTL_MS :: int where "RETENTION_TTL_MS = 10 * 60000"

definition BOOT_CATCHUP_HOURS :: nat where "BOOT_CATCHUP_HOURS = 3"

definition ROLLUP_LOCK :: string where "ROLLUP_LOCK = ''gw-metrics-rollup''"

definition RETENTION_LOCK :: string where "RETENTION_LOCK = ''gw-retention''"

text \<open>The world of a job: the journal, the metrics and the lock.\<close>

record ('j, 's, 'l) job_world =
  jw_journal :: 'j
  jw_metrics :: 's
  jw_lock :: 'l

definition on_journal :: "('j, 'b) eff \<Rightarrow> (('j, 's, 'l) job_world, 'b) eff" where
  "on_journal f w = (case f (jw_journal w) of (r, x) \<Rightarrow> (r, w\<lparr>jw_journal := x\<rparr>))"

definition on_metrics :: "('s, 'b) eff \<Rightarrow> (('j, 's, 'l) job_world, 'b) eff" where
  "on_metrics f w = (case f (jw_metrics w) of (r, x) \<Rightarrow> (r, w\<lparr>jw_metrics := x\<rparr>))"

definition on_lock :: "('l, 'b) eff \<Rightarrow> (('j, 's, 'l) job_world, 'b) eff" where
  "on_lock f w = (case f (jw_lock w) of (r, x) \<Rightarrow> (r, w\<lparr>jw_lock := x\<rparr>))"

definition acquire :: "'l lock_deps option \<Rightarrow> int \<Rightarrow> string \<Rightarrow> int \<Rightarrow> ('l, bool) eff" where
  "acquire lock now name ttl =
     (case lock of None \<Rightarrow> ret True | Some k \<Rightarrow> try_catch (lk_tryAcquire k now name ttl) (\<lambda>e. ret True))"

definition releaseLock :: "'l lock_deps option \<Rightarrow> string \<Rightarrow> ('l, unit) eff" where
  "releaseLock lock name =
     (case lock of
        None \<Rightarrow> ret ()
      | Some k \<Rightarrow> (case lk_release k of None \<Rightarrow> ret () | Some f \<Rightarrow> try_catch (f name) (\<lambda>e. ret ())))"

definition previousHourStart :: "int \<Rightarrow> int" where
  "previousHourStart now = now div HOUR_MS * HOUR_MS - HOUR_MS"

definition hour_query :: "int \<Rightarrow> metric_query" where
  "hour_query h = any_query\<lparr>mq_from := Some h, mq_to := Some (h + HOUR_MS - 1)\<rparr>"

definition rollupHour :: "'s metric_deps \<Rightarrow> int \<Rightarrow> ('s, unit) eff" where
  "rollupHour d h =
     try_catch
       (and_then (md_points d (hour_query h))
          (\<lambda>ps. if ps = [] then ret () else md_recordRollups d (aggregateRollups ps HOUR_MS)))
       (\<lambda>e. ret ())"

fun catchup :: "'s metric_deps \<Rightarrow> int \<Rightarrow> nat \<Rightarrow> nat \<Rightarrow> ('s, unit) eff" where
  "catchup d base i 0 = ret ()"
| "catchup d base i (Suc n) = and_then (rollupHour d (base - int i * HOUR_MS)) (\<lambda>_. catchup d base (Suc i) n)"

definition locked_job :: "'l lock_deps option \<Rightarrow> int \<Rightarrow> string \<Rightarrow> int \<Rightarrow> (('j, 's, 'l) job_world, unit) eff \<Rightarrow> (('j, 's, 'l) job_world, unit) eff" where
  "locked_job lock now name ttl job =
     and_then (on_lock (acquire lock now name ttl))
       (\<lambda>mine. if \<not> mine then ret () else and_then job (\<lambda>_. on_lock (releaseLock lock name)))"

definition rollup_tick :: "'s metric_deps \<Rightarrow> 'l lock_deps option \<Rightarrow> int \<Rightarrow> (('j, 's, 'l) job_world, unit) eff" where
  "rollup_tick d lock now = locked_job lock now ROLLUP_LOCK ROLLUP_TTL_MS (on_metrics (rollupHour d (previousHourStart now)))"

definition runCatchup :: "'s metric_deps \<Rightarrow> 'l lock_deps option \<Rightarrow> int \<Rightarrow> nat \<Rightarrow> (('j, 's, 'l) job_world, unit) eff" where
  "runCatchup d lock now hours = locked_job lock now ROLLUP_LOCK ROLLUP_TTL_MS (on_metrics (catchup d (previousHourStart now) 0 hours))"

definition rollup_bootstrap :: "'s metric_deps \<Rightarrow> 'l lock_deps option \<Rightarrow> int option \<Rightarrow> int \<Rightarrow> (('j, 's, 'l) job_world, unit) eff" where
  "rollup_bootstrap d lock rollupRetentionDays now =
     (if coalesce rollupRetentionDays 365 > 0 then runCatchup d lock now BOOT_CATCHUP_HOURS else ret ())"

subsection \<open>Retention\<close>

record retention =
  rn_windowMs :: int
  rn_rollupWindowMs :: int

definition retention_config :: "int option \<Rightarrow> int option \<Rightarrow> retention" where
  "retention_config retentionDays rollupRetentionDays =
     \<lparr>rn_windowMs = coalesce retentionDays 90 * DAY_MS, rn_rollupWindowMs = coalesce rollupRetentionDays 365 * DAY_MS\<rparr>"

definition prune_all :: "(int \<Rightarrow> ('j, nat) eff) \<Rightarrow> 's metric_deps \<Rightarrow> retention \<Rightarrow> int \<Rightarrow> (('j, 's, 'l) job_world, unit) eff" where
  "prune_all journal d cfg now =
     and_then
       (if rn_windowMs cfg > 0
        then and_then (on_journal (journal (now - rn_windowMs cfg))) (\<lambda>_. and_then (on_metrics (md_prunePoints d (now - rn_windowMs cfg))) (\<lambda>_. ret ()))
        else ret ())
       (\<lambda>_. if rn_rollupWindowMs cfg > 0
             then and_then (on_metrics (md_pruneRollups d (now - rn_rollupWindowMs cfg))) (\<lambda>_. ret ()) else ret ())"

definition prune :: "(int \<Rightarrow> ('j, nat) eff) \<Rightarrow> 's metric_deps \<Rightarrow> 'l lock_deps option \<Rightarrow> retention \<Rightarrow> int \<Rightarrow> (('j, 's, 'l) job_world, unit) eff" where
  "prune journal d lock cfg now =
     locked_job lock now RETENTION_LOCK RETENTION_TTL_MS (try_catch (prune_all journal d cfg now) (\<lambda>e. ret ()))"

text \<open>When the daily prune is scheduled at all, and after what delay of at most \<open>jitter\<close> (a random
  number below 30 seconds) it first runs.\<close>

definition retention_bootstrap :: "'l lock_deps option \<Rightarrow> retention \<Rightarrow> int \<Rightarrow> int option" where
  "retention_bootstrap lock cfg jitter =
     (if rn_windowMs cfg \<le> 0 \<and> rn_rollupWindowMs cfg \<le> 0 then None else Some (case lock of None \<Rightarrow> jitter | Some k \<Rightarrow> 0))"

subsection \<open>What a rollup is keyed by\<close>

lemma aggregate_groups: "aggregateRollups ps HOUR_MS = map snd (group_by (rollup_key HOUR_MS) (new_rollup HOUR_MS) add_rollup ps)"
  by (simp add: aggregateRollups_def HOUR_MS_def)

lemma fold_rollup_id [simp]: "rollup_id_of (fold add_rollup qs r) = rollup_id_of r"
  by (induction qs arbitrary: r) (simp_all add: add_rollup_def rollup_id_of_def)

lemma add_rollup_id [simp]: "rollup_id_of (add_rollup q r) = rollup_id_of r"
  by (simp add: add_rollup_def rollup_id_of_def)

lemma new_rollup_id: "rollup_id_of (new_rollup g q) = (bucket_start g (m_ts q), g, m_method q, m_route q)"
  by (simp add: new_rollup_def rollup_id_of_def)

lemma aggregate_entry:
  assumes "r \<in> set (aggregateRollups ps HOUR_MS)"
  obtains q where "q \<in> set ps" and "rollup_id_of r = (bucket_start HOUR_MS (m_ts q), HOUR_MS, m_method q, m_route q)"
proof -
  from assms obtain k where "(k, r) \<in> set (group_by (rollup_key HOUR_MS) (new_rollup HOUR_MS) add_rollup ps)"
    by (auto simp: aggregate_groups)
  then obtain q qs where f: "filter (\<lambda>p. rollup_key HOUR_MS p = k) ps = q # qs" and r: "r = fold add_rollup (q # qs) (new_rollup HOUR_MS q)"
    by (rule group_by_entry)
  have "q \<in> set ps" using arg_cong [OF f, of set] by auto
  then show ?thesis using that [of q] by (simp add: r new_rollup_id)
qed

lemma rollup_ids_distinct: "distinct (map rollup_id_of (aggregateRollups ps g))"
  using rollup_rows_distinct [of ps g] by (auto simp: distinct_map inj_on_def rollup_id_of_def)

text \<open>Inside one hour the key of a group says its method and route, as a method has no bar.\<close>

lemma bar_split: "CHR ''|'' \<notin> set m \<Longrightarrow> CHR ''|'' \<notin> set m' \<Longrightarrow> m @ CHR ''|'' # r = m' @ CHR ''|'' # r' \<longleftrightarrow> m = m' \<and> r = r'"
  by (induction m arbitrary: m') (case_tac m'; auto)+

lemma find_distinct: "distinct (map f xs) \<Longrightarrow> x \<in> set xs \<Longrightarrow> find (\<lambda>y. f y = f x) xs = Some x"
  by (induction xs) auto

lemma aggregate_hour:
  assumes "\<forall>p \<in> set ps. bucket_start HOUR_MS (m_ts p) = h" and "\<forall>p \<in> set ps. CHR ''|'' \<notin> set (m_method p)"
  shows "find (\<lambda>x. rollup_id_of x = (h, HOUR_MS, m, r)) (aggregateRollups ps HOUR_MS) =
    (case filter (\<lambda>p. m_method p = m \<and> m_route p = r) ps of [] \<Rightarrow> None
     | q # qs \<Rightarrow> Some (fold add_rollup (q # qs) (new_rollup HOUR_MS q)))"
proof (cases "filter (\<lambda>p. m_method p = m \<and> m_route p = r) ps")
  case Nil
  have "rollup_id_of x \<noteq> (h, HOUR_MS, m, r)" if "x \<in> set (aggregateRollups ps HOUR_MS)" for x
    using that Nil by (auto elim!: aggregate_entry simp: filter_empty_conv)
  with Nil show ?thesis by (simp add: find_None_iff)
next
  case (Cons q qs)
  have q: "q \<in> set ps" "m_method q = m" "m_route q = r" using arg_cong [OF Cons, of set] by auto
  let ?k = "rollup_key HOUR_MS q" and ?x = "fold add_rollup (q # qs) (new_rollup HOUR_MS q)"
  have "filter (\<lambda>p. rollup_key HOUR_MS p = ?k) ps = filter (\<lambda>p. m_method p = m \<and> m_route p = r) ps"
    by (rule filter_cong) (use assms q in \<open>auto simp: rollup_key_def bar_split\<close>)
  with Cons have "map_of (group_by (rollup_key HOUR_MS) (new_rollup HOUR_MS) add_rollup ps) ?k = Some ?x"
    by (simp add: group_by_get)
  then have "?x \<in> set (aggregateRollups ps HOUR_MS)" by (force simp: aggregate_groups dest: map_of_SomeD)
  moreover have "rollup_id_of ?x = (h, HOUR_MS, m, r)" using q assms(1) by (simp add: new_rollup_id)
  ultimately show ?thesis using find_distinct [OF rollup_ids_distinct, of ?x ps HOUR_MS] Cons by simp
qed

lemma fold_add_rollup:
  "ru_count (fold add_rollup qs r) = ru_count r + int (length qs)"
  "ru_errorCount (fold add_rollup qs r) = ru_errorCount r + int (length (filter (\<lambda>p. is_error (m_status p)) qs))"
  "ru_totalDurationMs (fold add_rollup qs r) = ru_totalDurationMs r + sum_list (map duration qs)"
  by (induction qs arbitrary: r) (simp_all add: add_rollup_def)

section \<open>The contract of the metric repository\<close>

locale metric_repository =
  fixes deps :: "'s metric_deps" and points_of :: "'s \<Rightarrow> metric list" and rollup_at :: "'s \<Rightarrow> rollup_id \<Rightarrow> rollup option"
  assumes points_law: "md_points deps q s = (res, s') \<Longrightarrow> points_of s' = points_of s \<and> rollup_at s' = rollup_at s \<and>
      (\<forall>ps. res = Inr ps \<longrightarrow> mq_limit q = None \<longrightarrow> ps = sort_key (\<lambda>p. - m_ts p) (filter (matchPoint q) (points_of s)))"
    and recordRollups_law: "md_recordRollups deps rs s = (don, s') \<Longrightarrow> points_of s' = points_of s \<and>
      (distinct (map rollup_id_of rs) \<longrightarrow> (\<forall>u. don = Inr u \<longrightarrow>
         (\<forall>k. rollup_at s' k = (case find (\<lambda>r. rollup_id_of r = k) rs of Some r \<Rightarrow> Some r | None \<Rightarrow> rollup_at s k))))"
begin

lemma rollupHour_points: "points_of (snd (rollupHour deps h s)) = points_of s"
proof -
  obtain r1 s1 where p: "md_points deps (hour_query h) s = (r1, s1)" by fastforce
  obtain r2 s2 where rec: "md_recordRollups deps (aggregateRollups (case r1 of Inr ps \<Rightarrow> ps | Inl e \<Rightarrow> []) HOUR_MS) s1 = (r2, s2)" by fastforce
  from points_law [OF p] recordRollups_law [OF rec] p rec show ?thesis
    by (cases r1; cases r2) (auto simp: rollupHour_def try_catch_def and_then_def)
qed

end

text \<open>A repository that is up.\<close>

locale reliable_metric_repository = metric_repository deps points_of rollup_at
  for deps :: "'s metric_deps" and points_of :: "'s \<Rightarrow> metric list" and rollup_at :: "'s \<Rightarrow> rollup_id \<Rightarrow> rollup option" +
  assumes points_answers: "\<exists>ps. fst (md_points deps q s) = Inr ps"
    and record_answers: "\<exists>u. fst (md_recordRollups deps rs s) = Inr u"
begin

definition hour_points :: "int \<Rightarrow> 's \<Rightarrow> metric list" where
  "hour_points h s = sort_key (\<lambda>p. - m_ts p) (filter (matchPoint (hour_query h)) (points_of s))"

lemma rollupHour_at:
  "rollup_at (snd (rollupHour deps h s)) k =
     (case find (\<lambda>r. rollup_id_of r = k) (aggregateRollups (hour_points h s) HOUR_MS) of Some r \<Rightarrow> Some r | None \<Rightarrow> rollup_at s k)"
proof -
  obtain s1 where p: "md_points deps (hour_query h) s = (Inr (hour_points h s), s1)" and r1: "rollup_at s1 = rollup_at s"
  proof -
    obtain res s1 where q: "md_points deps (hour_query h) s = (res, s1)" by fastforce
    obtain ps where res: "res = Inr ps" using points_answers [of "hour_query h" s] q by auto
    have "mq_limit (hour_query h) = None" by (simp add: hour_query_def any_query_def)
    with points_law [OF q] res have "ps = hour_points h s" "rollup_at s1 = rollup_at s" by (simp_all add: hour_points_def)
    with q res that show ?thesis by simp
  qed
  obtain s2 where rec: "md_recordRollups deps (aggregateRollups (hour_points h s) HOUR_MS) s1 = (Inr (), s2)"
    using record_answers [of "aggregateRollups (hour_points h s) HOUR_MS" s1]
    by (cases "md_recordRollups deps (aggregateRollups (hour_points h s) HOUR_MS) s1") auto
  have d: "distinct (map rollup_id_of (aggregateRollups (hour_points h s) HOUR_MS))" by (rule rollup_ids_distinct)
  show ?thesis
  proof (cases "hour_points h s = []")
    case True
    with p r1 show ?thesis by (simp add: rollupHour_def try_catch_def and_then_def aggregateRollups_def group_by_def)
  next
    case False
    have run: "rollupHour deps h s = (Inr (), s2)"
      using p rec False by (simp add: rollupHour_def try_catch_def and_then_def)
    show ?thesis unfolding run snd_conv r1 [symmetric] using recordRollups_law [OF rec] d by blast
  qed
qed

lemma rollupHour_again: "rollup_at (snd (rollupHour deps h (snd (rollupHour deps h s)))) = rollup_at (snd (rollupHour deps h s))"
proof
  fix k
  have "hour_points h (snd (rollupHour deps h s)) = hour_points h s" by (simp add: hour_points_def rollupHour_points)
  then show "rollup_at (snd (rollupHour deps h (snd (rollupHour deps h s)))) k = rollup_at (snd (rollupHour deps h s)) k"
    by (simp add: rollupHour_at [of h "snd (rollupHour deps h s)"]) (simp add: rollupHour_at split: option.split)
qed

end

definition mem_rollup_at :: "metric_store \<Rightarrow> rollup_id \<Rightarrow> rollup option" where
  "mem_rollup_at s k = find (\<lambda>r. rollup_id_of r = k) (ms_rollups s)"

lemma find_filter_other: "k \<noteq> k' \<Longrightarrow> find (\<lambda>r. g r = k) (filter (\<lambda>x. g x \<noteq> k') xs) = find (\<lambda>r. g r = k) xs"
  by (induction xs) auto

lemma find_filter_same: "find (\<lambda>r. g r = k) (filter (\<lambda>x. g x \<noteq> k) xs) = None"
  by (induction xs) auto

lemma find_snoc: "find P (xs @ [x]) = (case find P xs of Some y \<Rightarrow> Some y | None \<Rightarrow> if P x then Some x else None)"
  by (induction xs) auto

lemma put_rollup_at: "mem_rollup_at (put_rollup r s) k = (if k = rollup_id_of r then Some r else mem_rollup_at s k)"
  by (auto simp: mem_rollup_at_def put_rollup_def find_snoc find_filter_same find_filter_other split: option.split)

lemma put_rollups_at:
  "distinct (map rollup_id_of rs) \<Longrightarrow>
   mem_rollup_at (fold put_rollup rs s) k = (case find (\<lambda>r. rollup_id_of r = k) rs of Some r \<Rightarrow> Some r | None \<Rightarrow> mem_rollup_at s k)"
proof (induction rs arbitrary: s)
  case (Cons r rs)
  have "find (\<lambda>r. rollup_id_of r = k) rs = None" if "k = rollup_id_of r"
    using Cons.prems that by (simp add: find_None_iff) (metis image_eqI)
  with Cons show ?case by (auto simp: put_rollup_at split: option.split)
qed simp

lemma put_rollups_points: "ms_points (fold put_rollup rs s) = ms_points s"
  by (induction rs arbitrary: s) (simp_all add: put_rollup_def)

interpretation mm: reliable_metric_repository mem_metrics ms_points mem_rollup_at
proof
  fix q s res s'
  assume "md_points mem_metrics q s = (res, s')"
  then show "ms_points s' = ms_points s \<and> mem_rollup_at s' = mem_rollup_at s \<and>
      (\<forall>ps. res = Inr ps \<longrightarrow> mq_limit q = None \<longrightarrow> ps = sort_key (\<lambda>p. - m_ts p) (filter (matchPoint q) (ms_points s)))"
    by (auto simp: mem_metrics_def im_points_def limited_def)
next
  fix rs s res s'
  assume "md_recordRollups mem_metrics rs s = (res, s')"
  then show "ms_points s' = ms_points s \<and>
      (distinct (map rollup_id_of rs) \<longrightarrow> (\<forall>u. res = Inr u \<longrightarrow>
         (\<forall>k. mem_rollup_at s' k = (case find (\<lambda>r. rollup_id_of r = k) rs of Some r \<Rightarrow> Some r | None \<Rightarrow> mem_rollup_at s k))))"
    by (auto simp: mem_metrics_def im_recordRollups_def put_rollups_points put_rollups_at)
next
  show "\<exists>ps. fst (md_points mem_metrics q s) = Inr ps" for q s by (simp add: mem_metrics_def im_points_def)
  show "\<exists>u. fst (md_recordRollups mem_metrics rs s) = Inr u" for rs s by (simp add: mem_metrics_def im_recordRollups_def)
qed


section \<open>The contract of the scheduler lock\<close>

locale scheduler_lock =
  fixes lock :: "'l lock_deps" and lease :: "'l \<Rightarrow> string \<Rightarrow> int option"
  assumes acquire_law: "lk_tryAcquire lock now n ttl l = (res, l') \<Longrightarrow>
      res = Inr (case lease l n of None \<Rightarrow> True | Some t \<Rightarrow> t \<le> now) \<and>
      lease l' n = (if res = Inr True then Some (now + ttl) else lease l n)"
begin

definition run_step :: "string \<Rightarrow> int \<Rightarrow> nat \<times> int \<Rightarrow> 'l \<times> (nat \<times> int) list \<Rightarrow> 'l \<times> (nat \<times> int) list" where
  "run_step n ttl tick st =
     (case tick of (i, now) \<Rightarrow> case acquire (Some lock) now n ttl (fst st) of
        (res, l') \<Rightarrow> (l', if res = Inr True then snd st @ [(i, now)] else snd st))"

definition done_step :: "string \<Rightarrow> nat \<Rightarrow> 'l \<times> (nat \<times> int) list \<Rightarrow> 'l \<times> (nat \<times> int) list" where
  "done_step n i st =
     (if i \<in> fst ` set (snd st)
      then (snd (releaseLock (Some lock) n (fst st)), filter (\<lambda>r. fst r \<noteq> i) (snd st)) else st)"

definition exclusive :: "string \<Rightarrow> int \<Rightarrow> 'l \<times> (nat \<times> int) list \<Rightarrow> bool" where
  "exclusive n ttl st \<longleftrightarrow> snd st = [] \<or> (\<exists>i t. snd st = [(i, t)] \<and> lease (fst st) n = Some (t + ttl))"

lemma acquire_reliable:
  "acquire (Some lock) now n ttl l = (Inr (case lease l n of None \<Rightarrow> True | Some t \<Rightarrow> t \<le> now), snd (lk_tryAcquire lock now n ttl l))"
proof -
  obtain res l' where q: "lk_tryAcquire lock now n ttl l = (res, l')" by fastforce
  from acquire_law [OF q] q show ?thesis by (simp add: acquire_def try_catch_def)
qed

lemma run_exclusive:
  assumes "exclusive n ttl st" and "\<forall>(i, t) \<in> set (snd st). now < t + ttl"
  shows "exclusive n ttl (run_step n ttl (j, now) st)"
proof -
  obtain res l' where q: "lk_tryAcquire lock now n ttl (fst st) = (res, l')" by fastforce
  note law = acquire_law [OF q]
  show ?thesis
  proof (cases "snd st = []")
    case True
    with law q show ?thesis by (auto simp: exclusive_def run_step_def acquire_reliable)
  next
    case False
    with assms obtain i t where r: "snd st = [(i, t)]" "lease (fst st) n = Some (t + ttl)" "now < t + ttl"
      by (auto simp: exclusive_def)
    with law q show ?thesis by (auto simp: exclusive_def run_step_def acquire_reliable)
  qed
qed

lemma done_exclusive: "exclusive n ttl st \<Longrightarrow> exclusive n ttl (done_step n i st)"
  by (auto simp: exclusive_def done_step_def)

lemma exclusive_one: "exclusive n ttl st \<Longrightarrow> length (snd st) \<le> 1"
  by (auto simp: exclusive_def)

end

interpretation sl: scheduler_lock mem_lock map_of
proof
  fix now n ttl l res l'
  assume "lk_tryAcquire mem_lock now n ttl l = (res, l')"
  then show "res = Inr (case map_of l n of None \<Rightarrow> True | Some t \<Rightarrow> t \<le> now) \<and>
      map_of l' n = (if res = Inr True then Some (now + ttl) else map_of l n)"
    by (auto simp: mem_lock_def il_tryAcquire_def om_simps split: option.splits if_splits)
qed

text \<open>The runs of one job by several instances: an instance ticks, or the one running is done.\<close>

datatype run_event = RunTick nat int | RunDone nat int

fun run_event_step :: "string \<Rightarrow> int \<Rightarrow> run_event \<Rightarrow> leases \<times> (nat \<times> int) list \<Rightarrow> leases \<times> (nat \<times> int) list" where
  "run_event_step n ttl (RunTick i now) st =
     (case acquire (Some mem_lock) now n ttl (fst st) of
        (res, l') \<Rightarrow> (l', if res = Inr True then snd st @ [(i, now)] else snd st))"
| "run_event_step n ttl (RunDone i now) st =
     (if i \<in> fst ` set (snd st)
      then (snd (releaseLock (Some mem_lock) n (fst st)), filter (\<lambda>r. fst r \<noteq> i) (snd st)) else st)"

fun event_time :: "run_event \<Rightarrow> int" where
  "event_time (RunTick i now) = now"
| "event_time (RunDone i now) = now"

text \<open>Whatever happens, happens before the lease of a running job is over.\<close>

fun timely :: "string \<Rightarrow> int \<Rightarrow> run_event list \<Rightarrow> leases \<times> (nat \<times> int) list \<Rightarrow> bool" where
  "timely n ttl [] st = True"
| "timely n ttl (e # es) st = (list_all (\<lambda>(i, t). event_time e < t + ttl) (snd st) \<and> timely n ttl es (run_event_step n ttl e st))"

definition runs :: "string \<Rightarrow> int \<Rightarrow> run_event list \<Rightarrow> leases \<times> (nat \<times> int) list \<Rightarrow> leases \<times> (nat \<times> int) list" where
  "runs n ttl es st = fold (run_event_step n ttl) es st"

lemma run_event_exclusive:
  assumes "sl.exclusive n ttl st" and "list_all (\<lambda>(i, t). event_time e < t + ttl) (snd st)"
  shows "sl.exclusive n ttl (run_event_step n ttl e st)"
proof (cases e)
  case (RunTick i now)
  with sl.run_exclusive [OF assms(1), of now i] assms(2) show ?thesis by (simp add: sl.run_step_def list_all_iff)
next
  case (RunDone i now)
  with sl.done_exclusive [OF assms(1), of i] show ?thesis by (simp add: sl.done_step_def)
qed

lemma runs_exclusive: "timely n ttl es st \<Longrightarrow> sl.exclusive n ttl st \<Longrightarrow> sl.exclusive n ttl (runs n ttl es st)"
proof (induction es arbitrary: st)
  case (Cons e es)
  have "sl.exclusive n ttl (run_event_step n ttl e st)" by (rule run_event_exclusive) (use Cons.prems in simp_all)
  moreover have "timely n ttl es (run_event_step n ttl e st)" using Cons.prems by simp
  ultimately show ?case using Cons.IH by (simp add: runs_def)
qed (simp add: runs_def)

section \<open>What one hourly run stores\<close>

definition calls_in :: "int \<Rightarrow> string \<Rightarrow> string \<Rightarrow> metric list \<Rightarrow> metric list" where
  "calls_in h m r ps = filter (\<lambda>p. h \<le> m_ts p \<and> m_ts p < h + HOUR_MS \<and> m_method p = m \<and> m_route p = r) ps"

lemma HOUR_pos: "0 < HOUR_MS"
  by (simp add: HOUR_MS_def)

lemma bucket_start_iff: "0 < g \<Longrightarrow> g dvd h \<Longrightarrow> bucket_start g t = h \<longleftrightarrow> h \<le> t \<and> t < h + g"
proof -
  assume "0 < g" and "g dvd h"
  then obtain k where h: "h = g * k" by blast
  have "t div g = k" if "g * k \<le> t" "t < g * k + g"
    by (rule int_div_pos_eq [of _ _ _ "t - g * k"]) (use that in simp_all)
  moreover have "g * (t div g) \<le> t \<and> t < g * (t div g) + g"
    using pos_mod_bound [OF \<open>0 < g\<close>, of t] pos_mod_sign [OF \<open>0 < g\<close>, of t] mult_div_mod_eq [of g t] by linarith
  ultimately have "t div g = k \<longleftrightarrow> g * k \<le> t \<and> t < g * k + g" by blast
  then show ?thesis using \<open>0 < g\<close> by (auto simp: bucket_start_def h)
qed

lemma hour_query_iff: "matchPoint (hour_query h) p \<longleftrightarrow> h \<le> m_ts p \<and> m_ts p < h + HOUR_MS"
  by (auto simp: matchPoint_def hour_query_def any_query_def wanted_def in_range_def)

lemma sum_sorted: "sum_list (map f (sort_key k xs)) = sum_list (map f xs)" for f :: "_ \<Rightarrow> int"
  by (metis mset_map mset_sort sum_mset_sum_list)

lemma calls_in_hour:
  "filter (\<lambda>p. m_method p = m \<and> m_route p = r) (mm.hour_points h s) = sort_key (\<lambda>p. - m_ts p) (calls_in h m r (ms_points s))"
  by (simp add: mm.hour_points_def filter_sort hour_query_iff calls_in_def conj_ac)

lemma rollupHour_entry:
  assumes "HOUR_MS dvd h" and "\<forall>p \<in> set (ms_points s). CHR ''|'' \<notin> set (m_method p)"
  shows "mem_rollup_at (snd (rollupHour mem_metrics h s)) (h, HOUR_MS, m, r) =
    (case sort_key (\<lambda>p. - m_ts p) (calls_in h m r (ms_points s)) of [] \<Rightarrow> mem_rollup_at s (h, HOUR_MS, m, r)
     | q # qs \<Rightarrow> Some (fold add_rollup (q # qs) (new_rollup HOUR_MS q)))"
proof -
  have "\<forall>p \<in> set (mm.hour_points h s). bucket_start HOUR_MS (m_ts p) = h"
    by (simp add: mm.hour_points_def hour_query_iff bucket_start_iff [OF HOUR_pos assms(1)])
  moreover have "\<forall>p \<in> set (mm.hour_points h s). CHR ''|'' \<notin> set (m_method p)" using assms(2) by (simp add: mm.hour_points_def)
  ultimately show ?thesis
    unfolding mm.rollupHour_at by (simp add: aggregate_hour calls_in_hour split: list.split)
qed

lemma rollupHour_other:
  assumes "HOUR_MS dvd h" and "h' \<noteq> h \<or> g \<noteq> HOUR_MS"
  shows "mem_rollup_at (snd (rollupHour mem_metrics h s)) (h', g, m, r) = mem_rollup_at s (h', g, m, r)"
proof -
  have "rollup_id_of x \<noteq> (h', g, m, r)" if "x \<in> set (aggregateRollups (mm.hour_points h s) HOUR_MS)" for x
  proof -
    from that obtain q where "q \<in> set (mm.hour_points h s)" "rollup_id_of x = (bucket_start HOUR_MS (m_ts q), HOUR_MS, m_method q, m_route q)"
      by (rule aggregate_entry)
    with assms show ?thesis by (auto simp: mm.hour_points_def hour_query_iff bucket_start_iff [OF HOUR_pos assms(1), symmetric])
  qed
  then have "find (\<lambda>x. rollup_id_of x = (h', g, m, r)) (aggregateRollups (mm.hour_points h s) HOUR_MS) = None"
    by (simp add: find_None_iff)
  then show ?thesis by (simp add: mm.rollupHour_at)
qed

section \<open>The hours the ticks cover\<close>

lemma next_hour:
  assumes "a \<le> b" and "b \<le> a + HOUR_MS"
  shows "previousHourStart b = previousHourStart a \<or> previousHourStart b = previousHourStart a + HOUR_MS"
proof -
  have "a div HOUR_MS \<le> b div HOUR_MS" using assms(1) HOUR_pos by (simp add: zdiv_mono1)
  moreover have "b div HOUR_MS \<le> (a + HOUR_MS) div HOUR_MS" by (rule zdiv_mono1 [OF assms(2) HOUR_pos])
  moreover have "(a + HOUR_MS) div HOUR_MS = a div HOUR_MS + 1" using HOUR_pos by simp
  ultimately have "b div HOUR_MS = a div HOUR_MS \<or> b div HOUR_MS = a div HOUR_MS + 1" by linarith
  then show ?thesis by (auto simp: previousHourStart_def algebra_simps)
qed

fun ticking :: "int list \<Rightarrow> bool" where
  "ticking (a # b # ts) = (a \<le> b \<and> b \<le> a + HOUR_MS \<and> ticking (b # ts))"
| "ticking ts = True"

lemma ticking_covers:
  assumes "ticking (t # ts)" and "HOUR_MS dvd h" and "previousHourStart t \<le> h" and "h \<le> previousHourStart (last (t # ts))"
  shows "h \<in> previousHourStart ` set (t # ts)"
  using assms
proof (induction ts arbitrary: t)
  case Nil
  then show ?case by simp
next
  case (Cons b ts)
  have al: "HOUR_MS dvd previousHourStart t" by (simp add: previousHourStart_def)
  have step: "previousHourStart b = previousHourStart t \<or> previousHourStart b = previousHourStart t + HOUR_MS"
    by (rule next_hour) (use Cons.prems(1) in simp_all)
  show ?case
  proof (cases "h = previousHourStart t")
    case False
    have "previousHourStart t + HOUR_MS \<le> h"
    proof -
      obtain x y where "h = HOUR_MS * x" "previousHourStart t = HOUR_MS * y" using Cons.prems(2) al by (auto simp: dvd_def)
      with False Cons.prems(3) show ?thesis using HOUR_pos mult_left_mono [of "y + 1" x HOUR_MS] by (auto simp: algebra_simps)
    qed
    with step have "previousHourStart b \<le> h" using HOUR_pos by auto
    with Cons show ?thesis by auto
  qed simp
qed

section \<open>Properties\<close>



text \<open>A run that outlives its lease releases the lease of the run that followed it, and a third one
  joins while that lease is still valid.\<close>

lemma late_release_drops_a_peer:
  "length (snd (runs ''job'' 10 [RunTick 1 0, RunTick 2 11, RunDone 1 12, RunTick 3 13] ([], []))) = 2"
  by code_simp

text \<open>A tick whose lock backend fails runs the job anyway, as documented, and then releases a lease
  that another instance holds.\<close>

lemma failed_acquire_releases_a_peer:
  "jw_lock (snd (locked_job (Some (mem_lock\<lparr>lk_tryAcquire := \<lambda>now n ttl. throw (generic_error ''down'')\<rparr>)) 5 ''job'' 10 (ret ())
     \<lparr>jw_journal = (), jw_metrics = (), jw_lock = [(''job'', 9)]\<rparr>)) = []"
  by code_simp

text \<open>C17: An hourly run stores the hour exactly. For a whole hour and methods without a bar, each route
  called in that hour gets one rollup with the count, the errors and the total duration of its
  calls, a route not called keeps what was stored, the other hours are untouched, and a second
  run changes nothing.\<close>

theorem hourly_rollup_exact:
  assumes "HOUR_MS dvd h" and "\<forall>p \<in> set (ms_points s). CHR ''|'' \<notin> set (m_method p)"
  shows "let s' = snd (rollupHour mem_metrics h s); calls = calls_in h m r (ms_points s) in
     (calls = [] \<longrightarrow> mem_rollup_at s' (h, HOUR_MS, m, r) = mem_rollup_at s (h, HOUR_MS, m, r)) \<and>
     (calls \<noteq> [] \<longrightarrow> (\<exists>x. mem_rollup_at s' (h, HOUR_MS, m, r) = Some x \<and> ru_count x = int (length calls) \<and>
        ru_errorCount x = int (length (filter (\<lambda>p. is_error (m_status p)) calls)) \<and>
        ru_totalDurationMs x = sum_list (map duration calls))) \<and>
     (\<forall>h' g. h' \<noteq> h \<or> g \<noteq> HOUR_MS \<longrightarrow> mem_rollup_at s' (h', g, m, r) = mem_rollup_at s (h', g, m, r)) \<and>
     ms_points s' = ms_points s \<and> mem_rollup_at (snd (rollupHour mem_metrics h s')) = mem_rollup_at s'"
proof -
  let ?calls = "calls_in h m r (ms_points s)" and ?s = "snd (rollupHour mem_metrics h s)"
  let ?sorted = "sort_key (\<lambda>p. - m_ts p) ?calls"
  have "\<exists>x. mem_rollup_at ?s (h, HOUR_MS, m, r) = Some x \<and> ru_count x = int (length ?calls) \<and>
      ru_errorCount x = int (length (filter (\<lambda>p. is_error (m_status p)) ?calls)) \<and> ru_totalDurationMs x = sum_list (map duration ?calls)"
    if "?calls \<noteq> []"
  proof -
    from that have "?sorted \<noteq> []" by (metis length_0_conv length_sort)
    then obtain q qs where q: "?sorted = q # qs" by (cases ?sorted) auto
    let ?x = "fold add_rollup ?sorted (new_rollup HOUR_MS q)"
    have "mem_rollup_at ?s (h, HOUR_MS, m, r) = Some ?x" using rollupHour_entry [OF assms, of m r] q by simp
    moreover have "ru_count ?x = int (length ?calls)" "ru_totalDurationMs ?x = sum_list (map duration ?calls)"
      by (simp_all add: fold_add_rollup sum_sorted new_rollup_def)
    moreover have "ru_errorCount ?x = int (length (filter (\<lambda>p. is_error (m_status p)) ?calls))"
      by (simp add: fold_add_rollup new_rollup_def filter_sort)
    ultimately show ?thesis by blast
  qed
  moreover have "mem_rollup_at ?s (h, HOUR_MS, m, r) = mem_rollup_at s (h, HOUR_MS, m, r)" if "?calls = []"
    using rollupHour_entry [OF assms, of m r] that by simp
  ultimately show ?thesis
    using rollupHour_other [OF assms(1)] mm.rollupHour_points mm.rollupHour_again by (simp add: Let_def)
qed

definition demo_store :: metric_store where
  "demo_store = \<lparr>ms_counters = [], ms_points = demo_points, ms_rollups = []\<rparr>"

theorem hourly_rollup_exact_witness:
  "\<exists>x. mem_rollup_at (snd (rollupHour mem_metrics 0 demo_store)) (0, HOUR_MS, ''GET'', ''/a'') = Some x \<and> ru_count x = 2"
proof -
  have "calls_in 0 ''GET'' ''/a'' (ms_points demo_store) = take 2 demo_points"
    by (simp add: calls_in_def demo_store_def demo_points_def HOUR_MS_def)
  moreover have "length (take 2 demo_points) = 2" by (simp add: demo_points_def)
  ultimately show ?thesis
    using hourly_rollup_exact [of 0 demo_store "''GET''" "''/a''"] by (auto simp: Let_def demo_store_def demo_points_def)
qed

text \<open>Ticks that are at most an hour apart skip no hour: every whole hour from the one the first
  tick rolls up to the one the last tick rolls up is the hour of some tick.\<close>

theorem ticks_skip_no_hour:
  assumes "ticking (t # ts)" and "HOUR_MS dvd h" and "previousHourStart t \<le> h" and "h \<le> previousHourStart (last (t # ts))"
  shows "h \<in> previousHourStart ` set (t # ts)"
  by (rule ticking_covers [OF assms])

theorem ticks_skip_no_hour_witness: "2 * HOUR_MS \<in> previousHourStart ` {3 * HOUR_MS - 1, 3 * HOUR_MS + 5, 4 * HOUR_MS}"
  using ticks_skip_no_hour [of "3 * HOUR_MS - 1" "[3 * HOUR_MS + 5, 4 * HOUR_MS]" "2 * HOUR_MS"]
  by (simp add: previousHourStart_def HOUR_MS_def)

text \<open>A tick one millisecond late, just over an hour boundary, skips an hour.\<close>

lemma late_tick_skips_an_hour:
  "previousHourStart (13 * HOUR_MS - 1) = 11 * HOUR_MS \<and> previousHourStart (13 * HOUR_MS - 1 + HOUR_MS + 1) = 13 * HOUR_MS"
  by (simp add: previousHourStart_def HOUR_MS_def)

text \<open>The daily prune keeps the window and never throws. An instance that has the lock removes
  exactly the points older than the retention window and the rollups older than the rollup
  window, keeps everything when that window is off, and keeps the counters; an instance that has
  not the lock changes neither the journal nor the metrics.\<close>

theorem retention_keeps_window:
  assumes "fst (acquire lock now RETENTION_LOCK RETENTION_TTL_MS (jw_lock w)) = Inr mine"
    and "fst (journal (now - rn_windowMs cfg) (jw_journal w)) = Inr n"
  shows "let res = prune journal mem_metrics lock cfg now w; s = jw_metrics w; s' = jw_metrics (snd res) in
     fst res = Inr () \<and>
     (if mine then
        ms_points s' = (if rn_windowMs cfg > 0 then filter (\<lambda>p. now - rn_windowMs cfg \<le> m_ts p) (ms_points s) else ms_points s) \<and>
        ms_rollups s' = (if rn_rollupWindowMs cfg > 0 then filter (\<lambda>r. now - rn_rollupWindowMs cfg \<le> ru_bucketStart r) (ms_rollups s) else ms_rollups s) \<and>
        ms_counters s' = ms_counters s
      else jw_journal (snd res) = jw_journal w \<and> s' = s)"
proof -
  obtain l where a: "acquire lock now RETENTION_LOCK RETENTION_TTL_MS (jw_lock w) = (Inr mine, l)"
    using assms(1) by (cases "acquire lock now RETENTION_LOCK RETENTION_TTL_MS (jw_lock w)") simp
  obtain j where j: "journal (now - rn_windowMs cfg) (jw_journal w) = (Inr n, j)"
    using assms(2) by (cases "journal (now - rn_windowMs cfg) (jw_journal w)") simp
  have rel: "\<exists>l'. releaseLock lock RETENTION_LOCK x = (Inr (), l')" for x
    by (auto simp: releaseLock_def try_catch_def split: option.splits prod.splits sum.splits)
  obtain l' where r: "releaseLock lock RETENTION_LOCK l = (Inr (), l')" using rel by blast
  have nl: "(\<not> x < y) = (y \<le> x)" for x y :: int by auto
  show ?thesis
    by (cases mine; cases "rn_windowMs cfg > 0"; cases "rn_rollupWindowMs cfg > 0")
      (simp_all add: prune_def locked_job_def prune_all_def and_then_def try_catch_def on_lock_def on_journal_def on_metrics_def
        a j r mem_metrics_def im_prunePoints_def im_pruneRollups_def nl)
qed

definition held_world :: "int \<Rightarrow> (unit, metric_store, leases) job_world" where
  "held_world t = \<lparr>jw_journal = (), jw_metrics = demo_store, jw_lock = [(RETENTION_LOCK, t)]\<rparr>"

theorem retention_keeps_window_witness:
  "ms_points (jw_metrics (snd (prune (\<lambda>t. ret 0) mem_metrics (Some mem_lock) \<lparr>rn_windowMs = 10, rn_rollupWindowMs = 0\<rparr> 31 (held_world 30)))) =
     filter (\<lambda>p. 21 \<le> m_ts p) demo_points \<and>
   jw_metrics (snd (prune (\<lambda>t. ret 0) mem_metrics (Some mem_lock) \<lparr>rn_windowMs = 10, rn_rollupWindowMs = 0\<rparr> 31 (held_world 40))) = demo_store"
  using retention_keeps_window [where lock = "Some mem_lock" and now = 31 and w = "held_world 30" and mine = True and journal = "\<lambda>t. ret 0"
      and cfg = "\<lparr>rn_windowMs = 10, rn_rollupWindowMs = 0\<rparr>" and n = 0]
    retention_keeps_window [where lock = "Some mem_lock" and now = 31 and w = "held_world 40" and mine = False and journal = "\<lambda>t. ret 0"
      and cfg = "\<lparr>rn_windowMs = 10, rn_rollupWindowMs = 0\<rparr>" and n = 0]
  by (simp add: Let_def held_world_def demo_store_def acquire_def mem_lock_def il_tryAcquire_def try_catch_def)

section \<open>Counters and points\<close>

text \<open>In a store that nothing has pruned, the counters are the totals of the points.\<close>

definition route_points :: "string \<Rightarrow> string \<Rightarrow> metric list \<Rightarrow> metric list" where
  "route_points m r ps = filter (\<lambda>p. m_method p = m \<and> m_route p = r) ps"

definition counter_exact :: "metric list \<Rightarrow> http_metric \<Rightarrow> bool" where
  "counter_exact ps c \<longleftrightarrow> (let mine = route_points (hm_method c) (hm_route c) ps in
     hm_count c = int (length mine) \<and> hm_errorCount c = int (length (filter (\<lambda>p. is_error (m_status p)) mine)) \<and>
     hm_totalDurationMs c = sum_list (map duration mine))"

definition counter_route :: "http_metric \<Rightarrow> string \<times> string" where
  "counter_route c = (hm_method c, hm_route c)"

definition counters_exact :: "metric_store \<Rightarrow> bool" where
  "counters_exact s \<longleftrightarrow> distinct (map counter_route (ms_counters s)) \<and>
     set (map counter_route (ms_counters s)) = (\<lambda>p. (m_method p, m_route p)) ` set (ms_points s) \<and>
     list_all (counter_exact (ms_points s)) (ms_counters s)"

lemma same_route_iff: "same_route i c \<longleftrightarrow> counter_route c = (ti_method i, ti_route i)"
  by (simp add: same_route_def counter_route_def)

lemma bump_route [simp]: "counter_route (bump_counter now i c) = counter_route c"
  by (simp add: counter_route_def bump_counter_def)

lemma update_first_routes [simp]: "map counter_route (update_first P (bump_counter now i) cs) = map counter_route cs"
  by (induction cs) simp_all

lemma update_first_image [simp]: "counter_route ` set (update_first P (bump_counter now i) cs) = counter_route ` set cs"
  by (induction cs) simp_all

lemma update_first_all:
  assumes "distinct (map f cs)" and "\<forall>c \<in> set cs. Q c"
    and "\<And>c. f c \<noteq> k \<Longrightarrow> Q c \<Longrightarrow> Q' c" and "\<And>c. f c = k \<Longrightarrow> Q c \<Longrightarrow> Q' (g c)"
  shows "\<forall>c \<in> set (update_first (\<lambda>x. f x = k) g cs). Q' c"
  using assms(1,2)
proof (induction cs)
  case (Cons x cs)
  have "f c \<noteq> f x" if "c \<in> set cs" for c using Cons.prems(1) that by (auto simp: image_iff)
  with Cons assms(3,4) show ?case by (cases "f x = k") auto
qed simp

lemma route_points_snoc:
  "route_points m r (ps @ [point_of now i]) = route_points m r ps @ (if m = ti_method i \<and> r = ti_route i then [point_of now i] else [])"
  by (auto simp: route_points_def point_of_def)

lemma counter_exact_other:
  "counter_route c \<noteq> (ti_method i, ti_route i) \<Longrightarrow> counter_exact (ps @ [point_of now i]) c = counter_exact ps c"
  unfolding counter_exact_def route_points_snoc counter_route_def by (simp add: if_not_P)

lemma find_key: "find (\<lambda>c. f c = k) cs = None \<longleftrightarrow> k \<notin> set (map f cs)"
  by (induction cs) auto

lemma counter_exact_bump:
  "counter_route c = (ti_method i, ti_route i) \<Longrightarrow> counter_exact ps c \<Longrightarrow> counter_exact (ps @ [point_of now i]) (bump_counter now i c)"
  by (auto simp: counter_exact_def route_points_def counter_route_def point_of_def bump_counter_def duration_def Let_def)

lemma counter_exact_new:
  "route_points (ti_method i) (ti_route i) ps = [] \<Longrightarrow> counter_exact (ps @ [point_of now i]) (new_counter now i)"
  by (auto simp: counter_exact_def route_points_def point_of_def new_counter_def duration_def Let_def)

lemma track_mem:
  "track mem_metrics now i s =
     (if ti_method i = [] \<or> ti_route i = [] then (Inr (), s)
      else (Inr (), s\<lparr>ms_points := ms_points s @ [point_of now i],
        ms_counters := if find (same_route i) (ms_counters s) = None then ms_counters s @ [new_counter now i]
          else update_first (same_route i) (bump_counter now i) (ms_counters s)\<rparr>))"
  by (simp add: track_def try_catch_def and_then_def mem_metrics_def im_record_def im_increment_def)

lemma track_counters_exact:
  assumes "counters_exact s"
  shows "counters_exact (snd (track mem_metrics now i s))"
proof (cases "ti_method i = [] \<or> ti_route i = []")
  case True
  with assms show ?thesis by (simp add: track_mem)
next
  case False
  let ?k = "(ti_method i, ti_route i)" and ?ps = "ms_points s @ [point_of now i]"
  from assms have d: "distinct (map counter_route (ms_counters s))"
    and keys: "set (map counter_route (ms_counters s)) = (\<lambda>p. (m_method p, m_route p)) ` set (ms_points s)"
    and all: "\<forall>c \<in> set (ms_counters s). counter_exact (ms_points s) c" by (simp_all add: counters_exact_def list_all_iff)
  have sr: "same_route i = (\<lambda>c. counter_route c = ?k)" by (rule ext) (simp add: same_route_iff)
  have p: "(m_method (point_of now i), m_route (point_of now i)) = ?k" by (simp add: point_of_def)
  show ?thesis
  proof (cases "?k \<in> set (map counter_route (ms_counters s))")
    case True
    then have found: "find (same_route i) (ms_counters s) \<noteq> None" unfolding sr find_key by simp
    have "\<forall>c \<in> set (update_first (same_route i) (bump_counter now i) (ms_counters s)). counter_exact ?ps c"
      unfolding sr by (rule update_first_all [OF d all]) (simp_all add: counter_exact_other counter_exact_bump)
    moreover have "snd (track mem_metrics now i s) = s\<lparr>ms_points := ?ps,
        ms_counters := update_first (same_route i) (bump_counter now i) (ms_counters s)\<rparr>"
      using found False by (simp only: track_mem if_False snd_conv)
    ultimately show ?thesis using d keys True p by (simp add: counters_exact_def list_all_iff insert_absorb)
  next
    case none: False
    then have found: "find (same_route i) (ms_counters s) = None" unfolding sr find_key .
    have "route_points (ti_method i) (ti_route i) (ms_points s) = []"
      using none unfolding keys by (auto simp: route_points_def filter_empty_conv image_iff)
    then have "counter_exact ?ps (new_counter now i)" by (rule counter_exact_new)
    moreover have "\<forall>c \<in> set (ms_counters s). counter_exact ?ps c"
    proof
      fix c assume c: "c \<in> set (ms_counters s)"
      with none have "counter_route c \<noteq> ?k" by (metis image_eqI set_map)
      with c all show "counter_exact ?ps c" by (simp add: counter_exact_other)
    qed
    moreover have "counter_route (new_counter now i) = ?k" by (simp add: counter_route_def new_counter_def)
    ultimately show ?thesis using d keys none p found False
      by (simp add: track_mem counters_exact_def list_all_iff)
  qed
qed

definition track_all :: "(int \<times> track_input) list \<Rightarrow> metric_store \<Rightarrow> metric_store" where
  "track_all calls s = fold (\<lambda>(now, i) t. snd (track mem_metrics now i t)) calls s"

lemma track_all_exact: "counters_exact s \<Longrightarrow> counters_exact (track_all calls s)"
  by (induction calls arbitrary: s) (auto simp: track_all_def intro: track_counters_exact)

lemma track_all_points:
  "ms_points (track_all calls s) =
     ms_points s @ map (\<lambda>(now, i). point_of now i) (filter (\<lambda>(now, i). ti_method i \<noteq> [] \<and> ti_route i \<noteq> []) calls)"
proof (induction calls arbitrary: s)
  case (Cons c calls)
  obtain now i where c: "c = (now, i)" by (cases c)
  show ?case using Cons.IH [of "snd (track mem_metrics now i s)"] by (auto simp: c track_all_def track_mem)
qed (simp add: track_all_def)

definition no_metrics :: metric_store where
  "no_metrics = \<lparr>ms_counters = [], ms_points = [], ms_rollups = []\<rparr>"


end
