(* ===== verification/Influx_Points.thy ===== *)
theory Influx_Points
  imports Prelude
begin

text \<open>
  \<open>sample/config-sample/gateway-db/src/metrics/influx-point.store.ts\<close>: the store of raw metric points
  over Influx. Points are written in batches: \<open>record\<close> fills a buffer, \<open>flush\<close> takes the buffer and posts
  it. The post is an \<open>await\<close>, so a flush is two steps, its start and its end, and points arrive between
  them. The texts that cross the interface (line protocol, Flux, CSV) are written out; HTTP itself,
  the clock, and the text of a date are arguments. Durations, statuses and limits are whole numbers.
\<close>

section \<open>Points and their texts\<close>

record metric_point =
  pt_ts :: "int option"
  pt_method :: string
  pt_route :: string
  pt_name :: "string option"
  pt_topic :: "string option"
  pt_action :: "string option"
  pt_mode :: "string option"
  pt_status :: "int option"
  pt_durationMs :: "int option"
  pt_code :: "string option"

definition MEASUREMENT :: string where "MEASUREMENT = ''http_metric_point''"

definition tag :: "string \<Rightarrow> string" where
  "tag v = concat (map (\<lambda>c. if c \<in> set '' ,='' then [CHR 0x5C, c] else [c]) v)"

definition quotedStr :: "string \<Rightarrow> string" where
  "quotedStr v = concat (map (\<lambda>c. if c = CHR 0x5C \<or> c = CHR 0x22 then [CHR 0x5C, c] else [c]) v)"

definition opt_part :: "string \<Rightarrow> string option \<Rightarrow> string list" where
  "opt_part key v = (if truthy_str v then [key @ ''='' @ tag (the v)] else [])"

definition lineTags :: "metric_point \<Rightarrow> string" where
  "lineTags p = js_join '',''
     ([''method='' @ tag (pt_method p), ''route='' @ tag (pt_route p)] @ opt_part ''name'' (pt_name p) @
      opt_part ''topic'' (pt_topic p) @ opt_part ''action'' (pt_action p) @ opt_part ''mode'' (pt_mode p))"

definition lineFields :: "metric_point \<Rightarrow> string" where
  "lineFields p = js_join '',''
     ([''durationMs='' @ int_str (coalesce (pt_durationMs p) 0) @ ''i''] @
      (case pt_status p of None \<Rightarrow> [] | Some n \<Rightarrow> [''status='' @ int_str n @ ''i'']) @
      (if truthy_str (pt_code p) then [''code='' @ [CHR 0x22] @ quotedStr (the (pt_code p)) @ [CHR 0x22]] else []) @
      [''count=1i''])"

definition SEQ_MOD :: nat where "SEQ_MOD = 1000000"

definition padZeros :: "nat \<Rightarrow> string \<Rightarrow> string" where
  "padZeros n s = replicate (n - length s) (CHR ''0'') @ s"

definition tsNs :: "int \<Rightarrow> nat \<Rightarrow> string" where
  "tsNs ts seq = int_str ts @ padZeros 6 (nat_str seq)"

text \<open>\<open>toLineProtocol\<close> with the sequence number it takes and leaves.\<close>

definition toLineProtocol :: "int \<Rightarrow> nat \<Rightarrow> metric_point \<Rightarrow> string \<times> nat" where
  "toLineProtocol now seq p =
     (let seq' = (seq + 1) mod SEQ_MOD
      in (MEASUREMENT @ '','' @ lineTags p @ '' '' @ lineFields p @ '' '' @ tsNs (coalesce (pt_ts p) now) seq', seq'))"

section \<open>The buffer\<close>

definition MAX_BATCH :: nat where "MAX_BATCH = 500"
definition MAX_BUFFER :: nat where "MAX_BUFFER = 20000"

record point_store =
  ps_enabled :: bool
  ps_buffer :: "string list"
  ps_seq :: nat
  ps_dropped :: nat
  ps_flushing :: bool
  ps_inflight :: "string list"
  ps_posted :: "string list list"

definition new_store :: "bool \<Rightarrow> point_store" where
  "new_store enabled = \<lparr>ps_enabled = enabled, ps_buffer = [], ps_seq = 0, ps_dropped = 0, ps_flushing = False,
     ps_inflight = [], ps_posted = []\<rparr>"

definition influx_enabled :: "string option \<Rightarrow> string option \<Rightarrow> string option \<Rightarrow> string option \<Rightarrow> bool" where
  "influx_enabled url token org orgID \<longleftrightarrow> truthy_str url \<and> truthy_str token \<and> (truthy_str org \<or> truthy_str orgID)"

text \<open>\<open>flush\<close> up to its \<open>await\<close>, and after it: the lines were written or, when the post failed, dropped.\<close>

definition flushStart :: "point_store \<Rightarrow> point_store" where
  "flushStart s =
     (if \<not> ps_enabled s \<or> ps_flushing s \<or> ps_buffer s = [] then s
      else s\<lparr>ps_flushing := True, ps_inflight := ps_buffer s, ps_buffer := [], ps_dropped := 0\<rparr>)"

definition flushEnd :: "bool \<Rightarrow> point_store \<Rightarrow> point_store" where
  "flushEnd ok s =
     s\<lparr>ps_flushing := False, ps_inflight := [],
       ps_posted := (if ok then ps_posted s @ [ps_inflight s] else ps_posted s)\<rparr>"

definition recordPoint :: "int \<Rightarrow> metric_point \<Rightarrow> point_store \<Rightarrow> point_store" where
  "recordPoint now p s =
     (if \<not> ps_enabled s \<or> pt_method p = [] \<or> pt_route p = [] then s
      else if MAX_BUFFER \<le> length (ps_buffer s) then s\<lparr>ps_dropped := Suc (ps_dropped s)\<rparr>
      else let (line, seq') = toLineProtocol now (ps_seq s) p;
               s1 = s\<lparr>ps_buffer := ps_buffer s @ [line], ps_seq := seq'\<rparr>
           in if MAX_BATCH \<le> length (ps_buffer s1) then flushStart s1 else s1)"

text \<open>What can happen to the store: a point, the timer, the end of a post.\<close>

datatype store_event = PointRecorded int metric_point | TimerTick | PostSettled bool

fun store_step :: "point_store \<Rightarrow> store_event \<Rightarrow> point_store" where
  "store_step s (PointRecorded now p) = recordPoint now p s"
| "store_step s TimerTick = flushStart s"
| "store_step s (PostSettled ok) = (if ps_flushing s then flushEnd ok s else s)"

definition store_run :: "point_store \<Rightarrow> store_event list \<Rightarrow> point_store" where
  "store_run s es = fold (\<lambda>e s. store_step s e) es s"

text \<open>\<open>onModuleDestroy\<close>: one more flush is awaited; \<open>flush\<close> returns at once when a post is in flight.\<close>

definition storeDestroy :: "bool \<Rightarrow> point_store \<Rightarrow> point_store" where
  "storeDestroy ok s = (let s1 = flushStart s in if ps_flushing s then s1 else if ps_flushing s1 then flushEnd ok s1 else s1)"

section \<open>Reading\<close>

text \<open>\<open>splitCsv\<close>: the loop with its cells, the current cell and the flag for a quoted field.\<close>

fun splitLoop :: "string list \<Rightarrow> string \<Rightarrow> bool \<Rightarrow> string \<Rightarrow> string list" where
  "splitLoop cells cur inQ [] = cells @ [cur]"
| "splitLoop cells cur True (c # cs) =
     (if c = CHR 0x22
      then (if cs \<noteq> [] \<and> hd cs = CHR 0x22 then splitLoop cells (cur @ [CHR 0x22]) True (tl cs)
            else splitLoop cells cur False cs)
      else splitLoop cells (cur @ [c]) True cs)"
| "splitLoop cells cur False (c # cs) =
     (if c = CHR 0x22 then splitLoop cells cur True cs
      else if c = CHR '','' then splitLoop (cells @ [cur]) [] False cs
      else splitLoop cells (cur @ [c]) False cs)"

definition splitCsv :: "string \<Rightarrow> string list" where
  "splitCsv line = splitLoop [] [] False line"

definition rowOf :: "string list \<Rightarrow> string list \<Rightarrow> (string \<times> string option) list" where
  "rowOf header cells =
     fold (\<lambda>(i, h) row. AList.update h (if i < length cells then Some (cells ! i) else None) row) (List.enumerate 0 header) []"

definition cell :: "(string \<times> string option) list \<Rightarrow> string \<Rightarrow> string option" where
  "cell row k = Option.bind (map_of row k) id"

definition cellOr :: "(string \<times> string option) list \<Rightarrow> string \<Rightarrow> string option" where
  "cellOr row k = (if truthy_str (cell row k) then cell row k else None)"

text \<open>A number in a cell; a text that is none reads as \<open>NaN\<close>, which is \<open>None\<close> as an absent one is.\<close>

definition cellNumber :: "(string \<times> string option) list \<Rightarrow> string \<Rightarrow> int option" where
  "cellNumber row k = (case cellOr row k of None \<Rightarrow> None | Some s \<Rightarrow> js_number (JStr s))"

record csv_point =
  cp_ts :: int
  cp_method :: "string option"
  cp_route :: "string option"
  cp_name :: "string option"
  cp_topic :: "string option"
  cp_action :: "string option"
  cp_mode :: "string option"
  cp_status :: "int option"
  cp_durationMs :: "int option"
  cp_code :: "string option"

definition pointOf :: "int \<Rightarrow> (string \<times> string option) list \<Rightarrow> csv_point" where
  "pointOf ts row =
     \<lparr>cp_ts = ts, cp_method = cell row ''method'', cp_route = cell row ''route'', cp_name = cellOr row ''name'',
      cp_topic = cellOr row ''topic'', cp_action = cellOr row ''action'', cp_mode = cellOr row ''mode'',
      cp_status = cellNumber row ''status'', cp_durationMs = cellNumber row ''durationMs'', cp_code = cellOr row ''code''\<rparr>"

record csv_state =
  cv_out :: "csv_point list"
  cv_header :: "string list option"
  cv_expect :: bool

definition chopCr :: "string \<Rightarrow> string" where
  "chopCr s = (if s \<noteq> [] \<and> last s = CHR 0x0D then butlast s else s)"

definition csvLine :: "(string \<Rightarrow> int option) \<Rightarrow> string \<Rightarrow> csv_state \<Rightarrow> csv_state" where
  "csvLine date raw st =
     (let line = chopCr raw in
      if js_trim line = [] then st\<lparr>cv_header := None, cv_expect := False\<rparr>
      else if starts_with ''#'' line then st\<lparr>cv_expect := True\<rparr>
      else let cells = splitCsv line in
        if cv_expect st \<or> cv_header st = None then st\<lparr>cv_header := Some cells, cv_expect := False\<rparr>
        else let row = rowOf (the (cv_header st)) cells in
          (case Option.bind (cell row ''_time'') date of
             None \<Rightarrow> st
           | Some ts \<Rightarrow> st\<lparr>cv_out := cv_out st @ [pointOf ts row]\<rparr>))"

definition parseCsv :: "(string \<Rightarrow> int option) \<Rightarrow> string \<Rightarrow> csv_point list" where
  "parseCsv date csv =
     cv_out (fold (csvLine date) (js_split (CHR 0x0A) csv) \<lparr>cv_out = [], cv_header = None, cv_expect = False\<rparr>)"

record metric_query =
  mq_from :: "int option"
  mq_to :: "int option"
  mq_method :: "string option"
  mq_route :: "string option"
  mq_name :: "string option"
  mq_limit :: "int option"

definition inQuotes :: "string \<Rightarrow> string" where
  "inQuotes s = CHR 0x22 # s @ [CHR 0x22]"

definition fluxFilter :: "string \<Rightarrow> string option \<Rightarrow> string list" where
  "fluxFilter key v = (if truthy_str v then [''r.'' @ key @ '' == '' @ inQuotes (quotedStr (the v))] else [])"

definition buildFlux :: "(int \<Rightarrow> string) \<Rightarrow> string \<Rightarrow> metric_query \<Rightarrow> string" where
  "buildFlux isoText bucket q =
     (let start = (case mq_from q of Some t \<Rightarrow> isoText t | None \<Rightarrow> ''-90d'');
          stop = (case mq_to q of Some t \<Rightarrow> isoText t | None \<Rightarrow> ''now()'');
          filters = js_join '' and '' ([''r._measurement == '' @ inQuotes MEASUREMENT] @ fluxFilter ''method'' (mq_method q) @
            fluxFilter ''route'' (mq_route q) @ fluxFilter ''name'' (mq_name q));
          limit = (case mq_limit q of Some n \<Rightarrow> (if n > 0 then CHR 0x0A # ''  |> limit(n: '' @ int_str n @ '')'' else []) | None \<Rightarrow> [])
      in js_join [CHR 0x0A]
        [''from(bucket: '' @ inQuotes (quotedStr bucket) @ '')'',
         ''  |> range(start: '' @ start @ '', stop: '' @ stop @ '')'',
         ''  |> filter(fn: (r) => '' @ filters @ '')'',
         ''  |> filter(fn: (r) => r._field == '' @ inQuotes ''status'' @ '' or r._field == '' @ inQuotes ''durationMs'' @
           '' or r._field == '' @ inQuotes ''code'' @ '')'',
         ''  |> pivot(rowKey: ['' @ inQuotes ''_time'' @ ''], columnKey: ['' @ inQuotes ''_field'' @ ''], valueColumn: '' @ inQuotes ''_value'' @ '')'',
         ''  |> sort(columns: ['' @ inQuotes ''_time'' @ ''], desc: true)'' @ limit])"

text \<open>\<open>query\<close> with the answer to its post: an error is logged and gives no points.\<close>

definition queryPoints :: "(string \<Rightarrow> int option) \<Rightarrow> bool \<Rightarrow> string option \<Rightarrow> csv_point list" where
  "queryPoints date enabled answer =
     (if \<not> enabled then [] else case answer of None \<Rightarrow> [] | Some csv \<Rightarrow> parseCsv date csv)"

section \<open>Requests\<close>

text \<open>\<open>url\<close>, \<open>orgParam\<close> and the addresses of the three requests; \<open>enc\<close> is \<open>encodeURIComponent\<close>.\<close>

definition storeUrl :: "string \<Rightarrow> string \<Rightarrow> string" where
  "storeUrl base path = (if base \<noteq> [] \<and> last base = CHR ''/'' then butlast base else base) @ path"

definition orgParam :: "(string \<Rightarrow> string) \<Rightarrow> string option \<Rightarrow> string option \<Rightarrow> string" where
  "orgParam enc org orgID =
     (if truthy_str orgID then ''orgID='' @ enc (the orgID) else ''org='' @ enc (coalesce org []))"

definition writeUrl :: "(string \<Rightarrow> string) \<Rightarrow> string \<Rightarrow> string option \<Rightarrow> string option \<Rightarrow> string \<Rightarrow> string" where
  "writeUrl enc base org orgID bucket =
     storeUrl base (''/api/v2/write?'' @ orgParam enc org orgID @ ''&bucket='' @ enc bucket @ ''&precision=ns'')"

record prune_request =
  pr_url :: string
  pr_start :: string
  pr_stop :: string
  pr_predicate :: string

text \<open>\<open>prune\<close>: the request it posts when the store is enabled; the count it returns is \<open>0\<close> in every case.\<close>

definition prunePoints ::
  "(string \<Rightarrow> string) \<Rightarrow> (int \<Rightarrow> string) \<Rightarrow> bool \<Rightarrow> string \<Rightarrow> string option \<Rightarrow> string option \<Rightarrow> string \<Rightarrow> int \<Rightarrow>
   prune_request option \<times> nat" where
  "prunePoints enc isoText enabled base org orgID bucket olderThan =
     (if \<not> enabled then (None, 0)
      else (Some \<lparr>pr_url = storeUrl base (''/api/v2/delete?'' @ orgParam enc org orgID @ ''&bucket='' @ enc bucket),
                  pr_start = ''1970-01-01T00:00:00Z'', pr_stop = isoText olderThan,
                  pr_predicate = ''_measurement='' @ inQuotes MEASUREMENT\<rparr>, 0))"

section \<open>Facts about the buffer\<close>

definition store_ok :: "point_store \<Rightarrow> bool" where
  "store_ok s \<longleftrightarrow> length (ps_buffer s) \<le> MAX_BUFFER \<and> (\<not> ps_flushing s \<longrightarrow> ps_inflight s = []) \<and>
     length (ps_inflight s) \<le> MAX_BUFFER \<and> ps_seq s < SEQ_MOD"

lemma flushStart_ok: "store_ok s \<Longrightarrow> store_ok (flushStart s)"
  by (simp add: store_ok_def flushStart_def)

lemma recordPoint_cases:
  obtains "recordPoint now p s = s"
  | "recordPoint now p s = s\<lparr>ps_dropped := Suc (ps_dropped s)\<rparr>"
  | s1 where "ps_enabled s" and "length (ps_buffer s) < MAX_BUFFER"
      and "s1 = s\<lparr>ps_buffer := ps_buffer s @ [fst (toLineProtocol now (ps_seq s) p)], ps_seq := (ps_seq s + 1) mod SEQ_MOD\<rparr>"
      and "recordPoint now p s = s1 \<or> recordPoint now p s = flushStart s1"
proof -
  consider "\<not> ps_enabled s \<or> pt_method p = [] \<or> pt_route p = []"
    | "ps_enabled s" "pt_method p \<noteq> []" "pt_route p \<noteq> []" "MAX_BUFFER \<le> length (ps_buffer s)"
    | "ps_enabled s" "pt_method p \<noteq> []" "pt_route p \<noteq> []" "length (ps_buffer s) < MAX_BUFFER"
    by linarith
  then show ?thesis
  proof cases
    case 1
    then show ?thesis by (intro that(1)) (simp add: recordPoint_def)
  next
    case 2
    then show ?thesis by (intro that(2)) (simp add: recordPoint_def)
  next
    case 3
    then show ?thesis by (intro that(3) [OF _ _ HOL.refl]) (simp_all add: recordPoint_def toLineProtocol_def Let_def)
  qed
qed

lemma store_step_ok: "store_ok s \<Longrightarrow> store_ok (store_step s e)"
proof (cases e)
  case (PointRecorded now p)
  assume ok: "store_ok s"
  show ?thesis
  proof (cases rule: recordPoint_cases [of now p s])
    case (3 s1)
    from ok 3(2) have "store_ok s1" unfolding 3(3) by (simp add: store_ok_def SEQ_MOD_def)
    with 3(4) flushStart_ok show ?thesis by (auto simp: PointRecorded)
  qed (use ok in \<open>simp_all add: PointRecorded store_ok_def\<close>)
qed (simp_all add: flushStart_ok, simp add: store_ok_def flushEnd_def)

lemma store_run_ok: "store_ok s \<Longrightarrow> store_ok (store_run s es)"
  unfolding store_run_def by (induction es arbitrary: s) (simp_all add: store_step_ok)

lemma new_store_ok: "store_ok (new_store enabled)"
  by (simp add: store_ok_def new_store_def SEQ_MOD_def)

definition store_lines :: "point_store \<Rightarrow> string list" where
  "store_lines s = concat (ps_posted s) @ ps_inflight s @ ps_buffer s"

text \<open>The lines that the store takes in along a run.\<close>

fun accepted :: "point_store \<Rightarrow> store_event list \<Rightarrow> string list" where
  "accepted s [] = []"
| "accepted s (e # es) =
     (case e of
        PointRecorded now p \<Rightarrow>
          (if ps_enabled s \<and> pt_method p \<noteq> [] \<and> pt_route p \<noteq> [] \<and> length (ps_buffer s) < MAX_BUFFER
           then [fst (toLineProtocol now (ps_seq s) p)] else [])
      | _ \<Rightarrow> []) @ accepted (store_step s e) es"

lemma flushStart_lines: "store_ok s \<Longrightarrow> store_lines (flushStart s) = store_lines s"
  by (simp add: store_lines_def flushStart_def store_ok_def)

lemma recordPoint_lines:
  assumes "store_ok s"
  shows "store_lines (recordPoint now p s) = store_lines s @
    (if ps_enabled s \<and> pt_method p \<noteq> [] \<and> pt_route p \<noteq> [] \<and> length (ps_buffer s) < MAX_BUFFER
     then [fst (toLineProtocol now (ps_seq s) p)] else [])"
proof -
  let ?s1 = "s\<lparr>ps_buffer := ps_buffer s @ [fst (toLineProtocol now (ps_seq s) p)], ps_seq := snd (toLineProtocol now (ps_seq s) p)\<rparr>"
  have lines: "store_lines ?s1 = store_lines s @ [fst (toLineProtocol now (ps_seq s) p)]" by (simp add: store_lines_def)
  moreover have "store_lines (flushStart ?s1) = store_lines ?s1" if "length (ps_buffer s) < MAX_BUFFER"
    using assms that by (intro flushStart_lines) (simp add: store_ok_def toLineProtocol_def SEQ_MOD_def Let_def)
  ultimately show ?thesis
    by (auto simp: recordPoint_def Let_def store_lines_def [of "s\<lparr>ps_dropped := d\<rparr>" for d] store_lines_def split: prod.splits)
qed

lemma store_run_lines:
  assumes "store_ok s" and "PostSettled False \<notin> set es"
  shows "store_lines (store_run s es) = store_lines s @ accepted s es"
  using assms
proof (induction es arbitrary: s)
  case Nil
  then show ?case by (simp add: store_run_def)
next
  case (Cons e es)
  have run: "store_run s (e # es) = store_run (store_step s e) es" by (simp add: store_run_def)
  have IH: "store_lines (store_run (store_step s e) es) = store_lines (store_step s e) @ accepted (store_step s e) es"
    using Cons by (intro Cons.IH) (simp_all add: store_step_ok)
  show ?case
  proof (cases e)
    case (PointRecorded now p)
    then show ?thesis using IH recordPoint_lines [OF Cons.prems(1), of now p] by (simp add: run [unfolded PointRecorded])
  next
    case TimerTick
    then show ?thesis using IH flushStart_lines [OF Cons.prems(1)] by (simp add: run [unfolded TimerTick])
  next
    case (PostSettled ok)
    with Cons.prems(2) have ok by (cases ok) auto
    then have "store_lines (store_step s e) = store_lines s" by (simp add: PostSettled store_lines_def flushEnd_def)
    with IH show ?thesis by (simp add: run [unfolded PostSettled] PostSettled)
  qed
qed

subsection \<open>Time stamps\<close>

lemma nat_str_length: "n < 10 ^ Suc k \<Longrightarrow> length (nat_str n) \<le> Suc k"
proof (induction k arbitrary: n)
  case 0
  then show ?case by (subst nat_str.simps) simp
next
  case (Suc k)
  show ?case
  proof (cases "n < 10")
    case True
    then show ?thesis by (subst nat_str.simps) simp
  next
    case False
    have "n div 10 < 10 ^ Suc k" using Suc.prems by (simp add: less_mult_imp_div_less mult.commute)
    from Suc.IH [OF this] False show ?thesis by (subst nat_str.simps) simp
  qed
qed

lemma padZeros_length: "length s \<le> n \<Longrightarrow> length (padZeros n s) = n"
  by (simp add: padZeros_def)

lemma read_zeros: "read_digits 0 (replicate k (CHR ''0'') @ s) = read_digits 0 s"
proof (induction k)
  case (Suc k)
  have "char_digit (CHR ''0'') = Some 0" by code_simp
  with Suc show ?case by simp
qed simp

lemma padZeros_inject: "padZeros n (nat_str a) = padZeros n (nat_str b) \<Longrightarrow> a = b"
  unfolding padZeros_def by (metis option.inject read_nat_str read_zeros)

lemma tsNs_inject:
  assumes "a < SEQ_MOD" and "b < SEQ_MOD" and "tsNs t a = tsNs u b"
  shows "t = u \<and> a = b"
proof -
  have len: "length (padZeros 6 (nat_str x)) = 6" if "x < SEQ_MOD" for x
    using nat_str_length [of x 5] that by (intro padZeros_length) (simp add: SEQ_MOD_def)
  from assms(3) len [OF assms(1)] len [OF assms(2)]
  have "int_str t = int_str u" and "padZeros 6 (nat_str a) = padZeros 6 (nat_str b)"
    unfolding tsNs_def by (metis append_eq_append_conv)+
  with padZeros_inject show ?thesis by simp
qed

lemma seq_after: "(seq + i) mod SEQ_MOD = (seq + j) mod SEQ_MOD \<Longrightarrow> i \<le> j \<Longrightarrow> j < i + SEQ_MOD \<Longrightarrow> i = j"
proof -
  assume m: "(seq + i) mod SEQ_MOD = (seq + j) mod SEQ_MOD" and "i \<le> j" "j < i + SEQ_MOD"
  from m \<open>i \<le> j\<close> have "SEQ_MOD dvd (seq + j) - (seq + i)" by (metis add_le_cancel_left mod_eq_dvd_iff_nat)
  then have "SEQ_MOD dvd j - i" by simp
  with \<open>j < i + SEQ_MOD\<close> \<open>i \<le> j\<close> show "i = j"
    by (metis diff_is_0_eq' le_antisym less_diff_conv2 add.commute nat_dvd_not_less neq0_conv diff_is_0_eq)
qed

subsection \<open>Quoting\<close>

definition csvQuote :: "string \<Rightarrow> string" where
  "csvQuote v = CHR 0x22 # concat (map (\<lambda>c. if c = CHR 0x22 then [c, c] else [c]) v) @ [CHR 0x22]"

lemma split_quoted:
  "s = [] \<or> hd s \<noteq> CHR 0x22 \<Longrightarrow>
   splitLoop cells cur True (concat (map (\<lambda>c. if c = CHR 0x22 then [c, c] else [c]) v) @ CHR 0x22 # s) = splitLoop cells (cur @ v) False s"
  by (induction v arbitrary: cur) auto

lemma split_join_quoted:
  "vs \<noteq> [] \<Longrightarrow> splitLoop cells [] False (js_join '','' (map csvQuote vs)) = cells @ vs"
proof (induction vs arbitrary: cells)
  case Nil
  then show ?case by simp
next
  case (Cons v vs)
  show ?case
  proof (cases vs)
    case Nil
    have "splitLoop cells [] False (csvQuote v) = cells @ [v]"
      using split_quoted [of "[]" cells "[]" v] by (simp add: csvQuote_def)
    with Nil show ?thesis by simp
  next
    case (Cons w ws)
    have "splitLoop cells [] False (csvQuote v @ CHR '','' # js_join '','' (map csvQuote vs)) =
        splitLoop (cells @ [v]) [] False (js_join '','' (map csvQuote vs))"
      using split_quoted [of "CHR '','' # js_join '','' (map csvQuote vs)" cells "[]" v] by (simp add: csvQuote_def)
    with Cons Cons.IH [of "cells @ [v]"] show ?thesis by simp
  qed
qed

text \<open>The reader of a tag value: to the first separator that no backslash precedes.\<close>

fun readTag :: "string \<Rightarrow> string \<times> string" where
  "readTag [] = ([], [])"
| "readTag (c # cs) =
     (if c = CHR 0x5C \<and> cs \<noteq> [] \<and> hd cs \<in> set '' ,=''
      then (let (v, rest) = readTag (tl cs) in (hd cs # v, rest))
      else if c \<in> set '' ,='' then ([], c # cs)
      else (let (v, rest) = readTag cs in (c # v, rest)))"

lemma readTag_tag:
  "CHR 0x5C \<notin> set v \<Longrightarrow> d \<in> set '' ,='' \<Longrightarrow> readTag (tag v @ d # rest) = (v, d # rest)"
proof (induction v)
  case Nil
  then show ?case by (auto simp: tag_def)
next
  case (Cons c v)
  then have IH: "readTag (tag v @ d # rest) = (v, d # rest)" by simp
  have "tag (c # v) = (if c \<in> set '' ,='' then [CHR 0x5C, c] else [c]) @ tag v" by (simp add: tag_def)
  with IH Cons.prems(1) show ?case by (cases "c \<in> set '' ,=''") auto
qed

lemma js_join_set: "w \<in> set ws \<Longrightarrow> set w \<subseteq> set (js_join sep ws)"
  by (induction sep ws rule: js_join.induct) auto

lemma tag_set: "c \<in> set v \<Longrightarrow> c \<in> set (tag v)"
proof -
  assume "c \<in> set v"
  moreover have "c \<in> set (if c \<in> S then [CHR 0x5C, c] else [c])" for S by simp
  ultimately show ?thesis unfolding tag_def set_concat set_map by blast
qed

lemma line_keeps_route: "c \<in> set (pt_route p) \<Longrightarrow> c \<in> set (fst (toLineProtocol now seq p))"
proof -
  assume "c \<in> set (pt_route p)"
  then have "c \<in> set (''route='' @ tag (pt_route p))" by (simp add: tag_set)
  then have "c \<in> set (lineTags p)"
    unfolding lineTags_def by (intro subsetD [OF js_join_set [of "''route='' @ tag (pt_route p)"]]) simp_all
  then show ?thesis by (simp add: toLineProtocol_def Let_def)
qed

section \<open>Properties\<close>

text \<open>The store's memory is bounded whatever Influx does: in every run of points, timer ticks and ends of
  posts the buffer and the batch in flight hold at most \<open>MAX_BUFFER\<close> lines each, and a batch is in flight only
  while its post is.\<close>

theorem store_memory_bounded:
  "length (ps_buffer (store_run (new_store enabled) es)) \<le> MAX_BUFFER \<and>
   length (ps_inflight (store_run (new_store enabled) es)) \<le> MAX_BUFFER \<and>
   (ps_flushing (store_run (new_store enabled) es) \<or> ps_inflight (store_run (new_store enabled) es) = [])"
  using store_run_ok [OF new_store_ok, of enabled es] by (auto simp: store_ok_def)

text \<open>C36: No point that was taken in is lost or written twice as long as the posts succeed: what was posted, what
  is in flight and what is in the buffer are, in this order, the lines of the points taken in, in the order in
  which they came, however points, ticks and posts interleave.\<close>

theorem points_written_once:
  assumes "PostSettled False \<notin> set es"
  shows "concat (ps_posted (store_run (new_store enabled) es)) @ ps_inflight (store_run (new_store enabled) es) @
    ps_buffer (store_run (new_store enabled) es) = accepted (new_store enabled) es"
  using store_run_lines [OF new_store_ok assms, of enabled] by (simp add: store_lines_def) (simp add: new_store_def)

theorem points_written_once_witness:
  "concat (ps_posted (store_run (new_store True) [TimerTick, PostSettled True])) @
     ps_inflight (store_run (new_store True) [TimerTick, PostSettled True]) @
     ps_buffer (store_run (new_store True) [TimerTick, PostSettled True]) = accepted (new_store True) [TimerTick, PostSettled True]"
  by (rule points_written_once) simp

text \<open>Coincident points are kept apart: the time stamps of two among a million consecutive points are the
  same text only for the same point, also where the sequence number wraps around.\<close>

theorem stamps_distinct:
  assumes "i \<le> j" and "j < i + SEQ_MOD" and "tsNs t ((seq + i) mod SEQ_MOD) = tsNs u ((seq + j) mod SEQ_MOD)"
  shows "t = u \<and> i = j"
proof -
  have "t = u \<and> (seq + i) mod SEQ_MOD = (seq + j) mod SEQ_MOD"
    by (rule tsNs_inject [OF _ _ assms(3)]) (simp_all add: SEQ_MOD_def)
  with seq_after [OF _ assms(1,2)] show ?thesis by blast
qed

theorem stamps_distinct_witness: "(7 :: int) = 7 \<and> (3 :: nat) = 3"
  by (rule stamps_distinct [of 3 3 7 999999 7]) (simp_all add: SEQ_MOD_def)

text \<open>Reading a row of an answer gives back its cells: splitting the line that quotes every cell and doubles
  the quotes inside returns the cells, commas and quotes included.\<close>

theorem csv_cells_round_trip:
  "vs \<noteq> [] \<Longrightarrow> splitCsv (js_join '','' (map csvQuote vs)) = vs"
  by (simp add: splitCsv_def split_join_quoted)

theorem csv_cells_round_trip_witness:
  "splitCsv (js_join '','' (map csvQuote [''GET'', ''/a,b'', [CHR 0x22]])) = [''GET'', ''/a,b'', [CHR 0x22]]"
  by (rule csv_cells_round_trip) simp

text \<open>A tag keeps to its place in the line: a value without a backslash is read back whole from the line,
  up to the separator that follows it, whatever spaces, commas and equals signs it holds.\<close>

theorem tag_read_back:
  "CHR 0x5C \<notin> set v \<Longrightarrow> d \<in> set '' ,='' \<Longrightarrow> readTag (tag v @ d # rest) = (v, d # rest)"
  by (rule readTag_tag)

theorem tag_read_back_witness: "readTag (tag ''/a b,c=d'' @ CHR '','' # ''name=x'') = (''/a b,c=d'', CHR '','' # ''name=x'')"
  by (rule tag_read_back) simp_all

text \<open>A backslash at the end of a value hides the separator, and a line feed ends the line.\<close>

theorem tag_backslash_swallows_separator:
  "fst (readTag (tag [CHR ''a'', CHR 0x5C] @ CHR '','' # ''name=x'')) = ''a,name''"
  by code_simp

theorem tag_line_feed_splits_point:
  "CHR 0x0A \<in> set (pt_route p) \<Longrightarrow> CHR 0x0A \<in> set (fst (toLineProtocol now seq p))"
  by (rule line_keeps_route)

text \<open>At shutdown with a post in flight the last flush returns at once: what is in the buffer is not posted.\<close>

theorem destroy_skips_buffer:
  "ps_flushing s \<Longrightarrow> ps_posted (storeDestroy ok s) = ps_posted s \<and> ps_buffer (storeDestroy ok s) = ps_buffer s"
  by (simp add: storeDestroy_def flushStart_def Let_def)

end
