(* ===== verification/Route_Sync.thy ===== *)
theory Route_Sync
  imports Route_Diff
begin

text \<open>
  The gateway side of route discovery, \<open>modules/gateway-admin/services/route-sync.service.ts\<close>,
  over the contract of the route repository (\<open>repository/http-path.repository.ts\<close>), with the
  in-memory repository of the gateway generator as its interpretation.

  \<open>handle\<close> processes one manifest: it reserves the keys of others, diffs, and applies and
  journals the changes one by one; a conflict reported by the store is reconciled. The journal and
  the reload messages are recorded whether or not their sinks take them, as both are best effort.
\<close>

section \<open>The repository\<close>

record 's path_deps =
  pd_filterOwner :: "string \<Rightarrow> ('s, doc list) eff"
  pd_filterKey :: "string \<Rightarrow> ('s, doc list) eff"
  pd_findById :: "string \<Rightarrow> ('s, doc option) eff"
  pd_insert :: "doc \<Rightarrow> ('s, doc) eff"
  pd_updateById :: "string \<Rightarrow> doc \<Rightarrow> ('s, doc option) eff"
  pd_removeById :: "string \<Rightarrow> ('s, doc option) eff"

text \<open>The contract. A call that throws leaves the rows as they were; an implementation that
  enforces the unique key throws a \<open>ConflictError\<close> from \<open>insert\<close>.\<close>

locale path_repository =
  fixes deps :: "'s path_deps" and pview :: "'s \<Rightarrow> doc list" and pok :: "'s \<Rightarrow> bool"
  assumes filterOwner_law: "pok s \<Longrightarrow> pd_filterOwner deps ow s = (r1, s') \<Longrightarrow>
      pok s' \<and> pview s' = pview s \<and> (\<forall>ds. r1 = Inr ds \<longrightarrow> ds = filter (\<lambda>d. field d ''owner'' = JStr ow) (pview s))"
    and filterKey_law: "pok s \<Longrightarrow> pd_filterKey deps key s = (r1, s') \<Longrightarrow>
      pok s' \<and> pview s' = pview s \<and> (\<forall>ds. r1 = Inr ds \<longrightarrow> ds = filter (\<lambda>d. field d ''routeKey'' = JStr key) (pview s))"
    and findById_law: "pok s \<Longrightarrow> pd_findById deps i s = (r2, s') \<Longrightarrow>
      pok s' \<and> pview s' = pview s \<and> (\<forall>x. r2 = Inr x \<longrightarrow> x = find (\<lambda>d. id_of d = Some i) (pview s))"
    and insert_law: "pok s \<Longrightarrow> nullish (field m ''_id'') \<Longrightarrow> pd_insert deps m s = (r3, s') \<Longrightarrow>
      pok s' \<and> (case r3 of Inl e \<Rightarrow> pview s' = pview s
        | Inr d \<Rightarrow> (\<exists>i. d = row_after i None m \<and> pview s' = pview s @ [d]))"
    and updateById_law: "pok s \<Longrightarrow> pd_updateById deps i m s = (r2, s') \<Longrightarrow>
      pok s' \<and> (case r2 of Inl e \<Rightarrow> pview s' = pview s
        | Inr x \<Rightarrow> pview s' = map (\<lambda>d. if id_of d = Some i then patched i d m else d) (pview s) \<and>
            x = map_option (\<lambda>d. patched i d m) (find (\<lambda>d. id_of d = Some i) (pview s)))"
    and removeById_law: "pok s \<Longrightarrow> pd_removeById deps i s = (r2, s') \<Longrightarrow>
      pok s' \<and> (case r2 of Inl e \<Rightarrow> pview s' = pview s
        | Inr x \<Rightarrow> pview s' = filter (\<lambda>d. id_of d \<noteq> Some i) (pview s) \<and> x = find (\<lambda>d. id_of d = Some i) (pview s))"
    and pids: "pok s \<Longrightarrow> distinct (map id_of (pview s)) \<and> (\<forall>d \<in> set (pview s). \<exists>i. id_of d = Some i \<and> i \<noteq> [])"

definition mp_filterOwner :: "string \<Rightarrow> (collection, doc list) eff" where
  "mp_filterOwner owner c = (Inr (col_filter [(''owner'', CEq (JStr owner))] c), c)"

definition mp_filterKey :: "string \<Rightarrow> (collection, doc list) eff" where
  "mp_filterKey key c = (Inr (col_filter [(''routeKey'', CEq (JStr key))] c), c)"

definition mp_findById :: "string \<Rightarrow> (collection, doc option) eff" where
  "mp_findById i c = (Inr (col_findById i c), c)"

definition mp_insert :: "doc \<Rightarrow> (collection, doc) eff" where
  "mp_insert m c = (case col_insert m c of (d, c') \<Rightarrow> (Inr d, c'))"

definition mp_updateById :: "string \<Rightarrow> doc \<Rightarrow> (collection, doc option) eff" where
  "mp_updateById i m c = (case col_updateById i m c of (r, c') \<Rightarrow> (Inr r, c'))"

definition mp_removeById :: "string \<Rightarrow> (collection, doc option) eff" where
  "mp_removeById i c = (case col_removeById i c of (r, c') \<Rightarrow> (Inr r, c'))"

definition toPlain :: "doc \<Rightarrow> doc" where
  "toPlain d = filter (\<lambda>(k, v). k \<noteq> ''_id'' \<and> k \<noteq> ''enabled'') d"

definition mp_listEnabled :: "collection \<Rightarrow> doc list" where
  "mp_listEnabled c = map toPlain (filter is_enabled (col_all c))"

definition mem_paths :: "collection path_deps" where
  "mem_paths = \<lparr>pd_filterOwner = mp_filterOwner, pd_filterKey = mp_filterKey, pd_findById = mp_findById,
     pd_insert = mp_insert, pd_updateById = mp_updateById, pd_removeById = mp_removeById\<rparr>"

definition mp_ok :: "collection \<Rightarrow> bool" where
  "mp_ok c \<longleftrightarrow> col_ok c \<and> [] \<notin> fst ` set (mc_items c)"

lemma matches_single: "c \<noteq> JUndef \<Longrightarrow> matches d [(k, CEq c)] \<longleftrightarrow> field d k = c"
  by (simp add: matches_def field_def)

lemma item_id: "col_ok c \<Longrightarrow> (i, d) \<in> set (mc_items c) \<Longrightarrow> id_of d = Some i"
  by (auto simp: col_ok_def id_of_def field_def)

lemma items_ids: "col_ok c \<Longrightarrow> map id_of (col_all c) = map (Some \<circ> fst) (mc_items c)"
  by (auto simp: col_all_def item_id)

lemma find_by_id:
  assumes "col_ok c"
  shows "find (\<lambda>d. id_of d = Some i) (col_all c) = map_of (mc_items c) i"
proof -
  have "find (\<lambda>d. id_of d = Some i) (map snd m) = map_of m i" if "\<forall>(j, d) \<in> set m. id_of d = Some j" for m
    using that by (induction m) auto
  moreover have "\<forall>(j, d) \<in> set (mc_items c). id_of d = Some j" using item_id [OF assms] by blast
  ultimately show ?thesis unfolding col_all_def by blast
qed

lemma update_rows:
  assumes "col_ok c" and "map_of (mc_items c) i = Some v"
  shows "map snd (AList.update i (patched i v m) (mc_items c)) =
    map (\<lambda>d. if id_of d = Some i then patched i d m else d) (col_all c)"
proof -
  have d: "distinct (map fst (mc_items c))" using assms(1) by (simp add: col_ok_def)
  have vin: "(i, v) \<in> set (mc_items c)" using assms(2) by (rule map_of_SomeD)
  have iin: "i \<in> fst ` set (mc_items c)" using vin by (rule rev_image_eqI) simp
  show ?thesis unfolding update_map [OF d iin] col_all_def map_map
  proof (rule map_cong [OF refl])
    fix x assume x: "x \<in> set (mc_items c)"
    obtain j w where jw: "x = (j, w)" by (cases x)
    have "w = v" if "j = i" using d x jw that vin by (auto simp: eq_key_imp_eq_value)
    with item_id [OF assms(1), of j w] x jw
    show "(snd \<circ> (\<lambda>(k', v'). (k', if k' = i then patched i v m else v'))) x =
        ((\<lambda>d. if id_of d = Some i then patched i d m else d) \<circ> snd) x" by auto
  qed
qed

lemma no_row: "col_ok c \<Longrightarrow> map_of (mc_items c) i = None \<Longrightarrow> d \<in> set (col_all c) \<Longrightarrow> id_of d \<noteq> Some i"
  using item_id by (force simp: col_all_def map_of_eq_None_iff)

lemma mp_update_rows:
  assumes "mp_ok c" and "mp_updateById i m c = (r, c')"
  shows "mp_ok c' \<and> col_all c' = map (\<lambda>d. if id_of d = Some i then patched i d m else d) (col_all c) \<and>
    r = Inr (map_option (\<lambda>d. patched i d m) (find (\<lambda>d. id_of d = Some i) (col_all c)))"
proof (cases "map_of (mc_items c) i")
  case None
  have "map (\<lambda>d. if id_of d = Some i then patched i d m else d) (col_all c) = col_all c"
    using no_row [OF _ None] assms(1) by (intro map_idI) (auto simp: mp_ok_def)
  with None assms find_by_id [of c i] show ?thesis by (auto simp: mp_updateById_def col_updateById_def mp_ok_def)
next
  case (Some v)
  have ok: "col_ok c" using assms(1) by (simp add: mp_ok_def)
  have "i \<in> fst ` set (mc_items c)" using map_of_SomeD [OF Some] by (rule rev_image_eqI) simp
  then have "[] \<notin> fst ` set (AList.update i (patched i v m) (mc_items c))" using assms(1) by (auto simp: update_fst mp_ok_def)
  with Some assms find_by_id [OF ok, of i] col_updateById_ok [OF ok, of i m] update_rows [OF ok Some, of m]
  show ?thesis by (auto simp: mp_updateById_def col_updateById_def mp_ok_def col_all_def)
qed

interpretation mpaths: path_repository mem_paths col_all mp_ok
proof unfold_locales
  fix s ow and r1 :: "jserr + doc list" and s'
  assume "mp_ok s" and "pd_filterOwner mem_paths ow s = (r1, s')"
  then show "mp_ok s' \<and> col_all s' = col_all s \<and> (\<forall>ds. r1 = Inr ds \<longrightarrow> ds = filter (\<lambda>d. field d ''owner'' = JStr ow) (col_all s))"
    by (auto simp: mem_paths_def mp_filterOwner_def col_filter_def col_all_def matches_single)
next
  fix s key and r1 :: "jserr + doc list" and s'
  assume "mp_ok s" and "pd_filterKey mem_paths key s = (r1, s')"
  then show "mp_ok s' \<and> col_all s' = col_all s \<and> (\<forall>ds. r1 = Inr ds \<longrightarrow> ds = filter (\<lambda>d. field d ''routeKey'' = JStr key) (col_all s))"
    by (auto simp: mem_paths_def mp_filterKey_def col_filter_def col_all_def matches_single)
next
  fix s i and r2 :: "jserr + doc option" and s'
  assume "mp_ok s" and "pd_findById mem_paths i s = (r2, s')"
  then show "mp_ok s' \<and> col_all s' = col_all s \<and> (\<forall>x. r2 = Inr x \<longrightarrow> x = find (\<lambda>d. id_of d = Some i) (col_all s))"
    by (auto simp: mem_paths_def mp_findById_def col_findById_def find_by_id mp_ok_def)
next
  fix s m and r3 :: "jserr + doc" and s'
  assume a: "mp_ok s" "nullish (field m ''_id'')" "pd_insert mem_paths m s = (r3, s')"
  have ok: "col_ok s" and n: "nullish (jget (JObj m) ''_id'')" using a by (simp_all add: mp_ok_def field_def)
  from a(3) col_insert_fresh [OF ok n] have "r3 = Inr (row_after (nextId (mc_seq s)) None m)"
    and items: "mc_items s' = mc_items s @ [(nextId (mc_seq s), row_after (nextId (mc_seq s)) None m)]"
    by (auto simp: mem_paths_def mp_insert_def row_after_def)
  moreover have "mp_ok s'" using a(1,3) col_insert_ok [OF ok n] items nextId_nonempty [of "mc_seq s", symmetric]
    by (auto simp: mem_paths_def mp_insert_def mp_ok_def split: prod.splits)
  ultimately show "mp_ok s' \<and> (case r3 of Inl e \<Rightarrow> col_all s' = col_all s
      | Inr d \<Rightarrow> (\<exists>i. d = row_after i None m \<and> col_all s' = col_all s @ [d]))"
    by (auto simp: col_all_def)
next
  fix s i m and r2 :: "jserr + doc option" and s'
  assume "mp_ok s" and "pd_updateById mem_paths i m s = (r2, s')"
  then show "mp_ok s' \<and> (case r2 of Inl e \<Rightarrow> col_all s' = col_all s
      | Inr x \<Rightarrow> col_all s' = map (\<lambda>d. if id_of d = Some i then patched i d m else d) (col_all s) \<and>
            x = map_option (\<lambda>d. patched i d m) (find (\<lambda>d. id_of d = Some i) (col_all s)))"
    using mp_update_rows [of s i m r2 s'] by (auto simp: mem_paths_def)
next
  fix s i and r2 :: "jserr + doc option" and s'
  assume a: "mp_ok s" and b: "pd_removeById mem_paths i s = (r2, s')"
  have ok: "col_ok s" using a by (simp add: mp_ok_def)
  have rows: "filter (\<lambda>d. id_of d \<noteq> Some i) (col_all s) = map snd (AList.delete i (mc_items s))"
    using item_id [OF ok] by (auto simp: col_all_def AList.delete_eq filter_map comp_def intro!: arg_cong [where f = "map snd"] filter_cong)
  have "mc_items s' = AList.delete i (mc_items s) \<and> r2 = Inr (map_of (mc_items s) i)"
  proof (cases "map_of (mc_items s) i")
    case None
    then have "AList.delete i (mc_items s) = mc_items s" by (intro om_delete_absent) (simp add: map_of_eq_None_iff)
    with None b show ?thesis by (simp add: mem_paths_def mp_removeById_def col_removeById_def)
  next
    case (Some v)
    with b show ?thesis by (auto simp: mem_paths_def mp_removeById_def col_removeById_def)
  qed
  then have items: "mc_items s' = AList.delete i (mc_items s)" and r: "r2 = Inr (map_of (mc_items s) i)" by simp_all
  have "col_ok s'" using b col_removeById_ok [OF ok, of i] by (auto simp: mem_paths_def mp_removeById_def split: prod.splits)
  with a items rows r find_by_id [OF ok, of i] show "mp_ok s' \<and> (case r2 of Inl e \<Rightarrow> col_all s' = col_all s
      | Inr x \<Rightarrow> col_all s' = filter (\<lambda>d. id_of d \<noteq> Some i) (col_all s) \<and> x = find (\<lambda>d. id_of d = Some i) (col_all s))"
    by (auto simp: mp_ok_def col_all_def AList.delete_eq)
next
  fix s assume a: "mp_ok s"
  then have "distinct (map id_of (col_all s))"
    by (simp add: mp_ok_def items_ids col_ok_def distinct_map inj_on_def)
  moreover have "\<exists>i. id_of d = Some i \<and> i \<noteq> []" if "d \<in> set (col_all s)" for d
  proof -
    from that obtain i where i: "(i, d) \<in> set (mc_items s)" by (auto simp: col_all_def)
    then have "i \<in> fst ` set (mc_items s)" by (rule rev_image_eqI) simp
    with a item_id [OF _ i] show ?thesis by (metis mp_ok_def)
  qed
  ultimately show "distinct (map id_of (col_all s)) \<and> (\<forall>d \<in> set (col_all s). \<exists>i. id_of d = Some i \<and> i \<noteq> [])" by blast
qed

section \<open>The sync\<close>

record journal_entry =
  je_service :: string
  je_actor :: string
  je_level :: string
  je_event :: string
  je_routeKey :: jval
  je_method :: jval
  je_path :: jval
  je_topic :: jval
  je_action :: jval
  je_conflictWith :: "string option"
  je_changes :: "field_change list"
  je_message :: "string option"

record 's sync_world =
  sw_paths :: 's
  sw_journal :: "journal_entry list"
  sw_reloads :: "string list"

record gateway_sync_config =
  gs_yaml :: "doc list"
  gs_reloadTopic :: "string option"

record manifest =
  mf_service :: "string option"
  mf_routes :: "doc list option"

definition on_paths :: "('s, 'b) eff \<Rightarrow> ('s sync_world, 'b) eff" where
  "on_paths f w = (case f (sw_paths w) of (r, s) \<Rightarrow> (r, w\<lparr>sw_paths := s\<rparr>))"

definition journal :: "journal_entry \<Rightarrow> ('s sync_world, unit) eff" where
  "journal e w = (Inr (), w\<lparr>sw_journal := sw_journal w @ [e]\<rparr>)"

definition entry :: "string \<Rightarrow> string \<Rightarrow> string \<Rightarrow> journal_entry" where
  "entry service level event =
     \<lparr>je_service = service, je_actor = ''system'', je_level = level, je_event = event, je_routeKey = JUndef,
      je_method = JUndef, je_path = JUndef, je_topic = JUndef, je_action = JUndef, je_conflictWith = None, je_changes = [], je_message = None\<rparr>"

text \<open>\<open>c.owner ?? 'manual'\<close>.\<close>

definition ownerOr :: "doc \<Rightarrow> string" where
  "ownerOr d = (case field d ''owner'' of JStr s \<Rightarrow> s | _ \<Rightarrow> ''manual'')"

definition quoted :: "string \<Rightarrow> string" where
  "quoted s = CHR 0x27 # s @ [CHR 0x27]"

text \<open>The keys of the gateway file, then those of manifest routes that somebody else owns.\<close>

definition yamlReserved :: "doc list \<Rightarrow> (string, string) omap" where
  "yamlReserved paths = fold (\<lambda>p m. AList.update (routeKeyOf p) ''yaml'' m) paths []"

fun reserveOthers :: "'s path_deps \<Rightarrow> string \<Rightarrow> doc list \<Rightarrow> (string, string) omap \<Rightarrow>
    ('s sync_world, (string, string) omap) eff" where
  "reserveOthers d service [] reserved = ret reserved"
| "reserveOthers d service (r # rs) reserved =
     (let key = routeKeyOf r in
      if key \<in> fst ` set reserved then reserveOthers d service rs reserved
      else and_then (on_paths (pd_filterKey d key)) (\<lambda>clashes.
        (case find (\<lambda>c. ownerOr c \<noteq> service) clashes of
           None \<Rightarrow> reserveOthers d service rs reserved
         | Some other \<Rightarrow> reserveOthers d service rs (AList.update key (ownerOr other) reserved))))"

definition applyCollision :: "string \<Rightarrow> route_ref \<Rightarrow> ('s sync_world, unit) eff" where
  "applyCollision service c =
     (if rf_conflictWith c = ''yaml'' \<or> rf_conflictWith c = ''manual'' then ret ()
      else journal ((entry service ''warn'' ''collision'')
        \<lparr>je_routeKey := JStr (rf_routeKey c), je_method := rf_method c, je_path := rf_path c,
         je_conflictWith := Some (rf_conflictWith c),
         je_message := Some (''route '' @ quoted (rf_routeKey c) @ '' already owned by '' @ quoted (rf_conflictWith c) @ ''; skipped'')\<rparr>))"

definition applyInvalid :: "string \<Rightarrow> doc \<Rightarrow> ('s sync_world, unit) eff" where
  "applyInvalid service r =
     journal ((entry service ''error'' ''invalid'')
       \<lparr>je_message := Some (''invalid route dropped: '' @ take 200 (coalesce (json_stringify (JObj r)) ''undefined''))\<rparr>)"

definition raceLost :: "string \<Rightarrow> upsert \<Rightarrow> doc list \<Rightarrow> ('s sync_world, bool option) eff" where
  "raceLost service u clashes =
     (let conflictWith = (case find (\<lambda>c. ownerOr c \<noteq> service) clashes of None \<Rightarrow> ''manual'' | Some c \<Rightarrow> ownerOr c) in
      and_then (journal ((entry service ''warn'' ''collision'')
        \<lparr>je_routeKey := JStr (up_routeKey u), je_method := field (up_model u) ''method'', je_path := field (up_model u) ''path'',
         je_conflictWith := Some conflictWith,
         je_message := Some (''route '' @ quoted (up_routeKey u) @ '' claimed concurrently by '' @ quoted conflictWith @ ''; skipped'')\<rparr>))
       (\<lambda>_. ret None))"

text \<open>The write of one upsert: \<open>Some added\<close> when it went through, \<open>None\<close> when another owner won
  the key meanwhile.\<close>

definition reconcile :: "'s path_deps \<Rightarrow> string \<Rightarrow> upsert \<Rightarrow> jserr \<Rightarrow> ('s sync_world, bool option) eff" where
  "reconcile d service u e =
     (if ename e \<noteq> ''ConflictError'' then throw e
      else and_then (on_paths (pd_filterKey d (up_routeKey u))) (\<lambda>clashes.
        let mine = Option.bind (find (\<lambda>c. ownerOr c = service) clashes) id_of in
        if truthy_str mine
        then and_then (on_paths (pd_updateById d (the mine) (up_model u))) (\<lambda>_. ret (Some False))
        else raceLost service u clashes))"

definition writeUpsert :: "'s path_deps \<Rightarrow> string \<Rightarrow> upsert \<Rightarrow> ('s sync_world, bool option) eff" where
  "writeUpsert d service u =
     try_catch
       (if truthy_str (up_existingId u)
        then and_then (on_paths (pd_updateById d (the (up_existingId u)) (up_model u))) (\<lambda>_. ret (Some (up_added u)))
        else and_then (on_paths (pd_insert d (up_model u))) (\<lambda>_. ret (Some (up_added u))))
       (reconcile d service u)"

definition applyUpsert :: "'s path_deps \<Rightarrow> string \<Rightarrow> upsert \<Rightarrow> ('s sync_world, unit) eff" where
  "applyUpsert d service u =
     and_then (writeUpsert d service u) (\<lambda>added.
       case added of
         None \<Rightarrow> ret ()
       | Some a \<Rightarrow>
           journal ((entry service ''info'' (if a then ''added'' else ''updated''))
             \<lparr>je_routeKey := JStr (up_routeKey u), je_method := field (up_model u) ''method'', je_path := field (up_model u) ''path'',
              je_topic := field (up_model u) ''topic'', je_action := field (up_model u) ''action'', je_changes := coalesce (up_changes u) [],
              je_message := (if coalesce (up_changes u) [] = [] then None else Some (renderChanges (coalesce (up_changes u) [])))\<rparr>))"

definition applyDisable :: "'s path_deps \<Rightarrow> string \<Rightarrow> route_disable \<Rightarrow> ('s sync_world, unit) eff" where
  "applyDisable d service x =
     and_then (on_paths (pd_updateById d (di_id x) [(''enabled'', JBool False)])) (\<lambda>_.
       journal ((entry service ''info'' ''removed'')\<lparr>je_routeKey := JStr (di_routeKey x), je_method := di_method x, je_path := di_path x\<rparr>))"

definition applySkipped :: "string \<Rightarrow> route_ref \<Rightarrow> ('s sync_world, unit) eff" where
  "applySkipped service x =
     journal ((entry service ''info'' ''skipped'')
       \<lparr>je_routeKey := JStr (rf_routeKey x), je_method := rf_method x, je_path := rf_path x,
        je_message := Some ''route user-modified; manifest update skipped''\<rparr>)"

definition triggerReload :: "gateway_sync_config \<Rightarrow> ('s sync_world, unit) eff" where
  "triggerReload cfg w =
     (if \<not> truthy_str (gs_reloadTopic cfg) then (Inr (), w)
      else (Inr (), w\<lparr>sw_reloads := sw_reloads w @ [the (gs_reloadTopic cfg)]\<rparr>))"

definition finishSync :: "gateway_sync_config \<Rightarrow> string \<Rightarrow> route_diff \<Rightarrow> ('s sync_world, unit) eff" where
  "finishSync cfg service df =
     (if rd_changed df
      then and_then (triggerReload cfg) (\<lambda>_. journal ((entry service ''info'' ''reload'')
        \<lparr>je_message := Some (nat_str (length (rd_upserts df)) @ '' upserted, '' @ nat_str (length (rd_disables df)) @ '' removed, '' @
           nat_str (length (rd_skipped df)) @ '' user-modified skipped, '' @ nat_str (length (rd_collisions df)) @ '' collision(s)'')\<rparr>))
      else ret ())"

definition applyDiff :: "'s path_deps \<Rightarrow> gateway_sync_config \<Rightarrow> string \<Rightarrow> route_diff \<Rightarrow> ('s sync_world, unit) eff" where
  "applyDiff d cfg service df =
     and_then (for_each (applyCollision service) (rd_collisions df)) (\<lambda>_.
     and_then (for_each (applyInvalid service) (rd_invalid df)) (\<lambda>_.
     and_then (for_each (applyUpsert d service) (rd_upserts df)) (\<lambda>_.
     and_then (for_each (applyDisable d service) (rd_disables df)) (\<lambda>_.
     and_then (for_each (applySkipped service) (rd_skipped df)) (\<lambda>_.
       finishSync cfg service df)))))"

definition syncRoutes :: "'s path_deps \<Rightarrow> gateway_sync_config \<Rightarrow> string \<Rightarrow> doc list \<Rightarrow> ('s sync_world, unit) eff" where
  "syncRoutes d cfg service routes =
     and_then (on_paths (pd_filterOwner d service)) (\<lambda>existing.
     and_then (reserveOthers d service routes (yamlReserved (gs_yaml cfg))) (\<lambda>reserved.
       applyDiff d cfg service (diffRoutes service routes existing reserved)))"

text \<open>\<open>handle\<close> swallows every throw.\<close>

definition handle :: "'s path_deps \<Rightarrow> gateway_sync_config \<Rightarrow> manifest \<Rightarrow> 's sync_world \<Rightarrow> 's sync_world" where
  "handle d cfg m w =
     (if \<not> truthy_str (mf_service m) then w
      else snd (syncRoutes d cfg (the (mf_service m)) (coalesce (mf_routes m) []) w))"

section \<open>Only the service's own rows change\<close>

definition owned :: "string \<Rightarrow> doc \<Rightarrow> bool" where
  "owned service d \<longleftrightarrow> field d ''owner'' = JStr service"

definition others :: "string \<Rightarrow> doc list \<Rightarrow> doc list" where
  "others service ds = filter (\<lambda>d. \<not> owned service d) ds"

lemma ownerOr_owned: "service \<noteq> ''manual'' \<Longrightarrow> ownerOr d = service \<longleftrightarrow> owned service d"
  by (auto simp: ownerOr_def owned_def split: jval.splits)

lemma journal_state [simp]: "sw_paths (snd (journal e w)) = sw_paths w" "fst (journal e w) = Inr ()"
  by (simp_all add: journal_def)

lemma upsert_model_owner: "map_of (rev (upsert_model service key en ov m)) ''owner'' \<noteq> None"
proof -
  have "map_of (upsert_model service key en ov m) ''owner'' \<noteq> None" by (simp add: upsert_model_get)
  then show ?thesis by (simp add: map_of_eq_None_iff)
qed

definition sets_owner :: "string \<Rightarrow> doc \<Rightarrow> bool" where
  "sets_owner service m \<longleftrightarrow> (\<forall>k. map_of (rev m) k = map_of m k) \<and> map_of m ''owner'' = Some (JStr service)"

definition keeps_owner :: "doc \<Rightarrow> bool" where
  "keeps_owner m \<longleftrightarrow> map_of (rev m) ''owner'' = None"

lemma owned_patched: "sets_owner service m \<Longrightarrow> owned service (patched i d m)"
  by (simp add: owned_def sets_owner_def patched_def spread_field)

lemma owned_inserted: "sets_owner service m \<Longrightarrow> owned service (row_after i None m)"
  by (simp add: owned_def sets_owner_def row_after_def spread_field) (simp add: field_def)

lemma owned_kept: "keeps_owner m \<Longrightarrow> owned service (patched i d m) = owned service d"
  by (simp add: owned_def keeps_owner_def patched_def spread_field)

lemma id_patched [simp]: "id_of (patched i d m) = Some i"
  by (simp add: id_of_def patched_def spread_field)

text \<open>A plain manifest route: an object with distinct property names and no id of its own.\<close>

definition plain_route :: "doc \<Rightarrow> bool" where
  "plain_route r \<longleftrightarrow> distinct (map fst r) \<and> nullish (field r ''_id'')"

context path_repository
begin

text \<open>\<open>mine ids\<close>: the ids of rows that were the service's when the sync began.\<close>

definition bounded :: "string \<Rightarrow> string set \<Rightarrow> doc list \<Rightarrow> 's sync_world \<Rightarrow> bool" where
  "bounded service ids base w \<longleftrightarrow> pok (sw_paths w) \<and> others service (pview (sw_paths w)) = base \<and>
     (\<forall>d \<in> set (pview (sw_paths w)). \<forall>i \<in> ids. id_of d = Some i \<longrightarrow> owned service d)"

lemma bounded_journal: "bounded service ids base w \<Longrightarrow> bounded service ids base (snd (journal e w))"
  by (simp add: bounded_def)

lemma others_map_patched:
  assumes "\<And>d. d \<in> set ds \<Longrightarrow> id_of d = Some i \<Longrightarrow> owned service d"
    and "sets_owner service m \<or> keeps_owner m"
  shows "others service (map (\<lambda>d. if id_of d = Some i then patched i d m else d) ds) = others service ds"
  using assms(1)
proof (induction ds)
  case Nil
  then show ?case by (simp add: others_def)
next
  case (Cons d ds)
  have "owned service (patched i d m)" if "id_of d = Some i"
    using assms(2) Cons.prems [of d] that owned_patched owned_kept by auto
  with Cons show ?case by (auto simp: others_def)
qed

lemma bounded_update:
  assumes "bounded service ids base w" and "sets_owner service m \<or> keeps_owner m"
    and own: "\<And>d. d \<in> set (pview (sw_paths w)) \<Longrightarrow> id_of d = Some i \<Longrightarrow> owned service d"
  shows "bounded service ids base (snd (on_paths (pd_updateById deps i m) w))"
proof -
  obtain r s where q: "pd_updateById deps i m (sw_paths w) = (r, s)" by fastforce
  have "pok (sw_paths w)" using assms(1) by (simp add: bounded_def)
  note law = updateById_law [OF this q]
  show ?thesis
  proof (cases r)
    case (Inl e)
    with q law assms(1) show ?thesis by (simp add: on_paths_def bounded_def)
  next
    case (Inr x)
    then have v: "pview s = map (\<lambda>d. if id_of d = Some i then patched i d m else d) (pview (sw_paths w))" using law by simp
    have "owned service d'" if "d' \<in> set (pview s)" "j \<in> ids" "id_of d' = Some j" for d' j
    proof -
      from that(1) obtain d where d: "d \<in> set (pview (sw_paths w))" "d' = (if id_of d = Some i then patched i d m else d)"
        unfolding v by auto
      show ?thesis
      proof (cases "id_of d = Some i")
        case True
        with d own [OF d(1)] assms(2) show ?thesis using owned_patched owned_kept by auto
      next
        case False
        with d that assms(1) show ?thesis by (auto simp: bounded_def)
      qed
    qed
    moreover have "others service (pview s) = base"
      using others_map_patched [OF own assms(2)] assms(1) unfolding v by (simp add: bounded_def)
    ultimately show ?thesis using q law by (auto simp: on_paths_def bounded_def)
  qed
qed

lemma bounded_insert:
  assumes "bounded service ids base w" and "sets_owner service m" and n: "nullish (field m ''_id'')"
  shows "bounded service ids base (snd (on_paths (pd_insert deps m) w))"
proof -
  obtain r s where q: "pd_insert deps m (sw_paths w) = (r, s)" by fastforce
  have p: "pok (sw_paths w)" using assms by (simp add: bounded_def)
  from insert_law [OF p n q] q assms(1) owned_inserted [OF assms(2)] show ?thesis
    by (cases r) (auto simp: on_paths_def bounded_def others_def)
qed

lemma bounded_read_key:
  assumes "bounded service ids base w" and "on_paths (pd_filterKey deps key) w = (r, w')"
  shows "bounded service ids base w' \<and> pview (sw_paths w') = pview (sw_paths w) \<and>
    (\<forall>ds. r = Inr ds \<longrightarrow> ds = filter (\<lambda>d. field d ''routeKey'' = JStr key) (pview (sw_paths w)))"
proof -
  obtain q s where q: "pd_filterKey deps key (sw_paths w) = (q, s)" by fastforce
  have "pok (sw_paths w)" using assms(1) by (simp add: bounded_def)
  from filterKey_law [OF this q] q assms show ?thesis by (auto simp: on_paths_def bounded_def)
qed

lemma bounded_reserve:
  assumes "bounded service ids base w"
  shows "bounded service ids base (snd (reserveOthers deps service rs reserved w)) \<and>
    pview (sw_paths (snd (reserveOthers deps service rs reserved w))) = pview (sw_paths w)"
  using assms
proof (induction rs arbitrary: reserved w)
  case Nil
  then show ?case by simp
next
  case (Cons r rs)
  show ?case
  proof (cases "routeKeyOf r \<in> fst ` set reserved")
    case True
    with Cons show ?thesis by simp
  next
    case False
    obtain q w1 where q: "on_paths (pd_filterKey deps (routeKeyOf r)) w = (q, w1)" by fastforce
    note b = bounded_read_key [OF Cons.prems q]
    show ?thesis
    proof (cases q)
      case (Inl e)
      with False q b show ?thesis by (simp add: Let_def)
    next
      case (Inr clashes)
      with False q b Cons.IH [of w1] show ?thesis by (simp add: Let_def split: option.splits)
    qed
  qed
qed

lemma bounded_write:
  assumes "bounded service ids base w" and "service \<noteq> ''manual''" and "sets_owner service (up_model u)"
    and "\<And>i. up_existingId u = Some i \<Longrightarrow> i \<in> ids" and "\<not> truthy_str (up_existingId u) \<Longrightarrow> nullish (field (up_model u) ''_id'')"
  shows "bounded service ids base (snd (writeUpsert deps service u w))"
proof -
  let ?body = "if truthy_str (up_existingId u)
        then and_then (on_paths (pd_updateById deps (the (up_existingId u)) (up_model u))) (\<lambda>_. ret (Some (up_added u)))
        else and_then (on_paths (pd_insert deps (up_model u))) (\<lambda>_. ret (Some (up_added u)))"
  obtain r t where body: "?body w = (r, t)" by fastforce
  have keep: "snd (and_then m (\<lambda>_. ret x) v) = snd (m v)" for m :: "('s sync_world, doc option) eff" and x :: "bool option" and v
    by (cases "m v"; cases "fst (m v)") (auto simp: and_then_def)
  have keep': "snd (and_then m (\<lambda>_. ret x) v) = snd (m v)" for m :: "('s sync_world, doc) eff" and x :: "bool option" and v
    by (cases "m v"; cases "fst (m v)") (auto simp: and_then_def)
  have "bounded service ids base (snd (?body w))"
  proof (cases "truthy_str (up_existingId u)")
    case True
    then obtain i where i: "up_existingId u = Some i" by (cases "up_existingId u") auto
    with assms have "i \<in> ids" by simp
    with assms(1) have "\<And>d. d \<in> set (pview (sw_paths w)) \<Longrightarrow> id_of d = Some i \<Longrightarrow> owned service d" by (auto simp: bounded_def)
    with bounded_update [OF assms(1) disjI1 [OF assms(3)], of i] True i show ?thesis by (simp add: keep)
  next
    case False
    with bounded_insert [OF assms(1,3)] assms(5) show ?thesis by (simp add: keep')
  qed
  then have t: "bounded service ids base t" using body by simp
  show ?thesis
  proof (cases r)
    case (Inr x)
    with body t show ?thesis by (simp add: writeUpsert_def try_catch_def)
  next
    case (Inl e)
    with body have w: "writeUpsert deps service u w = reconcile deps service u e t" by (simp add: writeUpsert_def try_catch_def)
    obtain q t1 where q: "on_paths (pd_filterKey deps (up_routeKey u)) t = (q, t1)" by fastforce
    note b = bounded_read_key [OF t q]
    show ?thesis
    proof (cases "ename e \<noteq> ''ConflictError'' \<or> (\<exists>e'. q = Inl e')")
      case True
      with q t b w show ?thesis by (auto simp: reconcile_def)
    next
      case False
      then obtain clashes where clashes: "q = Inr clashes" and ce: "ename e = ''ConflictError''" by (cases q) auto
      let ?mine = "Option.bind (find (\<lambda>c. ownerOr c = service) clashes) id_of"
      show ?thesis
      proof (cases "truthy_str ?mine")
        case no: False
        then have "reconcile deps service u e t = raceLost service u clashes t1"
          using q clashes ce by (simp add: reconcile_def Let_def)
        moreover have "bounded service ids base (snd (raceLost service u clashes t1))"
          using conjunct1 [OF b] by (simp add: raceLost_def Let_def and_then_def journal_def bounded_def)
        ultimately show ?thesis using w by simp
      next
        case True
        then obtain c i where c: "find (\<lambda>c. ownerOr c = service) clashes = Some c" "id_of c = Some i"
          by (cases "find (\<lambda>c. ownerOr c = service) clashes"; cases "?mine") auto
        have "c \<in> set clashes" and "ownerOr c = service" using c(1) by (auto simp: find_Some_iff)
        moreover have "set clashes \<subseteq> set (pview (sw_paths t1))" using b clashes by auto
        ultimately have cin: "c \<in> set (pview (sw_paths t1))" and co: "owned service c"
          using ownerOr_owned [OF assms(2), of c] by auto
        have "pok (sw_paths t1)" using b by (simp add: bounded_def)
        then have inj: "\<And>d. d \<in> set (pview (sw_paths t1)) \<Longrightarrow> id_of d = Some i \<Longrightarrow> d = c"
          using pids [of "sw_paths t1"] cin c(2) by (auto simp: distinct_map inj_on_def)
        have "bounded service ids base (snd (on_paths (pd_updateById deps i (up_model u)) t1))"
          by (rule bounded_update) (use b co inj assms(3) in auto)
        with q clashes ce b w True c show ?thesis by (simp add: reconcile_def Let_def keep)
      qed
    qed
  qed
qed

lemma bounded_upsert:
  assumes "bounded service ids base w" and "service \<noteq> ''manual''" and "sets_owner service (up_model u)"
    and "\<And>i. up_existingId u = Some i \<Longrightarrow> i \<in> ids" and "\<not> truthy_str (up_existingId u) \<Longrightarrow> nullish (field (up_model u) ''_id'')"
  shows "bounded service ids base (snd (applyUpsert deps service u w))"
proof -
  obtain r t where r: "writeUpsert deps service u w = (r, t)" by fastforce
  with bounded_write [OF assms] have t: "bounded service ids base t" by simp
  then show ?thesis using r by (cases r) (auto simp: applyUpsert_def bounded_journal split: option.splits)
qed

lemma bounded_disable:
  assumes "bounded service ids base w" and "di_id x \<in> ids"
  shows "bounded service ids base (snd (applyDisable deps service x w))"
proof -
  let ?m = "[(''enabled'', JBool False)]"
  have k: "keeps_owner ?m" by (simp add: keeps_owner_def)
  obtain r t where r: "on_paths (pd_updateById deps (di_id x) ?m) w = (r, t)" by fastforce
  have "bounded service ids base t"
    using bounded_update [OF assms(1) disjI2 [OF k], of "di_id x"] assms r by (auto simp: bounded_def)
  then show ?thesis using r by (cases r) (auto simp: applyDisable_def bounded_journal)
qed

lemma bounded_sync:
  assumes "bounded service ids base w" and "service \<noteq> ''manual''"
    and ups: "\<And>u. u \<in> set (rd_upserts df) \<Longrightarrow> sets_owner service (up_model u) \<and> (\<forall>i. up_existingId u = Some i \<longrightarrow> i \<in> ids) \<and>
      (truthy_str (up_existingId u) \<or> nullish (field (up_model u) ''_id''))"
    and dis: "\<And>x. x \<in> set (rd_disables df) \<Longrightarrow> di_id x \<in> ids"
  shows "bounded service ids base (snd (applyDiff deps cfg service df w))"
proof -
  let ?I = "bounded service ids base"
  have step: "?I (snd (and_then m f v))" if "?I (snd (m v))" and "\<And>x t. ?I t \<Longrightarrow> ?I (snd (f x t))"
    for m :: "('s sync_world, unit) eff" and f :: "unit \<Rightarrow> ('s sync_world, unit) eff" and v
    using that by (cases "m v"; cases "fst (m v)") (auto simp: and_then_def)
  have c: "?I (snd (applyCollision service x v))" if "?I v" for x v
    using that by (simp add: applyCollision_def bounded_journal)
  have i: "?I (snd (applyInvalid service x v))" "?I (snd (applySkipped service y v))" if "?I v" for x y v
    using that by (simp_all add: applyInvalid_def applySkipped_def bounded_journal)
  have f: "?I (snd (finishSync cfg service df v))" if "?I v" for v
    using that by (auto simp: finishSync_def and_then_def triggerReload_def journal_def bounded_def)
  have l1: "?I (snd (for_each (applyCollision service) (rd_collisions df) v))" if "?I v" for v
    by (rule for_each_inv [where I = ?I]) (use c that in auto)
  have l2: "?I (snd (for_each (applyInvalid service) (rd_invalid df) v))" if "?I v" for v
    by (rule for_each_inv [where I = ?I]) (use i that in auto)
  have l3: "?I (snd (for_each (applyUpsert deps service) (rd_upserts df) v))" if "?I v" for v
  proof (rule for_each_inv [where I = ?I])
    fix u s assume u: "u \<in> set (rd_upserts df)" and s: "?I s"
    show "?I (snd (applyUpsert deps service u s))" by (rule bounded_upsert [OF s assms(2)]) (use ups [OF u] in auto)
  qed (rule that)
  have l4: "?I (snd (for_each (applyDisable deps service) (rd_disables df) v))" if "?I v" for v
    by (rule for_each_inv [where I = ?I]) (use bounded_disable dis that in auto)
  have l5: "?I (snd (for_each (applySkipped service) (rd_skipped df) v))" if "?I v" for v
    by (rule for_each_inv [where I = ?I]) (use i that in auto)
  show ?thesis unfolding applyDiff_def
    by (rule step, rule l1 [OF assms(1)], rule step, erule l2, rule step, erule l3, rule step, erule l4, rule step, erule l5,
        erule f)
qed

lemma sync_upserts:
  assumes "pok s" and "service \<noteq> ''manual''" and "\<forall>r \<in> set routes. plain_route r"
    and "u \<in> set (rd_upserts (diffRoutes service routes (filter (owned service) (pview s)) reserved))"
  shows "sets_owner service (up_model u) \<and> (\<forall>i. up_existingId u = Some i \<longrightarrow> (\<exists>d \<in> set (pview s). owned service d \<and> id_of d = Some i)) \<and>
    (truthy_str (up_existingId u) \<or> nullish (field (up_model u) ''_id''))"
proof -
  obtain r where r: "r \<in> set (firsts [] routes)" and
    cl: "classify service (existingByKey (filter (owned service) (pview s))) reserved r = OUpsert u"
    using upsert_origin [OF assms(4)] by blast
  have "r \<in> set routes" using firsts_keys [OF r] by simp
  then have plain: "distinct (map fst r)" "nullish (field r ''_id'')" using assms(3) by (auto simp: plain_route_def)
  define ex where "ex = map_of (existingByKey (filter (owned service) (pview s))) (routeKeyOf r)"
  obtain en ov where model: "up_model u = upsert_model service (routeKeyOf r) en ov (applyUserOverrides r ex ov)"
    using cl unfolding classify_def Let_def ex_def by (auto split: if_splits)
  have d: "distinct (map fst (up_model u))"
    unfolding model upsert_model_def by (intro spread_distinct applyUserOverrides_distinct plain)
  have "sets_owner service (up_model u)"
    using map_of_distinct_rev [OF d] by (simp add: sets_owner_def model upsert_model_get)
  moreover have "(\<forall>i. up_existingId u = Some i \<longrightarrow> (\<exists>d \<in> set (pview s). owned service d \<and> id_of d = Some i)) \<and>
    (truthy_str (up_existingId u) \<or> nullish (field (up_model u) ''_id''))"
  proof (cases ex)
    case None
    then have "field (up_model u) ''_id'' = field r ''_id''" by (simp add: model upsert_model_field applyUserOverrides_def)
    with plain classify_upsert [OF cl] None show ?thesis by (simp add: ex_def)
  next
    case (Some e)
    then have "e \<in> set (filter (owned service) (pview s))" using existingByKey_mem unfolding ex_def by blast
    then have e: "e \<in> set (pview s)" "owned service e" by simp_all
    with pids [OF assms(1)] obtain i where "id_of e = Some i" "i \<noteq> []" by auto
    with classify_upsert [OF cl] Some e show ?thesis by (auto simp: ex_def)
  qed
  ultimately show ?thesis by blast
qed

lemma sync_disables:
  assumes "pok s" and "x \<in> set (rd_disables (diffRoutes service routes (filter (owned service) (pview s)) reserved))"
  shows "\<exists>d \<in> set (pview s). owned service d \<and> id_of d = Some (di_id x)"
proof -
  obtain e where e: "map_of (existingByKey (filter (owned service) (pview s))) (di_routeKey x) = Some e" "di_id x = coalesce (id_of e) []"
    using disable_origin [OF assms(2)] by blast
  then have "e \<in> set (pview s)" "owned service e" using existingByKey_mem [OF e(1)] by auto
  moreover with pids [OF assms(1)] obtain i where "id_of e = Some i" by auto
  ultimately show ?thesis using e(2) by auto
qed

lemma handle_others:
  assumes ok: "pok (sw_paths w)" and "mf_service m = Some service" and man: "service \<noteq> ''manual''"
    and plain: "\<forall>r \<in> set (coalesce (mf_routes m) []). plain_route r"
  shows "pok (sw_paths (handle deps cfg m w)) \<and>
    others service (pview (sw_paths (handle deps cfg m w))) = others service (pview (sw_paths w))"
proof (cases "service = []")
  case True
  with assms show ?thesis by (simp add: handle_def)
next
  case False
  define routes where "routes = coalesce (mf_routes m) []"
  define ids where "ids = {i. \<exists>d \<in> set (pview (sw_paths w)). owned service d \<and> id_of d = Some i}"
  define base where "base = others service (pview (sw_paths w))"
  have h: "handle deps cfg m w = snd (syncRoutes deps cfg service routes w)"
    using False assms(2) by (simp add: handle_def routes_def)
  obtain r s where q: "pd_filterOwner deps service (sw_paths w) = (r, s)" by fastforce
  note law = filterOwner_law [OF ok q]
  define w1 where "w1 = w\<lparr>sw_paths := s\<rparr>"
  have qw: "on_paths (pd_filterOwner deps service) w = (r, w1)" using q by (simp add: on_paths_def w1_def)
  have uniq: "owned service d" if "d \<in> set (pview (sw_paths w))" "i \<in> ids" "id_of d = Some i" for d i
  proof -
    from that(2) obtain d' where "d' \<in> set (pview (sw_paths w))" "owned service d'" "id_of d' = Some i" by (auto simp: ids_def)
    with that pids [OF ok] show ?thesis by (auto simp: distinct_map inj_on_def)
  qed
  then have b1: "bounded service ids base w1" using law by (auto simp: bounded_def w1_def base_def)
  have "bounded service ids base (snd (syncRoutes deps cfg service routes w))"
  proof (cases r)
    case (Inl e)
    with qw b1 show ?thesis by (simp add: syncRoutes_def)
  next
    case (Inr existing)
    with law have ex: "existing = filter (owned service) (pview (sw_paths w))" by (simp add: owned_def [abs_def])
    obtain rr w2 where res: "reserveOthers deps service routes (yamlReserved (gs_yaml cfg)) w1 = (rr, w2)" by fastforce
    then have b2: "bounded service ids base w2" using bounded_reserve [OF b1] by (metis snd_conv)
    show ?thesis
    proof (cases rr)
      case l: (Inl e)
      with Inr qw res b2 show ?thesis by (simp add: syncRoutes_def)
    next
      case rv: (Inr reserved)
      have "bounded service ids base (snd (applyDiff deps cfg service (diffRoutes service routes existing reserved) w2))"
      proof (rule bounded_sync [OF b2 man])
        fix u assume "u \<in> set (rd_upserts (diffRoutes service routes existing reserved))"
        from sync_upserts [OF ok man plain [folded routes_def] this [unfolded ex]]
        show "sets_owner service (up_model u) \<and> (\<forall>i. up_existingId u = Some i \<longrightarrow> i \<in> ids) \<and>
          (truthy_str (up_existingId u) \<or> nullish (field (up_model u) ''_id''))" by (auto simp: ids_def)
      next
        fix x assume "x \<in> set (rd_disables (diffRoutes service routes existing reserved))"
        from sync_disables [OF ok this [unfolded ex]] show "di_id x \<in> ids" by (auto simp: ids_def)
      qed
      with Inr rv qw res show ?thesis by (simp add: syncRoutes_def)
    qed
  qed
  then show ?thesis unfolding h by (simp add: bounded_def base_def)
qed

end

section \<open>Properties\<close>

text \<open>C10: Over any repository that keeps the contract, one that reports unique-key conflicts
  included, processing a manifest leaves every row of another owner exactly as it was: all the
  rows that are not the service's own, the manual and disabled ones included, are the same before
  and after, in the same order, however far the sync got before a throw.\<close>

theorem handle_touches_own_rows:
  assumes "path_repository deps pview pok" and "pok (sw_paths w)"
    and "mf_service m = Some service" and "service \<noteq> ''manual''"
    and "\<forall>r \<in> set (coalesce (mf_routes m) []). plain_route r"
  shows "pok (sw_paths (handle deps cfg m w)) \<and>
    others service (pview (sw_paths (handle deps cfg m w))) = others service (pview (sw_paths w))"
  using assms by (rule path_repository.handle_others)

definition sample_world :: "collection sync_world" where
  "sample_world = \<lparr>sw_paths = snd (col_insert (sample_route @ [(''owner'', JStr ''other'')]) empty_collection), sw_journal = [], sw_reloads = []\<rparr>"

lemma mp_insert_ok:
  assumes "mp_ok c" and "nullish (field m ''_id'')"
  shows "mp_ok (snd (col_insert m c))"
  using mpaths.insert_law [OF assms, of "Inr (fst (col_insert m c))" "snd (col_insert m c)"]
  by (simp add: mem_paths_def mp_insert_def split: prod.splits)

lemma sample_world_ok: "mp_ok (sw_paths sample_world)"
proof -
  have "mp_ok empty_collection" by (simp add: mp_ok_def col_ok_def empty_collection_def)
  moreover have "nullish (field (sample_route @ [(''owner'', JStr ''other'')]) ''_id'')" by code_simp
  ultimately show ?thesis unfolding sample_world_def sync_world.simps by (rule mp_insert_ok)
qed

theorem handle_touches_own_rows_witness:
  "others ''svc'' (col_all (sw_paths (handle mem_paths \<lparr>gs_yaml = [], gs_reloadTopic = Some ''t''\<rparr>
     \<lparr>mf_service = Some ''svc'', mf_routes = Some [sample_route]\<rparr> sample_world))) = col_all (sw_paths sample_world)"
proof -
  have "others ''svc'' (col_all (sw_paths sample_world)) = col_all (sw_paths sample_world)" by code_simp
  moreover have "plain_route sample_route" by code_simp
  ultimately show ?thesis
    using handle_touches_own_rows [OF mpaths.path_repository_axioms sample_world_ok, of
        "\<lparr>mf_service = Some ''svc'', mf_routes = Some [sample_route]\<rparr>" "''svc''" "\<lparr>gs_yaml = [], gs_reloadTopic = Some ''t''\<rparr>"]
    by simp
qed

text \<open>A field that a microservice no longer sends stays in the stored row, as the update merges: the
  row the upsert leaves is the row it started from, whose content differs from the manifest's, so
  every announce of the same manifest writes it again, journals an update and reloads every gateway.\<close>

definition drop_row :: doc where
  "drop_row = spread (upsert_model ''svc'' (routeKeyOf sample_route) True [] sample_route) [(''timeout'', JNum 5), (''_id'', JStr ''1'')]"

lemma drop_content: "routeContent sample_route \<noteq> routeContent drop_row"
  by code_simp

lemma dropped_field_never_converges:
  "\<exists>u. classify ''svc'' [(routeKeyOf sample_route, drop_row)] [] sample_route = OUpsert u \<and>
     row_after ''1'' (Some drop_row) (up_model u) = drop_row"
proof -
  have m: "field drop_row ''modified'' \<noteq> JBool True" and o: "strs (field drop_row ''userOverrides'') = []" and e: "is_enabled drop_row"
    by code_simp+
  have merged: "applyUserOverrides sample_route (Some drop_row) [] = sample_route" by code_simp
  define u where "u = \<lparr>up_routeKey = routeKeyOf sample_route, up_existingId = id_of drop_row, up_added = False,
    up_model = upsert_model ''svc'' (routeKeyOf sample_route) True [] sample_route,
    up_changes = Some (diffRouteFields (Some drop_row) (Some sample_route))\<rparr>"
  have "classify ''svc'' [(routeKeyOf sample_route, drop_row)] [] sample_route = OUpsert u"
    using m drop_content by (simp add: classify_def Let_def o e merged u_def)
  moreover have "row_after ''1'' (Some drop_row) (upsert_model ''svc'' (routeKeyOf sample_route) True [] sample_route) = drop_row" by code_simp
  ultimately show ?thesis by (auto simp: u_def)
qed

end
