(* ===== verification/Gateway_Path.thy ===== *)
theory Gateway_Path
  imports Route_Sync Path_Order
begin

text \<open>
  The administrator's side of the stored routes, \<open>modules/gateway-admin/services/gateway-path.service.ts\<close>,
  over the same repository contract as the route sync (\<open>path_repository\<close>), and the in-memory
  journal of the gateway generator. A request body is a plain object; the journal is best effort
  and records what is sent to it.
\<close>

section \<open>The handlers\<close>

definition jour :: "string \<Rightarrow> string option \<Rightarrow> string \<Rightarrow> journal_entry" where
  "jour service currentUser event = (entry service ''info'' event)\<lparr>je_actor := coalesce currentUser ''unknown''\<rparr>"

definition assertNoRouteConflict :: "'s path_deps \<Rightarrow> string \<Rightarrow> string option \<Rightarrow> ('s sync_world, unit) eff" where
  "assertNoRouteConflict d routeKey excludeId =
     and_then (on_paths (pd_filterKey d routeKey)) (\<lambda>clashes.
       (case find (\<lambda>p. is_enabled p \<and> id_of p \<noteq> excludeId) clashes of
          None \<Rightarrow> ret ()
        | Some c \<Rightarrow> throw (conflict (''A route '' @ quoted routeKey @ '' already exists (owner '' @ quoted (ownerOr c) @
            '', id '' @ coalesce (id_of c) ''undefined'' @ '').''))))"

definition gp_create :: "'s path_deps \<Rightarrow> doc \<Rightarrow> string option \<Rightarrow> ('s sync_world, doc) eff" where
  "gp_create d model currentUser =
     (if \<not> truthy (field model ''name'') then throw (bad_request ''name is required'')
      else if \<not> truthy (field model ''method'') then throw (bad_request ''method is required'')
      else if \<not> truthy (field model ''path'') then throw (bad_request ''path is required'')
      else if \<not> truthy (field model ''topic'') then throw (bad_request ''topic is required'')
      else and_then (assertNoRouteConflict d (routeKeyOf model) None) (\<lambda>_.
        and_then (on_paths (pd_insert d (spread model
            [(''routeKey'', JStr (routeKeyOf model)), (''source'', JStr ''user''), (''modified'', JBool False)]))) (\<lambda>created.
        and_then (journal ((jour (ownerOr created) currentUser ''created'')
            \<lparr>je_routeKey := JStr (routeKeyOf model), je_method := field created ''method'', je_path := field created ''path'',
             je_topic := field created ''topic'', je_action := field created ''action''\<rparr>)) (\<lambda>_.
        ret created))))"

text \<open>The changes of an update against the stored row, and what they make of its lock and of the
  fields the user has overridden.\<close>

definition enabledChanged :: "doc option \<Rightarrow> doc \<Rightarrow> bool" where
  "enabledChanged existing model \<longleftrightarrow>
     (case existing of None \<Rightarrow> False
      | Some e \<Rightarrow> field model ''enabled'' \<noteq> JUndef \<and> is_enabled model \<noteq> is_enabled e)"

definition pathChanges :: "doc option \<Rightarrow> doc \<Rightarrow> field_change list" where
  "pathChanges existing model =
     (case existing of None \<Rightarrow> []
      | Some e \<Rightarrow> diffRouteFields (Some e) (Some (spread e model)) @
          (if enabledChanged existing model
           then [\<lparr>fc_field = ''enabled'', fc_added = [JBool (is_enabled model)], fc_removed = [JBool (is_enabled e)]\<rparr>]
           else []))"

definition changedHard :: "doc option \<Rightarrow> doc \<Rightarrow> string list" where
  "changedHard existing model = filter (\<lambda>f. f \<notin> set USER_OVERRIDABLE_FIELDS) (map fc_field (pathChanges existing model))"

definition changedSoft :: "doc option \<Rightarrow> doc \<Rightarrow> string list" where
  "changedSoft existing model = filter (\<lambda>f. f \<in> set USER_OVERRIDABLE_FIELDS) (map fc_field (pathChanges existing model))"

definition released :: "jval \<Rightarrow> string list" where
  "released v = (case v of JArr xs \<Rightarrow> map js_string xs | _ \<Rightarrow> if truthy v then [js_string v] else [])"

definition overridesAfter :: "doc option \<Rightarrow> doc \<Rightarrow> jval \<Rightarrow> string list" where
  "overridesAfter existing model rel =
     filter (\<lambda>f. f \<notin> set (released rel))
       (dedup ((case existing of None \<Rightarrow> [] | Some e \<Rightarrow> strs (field e ''userOverrides'')) @ changedSoft existing model))"

definition lockedAfter :: "doc option \<Rightarrow> doc \<Rightarrow> bool" where
  "lockedAfter existing model \<longleftrightarrow>
     changedHard existing model \<noteq> [] \<or> (case existing of None \<Rightarrow> False | Some e \<Rightarrow> truthy (field e ''modified''))"

definition body_id :: "doc \<Rightarrow> string" where
  "body_id body = (if truthy (field body ''id'') then js_string (field body ''id'') else [])"

definition body_rest :: "doc \<Rightarrow> doc" where
  "body_rest body = filter (\<lambda>(k, v). k \<noteq> ''id'' \<and> k \<noteq> ''_id'' \<and> k \<noteq> ''releaseOverrides'') body"

definition checkedModel :: "'s path_deps \<Rightarrow> string \<Rightarrow> doc \<Rightarrow> ('s sync_world, doc) eff" where
  "checkedModel d i rest =
     (if truthy (field rest ''method'') \<and> truthy (field rest ''path'')
      then and_then (assertNoRouteConflict d (routeKeyOf rest) (Some i)) (\<lambda>_.
        ret (spread rest [(''routeKey'', JStr (routeKeyOf rest))]))
      else ret rest)"

definition writtenModel :: "doc option \<Rightarrow> doc \<Rightarrow> jval \<Rightarrow> doc" where
  "writtenModel existing model rel =
     spread model [(''modified'', JBool (lockedAfter existing model)), (''userOverrides'', JArr (map JStr (overridesAfter existing model rel)))]"

definition ofield :: "doc option \<Rightarrow> string \<Rightarrow> jval" where
  "ofield x k = (case x of None \<Rightarrow> JUndef | Some d \<Rightarrow> field d k)"

definition owner_str :: "jval \<Rightarrow> string" where
  "owner_str v = (case v of JStr s \<Rightarrow> s | _ \<Rightarrow> ''manual'')"

definition gp_update :: "'s path_deps \<Rightarrow> doc \<Rightarrow> string option \<Rightarrow> ('s sync_world, doc option) eff" where
  "gp_update d body currentUser =
     (if body_id body = [] then throw (bad_request ''id is required'')
      else and_then (on_paths (pd_findById d (body_id body))) (\<lambda>existing.
        and_then (checkedModel d (body_id body) (body_rest body)) (\<lambda>model.
        and_then (on_paths (pd_updateById d (body_id body) (writtenModel existing model (field body ''releaseOverrides'')))) (\<lambda>updated.
        and_then (journal ((jour (owner_str (jcoal (ofield updated ''owner'') (ofield existing ''owner''))) currentUser ''updated'')
            \<lparr>je_routeKey := jcoal (ofield updated ''routeKey'') (ofield existing ''routeKey''),
             je_method := jcoal (ofield updated ''method'') (ofield existing ''method''),
             je_path := jcoal (ofield updated ''path'') (ofield existing ''path''),
             je_changes := pathChanges existing model,
             je_message := Some (renderChanges (pathChanges existing model))\<rparr>)) (\<lambda>_.
        ret updated)))))"

definition gp_remove :: "'s path_deps \<Rightarrow> string \<Rightarrow> string option \<Rightarrow> ('s sync_world, doc option) eff" where
  "gp_remove d i currentUser =
     and_then (on_paths (pd_removeById d i)) (\<lambda>removed.
     and_then (journal ((jour (owner_str (ofield removed ''owner'')) currentUser ''deleted'')
         \<lparr>je_routeKey := ofield removed ''routeKey'', je_method := ofield removed ''method'', je_path := ofield removed ''path''\<rparr>)) (\<lambda>_.
     ret removed))"

definition gp_get :: "'s path_deps \<Rightarrow> string \<Rightarrow> ('s sync_world, doc option) eff" where
  "gp_get d i = on_paths (pd_findById d i)"

text \<open>The readers, over the generator's collections.\<close>

definition gp_list :: "jval \<Rightarrow> jval \<Rightarrow> collection \<Rightarrow> doc pagination" where
  "gp_list page limit c = col_paginate [] (number_or page 1) (number_or limit 10) c"

definition gp_search :: "string option \<Rightarrow> jval \<Rightarrow> jval \<Rightarrow> collection \<Rightarrow> doc pagination" where
  "gp_search q page limit c = col_search q (number_or page 1) (number_or limit 10) c"

definition gp_export :: "collection \<Rightarrow> doc list" where
  "gp_export c = orderPaths (\<lambda>p. str_field p ''path'') (mp_listEnabled c)"

section \<open>The in-memory journal\<close>

definition ts_of :: "doc \<Rightarrow> int" where
  "ts_of r = number_or (field r ''ts'') 0"

definition newestFirst :: "doc list \<Rightarrow> doc list" where
  "newestFirst rows = sort_by (\<lambda>a b. ts_of b - ts_of a) rows"

definition jl_list :: "int \<Rightarrow> collection \<Rightarrow> doc list" where
  "jl_list limit c = js_slice (newestFirst (col_all c)) 0 limit"

definition log_match :: "doc \<Rightarrow> doc \<Rightarrow> bool" where
  "log_match f r \<longleftrightarrow>
     (\<forall>k \<in> set [''actor'', ''service'', ''event'', ''routeKey'']. nullish (field f k) \<or> field r k = field f k) \<and>
     (nullish (field f ''from'') \<or> number_or (field f ''from'') 0 \<le> ts_of r) \<and>
     (nullish (field f ''to'') \<or> ts_of r \<le> number_or (field f ''to'') 0)"

definition jl_query :: "doc \<Rightarrow> int \<Rightarrow> int \<Rightarrow> collection \<Rightarrow> doc pagination" where
  "jl_query f page limit c =
     (let rows = newestFirst (filter (log_match f) (col_all c));
          p = (if page < 1 then 1 else page);
          start = (p - 1) * limit
      in \<lparr>pg_page = p, pg_limit = limit, pg_total = length rows, pg_data = js_slice rows start (start + limit)\<rparr>)"

definition jl_prune :: "int \<Rightarrow> collection \<Rightarrow> nat \<times> collection" where
  "jl_prune olderThan c =
     (let stale = filter (\<lambda>r. ts_of r < olderThan) (col_all c)
      in (length stale, fold (\<lambda>r c. snd (col_removeById (coalesce (id_of r) []) c)) stale c))"

definition gp_logList :: "jval \<Rightarrow> collection \<Rightarrow> doc list" where
  "gp_logList limit c = jl_list (number_or limit 100) c"

definition gp_logSearch :: "doc \<Rightarrow> jval \<Rightarrow> jval \<Rightarrow> collection \<Rightarrow> doc pagination" where
  "gp_logSearch f page limit c =
     jl_query (map (\<lambda>(k, v). if (k = ''from'' \<or> k = ''to'') \<and> \<not> nullish v
         then (k, case js_number v of None \<Rightarrow> JUndef | Some n \<Rightarrow> JNum n) else (k, v)) f)
       (number_or page 1) (number_or limit 20) c"

section \<open>The user's edit and the next sync\<close>

lemma dedup_mem: "f \<in> set (overridesAfter existing model rel) \<longleftrightarrow>
   f \<notin> set (released rel) \<and> (f \<in> set (changedSoft existing model) \<or>
     (case existing of None \<Rightarrow> False | Some e \<Rightarrow> f \<in> set (strs (field e ''userOverrides''))))"
  by (auto simp: overridesAfter_def split: option.splits)

lemma written_distinct: "distinct (map fst m) \<Longrightarrow> distinct (map fst (writtenModel e m rel))"
  by (simp add: writtenModel_def spread_distinct)

lemma written_get:
  "map_of (writtenModel existing model rel) k =
    (if k = ''userOverrides'' then Some (JArr (map JStr (overridesAfter existing model rel)))
     else if k = ''modified'' then Some (JBool (lockedAfter existing model)) else map_of model k)"
  by (simp add: writtenModel_def spread_get)

lemma patched_control:
  assumes "distinct (map fst m)"
  shows "field (patched i e (writtenModel existing m rel)) ''modified'' = JBool (lockedAfter existing m)"
    and "strs (field (patched i e (writtenModel existing m rel)) ''userOverrides'') = overridesAfter existing m rel"
  using row_after_field [OF written_distinct [OF assms], of i "Some e" existing rel "''modified''"]
    row_after_field [OF written_distinct [OF assms], of i "Some e" existing rel "''userOverrides''"]
  by (simp_all add: row_after_def written_get)

text \<open>A locked row is never upserted, and an upsert keeps the value of every overridden field.\<close>

lemma classify_locked:
  assumes "map_of byKey (routeKeyOf r) = Some row" and "field row ''modified'' = JBool True"
  shows "classify service byKey reserved r \<noteq> OUpsert u"
  using assms by (simp add: classify_def Let_def)

lemma overridable_field:
  "f \<in> set USER_OVERRIDABLE_FIELDS \<Longrightarrow> f \<notin> {''owner'', ''routeKey'', ''source'', ''modified'', ''userOverrides''}"
  by (auto simp: USER_OVERRIDABLE_FIELDS_def)

lemma classify_keeps_overrides:
  assumes "map_of byKey (routeKeyOf r) = Some row" and "classify service byKey reserved r = OUpsert u"
    and "f \<in> set (strs (field row ''userOverrides''))" and "f \<in> set USER_OVERRIDABLE_FIELDS"
  shows "field (up_model u) f = (if f = ''enabled'' then JBool (is_enabled row) else field row f)"
proof -
  define ov en where "ov = strs (field row ''userOverrides'')" and "en = (if ''enabled'' \<in> set ov then is_enabled row else True)"
  have "up_model u = upsert_model service (routeKeyOf r) en ov (applyUserOverrides r (Some row) ov)"
    using assms(1,2) unfolding classify_def Let_def ov_def en_def by (auto split: if_splits)
  with overridable_field [OF assms(4)] assms(3) show ?thesis
    by (auto simp: upsert_model_field applyUserOverrides_field ov_def en_def)
qed

text \<open>Keeping the key in sync is not a change of content.\<close>

lemma pathChanges_routeKey:
  assumes "distinct (map fst rest)"
  shows "pathChanges ex (spread rest [(''routeKey'', v)]) = pathChanges ex rest"
proof (cases ex)
  case None
  then show ?thesis by (simp add: pathChanges_def)
next
  case (Some e)
  have d: "distinct (map fst (spread rest [(''routeKey'', v)]))" by (rule spread_distinct [OF assms])
  have f: "field (spread e (spread rest [(''routeKey'', v)])) k = field (spread e rest) k" if "k \<noteq> ''routeKey''" for k
    using that by (simp add: spread_field map_of_distinct_rev [OF d] map_of_distinct_rev [OF assms] spread_get)
  have "diffField (Some e) (Some (spread e (spread rest [(''routeKey'', v)]))) k = diffField (Some e) (Some (spread e rest)) k"
    if "k \<in> set ROUTE_FIELDS" for k
    using f [of k] route_fields_content [OF that] by (simp add: diffField_def)
  then have "List.map_filter (diffField (Some e) (Some (spread e (spread rest [(''routeKey'', v)])))) ks =
      List.map_filter (diffField (Some e) (Some (spread e rest))) ks" if "set ks \<subseteq> set ROUTE_FIELDS" for ks
    using that by (induction ks) (auto simp: List.map_filter_def)
  then have "diffRouteFields (Some e) (Some (spread e (spread rest [(''routeKey'', v)]))) = diffRouteFields (Some e) (Some (spread e rest))"
    by (simp add: diffRouteFields_def)
  moreover have "field (spread rest [(''routeKey'', v)]) ''enabled'' = field rest ''enabled''" by (simp add: spread_field)
  ultimately show ?thesis unfolding Some by (simp add: pathChanges_def enabledChanged_def is_enabled_def)
qed

lemma routeKey_no_change:
  assumes "distinct (map fst rest)"
  shows "lockedAfter ex (spread rest [(''routeKey'', v)]) = lockedAfter ex rest"
    and "changedSoft ex (spread rest [(''routeKey'', v)]) = changedSoft ex rest"
  by (simp_all add: lockedAfter_def changedSoft_def changedHard_def pathChanges_routeKey [OF assms])

lemma body_rest_distinct: "distinct (map fst body) \<Longrightarrow> distinct (map fst (body_rest body))"
  unfolding body_rest_def by (rule om_distinct_filter)

context path_repository
begin

lemma read_key:
  assumes "pok (sw_paths w)" and "on_paths (pd_filterKey deps key) w = (r1, w')"
  shows "pok (sw_paths w') \<and> pview (sw_paths w') = pview (sw_paths w) \<and>
    (\<forall>ds. r1 = Inr ds \<longrightarrow> ds = filter (\<lambda>d. field d ''routeKey'' = JStr key) (pview (sw_paths w)))"
proof -
  obtain q s where q: "pd_filterKey deps key (sw_paths w) = (q, s)" by fastforce
  from filterKey_law [OF assms(1) q] q assms(2) show ?thesis by (auto simp: on_paths_def)
qed

lemma conflict_check:
  assumes "pok (sw_paths w)" and "assertNoRouteConflict deps key ex w = (r, w')"
  shows "pok (sw_paths w') \<and> pview (sw_paths w') = pview (sw_paths w) \<and>
    (r = Inr () \<longrightarrow> (\<forall>d \<in> set (pview (sw_paths w)). is_enabled d \<longrightarrow> field d ''routeKey'' = JStr key \<longrightarrow> id_of d = ex))"
proof -
  obtain q w1 where q: "on_paths (pd_filterKey deps key) w = (q, w1)" by fastforce
  note k = read_key [OF assms(1) q]
  show ?thesis
  proof (cases q)
    case (Inl e)
    with q k assms(2) show ?thesis by (auto simp: assertNoRouteConflict_def)
  next
    case (Inr clashes)
    show ?thesis
    proof (cases "find (\<lambda>p. is_enabled p \<and> id_of p \<noteq> ex) clashes")
      case None
      with q assms(2) Inr have "r = Inr ()" "w' = w1" by (auto simp: assertNoRouteConflict_def)
      with k Inr None show ?thesis by (auto simp: find_None_iff)
    next
      case (Some c)
      with q k assms(2) Inr show ?thesis by (auto simp: assertNoRouteConflict_def)
    qed
  qed
qed

lemma on_update:
  assumes "pok (sw_paths w)" and "on_paths (pd_updateById deps i m) w = (r, w')"
  shows "pok (sw_paths w') \<and> (case r of Inl e \<Rightarrow> pview (sw_paths w') = pview (sw_paths w)
        | Inr x \<Rightarrow> pview (sw_paths w') = map (\<lambda>d. if id_of d = Some i then patched i d m else d) (pview (sw_paths w)) \<and>
            x = map_option (\<lambda>d. patched i d m) (find (\<lambda>d. id_of d = Some i) (pview (sw_paths w))))"
proof -
  obtain q s where q: "pd_updateById deps i m (sw_paths w) = (q, s)" by fastforce
  with assms(2) have e: "r = q" "sw_paths w' = s" by (auto simp: on_paths_def)
  show ?thesis unfolding e by (rule updateById_law [OF assms(1) q])
qed

lemma on_find:
  assumes "pok (sw_paths w)" and "on_paths (pd_findById deps i) w = (r, w')"
  shows "pok (sw_paths w') \<and> pview (sw_paths w') = pview (sw_paths w) \<and>
    (\<forall>x. r = Inr x \<longrightarrow> x = find (\<lambda>d. id_of d = Some i) (pview (sw_paths w)))"
proof -
  obtain q s where q: "pd_findById deps i (sw_paths w) = (q, s)" by fastforce
  with assms(2) have "r = q" "sw_paths w' = s" by (auto simp: on_paths_def)
  with findById_law [OF assms(1) q] show ?thesis by simp
qed

lemma on_insert:
  assumes "pok (sw_paths w)" and "nullish (field m ''_id'')" and "on_paths (pd_insert deps m) w = (r, w')"
  shows "pok (sw_paths w') \<and> (case r of Inl e \<Rightarrow> pview (sw_paths w') = pview (sw_paths w)
        | Inr d \<Rightarrow> (\<exists>i. d = row_after i None m \<and> pview (sw_paths w') = pview (sw_paths w) @ [d]))"
proof -
  obtain q s where q: "pd_insert deps m (sw_paths w) = (q, s)" by fastforce
  with assms(3) have e: "r = q" "sw_paths w' = s" by (auto simp: on_paths_def)
  show ?thesis unfolding e by (rule insert_law [OF assms(1,2) q])
qed

lemma checked:
  assumes "pok (sw_paths w)" and "checkedModel deps i rest w = (r, w')"
  shows "pok (sw_paths w') \<and> pview (sw_paths w') = pview (sw_paths w) \<and>
    (\<forall>m. r = Inr m \<longrightarrow> (m = rest \<or> m = spread rest [(''routeKey'', JStr (routeKeyOf rest))]) \<and>
       (truthy (field rest ''method'') \<and> truthy (field rest ''path'') \<longrightarrow>
          m = spread rest [(''routeKey'', JStr (routeKeyOf rest))] \<and>
          (\<forall>d \<in> set (pview (sw_paths w)). is_enabled d \<longrightarrow> field d ''routeKey'' = JStr (routeKeyOf rest) \<longrightarrow> id_of d = Some i)))"
proof (cases "truthy (field rest ''method'') \<and> truthy (field rest ''path'')")
  case False
  with assms show ?thesis by (auto simp: checkedModel_def)
next
  case True
  obtain q w1 where q: "assertNoRouteConflict deps (routeKeyOf rest) (Some i) w = (q, w1)" by fastforce
  from conflict_check [OF assms(1) q] True q assms(2) show ?thesis by (cases q) (auto simp: checkedModel_def)
qed

text \<open>What a successful update did.\<close>

lemma update_spec:
  assumes ok: "pok (sw_paths w)" and run: "gp_update deps body cu w = (r, w')"
  shows "pok (sw_paths w') \<and>
    (case r of Inl e \<Rightarrow> pview (sw_paths w') = pview (sw_paths w)
     | Inr x \<Rightarrow> (\<exists>m. (m = body_rest body \<or> m = spread (body_rest body) [(''routeKey'', JStr (routeKeyOf (body_rest body)))]) \<and>
         (truthy (field (body_rest body) ''method'') \<and> truthy (field (body_rest body) ''path'') \<longrightarrow>
            m = spread (body_rest body) [(''routeKey'', JStr (routeKeyOf (body_rest body)))] \<and>
            (\<forall>d \<in> set (pview (sw_paths w)). is_enabled d \<longrightarrow> field d ''routeKey'' = JStr (routeKeyOf (body_rest body)) \<longrightarrow> id_of d = Some (body_id body))) \<and>
         (let ex = find (\<lambda>d. id_of d = Some (body_id body)) (pview (sw_paths w));
              wm = writtenModel ex m (field body ''releaseOverrides'')
          in pview (sw_paths w') = map (\<lambda>d. if id_of d = Some (body_id body) then patched (body_id body) d wm else d) (pview (sw_paths w)) \<and>
             x = map_option (\<lambda>d. patched (body_id body) d wm) ex)))"
proof (cases "body_id body = []")
  case True
  with run ok show ?thesis by (auto simp: gp_update_def)
next
  case False
  let ?i = "body_id body"
  obtain q1 w1 where q1: "on_paths (pd_findById deps ?i) w = (q1, w1)" by fastforce
  note l1 = on_find [OF ok q1]
  show ?thesis
  proof (cases q1)
    case (Inl e)
    with False q1 l1 run show ?thesis by (auto simp: gp_update_def)
  next
    case ex: (Inr existing)
    obtain q2 w2 where q2: "checkedModel deps ?i (body_rest body) w1 = (q2, w2)" by fastforce
    note l2 = checked [OF conjunct1 [OF l1] q2]
    show ?thesis
    proof (cases q2)
      case (Inl e)
      with False q1 ex l1 q2 l2 run show ?thesis by (auto simp: gp_update_def)
    next
      case m: (Inr m)
      let ?wm = "writtenModel existing m (field body ''releaseOverrides'')"
      obtain q3 w3 where q3: "on_paths (pd_updateById deps ?i ?wm) w2 = (q3, w3)" by fastforce
      note l3 = on_update [OF conjunct1 [OF l2] q3]
      show ?thesis
      proof (cases q3)
        case (Inl e)
        with False q1 ex l1 q2 m l2 q3 l3 run show ?thesis by (auto simp: gp_update_def)
      next
        case u: (Inr x)
        have r: "r = Inr x" "sw_paths w' = sw_paths w3"
          using False q1 ex q2 m q3 u run by (auto simp: gp_update_def journal_def and_then_def)
        have exf: "existing = find (\<lambda>d. id_of d = Some ?i) (pview (sw_paths w))" using l1 ex by simp
        have v1: "pview (sw_paths w1) = pview (sw_paths w)" and v2: "pview (sw_paths w2) = pview (sw_paths w)" using l1 l2 by simp_all
        note l2m = conjunct2 [OF conjunct2 [OF l2], rule_format, OF m, unfolded v1]
        note l3u = l3 [unfolded u sum.case v2, folded exf]
        show ?thesis unfolding r sum.case Let_def exf [symmetric]
          by (rule conjI [OF conjunct1 [OF l3u]], rule exI [of _ m], rule conjI [OF conjunct1 [OF l2m]],
              rule conjI [OF conjunct2 [OF l2m] conjunct2 [OF l3u]])
      qed
    qed
  qed
qed

lemma create_spec:
  assumes ok: "pok (sw_paths w)" and n: "nullish (field model ''_id'')" and run: "gp_create deps model cu w = (r, w')"
  shows "pok (sw_paths w') \<and>
    (case r of Inl e \<Rightarrow> pview (sw_paths w') = pview (sw_paths w)
     | Inr d \<Rightarrow> truthy (field model ''name'') \<and> truthy (field model ''method'') \<and> truthy (field model ''path'') \<and> truthy (field model ''topic'') \<and>
         (\<exists>i. d = row_after i None (spread model [(''routeKey'', JStr (routeKeyOf model)), (''source'', JStr ''user''), (''modified'', JBool False)])) \<and>
         pview (sw_paths w') = pview (sw_paths w) @ [d] \<and>
         (\<forall>x \<in> set (pview (sw_paths w)). is_enabled x \<longrightarrow> field x ''routeKey'' \<noteq> JStr (routeKeyOf model)))"
proof (cases "truthy (field model ''name'') \<and> truthy (field model ''method'') \<and> truthy (field model ''path'') \<and> truthy (field model ''topic'')")
  case False
  with run ok show ?thesis by (auto simp: gp_create_def split: if_splits)
next
  case True
  let ?key = "routeKeyOf model"
  let ?m = "spread model [(''routeKey'', JStr ?key), (''source'', JStr ''user''), (''modified'', JBool False)]"
  have nm: "nullish (field ?m ''_id'')" using n by (simp add: spread_field)
  obtain q1 w1 where q1: "assertNoRouteConflict deps ?key None w = (q1, w1)" by fastforce
  note l1 = conflict_check [OF ok q1]
  show ?thesis
  proof (cases q1)
    case (Inl e)
    with True q1 l1 run show ?thesis by (auto simp: gp_create_def)
  next
    case u: (Inr u)
    obtain q2 w2 where q2: "on_paths (pd_insert deps ?m) w1 = (q2, w2)" by fastforce
    note l2 = on_insert [OF conjunct1 [OF l1] nm q2]
    show ?thesis
    proof (cases q2)
      case (Inl e)
      with True q1 u l1 q2 l2 run show ?thesis by (auto simp: gp_create_def)
    next
      case d: (Inr d)
      have r: "r = Inr d" "sw_paths w' = sw_paths w2"
        using True q1 u q2 d run by (auto simp: gp_create_def journal_def and_then_def)
      have "is_enabled x \<longrightarrow> field x ''routeKey'' \<noteq> JStr ?key" if "x \<in> set (pview (sw_paths w))" for x
        using l1 u pids [OF ok] that by fastforce
      with True l1 l2 [unfolded d sum.case] show ?thesis unfolding r sum.case by metis
    qed
  qed
qed

end

section \<open>Properties\<close>


definition sample_row :: doc where
  "sample_row = hd (col_all (sw_paths sample_world))"

definition edit_body :: doc where
  "edit_body = [(''id'', field sample_row ''_id''), (''timeout'', JNum 7)]"


text \<open>No accepted request leaves a second enabled route with the identity it asked for: after a
  successful create, or a successful update that names method and path, every enabled row with that
  method and path other than the written one is gone; a refused request (a missing field, an
  identity already taken, a store that throws) leaves the rows as they were. A created row is
  always marked as the user's, unlocked, with the key of its method and path.\<close>

theorem accepted_route_is_unique:
  assumes "path_repository deps pview pok" and "pok (sw_paths w)"
  shows "(\<forall>model cu r w'. nullish (field model ''_id'') \<and> distinct (map fst model) \<and> gp_create deps model cu w = (r, w') \<longrightarrow>
      (case r of Inl e \<Rightarrow> pview (sw_paths w') = pview (sw_paths w)
       | Inr d \<Rightarrow> pview (sw_paths w') = pview (sw_paths w) @ [d] \<and> field d ''routeKey'' = JStr (routeKeyOf model) \<and>
           field d ''source'' = JStr ''user'' \<and> field d ''modified'' = JBool False \<and>
           (\<forall>x \<in> set (pview (sw_paths w)). is_enabled x \<longrightarrow> field x ''routeKey'' \<noteq> JStr (routeKeyOf model)))) \<and>
    (\<forall>body cu r w'. gp_update deps body cu w = (r, w') \<longrightarrow>
      (case r of Inl e \<Rightarrow> pview (sw_paths w') = pview (sw_paths w)
       | Inr x \<Rightarrow> truthy (field (body_rest body) ''method'') \<and> truthy (field (body_rest body) ''path'') \<longrightarrow>
           (\<forall>d \<in> set (pview (sw_paths w')). is_enabled d \<longrightarrow> field d ''routeKey'' = JStr (routeKeyOf (body_rest body)) \<longrightarrow>
              id_of d = Some (body_id body))))"
proof (intro conjI allI impI)
  fix model :: doc and cu r w'
  assume a: "nullish (field model ''_id'') \<and> distinct (map fst model) \<and> gp_create deps model cu w = (r, w')"
  then have spec: "case r of Inl e \<Rightarrow> pview (sw_paths w') = pview (sw_paths w)
     | Inr d \<Rightarrow> truthy (field model ''name'') \<and> truthy (field model ''method'') \<and> truthy (field model ''path'') \<and> truthy (field model ''topic'') \<and>
         (\<exists>i. d = row_after i None (spread model [(''routeKey'', JStr (routeKeyOf model)), (''source'', JStr ''user''), (''modified'', JBool False)])) \<and>
         pview (sw_paths w') = pview (sw_paths w) @ [d] \<and>
         (\<forall>x \<in> set (pview (sw_paths w)). is_enabled x \<longrightarrow> field x ''routeKey'' \<noteq> JStr (routeKeyOf model))"
    using path_repository.create_spec [OF assms, of model cu r w'] by blast
  let ?m = "spread model [(''routeKey'', JStr (routeKeyOf model)), (''source'', JStr ''user''), (''modified'', JBool False)]"
  have dm: "distinct (map fst ?m)" using a by (simp add: spread_distinct)
  show "case r of Inl e \<Rightarrow> pview (sw_paths w') = pview (sw_paths w)
     | Inr d \<Rightarrow> pview (sw_paths w') = pview (sw_paths w) @ [d] \<and> field d ''routeKey'' = JStr (routeKeyOf model) \<and>
         field d ''source'' = JStr ''user'' \<and> field d ''modified'' = JBool False \<and>
         (\<forall>x \<in> set (pview (sw_paths w)). is_enabled x \<longrightarrow> field x ''routeKey'' \<noteq> JStr (routeKeyOf model))"
  proof (cases r)
    case (Inl e)
    with spec show ?thesis by simp
  next
    case (Inr d)
    then obtain i where "d = row_after i None ?m" using spec by auto
    then have "field d ''routeKey'' = JStr (routeKeyOf model)" "field d ''source'' = JStr ''user''" "field d ''modified'' = JBool False"
      by (simp_all add: row_after_field [OF dm] spread_get)
    with spec Inr show ?thesis by simp
  qed
next
  fix body cu r w'
  assume "gp_update deps body cu w = (r, w')"
  note spec = path_repository.update_spec [OF assms this]
  show "case r of Inl e \<Rightarrow> pview (sw_paths w') = pview (sw_paths w)
     | Inr x \<Rightarrow> truthy (field (body_rest body) ''method'') \<and> truthy (field (body_rest body) ''path'') \<longrightarrow>
         (\<forall>d \<in> set (pview (sw_paths w')). is_enabled d \<longrightarrow> field d ''routeKey'' = JStr (routeKeyOf (body_rest body)) \<longrightarrow>
            id_of d = Some (body_id body))"
  proof (cases r)
    case (Inl e)
    with spec show ?thesis by simp
  next
    case (Inr x)
    from conjunct2 [OF spec, unfolded Inr sum.case] show ?thesis unfolding Inr sum.case Let_def by auto
  qed
qed

theorem accepted_route_is_unique_witness:
  "case gp_create mem_paths (sample_route @ [(''enabled'', JBool True)]) None sample_world of
     (r, w') \<Rightarrow> (case r of Inl e \<Rightarrow> col_all (sw_paths w') = col_all (sw_paths sample_world) | Inr d \<Rightarrow> field d ''source'' = JStr ''user'')"
proof -
  let ?m = "sample_route @ [(''enabled'', JBool True)]"
  have n: "nullish (field ?m ''_id'') \<and> distinct (map fst ?m)" by code_simp
  obtain r w' where run: "gp_create mem_paths ?m None sample_world = (r, w')" by fastforce
  note unique = accepted_route_is_unique [OF mpaths.path_repository_axioms sample_world_ok, THEN conjunct1, rule_format, of "?m" None r w']
  from unique n run show ?thesis by (cases r) simp_all
qed

text \<open>An update that names the path but not the method is neither checked against the other routes
  nor given its new key: the row is then reachable by a path its key does not say, a second enabled
  route can be created on the same method and path, and the route sync no longer finds the row.\<close>

definition clash_world :: "collection sync_world" where
  "clash_world = sample_world\<lparr>sw_paths := \<lparr>mc_items =
     [(''1'', sample_route @ [(''_id'', JStr ''1''), (''routeKey'', JStr ''GET /a'')]),
      (''2'', [(''method'', JStr ''GET''), (''path'', JStr ''/b''), (''_id'', JStr ''2''), (''routeKey'', JStr ''GET /b'')])], mc_seq = 3\<rparr>\<rparr>"

lemma partial_update_skips_the_check:
  "map (\<lambda>d. (routeKeyOf d, field d ''routeKey'')) (col_all (sw_paths (snd (gp_update mem_paths [(''id'', JStr ''2''), (''path'', JStr ''/a'')] None clash_world))))
    = [(''GET /a'', JStr ''GET /a''), (''GET /a'', JStr ''GET /b'')]"
  by code_simp

text \<open>Enabling a disabled row does not look for an enabled one of the same key either.\<close>

definition disabled_world :: "collection sync_world" where
  "disabled_world = sample_world\<lparr>sw_paths := \<lparr>mc_items =
     [(''1'', sample_route @ [(''_id'', JStr ''1''), (''routeKey'', JStr ''GET /a'')]),
      (''2'', sample_route @ [(''_id'', JStr ''2''), (''routeKey'', JStr ''GET /a''), (''enabled'', JBool False)])], mc_seq = 3\<rparr>\<rparr>"

lemma reenable_skips_the_check:
  "map (\<lambda>d. (field d ''routeKey'', is_enabled d)) (col_all (sw_paths (snd (gp_update mem_paths [(''id'', JStr ''2''), (''enabled'', JBool True)] None disabled_world))))
    = [(JStr ''GET /a'', True), (JStr ''GET /a'', True)]"
  by code_simp

end
