(* ===== verification/Gateway_Providers.thy ===== *)
theory Gateway_Providers
  imports Gateway_Path
begin

text \<open>
  The administration of the stored auth providers,
  \<open>modules/gateway-admin/services/gateway-auth.service.ts\<close>, over the contract of
  \<open>repository/auth-provider.repository.ts\<close> and the in-memory repository of the gateway
  generator, and the readiness probe of \<open>gateway-health.service.ts\<close>.

  A provider has no id of its own: the name is its identity. Removing one is guarded by the routes
  that reference it, so the service also works on the route repository, whose contract is extended
  by the lookup of the routes that name a provider.
\<close>

section \<open>The repositories\<close>

record 's provider_deps =
  ad_findByName :: "string \<Rightarrow> ('s, doc option) eff"
  ad_upsertByName :: "string \<Rightarrow> doc \<Rightarrow> ('s, doc) eff"
  ad_removeByName :: "string \<Rightarrow> ('s, doc option) eff"

definition by_name :: "string \<Rightarrow> filt" where
  "by_name name = [(''name'', CEq (JStr name))]"

definition ma_findByName :: "string \<Rightarrow> (collection, doc option) eff" where
  "ma_findByName name c = (Inr (col_findOne (by_name name) c), c)"

definition ma_upsertByName :: "string \<Rightarrow> doc \<Rightarrow> (collection, doc) eff" where
  "ma_upsertByName name model c = (case col_upsertOne (by_name name) model c of (d, c') \<Rightarrow> (Inr d, c'))"

definition ma_removeByName :: "string \<Rightarrow> (collection, doc option) eff" where
  "ma_removeByName name c = (case col_removeOne (by_name name) c of (r, c') \<Rightarrow> (Inr r, c'))"

definition ma_listEnabled :: "collection \<Rightarrow> doc list" where
  "ma_listEnabled c = map toPlain (filter is_enabled (col_all c))"

definition mem_providers :: "collection provider_deps" where
  "mem_providers = \<lparr>ad_findByName = ma_findByName, ad_upsertByName = ma_upsertByName, ad_removeByName = ma_removeByName\<rparr>"

definition mp_filterAuth :: "string \<Rightarrow> (collection, doc list) eff" where
  "mp_filterAuth name c = (Inr (col_filter [(''auth'', CEq (JStr name))] c), c)"

section \<open>The service\<close>

record ('a, 'p) admin_world =
  aw_providers :: 'a
  aw_routes :: 'p

definition on_providers :: "('a, 'b) eff \<Rightarrow> (('a, 'p) admin_world, 'b) eff" where
  "on_providers f w = (case f (aw_providers w) of (r, x) \<Rightarrow> (r, w\<lparr>aw_providers := x\<rparr>))"

definition on_routes :: "('p, 'b) eff \<Rightarrow> (('a, 'p) admin_world, 'b) eff" where
  "on_routes f w = (case f (aw_routes w) of (r, x) \<Rightarrow> (r, w\<lparr>aw_routes := x\<rparr>))"

definition ga_upsert :: "'a provider_deps \<Rightarrow> string \<Rightarrow> doc \<Rightarrow> ('a, doc) eff" where
  "ga_upsert d name model =
     (if name = [] then throw (bad_request ''name is required'')
      else if \<not> truthy (field model ''type'') then throw (bad_request ''type is required'')
      else ad_upsertByName d name model)"

definition clearAuth :: "'p path_deps \<Rightarrow> doc \<Rightarrow> ('p, unit) eff" where
  "clearAuth d r =
     (if truthy_str (id_of r) then and_then (pd_updateById d (the (id_of r)) [(''auth'', JNull)]) (\<lambda>_. ret ()) else ret ())"

text \<open>\<open>force !== true && force !== 'true'\<close>, and the error of a guarded delete; its list of routes
  is a value of its own, as errors carry a text here.\<close>

definition forced :: "jval \<Rightarrow> bool" where
  "forced force \<longleftrightarrow> force = JBool True \<or> force = JStr ''true''"

definition referenced_error :: "string \<Rightarrow> doc list \<Rightarrow> jserr" where
  "referenced_error name routes =
     conflict (''Auth provider '' @ quoted name @ '' is referenced by '' @ nat_str (length routes) @
       '' route(s); pass force=true to delete it and clear '' @ quoted ''auth'' @ '' on them.'')"

definition referenced_routes :: "doc list \<Rightarrow> doc list" where
  "referenced_routes routes =
     map (\<lambda>r. [(''routeKey'', field r ''routeKey''), (''method'', field r ''method''), (''path'', field r ''path''), (''name'', field r ''name'')]) routes"

definition ga_remove ::
  "'a provider_deps \<Rightarrow> 'p path_deps \<Rightarrow> (string \<Rightarrow> ('p, doc list) eff) \<Rightarrow> string \<Rightarrow> jval \<Rightarrow> (('a, 'p) admin_world, doc option) eff" where
  "ga_remove ad pd filterAuth name force =
     (if name = [] then throw (bad_request ''name is required'')
      else and_then (on_routes (filterAuth name)) (\<lambda>routes.
        and_then
          (if routes = [] then ret ()
           else if \<not> forced force then throw (referenced_error name routes)
           else on_routes (for_each (clearAuth pd) routes)) (\<lambda>_.
        on_providers (ad_removeByName ad name))))"

definition ga_get :: "'a provider_deps \<Rightarrow> string \<Rightarrow> ('a, doc option) eff" where
  "ga_get d name = (if name = [] then throw (bad_request ''name is required'') else ad_findByName d name)"

definition ga_list :: "jval \<Rightarrow> jval \<Rightarrow> collection \<Rightarrow> doc pagination" where
  "ga_list page limit c = col_paginate [] (number_or page 1) (number_or limit 10) c"

definition ga_search :: "string option \<Rightarrow> jval \<Rightarrow> jval \<Rightarrow> collection \<Rightarrow> doc pagination" where
  "ga_search q page limit c = col_search q (number_or page 1) (number_or limit 10) c"

definition ga_export :: "collection \<Rightarrow> doc list" where
  "ga_export c = ma_listEnabled c"

section \<open>The contracts\<close>

text \<open>A store of providers is a map from names: what a lookup, an upsert and a removal do to it. A
  call that throws leaves it as it was.\<close>

definition named :: "string \<Rightarrow> doc \<Rightarrow> bool" where
  "named name d \<longleftrightarrow> field d ''name'' = JStr name"

definition merged_field :: "doc option \<Rightarrow> doc \<Rightarrow> string \<Rightarrow> jval" where
  "merged_field old m k = (case map_of m k of Some v \<Rightarrow> v | None \<Rightarrow> ofield old k)"

locale provider_store =
  fixes deps :: "'s provider_deps" and provider :: "'s \<Rightarrow> string \<Rightarrow> doc option" and aok :: "'s \<Rightarrow> bool"
  assumes find_law: "aok s \<Longrightarrow> ad_findByName deps n s = (r, s') \<Longrightarrow>
      aok s' \<and> provider s' = provider s \<and> (\<forall>x. r = Inr x \<longrightarrow> x = provider s n)"
    and upsert_law: "aok s \<Longrightarrow> distinct (map fst m) \<Longrightarrow> map_of m ''_id'' = None \<Longrightarrow> named n m \<Longrightarrow> ad_upsertByName deps n m s = (r1, s') \<Longrightarrow>
      aok s' \<and> (case r1 of Inl e \<Rightarrow> provider s' = provider s
        | Inr d \<Rightarrow> provider s' = (provider s)(n \<mapsto> d) \<and> (\<forall>k. k \<noteq> ''_id'' \<longrightarrow> field d k = merged_field (provider s n) m k))"
    and remove_law: "aok s \<Longrightarrow> ad_removeByName deps n s = (r, s') \<Longrightarrow>
      aok s' \<and> (case r of Inl e \<Rightarrow> provider s' = provider s | Inr x \<Rightarrow> provider s' = (provider s)(n := None) \<and> x = provider s n)"

locale route_references = path_repository deps pview pok
  for deps :: "'p path_deps" and pview :: "'p \<Rightarrow> doc list" and pok :: "'p \<Rightarrow> bool" +
  fixes filterAuth :: "string \<Rightarrow> ('p, doc list) eff"
  assumes filterAuth_law: "pok s \<Longrightarrow> filterAuth n s = (r1, s') \<Longrightarrow>
      pok s' \<and> pview s' = pview s \<and> (\<forall>ds. r1 = Inr ds \<longrightarrow> ds = filter (\<lambda>d. field d ''auth'' = JStr n) (pview s))"

subsection \<open>Clearing the references\<close>

definition unauth :: "doc \<Rightarrow> doc" where
  "unauth d = patched (the (id_of d)) d [(''auth'', JNull)]"

definition clear_ids :: "string option set \<Rightarrow> doc list \<Rightarrow> doc list" where
  "clear_ids ids rows = map (\<lambda>d. if id_of d \<in> ids then unauth d else d) rows"

lemma patched_field: "field (patched i d m) k = (if k = ''_id'' then JStr i else case map_of (rev m) k of Some v \<Rightarrow> v | None \<Rightarrow> field d k)"
  by (simp add: patched_def spread_field split: option.split)

lemma patched_id_of [simp]: "id_of (patched i d m) = Some i"
  by (simp add: id_of_def patched_field)

lemma unauth_field: "k \<noteq> ''_id'' \<Longrightarrow> field (unauth d) k = (if k = ''auth'' then JNull else field d k)"
  by (simp add: unauth_def patched_field)

lemma clear_ids_step:
  assumes "Some i \<notin> ids"
  shows "clear_ids ids (map (\<lambda>d. if id_of d = Some i then patched i d [(''auth'', JNull)] else d) rows) = clear_ids (insert (Some i) ids) rows"
  using assms by (auto simp: clear_ids_def unauth_def)

lemma on_routes_parts: "fst (on_routes f w) = fst (f (aw_routes w))" "aw_routes (snd (on_routes f w)) = snd (f (aw_routes w))"
  "aw_providers (snd (on_routes f w)) = aw_providers w"
  by (simp_all add: on_routes_def split: prod.split)

lemma on_providers_parts: "fst (on_providers f w) = fst (f (aw_providers w))" "aw_providers (snd (on_providers f w)) = snd (f (aw_providers w))"
  "aw_routes (snd (on_providers f w)) = aw_routes w"
  by (simp_all add: on_providers_def split: prod.split)

context route_references
begin

lemma clear_loop:
  assumes "pok s" and "for_each (clearAuth deps) ds s = (r, s')" and "distinct (map id_of ds)"
    and "\<forall>d \<in> set ds. \<exists>i. id_of d = Some i \<and> i \<noteq> []"
  shows "pok s' \<and> (r = Inr () \<longrightarrow> pview s' = clear_ids (id_of ` set ds) (pview s))"
  using assms
proof (induction ds arbitrary: s)
  case Nil
  then show ?case by (simp add: clear_ids_def)
next
  case (Cons d ds)
  obtain i where i: "id_of d = Some i" "i \<noteq> []" using Cons.prems(4) by auto
  obtain r2 t where u: "pd_updateById deps i [(''auth'', JNull)] s = (r2, t)" by fastforce
  note law = updateById_law [OF Cons.prems(1) u]
  have c: "clearAuth deps d s = (case r2 of Inl e \<Rightarrow> (Inl e, t) | Inr x \<Rightarrow> (Inr (), t))"
    using i u by (simp add: clearAuth_def truthy_str_def and_then_def split: sum.split)
  show ?case
  proof (cases r2)
    case (Inl e)
    with c law Cons.prems(2) show ?thesis by auto
  next
    case (Inr x)
    with c Cons.prems(2) have f: "for_each (clearAuth deps) ds t = (r, s')" by simp
    have t: "pok t" "pview t = map (\<lambda>d. if id_of d = Some i then patched i d [(''auth'', JNull)] else d) (pview s)"
      using law Inr by simp_all
    have "Some i \<notin> id_of ` set ds" using Cons.prems(3) i by (metis distinct.simps(2) list.map(2) set_map)
    with Cons.IH [OF t(1) f] Cons.prems(3,4) t(2) i show ?thesis by (simp add: clear_ids_step)
  qed
qed

lemma clear_references:
  assumes "pok s" and "for_each (clearAuth deps) (filter (\<lambda>d. field d ''auth'' = JStr n) (pview s)) s = (r, s')"
  shows "pok s' \<and> (r = Inr () \<longrightarrow> pview s' = map (\<lambda>d. if field d ''auth'' = JStr n then unauth d else d) (pview s))"
proof -
  let ?P = "\<lambda>d. field d ''auth'' = JStr n"
  note ids = pids [OF assms(1)]
  have "id_of d \<in> id_of ` set (filter ?P (pview s)) \<longleftrightarrow> ?P d" if "d \<in> set (pview s)" for d
    using ids that by (auto simp: distinct_map dest: inj_onD)
  then have "clear_ids (id_of ` set (filter ?P (pview s))) (pview s) = map (\<lambda>d. if ?P d then unauth d else d) (pview s)"
    unfolding clear_ids_def by (intro map_cong [OF HOL.refl]) simp
  moreover have "distinct (map id_of (filter ?P (pview s)))" using ids by (simp add: distinct_map_filter)
  ultimately show ?thesis using clear_loop [OF assms] ids by auto
qed

end

section \<open>The in-memory repositories keep the contracts\<close>

definition mem_provider :: "collection \<Rightarrow> string \<Rightarrow> doc option" where
  "mem_provider c n = find (named n) (col_all c)"

definition ma_ok :: "collection \<Rightarrow> bool" where
  "ma_ok c \<longleftrightarrow> mp_ok c \<and> distinct (map (\<lambda>d. field d ''name'') (col_all c))"

interpretation mrefs: route_references mem_paths col_all mp_ok mp_filterAuth
proof
  fix s n and r1 :: "jserr + doc list" and s'
  assume "mp_ok s" and "mp_filterAuth n s = (r1, s')"
  then show "mp_ok s' \<and> col_all s' = col_all s \<and> (\<forall>ds. r1 = Inr ds \<longrightarrow> ds = filter (\<lambda>d. field d ''auth'' = JStr n) (col_all s))"
    by (auto simp: mp_filterAuth_def col_filter_def col_all_def matches_single)
qed

lemma matches_name: "matches d (by_name n) = named n d"
  by (simp add: by_name_def matches_single named_def)

lemma find_items: "find (\<lambda>(i, v). P v) m = None \<Longrightarrow> find P (map snd m) = None"
  and find_items_Some: "find (\<lambda>(i, v). P v) m = Some (i, v) \<Longrightarrow> find P (map snd m) = Some v"
  by (induction m) (auto split: if_splits)

lemma row_unique:
  assumes "mp_ok c" and "(i, v) \<in> set (mc_items c)"
  shows "map_of (mc_items c) i = Some v" and "id_of v = Some i" and "i \<noteq> []" and "v \<in> set (col_all c)"
proof -
  have ok: "col_ok c" and ne: "[] \<notin> fst ` set (mc_items c)" using assms(1) by (simp_all add: mp_ok_def)
  show "map_of (mc_items c) i = Some v" using ok assms(2) by (simp add: col_ok_def)
  show "id_of v = Some i" by (rule item_id [OF ok assms(2)])
  show "i \<noteq> []" using ne rev_image_eqI [OF assms(2), of "[]" fst] by auto
  show "v \<in> set (col_all c)" unfolding col_all_def using rev_image_eqI [OF assms(2), of v snd] by simp
qed

lemma mp_upsert_rows:
  assumes "mp_ok c" and "nullish (jget (JObj m) ''_id'')" and "col_upsertOne (by_name n) m c = (d, c')"
  shows "mp_ok c' \<and>
    (case mem_provider c n of
       None \<Rightarrow> (\<exists>i. d = row_after i None m \<and> col_all c' = col_all c @ [d])
     | Some v \<Rightarrow> (\<exists>i. id_of v = Some i \<and> d = patched i v m \<and> col_all c' = map (\<lambda>w. if id_of w = Some i then patched i w m else w) (col_all c)))"
proof (cases "find (\<lambda>(i, v). matches v (by_name n)) (mc_items c)")
  case None
  then have "mem_provider c n = None" using find_items [of "named n"] by (simp add: mem_provider_def col_all_def matches_name)
  moreover obtain i where "col_insert m c = (d, c')" using None assms(3) by (simp add: col_upsertOne_def findId_def truthy_str_def)
  then have "pd_insert mem_paths m c = (Inr d, c')" by (simp add: mem_paths_def mp_insert_def)
  moreover have "nullish (field m ''_id'')" using assms(2) by (simp add: field_def)
  ultimately show ?thesis using mpaths.insert_law [OF assms(1)] by fastforce
next
  case (Some iv)
  obtain i v where iv: "iv = (i, v)" by (cases iv)
  then have "(i, v) \<in> set (mc_items c)" using Some by (auto dest: find_pair)
  note row = row_unique [OF assms(1) this]
  have "mem_provider c n = Some v" using Some iv find_items_Some [of "named n"] by (simp add: mem_provider_def col_all_def matches_name)
  moreover have "col_updateById i m c = (Some d, c')"
    using Some iv row assms(3) by (auto simp: col_upsertOne_def findId_def truthy_str_def col_updateById_def)
  then have "mp_updateById i m c = (Inr (Some d), c')" by (simp add: mp_updateById_def)
  moreover have "find (\<lambda>d. id_of d = Some i) (col_all c) = Some v" using find_by_id [of c i] assms(1) row by (simp add: mp_ok_def)
  ultimately show ?thesis using mp_update_rows [OF assms(1), of i m "Inr (Some d)" c'] row by simp
qed

lemma mp_remove_rows:
  assumes "mp_ok c" and "col_removeOne (by_name n) c = (r, c')"
  shows "mp_ok c' \<and> r = mem_provider c n \<and>
    (case mem_provider c n of None \<Rightarrow> col_all c' = col_all c | Some v \<Rightarrow> col_all c' = filter (\<lambda>w. id_of w \<noteq> id_of v) (col_all c))"
proof (cases "find (\<lambda>(i, v). matches v (by_name n)) (mc_items c)")
  case None
  then have "mem_provider c n = None" using find_items [of "named n"] by (simp add: mem_provider_def col_all_def matches_name)
  with None assms show ?thesis by (simp add: col_removeOne_def)
next
  case (Some iv)
  obtain i v where iv: "iv = (i, v)" by (cases iv)
  then have "(i, v) \<in> set (mc_items c)" using Some by (auto dest: find_pair)
  note row = row_unique [OF assms(1) this]
  have p: "mem_provider c n = Some v" using Some iv find_items_Some [of "named n"] by (simp add: mem_provider_def col_all_def matches_name)
  have r: "r = Some v" and c': "c' = c\<lparr>mc_items := AList.delete i (mc_items c)\<rparr>"
    using Some iv assms(2) by (simp_all add: col_removeOne_def)
  have "col_removeById i c = (r, c')" unfolding r c' using row(1) by (simp add: col_removeById_def)
  then have "pd_removeById mem_paths i c = (Inr r, c')" by (simp add: mem_paths_def mp_removeById_def)
  from mpaths.removeById_law [OF assms(1) this] have "mp_ok c'" "col_all c' = filter (\<lambda>d. id_of d \<noteq> Some i) (col_all c)"
    by (simp_all add: r)
  then show ?thesis unfolding p r by (simp add: row(2))
qed

text \<open>Names stay distinct, and a lookup sees the map the contract speaks of.\<close>

lemma find_named_map:
  assumes "\<And>w. w \<in> set rows \<Longrightarrow> field (f w) ''name'' = field w ''name''"
  shows "find (named n) (map f rows) = map_option f (find (named n) rows)"
  using assms by (induction rows) (auto simp: named_def)

lemma find_named_filter:
  assumes "\<And>w. w \<in> set rows \<Longrightarrow> named n w \<Longrightarrow> P w"
  shows "find (named n) (filter P rows) = find (named n) rows"
  using assms by (induction rows) auto

lemma ma_ids_names:
  assumes "ma_ok c" and "d \<in> set (col_all c)" and "d' \<in> set (col_all c)"
  shows "id_of d = id_of d' \<longleftrightarrow> field d ''name'' = field d' ''name''"
  using assms mpaths.pids [of c] by (auto simp: ma_ok_def distinct_map dest: inj_onD)

lemma mem_provider_named: "mem_provider c n = Some v \<Longrightarrow> v \<in> set (col_all c) \<and> named n v"
  by (auto simp: mem_provider_def find_Some_iff)

lemma mem_provider_fresh: "mem_provider c n = None \<longleftrightarrow> JStr n \<notin> set (map (\<lambda>d. field d ''name'') (col_all c))"
  unfolding mem_provider_def find_None_iff named_def set_map image_iff by metis

lemma ma_upsert:
  assumes "ma_ok c" and "distinct (map fst m)" and "map_of m ''_id'' = None" and "named n m" and "ma_upsertByName n m c = (r, c')"
  shows "ma_ok c' \<and> (case r of Inl e \<Rightarrow> mem_provider c' = mem_provider c
    | Inr d \<Rightarrow> mem_provider c' = (mem_provider c)(n \<mapsto> d) \<and> (\<forall>k. k \<noteq> ''_id'' \<longrightarrow> field d k = merged_field (mem_provider c n) m k))"
proof -
  obtain d where u: "col_upsertOne (by_name n) m c = (d, c')" and r: "r = Inr d"
    using assms(5) by (auto simp: ma_upsertByName_def split: prod.splits)
  have mp: "mp_ok c" using assms(1) by (simp add: ma_ok_def)
  have nl: "nullish (jget (JObj m) ''_id'')" using assms(3) by (simp add: nullish_def)
  note rows = mp_upsert_rows [OF mp nl u]
  have fld: "field d k = merged_field (mem_provider c n) m k" if "k \<noteq> ''_id''" for k
  proof (cases "mem_provider c n")
    case None
    with rows obtain i where "d = row_after i None m" by auto
    with that None show ?thesis by (simp add: row_after_field [OF assms(2)] merged_field_def ofield_def split: option.split)
  next
    case (Some v)
    with rows obtain i where "d = row_after i (Some v) m" by (auto simp: row_after_def)
    with that Some show ?thesis by (simp add: row_after_field [OF assms(2)] merged_field_def ofield_def split: option.split)
  qed
  have mn: "map_of m ''name'' = Some (JStr n)" using assms(4) by (auto simp: named_def field_def split: option.splits)
  then have nd: "field d ''name'' = JStr n" using fld [of "''name''"] by (simp add: merged_field_def)
  show ?thesis
  proof (cases "mem_provider c n")
    case None
    with rows have all: "col_all c' = col_all c @ [d]" and ok: "mp_ok c'" by auto
    have "mem_provider c' = (mem_provider c)(n \<mapsto> d)"
    proof
      fix k
      have "find P (xs @ [d]) = (case find P xs of Some y \<Rightarrow> Some y | None \<Rightarrow> if P d then Some d else None)" for P xs
        by (induction xs) auto
      with None nd show "mem_provider c' k = ((mem_provider c)(n \<mapsto> d)) k"
        by (simp add: mem_provider_def all named_def split: option.split)
    qed
    moreover have "ma_ok c'" using assms(1) ok None nd unfolding mem_provider_fresh by (simp add: ma_ok_def all)
    ultimately show ?thesis using fld by (simp add: r)
  next
    case (Some v)
    note v = mem_provider_named [OF Some]
    from rows Some obtain i where i: "id_of v = Some i" and d: "d = patched i v m" and ok: "mp_ok c'"
      and all: "col_all c' = map (\<lambda>w. if id_of w = Some i then patched i w m else w) (col_all c)" by auto
    have same: "w = v" if "w \<in> set (col_all c)" "id_of w = Some i" for w
      using inj_onD [of id_of "set (col_all c)" w v] mpaths.pids [OF mp] that v i by (simp add: distinct_map)
    have name: "field (if id_of w = Some i then patched i w m else w) ''name'' = field w ''name''" if "w \<in> set (col_all c)" for w
      using same [OF that] v nd by (auto simp: d named_def)
    have "map (\<lambda>d. field d ''name'') (col_all c') = map (\<lambda>d. field d ''name'') (col_all c)" using name by (simp add: all)
    with assms(1) ok have "ma_ok c'" by (simp add: ma_ok_def)
    moreover have "mem_provider c' = (mem_provider c)(n \<mapsto> d)"
    proof
      fix k
      have f: "mem_provider c' k = map_option (\<lambda>w. if id_of w = Some i then patched i w m else w) (mem_provider c k)"
        unfolding mem_provider_def all by (rule find_named_map) (use name in auto)
      show "mem_provider c' k = ((mem_provider c)(n \<mapsto> d)) k"
      proof (cases "k = n")
        case True
        with f Some i d show ?thesis by simp
      next
        case False
        have "id_of w \<noteq> Some i" if "mem_provider c k = Some w" for w
          using mem_provider_named [OF that] same [of w] v False by (auto simp: named_def)
        with f False show ?thesis by (cases "mem_provider c k") auto
      qed
    qed
    ultimately show ?thesis using fld by (simp add: r)
  qed
qed

lemma ma_remove:
  assumes "ma_ok c" and "ma_removeByName n c = (r, c')"
  shows "ma_ok c' \<and> (case r of Inl e \<Rightarrow> mem_provider c' = mem_provider c
    | Inr x \<Rightarrow> mem_provider c' = (mem_provider c)(n := None) \<and> x = mem_provider c n)"
proof -
  obtain x where u: "col_removeOne (by_name n) c = (x, c')" and r: "r = Inr x"
    using assms(2) by (auto simp: ma_removeByName_def split: prod.splits)
  have mp: "mp_ok c" using assms(1) by (simp add: ma_ok_def)
  note rows = mp_remove_rows [OF mp u]
  show ?thesis
  proof (cases "mem_provider c n")
    case None
    then have "(mem_provider c)(n := None) = mem_provider c" by auto
    with None rows assms(1) show ?thesis by (simp add: r ma_ok_def mem_provider_def [abs_def])
  next
    case (Some v)
    note v = mem_provider_named [OF Some]
    from rows Some have all: "col_all c' = filter (\<lambda>w. id_of w \<noteq> id_of v) (col_all c)" and ok: "mp_ok c'" and x: "x = Some v" by simp_all
    have iff: "id_of w = id_of v \<longleftrightarrow> named n w" if "w \<in> set (col_all c)" for w
      using ma_ids_names [OF assms(1) that, of v] v by (simp add: named_def)
    have "mem_provider c' = (mem_provider c)(n := None)"
    proof
      fix k
      show "mem_provider c' k = ((mem_provider c)(n := None)) k"
      proof (cases "k = n")
        case True
        with iff show ?thesis by (auto simp: mem_provider_def all find_None_iff)
      next
        case False
        then show ?thesis using iff unfolding mem_provider_def all by (subst find_named_filter) (auto simp: named_def)
      qed
    qed
    moreover have "ma_ok c'" using assms(1) ok by (simp add: ma_ok_def all distinct_map_filter)
    ultimately show ?thesis using Some by (simp add: r x)
  qed
qed

interpretation mprov: provider_store mem_providers mem_provider ma_ok
proof
  fix s n and r :: "jserr + doc option" and s'
  assume "ma_ok s" and "ad_findByName mem_providers n s = (r, s')"
  then show "ma_ok s' \<and> mem_provider s' = mem_provider s \<and> (\<forall>x. r = Inr x \<longrightarrow> x = mem_provider s n)"
    by (auto simp: mem_providers_def ma_findByName_def col_findOne_def mem_provider_def col_all_def matches_name)
next
  fix s m n and r :: "jserr + doc" and s'
  assume "ma_ok s" and "distinct (map fst m)" and "map_of m ''_id'' = None" and "named n m" and "ad_upsertByName mem_providers n m s = (r, s')"
  then show "ma_ok s' \<and> (case r of Inl e \<Rightarrow> mem_provider s' = mem_provider s
      | Inr d \<Rightarrow> mem_provider s' = (mem_provider s)(n \<mapsto> d) \<and> (\<forall>k. k \<noteq> ''_id'' \<longrightarrow> field d k = merged_field (mem_provider s n) m k))"
    using ma_upsert by (simp add: mem_providers_def)
next
  fix s n and r :: "jserr + doc option" and s'
  assume "ma_ok s" and "ad_removeByName mem_providers n s = (r, s')"
  then show "ma_ok s' \<and> (case r of Inl e \<Rightarrow> mem_provider s' = mem_provider s
      | Inr x \<Rightarrow> mem_provider s' = (mem_provider s)(n := None) \<and> x = mem_provider s n)"
    using ma_remove by (simp add: mem_providers_def)
qed

section \<open>Removing a provider\<close>

lemma on_routes_run: "f (aw_routes w) = (r, x) \<Longrightarrow> on_routes f w = (r, w\<lparr>aw_routes := x\<rparr>)"
  by (simp add: on_routes_def)

lemma on_providers_run: "f (aw_providers w) = (r, x) \<Longrightarrow> on_providers f w = (r, w\<lparr>aw_providers := x\<rparr>)"
  by (simp add: on_providers_def)

definition references :: "string \<Rightarrow> doc list \<Rightarrow> doc list" where
  "references name rows = filter (\<lambda>d. field d ''auth'' = JStr name) rows"

definition unreferenced :: "string \<Rightarrow> doc list \<Rightarrow> doc list" where
  "unreferenced name rows = map (\<lambda>d. if field d ''auth'' = JStr name then unauth d else d) rows"

lemma unreferenced_none: "references name rows = [] \<Longrightarrow> unreferenced name rows = rows"
  by (auto simp: references_def unreferenced_def filter_empty_conv intro: map_idI)

lemma references_cleared: "references name (unreferenced name rows) = []"
  by (auto simp: references_def unreferenced_def filter_empty_conv unauth_field)

locale provider_admin = route_references pdeps pview pok filterAuth + provider_store adeps provider aok
  for pdeps :: "'p path_deps" and pview :: "'p \<Rightarrow> doc list" and pok :: "'p \<Rightarrow> bool" and filterAuth :: "string \<Rightarrow> ('p, doc list) eff"
    and adeps :: "'a provider_deps" and provider :: "'a \<Rightarrow> string \<Rightarrow> doc option" and aok :: "'a \<Rightarrow> bool"
begin

lemma remove_outcome:
  assumes "pok (aw_routes w)" and "aok (aw_providers w)" and "ga_remove adeps pdeps filterAuth name force w = (res, w')"
  shows "pok (aw_routes w') \<and> aok (aw_providers w') \<and>
    (case res of
       Inl e \<Rightarrow> provider (aw_providers w') = provider (aw_providers w)
     | Inr x \<Rightarrow> provider (aw_providers w') = (provider (aw_providers w))(name := None) \<and> x = provider (aw_providers w) name \<and>
         name \<noteq> [] \<and> (references name (pview (aw_routes w)) = [] \<or> forced force) \<and>
         pview (aw_routes w') = unreferenced name (pview (aw_routes w))) \<and>
    (\<not> forced force \<longrightarrow> pview (aw_routes w') = pview (aw_routes w))"
proof (cases "name = []")
  case True
  with assms show ?thesis by (auto simp: ga_remove_def)
next
  case named: False
  obtain r1 s1 where f: "filterAuth name (aw_routes w) = (r1, s1)" by fastforce
  note read = filterAuth_law [OF assms(1) f]
  note run = assms(3) [unfolded ga_remove_def if_not_P [OF named]]
  show ?thesis
  proof (cases r1)
    case (Inl e)
    with run f read assms show ?thesis by (auto simp: on_routes_run)
  next
    case (Inr rows)
    with read have rows: "rows = references name (pview (aw_routes w))" and s1: "pok s1" "pview s1 = pview (aw_routes w)"
      by (simp_all add: references_def)
    note run2 = run [unfolded eff_simps(4) [of "on_routes (filterAuth name)", OF on_routes_run, OF f [unfolded Inr]]]
    define body :: "('a, 'p) admin_world \<Rightarrow> (jserr + unit) \<times> ('a, 'p) admin_world" where "body = (if rows = [] then ret () else if \<not> forced force then throw (referenced_error name rows)
       else on_routes (for_each (clearAuth pdeps) rows))"
    obtain r2 w2 where b: "body (w\<lparr>aw_routes := s1\<rparr>) = (r2, w2)" by fastforce
    have prov: "aw_providers w2 = aw_providers w" and ok: "pok (aw_routes w2)"
      and cleared: "r2 = Inr () \<Longrightarrow> (rows = [] \<or> forced force) \<and> pview (aw_routes w2) = unreferenced name (pview (aw_routes w))"
      and kept: "\<not> forced force \<Longrightarrow> pview (aw_routes w2) = pview (aw_routes w)"
    proof -
      obtain r3 s3 where l: "for_each (clearAuth pdeps) rows s1 = (r3, s3)" by fastforce
      note loop = clear_references [OF s1(1), of name, folded references_def, unfolded s1(2), folded rows, OF l]
      show "aw_providers w2 = aw_providers w" "pok (aw_routes w2)"
        "\<not> forced force \<Longrightarrow> pview (aw_routes w2) = pview (aw_routes w)"
        using b s1 loop l by (auto simp: body_def on_routes_def split: if_splits)
      show "(rows = [] \<or> forced force) \<and> pview (aw_routes w2) = unreferenced name (pview (aw_routes w))" if "r2 = Inr ()"
        using b s1 loop l that rows unreferenced_none [of name "pview (aw_routes w)"]
        by (auto simp: body_def on_routes_def unreferenced_def split: if_splits)
    qed
    obtain r4 s4 where d: "ad_removeByName adeps name (aw_providers w2) = (r4, s4)" by fastforce
    note gone = remove_law [OF assms(2) [folded prov] d]
    show ?thesis
    proof (cases r2)
      case (Inl e)
      with run2 b body_def have "res = Inl e" "w' = w2" by simp_all
      with prov ok kept assms(2) show ?thesis by simp
    next
      case (Inr u)
      with run2 b body_def d have "res = r4" "w' = w2\<lparr>aw_providers := s4\<rparr>" by (simp_all add: on_providers_run)
      with gone prov ok kept cleared Inr named rows show ?thesis by (auto split: sum.splits)
    qed
  qed
qed

end

interpretation madm: provider_admin mem_paths col_all mp_ok mp_filterAuth mem_providers mem_provider ma_ok
  by unfold_locales

section \<open>The administration as a map of providers\<close>

text \<open>What the administrators do, and what it means: a map from names to the fields of the provider
  (its internal id left out) and the set of names that routes reference.\<close>

datatype provider_op = PUpsert string doc | PRemove string jval

type_synonym mem_admin = "(collection, collection) admin_world"

fun provider_step :: "provider_op \<Rightarrow> mem_admin \<Rightarrow> mem_admin" where
  "provider_step (PUpsert n m) w = snd (on_providers (ga_upsert mem_providers n m) w)"
| "provider_step (PRemove n force) w = snd (ga_remove mem_providers mem_paths mp_filterAuth n force w)"

fun provider_op_ok :: "provider_op \<Rightarrow> bool" where
  "provider_op_ok (PUpsert n m) = (distinct (map fst m) \<and> map_of m ''_id'' = None \<and> (n \<noteq> [] \<longrightarrow> named n m))"
| "provider_op_ok (PRemove n force) = True"

type_synonym provider_map = "string \<Rightarrow> (string \<Rightarrow> jval) option"

definition public_fields :: "doc \<Rightarrow> string \<Rightarrow> jval" where
  "public_fields d k = (if k = ''_id'' then JUndef else field d k)"

fun spec_step :: "provider_op \<Rightarrow> provider_map \<times> string set \<Rightarrow> provider_map \<times> string set" where
  "spec_step (PUpsert n m) (ps, refs) =
     (if n = [] \<or> \<not> truthy (field m ''type'') then ps
      else ps(n \<mapsto> (\<lambda>k. case map_of m k of Some v \<Rightarrow> v | None \<Rightarrow> (case ps n of None \<Rightarrow> JUndef | Some f \<Rightarrow> f k))), refs)"
| "spec_step (PRemove n force) (ps, refs) =
     (if n = [] \<or> (n \<in> refs \<and> \<not> forced force) then (ps, refs) else (ps(n := None), refs - {n}))"

definition admin_abs :: "mem_admin \<Rightarrow> provider_map \<times> string set" where
  "admin_abs w = (\<lambda>n. map_option public_fields (mem_provider (aw_providers w) n),
     {n. \<exists>d \<in> set (col_all (aw_routes w)). field d ''auth'' = JStr n})"

definition admin_ok :: "mem_admin \<Rightarrow> bool" where
  "admin_ok w \<longleftrightarrow> ma_ok (aw_providers w) \<and> mp_ok (aw_routes w)"

lemma upsert_refines:
  assumes "admin_ok w" and "provider_op_ok (PUpsert n m)"
  shows "admin_ok (provider_step (PUpsert n m) w) \<and> admin_abs (provider_step (PUpsert n m) w) = spec_step (PUpsert n m) (admin_abs w)"
proof (cases "n = [] \<or> \<not> truthy (field m ''type'')")
  case True
  with assms(1) show ?thesis by (auto simp: on_providers_def ga_upsert_def admin_abs_def)
next
  case False
  obtain r c where u: "ad_upsertByName mem_providers n m (aw_providers w) = (r, c)" by fastforce
  then obtain d where r: "r = Inr d" by (auto simp: mem_providers_def ma_upsertByName_def split: prod.splits)
  have ok: "ma_ok (aw_providers w)" using assms(1) by (simp add: admin_ok_def)
  have n: "distinct (map fst m)" "map_of m ''_id'' = None" "named n m" using assms(2) False by simp_all
  note law = mprov.upsert_law [OF ok n u, unfolded r sum.case]
  have "public_fields d = (\<lambda>k. case map_of m k of Some v \<Rightarrow> v
      | None \<Rightarrow> (case map_option public_fields (mem_provider (aw_providers w) n) of None \<Rightarrow> JUndef | Some f \<Rightarrow> f k))"
  proof
    fix k
    show "public_fields d k = (case map_of m k of Some v \<Rightarrow> v
        | None \<Rightarrow> (case map_option public_fields (mem_provider (aw_providers w) n) of None \<Rightarrow> JUndef | Some f \<Rightarrow> f k))"
      using law n(2) by (cases "k = ''_id''") (auto simp: public_fields_def merged_field_def ofield_def split: option.split)
  qed
  moreover have "provider_step (PUpsert n m) w = w\<lparr>aw_providers := c\<rparr>"
    using False u by (simp add: ga_upsert_def on_providers_def)
  ultimately show ?thesis using law assms(1) False by (auto simp: admin_abs_def admin_ok_def)
qed

lemma unreferenced_refs:
  "{k. \<exists>d \<in> set (unreferenced n rows). field d ''auth'' = JStr k} = {k. \<exists>d \<in> set rows. field d ''auth'' = JStr k} - {n}"
  by (auto simp: unreferenced_def unauth_field)

lemma mem_remove_returns:
  assumes "admin_ok w" and "n \<noteq> []" and "references n (col_all (aw_routes w)) = [] \<or> forced force"
  shows "\<exists>x. fst (ga_remove mem_providers mem_paths mp_filterAuth n force w) = Inr x"
proof -
  have loop: "\<exists>t. for_each (clearAuth mem_paths) ds s = (Inr (), t)" for ds s
  proof (induction ds arbitrary: s)
    case (Cons d ds)
    have "\<exists>t. clearAuth mem_paths d s = (Inr (), t)"
      by (cases "truthy_str (id_of d)"; cases "col_updateById (the (id_of d)) [(''auth'', JNull)] s")
        (simp_all add: clearAuth_def mem_paths_def mp_updateById_def and_then_def)
    then show ?case using Cons.IH by (auto simp: and_then_def)
  qed simp
  have f: "mp_filterAuth n (aw_routes w) = (Inr (references n (col_all (aw_routes w))), aw_routes w)"
    by (simp add: mp_filterAuth_def col_filter_def references_def matches_single col_all_def)
  obtain t where t: "for_each (clearAuth mem_paths) (references n (col_all (aw_routes w))) (aw_routes w) = (Inr (), t)" using loop by blast
  show ?thesis using assms(2,3) f t
    by (auto simp: ga_remove_def and_then_def on_routes_def on_providers_def mem_providers_def ma_removeByName_def split: prod.split)
qed

lemma remove_refines:
  assumes "admin_ok w"
  shows "admin_ok (provider_step (PRemove n force) w) \<and> admin_abs (provider_step (PRemove n force) w) = spec_step (PRemove n force) (admin_abs w)"
proof -
  obtain res w' where r: "ga_remove mem_providers mem_paths mp_filterAuth n force w = (res, w')" by fastforce
  have step: "provider_step (PRemove n force) w = w'" by (simp add: r)
  have ok: "mp_ok (aw_routes w)" "ma_ok (aw_providers w)" using assms by (simp_all add: admin_ok_def)
  note law = madm.remove_outcome [OF ok r]
  have refs: "references n (col_all (aw_routes w)) = [] \<longleftrightarrow> n \<notin> snd (admin_abs w)"
    by (auto simp: references_def admin_abs_def filter_empty_conv)
  show ?thesis
  proof (cases res)
    case (Inl e)
    then have bad: "n = [] \<or> (n \<in> snd (admin_abs w) \<and> \<not> forced force)"
      using mem_remove_returns [OF assms, of n force] r refs by auto
    have "col_all (aw_routes w') = col_all (aw_routes w)"
    proof (cases "forced force")
      case True
      with bad r show ?thesis by (auto simp: ga_remove_def)
    next
      case False
      with law show ?thesis by simp
    qed
    with law Inl bad show ?thesis unfolding step by (simp add: admin_ok_def admin_abs_def)
  next
    case (Inr x)
    with law refs unreferenced_refs [of n "col_all (aw_routes w)"] show ?thesis
      unfolding step by (auto simp: admin_ok_def admin_abs_def)
  qed
qed

lemma provider_step_refines:
  "admin_ok w \<Longrightarrow> provider_op_ok opn \<Longrightarrow> admin_ok (provider_step opn w) \<and> admin_abs (provider_step opn w) = spec_step opn (admin_abs w)"
  using upsert_refines remove_refines by (cases opn) blast+

lemma provider_run_refines:
  "admin_ok w \<Longrightarrow> list_all provider_op_ok ops \<Longrightarrow> admin_abs (fold provider_step ops w) = fold spec_step ops (admin_abs w)"
  using provider_step_refines by (induction ops arbitrary: w) simp_all

section \<open>The readiness probe\<close>

record health_check =
  hc_up :: bool
  hc_detail :: jval

record health_report =
  hr_up :: bool
  hr_broker :: health_check
  hr_dependencies :: "(string, health_check) omap"

definition brokerStatus :: "jserr + bool \<Rightarrow> health_check" where
  "brokerStatus connected =
     (case connected of Inr c \<Rightarrow> \<lparr>hc_up = c, hc_detail = JUndef\<rparr> | Inl e \<Rightarrow> \<lparr>hc_up = False, hc_detail = JStr (emsg e)\<rparr>)"

text \<open>An indicator is its name and what its \<open>check()\<close> answers.\<close>

definition checked :: "jserr + health_check \<Rightarrow> health_check" where
  "checked res = (case res of Inr c \<Rightarrow> c | Inl e \<Rightarrow> \<lparr>hc_up = False, hc_detail = JStr (emsg e)\<rparr>)"

definition dependencies :: "(string \<times> (jserr + health_check)) list \<Rightarrow> (string, health_check) omap" where
  "dependencies indicators = fold (\<lambda>(name, res) m. AList.update name (checked res) m) indicators []"

definition health :: "jserr + bool \<Rightarrow> (string \<times> (jserr + health_check)) list option \<Rightarrow> health_report" where
  "health connected indicators =
     (let broker = brokerStatus connected; deps = dependencies (coalesce indicators [])
      in \<lparr>hr_up = (hc_up broker \<and> (\<forall>(n, d) \<in> set deps. hc_up d)), hr_broker = broker, hr_dependencies = deps\<rparr>)"

lemma dependencies_snoc: "dependencies (xs @ [(n, r)]) = AList.update n (checked r) (dependencies xs)"
  by (simp add: dependencies_def)

lemma dependencies_distinct_names: "distinct (map fst xs) \<Longrightarrow> dependencies xs = map (\<lambda>(n, r). (n, checked r)) xs"
proof (induction xs rule: rev_induct)
  case Nil
  show ?case by (simp add: dependencies_def)
next
  case (snoc x xs)
  obtain n r where x: "x = (n, r)" by (cases x)
  have "n \<notin> fst ` set (map (\<lambda>(n, r). (n, checked r)) xs)" using snoc.prems by (force simp: x)
  with snoc show ?case by (simp add: x dependencies_snoc om_update_absent)
qed

section \<open>Properties\<close>

text \<open>C26: Removing a provider leaves no dangling reference, whatever fails. Over any repositories that keep
  their contracts, a removal that returns has removed the provider of that name and no other, and
  every route that named it, and no other route, has its \<open>auth\<close> cleared; it only returns
  when no route named the provider or it was forced. A removal that throws keeps every provider, and without
  force no route is changed at all.\<close>

theorem provider_removal_is_safe:
  assumes "provider_admin pdeps pview pok filterAuth adeps provider aok" and "pok (aw_routes w)" and "aok (aw_providers w)"
    and "ga_remove adeps pdeps filterAuth name force w = (res, w')"
  shows "(case res of
       Inl e \<Rightarrow> provider (aw_providers w') = provider (aw_providers w)
     | Inr x \<Rightarrow> provider (aw_providers w') = (provider (aw_providers w))(name := None) \<and>
         (references name (pview (aw_routes w)) = [] \<or> forced force) \<and> references name (pview (aw_routes w')) = [] \<and>
         pview (aw_routes w') = unreferenced name (pview (aw_routes w))) \<and>
    (\<not> forced force \<longrightarrow> pview (aw_routes w') = pview (aw_routes w))"
  using provider_admin.remove_outcome [OF assms] references_cleared by (auto split: sum.splits)

definition demo_admin :: mem_admin where
  "demo_admin =
     \<lparr>aw_providers = snd (col_insert [(''name'', JStr ''p''), (''type'', JStr ''jwt'')] empty_collection),
      aw_routes = snd (col_insert [(''path'', JStr ''/a''), (''auth'', JStr ''p'')] empty_collection)\<rparr>"

lemma demo_admin_ok: "admin_ok demo_admin"
proof -
  have "mp_ok empty_collection" by (simp add: mp_ok_def empty_collection_ok) (simp add: empty_collection_def)
  then have "mp_ok (snd (col_insert m empty_collection))" if "map_of m ''_id'' = None" for m
    using mpaths.insert_law [of empty_collection m "Inr (fst (col_insert m empty_collection))" "snd (col_insert m empty_collection)"] that
    by (simp add: nullish_def field_def mem_paths_def mp_insert_def split: prod.split)
  then have "mp_ok (aw_providers demo_admin)" "mp_ok (aw_routes demo_admin)" by (simp_all add: demo_admin_def)
  moreover have "length (col_all (aw_providers demo_admin)) = 1" by code_simp
  then have "distinct (map (\<lambda>d. field d ''name'') (col_all (aw_providers demo_admin)))"
    by (cases "col_all (aw_providers demo_admin)") auto
  ultimately show ?thesis by (simp add: admin_ok_def ma_ok_def)
qed

theorem provider_removal_is_safe_witness:
  "references ''p'' (col_all (aw_routes (snd (ga_remove mem_providers mem_paths mp_filterAuth ''p'' (JBool True) demo_admin)))) = [] \<and>
   mem_provider (aw_providers (snd (ga_remove mem_providers mem_paths mp_filterAuth ''p'' (JBool False) demo_admin))) =
     mem_provider (aw_providers demo_admin)"
proof -
  obtain r1 w1 r2 w2 where r: "ga_remove mem_providers mem_paths mp_filterAuth ''p'' (JBool True) demo_admin = (r1, w1)"
      "ga_remove mem_providers mem_paths mp_filterAuth ''p'' (JBool False) demo_admin = (r2, w2)" by fastforce
  have "fst (ga_remove mem_providers mem_paths mp_filterAuth ''p'' (JBool True) demo_admin) \<noteq> Inl e" for e
    using mem_remove_returns [OF demo_admin_ok, of "''p''" "JBool True"] by (auto simp: forced_def)
  moreover have "references ''p'' (col_all (aw_routes demo_admin)) \<noteq> []" by code_simp
  ultimately show ?thesis
    using provider_removal_is_safe [OF madm.provider_admin_axioms _ _ r(1)] provider_removal_is_safe [OF madm.provider_admin_axioms _ _ r(2)]
      demo_admin_ok r by (auto simp: admin_ok_def forced_def split: sum.splits)
qed

text \<open>The stored auth providers are a map from names. Over the in-memory repositories, whatever
  providers are put and removed, an upsert sets the fields it carries and keeps the others, an
  unnamed or untyped one is refused, a removal removes the name unless a route references it and
  it is not forced, and the names that routes reference are tracked along.\<close>

theorem provider_admin_refines_map:
  assumes "admin_ok w" and "list_all provider_op_ok ops"
  shows "admin_abs (fold provider_step ops w) = fold spec_step ops (admin_abs w)"
  by (rule provider_run_refines [OF assms])

theorem provider_admin_refines_map_witness:
  "admin_abs (fold provider_step [PRemove ''p'' JUndef, PUpsert ''q'' [(''name'', JStr ''q''), (''type'', JStr ''basic'')]] demo_admin) =
   fold spec_step [PRemove ''p'' JUndef, PUpsert ''q'' [(''name'', JStr ''q''), (''type'', JStr ''basic'')]] (admin_abs demo_admin)"
  by (rule provider_admin_refines_map [OF demo_admin_ok]) (simp add: named_def field_def)

text \<open>The probe never throws and says up exactly when the broker is connected and every indicator
  answered up, when the indicators have names of their own.\<close>

theorem health_is_conjunction:
  assumes "distinct (map fst inds)"
  shows "hr_up (health connected (Some inds)) \<longleftrightarrow> connected = Inr True \<and> (\<forall>(n, r) \<in> set inds. \<exists>c. r = Inr c \<and> hc_up c)"
  by (auto simp: health_def Let_def coalesce_def dependencies_distinct_names [OF assms] brokerStatus_def checked_def split: sum.splits)

theorem health_is_conjunction_witness:
  "\<not> hr_up (health (Inr True) (Some [(''db'', Inr \<lparr>hc_up = True, hc_detail = JUndef\<rparr>), (''redis'', Inl (generic_error ''timeout''))]))"
  by (subst health_is_conjunction) simp_all

text \<open>Two indicators of one name overwrite each other, and a dependency that is down can be hidden.\<close>

lemma same_name_hides_down:
  "hr_up (health (Inr True) (Some [(''db'', Inl (generic_error ''timeout'')), (''db'', Inr \<lparr>hc_up = True, hc_detail = JUndef\<rparr>)]))"
  by code_simp

end
