(* ===== verification/Acl_Queries.thy ===== *)
theory Acl_Queries
  imports Acl_Management
begin

text \<open>
  The read-only side of \<open>acl-management.service.ts\<close> over the generated repositories: a lookup by
  name, the listings and the searches, all paginated by the collection. Page and limit come from
  a request body, as they are.
\<close>

definition listActions :: "jval \<Rightarrow> jval \<Rightarrow> collection \<Rightarrow> doc pagination" where
  "listActions page limit c = col_paginate [] (number_or page 1) (number_or limit 10) c"

definition getAction :: "string \<Rightarrow> collection \<Rightarrow> jserr + doc option" where
  "getAction name c =
     (if name = [] then Inl (bad_request ''name is required'') else Inr (col_findOne (by_name name) c))"

definition listRoles :: "jval \<Rightarrow> jval \<Rightarrow> collection \<Rightarrow> doc pagination" where
  "listRoles page limit c = col_paginate [] (number_or page 1) (number_or limit 10) c"

definition getRole :: "string \<Rightarrow> collection \<Rightarrow> jserr + doc option" where
  "getRole name c =
     (if name = [] then Inl (bad_request ''name is required'') else Inr (col_findOne (by_name name) c))"

definition searchActions :: "string option \<Rightarrow> jval \<Rightarrow> jval \<Rightarrow> collection \<Rightarrow> doc pagination" where
  "searchActions q page limit c = col_search q (number_or page 1) (number_or limit 10) c"

definition searchRoles :: "string option \<Rightarrow> jval \<Rightarrow> jval \<Rightarrow> collection \<Rightarrow> doc pagination" where
  "searchRoles q page limit c = col_search q (number_or page 1) (number_or limit 10) c"

definition searchGrants :: "string option \<Rightarrow> jval \<Rightarrow> jval \<Rightarrow> collection \<Rightarrow> doc pagination" where
  "searchGrants q page limit c = col_search q (number_or page 1) (number_or limit 10) c"

definition getActionsByNames :: "string list \<Rightarrow> collection \<Rightarrow> string list" where
  "getActionsByNames names c = mr_getActionsByNames names c"

text \<open>The management service's own settings.\<close>

definition managementActions :: "string option \<Rightarrow> string option \<Rightarrow> string \<times> string" where
  "managementActions roleManagementAction roleSystemAction =
     (coalesce roleManagementAction ''role-management'', coalesce roleSystemAction ''role-system'')"

section \<open>Pages\<close>

lemma number_or_pos: "0 < n \<Longrightarrow> number_or (JNum n) d = n"
  by (simp add: number_or_def)

lemma page_slice:
  assumes "0 < k"
  shows "js_slice xs (int p * int k) (int p * int k + int k) = take k (drop (p * k) xs)"
proof -
  have pos: "slice_pos (length xs) (int m) = min (length xs) m" for m
    by (simp add: slice_pos_def)
  have "js_slice xs (int (p * k)) (int (p * k + k)) = take (min (length xs) (p * k + k) - min (length xs) (p * k)) (drop (min (length xs) (p * k)) xs)"
    unfolding js_slice_def pos by simp
  also have "\<dots> = take k (drop (p * k) xs)"
    by (cases "length xs \<le> p * k") (auto simp: min_def)
  finally show ?thesis by simp
qed

lemma page_data:
  assumes "0 < k"
  shows "pg_data (paginate_list data (int (Suc p)) (int k)) = take k (drop (p * k) data)"
  using page_slice [OF assms, of data p] by (simp add: paginate_list_def Let_def algebra_simps)

lemma pages_take:
  assumes "0 < k"
  shows "concat (map (\<lambda>p. pg_data (paginate_list data (int p) (int k))) [1..<Suc n]) = take (n * k) data"
proof (induction n)
  case 0
  then show ?case by simp
next
  case (Suc n)
  have "[1..<Suc (Suc n)] = [1..<Suc n] @ [Suc n]" by simp
  with Suc page_data [OF assms, of data n] show ?case
    by (simp add: take_add [symmetric] algebra_simps del: upt_Suc)
qed

lemma listRoles_pages: "0 < p \<Longrightarrow> 0 < k \<Longrightarrow> listRoles (JNum (int p)) (JNum (int k)) c = paginate_list (col_all c) (int p) (int k)"
  by (simp add: listRoles_def col_paginate_def col_filter_def col_all_def number_or_pos matches_def)

text \<open>Paging through the roles shows every role exactly once: with enough pages of any positive size, the
  pages put together are the stored roles in their order, and each page announces how many there are.\<close>

theorem role_pages_complete:
  assumes "0 < k" and "length (col_all c) \<le> n * k"
  shows "concat (map (\<lambda>p. pg_data (listRoles (JNum (int p)) (JNum (int k)) c)) [1..<Suc n]) = col_all c \<and>
    (\<forall>p limit. pg_total (listRoles p limit c) = length (col_all c))"
proof -
  have "concat (map (\<lambda>p. pg_data (listRoles (JNum (int p)) (JNum (int k)) c)) [1..<Suc n]) =
      concat (map (\<lambda>p. pg_data (paginate_list (col_all c) (int p) (int k))) [1..<Suc n])"
    using assms(1) by (intro arg_cong [where f = concat] map_cong) (auto simp: listRoles_pages)
  moreover have "pg_total (listRoles p limit c) = length (col_all c)" for p limit
    by (simp add: listRoles_def col_paginate_def paginate_list_def col_filter_def col_all_def matches_def Let_def)
  ultimately show ?thesis using pages_take [OF assms(1), of "col_all c" n] assms(2) by simp
qed

theorem role_pages_complete_witness:
  "concat (map (\<lambda>p. pg_data (listRoles (JNum (int p)) (JNum (int 2)) \<lparr>mc_items = [(''a'', []), (''b'', []), (''c'', [])], mc_seq = 0\<rparr>)) [1..<Suc 2]) =
     col_all \<lparr>mc_items = [(''a'', []), (''b'', []), (''c'', [])], mc_seq = 0\<rparr> \<and>
   (\<forall>p limit. pg_total (listRoles p limit \<lparr>mc_items = [(''a'', []), (''b'', []), (''c'', [])], mc_seq = 0\<rparr>) =
     length (col_all \<lparr>mc_items = [(''a'', []), (''b'', []), (''c'', [])], mc_seq = 0\<rparr>))"
  by (rule role_pages_complete) (simp_all add: col_all_def)

end
