(* ===== verification/Startup.thy ===== *)
theory Startup
  imports Amqp_Boot Acl_Management
begin

text \<open>
  Services that subscribe while the application starts: the cross-instance invalidation of
  \<open>modules/acl/services/acl-invalidation.service.ts\<close> and the route sync of
  \<open>modules/gateway-admin/services/route-sync.service.ts\<close>. Nest awaits both hooks, so a hook that does
  not settle stops the start; both rest on \<open>createSubscriber\<close>.
\<close>

section \<open>A subscribing hook\<close>

text \<open>The end of a hook: nothing to do, listening with a consumer tag, or an error that was logged.
  \<open>None\<close> is a hook that has not settled.\<close>

datatype hook_end = Idle | Listening string | LoggedError jserr

definition subscribing :: "subscription \<Rightarrow> conn_state \<Rightarrow> broker_answers list \<Rightarrow> hook_end option" where
  "subscribing sub s runs =
     (case createSubscriber sub s runs of
        None \<Rightarrow> None
      | Some (Inl e) \<Rightarrow> Some (LoggedError e)
      | Some (Inr tag) \<Rightarrow> Some (Listening tag))"

section \<open>Invalidation between instances\<close>

record acl_invalidation =
  ai_exchange :: "string option"
  ai_routingKey :: string
  ai_enabled :: bool

definition newAclInvalidation :: "bool \<Rightarrow> (string option \<times> string option) option \<Rightarrow> acl_invalidation" where
  "newAclInvalidation hasAmqp config =
     (let exchange = Option.bind config fst in
      \<lparr>ai_exchange = exchange, ai_routingKey = coalesce (Option.bind config snd) ''acl-invalidate'',
       ai_enabled = (truthy_str exchange \<and> hasAmqp)\<rparr>)"

definition invalidationQueue :: "nat \<Rightarrow> string \<Rightarrow> string" where
  "invalidationQueue pid uuid = ''acl-invalidate-'' @ nat_str pid @ ''-'' @ take 8 uuid"

definition invalidationSubscription :: "nat \<Rightarrow> string \<Rightarrow> acl_invalidation \<Rightarrow> subscription" where
  "invalidationSubscription pid uuid v =
     \<lparr>sn_queue = Some (invalidationQueue pid uuid), sn_createIfNotExists = Some True, sn_exchange = ai_exchange v,
      sn_routingKey = RkOne (ai_routingKey v),
      sn_queueOptions = Some [(''durable'', JBool False), (''autoDelete'', JBool True), (''exclusive'', JBool True)]\<rparr>"

definition aclInvalidationInit ::
  "nat \<Rightarrow> string \<Rightarrow> acl_invalidation \<Rightarrow> conn_state \<Rightarrow> broker_answers list \<Rightarrow> hook_end option" where
  "aclInvalidationInit pid uuid v s runs =
     (if \<not> ai_enabled v then Some Idle else subscribing (invalidationSubscription pid uuid v) s runs)"

section \<open>The route sync's subscription\<close>

definition ROUTE_DISCOVERY_EXCHANGE :: string where "ROUTE_DISCOVERY_EXCHANGE = ''rlb-route-discovery''"
definition ROUTE_SYNC_QUEUE :: string where "ROUTE_SYNC_QUEUE = ''rlb-route-sync''"

record discovery_options =
  do_exchange :: "string option"
  do_queue :: "string option"

definition syncSubscription :: "discovery_options \<Rightarrow> subscription" where
  "syncSubscription o' =
     \<lparr>sn_queue = or_str (do_queue o') (Some ROUTE_SYNC_QUEUE), sn_createIfNotExists = Some True,
      sn_exchange = or_str (do_exchange o') (Some ROUTE_DISCOVERY_EXCHANGE), sn_routingKey = RkOne [],
      sn_queueOptions = Some [(''durable'', JBool True), (''exclusive'', JBool False), (''autoDelete'', JBool False)]\<rparr>"

text \<open>\<open>channel\<close> is the default channel, when it has been set up; \<open>assertExchange\<close> is the broker's answer on
  it: \<open>None\<close> when the exchange is there.\<close>

definition routeSyncBootstrap ::
  "discovery_options \<Rightarrow> 'c option \<Rightarrow> (string \<Rightarrow> jserr option) \<Rightarrow> conn_state \<Rightarrow> broker_answers list \<Rightarrow> hook_end option" where
  "routeSyncBootstrap o' channel assertExchange s runs =
     (case getChannel channel of
        Inl e \<Rightarrow> Some (LoggedError e)
      | Inr _ \<Rightarrow>
         (case assertExchange (the (sn_exchange (syncSubscription o'))) of
            Some e \<Rightarrow> Some (LoggedError e)
          | None \<Rightarrow> subscribing (syncSubscription o') s runs))"

section \<open>Lemmas\<close>

lemma subscribing_pending:
  assumes "\<not> cs_canceled s" and "\<forall>a \<in> set runs. fst (setupConsumer a sub) = None"
  shows "subscribing sub s runs = None"
  using assms by (simp add: subscribing_def createSubscriber_def consumerFactory_def subscriptionResult_pending)

lemma subscribing_listens:
  assumes "\<not> cs_canceled s" and "setupConsumer a sub = (Some tag, calls)"
  shows "subscribing sub s (a # runs) = Some (Listening tag)"
  using assms by (simp add: subscribing_def createSubscriber_def consumerFactory_def runSetup_def Let_def)

text \<open>A binding that the broker refuses ends the setup, whatever the queue's name became.\<close>

lemma setupConsumer_refused:
  assumes "sn_exchange sub = Some x" and "x \<noteq> []" and "sn_routingKey sub = RkOne k" and "\<not> ba_bind a x"
  shows "fst (setupConsumer a sub) = None"
  using assms
  by (auto simp: setupConsumer_def setupQueue_def bindCalls_def routingKeyList_def map_filter_def truthy_str_def Let_def
      split: option.splits if_splits prod.splits)

lemma setupConsumer_accepted:
  assumes "sn_exchange sub = Some x" and "sn_routingKey sub = RkOne k" and "ba_bind a x"
    and "ba_queue a (coalesce (sn_queue sub) []) = Some q" and "ba_consume a q = Some tag"
  shows "\<exists>calls. setupConsumer a sub = (Some tag, calls) \<and>
    (x \<noteq> [] \<longrightarrow> ChBindQueue q x k (jget (JObj (coalesce (sn_queueOptions sub) [])) ''bindQueueArguments'') \<in> set calls)"
  using assms
  by (auto simp: setupConsumer_def setupQueue_def bindCalls_def routingKeyList_def map_filter_def Let_def
      split: option.splits if_splits prod.splits)

section \<open>Properties\<close>

text \<open>A gateway whose channel is up and whose broker accepts the declarations listens for manifests: the hook
  of the route sync settles with the tag that the broker gave, which the connection has registered for the
  configured queue, and the queue is bound to the configured exchange.\<close>

theorem route_sync_listens:
  assumes "assertExchange (the (sn_exchange (syncSubscription o'))) = None" and "\<not> cs_canceled s"
    and "ba_bind a (the (sn_exchange (syncSubscription o')))"
    and "ba_queue a (the (sn_queue (syncSubscription o'))) = Some q" and "ba_consume a q = Some tag"
  shows "routeSyncBootstrap o' (Some ch) assertExchange s (a # runs) = Some (Listening tag) \<and>
    ChBindQueue q (the (sn_exchange (syncSubscription o'))) [] JUndef \<in> set (snd (setupConsumer a (syncSubscription o'))) \<and>
    the (sn_exchange (syncSubscription o')) \<noteq> [] \<and> the (sn_queue (syncSubscription o')) \<noteq> []"
proof -
  have names: "the (sn_exchange (syncSubscription o')) \<noteq> []" "the (sn_queue (syncSubscription o')) \<noteq> []"
    by (auto simp: syncSubscription_def or_str_def truthy_str_def ROUTE_DISCOVERY_EXCHANGE_def ROUTE_SYNC_QUEUE_def split: option.splits)
  have some: "sn_exchange (syncSubscription o') = Some (the (sn_exchange (syncSubscription o')))"
    "coalesce (sn_queue (syncSubscription o')) [] = the (sn_queue (syncSubscription o'))"
    by (auto simp: syncSubscription_def or_str_def truthy_str_def split: option.splits)
  have key: "sn_routingKey (syncSubscription o') = RkOne []" by (simp add: syncSubscription_def)
  obtain calls where calls: "setupConsumer a (syncSubscription o') = (Some tag, calls)"
    and bound: "ChBindQueue q (the (sn_exchange (syncSubscription o'))) []
      (jget (JObj (coalesce (sn_queueOptions (syncSubscription o')) [])) ''bindQueueArguments'') \<in> set calls"
    using setupConsumer_accepted [OF some(1) key assms(3) _ assms(5)] assms(4) some(2) names by auto
  have "jget (JObj (coalesce (sn_queueOptions (syncSubscription o')) [])) ''bindQueueArguments'' = JUndef"
    by (simp add: syncSubscription_def)
  with bound calls names assms show ?thesis by (simp add: routeSyncBootstrap_def getChannel_def subscribing_listens)
qed

definition sample_up :: broker_answers where
  "sample_up = \<lparr>ba_queue = Some, ba_onError = (\<lambda>_. None), ba_bind = (\<lambda>_. True), ba_consume = (\<lambda>q. Some ''t'')\<rparr>"

theorem route_sync_listens_witness:
  "routeSyncBootstrap \<lparr>do_exchange = None, do_queue = Some ''q''\<rparr> (Some ()) (\<lambda>_. None) init_conn [sample_up] = Some (Listening ''t'') \<and>
    ChBindQueue ''q'' (the (sn_exchange (syncSubscription \<lparr>do_exchange = None, do_queue = Some ''q''\<rparr>))) [] JUndef
      \<in> set (snd (setupConsumer sample_up (syncSubscription \<lparr>do_exchange = None, do_queue = Some ''q''\<rparr>))) \<and>
    the (sn_exchange (syncSubscription \<lparr>do_exchange = None, do_queue = Some ''q''\<rparr>)) \<noteq> [] \<and>
    the (sn_queue (syncSubscription \<lparr>do_exchange = None, do_queue = Some ''q''\<rparr>)) \<noteq> []"
  by (rule route_sync_listens) (simp_all add: sample_up_def init_conn_def syncSubscription_def or_str_def truthy_str_def)

text \<open>Without a channel at that moment the sync logs an error and never listens.\<close>

theorem route_sync_needs_channel:
  "\<exists>e. routeSyncBootstrap o' None assertExchange s runs = Some (LoggedError e) \<and> ename e = ''ChannelNotAvailableError''"
  by (simp add: routeSyncBootstrap_def getChannel_def mk_err_def)

text \<open>The invalidation of a single instance subscribes to nothing; with an exchange that is not declared the hook
  never settles, so the start of the application stops there and its error is not logged.\<close>

theorem missing_exchange_stops_start:
  assumes "ai_enabled (newAclInvalidation hasAmqp config)" and "\<not> cs_canceled s"
    and "\<forall>a \<in> set runs. \<not> ba_bind a (the (ai_exchange (newAclInvalidation hasAmqp config)))"
  shows "aclInvalidationInit pid uuid (newAclInvalidation hasAmqp config) s runs = None"
proof -
  let ?v = "newAclInvalidation hasAmqp config"
  obtain x where x: "ai_exchange ?v = Some x" "x \<noteq> []"
    using assms(1) by (auto simp: newAclInvalidation_def Let_def truthy_str_def split: option.splits)
  have "\<forall>a \<in> set runs. fst (setupConsumer a (invalidationSubscription pid uuid ?v)) = None"
    using assms(3) x by (intro ballI setupConsumer_refused [of _ x]) (simp_all add: invalidationSubscription_def)
  with assms(1,2) show ?thesis by (simp add: aclInvalidationInit_def subscribing_pending)
qed

theorem invalidation_off_is_idle:
  "\<not> hasAmqp \<or> config = None \<Longrightarrow> aclInvalidationInit pid uuid (newAclInvalidation hasAmqp config) s runs = Some Idle"
  by (auto simp: aclInvalidationInit_def newAclInvalidation_def truthy_str_def)

text \<open>Each process has its own queue: two processes of a host never share one, nor do two starts of
  the same process whose random parts differ.\<close>

theorem invalidation_queues_differ:
  assumes "invalidationQueue pid1 uuid1 = invalidationQueue pid2 uuid2"
  shows "pid1 = pid2 \<and> take 8 uuid1 = take 8 uuid2"
proof -
  from assms have eq: "nat_str pid1 @ CHR ''-'' # take 8 uuid1 = nat_str pid2 @ CHR ''-'' # take 8 uuid2"
    by (simp add: invalidationQueue_def)
  then have "js_split (CHR ''-'') (nat_str pid1 @ CHR ''-'' # take 8 uuid1) = js_split (CHR ''-'') (nat_str pid2 @ CHR ''-'' # take 8 uuid2)"
    by simp
  then have "nat_str pid1 = nat_str pid2" by (simp add: js_split_append_sep nat_str_no_dash)
  with eq show ?thesis by simp
qed

theorem invalidation_queues_differ_witness:
  "(7 :: nat) = 7 \<and> take 8 ''0123456789'' = take 8 ''01234567ab''"
  by (rule invalidation_queues_differ) (simp add: invalidationQueue_def)

end
