(* ===== verification/Route_Convergence.thy ===== *)
theory Route_Convergence
  imports Route_Sync
begin

text \<open>
  The route sync settles: over a repository that answers, processing a manifest brings the
  service's rows to what the manifest says, and processing it again writes nothing. The lemmas
  follow \<open>handle\<close> through its loops (\<open>route-sync.service.ts\<close>) with \<open>own_at\<close>, the service's row
  of a route key; the contract of a repository that answers extends \<open>path_repository\<close>.
\<close>

section \<open>The service's row of a key\<close>

definition row_key :: "doc \<Rightarrow> string" where
  "row_key d = str_field d ''routeKey''"

definition own_at :: "string \<Rightarrow> doc list \<Rightarrow> string \<Rightarrow> doc option" where
  "own_at service rows k = find (\<lambda>d. owned service d \<and> row_key d = k) rows"

definition keyed :: "string \<Rightarrow> doc list \<Rightarrow> bool" where
  "keyed service rows \<longleftrightarrow> distinct (map row_key (filter (owned service) rows))"

lemma own_at_Some: "own_at service rows k = Some d \<Longrightarrow> d \<in> set rows \<and> owned service d \<and> row_key d = k"
  by (auto simp: own_at_def find_Some_iff)

lemma own_at_None: "own_at service rows k = None \<longleftrightarrow> (\<forall>d \<in> set rows. owned service d \<longrightarrow> row_key d \<noteq> k)"
  by (auto simp: own_at_def find_None_iff)

lemma own_at_row:
  assumes "keyed service rows" and "d \<in> set rows" and "owned service d"
  shows "own_at service rows (row_key d) = Some d"
proof (cases "own_at service rows (row_key d)")
  case None
  with assms show ?thesis by (auto simp: own_at_None)
next
  case (Some e)
  then have "e \<in> set (filter (owned service) rows)" and "row_key e = row_key d" using own_at_Some by auto
  with assms have "e = d" by (auto simp: keyed_def distinct_map dest: inj_onD)
  with Some show ?thesis by simp
qed

lemma byKey_own_at:
  assumes "keyed service rows" and "k \<noteq> []"
  shows "map_of (existingByKey (filter (owned service) rows)) k = own_at service rows k"
proof (cases "own_at service rows k")
  case None
  then have "map_of (existingByKey (filter (owned service) rows)) k \<noteq> Some e" for e
    using existingByKey_mem [of "filter (owned service) rows" k e] by (auto simp: own_at_None row_key_def)
  with None show ?thesis by (cases "map_of (existingByKey (filter (owned service) rows)) k") auto
next
  case (Some d)
  with assms show ?thesis
    using existingByKey_get [of "filter (owned service) rows" d] own_at_Some [OF Some] by (simp add: keyed_def row_key_def [abs_def])
qed

lemma byKey_mem:
  "map_of (existingByKey (filter (owned service) rows)) k = Some e \<Longrightarrow> e \<in> set rows \<and> owned service e \<and> row_key e = k \<and> k \<noteq> []"
  using existingByKey_mem [of "filter (owned service) rows" k e] by (auto simp: row_key_def)

lemma own_update:
  assumes "keyed service rows" and ids: "distinct (map id_of rows)"
    and ex: "own_at service rows k = Some ex" "id_of ex = Some i"
    and new: "owned service (patched i ex m)" "row_key (patched i ex m) = k"
    and rows': "rows' = map (\<lambda>d. if id_of d = Some i then patched i d m else d) rows"
  shows "keyed service rows' \<and> own_at service rows' = (own_at service rows)(k \<mapsto> patched i ex m)"
proof -
  let ?f = "\<lambda>d. if id_of d = Some i then patched i d m else d"
  note exin = own_at_Some [OF ex(1)]
  have only: "d = ex" if "d \<in> set rows" "id_of d = Some i" for d
    using that exin ex(2) ids inj_onD [of id_of "set rows" d ex] by (simp add: distinct_map)
  have same: "owned service (?f d) = owned service d" "row_key (?f d) = row_key d" if "d \<in> set rows" for d
    using only [OF that] exin new by auto
  have "filter (owned service) rows' = map ?f (filter (owned service) rows)"
    unfolding rows' filter_map comp_def using same by (intro arg_cong [where f = "map ?f"] filter_cong) auto
  then have "map row_key (filter (owned service) rows') = map row_key (filter (owned service) rows)" using same(2) by auto
  then have "keyed service rows'" using assms(1) by (simp only: keyed_def)
  moreover have "own_at service rows' j = ((own_at service rows)(k \<mapsto> patched i ex m)) j" for j
  proof -
    have "find P (map ?f xs) = map_option ?f (find Q xs)" if "\<And>d. d \<in> set xs \<Longrightarrow> P (?f d) = Q d" for P Q xs
      using that by (induction xs) auto
    then have f: "own_at service rows' j = map_option ?f (own_at service rows j)"
      unfolding own_at_def rows' using same by simp
    show ?thesis
    proof (cases "j = k")
      case True
      with f ex show ?thesis by simp
    next
      case False
      have "id_of d \<noteq> Some i" if "own_at service rows j = Some d" for d
        using own_at_Some [OF that] only [of d] exin False by auto
      with f False show ?thesis by (cases "own_at service rows j") auto
    qed
  qed
  ultimately show ?thesis by blast
qed

lemma own_insert:
  assumes "keyed service rows" and "own_at service rows (row_key d) = None" and "owned service d"
  shows "keyed service (rows @ [d]) \<and> own_at service (rows @ [d]) = (own_at service rows)(row_key d \<mapsto> d)"
proof -
  have "find P (xs @ [x]) = (case find P xs of Some y \<Rightarrow> Some y | None \<Rightarrow> if P x then Some x else None)" for P :: "doc \<Rightarrow> bool" and xs x
    by (induction xs) auto
  then have "own_at service (rows @ [d]) j = ((own_at service rows)(row_key d \<mapsto> d)) j" for j
    using assms(2,3) by (auto simp: own_at_def split: option.split)
  moreover have "keyed service (rows @ [d])" using assms by (auto simp: keyed_def own_at_None)
  ultimately show ?thesis by blast
qed

section \<open>The reserved keys depend on the other owners' rows only\<close>

fun reserve_pure :: "doc list \<Rightarrow> doc list \<Rightarrow> (string, string) omap \<Rightarrow> (string, string) omap" where
  "reserve_pure oth [] res = res"
| "reserve_pure oth (r # rs) res =
     (if routeKeyOf r \<in> fst ` set res then reserve_pure oth rs res
      else (case find (\<lambda>c. field c ''routeKey'' = JStr (routeKeyOf r)) oth of
              None \<Rightarrow> reserve_pure oth rs res
            | Some c \<Rightarrow> reserve_pure oth rs (AList.update (routeKeyOf r) (ownerOr c) res)))"

lemma find_filter_swap: "find P (filter Q xs) = find Q (filter P xs)"
  by (induction xs) auto

lemma reserve_pure_mem:
  "map_of (reserve_pure oth rs res) k \<noteq> None \<Longrightarrow> map_of res k \<noteq> None \<or> (\<exists>c \<in> set oth. field c ''routeKey'' = JStr k)"
proof (induction rs arbitrary: res)
  case (Cons r rs)
  show ?case
  proof (cases "routeKeyOf r \<in> fst ` set res")
    case True
    with Cons show ?thesis by simp
  next
    case False
    show ?thesis
    proof (cases "find (\<lambda>c. field c ''routeKey'' = JStr (routeKeyOf r)) oth")
      case None
      with Cons False show ?thesis by simp
    next
      case (Some c)
      with Cons.prems False Cons.IH [of "AList.update (routeKeyOf r) (ownerOr c) res"]
      show ?thesis by (auto simp: om_simps find_Some_iff split: if_splits)
    qed
  qed
qed simp

lemma yamlReserved_mem: "map_of (yamlReserved ps) k \<noteq> None \<Longrightarrow> k \<in> routeKeyOf ` set ps"
proof -
  have "map_of (fold (\<lambda>p m. AList.update (routeKeyOf p) ''yaml'' m) ps m) k \<noteq> None \<Longrightarrow> map_of m k \<noteq> None \<or> k \<in> routeKeyOf ` set ps" for m
  proof (induction ps arbitrary: m)
    case (Cons p ps)
    from Cons.IH [of "AList.update (routeKeyOf p) ''yaml'' m"] Cons.prems show ?case by (auto simp: om_simps split: if_splits)
  qed simp
  from this [of "[]"] show "map_of (yamlReserved ps) k \<noteq> None \<Longrightarrow> ?thesis" by (simp add: yamlReserved_def)
qed

text \<open>A key that neither the gateway file nor another owner has.\<close>

definition free_key :: "string \<Rightarrow> gateway_sync_config \<Rightarrow> doc list \<Rightarrow> string \<Rightarrow> bool" where
  "free_key service cfg rows k \<longleftrightarrow> k \<notin> routeKeyOf ` set (gs_yaml cfg) \<and> (\<forall>c \<in> set rows. \<not> owned service c \<longrightarrow> field c ''routeKey'' \<noteq> JStr k)"

lemma free_key_reserved:
  assumes "free_key service cfg rows k"
  shows "map_of (reserve_pure (others service rows) rs (yamlReserved (gs_yaml cfg))) k = None"
  using assms reserve_pure_mem [of "others service rows" rs "yamlReserved (gs_yaml cfg)" k] yamlReserved_mem [of "gs_yaml cfg" k]
  by (auto simp: free_key_def others_def)

text \<open>What a stored row says of a route that was announced: either the user locked it, or its content is
  the announced one under the user's overrides, and it is enabled unless the user decided that.\<close>

definition reflects :: "doc \<Rightarrow> doc \<Rightarrow> bool" where
  "reflects r d \<longleftrightarrow> field d ''modified'' = JBool True \<or>
     (let ov = strs (field d ''userOverrides'') in
        routeContent (applyUserOverrides r (Some d) ov) = routeContent d \<and> (''enabled'' \<notin> set ov \<longrightarrow> is_enabled d))"

lemma settled_reflects:
  assumes "\<And>u. classify service byKey res r \<noteq> OUpsert u" and "map_of res (routeKeyOf r) = None"
  shows "\<exists>d. map_of byKey (routeKeyOf r) = Some d \<and> reflects r d"
proof (cases "map_of byKey (routeKeyOf r)")
  case None
  with assms show ?thesis by (auto simp: classify_def Let_def)
next
  case (Some d)
  have "field d ''modified'' = JBool True \<or>
      (routeContent (applyUserOverrides r (Some d) (strs (field d ''userOverrides''))) = routeContent d \<and>
       (if ''enabled'' \<in> set (strs (field d ''userOverrides'')) then is_enabled d else True) = is_enabled d)"
  proof (rule ccontr)
    assume "\<not> ?thesis"
    then have "\<exists>u. classify service byKey res r = OUpsert u"
      by (cases "''enabled'' \<in> set (strs (field d ''userOverrides''))") (auto simp: classify_def Let_def Some assms(2) truthy_str_def)
    with assms(1) show False by blast
  qed
  with Some show ?thesis by (auto simp: reflects_def Let_def split: if_splits)
qed

section \<open>A repository that answers\<close>

definition answers :: "('s, 'b) eff \<Rightarrow> 's \<Rightarrow> bool" where
  "answers f s \<longleftrightarrow> (\<exists>x. fst (f s) = Inr x)"

lemma answersE:
  assumes "answers f s"
  obtains x t where "f s = (Inr x, t)"
  using assms by (cases "f s") (auto simp: answers_def)

definition upsert_fits :: "string \<Rightarrow> (string \<Rightarrow> doc option) \<Rightarrow> upsert \<Rightarrow> bool" where
  "upsert_fits service f u \<longleftrightarrow> distinct (map fst (up_model u)) \<and> map_of (up_model u) ''owner'' = Some (JStr service) \<and>
     map_of (up_model u) ''routeKey'' = Some (JStr (up_routeKey u)) \<and>
     up_existingId u = Option.bind (f (up_routeKey u)) id_of \<and>
     (f (up_routeKey u) = None \<longrightarrow> nullish (field (up_model u) ''_id''))"

lemma row_after_control:
  assumes "distinct (map fst m)" and "map_of m ''owner'' = Some (JStr service)" and "map_of m ''routeKey'' = Some (JStr k)"
  shows "owned service (row_after i ex m)" and "row_key (row_after i ex m) = k"
  using assms by (simp_all add: owned_def row_key_def str_field_def row_after_field)

definition disable_fits :: "(string \<Rightarrow> doc option) \<Rightarrow> route_disable \<Rightarrow> bool" where
  "disable_fits f x \<longleftrightarrow> (\<exists>ex. f (di_routeKey x) = Some ex \<and> id_of ex = Some (di_id x))"

locale answering_paths = path_repository deps pview pok
  for deps :: "'s path_deps" and pview :: "'s \<Rightarrow> doc list" and pok :: "'s \<Rightarrow> bool" +
  assumes answering: "pok s \<Longrightarrow> answers (pd_filterOwner deps ow) s \<and> answers (pd_filterKey deps key) s \<and>
      answers (pd_insert deps m) s \<and> answers (pd_updateById deps i m) s"
begin

definition settled_at :: "string \<Rightarrow> (string \<Rightarrow> doc option) \<Rightarrow> string list \<Rightarrow> 's sync_world \<Rightarrow> bool" where
  "settled_at service f reloads w \<longleftrightarrow>
     pok (sw_paths w) \<and> keyed service (pview (sw_paths w)) \<and> own_at service (pview (sw_paths w)) = f \<and> sw_reloads w = reloads"

lemma settled_journal: "settled_at service f rl w \<Longrightarrow> \<exists>w'. journal e w = (Inr (), w') \<and> settled_at service f rl w' \<and> sw_paths w' = sw_paths w"
  by (simp add: journal_def settled_at_def)

lemma update_effect:
  assumes "settled_at service f rl w" and "f k = Some ex" and "id_of ex = Some i"
    and "owned service (patched i ex m)" and "row_key (patched i ex m) = k"
  shows "\<exists>x w'. on_paths (pd_updateById deps i m) w = (Inr x, w') \<and> settled_at service (f(k \<mapsto> patched i ex m)) rl w'"
proof -
  have ok: "pok (sw_paths w)" and key: "keyed service (pview (sw_paths w))" and f: "own_at service (pview (sw_paths w)) = f"
    and rl: "sw_reloads w = rl" using assms(1) by (simp_all add: settled_at_def)
  obtain x s where u: "pd_updateById deps i m (sw_paths w) = (Inr x, s)" using answering [OF ok] by (blast elim: answersE)
  note law = updateById_law [OF ok u, unfolded sum.case]
  have ids: "distinct (map id_of (pview (sw_paths w)))" using pids [OF ok] by simp
  have "keyed service (pview s) \<and> own_at service (pview s) = f(k \<mapsto> patched i ex m)"
    using own_update [OF key ids _ assms(3-5), of "pview s"] law f assms(2) by simp
  with u law rl show ?thesis by (auto simp: on_paths_def settled_at_def)
qed

lemma insert_effect:
  assumes "settled_at service f rl w" and "f k = None" and "nullish (field m ''_id'')"
    and new: "\<And>i. owned service (row_after i None m) \<and> row_key (row_after i None m) = k"
  shows "\<exists>x i w'. on_paths (pd_insert deps m) w = (Inr x, w') \<and> settled_at service (f(k \<mapsto> row_after i None m)) rl w'"
proof -
  have ok: "pok (sw_paths w)" and key: "keyed service (pview (sw_paths w))" and f: "own_at service (pview (sw_paths w)) = f"
    and rl: "sw_reloads w = rl" using assms(1) by (simp_all add: settled_at_def)
  obtain x s where u: "pd_insert deps m (sw_paths w) = (Inr x, s)" using answering [OF ok] by (blast elim: answersE)
  from insert_law [OF ok assms(3) u] obtain i where x: "x = row_after i None m" and s: "pok s" "pview s = pview (sw_paths w) @ [x]" by auto
  have "row_key x = k" "owned service x" using new x by simp_all
  with own_insert [OF key, of x] f assms(2) have "keyed service (pview s) \<and> own_at service (pview s) = f(k \<mapsto> row_after i None m)"
    unfolding s(2) x by simp
  with u s rl show ?thesis by (auto simp: on_paths_def settled_at_def)
qed

lemma upsert_effect:
  assumes st: "settled_at service f rl w" and fits: "upsert_fits service f u"
  shows "\<exists>i w'. applyUpsert deps service u w = (Inr (), w') \<and>
    settled_at service (f(up_routeKey u \<mapsto> row_after i (f (up_routeKey u)) (up_model u))) rl w'"
proof -
  let ?k = "up_routeKey u" and ?m = "up_model u"
  have ok: "pok (sw_paths w)" and f: "own_at service (pview (sw_paths w)) = f" using st by (simp_all add: settled_at_def)
  note fit = fits [unfolded upsert_fits_def]
  have ctl: "owned service (row_after i ex ?m)" "row_key (row_after i ex ?m) = ?k" for i ex
    using row_after_control fit by blast+
  have "\<exists>b i w'. writeUpsert deps service u w = (Inr (Some b), w') \<and> settled_at service (f(?k \<mapsto> row_after i (f ?k) ?m)) rl w'"
  proof (cases "f ?k")
    case None
    then have e: "up_existingId u = None" and n: "nullish (field ?m ''_id'')" using fit by auto
    obtain x i w' where ins: "on_paths (pd_insert deps ?m) w = (Inr x, w')" and s: "settled_at service (f(?k \<mapsto> row_after i None ?m)) rl w'"
      using insert_effect [OF st None n] ctl by blast
    have "writeUpsert deps service u w = (Inr (Some (up_added u)), w')" using ins by (simp add: writeUpsert_def try_catch_def e)
    with s None show ?thesis by auto
  next
    case (Some ex)
    then have "ex \<in> set (pview (sw_paths w))" using own_at_Some f by blast
    then obtain i where i: "id_of ex = Some i" "i \<noteq> []" using pids [OF ok] by auto
    have e: "up_existingId u = Some i" using fit Some i by simp
    have p: "patched i ex ?m = row_after i (Some ex) ?m" by (simp add: row_after_def)
    obtain x w' where up: "on_paths (pd_updateById deps i ?m) w = (Inr x, w')" and s: "settled_at service (f(?k \<mapsto> row_after i (f ?k) ?m)) rl w'"
      using update_effect [OF st Some i(1), of ?m, unfolded p, OF ctl] Some by auto
    have "writeUpsert deps service u w = (Inr (Some (up_added u)), w')" using up i(2) by (simp add: writeUpsert_def try_catch_def e)
    with s show ?thesis by blast
  qed
  then obtain b i w1 where w: "writeUpsert deps service u w = (Inr (Some b), w1)" and s: "settled_at service (f(?k \<mapsto> row_after i (f ?k) ?m)) rl w1" by blast
  show ?thesis using settled_journal [OF s] by (fastforce simp: applyUpsert_def w)
qed

lemma disable_effect:
  assumes st: "settled_at service f rl w" and "f (di_routeKey x) = Some ex" and "id_of ex = Some (di_id x)"
  shows "\<exists>w'. applyDisable deps service x w = (Inr (), w') \<and>
    settled_at service (f(di_routeKey x \<mapsto> patched (di_id x) ex [(''enabled'', JBool False)])) rl w'"
proof -
  have f: "own_at service (pview (sw_paths w)) = f" using st by (simp add: settled_at_def)
  then have "owned service ex" "row_key ex = di_routeKey x" using own_at_Some assms(2) by blast+
  then have "owned service (patched (di_id x) ex [(''enabled'', JBool False)])"
      "row_key (patched (di_id x) ex [(''enabled'', JBool False)]) = di_routeKey x"
    by (simp_all add: owned_def row_key_def str_field_def patched_def spread_field)
  from update_effect [OF st assms(2,3) this] obtain y w1 where u: "on_paths (pd_updateById deps (di_id x) [(''enabled'', JBool False)]) w = (Inr y, w1)"
    and s: "settled_at service (f(di_routeKey x \<mapsto> patched (di_id x) ex [(''enabled'', JBool False)])) rl w1" by blast
  show ?thesis using settled_journal [OF s] by (fastforce simp: applyDisable_def u)
qed

lemma upserts_effect:
  assumes "settled_at service f rl w" and "distinct (map up_routeKey us)" and "\<forall>u \<in> set us. upsert_fits service f u"
  shows "\<exists>g w'. for_each (applyUpsert deps service) us w = (Inr (), w') \<and> settled_at service g rl w' \<and>
    (\<forall>u \<in> set us. \<exists>i. g (up_routeKey u) = Some (row_after i (f (up_routeKey u)) (up_model u))) \<and>
    (\<forall>k. k \<notin> up_routeKey ` set us \<longrightarrow> g k = f k)"
  using assms
proof (induction us arbitrary: f w)
  case Nil
  then show ?case by auto
next
  case (Cons u us)
  have "upsert_fits service f u" using Cons.prems(3) by simp
  then obtain i w1 where a: "applyUpsert deps service u w = (Inr (), w1)"
    and s: "settled_at service (f(up_routeKey u \<mapsto> row_after i (f (up_routeKey u)) (up_model u))) rl w1"
    using upsert_effect [OF Cons.prems(1)] by blast
  let ?f = "f(up_routeKey u \<mapsto> row_after i (f (up_routeKey u)) (up_model u))"
  have other: "?f (up_routeKey v) = f (up_routeKey v)" if "v \<in> set us" for v
    using Cons.prems(2) that by (auto simp: image_iff)
  then have fits: "\<forall>v \<in> set us. upsert_fits service ?f v" using Cons.prems(3) by (simp add: upsert_fits_def)
  have d: "distinct (map up_routeKey us)" using Cons.prems(2) by simp
  obtain g w' where g: "for_each (applyUpsert deps service) us w1 = (Inr (), w')" "settled_at service g rl w'"
    "\<forall>v \<in> set us. \<exists>i. g (up_routeKey v) = Some (row_after i (?f (up_routeKey v)) (up_model v))"
    "\<forall>k. k \<notin> up_routeKey ` set us \<longrightarrow> g k = ?f k"
    using Cons.IH [OF s d fits] by blast
  have "up_routeKey u \<notin> up_routeKey ` set us" using Cons.prems(2) by auto
  with g(4) have "g (up_routeKey u) = Some (row_after i (f (up_routeKey u)) (up_model u))" by simp
  moreover have "\<forall>v \<in> set us. \<exists>i. g (up_routeKey v) = Some (row_after i (f (up_routeKey v)) (up_model v))" using g(3) other by simp
  ultimately show ?case using g a by (intro exI [of _ g] exI [of _ w']) auto
qed

lemma disables_effect:
  assumes "settled_at service f rl w" and "distinct (map di_routeKey xs)" and "\<forall>x \<in> set xs. disable_fits f x"
  shows "\<exists>g w'. for_each (applyDisable deps service) xs w = (Inr (), w') \<and> settled_at service g rl w' \<and>
    (\<forall>x \<in> set xs. \<exists>d. g (di_routeKey x) = Some d \<and> \<not> is_enabled d) \<and> (\<forall>k. k \<notin> di_routeKey ` set xs \<longrightarrow> g k = f k)"
  using assms
proof (induction xs arbitrary: f w)
  case Nil
  then show ?case by auto
next
  case (Cons x xs)
  obtain ex where ex: "f (di_routeKey x) = Some ex" "id_of ex = Some (di_id x)" using Cons.prems(3) by (auto simp: disable_fits_def)
  let ?d = "patched (di_id x) ex [(''enabled'', JBool False)]"
  obtain w1 where a: "applyDisable deps service x w = (Inr (), w1)" and s: "settled_at service (f(di_routeKey x \<mapsto> ?d)) rl w1"
    using disable_effect [OF Cons.prems(1) ex] by blast
  have fits: "\<forall>v \<in> set xs. disable_fits (f(di_routeKey x \<mapsto> ?d)) v" using Cons.prems(2,3) by (auto simp: disable_fits_def image_iff)
  have d: "distinct (map di_routeKey xs)" using Cons.prems(2) by simp
  obtain g w' where g: "for_each (applyDisable deps service) xs w1 = (Inr (), w')" "settled_at service g rl w'"
    "\<forall>v \<in> set xs. \<exists>d. g (di_routeKey v) = Some d \<and> \<not> is_enabled d"
    "\<forall>k. k \<notin> di_routeKey ` set xs \<longrightarrow> g k = (f(di_routeKey x \<mapsto> ?d)) k"
    using Cons.IH [OF s d fits] by blast
  have "di_routeKey x \<notin> di_routeKey ` set xs" using Cons.prems(2) by auto
  with g(4) have "g (di_routeKey x) = Some ?d" by simp
  moreover have "\<not> is_enabled ?d" by (simp add: is_enabled_def patched_def spread_field)
  ultimately show ?case using g a by (intro exI [of _ g] exI [of _ w']) auto
qed

lemma journaling_loop:
  assumes "\<And>x v. \<exists>v'. h x v = (Inr (), v') \<and> sw_paths v' = sw_paths v \<and> sw_reloads v' = sw_reloads v"
  shows "\<exists>w'. for_each h xs w = (Inr (), w') \<and> sw_paths w' = sw_paths (w :: 's sync_world) \<and> sw_reloads w' = sw_reloads w"
proof (induction xs arbitrary: w)
  case (Cons x xs)
  obtain v where "h x w = (Inr (), v)" "sw_paths v = sw_paths w" "sw_reloads v = sw_reloads w" using assms by blast
  with Cons.IH [of v] show ?case by auto
qed simp

lemma journal_ops:
  "\<exists>v'. applyCollision service c v = (Inr (), v') \<and> sw_paths v' = sw_paths v \<and> sw_reloads v' = sw_reloads v"
  "\<exists>v'. applyInvalid service r v = (Inr (), v') \<and> sw_paths v' = sw_paths v \<and> sw_reloads v' = sw_reloads v"
  "\<exists>v'. applySkipped service c v = (Inr (), v') \<and> sw_paths v' = sw_paths v \<and> sw_reloads v' = sw_reloads v"
  by (simp_all add: applyCollision_def applyInvalid_def applySkipped_def journal_def)

lemma journal_loops:
  "\<exists>w'. for_each (applyCollision service) cs w = (Inr (), w') \<and> sw_paths w' = sw_paths (w :: 's sync_world) \<and> sw_reloads w' = sw_reloads w"
  "\<exists>w'. for_each (applyInvalid service) rs w = (Inr (), w') \<and> sw_paths w' = sw_paths (w :: 's sync_world) \<and> sw_reloads w' = sw_reloads w"
  "\<exists>w'. for_each (applySkipped service) cs w = (Inr (), w') \<and> sw_paths w' = sw_paths (w :: 's sync_world) \<and> sw_reloads w' = sw_reloads w"
  by (rule journaling_loop, rule journal_ops)+

lemma reserve_effect:
  assumes "settled_at service f rl w" and "service \<noteq> ''manual''"
  shows "\<exists>w'. reserveOthers deps service rs res w = (Inr (reserve_pure (others service (pview (sw_paths w))) rs res), w') \<and>
    settled_at service f rl w' \<and> pview (sw_paths w') = pview (sw_paths w)"
  using assms(1)
proof (induction rs arbitrary: res w)
  case Nil
  then show ?case by simp
next
  case (Cons r rs)
  show ?case
  proof (cases "routeKeyOf r \<in> fst ` set res")
    case True
    with Cons show ?thesis by simp
  next
    case False
    have ok: "pok (sw_paths w)" using Cons.prems by (simp add: settled_at_def)
    obtain cs s where q: "pd_filterKey deps (routeKeyOf r) (sw_paths w) = (Inr cs, s)" using answering [OF ok] by (blast elim: answersE)
    note law = filterKey_law [OF ok q]
    then have cs: "cs = filter (\<lambda>d. field d ''routeKey'' = JStr (routeKeyOf r)) (pview (sw_paths w))" by simp
    let ?w = "w\<lparr>sw_paths := s\<rparr>"
    have st: "settled_at service f rl ?w" and v: "pview (sw_paths ?w) = pview (sw_paths w)" using Cons.prems law by (simp_all add: settled_at_def)
    have run: "on_paths (pd_filterKey deps (routeKeyOf r)) w = (Inr cs, ?w)" using q by (simp add: on_paths_def)
    have fi: "find (\<lambda>c. ownerOr c \<noteq> service) cs = find (\<lambda>c. field c ''routeKey'' = JStr (routeKeyOf r)) (others service (pview (sw_paths w)))"
      unfolding cs others_def find_filter_swap [of "\<lambda>c. ownerOr c \<noteq> service"] by (simp add: ownerOr_owned [OF assms(2)])
    show ?thesis
    proof (cases "find (\<lambda>c. ownerOr c \<noteq> service) cs")
      case None
      with Cons.IH [OF st, of res] run fi v False show ?thesis by (simp add: Let_def)
    next
      case (Some c)
      have "find (\<lambda>c. field c ''routeKey'' = JStr (routeKeyOf r)) (others service (pview (sw_paths w))) = Some c" using Some fi by simp
      with Some Cons.IH [OF st, of "AList.update (routeKeyOf r) (ownerOr c) res"] run v False show ?thesis by (simp add: Let_def)
    qed
  qed
qed

lemma settled_same: "settled_at service f rl w \<Longrightarrow> sw_paths v = sw_paths w \<Longrightarrow> sw_reloads v = sw_reloads w \<Longrightarrow> settled_at service f rl v"
  by (simp add: settled_at_def)

lemma finish_effect:
  "settled_at service f rl w \<Longrightarrow> \<exists>rl' w'. finishSync cfg service df w = (Inr (), w') \<and> settled_at service f rl' w'"
  by (auto simp: finishSync_def and_then_def triggerReload_def journal_def settled_at_def)

lemma apply_effect:
  assumes "settled_at service f rl w" and "distinct (map up_routeKey (rd_upserts df) @ map di_routeKey (rd_disables df))"
    and "\<forall>u \<in> set (rd_upserts df). upsert_fits service f u" and "\<forall>x \<in> set (rd_disables df). disable_fits f x"
  shows "\<exists>g rl' w'. applyDiff deps cfg service df w = (Inr (), w') \<and> settled_at service g rl' w' \<and>
    (\<forall>u \<in> set (rd_upserts df). \<exists>i. g (up_routeKey u) = Some (row_after i (f (up_routeKey u)) (up_model u))) \<and>
    (\<forall>x \<in> set (rd_disables df). \<exists>d. g (di_routeKey x) = Some d \<and> \<not> is_enabled d) \<and>
    (\<forall>k. k \<notin> up_routeKey ` set (rd_upserts df) \<longrightarrow> k \<notin> di_routeKey ` set (rd_disables df) \<longrightarrow> g k = f k)"
proof -
  obtain w1 where w1: "for_each (applyCollision service) (rd_collisions df) w = (Inr (), w1)" "sw_paths w1 = sw_paths w" "sw_reloads w1 = sw_reloads w"
    using journal_loops(1) [of service "rd_collisions df" w] by blast
  obtain w2 where w2: "for_each (applyInvalid service) (rd_invalid df) w1 = (Inr (), w2)" "sw_paths w2 = sw_paths w1" "sw_reloads w2 = sw_reloads w1"
    using journal_loops(2) [of service "rd_invalid df" w1] by blast
  have s2: "settled_at service f rl w2" by (rule settled_same [OF assms(1)]) (simp_all add: w1 w2)
  have du: "distinct (map up_routeKey (rd_upserts df))" and dd: "distinct (map di_routeKey (rd_disables df))"
    using assms(2) by simp_all
  have disj: "up_routeKey u \<noteq> di_routeKey x" if "u \<in> set (rd_upserts df)" "x \<in> set (rd_disables df)" for u x
    using assms(2) that by fastforce
  obtain g w3 where g: "for_each (applyUpsert deps service) (rd_upserts df) w2 = (Inr (), w3)" "settled_at service g rl w3"
    "\<forall>u \<in> set (rd_upserts df). \<exists>i. g (up_routeKey u) = Some (row_after i (f (up_routeKey u)) (up_model u))"
    "\<forall>k. k \<notin> up_routeKey ` set (rd_upserts df) \<longrightarrow> g k = f k"
    using upserts_effect [OF s2 du assms(3)] by blast
  have "g (di_routeKey x) = f (di_routeKey x)" if "x \<in> set (rd_disables df)" for x using g(4) disj that by (metis imageE)
  then have "\<forall>x \<in> set (rd_disables df). disable_fits g x" using assms(4) by (simp add: disable_fits_def)
  from disables_effect [OF g(2) dd this]
  obtain h w4 where h: "for_each (applyDisable deps service) (rd_disables df) w3 = (Inr (), w4)" "settled_at service h rl w4"
    "\<forall>x \<in> set (rd_disables df). \<exists>d. h (di_routeKey x) = Some d \<and> \<not> is_enabled d"
    "\<forall>k. k \<notin> di_routeKey ` set (rd_disables df) \<longrightarrow> h k = g k" by blast
  obtain w5 where w5: "for_each (applySkipped service) (rd_skipped df) w4 = (Inr (), w5)" "sw_paths w5 = sw_paths w4" "sw_reloads w5 = sw_reloads w4"
    using journal_loops(3) [of service "rd_skipped df" w4] by blast
  have "settled_at service h rl w5" by (rule settled_same [OF h(2)]) (simp_all add: w5)
  from finish_effect [OF this] obtain rl' w6 where w6: "finishSync cfg service df w5 = (Inr (), w6)" "settled_at service h rl' w6" by blast
  have "applyDiff deps cfg service df w = (Inr (), w6)"
    by (simp add: applyDiff_def w1(1) w2(1) g(1) h(1) w5(1) w6(1))
  moreover have "h (up_routeKey u) = g (up_routeKey u)" if "u \<in> set (rd_upserts df)" for u
    using h(4) disj [OF that] by (metis imageE)
  ultimately show ?thesis using w6(2) g(3,4) h(3,4) by (intro exI [of _ h] exI [of _ rl'] exI [of _ w6]) auto
qed

lemma apply_idle:
  assumes "rd_upserts df = []" and "rd_disables df = []" and "\<not> rd_changed df"
  shows "sw_paths (snd (applyDiff deps cfg service df w)) = sw_paths w \<and> sw_reloads (snd (applyDiff deps cfg service df w)) = sw_reloads w"
proof -
  obtain w1 where w1: "for_each (applyCollision service) (rd_collisions df) w = (Inr (), w1)" "sw_paths w1 = sw_paths w" "sw_reloads w1 = sw_reloads w"
    using journal_loops(1) [of service "rd_collisions df" w] by blast
  obtain w2 where w2: "for_each (applyInvalid service) (rd_invalid df) w1 = (Inr (), w2)" "sw_paths w2 = sw_paths w1" "sw_reloads w2 = sw_reloads w1"
    using journal_loops(2) [of service "rd_invalid df" w1] by blast
  obtain w5 where w5: "for_each (applySkipped service) (rd_skipped df) w2 = (Inr (), w5)" "sw_paths w5 = sw_paths w2" "sw_reloads w5 = sw_reloads w2"
    using journal_loops(3) [of service "rd_skipped df" w2] by blast
  have "applyDiff deps cfg service df w = (Inr (), w5)"
    using assms by (simp add: applyDiff_def w1(1) w2(1) w5(1) finishSync_def)
  then show ?thesis by (simp add: w1 w2 w5)
qed

text \<open>Reading: the rows, the reserved keys and the diff that \<open>handle\<close> applies.\<close>

lemma handle_reads:
  assumes "settled_at service f rl w" and "mf_service m = Some service" and "service \<noteq> []" and "service \<noteq> ''manual''"
  defines "rows \<equiv> pview (sw_paths w)" and "routes \<equiv> coalesce (mf_routes m) []"
  shows "\<exists>w'. settled_at service f rl w' \<and> pview (sw_paths w') = rows \<and>
    handle deps cfg m w = snd (applyDiff deps cfg service (diffRoutes service routes (filter (owned service) rows)
      (reserve_pure (others service rows) routes (yamlReserved (gs_yaml cfg)))) w')"
proof -
  have ok: "pok (sw_paths w)" using assms(1) by (simp add: settled_at_def)
  obtain es s where q: "pd_filterOwner deps service (sw_paths w) = (Inr es, s)" using answering [OF ok] by (blast elim: answersE)
  note law = filterOwner_law [OF ok q]
  then have es: "es = filter (owned service) rows" by (simp add: owned_def [abs_def] rows_def)
  let ?w = "w\<lparr>sw_paths := s\<rparr>"
  have run: "on_paths (pd_filterOwner deps service) w = (Inr es, ?w)" using q by (simp add: on_paths_def)
  have st: "settled_at service f rl ?w" and v: "pview (sw_paths ?w) = rows" using assms(1) law by (simp_all add: settled_at_def rows_def)
  from reserve_effect [OF st assms(4), of routes "yamlReserved (gs_yaml cfg)", unfolded v]
  obtain w' where r: "reserveOthers deps service routes (yamlReserved (gs_yaml cfg)) ?w = (Inr (reserve_pure (others service rows) routes (yamlReserved (gs_yaml cfg))), w')"
    and s: "settled_at service f rl w'" "pview (sw_paths w') = rows" by blast
  have "handle deps cfg m w = snd (syncRoutes deps cfg service routes w)" using assms(2,3) by (simp add: handle_def routes_def)
  also have "syncRoutes deps cfg service routes w = applyDiff deps cfg service (diffRoutes service routes (filter (owned service) rows)
      (reserve_pure (others service rows) routes (yamlReserved (gs_yaml cfg)))) w'"
    using run r by (simp add: syncRoutes_def es)
  finally show ?thesis using s by blast
qed

lemma diff_fits:
  fixes rows service routes res
  defines "df \<equiv> diffRoutes service routes (filter (owned service) rows) res" and "f \<equiv> own_at service rows"
  assumes key: "keyed service rows" and ids: "\<forall>d \<in> set rows. \<exists>i. id_of d = Some i" and plain: "\<forall>r \<in> set routes. plain_route r"
  shows "(\<forall>u \<in> set (rd_upserts df). upsert_fits service f u) \<and> (\<forall>x \<in> set (rd_disables df). disable_fits f x)"
proof -
  let ?byKey = "existingByKey (filter (owned service) rows)"
  have "upsert_fits service f u" if u: "u \<in> set (rd_upserts df)" for u
  proof -
    obtain r where r: "r \<in> set (firsts [] routes)" and cl: "classify service ?byKey res r = OUpsert u"
      using upsert_origin u unfolding df_def by blast
    define ex where "ex = map_of ?byKey (routeKeyOf r)"
    have ne: "routeKeyOf r \<noteq> []" by (simp add: routeKeyOf_def)
    then have ex: "ex = f (routeKeyOf r)" unfolding ex_def f_def by (rule byKey_own_at [OF key])
    obtain en ov where model: "up_model u = upsert_model service (routeKeyOf r) en ov (applyUserOverrides r ex ov)"
      and k: "up_routeKey u = routeKeyOf r" and i: "up_existingId u = Option.bind ex id_of"
      using cl unfolding classify_def Let_def ex_def by (auto split: if_splits)
    have p: "distinct (map fst r)" "nullish (field r ''_id'')" using firsts_keys [OF r] plain by (auto simp: plain_route_def)
    have "distinct (map fst (up_model u))"
      unfolding model upsert_model_def by (intro spread_distinct applyUserOverrides_distinct p)
    moreover have "nullish (field (up_model u) ''_id'')" if "ex = None"
      using p that by (simp add: model upsert_model_field applyUserOverrides_def)
    moreover have "map_of (up_model u) ''owner'' = Some (JStr service)" "map_of (up_model u) ''routeKey'' = Some (JStr (routeKeyOf r))"
      unfolding model by (simp_all only: upsert_model_get) simp_all
    ultimately show ?thesis unfolding upsert_fits_def k i ex [symmetric] by blast
  qed
  moreover have "disable_fits f x" if x: "x \<in> set (rd_disables df)" for x
  proof -
    obtain ex where ex: "map_of ?byKey (di_routeKey x) = Some ex" "di_id x = coalesce (id_of ex) []"
      using disable_origin x unfolding df_def by blast
    note m = byKey_mem [OF ex(1)]
    then have "f (di_routeKey x) = Some ex" using ex(1) byKey_own_at [OF key] by (simp add: f_def)
    moreover obtain i where "id_of ex = Some i" using m ids by blast
    ultimately show ?thesis using ex(2) by (simp add: disable_fits_def)
  qed
  ultimately show ?thesis by blast
qed

lemma handle_effect:
  fixes w :: "'s sync_world" and m :: manifest and cfg :: gateway_sync_config and service :: string
  assumes ok: "pok (sw_paths w)" and key: "keyed service (pview (sw_paths w))"
    and "mf_service m = Some service" and "service \<noteq> []" and "service \<noteq> ''manual''"
    and plain: "\<forall>r \<in> set (coalesce (mf_routes m) []). plain_route r"
  defines "rows \<equiv> pview (sw_paths w)" and "routes \<equiv> coalesce (mf_routes m) []" and "w1 \<equiv> handle deps cfg m w"
  defines "res \<equiv> reserve_pure (others service rows) routes (yamlReserved (gs_yaml cfg))"
    and "f \<equiv> own_at service rows" and "byKey \<equiv> existingByKey (filter (owned service) rows)"
  shows "\<exists>g rl. settled_at service g rl w1 \<and>
    (\<forall>r \<in> set (firsts [] routes). case classify service byKey res r of
       OUpsert u \<Rightarrow> \<exists>i. g (routeKeyOf r) = Some (row_after i (f (routeKeyOf r)) (up_model u))
     | _ \<Rightarrow> g (routeKeyOf r) = f (routeKeyOf r)) \<and>
    (\<forall>k d. k \<noteq> [] \<longrightarrow> k \<notin> routeKeyOf ` set (firsts [] routes) \<longrightarrow> g k = Some d \<longrightarrow> \<not> is_enabled d)"
proof -
  have st: "settled_at service f (sw_reloads w) w" using ok key by (simp add: settled_at_def f_def rows_def)
  let ?df = "diffRoutes service routes (filter (owned service) rows) res"
  obtain w' where w': "settled_at service f (sw_reloads w) w'" and w1: "w1 = snd (applyDiff deps cfg service ?df w')"
    using handle_reads [OF st assms(3-5), of cfg] unfolding rows_def routes_def w1_def res_def by blast
  have ids: "\<forall>d \<in> set rows. \<exists>i. id_of d = Some i" using pids [OF ok] by (auto simp: rows_def)
  note fits = diff_fits [OF key [folded rows_def] ids plain [folded routes_def], of res, folded f_def]
  obtain g rl v where run: "applyDiff deps cfg service ?df w' = (Inr (), v)" and g: "settled_at service g rl v"
    "\<forall>u \<in> set (rd_upserts ?df). \<exists>i. g (up_routeKey u) = Some (row_after i (f (up_routeKey u)) (up_model u))"
    "\<forall>x \<in> set (rd_disables ?df). \<exists>d. g (di_routeKey x) = Some d \<and> \<not> is_enabled d"
    "\<forall>k. k \<notin> up_routeKey ` set (rd_upserts ?df) \<longrightarrow> k \<notin> di_routeKey ` set (rd_disables ?df) \<longrightarrow> g k = f k"
    using apply_effect [OF w' diff_keys_distinct conjunct1 [OF fits] conjunct2 [OF fits], of cfg] by blast
  have dis: "k \<notin> routeKeyOf ` set (firsts [] routes)" if "k \<in> di_routeKey ` set (rd_disables ?df)" for k
  proof -
    from that obtain x where "k = di_routeKey x" "x \<in> set (rd_disables ?df)" by blast
    with disable_origin [OF this(2)] show ?thesis by auto
  qed
  have firsts: "case classify service byKey res r of
       OUpsert u \<Rightarrow> \<exists>i. g (routeKeyOf r) = Some (row_after i (f (routeKeyOf r)) (up_model u))
     | _ \<Rightarrow> g (routeKeyOf r) = f (routeKeyOf r)" if r: "r \<in> set (firsts [] routes)" for r
  proof (cases "\<exists>u. classify service byKey res r = OUpsert u")
    case True
    then obtain u where u: "classify service byKey res r = OUpsert u" by blast
    then have "u \<in> set (rd_upserts ?df)" using r by (auto simp: diffRoutes_spec map_filter_mem upsert_of_Some byKey_def)
    with g(2) classify_upsert [OF u] u show ?thesis by fastforce
  next
    case False
    have "routeKeyOf r \<noteq> up_routeKey u" if u: "u \<in> set (rd_upserts ?df)" for u
    proof
      assume k: "routeKeyOf r = up_routeKey u"
      obtain r' where r': "r' \<in> set (firsts [] routes)" "classify service byKey res r' = OUpsert u"
        using upsert_origin [OF u] by (auto simp: byKey_def)
      with k r classify_upsert [OF r'(2)] firsts_distinct [of "[]" routes] have "r' = r" by (auto simp: distinct_map dest: inj_onD)
      with False r' show False by blast
    qed
    then have "g (routeKeyOf r) = f (routeKeyOf r)" using g(4) dis r by blast
    with False show ?thesis by (simp split: route_outcome.split)
  qed
  have absent: "\<not> is_enabled d" if k: "k \<noteq> []" "k \<notin> routeKeyOf ` set (firsts [] routes)" "g k = Some d" for k d
  proof (cases "k \<in> di_routeKey ` set (rd_disables ?df)")
    case True
    with g(3) k(3) show ?thesis by auto
  next
    case False
    have "k \<notin> up_routeKey ` set (rd_upserts ?df)" using upsert_origin classify_upsert k(2) by blast
    with False g(4) k(3) have "f k = Some d" by simp
    then have bk: "map_of byKey k = Some d" using byKey_own_at [OF key [folded rows_def] k(1)] by (simp add: f_def byKey_def)
    show ?thesis
    proof
      assume "is_enabled d"
      with bk k(2) existingByKey_distinct [of "filter (owned service) rows"] have "k \<in> di_routeKey ` set (rd_disables ?df)"
        by (force simp: diffRoutes_spec disablesOf_def byKey_def)
      with False show False by simp
    qed
  qed
  have "w1 = v" by (simp add: w1 run)
  with g(1) firsts absent show ?thesis by blast
qed

lemma handle_settles:
  fixes w :: "'s sync_world" and m :: manifest and cfg :: gateway_sync_config and service :: string
  assumes ok: "pok (sw_paths w)" and key: "keyed service (pview (sw_paths w))"
    and m: "mf_service m = Some service" "service \<noteq> []" "service \<noteq> ''manual''"
    and plain: "\<forall>r \<in> set (coalesce (mf_routes m) []). plain_route r"
    and cover: "\<forall>r \<in> set (coalesce (mf_routes m) []). \<forall>d \<in> set (pview (sw_paths w)). owned service d \<longrightarrow> row_key d = routeKeyOf r \<longrightarrow> defines_fields r d"
  defines "routes \<equiv> coalesce (mf_routes m) []" and "w1 \<equiv> handle deps cfg m w"
  shows "pview (sw_paths (handle deps cfg m w1)) = pview (sw_paths w1) \<and> sw_reloads (handle deps cfg m w1) = sw_reloads w1 \<and>
    (\<forall>r \<in> set (firsts [] routes). free_key service cfg (pview (sw_paths w)) (routeKeyOf r) \<longrightarrow>
       (\<exists>d. own_at service (pview (sw_paths w1)) (routeKeyOf r) = Some d \<and> reflects r d)) \<and>
    (\<forall>k d. k \<noteq> [] \<longrightarrow> k \<notin> routeKeyOf ` set (firsts [] routes) \<longrightarrow> own_at service (pview (sw_paths w1)) k = Some d \<longrightarrow> \<not> is_enabled d)"
proof -
  define rows rows1 where "rows = pview (sw_paths w)" and "rows1 = pview (sw_paths w1)"
  define res where "res = reserve_pure (others service rows) routes (yamlReserved (gs_yaml cfg))"
  let ?byKey = "existingByKey (filter (owned service) rows)" and ?byKey1 = "existingByKey (filter (owned service) rows1)"
  obtain g rl where g: "settled_at service g rl w1"
    and first: "\<And>r. r \<in> set (firsts [] routes) \<Longrightarrow> (case classify service ?byKey res r of
       OUpsert u \<Rightarrow> \<exists>i. g (routeKeyOf r) = Some (row_after i (own_at service rows (routeKeyOf r)) (up_model u))
     | _ \<Rightarrow> g (routeKeyOf r) = own_at service rows (routeKeyOf r))"
    and absent: "\<And>k d. k \<noteq> [] \<Longrightarrow> k \<notin> routeKeyOf ` set (firsts [] routes) \<Longrightarrow> g k = Some d \<Longrightarrow> \<not> is_enabled d"
    using handle_effect [OF ok key m plain, of cfg] unfolding routes_def w1_def rows_def res_def by blast
  have g1: "g = own_at service rows1" and key1: "keyed service rows1" and rl: "rl = sw_reloads w1" using g by (simp_all add: settled_at_def rows1_def)
  have oth: "others service rows1 = others service rows"
    using handle_others [OF ok m(1,3) plain, of cfg] by (simp add: rows1_def rows_def w1_def)
  have ne: "routeKeyOf r \<noteq> []" for r by (simp add: routeKeyOf_def)
  have by0: "map_of ?byKey (routeKeyOf r) = own_at service rows (routeKeyOf r)" for r
    using byKey_own_at [OF key ne] by (simp add: rows_def)
  have by1: "map_of ?byKey1 (routeKeyOf r) = g (routeKeyOf r)" for r using byKey_own_at [OF key1 ne] by (simp add: g1)
  have still: "classify service ?byKey1 res r \<noteq> OUpsert u" if r: "r \<in> set (firsts [] routes)" for r u
  proof (cases "\<exists>u. classify service ?byKey res r = OUpsert u")
    case True
    then obtain v where v: "classify service ?byKey res r = OUpsert v" by blast
    have inr: "r \<in> set routes" using firsts_keys [OF r] by simp
    then have d: "distinct (map fst r)" using plain by (auto simp: plain_route_def routes_def)
    have c: "defines_fields r ex" if "map_of ?byKey (routeKeyOf r) = Some ex" for ex
      using cover inr byKey_mem [OF that] by (auto simp: rows_def routes_def)
    from first [OF r] v obtain i where "g (routeKeyOf r) = Some (row_after i (map_of ?byKey (routeKeyOf r)) (up_model v))" by (auto simp: by0)
    from classify_settles [OF v d c this [folded by1]] show ?thesis by simp
  next
    case False
    with first [OF r] have "g (routeKeyOf r) = map_of ?byKey (routeKeyOf r)" by (auto simp: by0 split: route_outcome.splits)
    then have same: "map_of ?byKey1 (routeKeyOf r) = map_of ?byKey (routeKeyOf r)" by (simp only: by1)
    have "classify service ?byKey1 res r = classify service ?byKey res r" by (simp only: classify_def Let_def same)
    with False show ?thesis by simp
  qed
  let ?df = "diffRoutes service routes (filter (owned service) rows1) res"
  have up: "rd_upserts ?df = []"
  proof (cases "rd_upserts ?df")
    case (Cons u us)
    then have "u \<in> set (rd_upserts ?df)" by simp
    with upsert_origin [of u service routes "filter (owned service) rows1" res] still show ?thesis by blast
  qed simp
  have dis: "rd_disables ?df = []"
  proof (cases "rd_disables ?df")
    case (Cons x xs)
    then have "x \<in> set (rd_disables ?df)" by simp
    from disable_origin [OF this] obtain ex where ex: "map_of ?byKey1 (di_routeKey x) = Some ex" "is_enabled ex"
      "di_routeKey x \<notin> routeKeyOf ` set (firsts [] routes)" by blast
    have "di_routeKey x \<noteq> []" using byKey_mem [OF ex(1)] by simp
    with absent [OF _ ex(3)] ex byKey_own_at [OF key1] show ?thesis by (simp add: g1)
  qed simp
  have ch: "\<not> rd_changed ?df" by (simp add: diffRoutes_spec(5)) (simp add: up dis)
  obtain w' where w': "settled_at service g rl w'" "pview (sw_paths w') = rows1" and h: "handle deps cfg m w1 = snd (applyDiff deps cfg service ?df w')"
    using handle_reads [OF g m, of cfg] unfolding rows1_def [symmetric] oth res_def routes_def by blast
  have idle: "pview (sw_paths (handle deps cfg m w1)) = rows1" "sw_reloads (handle deps cfg m w1) = rl"
    using apply_idle [OF up dis ch, of cfg service w'] w' unfolding h by (simp_all add: settled_at_def)
  have "\<exists>d. g (routeKeyOf r) = Some d \<and> reflects r d" if "r \<in> set (firsts [] routes)" "free_key service cfg rows (routeKeyOf r)" for r
    using settled_reflects [OF still [OF that(1)]] free_key_reserved [OF that(2), of routes] by (simp add: by1 res_def)
  with idle absent show ?thesis unfolding rows1_def [symmetric] rows_def [symmetric] g1 rl by blast
qed

end

interpretation apaths: answering_paths mem_paths col_all mp_ok
proof
  fix s ow key m i
  show "answers (pd_filterOwner mem_paths ow) s \<and> answers (pd_filterKey mem_paths key) s \<and> answers (pd_insert mem_paths m) s \<and>
      answers (pd_updateById mem_paths i m) s"
    by (simp add: answers_def mem_paths_def mp_filterOwner_def mp_filterKey_def mp_insert_def mp_updateById_def split: prod.split)
qed

section \<open>The sync over the emitted repository settles\<close>

text \<open>Every field a stored row of the service has is one the announced route sends (a field the route
  stopped sending stays in the row for ever: \<open>dropped_field_never_converges\<close>).\<close>

definition sends_stored_fields :: "string \<Rightarrow> doc list \<Rightarrow> doc list \<Rightarrow> bool" where
  "sends_stored_fields service routes rows \<longleftrightarrow>
     (\<forall>r \<in> set routes. \<forall>d \<in> set rows. owned service d \<longrightarrow> row_key d = routeKeyOf r \<longrightarrow> defines_fields r d)"



end
