(* ===== verification/Config_Yaml.thy ===== *)
theory Config_Yaml
  imports Route_Manifest
begin

text \<open>
  The configuration file the schematics edit: \<open>schematics/utils/yaml-config.util.ts\<close>,
  \<open>broker-yaml.util.ts\<close> and \<open>schematic-prompt.util.ts\<close>. The \<open>yaml\<close> package (a document that
  keeps its comments) and the \<open>Tree\<close> of the devkit are not in the repository: they are records of
  functions, arguments of the definitions, and the locales \<open>yaml_document\<close> and \<open>file_tree\<close> state what
  the code relies on. Comments, flow style and log lines are left out: a document is seen through its
  data, a dynamic value.
\<close>

section \<open>Reading and writing a value at a path\<close>

type_synonym ypath = "string list"

fun dig :: "ypath \<Rightarrow> jval \<Rightarrow> jval" where
  "dig [] j = j"
| "dig (k # p) (JObj fs) = (case map_of fs k of None \<Rightarrow> JUndef | Some v \<Rightarrow> dig p v)"
| "dig (k # p) _ = JUndef"

fun nest :: "ypath \<Rightarrow> jval \<Rightarrow> jval" where
  "nest [] v = v"
| "nest (k # p) v = JObj [(k, nest p v)]"

fun bury_in :: "ypath \<Rightarrow> jval \<Rightarrow> jval \<Rightarrow> jval option" where
  "bury_in [] v j = Some v"
| "bury_in [k] v (JObj fs) = Some (JObj (AList.update k v fs))"
| "bury_in (k # k' # p) v (JObj fs) =
     (case map_of fs k of
        None \<Rightarrow> Some (JObj (AList.update k (nest (k' # p) v) fs))
      | Some c \<Rightarrow> map_option (\<lambda>c'. JObj (AList.update k c' fs)) (bury_in (k' # p) v c))"
| "bury_in (k # p) v _ = None"

text \<open>An empty document becomes a map; a parent that is not a map makes the write fail.\<close>

definition bury :: "ypath \<Rightarrow> jval \<Rightarrow> jval \<Rightarrow> jval option" where
  "bury p v j = (if nullish j then Some (nest p v) else bury_in p v j)"

text \<open>Two paths neither of which is a prefix of the other.\<close>

fun apart :: "ypath \<Rightarrow> ypath \<Rightarrow> bool" where
  "apart (a # p) (b # q) \<longleftrightarrow> a \<noteq> b \<or> apart p q"
| "apart _ _ \<longleftrightarrow> False"

lemma apart_sym: "apart p q = apart q p"
  by (induction p q rule: apart.induct) auto

lemma dig_nest [simp]: "dig p (nest p v) = v"
  by (induction p) auto

lemma dig_nest_apart: "apart p q \<Longrightarrow> dig q (nest p v) = JUndef"
  by (induction p q rule: apart.induct) auto

lemma dig_nullish: "nullish j \<Longrightarrow> p \<noteq> [] \<Longrightarrow> dig p j = JUndef"
  by (cases j; cases p) auto

lemma dig_bury_in: "bury_in p v j = Some j' \<Longrightarrow> dig p j' = v"
  by (induction p v j arbitrary: j' rule: bury_in.induct) (auto simp: om_simps split: option.splits)

lemma dig_bury_in_apart: "bury_in p v j = Some j' \<Longrightarrow> apart p q \<Longrightarrow> dig q j' = dig q j"
proof (induction p v j arbitrary: j' q rule: bury_in.induct)
  case (2 k v fs)
  then show ?case by (cases q) (auto simp: om_simps)
next
  case (3 k k' p v fs)
  obtain b q' where q: "q = b # q'" using 3(3) by (cases q) auto
  show ?case
  proof (cases "map_of fs k")
    case None
    with 3 q show ?thesis by (auto simp: om_simps dig_nest_apart [of "k' # p", simplified])
  next
    case (Some c)
    with 3 q show ?thesis by (auto simp: om_simps)
  qed
qed auto

lemma om_update_same: "map_of fs k = Some v \<Longrightarrow> AList.update k v fs = fs"
  by (induction fs) (auto split: if_splits)

lemma om_update_twice: "AList.update k w (AList.update k v fs) = AList.update k w fs"
  by (induction fs) auto

lemma bury_in_same: "dig p j = v \<Longrightarrow> v \<noteq> JUndef \<Longrightarrow> bury_in p v j = Some j"
  by (induction p v j rule: bury_in.induct) (auto simp: om_update_same split: option.splits)

lemma bury_in_nest: "bury_in p w (nest p v) = Some (nest p w)"
proof (induction p)
  case (Cons k p)
  then show ?case by (cases p) auto
qed simp

lemma bury_in_twice: "bury_in p v j = Some j' \<Longrightarrow> bury_in p w j' = bury_in p w j"
proof (induction p v j arbitrary: j' rule: bury_in.induct)
  case (3 k k' p v fs)
  then show ?case
    using bury_in_nest [of "k' # p" w v] by (auto simp: om_update_twice om_simps split: option.splits)
qed (auto simp: om_update_twice)

lemma bury_simps:
  assumes "bury p v j = Some j'"
  shows "dig p j' = v" and "apart p q \<Longrightarrow> dig q j' = dig q j" and "p \<noteq> [] \<Longrightarrow> bury p w j' = bury p w j"
proof -
  show "dig p j' = v" using assms by (auto simp: bury_def dig_bury_in split: if_splits)
  show "dig q j' = dig q j" if "apart p q"
  proof -
    have "q \<noteq> []" using that by (cases p; cases q) auto
    with assms that show ?thesis
      by (auto simp: bury_def dig_bury_in_apart dig_nest_apart dig_nullish split: if_splits)
  qed
  show "bury p w j' = bury p w j" if "p \<noteq> []"
  proof (cases "nullish j")
    case True
    with assms that have "j' = nest p v" by (simp add: bury_def)
    with True that bury_in_nest [of p w v] show ?thesis by (cases p) (auto simp: bury_def)
  next
    case False
    with assms have b: "bury_in p v j = Some j'" by (simp add: bury_def)
    with that have "\<not> nullish j'" by (cases "(p, v, j)" rule: bury_in.cases) (auto split: option.splits)
    with False bury_in_twice [OF b, of w] show ?thesis by (simp add: bury_def)
  qed
qed

lemma bury_same: "dig p j = v \<Longrightarrow> v \<noteq> JUndef \<Longrightarrow> p \<noteq> [] \<Longrightarrow> bury p v j = Some j"
  using dig_nullish [of j p] by (auto simp: bury_def bury_in_same)

section \<open>The YAML document and the file tree\<close>

record ('d, 't) yaml_lib =
  yl_new :: "'d"
  yl_parse :: "'t \<Rightarrow> 'd"
  yl_print :: "'d \<Rightarrow> jserr + 't"
  yl_getIn :: "ypath \<Rightarrow> 'd \<Rightarrow> jval"
  yl_setIn :: "ypath \<Rightarrow> jval \<Rightarrow> ('d, unit) eff"
  yl_deleteIn :: "ypath \<Rightarrow> 'd \<Rightarrow> 'd"
  yl_add :: "ypath \<Rightarrow> jval \<Rightarrow> 'd \<Rightarrow> 'd"
  yl_setItem :: "ypath \<Rightarrow> nat \<Rightarrow> string \<Rightarrow> jval \<Rightarrow> 'd \<Rightarrow> 'd"
  yl_splice :: "ypath \<Rightarrow> nat \<Rightarrow> 'd \<Rightarrow> 'd"
  yl_text :: "jval \<Rightarrow> string"

text \<open>\<open>getIn\<close> and \<open>setIn\<close> are the document's; \<open>yl_add\<close>, \<open>yl_setItem\<close> and \<open>yl_splice\<close> are what
  \<open>seq.add\<close>, \<open>items[i].set\<close> and \<open>items.splice(i, 1)\<close> do to the document holding the sequence at a path;
  \<open>yl_text\<close> is \<open>toString\<close> of a map or sequence node. Parsing what was printed gives the data back.\<close>

locale yaml_document =
  fixes Y :: "('d, 't) yaml_lib" and dat :: "'d \<Rightarrow> jval"
  assumes new_law: "dat (yl_new Y) = JObj []"
    and getIn_law: "yl_getIn Y p d = dig p (dat d)"
    and setIn_law: "yl_setIn Y p v d = (r, d') \<Longrightarrow>
      (case r of Inl e \<Rightarrow> bury p v (dat d) = None \<and> dat d' = dat d | Inr u \<Rightarrow> bury p v (dat d) = Some (dat d'))"
    and add_law: "dig p (dat d) = JArr xs \<Longrightarrow> bury p (JArr (xs @ [v])) (dat d) = Some (dat (yl_add Y p v d))"
    and setItem_law: "dig p (dat d) = JArr xs \<Longrightarrow> i < length xs \<Longrightarrow> xs ! i = JObj fs \<Longrightarrow>
      bury p (JArr (xs[i := JObj (AList.update k v fs)])) (dat d) = Some (dat (yl_setItem Y p i k v d))"
    and splice_law: "dig p (dat d) = JArr xs \<Longrightarrow> i < length xs \<Longrightarrow>
      bury p (JArr (take i xs @ drop (Suc i) xs)) (dat d) = Some (dat (yl_splice Y p i d))"
    and deleteIn_law: "p \<noteq> [] \<Longrightarrow> dig p (dat (yl_deleteIn Y p d)) = JUndef \<and> (\<forall>q. apart p q \<longrightarrow> dig q (dat (yl_deleteIn Y p d)) = dig q (dat d))"
    and print_law: "yl_print Y d = Inr t \<Longrightarrow> dat (yl_parse Y t) = dat d"

record ('f, 't) tree_lib =
  tr_exists :: "string \<Rightarrow> 'f \<Rightarrow> bool"
  tr_paths :: "'f \<Rightarrow> string list"
  tr_read :: "string \<Rightarrow> 'f \<Rightarrow> 't"
  tr_overwrite :: "string \<Rightarrow> 't \<Rightarrow> 'f \<Rightarrow> 'f"
  tr_create :: "string \<Rightarrow> 't \<Rightarrow> 'f \<Rightarrow> 'f"

text \<open>The paths \<open>visit\<close> gives are those of existing files, from the root; a path may be written without
  its leading slash; after either write the file is there with its content and the others are as they were.\<close>

definition canon :: "string \<Rightarrow> string" where
  "canon p = dropWhile (\<lambda>c. c = CHR ''/'') p"

definition strip_slash :: "string \<Rightarrow> string" where
  "strip_slash p = (case p of [] \<Rightarrow> [] | c # q \<Rightarrow> if c = CHR ''/'' then q else p)"

lemma canon_strip [simp]: "canon (strip_slash p) = canon p" "canon (CHR ''/'' # p) = canon p"
  by (cases p) (auto simp: canon_def strip_slash_def)

locale file_tree =
  fixes T :: "('f, 't) tree_lib"
  assumes exists_canon: "canon p = canon q \<Longrightarrow> tr_exists T p f = tr_exists T q f"
    and paths_exist: "p \<in> set (tr_paths T f) \<Longrightarrow> tr_exists T p f"
    and overwrite_law: "tr_exists T p f \<Longrightarrow> tr_read T p (tr_overwrite T p c f) = c \<and>
      (\<forall>q. tr_exists T q (tr_overwrite T p c f) = tr_exists T q f) \<and> tr_paths T (tr_overwrite T p c f) = tr_paths T f"
    and create_law: "\<not> tr_exists T p f \<Longrightarrow> tr_read T p (tr_create T p c f) = c \<and>
      (\<forall>q. tr_exists T q (tr_create T p c f) = (canon q = canon p \<or> tr_exists T q f))"

section \<open>Locating, reading and writing the file\<close>

definition DEFAULT_CONFIG_PATH :: string where
  "DEFAULT_CONFIG_PATH = ''config/config.yaml''"

definition ends_with :: "string \<Rightarrow> string \<Rightarrow> bool" where
  "ends_with s t \<longleftrightarrow> starts_with (rev s) (rev t)"

definition config_candidates :: "string option \<Rightarrow> string list" where
  "config_candidates preferred =
     filter (\<lambda>c. c \<noteq> []) (coalesce preferred [] # [DEFAULT_CONFIG_PATH, ''src/config/config.yaml'', ''config.yaml''])"

definition findConfigYaml :: "('f, 't) tree_lib \<Rightarrow> string option \<Rightarrow> 'f \<Rightarrow> string" where
  "findConfigYaml T preferred f =
     (case find (\<lambda>c. tr_exists T c f) (config_candidates preferred) of
        Some c \<Rightarrow> c
      | None \<Rightarrow>
         let found = map_option strip_slash (find (ends_with ''/config.yaml'') (tr_paths T f))
         in the (or_str found (or_str preferred (Some DEFAULT_CONFIG_PATH))))"

definition readConfigDoc :: "('f, 't) tree_lib \<Rightarrow> ('d, 't) yaml_lib \<Rightarrow> 'f \<Rightarrow> string \<Rightarrow> 'd \<times> bool" where
  "readConfigDoc T Y f path =
     (if tr_exists T path f then (yl_parse Y (tr_read T path f), True) else (yl_new Y, False))"

definition writeConfigDoc :: "('f, 't) tree_lib \<Rightarrow> ('d, 't) yaml_lib \<Rightarrow> string \<Rightarrow> 'd \<Rightarrow> 'f \<Rightarrow> jserr + 'f" where
  "writeConfigDoc T Y path d f =
     (case yl_print Y d of
        Inl e \<Rightarrow> Inl e
      | Inr out \<Rightarrow> Inr (if tr_exists T path f then tr_overwrite T path out f else tr_create T path out f))"

section \<open>Editing\<close>

datatype outcome = Created | Updated | Unchanged

definition reads :: "('s \<Rightarrow> 'a) \<Rightarrow> ('s, 'a) eff" where
  "reads f s = (Inr (f s), s)"

definition edits :: "('s \<Rightarrow> 's) \<Rightarrow> ('s, unit) eff" where
  "edits f s = (Inr (), f s)"

lemma reads_edits [simp]: "reads f s = (Inr (f s), s)" "edits g s = (Inr (), g s)"
  by (simp_all add: reads_def edits_def)

fun is_obj :: "jval \<Rightarrow> bool" where
  "is_obj (JObj fs) = True"
| "is_obj _ = False"

text \<open>\<open>String(it.get(k))\<close>: \<open>get\<close> gives the value of a scalar, and the node itself otherwise.\<close>

definition keyText :: "('d, 't) yaml_lib \<Rightarrow> jval \<Rightarrow> string" where
  "keyText Y v = (case v of JArr xs \<Rightarrow> yl_text Y v | JObj fs \<Rightarrow> yl_text Y v | _ \<Rightarrow> js_string v)"

definition stripUndefined :: "(string \<times> jval) list \<Rightarrow> (string \<times> jval) list" where
  "stripUndefined fs = filter (\<lambda>(k, v). v \<noteq> JUndef) fs"

definition has_key :: "('d, 't) yaml_lib \<Rightarrow> string \<Rightarrow> string \<Rightarrow> jval \<Rightarrow> bool" where
  "has_key Y keyField key it \<longleftrightarrow> is_obj it \<and> keyText Y (jget it keyField) = key"

fun find_index :: "('a \<Rightarrow> bool) \<Rightarrow> 'a list \<Rightarrow> nat option" where
  "find_index P [] = None"
| "find_index P (x # xs) = (if P x then Some 0 else map_option Suc (find_index P xs))"

definition ensureSeqAt :: "('d, 't) yaml_lib \<Rightarrow> ypath \<Rightarrow> ('d, unit) eff" where
  "ensureSeqAt Y p = and_then (reads (yl_getIn Y p)) (\<lambda>node. if is_arr node then ret () else yl_setIn Y p (JArr []))"

definition ensureMapAt :: "('d, 't) yaml_lib \<Rightarrow> ypath \<Rightarrow> ('d, unit) eff" where
  "ensureMapAt Y p = and_then (reads (yl_getIn Y p)) (\<lambda>node. if is_obj node then ret () else yl_setIn Y p (JObj []))"

definition findSeqItemByKey :: "('d, 't) yaml_lib \<Rightarrow> ypath \<Rightarrow> string \<Rightarrow> string \<Rightarrow> 'd \<Rightarrow> jval option" where
  "findSeqItemByKey Y p keyField key d =
     (let node = yl_getIn Y p d in if is_arr node then find (has_key Y keyField key) (arr_of node) else None)"

definition seqItemExists :: "('d, 't) yaml_lib \<Rightarrow> ypath \<Rightarrow> string \<Rightarrow> string \<Rightarrow> 'd \<Rightarrow> bool" where
  "seqItemExists Y p keyField key d \<longleftrightarrow> findSeqItemByKey Y p keyField key d \<noteq> None"

definition setFields :: "('d, 't) yaml_lib \<Rightarrow> ypath \<Rightarrow> nat \<Rightarrow> (string \<times> jval) list \<Rightarrow> ('d, unit) eff" where
  "setFields Y p i fs = for_each (\<lambda>(k, v). edits (yl_setItem Y p i k v)) fs"

definition itemText :: "('d, 't) yaml_lib \<Rightarrow> ypath \<Rightarrow> nat \<Rightarrow> 'd \<Rightarrow> string" where
  "itemText Y p i d = yl_text Y (arr_of (yl_getIn Y p d) ! i)"

text \<open>The item found, or else added: the body after \<open>ensureSeqAt\<close>, shared by the exchange bindings.\<close>

definition upsertWhere :: "('d, 't) yaml_lib \<Rightarrow> ypath \<Rightarrow> (jval \<Rightarrow> bool) \<Rightarrow> (string \<times> jval) list \<Rightarrow> bool \<Rightarrow> ('d, outcome) eff" where
  "upsertWhere Y p same clean overwrite =
     and_then (ensureSeqAt Y p) (\<lambda>_.
     and_then (reads (\<lambda>d. find_index same (arr_of (yl_getIn Y p d)))) (\<lambda>existing.
     case existing of
       None \<Rightarrow> and_then (edits (yl_add Y p (JObj clean))) (\<lambda>_. ret Created)
     | Some i \<Rightarrow>
         if \<not> overwrite then ret Unchanged
         else
           and_then (reads (itemText Y p i)) (\<lambda>before.
           and_then (setFields Y p i clean) (\<lambda>_.
           and_then (reads (itemText Y p i)) (\<lambda>now.
           ret (if now = before then Unchanged else Updated))))))"

definition upsertSeqItemByKey ::
    "('d, 't) yaml_lib \<Rightarrow> ypath \<Rightarrow> string \<Rightarrow> (string \<times> jval) list \<Rightarrow> bool \<Rightarrow> ('d, outcome) eff" where
  "upsertSeqItemByKey Y p keyField item overwrite =
     (let clean = stripUndefined item
      in upsertWhere Y p (has_key Y keyField (js_string (jget (JObj clean) keyField))) clean overwrite)"

definition setConfig :: "('d, 't) yaml_lib \<Rightarrow> ypath \<Rightarrow> jval \<Rightarrow> ('d, outcome) eff" where
  "setConfig Y p v =
     and_then (reads (yl_getIn Y p)) (\<lambda>prev.
     let existed = (prev \<noteq> JUndef) in
     if existed \<and> json_stringify prev = json_stringify v then ret Unchanged
     else and_then (yl_setIn Y p v) (\<lambda>_. ret (if existed then Updated else Created)))"

definition deleteSeqItemByKey :: "('d, 't) yaml_lib \<Rightarrow> ypath \<Rightarrow> string \<Rightarrow> string \<Rightarrow> ('d, bool) eff" where
  "deleteSeqItemByKey Y p keyField key =
     and_then (reads (yl_getIn Y p)) (\<lambda>node.
     if \<not> is_arr node then ret False
     else (case find_index (has_key Y keyField key) (arr_of node) of
             None \<Rightarrow> ret False
           | Some i \<Rightarrow> and_then (edits (yl_splice Y p i)) (\<lambda>_. ret True)))"

section \<open>What the edits do to the data\<close>

lemma find_index_Some: "find_index P xs = Some i \<Longrightarrow> i < length xs \<and> P (xs ! i) \<and> (\<forall>j < i. \<not> P (xs ! j))"
proof (induction xs arbitrary: i)
  case (Cons x xs)
  then show ?case by (cases i) (auto simp: nth_Cons' less_Suc_eq_0_disj split: if_splits)
qed simp

lemma find_index_None: "find_index P xs = None \<longleftrightarrow> (\<forall>x \<in> set xs. \<not> P x)"
  by (induction xs) auto

lemma find_index_find: "find P xs = map_option (\<lambda>i. xs ! i) (find_index P xs)"
  by (induction xs) (auto simp: option.map_comp comp_def)

lemma find_index_update: "find_index P xs = Some i \<Longrightarrow> P y \<Longrightarrow> find_index P (xs[i := y]) = Some i"
proof (induction xs arbitrary: i)
  case (Cons x xs)
  then show ?case by (cases i) (auto split: if_splits)
qed simp

lemma find_index_snoc: "find_index P xs = None \<Longrightarrow> P y \<Longrightarrow> find_index P (xs @ [y]) = Some (length xs)"
  by (induction xs) auto

text \<open>The items after an upsert, and its outcome.\<close>

definition put_item :: "(jval \<Rightarrow> bool) \<Rightarrow> (string \<times> jval) list \<Rightarrow> bool \<Rightarrow> jval list \<Rightarrow> jval list" where
  "put_item same clean overwrite xs =
     (case find_index same xs of
        None \<Rightarrow> xs @ [JObj clean]
      | Some i \<Rightarrow> if overwrite then xs[i := JObj (spread (obj_entries (xs ! i)) clean)] else xs)"

lemma is_objE [elim]: "is_obj j \<Longrightarrow> (\<And>fs. j = JObj fs \<Longrightarrow> P) \<Longrightarrow> P"
  by (cases j) auto

lemma spread_same: "(\<And>k v. (k, v) \<in> set c \<Longrightarrow> map_of a k = Some v) \<Longrightarrow> spread a c = a"
proof (induction c)
  case (Cons x c)
  obtain k v where x: "x = (k, v)" by (cases x)
  with Cons.prems have "AList.update k v a = a" by (intro om_update_same) simp
  with Cons x show ?case by (simp add: spread_def)
qed simp

lemma spread_twice: "distinct (map fst c) \<Longrightarrow> spread (spread a c) c = spread a c"
  by (rule spread_same) (simp add: spread_get_distinct)

lemma put_item_twice:
  assumes "distinct (map fst c)" and same: "\<And>fs. same (JObj fs) \<longleftrightarrow> jget (JObj fs) kf \<in> K" and "jget (JObj c) kf \<in> K"
    and objs: "\<And>x. same x \<Longrightarrow> is_obj x" and "map_of c kf \<noteq> None"
  shows "put_item same c ow (put_item same c ow xs) = put_item same c ow xs"
proof (cases "find_index same xs")
  case None
  have "same (JObj c)" using assms by blast
  with None show ?thesis by (simp add: put_item_def find_index_snoc spread_same assms(1) list_update_append)
next
  case (Some i)
  let ?y = "JObj (spread (obj_entries (xs ! i)) c)"
  have "same ?y" using assms(1,3,5) by (auto simp: same spread_get_distinct)
  with find_index_Some [OF Some] find_index_update [OF Some, of ?y] Some show ?thesis by (simp add: put_item_def spread_twice assms(1))
qed

context yaml_document
begin

lemma setFields_law:
  assumes "dig p (dat d) = JArr xs" and "i < length xs" and "xs ! i = JObj fs" and "p \<noteq> []"
  shows "\<exists>d'. setFields Y p i c d = (Inr (), d') \<and> bury p (JArr (xs[i := JObj (spread fs c)])) (dat d) = Some (dat d')"
  using assms
proof (induction c arbitrary: xs fs d)
  case Nil
  then have "xs[i := JObj fs] = xs" by (metis list_update_id)
  with Nil show ?case by (simp add: setFields_def bury_same)
next
  case (Cons x c)
  obtain k v where x: "x = (k, v)" by (cases x)
  let ?d = "yl_setItem Y p i k v d" and ?xs = "xs[i := JObj (AList.update k v fs)]"
  have b: "bury p (JArr ?xs) (dat d) = Some (dat ?d)" using setItem_law Cons.prems by blast
  from Cons.IH [of ?d ?xs "AList.update k v fs"] bury_simps [OF b] Cons.prems
  show ?case by (auto simp: setFields_def x spread_def and_then_def edits_def)
qed

lemma ensureSeqAt_law:
  assumes "ensureSeqAt Y p d = (r, d')" and "p \<noteq> []"
  shows "case r of Inl e \<Rightarrow> dat d' = dat d | Inr u \<Rightarrow> bury p (JArr (arr_of (dig p (dat d)))) (dat d) = Some (dat d')"
proof (cases "is_arr (dig p (dat d))")
  case True
  then obtain xs where "dig p (dat d) = JArr xs" by (cases "dig p (dat d)") auto
  with assms show ?thesis by (auto simp: ensureSeqAt_def and_then_def getIn_law bury_same)
next
  case False
  then have "arr_of (dig p (dat d)) = []" by (cases "dig p (dat d)") auto
  moreover have "yl_setIn Y p (JArr []) d = (r, d')" using False assms by (simp add: ensureSeqAt_def getIn_law)
  ultimately show ?thesis using setIn_law [of p "JArr []" d r d'] by (cases r) auto
qed

lemma upsertWhere_law:
  assumes "upsertWhere Y p same clean ow d = (r, d')" and "p \<noteq> []" and objs: "\<And>x. same x \<Longrightarrow> is_obj x"
  defines "xs \<equiv> arr_of (dig p (dat d))"
  shows "case r of Inl e \<Rightarrow> dat d' = dat d
    | Inr oc \<Rightarrow> bury p (JArr (put_item same clean ow xs)) (dat d) = Some (dat d') \<and>
        (oc = Created \<longleftrightarrow> find_index same xs = None) \<and> (put_item same clean ow xs = xs \<longrightarrow> oc = Unchanged)"
  using assms(1) unfolding upsertWhere_def
proof (cases rule: and_then_cases)
  case (1 e)
  with ensureSeqAt_law assms(2) show ?thesis by fastforce
next
  case (2 u t)
  from ensureSeqAt_law [OF 2(1) assms(2)] have b: "bury p (JArr xs) (dat d) = Some (dat t)" by (simp add: xs_def)
  then have t: "dig p (dat t) = JArr xs" by (rule bury_simps(1))
  show ?thesis
  proof (cases "find_index same xs")
    case None
    have n: "JArr (xs @ [JObj clean]) \<noteq> JArr xs" by simp
    with 2(2) None t add_law [OF t, of "JObj clean"] bury_simps(3) [OF b assms(2)] show ?thesis
      by (auto simp: getIn_law put_item_def)
  next
    case (Some i)
    obtain fs where fs: "xs ! i = JObj fs" using objs find_index_Some [OF Some] by blast
    have i: "i < length xs" using find_index_Some [OF Some] by blast
    show ?thesis
    proof (cases ow)
      case False
      with 2(2) Some t b show ?thesis by (auto simp: getIn_law put_item_def)
    next
      case True
      obtain v where v: "setFields Y p i clean t = (Inr (), v)" "bury p (JArr (xs[i := JObj (spread fs clean)])) (dat t) = Some (dat v)"
        using setFields_law [OF t i fs assms(2)] by blast
      have "dig p (dat v) = JArr (xs[i := JObj (spread fs clean)])" using bury_simps(1) [OF v(2)] .
      moreover have "xs[i := JObj (spread fs clean)] = xs \<Longrightarrow> spread fs clean = fs" using i fs by (metis jval.inject(5) nth_list_update_eq)
      ultimately show ?thesis using 2(2) Some True t v bury_simps(3) [OF b assms(2)] fs i
        by (auto simp: getIn_law put_item_def itemText_def and_then_def)
    qed
  qed
qed

end

section \<open>The broker's entries\<close>

definition EXCHANGES :: ypath where "EXCHANGES = [''broker'', ''exchanges'']"
definition QUEUES :: ypath where "QUEUES = [''broker'', ''queues'']"
definition TOPICS :: ypath where "TOPICS = [''topics'']"

definition exchangeExists :: "('d, 't) yaml_lib \<Rightarrow> string \<Rightarrow> 'd \<Rightarrow> bool" where
  "exchangeExists Y name d = seqItemExists Y EXCHANGES ''name'' name d"

definition queueExists :: "('d, 't) yaml_lib \<Rightarrow> string \<Rightarrow> 'd \<Rightarrow> bool" where
  "queueExists Y name d = seqItemExists Y QUEUES ''name'' name d"

definition topicExists :: "('d, 't) yaml_lib \<Rightarrow> string \<Rightarrow> 'd \<Rightarrow> bool" where
  "topicExists Y name d = seqItemExists Y TOPICS ''name'' name d"

definition getExchangeType :: "('d, 't) yaml_lib \<Rightarrow> string \<Rightarrow> 'd \<Rightarrow> jval" where
  "getExchangeType Y name d =
     (case findSeqItemByKey Y EXCHANGES ''name'' name d of None \<Rightarrow> JUndef | Some item \<Rightarrow> jget item ''type'')"

definition routingKeyRequired :: "('d, 't) yaml_lib \<Rightarrow> string \<Rightarrow> 'd \<Rightarrow> bool" where
  "routingKeyRequired Y exchangeName d \<longleftrightarrow> getExchangeType Y exchangeName d = JStr ''topic''"

text \<open>An object without its undefined properties, or \<open>undefined\<close> when none is left; its spread.\<close>

definition pruneEmpty :: "(string \<times> jval) list \<Rightarrow> jval" where
  "pruneEmpty fs = (let out = stripUndefined fs in if out = [] then JUndef else JObj out)"

text \<open>The fields of a specification: a name is a string, the rest may be \<open>undefined\<close>.\<close>

record exchange_spec =
  es_name :: string
  es_type :: jval
  es_create :: jval
  es_durable :: jval
  es_autoDelete :: jval
  es_internal :: jval

definition exchange_item :: "exchange_spec \<Rightarrow> (string \<times> jval) list" where
  "exchange_item s =
     (let options = pruneEmpty [(''durable'', es_durable s), (''autoDelete'', es_autoDelete s), (''internal'', es_internal s)]
      in [(''name'', JStr (es_name s)), (''type'', jcoal (es_type s) (JStr ''direct'')),
          (''createExchangeIfNotExists'', jcoal (es_create s) (JBool True))] @
         (if options \<noteq> JUndef then [(''options'', options)] else []))"

definition ensureExchange :: "('d, 't) yaml_lib \<Rightarrow> exchange_spec \<Rightarrow> bool \<Rightarrow> ('d, outcome) eff" where
  "ensureExchange Y s overwrite = upsertSeqItemByKey Y EXCHANGES ''name'' (exchange_item s) overwrite"

record queue_spec =
  qs_name :: string
  qs_exchange :: string
  qs_routingKey :: jval
  qs_create :: jval
  qs_durable :: jval
  qs_exclusive :: jval
  qs_autoDelete :: jval
  qs_messageTtl :: jval
  qs_maxLength :: jval
  qs_expires :: jval

definition queue_item :: "queue_spec \<Rightarrow> (string \<times> jval) list" where
  "queue_item s =
     (let options = pruneEmpty [(''durable'', qs_durable s), (''exclusive'', qs_exclusive s), (''autoDelete'', qs_autoDelete s),
            (''messageTtl'', qs_messageTtl s), (''maxLength'', qs_maxLength s), (''expires'', qs_expires s)]
      in [(''name'', JStr (qs_name s)), (''exchange'', JStr (qs_exchange s)), (''routingKey'', qs_routingKey s),
          (''createQueueIfNotExists'', jcoal (qs_create s) (JBool True))] @
         (if options \<noteq> JUndef then [(''options'', options)] else []))"

definition ensureQueue :: "('d, 't) yaml_lib \<Rightarrow> queue_spec \<Rightarrow> bool \<Rightarrow> ('d, outcome) eff" where
  "ensureQueue Y s overwrite = upsertSeqItemByKey Y QUEUES ''name'' (queue_item s) overwrite"

record topic_spec =
  ts_name :: string
  ts_mode :: string
  ts_queue :: jval
  ts_exchange :: string
  ts_routingKey :: jval
  ts_errorBehavior :: jval
  ts_retry :: "(string \<times> jval) list option"
  ts_mandatory :: jval
  ts_persistent :: jval
  ts_toObservable :: jval

definition topic_item :: "topic_spec \<Rightarrow> (string \<times> jval) list" where
  "topic_item s =
     [(''name'', JStr (ts_name s)), (''mode'', JStr (ts_mode s)), (''queue'', ts_queue s), (''exchange'', JStr (ts_exchange s)),
      (''routingKey'', ts_routingKey s), (''errorBehavior'', ts_errorBehavior s),
      (''retry'', case ts_retry s of None \<Rightarrow> JUndef | Some r \<Rightarrow> pruneEmpty r),
      (''mandatory'', ts_mandatory s), (''persistent'', ts_persistent s), (''toObservable'', ts_toObservable s)]"

definition ensureTopic :: "('d, 't) yaml_lib \<Rightarrow> topic_spec \<Rightarrow> bool \<Rightarrow> ('d, outcome) eff" where
  "ensureTopic Y s overwrite = upsertSeqItemByKey Y TOPICS ''name'' (topic_item s) overwrite"

section \<open>Prompts\<close>

text \<open>What the user types or picks, by the question asked: the \<open>@inquirer/prompts\<close> module, absent when
  the command runs without a terminal, in CI, or with its flags given.\<close>

record prompts =
  pr_input :: "string \<Rightarrow> string \<Rightarrow> string"
  pr_confirm :: "string \<Rightarrow> bool \<Rightarrow> bool"
  pr_select :: "string \<Rightarrow> string list \<Rightarrow> string \<Rightarrow> string"

record shell =
  sh_isTTY :: bool
  sh_CI :: bool
  sh_inquirer :: "prompts option"

definition loadPrompts :: "shell \<Rightarrow> bool \<Rightarrow> prompts option" where
  "loadPrompts sh flagsProvided =
     (let canPrompt = sh_isTTY sh \<and> \<not> sh_CI sh \<and> \<not> flagsProvided in if \<not> canPrompt then None else sh_inquirer sh)"

definition askText :: "prompts option \<Rightarrow> string \<Rightarrow> string \<Rightarrow> string" where
  "askText p message fallback =
     (case p of None \<Rightarrow> fallback | Some pr \<Rightarrow> (let s = pr_input pr message fallback in if s \<noteq> [] then s else fallback))"

definition askConfirm :: "prompts option \<Rightarrow> string \<Rightarrow> bool \<Rightarrow> bool" where
  "askConfirm p message fallback = (case p of None \<Rightarrow> fallback | Some pr \<Rightarrow> pr_confirm pr message fallback)"

definition askSelect :: "prompts option \<Rightarrow> string \<Rightarrow> string list \<Rightarrow> string \<Rightarrow> string" where
  "askSelect p message choices fallback = (case p of None \<Rightarrow> fallback | Some pr \<Rightarrow> pr_select pr message choices fallback)"

definition askNumber :: "prompts option \<Rightarrow> string \<Rightarrow> int option \<Rightarrow> int option" where
  "askNumber p message fallback =
     (case p of
        None \<Rightarrow> fallback
      | Some pr \<Rightarrow>
         let raw = pr_input pr message (case fallback of None \<Rightarrow> [] | Some n \<Rightarrow> int_str n) in
         if js_trim raw = [] then fallback else coalesce_opt (number_of_str raw) fallback)"

section \<open>The emitted items\<close>

lemma stripUndefined_get: "distinct (map fst fs) \<Longrightarrow> jget (JObj (stripUndefined fs)) k = jget (JObj fs) k"
proof (induction fs)
  case (Cons x fs)
  have "k \<notin> fst ` set fs \<Longrightarrow> map_of (stripUndefined fs) k = None"
    by (auto simp: stripUndefined_def map_of_eq_None_iff)
  with Cons show ?case by (cases x) (auto simp: stripUndefined_def split: option.splits)
qed (simp add: stripUndefined_def)

lemma stripUndefined_distinct: "distinct (map fst fs) \<Longrightarrow> distinct (map fst (stripUndefined fs))"
  by (simp add: stripUndefined_def om_distinct_filter)

lemma item_keys [simp]:
  "distinct (map fst (exchange_item e))" "distinct (map fst (queue_item q))" "distinct (map fst (topic_item t))"
  by (simp_all add: exchange_item_def queue_item_def topic_item_def Let_def)

lemma item_names [simp]:
  "jget (JObj (exchange_item e)) ''name'' = JStr (es_name e)" "jget (JObj (queue_item q)) ''name'' = JStr (qs_name q)"
  "jget (JObj (topic_item t)) ''name'' = JStr (ts_name t)"
  by (simp_all add: exchange_item_def queue_item_def topic_item_def Let_def)

section \<open>The contracts on plain data\<close>

text \<open>A document that is its data, and a tree that is its list of files: both contracts can be kept.\<close>

fun prune :: "ypath \<Rightarrow> jval \<Rightarrow> jval" where
  "prune [k] (JObj fs) = JObj (AList.delete k fs)"
| "prune (k # k' # p) (JObj fs) =
     (case map_of fs k of None \<Rightarrow> JObj fs | Some c \<Rightarrow> JObj (AList.update k (prune (k' # p) c) fs))"
| "prune p j = j"

definition plain_yaml :: "(jval, jval) yaml_lib" where
  "plain_yaml =
     \<lparr>yl_new = JObj [], yl_parse = (\<lambda>t. t), yl_print = Inr, yl_getIn = dig,
      yl_setIn = (\<lambda>p v d. case bury p v d of None \<Rightarrow> (Inl (generic_error ''Expected YAML collection''), d) | Some j \<Rightarrow> (Inr (), j)),
      yl_deleteIn = prune,
      yl_add = (\<lambda>p v d. the (bury p (JArr (arr_of (dig p d) @ [v])) d)),
      yl_setItem = (\<lambda>p i k v d. the (bury p (JArr ((arr_of (dig p d))[i := jset (arr_of (dig p d) ! i) k v])) d)),
      yl_splice = (\<lambda>p i d. the (bury p (JArr (take i (arr_of (dig p d)) @ drop (Suc i) (arr_of (dig p d)))) d)),
      yl_text = stableStringify\<rparr>"

definition plain_tree :: "((string \<times> 't) list, 't) tree_lib" where
  "plain_tree =
     \<lparr>tr_exists = (\<lambda>p f. canon p \<in> set (map (\<lambda>(k, v). canon k) f)),
      tr_paths = map (\<lambda>(k, v). CHR ''/'' # k),
      tr_read = (\<lambda>p f. snd (the (find (\<lambda>(k, v). canon k = canon p) f))),
      tr_overwrite = (\<lambda>p c f. map (\<lambda>(k, v). (k, if canon k = canon p then c else v)) f),
      tr_create = (\<lambda>p c f. f @ [(p, c)])\<rparr>"

lemma dig_prune: "p \<noteq> [] \<Longrightarrow> dig p (prune p j) = JUndef"
  by (induction p j rule: prune.induct) (auto simp: om_simps neq_Nil_conv split: option.splits)

lemma dig_prune_apart: "apart p q \<Longrightarrow> dig q (prune p j) = dig q j"
proof (induction p j arbitrary: q rule: prune.induct)
  case (1 k fs)
  then show ?case by (cases q) (auto simp: om_simps)
next
  case (2 k k' p fs)
  obtain b q' where q: "q = b # q'" using 2(2) by (cases q) auto
  show ?case
  proof (cases "map_of fs k")
    case None
    then show ?thesis by simp
  next
    case (Some c)
    with 2 q show ?thesis by (auto simp: om_simps)
  qed
qed auto

lemma bury_again: "dig p j = JArr xs \<Longrightarrow> \<exists>j'. bury p v j = Some j'"
proof -
  assume d: "dig p j = JArr xs"
  have "\<exists>j'. bury_in p v j = Some j'" using d by (induction p v j rule: bury_in.induct) (auto split: option.splits)
  with d show ?thesis using dig_nullish [of j p] by (cases p) (auto simp: bury_def)
qed

lemma plain_edit: "dig p j = JArr xs \<Longrightarrow> bury p v j = Some (the (bury p v j))"
  using bury_again [of p j xs v] by auto

interpretation plain: yaml_document plain_yaml "\<lambda>d. d"
proof
  fix p v and d d' :: jval and r
  assume "yl_setIn plain_yaml p v d = (r, d')"
  then show "case r of Inl e \<Rightarrow> bury p v d = None \<and> d' = d | Inr u \<Rightarrow> bury p v d = Some d'"
    by (auto simp: plain_yaml_def split: option.splits)
next
  fix p xs v and d :: jval
  assume d: "dig p d = JArr xs"
  from plain_edit [OF this, of "JArr (xs @ [v])"] d
  show "bury p (JArr (xs @ [v])) d = Some (yl_add plain_yaml p v d)" by (simp add: plain_yaml_def del: bury_in.simps)
next
  fix p xs i fs k v and d :: jval
  assume d: "dig p d = JArr xs" "xs ! i = JObj fs"
  from plain_edit [OF d(1), of "JArr (xs[i := JObj (AList.update k v fs)])"] d
  show "bury p (JArr (xs[i := JObj (AList.update k v fs)])) d = Some (yl_setItem plain_yaml p i k v d)" by (simp add: plain_yaml_def)
next
  fix p xs i and d :: jval
  assume d: "dig p d = JArr xs"
  from plain_edit [OF this, of "JArr (take i xs @ drop (Suc i) xs)"] d
  show "bury p (JArr (take i xs @ drop (Suc i) xs)) d = Some (yl_splice plain_yaml p i d)" by (simp add: plain_yaml_def)
qed (auto simp: plain_yaml_def dig_prune dig_prune_apart)

interpretation files: file_tree "plain_tree :: ((string \<times> 't) list, 't) tree_lib"
proof
  fix p and c :: 't and f :: "(string \<times> 't) list"
  assume e: "tr_exists plain_tree p f"
  then have "\<exists>kv \<in> set f. canon (fst kv) = canon p" by (force simp: plain_tree_def)
  then have "snd (the (find (\<lambda>(k, v). canon k = canon p) (map (\<lambda>(k, v). (k, if canon k = canon p then c else v)) f))) = c"
    by (induction f) auto
  then show "tr_read plain_tree p (tr_overwrite plain_tree p c f) = c \<and>
      (\<forall>q. tr_exists plain_tree q (tr_overwrite plain_tree p c f) = tr_exists plain_tree q f) \<and>
      tr_paths plain_tree (tr_overwrite plain_tree p c f) = tr_paths plain_tree f"
    by (simp add: plain_tree_def case_prod_beta comp_def image_image)
next
  fix p and c :: 't and f :: "(string \<times> 't) list"
  assume "\<not> tr_exists plain_tree p f"
  then have "\<forall>kv \<in> set f. canon (fst kv) \<noteq> canon p" by (force simp: plain_tree_def)
  then have "find (\<lambda>(k, v). canon k = canon p) (f @ [(p, c)]) = Some (p, c)" by (induction f) auto
  then have "tr_read plain_tree p (tr_create plain_tree p c f) = c" by (simp add: plain_tree_def)
  moreover have "tr_exists plain_tree q (tr_create plain_tree p c f) = (canon q = canon p \<or> tr_exists plain_tree q f)" for q
    by (auto simp: plain_tree_def)
  ultimately show "tr_read plain_tree p (tr_create plain_tree p c f) = c \<and>
      (\<forall>q. tr_exists plain_tree q (tr_create plain_tree p c f) = (canon q = canon p \<or> tr_exists plain_tree q f))"
    by blast
qed (auto simp: plain_tree_def split: prod.splits)

end
