(* ===== verification/Config_Schematics.thy ===== *)
theory Config_Schematics
  imports Config_Yaml
begin

text \<open>
  The schematics that edit \<open>config.yaml\<close>, one command each (\<open>schematics/*/index.ts\<close>): what a command
  does to the document, from its options and the answers to its prompts, and the run of a command on
  the file tree. A command ends with \<open>True\<close> when it reached \<open>writeConfigDoc\<close>; a throw and an early
  return leave the tree as it was.
\<close>

section \<open>Running a command\<close>

definition and_seq :: "('s, 'a) eff \<Rightarrow> ('s, 'b) eff \<Rightarrow> ('s, 'b) eff" where
  "and_seq m f = and_then m (\<lambda>_. f)"

definition or_ask :: "string option \<Rightarrow> string \<Rightarrow> string" where
  "or_ask x asked = (if truthy_str x then the x else asked)"

definition jopt :: "string option \<Rightarrow> jval" where
  "jopt x = (case x of None \<Rightarrow> JUndef | Some s \<Rightarrow> JStr s)"

definition quoted :: "string \<Rightarrow> string" where
  "quoted s = [CHR 0x27] @ s @ [CHR 0x27]"

definition run_command ::
    "('f, 't) tree_lib \<Rightarrow> ('d, 't) yaml_lib \<Rightarrow> string option \<Rightarrow> ('d, bool) eff \<Rightarrow> 'f \<Rightarrow> jserr + 'f" where
  "run_command T Y config body f =
     (let path = findConfigYaml T config f; d = fst (readConfigDoc T Y f path) in
      case body d of
        (Inl e, d') \<Rightarrow> Inl e
      | (Inr False, d') \<Rightarrow> Inr f
      | (Inr True, d') \<Rightarrow> writeConfigDoc T Y path d' f)"

section \<open>Exchanges, queues and topics\<close>

definition EXCHANGE_TYPES :: "string list" where
  "EXCHANGE_TYPES = [''direct'', ''topic'', ''fanout'', ''headers'']"

text \<open>A specification with the fields the caller leaves out.\<close>

definition an_exchange :: "string \<Rightarrow> jval \<Rightarrow> exchange_spec" where
  "an_exchange name type = \<lparr>es_name = name, es_type = type, es_create = JUndef, es_durable = JUndef, es_autoDelete = JUndef, es_internal = JUndef\<rparr>"

definition a_queue :: "string \<Rightarrow> string \<Rightarrow> jval \<Rightarrow> queue_spec" where
  "a_queue name exchange routingKey =
     \<lparr>qs_name = name, qs_exchange = exchange, qs_routingKey = routingKey, qs_create = JUndef, qs_durable = JUndef,
      qs_exclusive = JUndef, qs_autoDelete = JUndef, qs_messageTtl = JUndef, qs_maxLength = JUndef, qs_expires = JUndef\<rparr>"

definition a_topic :: "string \<Rightarrow> string \<Rightarrow> jval \<Rightarrow> string \<Rightarrow> jval \<Rightarrow> topic_spec" where
  "a_topic name mode queue exchange routingKey =
     \<lparr>ts_name = name, ts_mode = mode, ts_queue = queue, ts_exchange = exchange, ts_routingKey = routingKey,
      ts_errorBehavior = JUndef, ts_retry = None, ts_mandatory = JUndef, ts_persistent = JUndef, ts_toObservable = JUndef\<rparr>"

record add_exchange_options =
  ax_name :: "string option"
  ax_type :: "string option"
  ax_createIfNotExists :: jval
  ax_durable :: jval
  ax_autoDelete :: jval
  ax_internal :: jval
  ax_withQueue :: "bool option"
  ax_queueName :: "string option"
  ax_routingKey :: "string option"
  ax_overwrite :: bool

definition add_exchange :: "('d, 't) yaml_lib \<Rightarrow> shell \<Rightarrow> add_exchange_options \<Rightarrow> ('d, bool) eff" where
  "add_exchange Y sh opt =
     (let prompts = loadPrompts sh (ax_name opt \<noteq> None);
          name = or_ask (ax_name opt) (askText prompts ''Exchange name?'' []) in
      if name = [] then ret False
      else
        let type = or_ask (ax_type opt) (askSelect prompts ''Exchange type?'' EXCHANGE_TYPES ''direct'') in
        and_seq (ensureExchange Y
          \<lparr>es_name = name, es_type = JStr type, es_create = jcoal (ax_createIfNotExists opt) (JBool True),
           es_durable = jcoal (ax_durable opt) (JBool True), es_autoDelete = jcoal (ax_autoDelete opt) (JBool False),
           es_internal = jcoal (ax_internal opt) (JBool False)\<rparr> (ax_overwrite opt))
        (let withQueue = coalesce (ax_withQueue opt) (askConfirm prompts (''Create a queue bound to '' @ quoted name @ ''?'') False) in
         if withQueue then
           let queueName = or_ask (ax_queueName opt) (askText prompts ''Queue name?'' name);
               routingKey = (if type = ''topic'' then JStr (or_ask (ax_routingKey opt) queueName) else jopt (ax_routingKey opt))
           in and_seq (ensureQueue Y ((a_queue queueName name routingKey)\<lparr>qs_create := JBool True, qs_durable := JBool True\<rparr>) False) (ret True)
         else ret True))"

record add_queue_options =
  aq_name :: "string option"
  aq_exchange :: "string option"
  aq_createExchange :: "bool option"
  aq_exchangeType :: "string option"
  aq_routingKey :: "string option"
  aq_createIfNotExists :: jval
  aq_durable :: jval
  aq_exclusive :: jval
  aq_autoDelete :: jval
  aq_messageTtl :: jval
  aq_maxLength :: jval
  aq_expires :: jval
  aq_overwrite :: bool

definition add_queue :: "('d, 't) yaml_lib \<Rightarrow> shell \<Rightarrow> add_queue_options \<Rightarrow> ('d, bool) eff" where
  "add_queue Y sh opt =
     (let prompts = loadPrompts sh (aq_name opt \<noteq> None);
          name = or_ask (aq_name opt) (askText prompts ''Queue name?'' []) in
      if name = [] then ret False
      else
        let exchange = or_ask (aq_exchange opt) (askText prompts ''Bind to which exchange?'' ''rlb'') in
        and_then (reads (exchangeExists Y exchange)) (\<lambda>known.
        and_seq
          (if \<not> known \<and> coalesce (aq_createExchange opt) (askConfirm prompts (''Exchange '' @ quoted exchange @ '' is missing: create it?'') False)
           then
             let exchangeType = or_ask (aq_exchangeType opt) (askSelect prompts (''Type for exchange '' @ quoted exchange @ ''?'') EXCHANGE_TYPES ''direct'')
             in and_seq (ensureExchange Y (an_exchange exchange (JStr exchangeType)) False) (ret ())
           else ret ())
        (and_then (reads (routingKeyRequired Y exchange)) (\<lambda>required.
         let routingKey = (if required then JStr (or_ask (aq_routingKey opt) name) else jopt (aq_routingKey opt)) in
         and_seq (ensureQueue Y
           \<lparr>qs_name = name, qs_exchange = exchange, qs_routingKey = routingKey, qs_create = jcoal (aq_createIfNotExists opt) (JBool True),
            qs_durable = jcoal (aq_durable opt) (JBool True), qs_exclusive = jcoal (aq_exclusive opt) (JBool False),
            qs_autoDelete = jcoal (aq_autoDelete opt) (JBool False), qs_messageTtl = aq_messageTtl opt,
            qs_maxLength = aq_maxLength opt, qs_expires = aq_expires opt\<rparr> (aq_overwrite opt))
         (ret True)))))"

record add_topic_options =
  at_name :: "string option"
  at_mode :: "string option"
  at_queue :: "string option"
  at_exchange :: "string option"
  at_routingKey :: "string option"
  at_errorBehavior :: jval
  at_retryMaxAttempts :: jval
  at_retryDelayMs :: jval
  at_retryOnExhausted :: jval
  at_mandatory :: jval
  at_persistent :: jval
  at_toObservable :: jval
  at_createDeps :: "bool option"
  at_overwrite :: bool

definition TOPIC_MODES :: "string list" where
  "TOPIC_MODES = [''rpc'', ''handle'', ''broadcast'', ''event'']"

definition topic_retry :: "add_topic_options \<Rightarrow> (string \<times> jval) list option" where
  "topic_retry opt =
     (if at_retryMaxAttempts opt \<noteq> JUndef \<or> at_retryDelayMs opt \<noteq> JUndef \<or> at_retryOnExhausted opt \<noteq> JUndef
      then Some [(''maxAttempts'', at_retryMaxAttempts opt), (''delayMs'', at_retryDelayMs opt), (''onExhausted'', at_retryOnExhausted opt),
        (''deadLetter'', JUndef)]
      else None)"

definition add_topic :: "('d, 't) yaml_lib \<Rightarrow> shell \<Rightarrow> add_topic_options \<Rightarrow> ('d, bool) eff" where
  "add_topic Y sh opt =
     (let prompts = loadPrompts sh (at_name opt \<noteq> None);
          name = or_ask (at_name opt) (askText prompts ''Topic name?'' []) in
      if name = [] then ret False
      else
        let mode = or_ask (at_mode opt) (askSelect prompts ''Topic mode?'' TOPIC_MODES ''rpc'');
            exchange = or_ask (at_exchange opt) (askText prompts ''Exchange?'' ''rlb'');
            createDeps = coalesce (at_createDeps opt) True;
            consumesQueue = (mode = ''rpc'' \<or> mode = ''handle'');
            queue = (if consumesQueue \<and> \<not> truthy_str (at_queue opt)
                     then Some (askText prompts (''Queue for '' @ quoted name @ ''?'') name) else at_queue opt) in
        and_then (reads (exchangeExists Y exchange)) (\<lambda>known.
        and_seq (if createDeps \<and> \<not> known then and_seq (ensureExchange Y (an_exchange exchange JUndef) False) (ret ()) else ret ())
        (and_then (reads (routingKeyRequired Y exchange)) (\<lambda>required.
         let routingKey = (if required then Some (or_ask (at_routingKey opt) name) else at_routingKey opt) in
         and_then (reads (\<lambda>d. createDeps \<and> truthy_str queue \<and> \<not> queueExists Y (the queue) d)) (\<lambda>missing.
         and_seq
           (if missing then
              and_seq (ensureQueue Y (a_queue (the queue) exchange
                (if required then JStr (or_ask routingKey (the queue)) else jopt (at_routingKey opt))) False) (ret ())
            else ret ())
         (and_seq (ensureTopic Y
            \<lparr>ts_name = name, ts_mode = mode, ts_queue = jopt queue, ts_exchange = exchange, ts_routingKey = jopt routingKey,
             ts_errorBehavior = at_errorBehavior opt, ts_retry = topic_retry opt, ts_mandatory = at_mandatory opt,
             ts_persistent = at_persistent opt, ts_toObservable = at_toObservable opt\<rparr> (at_overwrite opt))
          (ret True)))))))"

section \<open>Routes, events, auth providers and bindings\<close>

record add_route_options =
  ar_name :: "string option"
  ar_method :: "string option"
  ar_path :: "string option"
  ar_topic :: "string option"
  ar_action :: "string option"
  ar_mode :: "string option"
  ar_dataSource :: "string option"
  ar_timeout :: jval
  ar_auth :: jval
  ar_allowAnonymous :: jval
  ar_actions :: jval
  ar_successStatusCode :: jval
  ar_binary :: jval
  ar_redirect :: jval
  ar_parseRaw :: jval
  ar_overwrite :: bool

definition ROUTE_METHODS :: "string list" where
  "ROUTE_METHODS = [''GET'', ''POST'', ''PUT'', ''DELETE'', ''PATCH'']"

definition GATEWAY_PATHS :: ypath where "GATEWAY_PATHS = [''gateway'', ''paths'']"
definition GATEWAY_EVENTS :: ypath where "GATEWAY_EVENTS = [''gateway'', ''events'']"
definition AUTH_PROVIDERS :: ypath where "AUTH_PROVIDERS = [''auth-providers'']"

definition route_item :: "prompts option \<Rightarrow> string \<Rightarrow> add_route_options \<Rightarrow> (string \<times> jval) list" where
  "route_item prompts name opt =
     (let httpMethod = or_ask (ar_method opt) (askSelect prompts ''HTTP method?'' ROUTE_METHODS ''GET'');
          path = or_ask (ar_path opt) (askText prompts ''URL path?'' []);
          topic = or_ask (ar_topic opt) (askText prompts ''Topic?'' []);
          action = or_ask (ar_action opt) (askText prompts ''Action?'' []);
          mode = or_ask (ar_mode opt) (askSelect prompts ''Mode?'' [''rpc'', ''event''] ''rpc'');
          dataSource = or_ask (ar_dataSource opt) (if httpMethod = ''GET'' then ''query'' else ''body'')
      in [(''name'', JStr name), (''method'', JStr httpMethod), (''path'', JStr path), (''dataSource'', JStr dataSource), (''topic'', JStr topic),
          (''action'', JStr action), (''mode'', JStr mode), (''timeout'', ar_timeout opt), (''auth'', ar_auth opt),
          (''allowAnonymous'', ar_allowAnonymous opt), (''actions'', ar_actions opt), (''successStatusCode'', ar_successStatusCode opt),
          (''binary'', ar_binary opt), (''redirect'', ar_redirect opt), (''parseRaw'', ar_parseRaw opt)])"

definition add_route :: "('d, 't) yaml_lib \<Rightarrow> shell \<Rightarrow> add_route_options \<Rightarrow> ('d, bool) eff" where
  "add_route Y sh opt =
     (let prompts = loadPrompts sh (ar_name opt \<noteq> None);
          name = or_ask (ar_name opt) (askText prompts ''Route name?'' []) in
      if name = [] then ret False
      else and_seq (upsertSeqItemByKey Y GATEWAY_PATHS ''name'' (route_item prompts name opt) (ar_overwrite opt)) (ret True))"

record add_ws_event_options =
  aw_name :: "string option"
  aw_type :: "string option"
  aw_exchange :: jval
  aw_routingKey :: jval
  aw_auth :: jval
  aw_requireAuth :: jval
  aw_actions :: jval
  aw_scopeClaim :: jval
  aw_payloadKey :: jval
  aw_url :: jval
  aw_httpMethod :: jval
  aw_timeout :: jval
  aw_overwrite :: bool

definition ws_event_item :: "string \<Rightarrow> string \<Rightarrow> add_ws_event_options \<Rightarrow> (string \<times> jval) list" where
  "ws_event_item name type opt =
     (if type = ''http''
      then [(''name'', JStr name), (''type'', JStr type), (''url'', aw_url opt), (''method'', aw_httpMethod opt), (''timeout'', aw_timeout opt)]
      else [(''name'', JStr name), (''type'', JStr type), (''exchange'', aw_exchange opt), (''routingKey'', aw_routingKey opt),
            (''auth'', aw_auth opt), (''requireAuth'', aw_requireAuth opt), (''actions'', aw_actions opt),
            (''scopeClaim'', aw_scopeClaim opt), (''payloadKey'', aw_payloadKey opt)])"

definition add_ws_event :: "('d, 't) yaml_lib \<Rightarrow> shell \<Rightarrow> add_ws_event_options \<Rightarrow> ('d, bool) eff" where
  "add_ws_event Y sh opt =
     (let prompts = loadPrompts sh (aw_name opt \<noteq> None);
          name = or_ask (aw_name opt) (askText prompts ''Event name?'' []) in
      if name = [] then ret False
      else
        let type = or_ask (aw_type opt) (askSelect prompts ''Event type?'' [''ws'', ''http''] ''ws'')
        in and_seq (upsertSeqItemByKey Y GATEWAY_EVENTS ''name'' (ws_event_item name type opt) (aw_overwrite opt)) (ret True))"

text \<open>\<open>candidates\<close> are the option fields by name; a strategy not in the table throws, as \<open>undefined\<close> is
  not iterable.\<close>

record add_auth_provider_options =
  ap_name :: "string option"
  ap_type :: "string option"
  ap_headerPrefix :: jval
  ap_candidates :: "(string \<times> jval) list"
  ap_overwrite :: bool

definition RELEVANT_FIELDS :: "(string \<times> string list) list" where
  "RELEVANT_FIELDS =
     [(''jwt'', [''issuer'', ''algorithms'', ''secret'', ''audience'', ''uidClaim'', ''jwtMap'']),
      (''jwks'', [''issuer'', ''jwksUri'', ''algorithms'', ''audience'', ''uidClaim'', ''jwtMap'', ''httpsAllowUnauthorized'']),
      (''basic'', [''clientId'', ''clientSecret'', ''uidClaim'']),
      (''str-compare'', [''secret'', ''uidClaim'']),
      (''none'', [])]"

definition provider_item :: "string \<Rightarrow> string \<Rightarrow> string list \<Rightarrow> add_auth_provider_options \<Rightarrow> (string \<times> jval) list" where
  "provider_item name type relevant opt =
     [(''name'', JStr name), (''type'', JStr type), (''headerPrefix'', jcoal (ap_headerPrefix opt) (JStr ''X-GTW-AUTH-''))] @
     filter (\<lambda>(k, v). v \<noteq> JUndef) (map (\<lambda>k. (k, jget (JObj (ap_candidates opt)) k)) relevant)"

definition add_auth_provider :: "('d, 't) yaml_lib \<Rightarrow> shell \<Rightarrow> add_auth_provider_options \<Rightarrow> ('d, bool) eff" where
  "add_auth_provider Y sh opt =
     (let prompts = loadPrompts sh (ap_name opt \<noteq> None);
          name = or_ask (ap_name opt) (askText prompts ''Auth-provider name?'' []) in
      if name = [] then ret False
      else
        let type = or_ask (ap_type opt) (askSelect prompts ''Provider type?'' (map fst RELEVANT_FIELDS) ''jwks'') in
        case map_of RELEVANT_FIELDS type of
          None \<Rightarrow> throw (mk_err ''TypeError'' ''RELEVANT_FIELDS[type] is not iterable'')
        | Some relevant \<Rightarrow>
            and_seq (upsertSeqItemByKey Y AUTH_PROVIDERS ''name'' (provider_item name type relevant opt) (ap_overwrite opt)) (ret True))"

record add_binding_options =
  ab_source :: "string option"
  ab_destination :: "string option"
  ab_pattern :: "string option"
  ab_args :: jval
  ab_overwrite :: bool

definition BINDINGS :: ypath where "BINDINGS = [''broker'', ''exchangeBindings'']"

definition same_binding :: "('d, 't) yaml_lib \<Rightarrow> string \<Rightarrow> string \<Rightarrow> string \<Rightarrow> jval \<Rightarrow> bool" where
  "same_binding Y source destination pattern it \<longleftrightarrow>
     is_obj it \<and> keyText Y (jget it ''source'') = source \<and> keyText Y (jget it ''destination'') = destination \<and>
     keyText Y (jget it ''pattern'') = pattern"

definition add_exchange_binding :: "('d, 't) yaml_lib \<Rightarrow> shell \<Rightarrow> add_binding_options \<Rightarrow> ('d, bool) eff" where
  "add_exchange_binding Y sh opt =
     (let prompts = loadPrompts sh (ab_source opt \<noteq> None);
          source = or_ask (ab_source opt) (askText prompts ''Source exchange?'' []);
          destination = or_ask (ab_destination opt) (askText prompts ''Destination exchange?'' []) in
      if source = [] \<or> destination = [] then ret False
      else
        let pattern = coalesce (ab_pattern opt) (askText prompts ''Binding pattern (routing key)?'' []);
            item = [(''source'', JStr source), (''destination'', JStr destination), (''pattern'', JStr pattern)] @
                   (if ab_args opt \<noteq> JUndef then [(''args'', ab_args opt)] else [])
        in and_seq (upsertWhere Y BINDINGS (same_binding Y source destination pattern) item (ab_overwrite opt)) (ret True))"

section \<open>Settings\<close>

record enable_retry_options =
  er_scope :: "string option"
  er_maxAttempts :: "int option"
  er_delayMs :: "int option"
  er_onExhausted :: "string option"
  er_deadLetterExchange :: "string option"
  er_deadLetterRoutingKey :: "string option"
  er_declareDlx :: "bool option"
  er_dlxType :: "string option"
  er_topic :: "string option"

definition retry_onExhausted :: "enable_retry_options \<Rightarrow> string" where
  "retry_onExhausted opt =
     coalesce (er_onExhausted opt) (if truthy_str (er_deadLetterExchange opt) then ''dead-letter'' else ''drop'')"

definition retry_object :: "prompts option \<Rightarrow> enable_retry_options \<Rightarrow> jval" where
  "retry_object prompts opt =
     (let maxAttempts = coalesce (coalesce_opt (er_maxAttempts opt) (askNumber prompts ''Max attempts?'' (Some 5))) 5;
          delayMs = coalesce (coalesce_opt (er_delayMs opt) (askNumber prompts ''Delay between attempts (ms)?'' (Some 0))) 0
      in JObj ([(''maxAttempts'', JNum maxAttempts), (''delayMs'', JNum delayMs), (''onExhausted'', JStr (retry_onExhausted opt))] @
           (if truthy_str (er_deadLetterExchange opt)
            then [(''deadLetter'', JObj ((''exchange'', jopt (er_deadLetterExchange opt)) #
                    (if truthy_str (er_deadLetterRoutingKey opt) then [(''routingKey'', jopt (er_deadLetterRoutingKey opt))] else [])))]
            else [])))"

definition enable_retry :: "('d, 't) yaml_lib \<Rightarrow> shell \<Rightarrow> enable_retry_options \<Rightarrow> ('d, bool) eff" where
  "enable_retry Y sh opt =
     (let prompts = loadPrompts sh (er_scope opt \<noteq> None \<or> er_maxAttempts opt \<noteq> None);
          scope = or_ask (er_scope opt) (askSelect prompts ''Retry scope?'' [''broker'', ''topic''] ''broker'');
          retry = retry_object prompts opt;
          dlx = er_deadLetterExchange opt in
      and_seq
        (if retry_onExhausted opt = ''dead-letter'' \<and> truthy_str dlx \<and> coalesce (er_declareDlx opt) True
         then and_seq (ensureExchange Y (an_exchange (the dlx) (JStr (coalesce (er_dlxType opt) ''topic''))) False) (ret ())
         else ret ())
      (if scope = ''broker'' then and_seq (setConfig Y [''broker'', ''retry''] retry) (ret True)
       else if \<not> truthy_str (er_topic opt) then ret False
       else
         and_then (reads (\<lambda>d. find_index (has_key Y ''name'' (the (er_topic opt))) (arr_of (yl_getIn Y TOPICS d)))) (\<lambda>item.
         and_seq (case item of None \<Rightarrow> ret () | Some i \<Rightarrow> edits (yl_setItem Y TOPICS i ''retry'' retry)) (ret True))))"

record add_metrics_topic_options =
  am_topic :: "string option"
  am_queue :: "string option"
  am_exchange :: "string option"
  am_messageTtl :: "int option"
  am_maxLength :: "int option"
  am_action :: "string option"
  am_overwrite :: bool

definition jnum_opt :: "int option \<Rightarrow> jval" where
  "jnum_opt x = (case x of None \<Rightarrow> JUndef | Some n \<Rightarrow> JNum n)"

definition add_metrics_topic :: "('d, 't) yaml_lib \<Rightarrow> shell \<Rightarrow> add_metrics_topic_options \<Rightarrow> ('d, bool) eff" where
  "add_metrics_topic Y sh opt =
     (let prompts = loadPrompts sh (am_topic opt \<noteq> None);
          topic = or_ask (am_topic opt) (askText prompts ''Metrics topic name?'' ''rlb-gateway-metrics'');
          queue = or_ask (am_queue opt) (askText prompts ''Queue backing the topic?'' topic);
          exchange = or_ask (am_exchange opt) (askText prompts ''Exchange?'' ''rlb'');
          messageTtl = coalesce_opt (am_messageTtl opt) (askNumber prompts ''Queue messageTtl (ms)?'' (Some 3600000));
          maxLength = coalesce_opt (am_maxLength opt) (askNumber prompts ''Queue maxLength?'' (Some 500000));
          action = or_ask (am_action opt) (askText prompts ''Metrics action?'' ''gw-metrics-track'') in
      and_seq (ensureQueue Y ((a_queue queue exchange (JStr queue))
                 \<lparr>qs_create := JBool True, qs_durable := JBool True, qs_messageTtl := jnum_opt messageTtl, qs_maxLength := jnum_opt maxLength\<rparr>)
                 (am_overwrite opt))
      (and_seq (ensureTopic Y (a_topic topic ''handle'' (JStr queue) exchange (JStr queue)) (am_overwrite opt))
      (and_seq (setConfig Y [''gateway'', ''metrics''] (JObj [(''topic'', JStr topic), (''action'', JStr action)]))
      (ret True))))"

record configure_broker_options =
  cb_uri :: jval
  cb_prefetchCount :: jval
  cb_defaultRpcTimeout :: jval
  cb_heartbeatIntervalInSeconds :: jval
  cb_reconnectTimeInSeconds :: jval
  cb_mechanism :: jval
  cb_username :: jval
  cb_password :: jval

definition MANAGER :: ypath where "MANAGER = [''broker'', ''connectionManagerOptions'']"
definition CREDS :: ypath where "CREDS = MANAGER @ [''connectionOptions'', ''credentials'']"

definition broker_edits :: "configure_broker_options \<Rightarrow> (jval \<times> ypath) list" where
  "broker_edits opt =
     [(cb_uri opt, [''broker'', ''uri'']), (cb_prefetchCount opt, [''broker'', ''prefetchCount'']),
      (cb_defaultRpcTimeout opt, [''broker'', ''defaultRpcTimeout'']),
      (cb_heartbeatIntervalInSeconds opt, MANAGER @ [''heartbeatIntervalInSeconds'']),
      (cb_reconnectTimeInSeconds opt, MANAGER @ [''reconnectTimeInSeconds'']),
      (cb_mechanism opt, CREDS @ [''mechanism'']), (cb_username opt, CREDS @ [''username'']), (cb_password opt, CREDS @ [''password''])]"

text \<open>Only the values given are set; nothing given, nothing written.\<close>

definition apply_edits :: "('d, 't) yaml_lib \<Rightarrow> (jval \<times> ypath) list \<Rightarrow> ('d, unit) eff" where
  "apply_edits Y es = for_each (\<lambda>(v, p). and_seq (setConfig Y p v) (ret ())) (filter (\<lambda>(v, p). v \<noteq> JUndef) es)"

definition configure_broker :: "('d, 't) yaml_lib \<Rightarrow> configure_broker_options \<Rightarrow> ('d, bool) eff" where
  "configure_broker Y opt =
     and_seq (apply_edits Y (broker_edits opt)) (ret (filter (\<lambda>(v, p). v \<noteq> JUndef) (broker_edits opt) \<noteq> []))"

record harden_gateway_options =
  hg_maxConcurrentRequests :: jval
  hg_maxBodyBytes :: jval
  hg_uploadMaxFileSizeMb :: jval
  hg_uploadMaxFiles :: jval
  hg_wsMaxBufferedBytes :: jval
  hg_wsMaxMessageBytes :: jval
  hg_allowedOrigins :: jval

definition harden_edits :: "harden_gateway_options \<Rightarrow> (jval \<times> ypath) list" where
  "harden_edits opt =
     [(hg_maxConcurrentRequests opt, [''gateway'', ''maxConcurrentRequests'']), (hg_maxBodyBytes opt, [''gateway'', ''maxBodyBytes'']),
      (hg_uploadMaxFileSizeMb opt, [''gateway'', ''upload'', ''maxFileSizeMb'']), (hg_uploadMaxFiles opt, [''gateway'', ''upload'', ''maxFiles'']),
      (hg_wsMaxBufferedBytes opt, [''gateway'', ''ws'', ''maxBufferedBytes'']), (hg_wsMaxMessageBytes opt, [''gateway'', ''ws'', ''maxMessageBytes'']),
      (hg_allowedOrigins opt, [''gateway'', ''ws'', ''allowedOrigins''])]"

definition harden_gateway :: "('d, 't) yaml_lib \<Rightarrow> harden_gateway_options \<Rightarrow> ('d, bool) eff" where
  "harden_gateway Y opt = and_seq (apply_edits Y (harden_edits opt)) (ret True)"

definition CONNECTION_NAME_PATH :: ypath where
  "CONNECTION_NAME_PATH = [''broker'', ''connectionManagerOptions'', ''connectionOptions'', ''clientProperties'', ''connection_name'']"

definition set_connection_name :: "('d, 't) yaml_lib \<Rightarrow> shell \<Rightarrow> string option \<Rightarrow> ('d, bool) eff" where
  "set_connection_name Y sh nameOpt =
     (let prompts = loadPrompts sh (nameOpt \<noteq> None);
          raw = or_ask nameOpt (askText prompts ''Logical connection name?'' []);
          name = js_trim raw in
      if name = [] then ret False
      else and_seq (setConfig Y CONNECTION_NAME_PATH (JStr name)) (ret True))"

definition add_reply_queue :: "('d, 't) yaml_lib \<Rightarrow> shell \<Rightarrow> string option \<Rightarrow> string option \<Rightarrow> ('d, bool) eff" where
  "add_reply_queue Y sh exchangeOpt queueOpt =
     (let prompts = loadPrompts sh (exchangeOpt \<noteq> None);
          exchange = or_ask exchangeOpt (askText prompts ''Exchange?'' []);
          queue = or_ask queueOpt (askText prompts ''Reply queue name?'' []) in
      if exchange = [] \<or> queue = [] then ret False
      else and_seq (setConfig Y [''broker'', ''replyQueues'', exchange] (JStr queue)) (ret True))"

record load_config_options =
  lc_pathsTopic :: "string option"
  lc_pathsAction :: "string option"
  lc_eventsTopic :: "string option"
  lc_eventsAction :: "string option"

definition topic_action :: "string \<Rightarrow> string \<Rightarrow> jval" where
  "topic_action topic action = JObj [(''topic'', JStr topic), (''action'', JStr action)]"

definition enable_load_config :: "('d, 't) yaml_lib \<Rightarrow> shell \<Rightarrow> load_config_options \<Rightarrow> ('d, bool) eff" where
  "enable_load_config Y sh opt =
     (let prompts = loadPrompts sh (lc_pathsTopic opt \<noteq> None \<or> lc_eventsTopic opt \<noteq> None);
          pathsTopic = or_ask (lc_pathsTopic opt) (askText prompts ''Paths export topic?'' ''rlb-gateway-admin'');
          pathsAction = or_ask (lc_pathsAction opt) (askText prompts ''Paths export action?'' ''gw-path-export'') in
      and_seq (setConfig Y [''gateway'', ''loadConfig'', ''paths''] (topic_action pathsTopic pathsAction))
      (and_seq (if truthy_str (lc_eventsTopic opt) \<and> truthy_str (lc_eventsAction opt)
                then and_seq (setConfig Y [''gateway'', ''loadConfig'', ''events'']
                       (topic_action (the (lc_eventsTopic opt)) (the (lc_eventsAction opt)))) (ret ())
                else ret ())
       (ret True)))"

text \<open>The name is kebab-cased: a dash between a lower-case letter or digit and an upper-case letter.\<close>

definition upper_case :: "char \<Rightarrow> bool" where
  "upper_case c \<longleftrightarrow> (let n = of_char c :: nat in 65 \<le> n \<and> n \<le> 90)"

definition lower_or_digit :: "char \<Rightarrow> bool" where
  "lower_or_digit c \<longleftrightarrow> (let n = of_char c :: nat in (97 \<le> n \<and> n \<le> 122) \<or> (48 \<le> n \<and> n \<le> 57))"

fun decamelize :: "string \<Rightarrow> string" where
  "decamelize (a # b # s) =
     (if lower_or_digit a \<and> upper_case b then a # CHR ''-'' # decamelize (b # s) else a # decamelize (b # s))"
| "decamelize s = s"

definition normalizeToKebabOrSnakeCase :: "string \<Rightarrow> string" where
  "normalizeToKebabOrSnakeCase str = map (\<lambda>c. if is_space c then CHR ''-'' else c) (to_lower (decamelize (js_trim str)))"

record route_discovery_options =
  rd_serviceName :: "string option"
  rd_exchange :: "string option"
  rd_queue :: "string option"
  rd_publishOnBoot :: jval
  rd_declareExchange :: "bool option"

definition enable_route_discovery :: "('d, 't) yaml_lib \<Rightarrow> shell \<Rightarrow> route_discovery_options \<Rightarrow> ('d, bool) eff" where
  "enable_route_discovery Y sh opt =
     (let prompts = loadPrompts sh (rd_serviceName opt \<noteq> None);
          rawName = or_ask (rd_serviceName opt) (askText prompts ''Service name?'' []) in
      if rawName = [] then ret False
      else
        let svc = normalizeToKebabOrSnakeCase rawName;
            exchange = or_ask (rd_exchange opt) ''rlb-route-discovery'';
            queue = or_ask (rd_queue opt) ''rlb-route-sync'' in
        and_seq (setConfig Y [''broker'', ''routeDiscovery'']
          (JObj [(''serviceName'', JStr svc), (''publishOnBoot'', jcoal (rd_publishOnBoot opt) (JBool True)),
                 (''exchange'', JStr exchange), (''queue'', JStr queue)]))
        (and_seq (if coalesce (rd_declareExchange opt) True
                  then and_seq (ensureExchange Y (an_exchange exchange (JStr ''fanout'')) False) (ret ()) else ret ())
         (ret True)))"

section \<open>Promotion to a gateway\<close>

definition gateway_path :: "string \<Rightarrow> string \<Rightarrow> string \<Rightarrow> string \<Rightarrow> string \<Rightarrow> string \<Rightarrow> string \<Rightarrow> (string \<times> jval) list" where
  "gateway_path topic mode name httpMethod path dataSource action =
     [(''name'', JStr name), (''method'', JStr httpMethod), (''path'', JStr path), (''dataSource'', JStr dataSource),
      (''topic'', JStr topic), (''action'', JStr action), (''mode'', JStr mode)]"

definition aclManagementPaths :: "(string \<times> jval) list list" where
  "aclManagementPaths =
     (let rpc = gateway_path ''rlb-acl'' ''rpc'' in
      [rpc ''acl-action-list'' ''GET'' ''/acl/actions'' ''query'' ''acl-action-list'',
       rpc ''acl-action-get'' ''GET'' ''/acl/actions/get'' ''query'' ''acl-action-get'',
       rpc ''acl-action-upsert'' ''PUT'' ''/acl/actions'' ''body'' ''acl-action-update'',
       rpc ''acl-action-delete'' ''DELETE'' ''/acl/actions'' ''body'' ''acl-action-delete'',
       rpc ''acl-action-search'' ''GET'' ''/acl/actions/search'' ''query'' ''acl-action-search'',
       rpc ''acl-role-list'' ''GET'' ''/acl/roles'' ''query'' ''acl-role-list'',
       rpc ''acl-role-get'' ''GET'' ''/acl/roles/get'' ''query'' ''acl-role-get'',
       rpc ''acl-role-upsert'' ''PUT'' ''/acl/roles'' ''body'' ''acl-role-update'',
       rpc ''acl-role-delete'' ''DELETE'' ''/acl/roles'' ''body'' ''acl-role-delete'',
       rpc ''acl-role-search'' ''GET'' ''/acl/roles/search'' ''query'' ''acl-role-search'',
       rpc ''acl-grant'' ''POST'' ''/acl/grants'' ''body'' ''acl-grant'',
       rpc ''acl-revoke'' ''DELETE'' ''/acl/grants'' ''body'' ''acl-revoke'',
       rpc ''acl-grant-search'' ''GET'' ''/acl/grants/search'' ''query'' ''acl-grant-search'',
       rpc ''acl-check-action'' ''GET'' ''/acl/check'' ''query'' ''acl-check-action'',
       rpc ''acl-list-resources-by-user'' ''GET'' ''/acl/resources'' ''query'' ''acl-list-resources-by-user''])"

definition adminManagementPaths :: "string \<Rightarrow> (string \<times> jval) list list" where
  "adminManagementPaths controlTopic =
     (let rpc = gateway_path ''rlb-gateway-admin'' ''rpc'' in
      [rpc ''health'' ''GET'' ''/health'' ''query'' ''gw-health'',
       rpc ''gw-path-create'' ''POST'' ''/admin/paths'' ''body'' ''gw-path-create'',
       rpc ''gw-path-list'' ''GET'' ''/admin/paths'' ''query'' ''gw-path-list'',
       rpc ''gw-path-search'' ''GET'' ''/admin/paths/search'' ''query'' ''gw-path-search'',
       rpc ''gw-path-export'' ''GET'' ''/admin/paths/export'' ''query'' ''gw-path-export'',
       rpc ''gw-path-update'' ''PUT'' ''/admin/paths'' ''body'' ''gw-path-update'',
       rpc ''gw-path-get'' ''GET'' ''/admin/paths/get'' ''query'' ''gw-path-get'',
       rpc ''gw-path-delete'' ''DELETE'' ''/admin/paths'' ''body'' ''gw-path-delete'',
       rpc ''gw-route-log-list'' ''GET'' ''/admin/route-log'' ''query'' ''gw-route-log-list'',
       rpc ''gw-route-log-search'' ''GET'' ''/admin/route-log/search'' ''query'' ''gw-route-log-search'',
       rpc ''gw-auth-list'' ''GET'' ''/admin/auth'' ''query'' ''gw-auth-list'',
       rpc ''gw-auth-search'' ''GET'' ''/admin/auth/search'' ''query'' ''gw-auth-search'',
       rpc ''gw-auth-upsert'' ''PUT'' ''/admin/auth'' ''body'' ''gw-auth-update'',
       rpc ''gw-auth-get'' ''GET'' ''/admin/auth/get'' ''query'' ''gw-auth-get'',
       rpc ''gw-auth-delete'' ''DELETE'' ''/admin/auth'' ''body'' ''gw-auth-delete'',
       rpc ''gw-metrics-get'' ''GET'' ''/admin/metrics'' ''query'' ''gw-metrics-get'',
       rpc ''gw-metrics-series'' ''GET'' ''/admin/metrics/series'' ''query'' ''gw-metrics-series'',
       rpc ''gw-metrics-points'' ''GET'' ''/admin/metrics/points'' ''query'' ''gw-metrics-points'',
       rpc ''gw-metrics-summary'' ''GET'' ''/admin/metrics/summary'' ''query'' ''gw-metrics-summary'',
       rpc ''gw-metrics-prometheus'' ''GET'' ''/admin/metrics/prometheus'' ''query'' ''gw-metrics-prometheus'' @
         [(''headers'', JObj [(''Content-Type'', JStr ''text/plain; version=0.0.4'')])],
       rpc ''gw-metrics-rollups'' ''GET'' ''/admin/metrics/rollups'' ''query'' ''gw-metrics-rollups'',
       gateway_path ''rlb-gateway-admin'' ''event'' ''gw-metrics-track'' ''POST'' ''/admin/metrics/track'' ''body'' ''gw-metrics-track'',
       gateway_path controlTopic ''event'' ''gw-reload'' ''POST'' ''/admin/reload'' ''body'' ''gw-reload'',
       gateway_path controlTopic ''event'' ''gw-auth-reload'' ''POST'' ''/admin/auth/reload'' ''body'' ''gw-auth-reload''])"

record add_gateway_options =
  ag_exchange :: "string option"
  ag_aclQueue :: "string option"
  ag_adminQueue :: "string option"
  ag_controlTopic :: "string option"
  ag_routeExchange :: "string option"
  ag_routeQueue :: "string option"
  ag_acl :: "bool option"
  ag_admin :: "bool option"
  ag_routeReception :: "bool option"
  ag_overwrite :: bool

definition ag_anyAdmin :: "add_gateway_options \<Rightarrow> bool" where
  "ag_anyAdmin opt \<longleftrightarrow> coalesce (ag_admin opt) True \<or> coalesce (ag_routeReception opt) True"

definition set_if_absent :: "('d, 't) yaml_lib \<Rightarrow> ypath \<Rightarrow> jval \<Rightarrow> ('d, unit) eff" where
  "set_if_absent Y p v =
     and_then (reads (yl_getIn Y p)) (\<lambda>cur. if cur = JUndef then and_seq (setConfig Y p v) (ret ()) else ret ())"

definition when_do :: "bool \<Rightarrow> ('d, unit) eff \<Rightarrow> ('d, unit) eff" where
  "when_do b m = (if b then m else ret ())"

definition durable_queue :: "string \<Rightarrow> string \<Rightarrow> jval \<Rightarrow> queue_spec" where
  "durable_queue name exchange routingKey = (a_queue name exchange routingKey)\<lparr>qs_durable := JBool True\<rparr>"

definition gateway_topology :: "('d, 't) yaml_lib \<Rightarrow> add_gateway_options \<Rightarrow> ('d, unit) eff" where
  "gateway_topology Y opt =
     (let exchange = or_ask (ag_exchange opt) ''rlb''; aclQueue = or_ask (ag_aclQueue opt) ''rlb-acl'';
          adminQueue = or_ask (ag_adminQueue opt) ''rlb-gateway-admin''; controlTopic = or_ask (ag_controlTopic opt) ''rlb-gateway-control'';
          routeExchange = or_ask (ag_routeExchange opt) ''rlb-route-discovery''; routeQueue = or_ask (ag_routeQueue opt) ''rlb-route-sync'';
          ow = ag_overwrite opt in
      and_seq (ensureExchange Y (an_exchange exchange (JStr ''direct'')) ow)
      (and_seq (when_do (coalesce (ag_acl opt) True)
        (and_seq (ensureQueue Y (durable_queue aclQueue exchange (JStr aclQueue)) ow)
         (and_seq (ensureTopic Y (a_topic ''rlb-acl'' ''rpc'' (JStr aclQueue) exchange (JStr aclQueue)) ow) (ret ()))))
      (and_seq (when_do (ag_anyAdmin opt)
        (and_seq (ensureQueue Y (durable_queue adminQueue exchange (JStr adminQueue)) ow)
         (and_seq (ensureTopic Y (a_topic ''rlb-gateway-admin'' ''rpc'' (JStr adminQueue) exchange (JStr adminQueue)) ow)
          (and_seq (ensureTopic Y (a_topic controlTopic ''broadcast'' JUndef exchange (JStr controlTopic)) ow) (ret ())))))
      (when_do (coalesce (ag_routeReception opt) True)
        (and_seq (ensureExchange Y (an_exchange routeExchange (JStr ''fanout'')) ow)
         (and_seq (ensureQueue Y (durable_queue routeQueue routeExchange JUndef) ow) (ret ())))))))"

definition gateway_section :: "('d, 't) yaml_lib \<Rightarrow> add_gateway_options \<Rightarrow> ('d, unit) eff" where
  "gateway_section Y opt =
     (let controlTopic = or_ask (ag_controlTopic opt) ''rlb-gateway-control'' in
      and_seq (set_if_absent Y GATEWAY_EVENTS (JArr []))
      (and_seq (set_if_absent Y [''gateway'', ''ws''] (JObj [(''heartbeatIntervalMs'', JNum 30000)]))
      (and_seq (when_do (ag_anyAdmin opt)
        (and_seq (set_if_absent Y [''gateway'', ''reloadTopic''] (JStr controlTopic))
         (and_seq (set_if_absent Y [''gateway'', ''metrics''] (topic_action ''rlb-gateway-admin'' ''gw-metrics-track''))
          (set_if_absent Y [''gateway'', ''loadConfig''] (JObj [(''paths'', topic_action ''rlb-gateway-admin'' ''gw-path-export'')])))))
      (set_if_absent Y GATEWAY_PATHS (JArr [])))))"

definition management_paths :: "add_gateway_options \<Rightarrow> (string \<times> jval) list list" where
  "management_paths opt =
     (if coalesce (ag_acl opt) True then aclManagementPaths else []) @
     (if ag_anyAdmin opt then adminManagementPaths (or_ask (ag_controlTopic opt) ''rlb-gateway-control'') else [])"

definition add_gateway :: "('d, 't) yaml_lib \<Rightarrow> add_gateway_options \<Rightarrow> ('d, bool) eff" where
  "add_gateway Y opt =
     and_then (reads (yl_getIn Y [''broker'', ''routeDiscovery''])) (\<lambda>published.
     and_seq (when_do (published \<noteq> JUndef) (edits (yl_deleteIn Y [''broker'', ''routeDiscovery''])))
     (and_seq (gateway_topology Y opt)
     (and_seq (gateway_section Y opt)
     (and_seq (for_each (\<lambda>p. and_seq (upsertSeqItemByKey Y GATEWAY_PATHS ''name'' p (ag_overwrite opt)) (ret ())) (management_paths opt))
     (ret True)))))"

end
