(* ===== verification/Config_Wiring.thy ===== *)
theory Config_Wiring
  imports Config_Schematics
begin

text \<open>
  What the configuration schematics guarantee. Upserting an entry twice is upserting it once; the
  entries of a configuration keep naming exchanges and queues that it declares (\<open>wired\<close>) through every
  sequence of the commands that create what they name; a gateway's management routes have their topics.
  The lemmas are about the data of the document, for any library that keeps \<open>yaml_document\<close> and
  \<open>file_tree\<close>; both are interpreted on plain data at the end of the section on the contracts.
\<close>

section \<open>Triples over the document's data\<close>

definition ensures :: "('d \<Rightarrow> jval) \<Rightarrow> (jval \<Rightarrow> bool) \<Rightarrow> ('d, 'a) eff \<Rightarrow> ('a \<Rightarrow> jval \<Rightarrow> bool) \<Rightarrow> bool" where
  "ensures dat P f Q \<longleftrightarrow> (\<forall>d x d'. P (dat d) \<longrightarrow> f d = (Inr x, d') \<longrightarrow> Q x (dat d'))"

lemma ensuresD: "ensures dat P f Q \<Longrightarrow> P (dat d) \<Longrightarrow> f d = (Inr x, d') \<Longrightarrow> Q x (dat d')"
  unfolding ensures_def by blast

lemma ensures_pre: "ensures dat P f Q \<Longrightarrow> (\<And>j. P' j \<Longrightarrow> P j) \<Longrightarrow> ensures dat P' f Q"
  unfolding ensures_def by blast

lemma ensures_post: "ensures dat P f Q \<Longrightarrow> (\<And>x j. Q x j \<Longrightarrow> Q' x j) \<Longrightarrow> ensures dat P f Q'"
  unfolding ensures_def by blast

lemma ensures_ret: "(\<And>j. P j \<Longrightarrow> Q x j) \<Longrightarrow> ensures dat P (ret x) Q"
  by (simp add: ensures_def)

lemma ensures_throw: "ensures dat P (throw e) Q"
  by (simp add: ensures_def)

lemma ensures_and_then: "ensures dat P f R \<Longrightarrow> (\<And>x. ensures dat (R x) (k x) Q) \<Longrightarrow> ensures dat P (and_then f k) Q"
  unfolding ensures_def by (meson and_then_InrE)

lemma ensures_seq: "ensures dat P f (\<lambda>_. R) \<Longrightarrow> ensures dat R g Q \<Longrightarrow> ensures dat P (and_seq f g) Q"
  unfolding and_seq_def by (rule ensures_and_then)

lemma ensures_reads:
  assumes "\<And>d. f d = g (dat d)" and "\<And>v. ensures dat (\<lambda>j. P j \<and> g j = v) (k v) Q"
  shows "ensures dat P (and_then (reads f) k) Q"
  using assms by (simp add: ensures_def)

lemma ensures_for_each:
  assumes "\<And>x. x \<in> set xs \<Longrightarrow> ensures dat P (f x) (\<lambda>_. P)"
  shows "ensures dat P (for_each f xs) (\<lambda>_. P)"
  using assms by (induction xs) (auto intro!: ensures_ret ensures_and_then)

lemma ensures_for_each_adds:
  assumes keep: "\<And>y. y \<in> set xs \<Longrightarrow> ensures dat P (f y) (\<lambda>_. P)" and "x \<in> set xs"
    and "ensures dat P (f x) (\<lambda>_ j. P j \<and> R j)" and adds: "\<And>y. y \<in> set xs \<Longrightarrow> ensures dat (\<lambda>j. P j \<and> R j) (f y) (\<lambda>_ j. P j \<and> R j)"
  shows "ensures dat P (for_each f xs) (\<lambda>_ j. P j \<and> R j)"
  using assms
proof (induction xs)
  case (Cons y xs)
  show ?case
  proof (cases "x = y")
    case True
    have "ensures dat (\<lambda>j. P j \<and> R j) (for_each f xs) (\<lambda>_ j. P j \<and> R j)"
      by (rule ensures_for_each) (simp add: Cons.prems(4))
    with True Cons.prems(3) show ?thesis by (auto intro: ensures_and_then)
  next
    case False
    then have "ensures dat P (for_each f xs) (\<lambda>_ j. P j \<and> R j)" using Cons by simp
    with Cons.prems(1) [of y] show ?thesis by (auto intro: ensures_and_then)
  qed
qed simp

section \<open>Declared names and references\<close>

definition declared :: "('d, 't) yaml_lib \<Rightarrow> ypath \<Rightarrow> string \<Rightarrow> jval \<Rightarrow> bool" where
  "declared Y p n j \<longleftrightarrow> (\<exists>it \<in> set (arr_of (dig p j)). has_key Y ''name'' n it)"

definition refers :: "('d, 't) yaml_lib \<Rightarrow> jval \<Rightarrow> ypath \<Rightarrow> jval \<Rightarrow> bool" where
  "refers Y v p j \<longleftrightarrow> (truthy v \<longrightarrow> declared Y p (keyText Y v) j)"

definition wired :: "('d, 't) yaml_lib \<Rightarrow> jval \<Rightarrow> bool" where
  "wired Y j \<longleftrightarrow>
     (\<forall>q \<in> set (arr_of (dig QUEUES j)). is_obj q \<longrightarrow> refers Y (jget q ''exchange'') EXCHANGES j) \<and>
     (\<forall>t \<in> set (arr_of (dig TOPICS j)). is_obj t \<longrightarrow>
        refers Y (jget t ''exchange'') EXCHANGES j \<and> refers Y (jget t ''queue'') QUEUES j)"

text \<open>Two data that agree outside a path, and the effect of an upsert at it.\<close>

definition frames :: "ypath \<Rightarrow> jval \<Rightarrow> jval \<Rightarrow> bool" where
  "frames p j j' \<longleftrightarrow> (\<forall>q. apart p q \<longrightarrow> dig q j' = dig q j)"

definition upserted :: "('d, 't) yaml_lib \<Rightarrow> ypath \<Rightarrow> string \<Rightarrow> (string \<times> jval) list \<Rightarrow> bool \<Rightarrow> jval \<Rightarrow> jval \<Rightarrow> bool" where
  "upserted Y p n c ow j j' \<longleftrightarrow>
     dig p j' = JArr (put_item (has_key Y ''name'' n) c ow (arr_of (dig p j))) \<and> frames p j j'"

lemma keyText_str [simp]: "keyText Y (JStr s) = s"
  by (simp add: keyText_def)

lemma put_item_mem:
  assumes "it \<in> set (put_item same c ow xs)"
  shows "it \<in> set xs \<or> it = JObj c \<or> (\<exists>x \<in> set xs. same x \<and> it = JObj (spread (obj_entries x) c))"
proof (cases "find_index same xs")
  case None
  with assms show ?thesis by (auto simp: put_item_def)
next
  case (Some i)
  let ?y = "JObj (spread (obj_entries (xs ! i)) c)"
  have "xs ! i \<in> set xs" "same (xs ! i)" using find_index_Some [OF Some] by auto
  moreover have "it \<in> set xs \<or> it = ?y"
    using assms set_update_subset_insert [of xs i ?y] by (auto simp: put_item_def Some split: if_splits)
  ultimately show ?thesis by blast
qed

lemma put_item_keeps:
  assumes "it \<in> set xs" and "has_key Y ''name'' m it" and "distinct (map fst c)" and "map_of c ''name'' = Some (JStr n)"
  shows "\<exists>it' \<in> set (put_item (has_key Y ''name'' n) c ow xs). has_key Y ''name'' m it'"
proof (cases "find_index (has_key Y ''name'' n) xs")
  case None
  with assms show ?thesis by (auto simp: put_item_def)
next
  case (Some i)
  let ?y = "JObj (spread (obj_entries (xs ! i)) c)"
  have i: "i < length xs" "has_key Y ''name'' n (xs ! i)" using find_index_Some [OF Some] by auto
  obtain k where k: "k < length xs" "xs ! k = it" using assms(1) by (auto simp: in_set_conv_nth)
  have y: "has_key Y ''name'' n ?y" using assms by (simp add: has_key_def spread_get_distinct)
  show ?thesis
  proof (cases "k = i")
    case True
    with i k assms have "m = n" by (simp add: has_key_def)
    with y Some i assms show ?thesis by (auto simp: put_item_def intro: set_update_memI)
  next
    case False
    with k have "it \<in> set (xs[i := ?y])" by (metis nth_list_update_neq length_list_update nth_mem)
    with Some assms show ?thesis by (auto simp: put_item_def)
  qed
qed

lemma put_item_has:
  assumes "distinct (map fst c)" and "map_of c ''name'' = Some (JStr n)"
  shows "\<exists>it \<in> set (put_item (has_key Y ''name'' n) c ow xs). has_key Y ''name'' n it"
proof (cases "find_index (has_key Y ''name'' n) xs")
  case None
  with assms show ?thesis by (auto simp: put_item_def has_key_def)
next
  case (Some i)
  have i: "xs ! i \<in> set xs" "has_key Y ''name'' n (xs ! i)" using find_index_Some [OF Some] by auto
  from put_item_keeps [OF i assms] show ?thesis .
qed

lemma upserted_declared:
  assumes "upserted Y p n c ow j j'" and "distinct (map fst c)" and "map_of c ''name'' = Some (JStr n)"
  shows "declared Y p n j'" and "declared Y q m j \<Longrightarrow> q = p \<or> apart p q \<Longrightarrow> declared Y q m j'"
  using assms put_item_has [of c n Y] put_item_keeps [of _ _ Y _ c n] by (auto simp: upserted_def declared_def frames_def)

lemma refers_mono: "refers Y v p j \<Longrightarrow> (\<And>n. declared Y p n j \<Longrightarrow> declared Y p n j') \<Longrightarrow> refers Y v p j'"
  by (auto simp: refers_def)

lemma paths_apart [simp]:
  "apart EXCHANGES QUEUES" "apart QUEUES EXCHANGES" "apart EXCHANGES TOPICS" "apart TOPICS EXCHANGES"
  "apart QUEUES TOPICS" "apart TOPICS QUEUES"
  by (simp_all add: EXCHANGES_def QUEUES_def TOPICS_def)

lemma paths_nonempty [simp]: "EXCHANGES \<noteq> []" "QUEUES \<noteq> []" "TOPICS \<noteq> []"
  by (simp_all add: EXCHANGES_def QUEUES_def TOPICS_def)

text \<open>A path outside the three sequences leaves every name and reference as it is.\<close>

definition off_topology :: "ypath \<Rightarrow> bool" where
  "off_topology p \<longleftrightarrow> p \<noteq> [] \<and> apart p EXCHANGES \<and> apart p QUEUES \<and> apart p TOPICS"

lemma frames_off:
  assumes "frames p j j'" and "off_topology p"
  shows "wired Y j' = wired Y j" and "q \<in> {EXCHANGES, QUEUES, TOPICS} \<Longrightarrow> declared Y q n j' = declared Y q n j"
  using assms by (auto simp: frames_def off_topology_def wired_def refers_def declared_def)

text \<open>What a field of an entry reads after an upsert: the item's value, or the one it had.\<close>

lemma put_item_field:
  assumes "it \<in> set (put_item same c ow xs)" and "is_obj it" and "distinct (map fst c)" and "\<And>x. same x \<Longrightarrow> is_obj x"
  shows "jget it f = jget (JObj c) f \<or> (\<exists>x \<in> set xs. is_obj x \<and> jget it f = jget x f)"
proof -
  have ?thesis if x: "x \<in> set xs" "same x" "it = JObj (spread (obj_entries x) c)" for x
  proof -
    from x assms(4) obtain fs where fs: "x = JObj fs" by blast
    with x have "jget it f = jget (JObj c) f \<or> jget it f = jget x f"
      using assms(3) by (cases "map_of c f") (simp_all add: spread_get_distinct)
    with x(1) fs show ?thesis by fastforce
  qed
  with put_item_mem [OF assms(1)] assms(2) show ?thesis by metis
qed

lemma has_key_obj: "has_key Y k n x \<Longrightarrow> is_obj x"
  by (simp add: has_key_def)

lemma wired_upsert:
  assumes up: "upserted Y p n c ow j j'" and c: "distinct (map fst c)" "map_of c ''name'' = Some (JStr n)" and w: "wired Y j"
    and p: "p = EXCHANGES \<or>
      p = QUEUES \<and> refers Y (jget (JObj c) ''exchange'') EXCHANGES j \<or>
      p = TOPICS \<and> refers Y (jget (JObj c) ''exchange'') EXCHANGES j \<and> refers Y (jget (JObj c) ''queue'') QUEUES j"
  shows "wired Y j'"
proof -
  have mono: "declared Y q m j'" if "declared Y q m j" "q \<in> {EXCHANGES, QUEUES, TOPICS}" for q m
  proof -
    have "q = p \<or> apart p q" using that(2) p by auto
    with upserted_declared(2) [OF up c that(1)] show ?thesis by blast
  qed
  have ref: "refers Y v q j'" if "refers Y v q j" "q \<in> {EXCHANGES, QUEUES, TOPICS}" for v q
    using that mono by (auto intro: refers_mono)
  have field: "jget it f = jget (JObj c) f \<or> (\<exists>x \<in> set xs. is_obj x \<and> jget it f = jget x f)"
    if "it \<in> set (put_item (has_key Y ''name'' n) c ow xs)" "is_obj it" for it xs f
    by (rule put_item_field [OF that c(1) has_key_obj])
  have d: "dig p j' = JArr (put_item (has_key Y ''name'' n) c ow (arr_of (dig p j)))" and f: "\<And>q. apart p q \<Longrightarrow> dig q j' = dig q j"
    using up by (auto simp: upserted_def frames_def)
  consider "p = EXCHANGES" | "p = QUEUES" "refers Y (jget (JObj c) ''exchange'') EXCHANGES j"
    | "p = TOPICS" "refers Y (jget (JObj c) ''exchange'') EXCHANGES j" "refers Y (jget (JObj c) ''queue'') QUEUES j"
    using p by blast
  then show ?thesis
  proof cases
    case 1
    with w f ref show ?thesis by (simp add: wired_def)
  next
    case 2
    have "refers Y (jget q ''exchange'') EXCHANGES j" if "q \<in> set (arr_of (dig QUEUES j'))" "is_obj q" for q
      using field [where it = q and xs = "arr_of (dig p j)" and f = "''exchange''"] that 2 d w by (auto simp: wired_def)
    with w f ref 2(1) show ?thesis by (simp add: wired_def)
  next
    case 3
    have "refers Y (jget t ''exchange'') EXCHANGES j \<and> refers Y (jget t ''queue'') QUEUES j" if "t \<in> set (arr_of (dig TOPICS j'))" "is_obj t" for t
      using field [where it = t and xs = "arr_of (dig p j)" and f = "''exchange''"] field [where it = t and xs = "arr_of (dig p j)" and f = "''queue''"] that 3 d w by (auto simp: wired_def)
    with w f ref 3(1) show ?thesis by (simp add: wired_def)
  qed
qed

context yaml_document
begin

lemma exists_declared: "seqItemExists Y p ''name'' n d = declared Y p n (dat d)"
  by (cases "dig p (dat d)") (auto simp: seqItemExists_def findSeqItemByKey_def getIn_law declared_def find_None_iff Let_def)

lemma upsert_upserted:
  assumes "upsertSeqItemByKey Y p ''name'' item ow d = (Inr oc, d')" and "p \<noteq> []" and "distinct (map fst item)"
    and "jget (JObj item) ''name'' = JStr n"
  shows "upserted Y p n (stripUndefined item) ow (dat d) (dat d')"
proof -
  have k: "jget (JObj (stripUndefined item)) ''name'' = JStr n" using assms(3,4) by (simp only: stripUndefined_get)
  note run = assms(1) [unfolded upsertSeqItemByKey_def Let_def k js_string.simps]
  from upsertWhere_law [OF run assms(2)] has_key_obj
  have "bury p (JArr (put_item (has_key Y ''name'' n) (stripUndefined item) ow (arr_of (dig p (dat d))))) (dat d) = Some (dat d')"
    by auto
  from bury_simps [OF this] show ?thesis by (auto simp: upserted_def frames_def)
qed

lemma ensures_upsert:
  assumes "p \<noteq> []" and "distinct (map fst item)" and "jget (JObj item) ''name'' = JStr n"
    and "\<And>j j'. P j \<Longrightarrow> upserted Y p n (stripUndefined item) ow j j' \<Longrightarrow> Q j'"
  shows "ensures dat P (upsertSeqItemByKey Y p ''name'' item ow) (\<lambda>_. Q)"
  using assms upsert_upserted unfolding ensures_def by blast

lemma setConfig_frames:
  assumes "setConfig Y p v d = (Inr oc, d')" and "p \<noteq> []"
  shows "frames p (dat d) (dat d')"
proof -
  have "dat d' = dat d \<or> bury p v (dat d) = Some (dat d')"
    using assms setIn_law [of p v d] by (fastforce simp: setConfig_def Let_def and_then_def split: if_splits prod.splits sum.splits)
  then show ?thesis using bury_simps(2) by (auto simp: frames_def)
qed

lemma ensures_setConfig_off:
  assumes "off_topology p" and "\<And>j j'. P j \<Longrightarrow> frames p j j' \<Longrightarrow> P j'"
  shows "ensures dat P (setConfig Y p v) (\<lambda>_. P)"
  using assms setConfig_frames unfolding ensures_def off_topology_def by blast

end

section \<open>Commands keep the configuration wired\<close>

text \<open>A wired configuration in which the names of \<open>X\<close> are declared.\<close>

definition knows :: "('d, 't) yaml_lib \<Rightarrow> (ypath \<times> string) set \<Rightarrow> jval \<Rightarrow> bool" where
  "knows Y X j \<longleftrightarrow> wired Y j \<and> (\<forall>(p, n) \<in> X. p \<in> {EXCHANGES, QUEUES, TOPICS} \<and> declared Y p n j)"

lemma knows_mono: "knows Y X j \<Longrightarrow> X' \<subseteq> X \<Longrightarrow> knows Y X' j"
  by (auto simp: knows_def)

lemma knows_wired: "knows Y {} j \<longleftrightarrow> wired Y j"
  by (simp add: knows_def)

lemma knows_off:
  assumes k: "knows Y X j" and off: "frames p j j'" "off_topology p"
  shows "knows Y X j'"
proof -
  have "declared Y q n j'" if "q \<in> {EXCHANGES, QUEUES, TOPICS}" "declared Y q n j" for q n
    by (rule frames_off(2) [OF off that(1), THEN iffD2, OF that(2)])
  with k frames_off(1) [OF off] show ?thesis unfolding knows_def by fast
qed

lemma knows_upsert:
  assumes "upserted Y p n c ow j j'" and "distinct (map fst c)" and "map_of c ''name'' = Some (JStr n)" and "knows Y X j"
    and "p = EXCHANGES \<or>
      p = QUEUES \<and> refers Y (jget (JObj c) ''exchange'') EXCHANGES j \<or>
      p = TOPICS \<and> refers Y (jget (JObj c) ''exchange'') EXCHANGES j \<and> refers Y (jget (JObj c) ''queue'') QUEUES j"
  shows "knows Y (insert (p, n) X) j'"
proof -
  have "wired Y j'" using wired_upsert [OF assms(1-3) _ assms(5)] assms(4) by (simp add: knows_def)
  moreover have "declared Y q m j'" if "(q, m) \<in> X" for q m
  proof -
    have q: "q \<in> {EXCHANGES, QUEUES, TOPICS}" "declared Y q m j" using assms(4) that by (auto simp: knows_def)
    then have "q = p \<or> apart p q" using assms(5) by auto
    with upserted_declared(2) [OF assms(1-3) q(2)] show ?thesis by blast
  qed
  moreover have "p \<in> {EXCHANGES, QUEUES, TOPICS}" using assms(5) by blast
  ultimately show ?thesis using upserted_declared(1) [OF assms(1-3)] assms(4) by (auto simp: knows_def)
qed

lemma item_stripped:
  assumes "distinct (map fst item)" and "jget (JObj item) ''name'' = JStr n"
  shows "distinct (map fst (stripUndefined item))" and "map_of (stripUndefined item) ''name'' = Some (JStr n)"
    and "jget (JObj (stripUndefined item)) f = jget (JObj item) f"
  using stripUndefined_distinct [OF assms(1)] stripUndefined_get [OF assms(1), of "''name''"] stripUndefined_get [OF assms(1), of f] assms(2)
  by (auto split: option.splits)

context yaml_document
begin

lemma knows_ensureExchange: "ensures dat (knows Y X) (ensureExchange Y s ow) (\<lambda>_. knows Y (insert (EXCHANGES, es_name s) X))"
  unfolding ensureExchange_def
proof (rule ensures_upsert)
  fix j j'
  assume "knows Y X j" and "upserted Y EXCHANGES (es_name s) (stripUndefined (exchange_item s)) ow j j'"
  with item_stripped [OF item_keys(1) item_names(1)] show "knows Y (insert (EXCHANGES, es_name s) X) j'"
    by (intro knows_upsert) auto
qed (rule paths_nonempty item_keys item_names)+

lemma knows_ensureQueue:
  assumes "(EXCHANGES, qs_exchange s) \<in> X"
  shows "ensures dat (knows Y X) (ensureQueue Y s ow) (\<lambda>_. knows Y (insert (QUEUES, qs_name s) X))"
  unfolding ensureQueue_def
proof (rule ensures_upsert)
  fix j j'
  assume k: "knows Y X j" and u: "upserted Y QUEUES (qs_name s) (stripUndefined (queue_item s)) ow j j'"
  have "jget (JObj (queue_item s)) ''exchange'' = JStr (qs_exchange s)" by (simp add: queue_item_def Let_def)
  with k assms have "refers Y (jget (JObj (stripUndefined (queue_item s))) ''exchange'') EXCHANGES j"
    by (auto simp only: item_stripped(3) [OF item_keys(2) item_names(2)] refers_def knows_def keyText_str)
  with item_stripped [OF item_keys(2) item_names(2)] k u show "knows Y (insert (QUEUES, qs_name s) X) j'"
    by (intro knows_upsert) auto
qed (rule paths_nonempty item_keys item_names)+

lemma knows_ensureTopic:
  assumes "(EXCHANGES, ts_exchange s) \<in> X" and "\<And>q. ts_queue s = JStr q \<Longrightarrow> q \<noteq> [] \<Longrightarrow> (QUEUES, q) \<in> X"
    and "ts_queue s = JUndef \<or> (\<exists>q. ts_queue s = JStr q)"
  shows "ensures dat (knows Y X) (ensureTopic Y s ow) (\<lambda>_. knows Y (insert (TOPICS, ts_name s) X))"
  unfolding ensureTopic_def
proof (rule ensures_upsert)
  fix j j'
  assume k: "knows Y X j" and u: "upserted Y TOPICS (ts_name s) (stripUndefined (topic_item s)) ow j j'"
  have "jget (JObj (topic_item s)) ''exchange'' = JStr (ts_exchange s)" "jget (JObj (topic_item s)) ''queue'' = ts_queue s"
    by (simp_all add: topic_item_def)
  moreover have "refers Y (ts_queue s) QUEUES j" using assms(2,3) k by (auto simp: refers_def knows_def)
  ultimately have "refers Y (jget (JObj (stripUndefined (topic_item s))) ''exchange'') EXCHANGES j \<and>
      refers Y (jget (JObj (stripUndefined (topic_item s))) ''queue'') QUEUES j"
    using k assms(1) by (auto simp only: item_stripped(3) [OF item_keys(3) item_names(3)] refers_def knows_def keyText_str)
  with item_stripped [OF item_keys(3) item_names(3)] k u show "knows Y (insert (TOPICS, ts_name s) X) j'"
    by (intro knows_upsert) auto
qed (rule paths_nonempty item_keys item_names)+

lemma knows_setConfig: "off_topology p \<Longrightarrow> ensures dat (knows Y X) (setConfig Y p v) (\<lambda>_. knows Y X)"
  by (rule ensures_setConfig_off) (auto intro: knows_off)

lemma knows_upsertWhere:
  assumes "off_topology p" and "\<And>x. same x \<Longrightarrow> is_obj x"
  shows "ensures dat (knows Y X) (upsertWhere Y p same c ow) (\<lambda>_. knows Y X)"
proof -
  have p: "p \<noteq> []" using assms(1) by (simp add: off_topology_def)
  have "frames p (dat d) (dat d')" if "upsertWhere Y p same c ow d = (Inr oc, d')" for d oc d'
    using upsertWhere_law [OF that p assms(2)] bury_simps(2) by (auto simp: frames_def)
  with assms(1) knows_off show ?thesis unfolding ensures_def by blast
qed

lemma knows_upsertOff: "off_topology p \<Longrightarrow> ensures dat (knows Y X) (upsertSeqItemByKey Y p k item ow) (\<lambda>_. knows Y X)"
  unfolding upsertSeqItemByKey_def Let_def by (intro knows_upsertWhere has_key_obj)

end

lemma ensures_reads_any: "(\<And>v. ensures dat P (k v) Q) \<Longrightarrow> ensures dat P (and_then (reads f) k) Q"
  by (simp add: ensures_def)

lemma knows_here: "ensures dat (knows Y X) (ret x) (\<lambda>_. knows Y X)"
  by (rule ensures_ret)

lemma knows_done: "ensures dat (knows Y X) (ret x) (\<lambda>_. wired Y)"
  by (rule ensures_ret) (simp add: knows_def)

lemma knows_or_not: "knows Y X j \<and> declared Y p n j \<Longrightarrow> p \<in> {EXCHANGES, QUEUES, TOPICS} \<Longrightarrow> knows Y (insert (p, n) X) j"
  by (auto simp: knows_def)

lemma ensures_if: "(b \<Longrightarrow> ensures dat P f Q) \<Longrightarrow> (\<not> b \<Longrightarrow> ensures dat P g Q) \<Longrightarrow> ensures dat P (if b then f else g) Q"
  by simp

lemma off_paths [simp]:
  "off_topology GATEWAY_PATHS" "off_topology GATEWAY_EVENTS" "off_topology AUTH_PROVIDERS" "off_topology BINDINGS"
  "off_topology [''broker'', ''retry'']" "off_topology [''broker'', ''routeDiscovery'']" "off_topology [''broker'', ''replyQueues'', e]"
  "off_topology (''gateway'' # q)" "off_topology CONNECTION_NAME_PATH"
  by (simp_all add: off_topology_def GATEWAY_PATHS_def GATEWAY_EVENTS_def AUTH_PROVIDERS_def BINDINGS_def CONNECTION_NAME_PATH_def
      EXCHANGES_def QUEUES_def TOPICS_def)

text \<open>The topics a gateway is promoted with.\<close>

definition gateway_topics :: "add_gateway_options \<Rightarrow> (ypath \<times> string) set" where
  "gateway_topics opt =
     (if coalesce (ag_acl opt) True then {(TOPICS, ''rlb-acl'')} else {}) \<union>
     (if ag_anyAdmin opt then {(TOPICS, ''rlb-gateway-admin''), (TOPICS, or_ask (ag_controlTopic opt) ''rlb-gateway-control'')} else {})"

text \<open>Whether a name is declared, and its declaration when it is not.\<close>

context yaml_document
begin

lemma knows_ensured:
  assumes "p \<in> {EXCHANGES, QUEUES, TOPICS}" and "ensures dat (knows Y X) m (\<lambda>_. knows Y (insert (p, n) X))"
    and "\<And>v. ensures dat (knows Y (insert (p, n) X)) (k v) Q"
  shows "ensures dat (knows Y X) (and_then (reads (seqItemExists Y p ''name'' n)) (\<lambda>known. and_seq (if \<not> known then and_seq m (ret ()) else ret ()) (k known))) Q"
proof (rule ensures_reads [where g = "declared Y p n"])
  show "seqItemExists Y p ''name'' n d = declared Y p n (dat d)" for d by (rule exists_declared)
next
  fix v
  have "ensures dat (\<lambda>j. knows Y X j \<and> declared Y p n j = v) (if \<not> v then and_seq m (ret ()) else ret ()) (\<lambda>_. knows Y (insert (p, n) X))"
  proof (cases v)
    case True
    with assms(1) show ?thesis by (auto intro!: ensures_ret knows_or_not)
  next
    case False
    with assms(2) show ?thesis by (auto intro!: ensures_seq [OF _ knows_here] intro: ensures_pre)
  qed
  then show "ensures dat (\<lambda>j. knows Y X j \<and> declared Y p n j = v) (and_seq (if \<not> v then and_seq m (ret ()) else ret ()) (k v)) Q"
    using assms(3) by (rule ensures_seq)
qed

lemma add_exchange_wired: "ensures dat (knows Y {}) (add_exchange Y sh opt) (\<lambda>_. wired Y)"
  unfolding add_exchange_def Let_def
  by (auto intro!: knows_done ensures_seq [OF knows_ensureExchange] ensures_seq [OF knows_ensureQueue] simp: a_queue_def)

lemma add_queue_wired:
  assumes "aq_createExchange opt = Some True"
  shows "ensures dat (knows Y {}) (add_queue Y sh opt) (\<lambda>_. wired Y)"
proof -
  have run: "ensures dat (knows Y {}) (and_then (reads (exchangeExists Y e)) (\<lambda>known.
      and_seq (if \<not> known \<and> True then and_seq (ensureExchange Y (an_exchange e t) False) (ret ()) else ret ()) k)) (\<lambda>_. wired Y)"
    if k: "ensures dat (knows Y {(EXCHANGES, e)}) k (\<lambda>_. wired Y)" for e t and k :: "('d, bool) eff"
    unfolding exchangeExists_def simp_thms
    by (rule knows_ensured) (simp, use knows_ensureExchange [of "{}" "an_exchange e t"] k in \<open>simp_all add: an_exchange_def\<close>)
  show ?thesis
    unfolding add_queue_def Let_def assms coalesce_simps
    by (rule ensures_if, rule knows_done, rule run, rule ensures_reads_any, rule ensures_seq [OF knows_ensureQueue], simp, rule knows_done)
qed

lemma add_topic_wired:
  assumes "coalesce (at_createDeps opt) True"
  shows "ensures dat (knows Y {}) (add_topic Y sh opt) (\<lambda>_. wired Y)"
proof -
  have ex: "ensures dat (knows Y {}) (and_then (reads (exchangeExists Y e)) (\<lambda>known.
      and_seq (if True \<and> \<not> known then and_seq (ensureExchange Y (an_exchange e JUndef) False) (ret ()) else ret ()) k)) (\<lambda>_. wired Y)"
    if k: "ensures dat (knows Y {(EXCHANGES, e)}) k (\<lambda>_. wired Y)" for e and k :: "('d, bool) eff"
    unfolding exchangeExists_def simp_thms
    by (rule knows_ensured) (simp, use knows_ensureExchange [of "{}" "an_exchange e JUndef"] k in \<open>simp_all add: an_exchange_def\<close>)
  have qu: "ensures dat (knows Y {(EXCHANGES, e)})
      (and_then (reads (\<lambda>d. True \<and> truthy_str queue \<and> \<not> queueExists Y (the queue) d)) (\<lambda>missing.
       and_seq (if missing then and_seq (ensureQueue Y (a_queue (the queue) e rk) False) (ret ()) else ret ()) k)) (\<lambda>_. wired Y)"
    if k: "ensures dat (knows Y (insert (EXCHANGES, e) (if truthy_str queue then {(QUEUES, the queue)} else {}))) k (\<lambda>_. wired Y)"
    for e queue rk and k :: "('d, bool) eff"
  proof (rule ensures_reads [where g = "\<lambda>j. truthy_str queue \<and> \<not> declared Y QUEUES (the queue) j"])
    fix v
    have q: "ensures dat (knows Y {(EXCHANGES, e)}) (and_seq (ensureQueue Y (a_queue (the queue) e rk) False) (ret ()))
        (\<lambda>_. knows Y {(EXCHANGES, e), (QUEUES, the queue)})"
      using knows_ensureQueue [of "a_queue (the queue) e rk" "{(EXCHANGES, e)}"]
      by (auto intro!: ensures_seq [OF _ knows_here] simp: a_queue_def insert_commute)
    show "ensures dat (\<lambda>j. knows Y {(EXCHANGES, e)} j \<and> (truthy_str queue \<and> \<not> declared Y QUEUES (the queue) j) = v)
        (and_seq (if v then and_seq (ensureQueue Y (a_queue (the queue) e rk) False) (ret ()) else ret ()) k) (\<lambda>_. wired Y)"
    proof (rule ensures_seq [OF _ k], cases v)
      case True
      then show "ensures dat (\<lambda>j. knows Y {(EXCHANGES, e)} j \<and> (truthy_str queue \<and> \<not> declared Y QUEUES (the queue) j) = v)
          (if v then and_seq (ensureQueue Y (a_queue (the queue) e rk) False) (ret ()) else ret ())
          (\<lambda>_. knows Y (insert (EXCHANGES, e) (if truthy_str queue then {(QUEUES, the queue)} else {})))"
        using q unfolding ensures_def by auto
    next
      case False
      then show "ensures dat (\<lambda>j. knows Y {(EXCHANGES, e)} j \<and> (truthy_str queue \<and> \<not> declared Y QUEUES (the queue) j) = v)
          (if v then and_seq (ensureQueue Y (a_queue (the queue) e rk) False) (ret ()) else ret ())
          (\<lambda>_. knows Y (insert (EXCHANGES, e) (if truthy_str queue then {(QUEUES, the queue)} else {})))"
        by (auto intro!: ensures_ret simp: knows_def)
    qed
  qed (simp add: queueExists_def exists_declared)
  have to: "ensures dat (knows Y (insert (EXCHANGES, e) (if truthy_str queue then {(QUEUES, the queue)} else {})))
      (and_seq (ensureTopic Y t ow) (ret True)) (\<lambda>_. wired Y)"
    if "ts_exchange t = e" "ts_queue t = jopt queue" for t e queue ow
    using that by (intro ensures_seq [OF knows_ensureTopic knows_done]) (auto simp: jopt_def split: option.splits if_splits)
  show ?thesis
    unfolding add_topic_def Let_def eqTrueI [OF assms]
    by (rule ensures_if, rule knows_done, rule ex, rule ensures_reads_any, rule qu, rule to) simp_all
qed

lemma add_route_wired: "ensures dat (knows Y {}) (add_route Y sh opt) (\<lambda>_. wired Y)"
  unfolding add_route_def Let_def by (intro ensures_if knows_done ensures_seq [OF knows_upsertOff]) simp

lemma add_ws_event_wired: "ensures dat (knows Y {}) (add_ws_event Y sh opt) (\<lambda>_. wired Y)"
  unfolding add_ws_event_def Let_def by (intro ensures_if knows_done ensures_seq [OF knows_upsertOff]) simp

lemma add_auth_provider_wired: "ensures dat (knows Y {}) (add_auth_provider Y sh opt) (\<lambda>_. wired Y)"
  unfolding add_auth_provider_def Let_def
  by (auto intro!: ensures_throw knows_done ensures_seq [OF knows_upsertOff] split: option.split)

lemma add_exchange_binding_wired: "ensures dat (knows Y {}) (add_exchange_binding Y sh opt) (\<lambda>_. wired Y)"
  unfolding add_exchange_binding_def Let_def
  by (intro ensures_if knows_done ensures_seq [OF knows_upsertWhere]) (simp_all add: same_binding_def)

lemma set_connection_name_wired: "ensures dat (knows Y {}) (set_connection_name Y sh opt) (\<lambda>_. wired Y)"
  unfolding set_connection_name_def Let_def by (intro ensures_if knows_done ensures_seq [OF knows_setConfig]) simp

lemma add_reply_queue_wired: "ensures dat (knows Y {}) (add_reply_queue Y sh e q) (\<lambda>_. wired Y)"
  unfolding add_reply_queue_def Let_def by (intro ensures_if knows_done ensures_seq [OF knows_setConfig]) simp

lemma enable_load_config_wired: "ensures dat (knows Y {}) (enable_load_config Y sh opt) (\<lambda>_. wired Y)"
  unfolding enable_load_config_def Let_def
  by (rule ensures_seq [OF knows_setConfig], simp, rule ensures_seq, rule ensures_if, rule ensures_seq [OF knows_setConfig], simp,
      rule knows_here, rule knows_here, rule knows_done)

lemma apply_edits_wired: "\<forall>(v, p) \<in> set es. off_topology p \<Longrightarrow> ensures dat (knows Y X) (apply_edits Y es) (\<lambda>_. knows Y X)"
  unfolding apply_edits_def by (rule ensures_for_each) (auto intro!: ensures_seq [OF knows_setConfig] knows_here)

lemma configure_broker_wired: "ensures dat (knows Y {}) (configure_broker Y opt) (\<lambda>_. wired Y)"
  unfolding configure_broker_def
  by (rule ensures_seq [OF apply_edits_wired knows_done])
    (simp add: broker_edits_def off_topology_def MANAGER_def CREDS_def EXCHANGES_def QUEUES_def TOPICS_def)

lemma harden_gateway_wired: "ensures dat (knows Y {}) (harden_gateway Y opt) (\<lambda>_. wired Y)"
  unfolding harden_gateway_def by (rule ensures_seq [OF apply_edits_wired knows_done]) (simp add: harden_edits_def)

lemma enable_route_discovery_wired: "ensures dat (knows Y {}) (enable_route_discovery Y sh opt) (\<lambda>_. wired Y)"
  unfolding enable_route_discovery_def Let_def
  by (rule ensures_if, rule knows_done, rule ensures_seq [OF knows_setConfig], simp, rule ensures_seq [where R = "knows Y {}"], rule ensures_if,
      rule ensures_seq [OF knows_ensureExchange], rule ensures_ret, erule knows_mono, simp, rule knows_here, rule knows_done)

text \<open>A field of a topic other than its exchange and queue.\<close>

lemma setItem_retry: "ensures dat (\<lambda>j. knows Y X j \<and> find_index P (arr_of (dig TOPICS j)) = Some i) (edits (yl_setItem Y TOPICS i ''retry'' v)) (\<lambda>_. knows Y X)"
  if objs: "\<And>x. P x \<Longrightarrow> is_obj x" for P
  unfolding ensures_def
proof (intro allI impI, elim conjE)
  fix d x d'
  assume k: "knows Y X (dat d)" and f: "find_index P (arr_of (dig TOPICS (dat d))) = Some i" and run: "edits (yl_setItem Y TOPICS i ''retry'' v) d = (Inr x, d')"
  obtain xs where xs: "dig TOPICS (dat d) = JArr xs" using f by (cases "dig TOPICS (dat d)") auto
  note i = find_index_Some [OF f [unfolded xs arr_of.simps]]
  obtain fs where fs: "xs ! i = JObj fs" using objs i by blast
  let ?it = "JObj (AList.update ''retry'' v fs)"
  have "bury TOPICS (JArr (xs[i := ?it])) (dat d) = Some (dat d')" using setItem_law [OF xs _ fs] i run by auto
  note new = bury_simps(1) [OF this] bury_simps(2) [OF this]
  have same: "jget ?it f = jget (xs ! i) f" if "f \<noteq> ''retry''" for f using that by (simp add: fs om_simps)
  have mem: "\<exists>y \<in> set xs. is_obj y \<and> (\<forall>f. f \<noteq> ''retry'' \<longrightarrow> jget t f = jget y f)" if "t \<in> set (xs[i := ?it])" "is_obj t" for t
  proof -
    have "t \<in> set xs \<or> t = ?it" using that(1) set_update_subset_insert [of xs i ?it] by auto
    moreover have "xs ! i \<in> set xs" "is_obj (xs ! i)" using i by (auto simp: objs)
    ultimately show ?thesis using that(2) same by metis
  qed
  have dec: "declared Y q n (dat d')" if "declared Y q n (dat d)" "q \<in> {EXCHANGES, QUEUES, TOPICS}" for q n
  proof (cases "q = TOPICS")
    case True
    with that(1) obtain y where y: "y \<in> set xs" "has_key Y ''name'' n y" by (auto simp: declared_def xs)
    then obtain m where m: "m < length xs" "xs ! m = y" by (auto simp: in_set_conv_nth)
    have "has_key Y ''name'' n (xs[i := ?it] ! m)"
      using y m same [of "''name''"] fs by (cases "m = i") (simp_all add: has_key_def)
    with m True new(1) show ?thesis by (auto simp: declared_def intro: nth_mem)
  next
    case False
    with that new(2) [of q] show ?thesis by (auto simp: declared_def)
  qed
  then have ref: "refers Y v q (dat d')" if "refers Y v q (dat d)" "q \<in> {EXCHANGES, QUEUES, TOPICS}" for v q
    using that by (auto simp: refers_def)
  have w: "wired Y (dat d)" using k by (simp add: knows_def)
  have "refers Y (jget q ''exchange'') EXCHANGES (dat d')" if "q \<in> set (arr_of (dig QUEUES (dat d')))" "is_obj q" for q
    using w that new(2) [of QUEUES] by (intro ref) (auto simp: wired_def)
  moreover have "refers Y (jget t ''exchange'') EXCHANGES (dat d') \<and> refers Y (jget t ''queue'') QUEUES (dat d')"
    if t: "t \<in> set (arr_of (dig TOPICS (dat d')))" "is_obj t" for t
  proof -
    obtain y where y: "y \<in> set xs" "is_obj y" "\<And>f. f \<noteq> ''retry'' \<Longrightarrow> jget t f = jget y f"
      using mem [OF t [unfolded new(1) arr_of.simps]] by blast
    with w have "refers Y (jget t ''exchange'') EXCHANGES (dat d)" "refers Y (jget t ''queue'') QUEUES (dat d)"
      by (simp_all add: wired_def xs)
    then show ?thesis by (simp add: ref)
  qed
  ultimately have "wired Y (dat d')" by (simp add: wired_def)
  moreover have "\<forall>(p, n) \<in> X. p \<in> {EXCHANGES, QUEUES, TOPICS} \<and> declared Y p n (dat d')"
    using k dec unfolding knows_def by fast
  ultimately show "knows Y X (dat d')" unfolding knows_def by blast
qed

lemma enable_retry_wired:
  fixes opt :: enable_retry_options and sh :: shell
  defines "X \<equiv> (if retry_onExhausted opt = ''dead-letter'' \<and> truthy_str (er_deadLetterExchange opt) \<and> coalesce (er_declareDlx opt) True
                then {(EXCHANGES, the (er_deadLetterExchange opt))} else {})"
  shows "ensures dat (knows Y {}) (enable_retry Y sh opt) (\<lambda>_. knows Y X)"
proof -
  have at_topic: "ensures dat (knows Y X) (and_then (reads (\<lambda>d. find_index (has_key Y ''name'' n) (arr_of (yl_getIn Y TOPICS d)))) (\<lambda>item.
      and_seq (case item of None \<Rightarrow> ret () | Some i \<Rightarrow> edits (yl_setItem Y TOPICS i ''retry'' v)) (ret True))) (\<lambda>_. knows Y X)" for n v
  proof (rule ensures_reads [where g = "\<lambda>j. find_index (has_key Y ''name'' n) (arr_of (dig TOPICS j))"])
    fix r
    show "ensures dat (\<lambda>j. knows Y X j \<and> find_index (has_key Y ''name'' n) (arr_of (dig TOPICS j)) = r)
        (and_seq (case r of None \<Rightarrow> ret () | Some i \<Rightarrow> edits (yl_setItem Y TOPICS i ''retry'' v)) (ret True)) (\<lambda>_. knows Y X)"
      by (rule ensures_seq [OF _ knows_here], cases r) (auto intro: ensures_ret setItem_retry has_key_obj)
  qed (simp add: getIn_law)
  have first: "ensures dat (knows Y {}) (if retry_onExhausted opt = ''dead-letter'' \<and> truthy_str (er_deadLetterExchange opt) \<and> coalesce (er_declareDlx opt) True
      then and_seq (ensureExchange Y (an_exchange (the (er_deadLetterExchange opt)) t) False) (ret ()) else ret ()) (\<lambda>_. knows Y X)" for t
  proof (rule ensures_if)
    assume "retry_onExhausted opt = ''dead-letter'' \<and> truthy_str (er_deadLetterExchange opt) \<and> coalesce (er_declareDlx opt) True"
    then have "X = insert (EXCHANGES, es_name (an_exchange (the (er_deadLetterExchange opt)) t)) {}" by (simp add: X_def an_exchange_def)
    then show "ensures dat (knows Y {}) (and_seq (ensureExchange Y (an_exchange (the (er_deadLetterExchange opt)) t) False) (ret ())) (\<lambda>_. knows Y X)"
      using knows_ensureExchange [of "{}"] by (auto intro!: ensures_seq [OF _ knows_here])
  next
    assume "\<not> (retry_onExhausted opt = ''dead-letter'' \<and> truthy_str (er_deadLetterExchange opt) \<and> coalesce (er_declareDlx opt) True)"
    then have "X = {}" unfolding X_def by (rule if_not_P)
    then show "ensures dat (knows Y {}) (ret ()) (\<lambda>_. knows Y X)" using knows_here by simp
  qed
  show ?thesis
    unfolding enable_retry_def Let_def
    by (rule ensures_seq, rule first, rule ensures_if, rule ensures_seq [OF knows_setConfig knows_here], simp,
        rule ensures_if, rule knows_here, rule at_topic)
qed

lemma add_metrics_topic_wired:
  assumes "am_exchange opt = Some e" and "e \<noteq> []"
  shows "ensures dat (knows Y {(EXCHANGES, e)}) (add_metrics_topic Y sh opt) (\<lambda>_. wired Y)"
proof -
  have e: "or_ask (am_exchange opt) x = e" for x using assms by (simp add: or_ask_def)
  show ?thesis
    unfolding add_metrics_topic_def Let_def e
    by (rule ensures_seq [OF knows_ensureQueue], simp add: a_queue_def, rule ensures_seq [OF knows_ensureTopic])
      (auto simp: a_topic_def a_queue_def intro!: ensures_seq [OF knows_setConfig] knows_done)
qed

lemma knows_when_do: "(b \<Longrightarrow> ensures dat (knows Y X) m (\<lambda>_. knows Y X')) \<Longrightarrow> (\<not> b \<Longrightarrow> X' \<subseteq> X) \<Longrightarrow> ensures dat (knows Y X) (when_do b m) (\<lambda>_. knows Y X')"
  unfolding when_do_def by (rule ensures_if) (auto intro: ensures_ret knows_mono)

lemma knows_set_if_absent: "off_topology p \<Longrightarrow> ensures dat (knows Y X) (set_if_absent Y p v) (\<lambda>_. knows Y X)"
  unfolding set_if_absent_def
  by (rule ensures_reads_any, rule ensures_if, rule ensures_seq [OF knows_setConfig], assumption, rule knows_here, rule knows_here)

lemma gateway_section_wired: "ensures dat (knows Y X) (gateway_section Y opt) (\<lambda>_. knows Y X)"
  unfolding gateway_section_def Let_def
  by (rule ensures_seq [OF knows_set_if_absent], simp, rule ensures_seq [OF knows_set_if_absent], simp,
      rule ensures_seq, rule knows_when_do, rule ensures_seq [OF knows_set_if_absent], simp, rule ensures_seq [OF knows_set_if_absent], simp,
      rule knows_set_if_absent, simp, rule subset_refl, rule knows_set_if_absent, simp)

lemma ensureExchange_then:
  "ensures dat (knows Y (insert (EXCHANGES, es_name s) X)) k Q \<Longrightarrow> ensures dat (knows Y X) (and_seq (ensureExchange Y s ow) k) Q"
  by (rule ensures_seq [OF knows_ensureExchange])

lemma ensureQueue_then:
  "(EXCHANGES, qs_exchange s) \<in> X \<Longrightarrow> ensures dat (knows Y (insert (QUEUES, qs_name s) X)) k Q \<Longrightarrow>
   ensures dat (knows Y X) (and_seq (ensureQueue Y s ow) k) Q"
  by (rule ensures_seq [OF knows_ensureQueue])

lemma ensureTopic_then:
  "(EXCHANGES, e) \<in> X \<Longrightarrow> (case q of JUndef \<Rightarrow> True | JStr n \<Rightarrow> (QUEUES, n) \<in> X | _ \<Rightarrow> False) \<Longrightarrow> ensures dat (knows Y (insert (TOPICS, t) X)) k Q \<Longrightarrow>
   ensures dat (knows Y X) (and_seq (ensureTopic Y (a_topic t m q e rk) ow) k) Q"
  using ensures_seq [OF knows_ensureTopic [of "a_topic t m q e rk" X], of k Q ow] by (auto simp: a_topic_def split: jval.splits)

lemma gateway_topology_wired: "ensures dat (knows Y {}) (gateway_topology Y opt) (\<lambda>_. knows Y (gateway_topics opt))"
proof -
  let ?e = "or_ask (ag_exchange opt) ''rlb''" and ?c = "or_ask (ag_controlTopic opt) ''rlb-gateway-control''"
  define A where "A = (if coalesce (ag_acl opt) True then {(TOPICS, ''rlb-acl'')} else {})"
  define B where "B = (if ag_anyAdmin opt then {(TOPICS, ''rlb-gateway-admin''), (TOPICS, ?c)} else {})"
  have fin: "ensures dat (knows Y X) (ret ()) (\<lambda>_. knows Y X')" if "X' \<subseteq> X" for X X'
    using that by (auto intro: ensures_ret knows_mono)
  have acl: "ensures dat (knows Y {(EXCHANGES, ?e)}) (when_do (coalesce (ag_acl opt) True)
      (and_seq (ensureQueue Y (durable_queue q ?e rk) ow) (and_seq (ensureTopic Y (a_topic ''rlb-acl'' ''rpc'' (JStr q) ?e rk) ow) (ret ()))))
      (\<lambda>_. knows Y (insert (EXCHANGES, ?e) A))" for q rk ow
    by (rule knows_when_do, rule ensureQueue_then, simp add: durable_queue_def a_queue_def, rule ensureTopic_then)
      (auto simp: A_def durable_queue_def a_queue_def intro!: fin)
  have admin: "ensures dat (knows Y (insert (EXCHANGES, ?e) A)) (when_do (ag_anyAdmin opt)
      (and_seq (ensureQueue Y (durable_queue q ?e rk) ow) (and_seq (ensureTopic Y (a_topic ''rlb-gateway-admin'' ''rpc'' (JStr q) ?e rk) ow)
       (and_seq (ensureTopic Y (a_topic ?c ''broadcast'' JUndef ?e rk') ow) (ret ())))))
      (\<lambda>_. knows Y (A \<union> B))" for q rk rk' ow
    by (rule knows_when_do, rule ensureQueue_then, simp add: durable_queue_def a_queue_def, rule ensureTopic_then, simp,
        simp add: durable_queue_def a_queue_def, rule ensureTopic_then)
      (auto simp: B_def durable_queue_def a_queue_def intro!: fin)
  have route: "ensures dat (knows Y (A \<union> B)) (when_do b
      (and_seq (ensureExchange Y (an_exchange r t) ow) (and_seq (ensureQueue Y (durable_queue q r rk) ow) (ret ()))))
      (\<lambda>_. knows Y (A \<union> B))" for b r t q rk ow
    by (rule knows_when_do, rule ensureExchange_then, rule ensureQueue_then)
      (auto simp: an_exchange_def durable_queue_def a_queue_def intro!: fin)
  have "gateway_topics opt = A \<union> B" by (simp add: gateway_topics_def A_def B_def)
  then show ?thesis
    unfolding gateway_topology_def Let_def
    using ensures_seq [OF acl ensures_seq [OF admin route]] by (auto intro!: ensureExchange_then simp: an_exchange_def)
qed

lemma add_gateway_wired: "ensures dat (knows Y {}) (add_gateway Y opt) (\<lambda>_. knows Y (gateway_topics opt))"
proof -
  have del: "ensures dat (knows Y {}) (when_do b (edits (yl_deleteIn Y [''broker'', ''routeDiscovery'']))) (\<lambda>_. knows Y {})" for b
  proof (rule knows_when_do)
    have "knows Y {} (dat (yl_deleteIn Y [''broker'', ''routeDiscovery''] d))" if "knows Y {} (dat d)" for d
      by (rule knows_off [OF that, of "[''broker'', ''routeDiscovery'']"]) (simp_all add: frames_def deleteIn_law)
    then show "ensures dat (knows Y {}) (edits (yl_deleteIn Y [''broker'', ''routeDiscovery''])) (\<lambda>_. knows Y {})"
      by (auto simp: ensures_def)
  qed simp
  have paths: "ensures dat (knows Y X) (for_each (\<lambda>p. and_seq (upsertSeqItemByKey Y GATEWAY_PATHS ''name'' p ow) (ret ())) ps) (\<lambda>_. knows Y X)" for X ow ps
    by (rule ensures_for_each) (auto intro!: ensures_seq [OF knows_upsertOff] knows_here)
  show ?thesis
    unfolding add_gateway_def
    by (rule ensures_reads_any, rule ensures_seq [OF ensures_pre [OF del]], simp, rule ensures_seq [OF gateway_topology_wired],
        rule ensures_seq [OF gateway_section_wired], rule ensures_seq [OF paths knows_here])
qed

end

section \<open>Commands on the file tree\<close>

datatype command =
    AddExchange add_exchange_options
  | AddQueue add_queue_options
  | AddTopic add_topic_options
  | AddRoute add_route_options
  | AddWsEvent add_ws_event_options
  | AddAuthProvider add_auth_provider_options
  | AddExchangeBinding add_binding_options
  | EnableRetry enable_retry_options
  | AddMetricsTopic add_metrics_topic_options
  | ConfigureBroker configure_broker_options
  | HardenGateway harden_gateway_options
  | SetConnectionName "string option"
  | AddReplyQueue "string option" "string option"
  | EnableLoadConfig load_config_options
  | EnableRouteDiscovery route_discovery_options
  | AddGateway add_gateway_options

fun command_body :: "('d, 't) yaml_lib \<Rightarrow> shell \<Rightarrow> command \<Rightarrow> ('d, bool) eff" where
  "command_body Y sh (AddExchange opt) = add_exchange Y sh opt"
| "command_body Y sh (AddQueue opt) = add_queue Y sh opt"
| "command_body Y sh (AddTopic opt) = add_topic Y sh opt"
| "command_body Y sh (AddRoute opt) = add_route Y sh opt"
| "command_body Y sh (AddWsEvent opt) = add_ws_event Y sh opt"
| "command_body Y sh (AddAuthProvider opt) = add_auth_provider Y sh opt"
| "command_body Y sh (AddExchangeBinding opt) = add_exchange_binding Y sh opt"
| "command_body Y sh (EnableRetry opt) = enable_retry Y sh opt"
| "command_body Y sh (AddMetricsTopic opt) = add_metrics_topic Y sh opt"
| "command_body Y sh (ConfigureBroker opt) = configure_broker Y opt"
| "command_body Y sh (HardenGateway opt) = harden_gateway Y opt"
| "command_body Y sh (SetConnectionName name) = set_connection_name Y sh name"
| "command_body Y sh (AddReplyQueue e q) = add_reply_queue Y sh e q"
| "command_body Y sh (EnableLoadConfig opt) = enable_load_config Y sh opt"
| "command_body Y sh (EnableRouteDiscovery opt) = enable_route_discovery Y sh opt"
| "command_body Y sh (AddGateway opt) = add_gateway Y opt"

text \<open>The commands that create, or are told to create, the exchange they name. \<open>add-metrics-topic\<close> never does.\<close>

fun self_contained :: "command \<Rightarrow> bool" where
  "self_contained (AddQueue opt) = (aq_createExchange opt = Some True)"
| "self_contained (AddTopic opt) = coalesce (at_createDeps opt) True"
| "self_contained (AddMetricsTopic opt) = False"
| "self_contained _ = True"

primrec run_commands ::
    "('f, 't) tree_lib \<Rightarrow> ('d, 't) yaml_lib \<Rightarrow> shell \<Rightarrow> string option \<Rightarrow> command list \<Rightarrow> 'f \<Rightarrow> jserr + 'f" where
  "run_commands T Y sh config [] f = Inr f"
| "run_commands T Y sh config (c # cs) f =
     (case run_command T Y config (command_body Y sh c) f of Inl e \<Rightarrow> Inl e | Inr f' \<Rightarrow> run_commands T Y sh config cs f')"

definition config_data :: "('f, 't) tree_lib \<Rightarrow> ('d, 't) yaml_lib \<Rightarrow> ('d \<Rightarrow> jval) \<Rightarrow> string option \<Rightarrow> 'f \<Rightarrow> jval" where
  "config_data T Y dat config f = dat (fst (readConfigDoc T Y f (findConfigYaml T config f)))"

context yaml_document
begin

lemma command_wired:
  assumes "self_contained c"
  shows "ensures dat (wired Y) (command_body Y sh c) (\<lambda>_. wired Y)"
proof -
  have gw: "ensures dat (knows Y {}) (add_gateway Y opt) (\<lambda>_. wired Y)" for opt
    by (rule ensures_post [OF add_gateway_wired]) (simp add: knows_def)
  have rt: "ensures dat (knows Y {}) (enable_retry Y sh opt) (\<lambda>_. wired Y)" for opt
    by (rule ensures_post [OF enable_retry_wired]) (simp only: knows_def)
  have "ensures dat (knows Y {}) (command_body Y sh c) (\<lambda>_. wired Y)"
    using assms
    by (cases c) (simp_all add: add_exchange_wired add_queue_wired add_topic_wired add_route_wired add_ws_event_wired add_auth_provider_wired
        add_exchange_binding_wired rt configure_broker_wired harden_gateway_wired set_connection_name_wired add_reply_queue_wired
        enable_load_config_wired enable_route_discovery_wired gw)
  then show ?thesis by (rule ensures_pre) (simp add: knows_wired)
qed

end

context file_tree
begin

lemma ends_with_nonempty: "ends_with (c # d # s) p \<Longrightarrow> strip_slash p \<noteq> []"
  by (auto simp: ends_with_def starts_with_iff strip_slash_def split: list.splits if_splits)

text \<open>The command after the one that wrote the file finds the same file.\<close>

lemma config_path_stable:
  fixes f :: 'f and config :: "string option"
  defines "path \<equiv> findConfigYaml T config f"
  shows "findConfigYaml T config (if tr_exists T path f then tr_overwrite T path c f else tr_create T path c f) = path"
proof (cases "find (\<lambda>c. tr_exists T c f) (config_candidates config)")
  case (Some p)
  then have p: "path = p" by (simp add: path_def findConfigYaml_def)
  have e: "tr_exists T p f" using Some by (auto simp: find_Some_iff)
  with p overwrite_law [OF e] have "(\<lambda>q. tr_exists T q (tr_overwrite T path c f)) = (\<lambda>q. tr_exists T q f)" by auto
  with Some p e show ?thesis by (simp add: findConfigYaml_def)
next
  case None
  show ?thesis
  proof (cases "find (ends_with ''/config.yaml'') (tr_paths T f)")
    case (Some p)
    then have p: "p \<in> set (tr_paths T f)" "ends_with ''/config.yaml'' p" by (auto simp: find_Some_iff)
    then have "strip_slash p \<noteq> []" using ends_with_nonempty by blast
    with None Some have path: "path = strip_slash p" by (simp add: path_def findConfigYaml_def or_str_def)
    have "tr_exists T path f" using paths_exist [OF p(1)] exists_canon [of path p f] path by simp
    with overwrite_law [OF this] None Some path \<open>strip_slash p \<noteq> []\<close> show ?thesis by (simp add: findConfigYaml_def or_str_def)
  next
    case none: None
    have path: "path = the (or_str config (Some DEFAULT_CONFIG_PATH))" using None none by (simp add: path_def findConfigYaml_def)
    have head: "\<exists>cs. config_candidates config = path # cs"
      by (cases config) (auto simp: path config_candidates_def or_str_def DEFAULT_CONFIG_PATH_def)
    then have new: "\<not> tr_exists T path f" using None by (auto simp: find_None_iff)
    with create_law [OF new] head show ?thesis by (auto simp: findConfigYaml_def)
  qed
qed

end

locale config_tree = yaml_document Y dat + file_tree T
  for Y :: "('d, 't) yaml_lib" and dat :: "'d \<Rightarrow> jval" and T :: "('f, 't) tree_lib"
begin

lemma run_command_data:
  assumes "run_command T Y config body f = Inr f'"
  shows "(f' = f \<and> (\<exists>d. fst (body d) = Inr False)) \<or>
    (\<exists>d d'. dat d = config_data T Y dat config f \<and> body d = (Inr True, d') \<and> config_data T Y dat config f' = dat d')"
proof -
  define path d where "path = findConfigYaml T config f" and "d = fst (readConfigDoc T Y f path)"
  show ?thesis
  proof (cases "body d")
    case (Pair r d')
    show ?thesis
    proof (cases "r = Inr True")
      case True
      with assms Pair obtain out where out: "yl_print Y d' = Inr out"
        and f': "f' = (if tr_exists T path f then tr_overwrite T path out f else tr_create T path out f)"
        by (auto simp: run_command_def Let_def path_def d_def writeConfigDoc_def split: sum.splits)
      have "findConfigYaml T config f' = path" unfolding f' path_def by (rule config_path_stable)
      moreover have "tr_exists T path f'" "tr_read T path f' = out"
        using overwrite_law [of path f out] create_law [of path f out] by (auto simp: f')
      ultimately have "config_data T Y dat config f' = dat d'" using print_law [OF out] by (simp add: config_data_def readConfigDoc_def)
      with Pair True show ?thesis by (auto simp: config_data_def d_def path_def)
    next
      case False
      with assms Pair have "f' = f" "fst (body d) = Inr False"
        by (auto simp: run_command_def Let_def path_def d_def split: sum.splits bool.splits)
      then show ?thesis by blast
    qed
  qed
qed

lemma run_command_ensures:
  assumes "run_command T Y config body f = Inr f'" and "ensures dat P body (\<lambda>b j. b \<longrightarrow> Q j)" and "P (config_data T Y dat config f)"
  shows "(f' = f \<and> (\<exists>d. fst (body d) = Inr False)) \<or> Q (config_data T Y dat config f')"
  using run_command_data [OF assms(1)] assms(2,3) unfolding ensures_def by metis

lemma run_commands_wired:
  assumes "run_commands T Y sh config cs f = Inr f'" and "list_all self_contained cs" and "wired Y (config_data T Y dat config f)"
  shows "wired Y (config_data T Y dat config f')"
  using assms
proof (induction cs arbitrary: f)
  case (Cons c cs)
  then obtain g where g: "run_command T Y config (command_body Y sh c) f = Inr g" "run_commands T Y sh config cs g = Inr f'"
    by (auto split: sum.splits)
  have "ensures dat (wired Y) (command_body Y sh c) (\<lambda>b j. b \<longrightarrow> wired Y j)"
    using command_wired [of c sh] Cons.prems(2) by (auto intro: ensures_post)
  from run_command_ensures [OF g(1) this] Cons.prems(3) have "wired Y (config_data T Y dat config g)" by auto
  with Cons g(2) show ?case by simp
qed simp

end

interpretation plain_tree: config_tree plain_yaml "\<lambda>d. d" plain_tree ..


section \<open>The properties\<close>

context yaml_document
begin

lemma upsertWhere_total:
  assumes "dig p (dat d) = JArr xs" and "p \<noteq> []" and objs: "\<And>x. same x \<Longrightarrow> is_obj x"
  shows "\<exists>oc d'. upsertWhere Y p same c ow d = (Inr oc, d')"
proof (cases "find_index same xs")
  case None
  with assms(1) show ?thesis by (simp add: upsertWhere_def ensureSeqAt_def getIn_law and_then_def)
next
  case (Some i)
  note i = find_index_Some [OF Some]
  obtain fs where "xs ! i = JObj fs" using objs i by blast
  with setFields_law [OF assms(1) _ _ assms(2)] i obtain d' where "setFields Y p i c d = (Inr (), d')" by blast
  with assms(1) Some show ?thesis by (simp add: upsertWhere_def ensureSeqAt_def getIn_law and_then_def)
qed

lemma upsert_effect:
  assumes "upsertSeqItemByKey Y p kf item ow d = (Inr oc, d')" and p: "p \<noteq> []" and item: "distinct (map fst item)" "jget (JObj item) kf = JStr n"
  shows "dig p (dat d') = JArr (put_item (has_key Y kf n) (stripUndefined item) ow (arr_of (dig p (dat d)))) \<and>
    (\<forall>q. apart p q \<longrightarrow> dig q (dat d') = dig q (dat d))"
proof -
  let ?c = "stripUndefined item"
  have k: "jget (JObj ?c) kf = JStr n" using item(2) stripUndefined_get [OF item(1), of kf] by (auto simp del: jget.simps)
  have run: "upsertSeqItemByKey Y p kf item ow = upsertWhere Y p (has_key Y kf n) ?c ow"
    by (simp only: upsertSeqItemByKey_def Let_def k js_string.simps)
  have "bury p (JArr (put_item (has_key Y kf n) ?c ow (arr_of (dig p (dat d))))) (dat d) = Some (dat d')"
    using upsertWhere_law [OF assms(1) [unfolded run] p has_key_obj [of Y kf n]] by simp
  from bury_simps(1,2) [OF this] show ?thesis by blast
qed

lemma upsert_settles_law:
  assumes "upsertSeqItemByKey Y p kf item ow d = (Inr oc, d')" and p: "p \<noteq> []" and item: "distinct (map fst item)" "jget (JObj item) kf = JStr n"
  shows "\<exists>d''. upsertSeqItemByKey Y p kf item ow d' = (Inr Unchanged, d'') \<and> dat d'' = dat d'"
proof -
  let ?c = "stripUndefined item" and ?same = "has_key Y kf n"
  have c: "distinct (map fst ?c)" and k: "jget (JObj ?c) kf = JStr n"
    using stripUndefined_distinct [OF item(1)] item(2) stripUndefined_get [OF item(1), of kf] by (auto simp del: jget.simps)
  have run: "upsertSeqItemByKey Y p kf item ow = upsertWhere Y p ?same ?c ow"
    by (simp only: upsertSeqItemByKey_def Let_def k js_string.simps)
  define xs where "xs = arr_of (dig p (dat d))"
  define ys where "ys = put_item ?same ?c ow xs"
  have b: "bury p (JArr ys) (dat d) = Some (dat d')"
    using upsertWhere_law [OF assms(1) [unfolded run] p has_key_obj [of Y kf n]] by (simp add: xs_def ys_def)
  have ys: "dig p (dat d') = JArr ys" using bury_simps(1) [OF b] .
  obtain oc' d'' where r: "upsertWhere Y p ?same ?c ow d' = (Inr oc', d'')" using upsertWhere_total [where same = ?same and c = ?c and ow = ow, OF ys p has_key_obj [of Y kf n]] by auto
  have same: "put_item ?same ?c ow ys = ys" unfolding ys_def
    by (rule put_item_twice [where kf = kf and K = "{v. keyText Y v = n}"]) (use c k in \<open>auto simp: has_key_def split: option.splits\<close>)
  have "bury p (JArr ys) (dat d') = Some (dat d'') \<and> oc' = Unchanged"
    using upsertWhere_law [OF r p has_key_obj [of Y kf n]] ys same by simp
  moreover have "bury p (JArr ys) (dat d') = Some (dat d')" using bury_same [OF ys] p by simp
  ultimately show ?thesis using r run by simp
qed

end

text \<open>C37: upserting an item puts it in the sequence (appended, merged or left alone, everything outside
  the sequence as it was), and upserting it again succeeds, reports \<open>unchanged\<close> and changes nothing.\<close>

theorem upsert_settles:
  fixes Y :: "('d, 't) yaml_lib" and dat :: "'d \<Rightarrow> jval"
  assumes "yaml_document Y dat" and "upsertSeqItemByKey Y p kf item ow d = (Inr oc, d')" and "p \<noteq> []"
    and "distinct (map fst item)" and "jget (JObj item) kf = JStr n"
  shows "dig p (dat d') = JArr (put_item (has_key Y kf n) (stripUndefined item) ow (arr_of (dig p (dat d)))) \<and>
    (\<forall>q. apart p q \<longrightarrow> dig q (dat d') = dig q (dat d)) \<and>
    (\<exists>d''. upsertSeqItemByKey Y p kf item ow d' = (Inr Unchanged, d'') \<and> dat d'' = dat d')"
  using yaml_document.upsert_settles_law [OF assms] yaml_document.upsert_effect [OF assms] by blast

text \<open>C29: a configuration whose queues and topics name only declared exchanges and queues stays so through
  every sequence of schematic commands that create the exchange they name.\<close>

theorem schematics_keep_wired:
  fixes Y :: "('d, 't) yaml_lib" and dat :: "'d \<Rightarrow> jval" and T :: "('f, 't) tree_lib"
  assumes "config_tree Y dat T" and "list_all self_contained cs" and "wired Y (config_data T Y dat config f)"
    and "run_commands T Y sh config cs f = Inr f'"
  shows "wired Y (config_data T Y dat config f')"
  by (rule config_tree.run_commands_wired [OF assms(1,4,2,3)])

definition batch :: shell where
  "batch = \<lparr>sh_isTTY = False, sh_CI = True, sh_inquirer = None\<rparr>"

definition topic_options :: "string \<Rightarrow> add_topic_options" where
  "topic_options name =
     \<lparr>at_name = Some name, at_mode = None, at_queue = None, at_exchange = None, at_routingKey = None, at_errorBehavior = JUndef,
      at_retryMaxAttempts = JNum 3, at_retryDelayMs = JUndef, at_retryOnExhausted = JUndef, at_mandatory = JUndef,
      at_persistent = JUndef, at_toObservable = JUndef, at_createDeps = None, at_overwrite = False\<rparr>"

definition sample_exchange :: "(string \<times> jval) list" where
  "sample_exchange = exchange_item (an_exchange ''e'' (JStr ''topic''))"

theorem upsert_settles_witness:
  "\<exists>d''. upsertSeqItemByKey plain_yaml EXCHANGES ''name'' sample_exchange True
      (snd (upsertSeqItemByKey plain_yaml EXCHANGES ''name'' sample_exchange True (JObj []))) = (Inr Unchanged, d'')"
proof -
  let ?r = "upsertSeqItemByKey plain_yaml EXCHANGES ''name'' sample_exchange True (JObj [])"
  have "fst ?r = Inr Created" by code_simp
  then have r: "?r = (Inr Created, snd ?r)" by (cases ?r) simp
  have "distinct (map fst sample_exchange)" "jget (JObj sample_exchange) ''name'' = JStr ''e''" by code_simp+
  with upsert_settles [OF plain.yaml_document_axioms r] show ?thesis by auto
qed

text \<open>A topic, and then the gateway around it, from no configuration at all.\<close>

definition sample_commands :: "command list" where
  "sample_commands = [AddTopic (topic_options ''t''), SetConnectionName (Some ''svc'')]"

theorem schematics_keep_wired_witness:
  "\<exists>f'. run_commands plain_tree plain_yaml batch None sample_commands [] = Inr f' \<and>
     wired plain_yaml (config_data plain_tree plain_yaml (\<lambda>d. d) None f')"
proof -
  let ?r = "run_commands plain_tree plain_yaml batch None sample_commands []"
  have "\<not> (case ?r of Inl e \<Rightarrow> True | Inr f' \<Rightarrow> False)" by code_simp
  then obtain f' where r: "?r = Inr f'" by (cases ?r) auto
  have "list_all self_contained sample_commands" by code_simp
  moreover have "wired plain_yaml (config_data plain_tree plain_yaml (\<lambda>d. d) None [])" by code_simp
  ultimately show ?thesis using schematics_keep_wired [OF plain_tree.config_tree_axioms _ _ r] r by blast
qed

lemma gateway_path_fields:
  "routeKeyOf (gateway_path t m n h p ds a) = to_upper h @ '' '' @ p" "str_field (gateway_path t m n h p ds a) ''topic'' = t"
  "isValidRoute (gateway_path t m n h p ds a) \<longleftrightarrow> h \<noteq> [] \<and> p \<noteq> [] \<and> t \<noteq> [] \<and> a \<noteq> [] \<and> (m = ''rpc'' \<or> m = ''event'')"
  "routeKeyOf (gateway_path t m n h p ds a @ e) = to_upper h @ '' '' @ p" "str_field (gateway_path t m n h p ds a @ e) ''topic'' = t"
  "isValidRoute (gateway_path t m n h p ds a @ e) \<longleftrightarrow> h \<noteq> [] \<and> p \<noteq> [] \<and> t \<noteq> [] \<and> a \<noteq> [] \<and> (m = ''rpc'' \<or> m = ''event'')"
  by (simp_all add: gateway_path_def routeKeyOf_def str_field_def field_def isValidRoute_def)

lemma management_valid:
  "p \<in> set aclManagementPaths \<Longrightarrow> isValidRoute p \<and> str_field p ''topic'' = ''rlb-acl''"
  "c \<noteq> [] \<Longrightarrow> p \<in> set (adminManagementPaths c) \<Longrightarrow> isValidRoute p \<and> (str_field p ''topic'' = ''rlb-gateway-admin'' \<or> str_field p ''topic'' = c)"
  by (auto simp: aclManagementPaths_def adminManagementPaths_def Let_def gateway_path_fields)

lemma management_keys: "distinct (map routeKeyOf (aclManagementPaths @ adminManagementPaths c))"
proof -
  have "map routeKeyOf (adminManagementPaths c) = map routeKeyOf (adminManagementPaths [])"
    by (simp add: adminManagementPaths_def Let_def gateway_path_fields)
  moreover have "distinct (map routeKeyOf (aclManagementPaths @ adminManagementPaths []))" by code_simp
  ultimately show ?thesis by (simp only: map_append)
qed

lemma or_ask_nonempty: "or_ask x (c # cs) \<noteq> []"
  by (cases x) (auto simp: or_ask_def)

lemma management_distinct: "distinct (map routeKeyOf (management_paths opt))"
  using management_keys by (auto simp: management_paths_def)

lemma add_gateway_ends: "fst (add_gateway Y opt d) \<noteq> Inr False"
  by (auto simp: add_gateway_def and_seq_def and_then_def split: prod.split sum.split)

text \<open>promoting a wired configuration to a gateway leaves it wired, and seeds routes that are valid,
  that are told apart by method and path, and whose topics the configuration declares.\<close>

theorem gateway_routes_have_topics:
  fixes Y :: "('d, 't) yaml_lib" and dat :: "'d \<Rightarrow> jval" and T :: "('f, 't) tree_lib"
  assumes "config_tree Y dat T" and "wired Y (config_data T Y dat config f)" and "run_command T Y config (add_gateway Y opt) f = Inr f'"
  shows "wired Y (config_data T Y dat config f') \<and> distinct (map routeKeyOf (management_paths opt)) \<and>
    (\<forall>p \<in> set (management_paths opt). isValidRoute p \<and> declared Y TOPICS (str_field p ''topic'') (config_data T Y dat config f'))"
proof -
  have doc: "yaml_document Y dat" using assms(1) by (simp add: config_tree_def)
  have "ensures dat (knows Y {}) (add_gateway Y opt) (\<lambda>b j. b \<longrightarrow> knows Y (gateway_topics opt) j)"
    by (rule ensures_post [OF yaml_document.add_gateway_wired [OF doc]]) simp
  then have "knows Y (gateway_topics opt) (config_data T Y dat config f')"
    using config_tree.run_command_ensures [OF assms(1,3)] assms(2) add_gateway_ends [of Y opt] by (metis knows_wired)
  moreover have "(TOPICS, str_field p ''topic'') \<in> gateway_topics opt \<and> isValidRoute p" if "p \<in> set (management_paths opt)" for p
    using that or_ask_nonempty management_valid(1) [of p] management_valid(2) [of "or_ask (ag_controlTopic opt) ''rlb-gateway-control''" p]
    by (auto simp: management_paths_def gateway_topics_def split: if_splits)
  ultimately show ?thesis using management_distinct unfolding knows_def by blast
qed

definition plain_gateway :: add_gateway_options where
  "plain_gateway = \<lparr>ag_exchange = None, ag_aclQueue = None, ag_adminQueue = None, ag_controlTopic = None, ag_routeExchange = None,
     ag_routeQueue = None, ag_acl = None, ag_admin = Some False, ag_routeReception = Some False, ag_overwrite = False\<rparr>"

theorem gateway_routes_have_topics_witness:
  "\<exists>f'. run_command plain_tree plain_yaml None (add_gateway plain_yaml plain_gateway) [] = Inr f' \<and>
     (\<forall>p \<in> set (management_paths plain_gateway).
        declared plain_yaml TOPICS (str_field p ''topic'') (config_data plain_tree plain_yaml (\<lambda>d. d) None f'))"
proof -
  let ?r = "run_command plain_tree plain_yaml None (add_gateway plain_yaml plain_gateway) []"
  have "\<not> (case ?r of Inl e \<Rightarrow> True | Inr f' \<Rightarrow> False)" by code_simp
  then obtain f' where r: "?r = Inr f'" by (cases ?r) auto
  have "wired plain_yaml (config_data plain_tree plain_yaml (\<lambda>d. d) None [])" by code_simp
  from gateway_routes_have_topics [OF plain_tree.config_tree_axioms this r] r show ?thesis by blast
qed

lemma ensures_conj: "ensures dat P f Q \<Longrightarrow> ensures dat P f R \<Longrightarrow> ensures dat P f (\<lambda>x j. Q x j \<and> R x j)"
  unfolding ensures_def by blast

lemma ends_true: "fst (and_seq m (and_seq m' (ret True)) d) \<noteq> Inr False"
  by (auto simp: and_seq_def and_then_def split: prod.split sum.split)

lemma ensures_json:
  assumes "yaml_document Y dat"
  shows "ensures dat P (setConfig Y p v) (\<lambda>_ j. json_stringify (dig p j) = json_stringify v)"
  unfolding ensures_def
proof (intro allI impI)
  fix d x d'
  assume r: "setConfig Y p v d = (Inr x, d')"
  show "json_stringify (dig p (dat d')) = json_stringify v"
  proof (cases "dig p (dat d) \<noteq> JUndef \<and> json_stringify (dig p (dat d)) = json_stringify v")
    case True
    with r show ?thesis by (auto simp: setConfig_def Let_def yaml_document.getIn_law [OF assms])
  next
    case False
    with r obtain u where "yl_setIn Y p v d = (Inr u, d')"
      by (auto simp: setConfig_def Let_def yaml_document.getIn_law [OF assms] and_then_def split: if_splits prod.splits sum.splits)
    from yaml_document.setIn_law [OF assms this] bury_simps(1) show ?thesis by fastforce
  qed
qed

text \<open>enabling retries broker-wide with a dead-letter exchange, unless told not to declare it, leaves a
  wired configuration wired, with the exchange declared and the policy written as asked.\<close>

theorem retry_declares_dead_letter:
  fixes Y :: "('d, 't) yaml_lib" and dat :: "'d \<Rightarrow> jval" and T :: "('f, 't) tree_lib" and opt :: enable_retry_options
  assumes "config_tree Y dat T" and "wired Y (config_data T Y dat config f)"
    and dlx: "er_deadLetterExchange opt = Some x" "x \<noteq> []" "er_declareDlx opt \<noteq> Some False" "retry_onExhausted opt = ''dead-letter''"
    and scope: "er_scope opt = Some ''broker''"
    and "run_command T Y config (enable_retry Y sh opt) f = Inr f'"
  shows "let j = config_data T Y dat config f' in wired Y j \<and> declared Y EXCHANGES x j \<and>
     json_stringify (dig [''broker'', ''retry''] j) = json_stringify (retry_object (loadPrompts sh True) opt)"
proof -
  have doc: "yaml_document Y dat" using assms(1) by (simp add: config_tree_def)
  let ?R = "\<lambda>j. json_stringify (dig [''broker'', ''retry''] j) = json_stringify (retry_object (loadPrompts sh True) opt)"
  have d: "coalesce (er_declareDlx opt) True" using dlx(3) by (cases "er_declareDlx opt") auto
  have dec: "ensures dat (knows Y {}) (enable_retry Y sh opt) (\<lambda>_. knows Y {(EXCHANGES, x)})"
    using yaml_document.enable_retry_wired [OF doc, of sh opt] dlx d by simp
  have pol: "ensures dat (knows Y {}) (enable_retry Y sh opt) (\<lambda>_. ?R)"
    by (simp add: enable_retry_def scope or_ask_def Let_def split del: if_split)
      (rule ensures_seq [where R = "\<lambda>_. True"], simp add: ensures_def, rule ensures_seq [OF ensures_json [OF doc]], rule ensures_ret)
  have t: "ensures dat (knows Y {}) (enable_retry Y sh opt) (\<lambda>b j. b \<longrightarrow> knows Y {(EXCHANGES, x)} j \<and> ?R j)"
    by (rule ensures_post [OF ensures_conj [OF dec pol]]) simp
  have no: "fst (enable_retry Y sh opt d) \<noteq> Inr False" for d
    by (simp add: enable_retry_def scope or_ask_def Let_def ends_true split del: if_split)
  have "knows Y {(EXCHANGES, x)} (config_data T Y dat config f') \<and> ?R (config_data T Y dat config f')"
    using config_tree.run_command_ensures [OF assms(1,8) t assms(2) [folded knows_wired]] no by blast
  then show ?thesis by (simp add: knows_def Let_def)
qed

definition dlx_options :: enable_retry_options where
  "dlx_options = \<lparr>er_scope = Some ''broker'', er_maxAttempts = None, er_delayMs = None, er_onExhausted = None,
     er_deadLetterExchange = Some ''dlx'', er_deadLetterRoutingKey = None, er_declareDlx = None, er_dlxType = None, er_topic = None\<rparr>"

theorem retry_declares_dead_letter_witness:
  "\<exists>f'. run_command plain_tree plain_yaml None (enable_retry plain_yaml batch dlx_options) [] = Inr f' \<and>
     declared plain_yaml EXCHANGES ''dlx'' (config_data plain_tree plain_yaml (\<lambda>d. d) None f')"
proof -
  let ?r = "run_command plain_tree plain_yaml None (enable_retry plain_yaml batch dlx_options) []"
  have "\<not> (case ?r of Inl e \<Rightarrow> True | Inr f' \<Rightarrow> False)" by code_simp
  then obtain f' where r: "?r = Inr f'" by (cases ?r) auto
  have w: "wired plain_yaml (config_data plain_tree plain_yaml (\<lambda>d. d) None [])" by code_simp
  have o: "er_deadLetterExchange dlx_options = Some ''dlx''" "er_declareDlx dlx_options \<noteq> Some False"
    "retry_onExhausted dlx_options = ''dead-letter''" "er_scope dlx_options = Some ''broker''" by code_simp+
  from retry_declares_dead_letter [OF plain_tree.config_tree_axioms w o(1) _ o(2-4) r] r show ?thesis by (auto simp: Let_def)
qed

text \<open>the service name a publisher is configured with has no upper-case letter and no white space,
  whatever was typed, and normalizing it again changes nothing.\<close>

theorem service_name_normal:
  "filter (\<lambda>c. upper_case c \<or> is_space c) (normalizeToKebabOrSnakeCase s) = [] \<and>
   normalizeToKebabOrSnakeCase (normalizeToKebabOrSnakeCase s) = normalizeToKebabOrSnakeCase s"
proof -
  have lower: "\<not> upper_case (lower_char c)" for c
    by (auto simp: upper_case_def lower_char_def Let_def nat_of_char_less_256 of_char_of)
  have dash: "\<not> upper_case (CHR ''-'')" "\<not> is_space (CHR ''-'')" by code_simp+
  have clean: "\<forall>c \<in> set (normalizeToKebabOrSnakeCase s). \<not> upper_case c \<and> \<not> is_space c"
    using dash lower by (auto simp: normalizeToKebabOrSnakeCase_def to_lower_def)
  have drop: "dropWhile is_space u = u" if "\<forall>c \<in> set u. \<not> is_space c" for u using that by (cases u) auto
  have trim: "js_trim t = t" if "\<forall>c \<in> set t. \<not> is_space c" for t
    using drop [of t] drop [of "rev t"] that by (simp add: js_trim_def)
  have decamel: "decamelize t = t" if "\<forall>c \<in> set t. \<not> upper_case c" for t
    using that by (induction t rule: decamelize.induct) auto
  have low: "to_lower t = t" if "\<forall>c \<in> set t. \<not> upper_case c" for t
    using that unfolding to_lower_def by (intro map_idI) (auto simp: lower_char_def upper_case_def Let_def)
  have keep: "map (\<lambda>c. if is_space c then CHR ''-'' else c) t = t" if "\<forall>c \<in> set t. \<not> is_space c" for t
    using that by (intro map_idI) auto
  let ?n = "normalizeToKebabOrSnakeCase s"
  have "normalizeToKebabOrSnakeCase ?n = ?n"
    unfolding normalizeToKebabOrSnakeCase_def [of ?n] using clean by (simp add: trim decamel low keep)
  with clean show ?thesis by (auto simp: filter_empty_conv)
qed

section \<open>Where the schematics fall short\<close>

text \<open>\<open>add-metrics-topic\<close> on an empty configuration: the queue names an exchange nobody declares.\<close>

definition metrics_options :: add_metrics_topic_options where
  "metrics_options = \<lparr>am_topic = None, am_queue = None, am_exchange = None, am_messageTtl = None, am_maxLength = None,
     am_action = None, am_overwrite = False\<rparr>"

lemma metrics_topic_dangles: "\<not> wired plain_yaml (snd (add_metrics_topic plain_yaml batch metrics_options (JObj [])))"
  by code_simp

text \<open>\<open>add-exchange\<close> binds a queue by the type asked for, not by the declared one: to an exchange that is a
  topic exchange already, and that it does not overwrite, it binds a queue without a routing key.\<close>

definition rebind_options :: add_exchange_options where
  "rebind_options = \<lparr>ax_name = Some ''e'', ax_type = None, ax_createIfNotExists = JUndef, ax_durable = JUndef, ax_autoDelete = JUndef,
     ax_internal = JUndef, ax_withQueue = Some True, ax_queueName = Some ''q'', ax_routingKey = None, ax_overwrite = False\<rparr>"

definition topic_exchange_doc :: jval where
  "topic_exchange_doc = JObj [(''broker'', JObj [(''exchanges'', JArr [JObj [(''name'', JStr ''e''), (''type'', JStr ''topic'')]])])]"

lemma add_exchange_forgets_key:
  "let d = snd (add_exchange plain_yaml batch rebind_options topic_exchange_doc) in
   routingKeyRequired plain_yaml ''e'' d \<and>
   (case findSeqItemByKey plain_yaml QUEUES ''name'' ''q'' d of None \<Rightarrow> False
    | Some q \<Rightarrow> jget q ''exchange'' = JStr ''e'' \<and> jget q ''routingKey'' = JUndef)"
  by code_simp

text \<open>Overwriting a provider with another type keeps the fields of the old type.\<close>

definition to_basic :: add_auth_provider_options where
  "to_basic = \<lparr>ap_name = Some ''p'', ap_type = Some ''basic'', ap_headerPrefix = JUndef, ap_candidates = [(''clientId'', JStr ''c'')], ap_overwrite = True\<rparr>"

definition jwks_doc :: jval where
  "jwks_doc = JObj [(''auth-providers'', JArr [JObj [(''name'', JStr ''p''), (''type'', JStr ''jwks''), (''jwksUri'', JStr ''u'')]])]"

lemma provider_keeps_stray:
  "case findSeqItemByKey plain_yaml AUTH_PROVIDERS ''name'' ''p'' (snd (add_auth_provider plain_yaml batch to_basic jwks_doc)) of None \<Rightarrow> False
   | Some it \<Rightarrow> jget it ''type'' = JStr ''basic'' \<and> jget it ''jwksUri'' = JStr ''u''"
  by code_simp

text \<open>A section that is a map where a sequence is expected is discarded with its entries.\<close>

lemma wrong_shape_discarded:
  "dig TOPICS (snd (ensureSeqAt plain_yaml TOPICS (JObj [(''topics'', JObj [(''t'', JNull)])]))) = JArr []"
  by code_simp

text \<open>\<open>enable-retry\<close> replaces a policy that is there, with no \<open>--overwrite\<close>.\<close>

definition retry_doc :: jval where
  "retry_doc = JObj [(''broker'', JObj [(''retry'', JObj [(''maxAttempts'', JNum 9)])])]"

lemma retry_overwrites:
  "jget (dig [''broker'', ''retry''] (snd (enable_retry plain_yaml batch dlx_options retry_doc))) ''maxAttempts'' = JNum 5"
  by code_simp

end
