(* ===== verification/Js_Regex.thy ===== *)
theory Js_Regex
  imports Prelude
begin

text \<open>
  The part of JavaScript's regular expressions that the schematics edit source files with: a match is
  found by backtracking, the first position from the left and there the first way in the order
  of the alternatives. A way to match is the captured groups and the rest of the text; \<open>rx_run\<close> lists the ways in
  the order in which they are tried (a greedy star tries the longest run first).
\<close>

section \<open>Expressions and their matches\<close>

datatype rx =
    Lit string
  | Cls "char \<Rightarrow> bool"
  | Many "char \<Rightarrow> bool"
  | Cat rx rx
  | Opt rx
  | Group rx
  | LineEnd

definition line_feed :: "char \<Rightarrow> bool" where
  "line_feed c \<longleftrightarrow> c = CHR 0x0A \<or> c = CHR 0x0D"

text \<open>\<open>\w\<close>\<close>

definition ident_char :: "char \<Rightarrow> bool" where
  "ident_char c \<longleftrightarrow> (let n = of_char c :: nat in (48 \<le> n \<and> n \<le> 57) \<or> (65 \<le> n \<and> n \<le> 90) \<or> (97 \<le> n \<and> n \<le> 122) \<or> n = 95)"

definition quote_char :: "char \<Rightarrow> bool" where
  "quote_char c \<longleftrightarrow> c = CHR 0x27 \<or> c = CHR 0x22"

fun run_star :: "(char \<Rightarrow> bool) \<Rightarrow> string \<Rightarrow> string list" where
  "run_star p [] = [[]]"
| "run_star p (c # cs) = (if p c then run_star p cs else []) @ [c # cs]"

primrec rx_run :: "rx \<Rightarrow> string \<Rightarrow> (string list \<times> string) list" where
  "rx_run (Lit w) s = (if starts_with w s then [([], drop (length w) s)] else [])"
| "rx_run (Cls p) s = (case s of [] \<Rightarrow> [] | c # cs \<Rightarrow> if p c then [([], cs)] else [])"
| "rx_run (Many p) s = map (\<lambda>t. ([], t)) (run_star p s)"
| "rx_run (Cat a b) s = concat (map (\<lambda>(g, t). map (\<lambda>(h, u). (g @ h, u)) (rx_run b t)) (rx_run a s))"
| "rx_run (Opt a) s = rx_run a s @ [([], s)]"
| "rx_run (Group a) s = map (\<lambda>(g, t). (take (length s - length t) s # g, t)) (rx_run a s)"
| "rx_run LineEnd s = (if s = [] \<or> line_feed (hd s) then [([], s)] else [])"

fun cat_all :: "rx list \<Rightarrow> rx" where
  "cat_all [] = Lit []"
| "cat_all [r] = r"
| "cat_all (r # rs) = Cat r (cat_all rs)"

definition some_of :: "(char \<Rightarrow> bool) \<Rightarrow> rx" where
  "some_of p = Cat (Cls p) (Many p)"

text \<open>\<open>exec\<close> from the start of a text: the text before the match, the text from the match on, the groups, and
  the rest.\<close>

definition rx_at :: "rx \<Rightarrow> string \<Rightarrow> (string list \<times> string) option" where
  "rx_at r s = (case rx_run r s of [] \<Rightarrow> None | m # _ \<Rightarrow> Some m)"

fun rx_find :: "rx \<Rightarrow> string \<Rightarrow> (string \<times> string \<times> string list \<times> string) option" where
  "rx_find r [] = map_option (\<lambda>(g, t). ([], [], g, t)) (rx_at r [])"
| "rx_find r (c # cs) =
     (case rx_at r (c # cs) of
        Some (g, t) \<Rightarrow> Some ([], c # cs, g, t)
      | None \<Rightarrow> map_option (\<lambda>(pre, m, g, t). (c # pre, m, g, t)) (rx_find r cs))"

definition rx_matched :: "string \<Rightarrow> string \<Rightarrow> string" where
  "rx_matched from rest = take (length from - length rest) from"

section \<open>What a match is\<close>

lemma run_star_suffix: "t \<in> set (run_star p s) \<Longrightarrow> \<exists>x. s = x @ t \<and> (\<forall>c \<in> set x. p c)"
proof (induction p s rule: run_star.induct)
  case (2 p c cs)
  show ?case
  proof (cases "t = c # cs")
    case False
    with 2 have "p c" "t \<in> set (run_star p cs)" by (auto split: if_splits)
    with 2 obtain x where "cs = x @ t" "\<forall>c \<in> set x. p c" by auto
    with \<open>p c\<close> show ?thesis by (intro exI [of _ "c # x"]) simp
  qed auto
qed auto

lemma rx_run_suffix: "(g, t) \<in> set (rx_run r s) \<Longrightarrow> \<exists>x. s = x @ t"
proof (induction r arbitrary: s g t)
  case (Lit w)
  then show ?case by (auto simp: starts_with_iff split: if_splits)
next
  case (Cls p)
  then show ?case by (auto split: list.splits if_splits)
next
  case (Many p)
  then have "t \<in> set (run_star p s)" by auto
  from run_star_suffix [OF this] show ?case by blast
next
  case (Cat a b)
  then obtain g' t' h where "(g', t') \<in> set (rx_run a s)" "(h, t) \<in> set (rx_run b t')" by auto
  with Cat.IH obtain x y where "s = x @ t'" "t' = y @ t" by blast
  then show ?case by simp
next
  case (Opt a)
  then show ?case by auto
next
  case (Group a)
  then show ?case by auto
next
  case LineEnd
  then show ?case by (auto split: if_splits)
qed

lemma rx_at_mem: "rx_at r s = Some m \<Longrightarrow> m \<in> set (rx_run r s)"
  by (auto simp: rx_at_def split: list.splits)

lemma rx_at_None: "rx_at r s = None \<longleftrightarrow> rx_run r s = []"
  by (auto simp: rx_at_def split: list.splits)

lemma rx_find_Some: "rx_find r s = Some (pre, m, g, t) \<Longrightarrow> s = pre @ m \<and> rx_at r m = Some (g, t)"
  by (induction s arbitrary: pre) (auto split: option.splits)

lemma rx_find_split:
  assumes "rx_find r s = Some (pre, m, g, t)"
  shows "s = pre @ rx_matched m t @ t" and "m = rx_matched m t @ t"
proof -
  from rx_find_Some [OF assms] have s: "s = pre @ m" and "(g, t) \<in> set (rx_run r m)" by (auto dest: rx_at_mem)
  then obtain x where x: "m = x @ t" using rx_run_suffix by blast
  then show "m = rx_matched m t @ t" by (simp add: rx_matched_def)
  with s show "s = pre @ rx_matched m t @ t" by simp
qed

text \<open>An expression that avoids a character does not look past it: its matches on a text up to the character are its
  matches on the text before it.\<close>

primrec avoids :: "char \<Rightarrow> rx \<Rightarrow> bool" where
  "avoids c (Lit w) \<longleftrightarrow> c \<notin> set w"
| "avoids c (Cls p) \<longleftrightarrow> \<not> p c"
| "avoids c (Many p) \<longleftrightarrow> \<not> p c"
| "avoids c (Cat a b) \<longleftrightarrow> avoids c a \<and> avoids c b"
| "avoids c (Opt a) \<longleftrightarrow> avoids c a"
| "avoids c (Group a) \<longleftrightarrow> avoids c a"
| "avoids c LineEnd \<longleftrightarrow> False"

lemma starts_with_upto: "c \<notin> set w \<Longrightarrow> starts_with w (h @ c # u) \<longleftrightarrow> starts_with w h"
  by (induction w h rule: starts_with.induct) auto

lemma starts_with_length: "starts_with w s \<Longrightarrow> length w \<le> length s"
  by (auto simp: starts_with_iff)

lemma run_star_upto: "\<not> p c \<Longrightarrow> run_star p (h @ c # u) = map (\<lambda>x. x @ c # u) (run_star p h)"
  by (induction p h rule: run_star.induct) auto

lemma rx_run_upto:
  "avoids c r \<Longrightarrow> rx_run r (h @ c # u) = map (\<lambda>(g, x). (g, x @ c # u)) (rx_run r h)"
proof (induction r arbitrary: h)
  case (Lit w)
  then show ?case by (auto simp: starts_with_upto dest: starts_with_length)
next
  case (Cls p)
  then show ?case by (cases h) auto
next
  case (Many p)
  then show ?case by (simp add: run_star_upto)
next
  case (Cat a b)
  then show ?case by (simp add: map_concat comp_def case_prod_unfold)
next
  case (Opt a)
  then show ?case by simp
next
  case (Group a)
  have "take (length h - length x) (h @ c # u) = take (length h - length x) h" if "(g, x) \<in> set (rx_run a h)" for g x
    by simp
  with Group show ?case by (auto simp: case_prod_unfold)
next
  case LineEnd
  then show ?case by simp
qed

text \<open>A match that ends at the first occurrence of a character is found again, whatever follows the character.\<close>

definition stops :: "char \<Rightarrow> rx list \<Rightarrow> rx" where
  "stops c rs = cat_all (rs @ [Lit [c]])"

lemma stops_simps:
  "stops c [] = Lit [c]" "stops c (r # rs) = Cat r (stops c rs)"
  by (simp add: stops_def) (cases rs; simp add: stops_def)

lemma stops_run:
  assumes "\<forall>r \<in> set rs. avoids c r" and "c \<notin> set h"
  shows "\<exists>gs. \<forall>u. rx_run (stops c rs) (h @ c # u) = map (\<lambda>g. (g, u)) gs"
  using assms
proof (induction rs arbitrary: h)
  case Nil
  then show ?case by (cases h) (auto simp: stops_simps intro: exI [of _ "[]"] exI [of _ "[[]]"])
next
  case (Cons r rs)
  define Gs where "Gs x = (SOME gs. \<forall>u. rx_run (stops c rs) (x @ c # u) = map (\<lambda>g. (g, u)) gs)" for x
  have Gs: "rx_run (stops c rs) (x @ c # u) = map (\<lambda>g. (g, u)) (Gs x)" if "(g, x) \<in> set (rx_run r h)" for g x u
  proof -
    from rx_run_suffix [OF that] Cons.prems(2) have "c \<notin> set x" by auto
    with Cons have "\<exists>gs. \<forall>u. rx_run (stops c rs) (x @ c # u) = map (\<lambda>g. (g, u)) gs" by auto
    then show ?thesis unfolding Gs_def by (rule someI2_ex) simp
  qed
  have "rx_run (stops c (r # rs)) (h @ c # u) =
      map (\<lambda>g. (g, u)) (concat (map (\<lambda>(g, x). map ((@) g) (Gs x)) (rx_run r h)))" for u
  proof -
    have "map (\<lambda>(g, t). map (\<lambda>(h, u). (g @ h, u)) (rx_run (stops c rs) t)) (map (\<lambda>(g, x). (g, x @ c # u)) (rx_run r h)) =
        map (\<lambda>(g, x). map (\<lambda>g. (g, u)) (map ((@) g) (Gs x))) (rx_run r h)"
      by (auto simp: Gs)
    moreover have "rx_run r (h @ c # u) = map (\<lambda>(g, x). (g, x @ c # u)) (rx_run r h)"
      using Cons.prems(1) by (simp add: rx_run_upto)
    ultimately show ?thesis by (simp add: stops_simps map_concat comp_def case_prod_unfold cong: map_cong)
  qed
  then show ?case by blast
qed

lemma stops_at:
  assumes "\<forall>r \<in> set rs. avoids c r" and "c \<notin> set h"
  shows "\<exists>og. \<forall>u. rx_at (stops c rs) (h @ c # u) = map_option (\<lambda>g. (g, u)) og"
proof -
  from stops_run [OF assms] obtain gs where "\<And>u. rx_run (stops c rs) (h @ c # u) = map (\<lambda>g. (g, u)) gs" by blast
  then show ?thesis by (cases gs) (auto simp: rx_at_def intro: exI [of _ None] exI [of _ "Some (hd gs)"])
qed

lemma stops_at_needs:
  assumes "\<forall>r \<in> set rs. avoids c r" and "rx_at (stops c rs) s = Some (g, t)"
  shows "\<exists>h. s = h @ c # t \<and> c \<notin> set h"
proof -
  have "\<exists>h u. s = h @ c # u \<and> c \<notin> set h"
  proof (rule ccontr)
    assume "\<nexists>h u. s = h @ c # u \<and> c \<notin> set h"
    then have no: "c \<notin> set s" using split_list_first [of c s] by blast
    have "rx_run (stops c rs) s = []"
      using no
    proof (induction rs arbitrary: s)
      case Nil
      then show ?case by (cases s) (auto simp: stops_simps)
    next
      case (Cons r rs)
      have "rx_run (stops c rs) x = []" if "(g, x) \<in> set (rx_run r s)" for g x
        using rx_run_suffix [OF that] Cons by auto
      then show ?case by (auto simp: stops_simps)
    qed
    with assms(2) show False by (simp add: rx_at_def)
  qed
  then obtain h u where s: "s = h @ c # u" "c \<notin> set h" by blast
  with stops_at [OF assms(1), of h] assms(2) have "u = t" by auto
  with s show ?thesis by blast
qed

lemma stops_find_again:
  assumes rs: "\<forall>r \<in> set rs. avoids c r" and "rx_find (stops c rs) s = Some (pre, m, g, t)"
  shows "\<exists>h. m = h @ c # t \<and> c \<notin> set h \<and> (\<forall>u. rx_find (stops c rs) (pre @ h @ c # u) = Some (pre, h @ c # u, g, u))"
  using assms(2)
proof (induction pre arbitrary: s)
  case Nil
  from rx_find_Some [OF Nil] have "s = m" and at: "rx_at (stops c rs) m = Some (g, t)" by auto
  from stops_at_needs [OF rs at] obtain h where h: "m = h @ c # t" "c \<notin> set h" by blast
  with stops_at [OF rs h(2)] at have again: "rx_at (stops c rs) (h @ c # u) = Some (g, u)" for u by (metis (no_types, lifting) Pair_inject map_option_eq_Some)
  have "rx_find (stops c rs) (h @ c # u) = Some ([], h @ c # u, g, u)" for u
    using again [of u] by (cases "h @ c # u") auto
  with h show ?case by auto
next
  case (Cons a pre)
  from rx_find_Some [OF Cons.prems] have s: "s = a # pre @ m" by simp
  with Cons.prems have none: "rx_at (stops c rs) (a # pre @ m) = None" and "rx_find (stops c rs) (pre @ m) = Some (pre, m, g, t)"
    by (auto split: option.splits)
  from Cons.IH [OF this(2)] obtain h where h: "m = h @ c # t" "c \<notin> set h"
    and again: "\<And>u. rx_find (stops c rs) (pre @ h @ c # u) = Some (pre, h @ c # u, g, u)" by blast
  have "rx_at (stops c rs) (a # pre @ h @ c # u) = None" for u
  proof -
    obtain x y where xy: "a # pre @ h @ [c] = x @ c # y" "c \<notin> set x" using split_list_first [of c "a # pre @ h @ [c]"] by auto
    then have eq: "a # pre @ h @ c # v = x @ c # y @ v" for v by (metis append.assoc append_Cons append_Nil)
    from stops_at [OF rs xy(2)] none show ?thesis unfolding h(1) eq by (metis (no_types, lifting) map_option_is_None)
  qed
  with again h show ?case by simp
qed

section \<open>Words in a text\<close>

lemma includes_iff: "str_includes w s \<longleftrightarrow> (\<exists>a b. s = a @ w @ b)"
proof (induction w s rule: str_includes.induct)
  case (1 w)
  then show ?case by auto
next
  case (2 w x xs)
  have "(\<exists>a b. x # xs = a @ w @ b) \<longleftrightarrow> (\<exists>b. x # xs = w @ b) \<or> (\<exists>a b. xs = a @ w @ b)"
  proof
    assume "\<exists>a b. x # xs = a @ w @ b"
    then obtain a b where "x # xs = a @ w @ b" by blast
    then show "(\<exists>b. x # xs = w @ b) \<or> (\<exists>a b. xs = a @ w @ b)" by (cases a) auto
  next
    assume "(\<exists>b. x # xs = w @ b) \<or> (\<exists>a b. xs = a @ w @ b)"
    then show "\<exists>a b. x # xs = a @ w @ b" by (metis append_Cons append_Nil)
  qed
  with 2 show ?case by (simp add: starts_with_iff)
qed

definition plain_char :: "char \<Rightarrow> bool" where
  "plain_char c \<longleftrightarrow> ident_char c \<or> c = CHR ''@'' \<or> c = CHR ''.'' \<or> c = CHR ''/'' \<or> c = CHR ''-''"

definition plain_word :: "string \<Rightarrow> bool" where
  "plain_word w \<longleftrightarrow> w \<noteq> [] \<and> list_all plain_char w"

definition solid :: "string \<Rightarrow> bool" where
  "solid w \<longleftrightarrow> w \<noteq> [] \<and> \<not> is_space (hd w) \<and> \<not> is_space (last w)"

lemma plain_not:
  "\<not> plain_char (CHR ''['')" "\<not> plain_char (CHR '']'')" "\<not> plain_char (CHR ''{'')" "\<not> plain_char (CHR ''}'')"
  "\<not> plain_char (CHR '','')" "\<not> plain_char (CHR '';'')" "\<not> plain_char (CHR '' '')" "\<not> plain_char (CHR 0x0A)"
  by (simp_all add: plain_char_def ident_char_def)

lemma quote_not_plain: "quote_char c \<Longrightarrow> \<not> plain_char c"
  by (auto simp: quote_char_def plain_char_def ident_char_def)

lemma space_not_plain: "is_space c \<Longrightarrow> \<not> plain_char c"
  by (auto simp: is_space_def plain_char_def ident_char_def Let_def)

lemma line_feed_not_plain: "line_feed c \<Longrightarrow> \<not> plain_char c"
  by (auto simp: line_feed_def plain_char_def ident_char_def)

lemma plain_solid: "plain_word w \<Longrightarrow> solid w"
  using space_not_plain [of "hd w"] space_not_plain [of "last w"] by (auto simp: plain_word_def solid_def list_all_iff)

lemma includes_append: "str_includes w x \<Longrightarrow> str_includes w (a @ x @ b)"
proof -
  assume "str_includes w x"
  then obtain u v where "x = u @ w @ v" unfolding includes_iff by blast
  then have "a @ x @ b = (a @ u) @ w @ (v @ b)" by simp
  then show ?thesis unfolding includes_iff by blast
qed

lemma includes_left: "str_includes w x \<Longrightarrow> str_includes w (x @ b)" using includes_append [of w x "[]" b] by simp
lemma includes_right: "str_includes w x \<Longrightarrow> str_includes w (a @ x)" using includes_append [of w x a "[]"] by simp
lemma includes_self: "str_includes w w" unfolding includes_iff by (intro exI [of _ "[]"]) simp

text \<open>A word does not cross a place where one of the two characters is not a word's.\<close>

definition gap :: "string \<Rightarrow> string \<Rightarrow> bool" where
  "gap x y \<longleftrightarrow> x = [] \<or> y = [] \<or> \<not> plain_char (last x) \<or> \<not> plain_char (hd y)"

lemma word_in_append:
  assumes "plain_word w" and "gap x y" and "str_includes w (x @ y)"
  shows "str_includes w x \<or> str_includes w y"
proof -
  from assms(3) obtain a b where ab: "x @ y = a @ w @ b" unfolding includes_iff by blast
  then consider us where "a = x @ us" "us @ w @ b = y" | us where "x = a @ us" "us @ y = w @ b"
    by (auto simp: append_eq_append_conv2)
  then show ?thesis
  proof cases
    case 1
    then show ?thesis unfolding includes_iff by blast
  next
    case 2
    from 2(2) consider vs where "us = w @ vs" | vs where "w = us @ vs" "vs @ b = y"
      by (auto simp: append_eq_append_conv2)
    then show ?thesis
    proof cases
      case 1
      with 2 show ?thesis unfolding includes_iff by auto
    next
      case 3: 2
      have "us = [] \<or> vs = []"
      proof (rule ccontr)
        assume ne: "\<not> (us = [] \<or> vs = [])"
        have "last x = last us" "hd y = hd vs" "x \<noteq> []" "y \<noteq> []" using 2 3 ne by auto
        moreover have "plain_char (last us)" "plain_char (hd vs)"
          using assms(1) 3 ne by (auto simp: plain_word_def list_all_iff)
        ultimately show False using assms(2) by (simp add: gap_def)
      qed
      with 2 3 show ?thesis unfolding includes_iff by (metis append_Nil append_Nil2)
    qed
  qed
qed

lemma word_in_middle:
  assumes "plain_word w" and "str_includes w (x @ y @ z)" and "gap x (y @ z)" and "gap y z"
  shows "str_includes w x \<or> str_includes w y \<or> str_includes w z"
  using word_in_append [OF assms(1) assms(3) assms(2)] word_in_append [OF assms(1) assms(4)] by blast

lemma drop_space_parts: "\<exists>a. s = a @ dropWhile is_space s \<and> (\<forall>c \<in> set a. is_space c)"
  by (intro exI [of _ "takeWhile is_space s"]) (auto dest: set_takeWhileD)

lemma trim_parts: "\<exists>a b. s = a @ js_trim s @ b \<and> (\<forall>c \<in> set a. is_space c) \<and> (\<forall>c \<in> set b. is_space c)"
proof -
  from drop_space_parts [of s] obtain a where a: "s = a @ dropWhile is_space s" "\<forall>c \<in> set a. is_space c" by blast
  from drop_space_parts [of "rev (dropWhile is_space s)"] obtain b
    where b: "rev (dropWhile is_space s) = b @ rev (js_trim s)" "\<forall>c \<in> set b. is_space c" by (auto simp: js_trim_def)
  from b(1) have "dropWhile is_space s = js_trim s @ rev b" by (metis rev_append rev_rev_ident)
  with a(1) have core: "s = a @ js_trim s @ rev b" by (rule back_subst)
  have "\<forall>c \<in> set (rev b). is_space c" using b(2) by simp
  with core a(2) show ?thesis by (intro exI [of _ a] exI [of _ "rev b"] conjI)
qed

lemma solid_in_core:
  assumes "solid w" and inc: "str_includes w (a @ t @ b)" and sp: "\<forall>c \<in> set a. is_space c" "\<forall>c \<in> set b. is_space c"
  shows "str_includes w t"
proof -
  have w: "w \<noteq> []" "\<not> is_space (hd w)" "\<not> is_space (last w)" using assms(1) by (auto simp: solid_def)
  from inc obtain u v where "a @ t @ b = u @ w @ v" unfolding includes_iff by blast
  then consider us where "u = a @ us" "us @ w @ v = t @ b" | us where "a = u @ us" "us @ t @ b = w @ v" "us \<noteq> []"
    unfolding append_eq_append_conv2 [of a "t @ b" u] by (metis append_Nil2 append_Nil)
  then obtain u' where u': "u' @ w @ v = t @ b"
  proof cases
    case 2
    then have "hd us = hd w" using w(1) by (metis hd_append2)
    with 2 sp(1) w(2) hd_in_set [of us] show ?thesis by auto
  qed (use that in blast)
  then have "(u' @ w) @ v = t @ b" by simp
  then consider vs where "t = (u' @ w) @ vs" | vs where "u' @ w = t @ vs" "vs @ v = b" "vs \<noteq> []"
    unfolding append_eq_append_conv2 [of "u' @ w" v] by (metis append_Nil2 append_Nil)
  then show ?thesis
  proof cases
    case 1
    then show ?thesis unfolding includes_iff by auto
  next
    case 2
    then have "last vs = last w" using w(1) by (metis last_append)
    with 2 sp(2) w(3) last_in_set [of vs] show ?thesis by auto
  qed
qed

lemma includes_trim: "solid w \<Longrightarrow> str_includes w s \<Longrightarrow> str_includes w (js_trim s)"
  using trim_parts [of s] solid_in_core [of w _ "js_trim s"] by metis

end
