(* ===== verification/Module_Wiring.thy ===== *)
theory Module_Wiring
  imports Js_Regex Config_Schematics
begin

text \<open>
  The editing of an application's sources by \<open>add-gateway\<close>, \<open>nest-add\<close> and \<open>harden-gateway\<close>:
  \<open>schematics/utils/nest-wiring.util.ts\<close>, \<open>schematics/add-gateway/wiring.ts\<close>, step 8 of
  \<open>schematics/add-gateway/index.ts\<close>, \<open>schematics/nest-add/index.ts\<close> and \<open>patchMainTs\<close> of
  \<open>schematics/harden-gateway/index.ts\<close>. A source file is its text; the regular expressions are those of the code,
  with the matching of \<open>Js_Regex\<close>; the tree of files is the contract \<open>file_tree\<close> of \<open>Config_Yaml\<close>. The package
  file is its parsed value, and the log lines and the copied asset files are left out.
\<close>

section \<open>Finding the files\<close>

definition APP_MODULE_CANDIDATES :: "string list" where
  "APP_MODULE_CANDIDATES = [''/src/app.module.ts'', ''/app/app.module.ts'', ''src/app.module.ts'', ''app/app.module.ts'']"

definition MAIN_CANDIDATES :: "string list" where
  "MAIN_CANDIDATES = [''/src/main.ts'', ''/app/main.ts'', ''src/main.ts'', ''app/main.ts'']"

definition findFileInTree :: "('f, 't) tree_lib \<Rightarrow> string \<Rightarrow> 'f \<Rightarrow> string option" where
  "findFileInTree T fileName f = find (ends_with (CHR ''/'' # fileName)) (tr_paths T f)"

definition findCandidate :: "('f, 't) tree_lib \<Rightarrow> string list \<Rightarrow> string \<Rightarrow> 'f \<Rightarrow> string option" where
  "findCandidate T candidates fileName f =
     (case find (\<lambda>p. tr_exists T p f) candidates of Some p \<Rightarrow> Some p | None \<Rightarrow> findFileInTree T fileName f)"

definition findAppModule :: "('f, 't) tree_lib \<Rightarrow> 'f \<Rightarrow> string option" where
  "findAppModule T f = findCandidate T APP_MODULE_CANDIDATES ''app.module.ts'' f"

definition findMainTs :: "('f, 't) tree_lib \<Rightarrow> 'f \<Rightarrow> string option" where
  "findMainTs T f = findCandidate T MAIN_CANDIDATES ''main.ts'' f"

section \<open>Imports\<close>

abbreviation nl :: char where "nl \<equiv> CHR 0x0A"

text \<open>\<open>/^import\s+.+from\s+['"][^'"]+['"];?\s*$/gm\<close>, without the \<open>^\<close>, which the loop looks after.\<close>

definition importRx :: rx where
  "importRx = cat_all [Lit ''import'', some_of is_space, some_of (\<lambda>c. \<not> line_feed c), Lit ''from'', some_of is_space,
     Cls quote_char, some_of (\<lambda>c. \<not> quote_char c), Cls quote_char, Opt (Lit '';''), Many is_space, LineEnd]"

text \<open>The loop of \<open>findLastImportEndIndex\<close>: at a position, whether a line starts there, and the text after the
  last match so far.\<close>

function importLoop :: "bool \<Rightarrow> string \<Rightarrow> string \<Rightarrow> string" where
  "importLoop bol [] after = after"
| "importLoop bol (c # cs) after =
     (case (if bol then rx_at importRx (c # cs) else None) of
        None \<Rightarrow> importLoop (line_feed c) cs after
      | Some (g, t) \<Rightarrow>
          if length t < Suc (length cs) then importLoop (line_feed (last (rx_matched (c # cs) t))) t t else after)"
  by pat_completeness auto
termination by (relation "measure (\<lambda>(b, s, r). length s)") auto

definition findLastImportEndIndex :: "string \<Rightarrow> nat" where
  "findLastImportEndIndex source = length source - length (importLoop True source source)"

definition insert_at :: "nat \<Rightarrow> string \<Rightarrow> string \<Rightarrow> string" where
  "insert_at pos w s = take pos s @ w @ drop pos s"

text \<open>\<open>/import\s*\{([^}]*)\}\s*from\s*['"]@open-rlb\/nestjs-amqp['"];?/\<close>\<close>

definition LIB :: string where "LIB = ''@open-rlb/nestjs-amqp''"

definition libImportRx :: rx where
  "libImportRx = cat_all [Lit ''import'', Many is_space, Lit ''{'', Group (Many (\<lambda>c. c \<noteq> CHR ''}'')), Lit ''}'', Many is_space,
     Lit ''from'', Many is_space, Cls quote_char, Lit LIB, Cls quote_char, Opt (Lit '';'')]"

definition libImportLine :: "string list \<Rightarrow> string" where
  "libImportLine names = ''import { '' @ js_join '', '' names @ '' } from '' @ quoted LIB @ '';''"

definition namesIn :: "string \<Rightarrow> string list" where
  "namesIn g = filter (\<lambda>w. w \<noteq> []) (map js_trim (js_split (CHR '','') g))"

definition ensureLibImport :: "string \<Rightarrow> string list \<Rightarrow> string" where
  "ensureLibImport source symbols =
     (case rx_find libImportRx source of
        Some (pre, m, g, t) \<Rightarrow> pre @ libImportLine (sort (dedup (namesIn (hd g) @ symbols))) @ t
      | None \<Rightarrow> insert_at (findLastImportEndIndex source) (nl # libImportLine (sort (dedup symbols))) source)"

record import_line =
  il_line :: string
  il_marker :: string

definition ensureImportLine :: "string \<Rightarrow> import_line \<Rightarrow> string" where
  "ensureImportLine source i =
     (if str_includes (il_marker i) source then source
      else insert_at (findLastImportEndIndex source) (nl # il_line i) source)"

section \<open>The imports of a module\<close>

text \<open>\<open>/imports\s*:\s*\[/\<close>\<close>

definition importsRx :: rx where
  "importsRx = stops (CHR ''['') [Lit ''imports'', Many is_space, Lit '':'', Many is_space]"

text \<open>The scan for the closing bracket, inside \<open>d\<close> open ones: the text before it and the text from it on.\<close>

fun closeAt :: "nat \<Rightarrow> string \<Rightarrow> (string \<times> string) option" where
  "closeAt d [] = None"
| "closeAt d (c # cs) =
     (if c = CHR ''['' then map_option (\<lambda>(x, y). (c # x, y)) (closeAt (Suc d) cs)
      else if c = CHR '']'' then (if d = 1 then Some ([], c # cs) else map_option (\<lambda>(x, y). (c # x, y)) (closeAt (d - 1) cs))
      else map_option (\<lambda>(x, y). (c # x, y)) (closeAt d cs))"

definition newArrayContent :: "string \<Rightarrow> string \<Rightarrow> string" where
  "newArrayContent moduleEntry arrayContent =
     (if arrayContent = [] then nl # ''    '' @ moduleEntry @ '','' @ nl # ''  ''
      else nl # ''    '' @ moduleEntry @ '','' @ nl # ''    '' @ arrayContent @ nl # ''  '')"

definition insertIntoImportsArray :: "string \<Rightarrow> string \<Rightarrow> string" where
  "insertIntoImportsArray source moduleEntry =
     (case rx_find importsRx source of
        None \<Rightarrow> source
      | Some (pre, m, g, t) \<Rightarrow>
          let upto = takeWhile (\<lambda>c. c \<noteq> CHR ''['') m; body = drop (Suc (length upto)) m in
          (case closeAt 1 body of
             None \<Rightarrow> source
           | Some (content, close) \<Rightarrow> pre @ upto @ [CHR ''[''] @ newArrayContent moduleEntry (js_trim content) @ close))"

record wire_entry =
  we_code :: string
  we_sentinel :: string

record wire_options =
  wo_libSymbols :: "string list"
  wo_importLines :: "import_line list"
  wo_entries :: "wire_entry list"

definition wireImports :: "wire_options \<Rightarrow> string \<Rightarrow> string" where
  "wireImports opts source = fold (\<lambda>i s. ensureImportLine s i) (wo_importLines opts) (ensureLibImport source (wo_libSymbols opts))"

definition entriesToAdd :: "wire_options \<Rightarrow> string \<Rightarrow> wire_entry list" where
  "entriesToAdd opts content = filter (\<lambda>e. \<not> str_includes (we_sentinel e) content) (wo_entries opts)"

definition wireContent :: "wire_options \<Rightarrow> string \<Rightarrow> string" where
  "wireContent opts source =
     (let content = wireImports opts source
      in fold (\<lambda>e s. insertIntoImportsArray s (we_code e)) (rev (entriesToAdd opts content)) content)"

definition wireAppModule :: "('f, string) tree_lib \<Rightarrow> wire_options \<Rightarrow> 'f \<Rightarrow> string option \<times> 'f" where
  "wireAppModule T opts f =
     (case findAppModule T f of
        None \<Rightarrow> (None, f)
      | Some path \<Rightarrow> (Some path, tr_overwrite T path (wireContent opts (tr_read T path f)) f))"

section \<open>The core wiring\<close>

definition entry :: "string \<Rightarrow> string \<Rightarrow> wire_entry" where
  "entry code sentinel = \<lparr>we_code = code, we_sentinel = sentinel\<rparr>"

definition import_from :: "string \<Rightarrow> string \<Rightarrow> import_line" where
  "import_from what path = \<lparr>il_line = ''import '' @ what @ '' from '' @ quoted path @ '';'', il_marker = path\<rparr>"

definition coreLibSymbols :: "string list" where
  "coreLibSymbols = [''AppConfig'', ''BrokerModule'', ''BrokerTopic'', ''RabbitMQConfig'']"

definition coreImportLines :: "import_line list" where
  "coreImportLines =
     [import_from ''{ ConfigModule, ConfigService }'' ''@nestjs/config'', import_from ''yamlConfig'' ''./config/config.loader'']"

definition configModuleEntry :: wire_entry where
  "configModuleEntry = entry ''ConfigModule.forRoot({ isGlobal: true, load: [yamlConfig] })'' ''ConfigModule.forRoot''"

definition lines :: "string list \<Rightarrow> string" where
  "lines ls = js_join [nl] ls"

definition brokerModuleEntry :: wire_entry where
  "brokerModuleEntry = entry (lines
     [''BrokerModule.forRootAsync({'',
      ''      imports: [ConfigModule],'',
      ''      inject: [ConfigService],'',
      ''      useFactory: async (configService: ConfigService) => ({'',
      ''        options: configService.get<RabbitMQConfig>('' @ quoted ''broker'' @ '')!,'',
      ''        topics: configService.get<BrokerTopic[]>('' @ quoted ''topics'' @ '')!,'',
      ''        appOptions: configService.get<AppConfig>('' @ quoted ''app'' @ ''),'',
      ''      })'',
      ''    })'']) ''BrokerModule.forRootAsync''"

definition CONFIG_LOADER_PATH :: string where
  "CONFIG_LOADER_PATH = ''src/config/config.loader.ts''"

definition CONFIG_LOADER :: string where
  "CONFIG_LOADER = lines
     [''import { readFileSync } from '' @ quoted ''fs'' @ '';'',
      ''import * as yaml from '' @ quoted ''js-yaml'' @ '';'',
      ''import { join } from '' @ quoted ''path'' @ '';'',
      [],
      ''const YAML_CONFIG_FILENAME = '' @ quoted ''config/config.yaml'' @ '';'',
      [],
      ''export default () =>'',
      ''  yaml.load(readFileSync(join(process.cwd(), YAML_CONFIG_FILENAME), '' @ quoted ''utf8'' @ '')) as Record<string, any>;'',
      []]"

definition createConfigLoader :: "('f, string) tree_lib \<Rightarrow> 'f \<Rightarrow> 'f" where
  "createConfigLoader T f =
     (if tr_exists T CONFIG_LOADER_PATH f then f else tr_create T CONFIG_LOADER_PATH CONFIG_LOADER f)"

section \<open>main.ts\<close>

text \<open>The call of \<open>NestFactory.create\<close>, as \<open>configureMainForGateway\<close> and as \<open>patchMainTs\<close> look for it.\<close>

definition assigned :: "rx list" where
  "assigned = [Lit ''const'', some_of is_space, Group (some_of ident_char), Many is_space, Lit ''='', Many is_space, Lit ''await'',
     some_of is_space, Lit ''NestFactory.create'']"

definition callOptions :: rx where
  "callOptions = Opt (cat_all [Lit '','', Many is_space, Lit ''{'', Many (\<lambda>c. c \<noteq> CHR ''}''), Lit ''}''])"

definition createRx :: rx where
  "createRx = cat_all (assigned @ [Many (\<lambda>c. c \<noteq> CHR ''(''), Lit ''('', Many is_space, Group (some_of ident_char), Many is_space,
     callOptions, Many is_space, Lit '')'', Many is_space, Opt (Lit '';'')])"

definition patchRx :: rx where
  "patchRx = cat_all (assigned @ [Opt (cat_all [Lit ''<'', Many (\<lambda>c. c \<noteq> CHR ''>''), Lit ''>'']), Lit ''('', Many is_space,
     some_of ident_char, Many is_space, callOptions, Many is_space, Lit '')'', Many is_space, Opt (Lit '';'')])"

text \<open>\<open>content.replace(old, new)\<close>: the first occurrence; the new text has no \<open>$\<close>, as its names are \<open>\w+\<close>.\<close>

fun replaceFirst :: "string \<Rightarrow> string \<Rightarrow> string \<Rightarrow> string" where
  "replaceFirst old new [] = (if old = [] then new else [])"
| "replaceFirst old new (c # cs) =
     (if starts_with old (c # cs) then new @ drop (length old) (c # cs) else c # replaceFirst old new cs)"

definition createdApp :: "string \<Rightarrow> string \<Rightarrow> string" where
  "createdApp appVar moduleArg = lines
     [''const '' @ appVar @ '' = await NestFactory.create('' @ moduleArg @ '', { rawBody: true });'',
      ''  '' @ appVar @ ''.useWebSocketAdapter(new WsAdapter('' @ appVar @ ''));'',
      ''  '' @ appVar @ ''.enableShutdownHooks();'']"

definition configureMain :: "string \<Rightarrow> string" where
  "configureMain source =
     (if str_includes ''WsAdapter'' source then source
      else let content = ensureImportLine source (import_from ''{ WsAdapter }'' ''@nestjs/platform-ws'') in
        (case rx_find createRx content of
           None \<Rightarrow> content
         | Some (pre, m, g, t) \<Rightarrow> replaceFirst (rx_matched m t) (createdApp (g ! 0) (g ! 1)) content))"

definition configureMainForGateway :: "('f, string) tree_lib \<Rightarrow> 'f \<Rightarrow> bool \<times> 'f" where
  "configureMainForGateway T f =
     (case findMainTs T f of
        None \<Rightarrow> (False, f)
      | Some path \<Rightarrow>
          (True, if str_includes ''WsAdapter'' (tr_read T path f) then f
                 else tr_overwrite T path (configureMain (tr_read T path f)) f))"

definition bodyParserBlock :: "string \<Rightarrow> string" where
  "bodyParserBlock app = [nl, nl] @ lines
     [''  const gateway = '' @ app @ ''.get(ConfigService).get<GatewayConfig>('' @ quoted ''gateway'' @ '');'',
      ''  if (gateway?.maxBodyBytes) {'',
      ''    '' @ app @ ''.useBodyParser('' @ quoted ''json'' @ '', { limit: gateway.maxBodyBytes });'',
      ''    '' @ app @ ''.useBodyParser('' @ quoted ''urlencoded'' @ '', { extended: true, limit: gateway.maxBodyBytes });'',
      ''  }'']"

definition parserImports :: "string \<Rightarrow> string" where
  "parserImports content =
     (if str_includes ''ConfigService'' content then [] else nl # il_line (import_from ''{ ConfigService }'' ''@nestjs/config'')) @
     (if str_includes ''GatewayConfig'' content then [] else nl # il_line (import_from ''{ GatewayConfig }'' LIB))"

definition patchMain :: "string \<Rightarrow> string" where
  "patchMain source =
     (if str_includes ''useBodyParser'' source then source
      else let importAdds = parserImports source;
               content = (if importAdds = [] then source else insert_at (findLastImportEndIndex source) importAdds source) in
        (case rx_find patchRx content of
           None \<Rightarrow> content
         | Some (pre, m, g, t) \<Rightarrow> pre @ rx_matched m t @ bodyParserBlock (g ! 0) @ t))"

definition patchMainTs :: "('f, string) tree_lib \<Rightarrow> 'f \<Rightarrow> 'f" where
  "patchMainTs T f =
     (case findMainTs T f of
        None \<Rightarrow> f
      | Some path \<Rightarrow> if str_includes ''useBodyParser'' (tr_read T path f) then f
                     else tr_overwrite T path (patchMain (tr_read T path f)) f)"

text \<open>The end of \<open>harden-gateway\<close>: the patch, when a body limit was given and patching is on.\<close>

definition harden_main :: "('f, string) tree_lib \<Rightarrow> harden_gateway_options \<Rightarrow> bool option \<Rightarrow> 'f \<Rightarrow> 'f" where
  "harden_main T opt patch f = (if hg_maxBodyBytes opt \<noteq> JUndef \<and> coalesce patch True then patchMainTs T f else f)"

text \<open>\<open>addDeps\<close>, from the parsed package file to the value that is written.\<close>

definition addDep :: "string \<times> string \<Rightarrow> jval \<Rightarrow> jval" where
  "addDep d pkg =
     (if truthy (jget (jget pkg ''dependencies'') (fst d)) then pkg
      else jset pkg ''dependencies'' (jset (jget pkg ''dependencies'') (fst d) (JStr (snd d))))"

definition addDeps :: "(string \<times> string) list \<Rightarrow> jval \<Rightarrow> jval" where
  "addDeps deps pkg =
     fold addDep deps (if truthy (jget pkg ''dependencies'') then pkg else jset pkg ''dependencies'' (JObj []))"

section \<open>The wiring of a gateway\<close>

record gw_features =
  gf_acl :: bool
  gf_admin :: bool
  gf_routeReception :: bool
  gf_routeExchange :: string
  gf_routeQueue :: string

definition resolveFeatures :: "add_gateway_options \<Rightarrow> gw_features" where
  "resolveFeatures opt =
     \<lparr>gf_acl = coalesce (ag_acl opt) True, gf_admin = coalesce (ag_admin opt) True,
      gf_routeReception = coalesce (ag_routeReception opt) True,
      gf_routeExchange = or_ask (ag_routeExchange opt) ''rlb-route-discovery'',
      gf_routeQueue = or_ask (ag_routeQueue opt) ''rlb-route-sync''\<rparr>"

definition gf_any :: "gw_features \<Rightarrow> bool" where
  "gf_any f \<longleftrightarrow> gf_admin f \<or> gf_routeReception f"

definition libSymbols :: "gw_features \<Rightarrow> string list" where
  "libSymbols f =
     [''AppConfig'', ''BrokerModule'', ''BrokerTopic'', ''GatewayConfig'', ''HandlerAuthConfig'', ''ProxyModule'', ''RabbitMQConfig''] @
     (if gf_acl f then [''AclActionRepository'', ''AclGrantRepository'', ''AclModule'', ''AclRoleRepository'', ''AclService'',
        ''RLB_ACL_CACHE_STORE'', ''RLB_GTW_ACL_ROLE_SERVICE''] else []) @
     (if gf_any f then [''AuthProviderRepository'', ''GatewayAdminModule'', ''HttpMetricRepository'', ''HttpPathRepository'',
        ''RouteSyncLogRepository''] else []) @
     (if gf_admin f then [''RLB_GTW_AUTH_PROVIDER_SOURCE''] else [])"

definition importLines :: "gw_features \<Rightarrow> import_line list" where
  "importLines f =
     [import_from ''{ ConfigModule, ConfigService }'' ''@nestjs/config'', import_from ''yamlConfig'' ''./config/config.loader'',
      import_from ''{ HttpModule }'' ''@nestjs/axios''] @
     (if gf_acl f then
        [import_from ''{ InMemoryAclActionRepository, InMemoryAclGrantRepository, InMemoryAclRoleRepository }''
           ''./modules/database/repository/acl.repository'',
         import_from ''{ InMemoryAclStore }'' ''./cache/in-memory-acl-store''] else []) @
     (if gf_any f then
        [import_from ''{ InMemoryAuthProviderRepository, InMemoryHttpMetricRepository, InMemoryHttpPathRepository }''
           ''./modules/database/repository/gateway.repository'',
         import_from ''{ InMemoryRouteSyncLogRepository }'' ''./modules/database/repository/route-sync.repository''] else [])"

definition GATEWAY_SENTINEL :: string where "GATEWAY_SENTINEL = ''ProxyModule.forRootAsync''"

definition proxyProviders :: "gw_features \<Rightarrow> string list" where
  "proxyProviders f =
     (if gf_acl f then [lines
        [''        // Action-gated paths resolve the caller'' @ [CHR 0x27] @ ''s identity via AclService (in-process, no broker hop).'',
         ''        { provide: RLB_GTW_ACL_ROLE_SERVICE, useExisting: AclService },'']] else []) @
     (if gf_admin f then [lines
        [''        // DB auth-provider source for the runtime registry; activated by a deliberate gw-auth-reload.'',
         ''        { provide: RLB_GTW_AUTH_PROVIDER_SOURCE, useExisting: InMemoryAuthProviderRepository },'']] else [])"

definition proxyForRootAsync :: "gw_features \<Rightarrow> string" where
  "proxyForRootAsync f =
     (let provs = proxyProviders f;
          providers = (if provs \<noteq> [] then ''['' @ nl # lines provs @ nl # ''      ]'' else ''[]'')
      in lines
        [''ProxyModule.forRootAsync({'',
         ''      imports: [ConfigModule],'',
         ''      inject: [ConfigService],'',
         ''      useFactory: (configService: ConfigService) => ({'',
         ''        authOptions: configService.get<HandlerAuthConfig[]>('' @ quoted ''auth-providers'' @ ''),'',
         ''        gatewayOptions: configService.get<GatewayConfig>('' @ quoted ''gateway'' @ ''),'',
         ''      }),'',
         ''      providers: '' @ providers @ '','',
         ''    })''])"

definition aclForRoot :: string where
  "aclForRoot = lines
     [''AclModule.forRoot('',
      ''      ['',
      ''        InMemoryAclActionRepository,'',
      ''        { provide: AclActionRepository, useExisting: InMemoryAclActionRepository },'',
      ''        InMemoryAclRoleRepository,'',
      ''        { provide: AclRoleRepository, useExisting: InMemoryAclRoleRepository },'',
      ''        InMemoryAclGrantRepository,'',
      ''        { provide: AclGrantRepository, useExisting: InMemoryAclGrantRepository },'',
      ''        InMemoryAclStore,'',
      ''        { provide: RLB_ACL_CACHE_STORE, useExisting: InMemoryAclStore },'',
      ''      ],'',
      ''      { cache: { ramTtlMs: 30000, l2TtlSec: 600 } },'',
      ''    )'']"

definition discoveryOptions :: "gw_features \<Rightarrow> string" where
  "discoveryOptions f =
     (if gf_routeReception f then '','' @ nl # lines
        [''      {'',
         ''        // Consumer-side route-discovery -- names MUST match the publishers'' @ [CHR 0x27] @ '' broker.routeDiscovery.'',
         ''        routeDiscovery: { exchange: '' @ quoted (gf_routeExchange f) @ '', queue: '' @ quoted (gf_routeQueue f) @ '' },'',
         ''      }'']
      else [])"

definition gatewayAdminForRoot :: "gw_features \<Rightarrow> string" where
  "gatewayAdminForRoot f = lines
     [''GatewayAdminModule.forRoot('',
      ''      ['',
      ''        InMemoryHttpPathRepository,'',
      ''        { provide: HttpPathRepository, useExisting: InMemoryHttpPathRepository },'',
      ''        InMemoryAuthProviderRepository,'',
      ''        { provide: AuthProviderRepository, useExisting: InMemoryAuthProviderRepository },'',
      ''        InMemoryHttpMetricRepository,'',
      ''        { provide: HttpMetricRepository, useExisting: InMemoryHttpMetricRepository },'',
      ''        InMemoryRouteSyncLogRepository,'',
      ''        { provide: RouteSyncLogRepository, useExisting: InMemoryRouteSyncLogRepository },'',
      ''      ]'' @ discoveryOptions f @ '','',
      ''    )'']"

definition moduleEntries :: "gw_features \<Rightarrow> wire_entry list" where
  "moduleEntries f =
     [configModuleEntry, brokerModuleEntry, entry ''HttpModule'' GATEWAY_SENTINEL, entry (proxyForRootAsync f) GATEWAY_SENTINEL] @
     (if gf_acl f then [entry aclForRoot ''AclModule.forRoot''] else []) @
     (if gf_any f then [entry (gatewayAdminForRoot f) ''GatewayAdminModule.forRoot''] else [])"

definition gatewayWiring :: "gw_features \<Rightarrow> wire_options" where
  "gatewayWiring f = \<lparr>wo_libSymbols = libSymbols f, wo_importLines = importLines f, wo_entries = moduleEntries f\<rparr>"

definition GATEWAY_DEPS :: "(string \<times> string) list" where
  "GATEWAY_DEPS = [(''@nestjs/config'', ''^4.0.4''), (''js-yaml'', ''^4.1.0''), (''@nestjs/axios'', ''^4.0.1''),
     (''@nestjs/platform-ws'', ''^11.0.1''), (''@nestjs/websockets'', ''^11.0.1''), (''ws'', ''^8.21.0'')]"

text \<open>Step 8 of \<open>add-gateway\<close>: what it did to the tree, and whether it found the module and \<open>main.ts\<close>. The
  dependencies are added to the package file's value.\<close>

definition wire_gateway :: "('f, string) tree_lib \<Rightarrow> add_gateway_options \<Rightarrow> 'f \<times> jval \<Rightarrow> (string option \<times> bool) \<times> 'f \<times> jval" where
  "wire_gateway T opt = (\<lambda>(f, pkg).
     let f1 = createConfigLoader T f;
         (modulePath, f2) = wireAppModule T (gatewayWiring (resolveFeatures opt)) f1;
         (main, f3) = configureMainForGateway T f2
     in ((modulePath, main), f3, addDeps GATEWAY_DEPS pkg))"

section \<open>The core bootstrap\<close>

definition coreWiring :: wire_options where
  "coreWiring = \<lparr>wo_libSymbols = coreLibSymbols, wo_importLines = coreImportLines, wo_entries = [configModuleEntry, brokerModuleEntry]\<rparr>"

definition CORE_DEPS :: "(string \<times> string) list" where
  "CORE_DEPS = [(''@nestjs/config'', ''^4.0.4''), (''js-yaml'', ''^4.1.0'')]"

definition in_double :: "string \<Rightarrow> string" where
  "in_double s = CHR 0x22 # s @ [CHR 0x22]"

definition BASE_CONFIG_YAML :: string where
  "BASE_CONFIG_YAML = lines
     [''app:'', ''  port: 80'', ''  host: 0.0.0.0'', ''  environment: '' @ in_double ''development'', [],
      ''broker:'', ''  name: '' @ in_double ''rabbitmq'', ''  uri: '' @ in_double ''<AMQP_URI>'', ''  connectionManagerOptions:'',
      ''    heartbeatIntervalInSeconds: 60'', ''    reconnectTimeInSeconds: 60'', ''    connectionOptions:'', ''      clientProperties:'',
      ''        # Logical name -- the library appends -<hostname>-<pid> per instance.'',
      ''        connection_name: '' @ in_double ''<APP_NAME>'', ''      credentials:'', ''        mechanism: PLAIN'',
      ''        username: '' @ in_double ''<AMQP_USERNAME>'', ''        password: '' @ in_double ''<AMQP_PASSWORD>'',
      ''  exchanges:'', ''    - name: example.fanout'', ''      type: '' @ in_double ''fanout'', ''      createExchangeIfNotExists: true'',
      ''      options:'', ''        durable: true'',
      ''  queues:'', ''    - name: example.queue'', ''      exchange: example.fanout'', ''      routingKey: example.queue'',
      ''      createQueueIfNotExists: true'', ''      options:'', ''        durable: true'', [],
      ''topics:'', ''  - name: example.topic'', ''    exchange: example.fanout'', ''    routingKey: '' @ in_double ''example.topic'',
      ''    mode: event'', []]"

definition ensureBaseConfig :: "('f, string) tree_lib \<Rightarrow> ('d, string) yaml_lib \<Rightarrow> string option \<Rightarrow> 'f \<Rightarrow> jserr + 'f" where
  "ensureBaseConfig T Y preferred f =
     (let path = findConfigYaml T preferred f in
      if \<not> tr_exists T path f then Inr (tr_create T path BASE_CONFIG_YAML f)
      else (case and_seq (set_if_absent Y [''app''] (JObj [(''port'', JNum 80), (''host'', JStr ''0.0.0.0''), (''environment'', JStr ''development'')]))
             (and_seq (set_if_absent Y [''broker''] (JObj [(''name'', JStr ''rabbitmq''), (''uri'', JStr ''<AMQP_URI>'')]))
             (set_if_absent Y [''topics''] (JArr []))) (fst (readConfigDoc T Y f path)) of
           (Inl e, d) \<Rightarrow> Inl e
         | (Inr u, d) \<Rightarrow> writeConfigDoc T Y path d f))"

definition nest_add :: "('f, string) tree_lib \<Rightarrow> ('d, string) yaml_lib \<Rightarrow> string option \<Rightarrow> 'f \<times> jval \<Rightarrow> jserr + (string option \<times> 'f \<times> jval)" where
  "nest_add T Y config = (\<lambda>(f, pkg).
     case ensureBaseConfig T Y config f of
       Inl e \<Rightarrow> Inl e
     | Inr f1 \<Rightarrow>
         let (modulePath, f2) = wireAppModule T coreWiring (createConfigLoader T f1)
         in Inr (modulePath, f2, addDeps CORE_DEPS pkg))"

section \<open>Facts about the imports\<close>

lemma ends_at_line: "(g, t) \<in> set (rx_run (cat_all (rs @ [LineEnd])) s) \<Longrightarrow> t = [] \<or> line_feed (hd t)"
proof (induction rs arbitrary: s g t)
  case Nil
  then show ?case by (auto split: if_splits)
next
  case (Cons r rs)
  have "cat_all ((r # rs) @ [LineEnd]) = Cat r (cat_all (rs @ [LineEnd]))" by (cases rs) simp_all
  with Cons show ?case by auto
qed

lemma importRx_end: "(g, t) \<in> set (rx_run importRx s) \<Longrightarrow> t = [] \<or> line_feed (hd t)"
proof -
  have "importRx = cat_all ([Lit ''import'', some_of is_space, some_of (\<lambda>c. \<not> line_feed c), Lit ''from'', some_of is_space,
     Cls quote_char, some_of (\<lambda>c. \<not> quote_char c), Cls quote_char, Opt (Lit '';''), Many is_space] @ [LineEnd])"
    unfolding importRx_def append.simps by (rule HOL.refl)
  then show "(g, t) \<in> set (rx_run importRx s) \<Longrightarrow> t = [] \<or> line_feed (hd t)" using ends_at_line by metis
qed

lemma importLoop_result:
  "importLoop bol s after = after \<or> (\<exists>x. s = x @ importLoop bol s after) \<and> (importLoop bol s after = [] \<or> line_feed (hd (importLoop bol s after)))"
proof (induction bol s after rule: importLoop.induct)
  case (2 bol c cs after)
  show ?case
  proof (cases "if bol then rx_at importRx (c # cs) else None")
    case None
    have step: "importLoop bol (c # cs) after = importLoop (line_feed c) cs after"
      unfolding importLoop.simps(2) None by (rule option.case(1))
    have "\<exists>x. c # cs = x @ r" if "\<exists>x. cs = x @ r" for r using that append_Cons by metis
    with "2.IH"(1) [OF None] show ?thesis unfolding step by blast
  next
    case (Some m)
    obtain g t where m: "m = (g, t)" by (cases m)
    from Some m have "(g, t) \<in> set (rx_run importRx (c # cs))" using rx_at_mem by (metis option.distinct(1))
    then have t: "t = [] \<or> line_feed (hd t)" and "\<exists>x. c # cs = x @ t" using importRx_end rx_run_suffix by blast+
    then obtain x where x: "c # cs = x @ t" by blast
    show ?thesis
    proof (cases "length t < Suc (length cs)")
      case True
      let ?r = "importLoop (line_feed (last (rx_matched (c # cs) t))) t t"
      have r: "importLoop bol (c # cs) after = ?r" unfolding importLoop.simps(2) Some m using True by simp
      from "2.IH"(2) [OF Some m [symmetric] True] consider "?r = t" | y where "t = y @ ?r" "?r = [] \<or> line_feed (hd ?r)" by blast
      then show ?thesis
      proof cases
        case 1
        with r t x show ?thesis by metis
      next
        case 2
        with x have "c # cs = (x @ y) @ ?r" by (metis append.assoc)
        with 2(2) r show ?thesis by metis
      qed
    next
      case False
      then have "importLoop bol (c # cs) after = after" unfolding importLoop.simps(2) Some m by simp
      then show ?thesis by simp
    qed
  qed
qed simp

lemma last_import_gap: "gap (take (findLastImportEndIndex s) s) (drop (findLastImportEndIndex s) s)"
proof -
  let ?t = "importLoop True s s"
  from importLoop_result [of True s s] consider "?t = s" | x where "s = x @ ?t" "?t = [] \<or> line_feed (hd ?t)" by blast
  then show ?thesis
  proof cases
    case 1
    then show ?thesis by (simp add: findLastImportEndIndex_def gap_def)
  next
    case 2
    from 2(1) have "drop (length s - length ?t) s = ?t" by (metis append_eq_conv_conj diff_diff_cancel length_append le_add2 add_diff_cancel_right')
    with 2(2) line_feed_not_plain show ?thesis by (auto simp: findLastImportEndIndex_def gap_def)
  qed
qed

lemma insert_at_keeps:
  assumes "plain_word w" and "gap (take n s) (drop n s)" and "str_includes w s"
  shows "str_includes w (insert_at n x s)"
proof -
  have "str_includes w (take n s) \<or> str_includes w (drop n s)"
    using word_in_append [OF assms(1,2)] assms(3) by simp
  then show ?thesis unfolding insert_at_def using includes_left includes_right by metis
qed

lemma insert_at_has: "str_includes w x \<Longrightarrow> str_includes w (insert_at n x s)"
  unfolding insert_at_def by (rule includes_append)

lemma ensureImportLine_keeps: "plain_word w \<Longrightarrow> str_includes w s \<Longrightarrow> str_includes w (ensureImportLine s i)"
  by (simp add: ensureImportLine_def insert_at_keeps last_import_gap)

lemma ensureImportLine_has: "str_includes (il_marker i) (il_line i) \<Longrightarrow> str_includes (il_marker i) (ensureImportLine s i)"
  by (auto simp: ensureImportLine_def intro!: insert_at_has intro: includes_right [of _ _ "[nl]", simplified])

subsection \<open>The library's import\<close>

lemma libImport_parts:
  assumes "rx_find libImportRx s = Some (pre, m, g, t)"
  obtains a names b q q' e where "s = pre @ ''import'' @ a @ ''{'' @ names @ ''}'' @ b @ q # LIB @ q' # e @ t"
    and "hd g = names" and "\<forall>c \<in> set a. is_space c" and "quote_char q" and "quote_char q'" and "e = [] \<or> e = '';''"
    and "\<exists>b1 b2. b = b1 @ ''from'' @ b2 \<and> (\<forall>c \<in> set b1 \<union> set b2. is_space c)" and "CHR ''}'' \<notin> set names"
proof -
  from rx_find_Some [OF assms] have s: "s = pre @ m" and "(g, t) \<in> set (rx_run libImportRx m)" by (auto dest: rx_at_mem)
  then obtain x1 x2 x3 x4 x5 x6 x7 q q' x8
    where m: "m = ''import'' @ x1" and x1: "x2 \<in> set (run_star is_space x1)" and x2: "x2 = ''{'' @ x3"
      and x3: "x4 \<in> set (run_star (\<lambda>c. c \<noteq> CHR ''}'') x3)" and g: "hd g = take (length x3 - length x4) x3"
      and x4: "x4 = ''}'' @ x5" and x5: "''from'' @ x6 \<in> set (run_star is_space x5)"
      and x6: "q # LIB @ q' # x8 \<in> set (run_star is_space x6)" and q: "quote_char q" "quote_char q'"
      and e: "x8 = '';'' @ t \<or> x8 = t"
    unfolding libImportRx_def
    by (auto simp: starts_with_iff split: list.splits if_splits)
  from run_star_suffix [OF x1] obtain a where a: "x1 = a @ x2" "\<forall>c \<in> set a. is_space c" by blast
  from run_star_suffix [OF x3] obtain names where names: "x3 = names @ x4" "\<forall>c \<in> set names. c \<noteq> CHR ''}''" by blast
  from run_star_suffix [OF x5] obtain b1 where b1: "x5 = b1 @ ''from'' @ x6" "\<forall>c \<in> set b1. is_space c" by blast
  from run_star_suffix [OF x6] obtain b2 where b2: "x6 = b2 @ q # LIB @ q' # x8" "\<forall>c \<in> set b2. is_space c" by blast
  from e obtain e' where e': "x8 = e' @ t" "e' = [] \<or> e' = '';''" by auto
  show thesis
  proof (rule that [of a names "b1 @ ''from'' @ b2" q q' e'])
    show "s = pre @ ''import'' @ a @ ''{'' @ names @ ''}'' @ (b1 @ ''from'' @ b2) @ q # LIB @ q' # e' @ t"
      using s m a(1) x2 names(1) x4 b1(1) b2(1) e'(1) by simp
    show "hd g = names" using g names(1) by simp
  qed (use a(2) b1(2) b2(2) q e'(2) names(2) in blast)+
qed

lemma word_skip:
  assumes w: "plain_word w" and inc: "str_includes w (x @ n @ y)" and n: "n \<noteq> []" "\<forall>c \<in> set n. \<not> plain_char c"
  shows "str_includes w x \<or> str_includes w y"
proof -
  have "\<not> str_includes w n"
  proof
    assume "str_includes w n"
    then have "set w \<subseteq> set n" unfolding includes_iff by auto
    with w n(2) show False by (cases w) (auto simp: plain_word_def)
  qed
  moreover have "gap x (n @ y)" "gap n y" using n by (auto simp: gap_def)
  ultimately show ?thesis using word_in_middle [OF w inc] by blast
qed

lemma join_includes: "p \<in> set ws \<Longrightarrow> str_includes w p \<Longrightarrow> str_includes w (js_join sep ws)"
proof (induction sep ws rule: js_join.induct)
  case (3 sep v x xs)
  then show ?case
    using includes_left [of w v "sep @ js_join sep (x # xs)"] includes_right [of w "js_join sep (x # xs)" "v @ sep"] by auto
qed auto

lemma word_in_join:
  "plain_word w \<Longrightarrow> \<not> plain_char c \<Longrightarrow> ws \<noteq> [] \<Longrightarrow> str_includes w (js_join [c] ws) \<Longrightarrow> \<exists>p \<in> set ws. str_includes w p"
proof (induction "[c]" ws rule: js_join.induct)
  case (3 v x xs)
  from word_skip [OF 3(2), of v "[c]" "js_join [c] (x # xs)"] 3 show ?case by auto
qed auto

lemma names_keep:
  assumes "plain_word w" and "str_includes w names"
  shows "\<exists>p \<in> set (namesIn names). str_includes w p"
proof -
  have "str_includes w (js_join [CHR '',''] (js_split (CHR '','') names))" using assms(2) by (simp add: js_join_split)
  from word_in_join [OF assms(1) plain_not(5) js_split_nonempty this]
  obtain p where p: "p \<in> set (js_split (CHR '','') names)" "str_includes w p" by blast
  from includes_trim [OF plain_solid [OF assms(1)] p(2)] have inc: "str_includes w (js_trim p)" .
  with assms(1) have "js_trim p \<noteq> []" by (auto simp: plain_word_def)
  with p(1) inc show ?thesis by (auto simp: namesIn_def)
qed

lemma libImportLine_keeps:
  assumes "n \<in> set names" and "str_includes w n"
  shows "str_includes w (libImportLine names)"
  unfolding libImportLine_def using includes_append [OF join_includes [OF assms], of "''import { ''"] by simp

lemma ensureLibImport_keeps:
  assumes w: "plain_word w" and inc: "str_includes w s"
  shows "str_includes w (ensureLibImport s symbols)"
proof (cases "rx_find libImportRx s")
  case None
  with assms show ?thesis by (simp add: ensureLibImport_def insert_at_keeps last_import_gap)
next
  case (Some r)
  obtain pre m g t where r: "r = (pre, m, g, t)" by (cases r)
  obtain a names b q q' e
    where s: "s = pre @ ''import'' @ a @ ''{'' @ names @ ''}'' @ b @ q # LIB @ q' # e @ t" and g: "hd g = names"
      and a: "\<forall>c \<in> set a. is_space c" and q: "quote_char q" and q': "quote_char q'" and e: "e = [] \<or> e = '';''"
      and b: "\<exists>b1 b2. b = b1 @ ''from'' @ b2 \<and> (\<forall>c \<in> set b1 \<union> set b2. is_space c)" and "CHR ''}'' \<notin> set names"
    by (rule libImport_parts [OF Some [unfolded r]])
  from b obtain b1 b2 where b12: "b = b1 @ ''from'' @ b2" "\<forall>c \<in> set b1. is_space c" "\<forall>c \<in> set b2. is_space c" by auto
  define N where "N = sort (dedup (namesIn names @ symbols))"
  have new: "ensureLibImport s symbols = pre @ libImportLine N @ t" using Some r g by (simp add: ensureLibImport_def N_def)
  have "s = (pre @ ''import'') @ (a @ ''{'') @ names @ (''}'' @ b1) @ ''from'' @ (b2 @ [q]) @ LIB @ (q' # e) @ t"
    using s b12(1) by simp
  with inc have "str_includes w ((pre @ ''import'') @ (a @ ''{'') @ names @ (''}'' @ b1) @ ''from'' @ (b2 @ [q]) @ LIB @ (q' # e) @ t)" by simp
  note inc' = this
  have np1: "a @ ''{'' \<noteq> []" "\<forall>c \<in> set (a @ ''{''). \<not> plain_char c" using a space_not_plain plain_not(3) by auto
  have np2: "''}'' @ b1 \<noteq> []" "\<forall>c \<in> set (''}'' @ b1). \<not> plain_char c" using b12(2) space_not_plain plain_not(4) by auto
  have np3: "b2 @ [q] \<noteq> []" "\<forall>c \<in> set (b2 @ [q]). \<not> plain_char c" using b12(3) space_not_plain quote_not_plain [OF q] by auto
  have np4: "q' # e \<noteq> []" "\<forall>c \<in> set (q' # e). \<not> plain_char c" using e quote_not_plain [OF q'] plain_not(6) by auto
  have "str_includes w (pre @ ''import'') \<or> str_includes w (names @ (''}'' @ b1) @ ''from'' @ (b2 @ [q]) @ LIB @ (q' # e) @ t)"
    by (rule word_skip [OF w inc' np1])
  moreover have "str_includes w (names @ (''}'' @ b1) @ ''from'' @ (b2 @ [q]) @ LIB @ (q' # e) @ t) \<Longrightarrow>
      str_includes w names \<or> str_includes w (''from'' @ (b2 @ [q]) @ LIB @ (q' # e) @ t)"
    by (rule word_skip [OF w _ np2])
  moreover have "str_includes w (''from'' @ (b2 @ [q]) @ LIB @ (q' # e) @ t) \<Longrightarrow>
      str_includes w ''from'' \<or> str_includes w (LIB @ (q' # e) @ t)"
    by (rule word_skip [OF w _ np3])
  moreover have "str_includes w (LIB @ (q' # e) @ t) \<Longrightarrow> str_includes w LIB \<or> str_includes w t"
    by (rule word_skip [OF w _ np4])
  ultimately consider "str_includes w (pre @ ''import'')" | "str_includes w names" | "str_includes w ''from''" | "str_includes w LIB"
    | "str_includes w t" by blast
  then show ?thesis
  proof cases
    case 1
    then show ?thesis using includes_left [OF 1, of "'' { '' @ js_join '', '' N @ '' } from '' @ quoted LIB @ '';'' @ t"]
      by (simp add: new libImportLine_def)
  next
    case 2
    from names_keep [OF w 2] obtain n where "n \<in> set N" "str_includes w n" by (auto simp: N_def)
    from includes_append [OF libImportLine_keeps [OF this]] show ?thesis by (simp add: new)
  next
    case 3
    then show ?thesis
      using includes_append [OF 3, of "pre @ ''import { '' @ js_join '', '' N @ '' } ''" "'' '' @ quoted LIB @ '';'' @ t"]
      by (simp add: new libImportLine_def)
  next
    case 4
    then show ?thesis
      using includes_append [OF 4, of "pre @ ''import { '' @ js_join '', '' N @ '' } from '' @ [CHR 0x27]" "CHR 0x27 # '';'' @ t"]
      by (simp add: new libImportLine_def quoted_def)
  next
    case 5
    then show ?thesis using includes_right [OF 5, of "pre @ libImportLine N"] by (simp add: new)
  qed
qed

lemma ensureLibImport_names:
  "\<exists>a names b. ensureLibImport s symbols = a @ libImportLine names @ b \<and> set symbols \<subseteq> set names"
proof (cases "rx_find libImportRx s")
  case None
  then have "ensureLibImport s symbols = (take (findLastImportEndIndex s) s @ [nl]) @ libImportLine (sort (dedup symbols)) @
      drop (findLastImportEndIndex s) s" by (simp add: ensureLibImport_def insert_at_def)
  then show ?thesis by (intro exI conjI) (assumption, simp)
next
  case (Some r)
  then obtain pre m g t where r: "rx_find libImportRx s = Some (pre, m, g, t)" by (cases r) auto
  then have "ensureLibImport s symbols = pre @ libImportLine (sort (dedup (namesIn (hd g) @ symbols))) @ t"
    by (simp add: ensureLibImport_def)
  then show ?thesis by (intro exI conjI) (assumption, simp)
qed

section \<open>Facts about the array\<close>

fun depth :: "nat \<Rightarrow> string \<Rightarrow> nat option" where
  "depth d [] = Some d"
| "depth d (c # cs) =
     (if c = CHR ''['' then depth (Suc d) cs
      else if c = CHR '']'' then (if d \<le> 1 then None else depth (d - 1) cs) else depth d cs)"

definition balanced :: "string \<Rightarrow> bool" where
  "balanced s \<longleftrightarrow> depth 1 s = Some 1"

lemma depth_append: "depth d (x @ y) = (case depth d x of None \<Rightarrow> None | Some e \<Rightarrow> depth e y)"
  by (induction d x rule: depth.induct) auto

lemma depth_plain: "CHR ''['' \<notin> set s \<Longrightarrow> CHR '']'' \<notin> set s \<Longrightarrow> depth d s = Some d"
  by (induction s) auto

lemma balanced_append: "balanced x \<Longrightarrow> balanced y \<Longrightarrow> balanced (x @ y)"
  by (simp add: balanced_def depth_append)

lemma balanced_plain: "CHR ''['' \<notin> set s \<Longrightarrow> CHR '']'' \<notin> set s \<Longrightarrow> balanced s"
  by (simp add: balanced_def depth_plain)

lemma closeAt_iff:
  "0 < d \<Longrightarrow> closeAt d s = Some (c, z) \<longleftrightarrow> s = c @ z \<and> depth d c = Some 1 \<and> (\<exists>y. z = CHR '']'' # y)"
proof (induction d s arbitrary: c rule: closeAt.induct)
  case (1 d)
  then show ?case by auto
next
  case (2 d x xs)
  consider "x = CHR ''[''" | "x = CHR '']''" "d = 1" | "x = CHR '']''" "d \<noteq> 1" | "x \<noteq> CHR ''[''" "x \<noteq> CHR '']''" by blast
  then show ?case
  proof cases
    case 1
    with 2 show ?thesis by (cases c) auto
  next
    case 2
    then show ?thesis by (cases c) auto
  next
    case 3
    with 2 show ?thesis by (cases c) auto
  next
    case 4
    with 2 show ?thesis by (cases c) auto
  qed
qed

text \<open>The array as the code finds it: the text to its opening bracket, what is inside, and the text from its closing
  one.\<close>

definition importsArray :: "string \<Rightarrow> (string \<times> string \<times> string) option" where
  "importsArray s =
     (case rx_find importsRx s of
        None \<Rightarrow> None
      | Some (pre, m, g, t) \<Rightarrow> map_option (\<lambda>(c, z). (pre @ rx_matched m t, c, z)) (closeAt 1 t))"

lemma importsRx_find:
  assumes "rx_find importsRx s = Some (pre, m, g, t)"
  obtains h where "m = h @ CHR ''['' # t" and "CHR ''['' \<notin> set h"
    and "\<And>u. rx_find importsRx (pre @ h @ CHR ''['' # u) = Some (pre, h @ CHR ''['' # u, g, u)"
proof -
  have "\<forall>r \<in> set [Lit ''imports'', Many is_space, Lit '':'', Many is_space]. avoids (CHR ''['') r"
    by (simp add: is_space_def)
  from stops_find_again [OF this assms [unfolded importsRx_def]] that show thesis unfolding importsRx_def by blast
qed

lemma takeWhile_upto: "c \<notin> set h \<Longrightarrow> takeWhile (\<lambda>x. x \<noteq> c) (h @ c # t) = h"
  by (induction h) auto

lemma insert_array:
  "insertIntoImportsArray s e =
     (case importsArray s of None \<Rightarrow> s | Some (p, c, z) \<Rightarrow> p @ newArrayContent e (js_trim c) @ z)"
proof (cases "rx_find importsRx s")
  case None
  then show ?thesis by (simp add: insertIntoImportsArray_def importsArray_def)
next
  case (Some r)
  then obtain pre m g t where r: "rx_find importsRx s = Some (pre, m, g, t)" by (cases r) auto
  from importsRx_find [OF r] obtain h where m: "m = h @ CHR ''['' # t" "CHR ''['' \<notin> set h" by blast
  have m': "rx_matched (h @ CHR ''['' # t) t = h @ [CHR ''['']" by (simp add: rx_matched_def)
  show ?thesis
    unfolding insertIntoImportsArray_def importsArray_def r option.case prod.case Let_def m(1) m' takeWhile_upto [OF m(2)]
    by (cases "closeAt 1 t") (auto simp: drop_append)
qed

lemma importsArray_again:
  assumes "importsArray s = Some (p, c, z)"
  shows "s = p @ c @ z" and "balanced c" and "hd z = CHR '']''" and "z \<noteq> []" and "p \<noteq> []" and "last p = CHR ''[''"
    and "balanced c' \<Longrightarrow> importsArray (p @ c' @ z) = Some (p, c', z)"
proof -
  from assms obtain pre m g t where r: "rx_find importsRx s = Some (pre, m, g, t)" and cl: "closeAt 1 t = Some (c, z)"
    and p: "p = pre @ rx_matched m t" by (auto simp: importsArray_def split: option.splits)
  from importsRx_find [OF r] obtain h where m: "m = h @ CHR ''['' # t"
    and again: "\<And>u. rx_find importsRx (pre @ h @ CHR ''['' # u) = Some (pre, h @ CHR ''['' # u, g, u)" by metis
  have matched: "rx_matched (h @ CHR ''['' # u) u = h @ [CHR ''['']" for u by (simp add: rx_matched_def)
  from cl have t: "t = c @ z" "depth 1 c = Some 1" "\<exists>y. z = CHR '']'' # y" by (simp_all add: closeAt_iff)
  have p': "p = pre @ h @ [CHR ''['']" using p matched [of t] m by simp
  with rx_find_split(1) [OF r] p t(1) show "s = p @ c @ z" by simp
  show "balanced c" "hd z = CHR '']''" "z \<noteq> []" "p \<noteq> []" "last p = CHR ''[''" using t p' by (auto simp: balanced_def)
  show "importsArray (p @ c' @ z) = Some (p, c', z)" if "balanced c'"
  proof -
    have "closeAt 1 (c' @ z) = Some (c', z)" using that t(3) by (simp add: closeAt_iff balanced_def)
    with again [of "c' @ z"] matched [of "c' @ z"] show ?thesis by (simp add: importsArray_def p')
  qed
qed

lemma trim_balanced: "balanced c \<Longrightarrow> balanced (js_trim c)"
proof -
  assume bal: "balanced c"
  obtain a b where core: "c = a @ js_trim c @ b" and sp: "\<forall>x \<in> set a. is_space x" "\<forall>x \<in> set b. is_space x"
    using trim_parts by blast
  have no: "\<not> is_space (CHR ''['')" "\<not> is_space (CHR '']'')" by (simp_all add: is_space_def)
  with sp have "depth d a = Some d" "depth d b = Some d" for d by (auto intro!: depth_plain)
  with bal core have "(case depth 1 (js_trim c) of None \<Rightarrow> None | Some e \<Rightarrow> Some e) = Some 1"
    unfolding balanced_def by (metis (no_types, lifting) depth_append option.case_eq_if option.simps(5))
  then show ?thesis by (simp add: balanced_def split: option.splits)
qed

lemma newArrayContent_facts:
  "balanced e \<Longrightarrow> balanced c \<Longrightarrow> balanced (newArrayContent e c)"
  "str_includes e (newArrayContent e c)"
  "str_includes w c \<Longrightarrow> w \<noteq> [] \<Longrightarrow> str_includes w (newArrayContent e c)"
proof -
  have lead: "balanced (nl # ''    '')" "balanced ('','' @ [nl] @ ''  '')" "balanced ('','' @ [nl] @ ''    '')" "balanced (nl # ''  '')"
    by (simp_all add: balanced_def)
  have one: "newArrayContent e c = (nl # ''    '') @ e @ ('','' @ [nl] @ ''  '')" if "c = []"
    using that by (simp add: newArrayContent_def)
  have two: "newArrayContent e c = (nl # ''    '') @ e @ ('','' @ [nl] @ ''    '') @ c @ (nl # ''  '')" if "c \<noteq> []"
    using that by (simp add: newArrayContent_def)
  show "balanced (newArrayContent e c)" if "balanced e" "balanced c"
  proof (cases "c = []")
    case True
    show ?thesis unfolding one [OF True] by (intro balanced_append lead that)
  next
    case False
    show ?thesis unfolding two [OF False] by (intro balanced_append lead that)
  qed
  show "str_includes e (newArrayContent e c)"
    using includes_append [OF includes_self, of e "nl # ''    ''"] one two by metis
  show "str_includes w c \<Longrightarrow> w \<noteq> [] \<Longrightarrow> str_includes w (newArrayContent e c)"
  proof (cases "c = []")
    case False
    assume inc: "str_includes w c"
    from includes_append [OF inc, of "(nl # ''    '') @ e @ ('','' @ [nl] @ ''    '')" "nl # ''  ''"]
    show ?thesis unfolding two [OF False] by (simp only: append_assoc)
  qed simp
qed

lemma insert_keeps:
  assumes w: "plain_word w" and inc: "str_includes w s"
  shows "str_includes w (insertIntoImportsArray s e)"
proof (cases "importsArray s")
  case None
  with inc show ?thesis by (simp add: insert_array)
next
  case (Some r)
  then obtain p c z where r: "importsArray s = Some (p, c, z)" by (cases r) auto
  note parts = importsArray_again [OF r]
  from parts(4,3,5,6) plain_not have "gap p (c @ z)" "gap c z" by (auto simp: gap_def)
  with word_in_middle [OF w, of p c z] inc parts(1) have "str_includes w p \<or> str_includes w c \<or> str_includes w z" by simp
  moreover have "str_includes w c \<Longrightarrow> str_includes w (newArrayContent e (js_trim c))"
    using newArrayContent_facts(3) includes_trim [OF plain_solid [OF w]] w by (simp add: plain_word_def)
  ultimately show ?thesis
    unfolding insert_array r option.case prod.case using includes_left includes_right includes_append by metis
qed

lemma inserts_array:
  assumes "importsArray s = Some (p, c, z)" and "\<forall>e \<in> set es. balanced e \<and> solid e"
  shows "\<exists>c'. importsArray (fold (\<lambda>e s. insertIntoImportsArray s e) es s) = Some (p, c', z) \<and>
    (\<forall>e \<in> set es. str_includes e c') \<and> (\<forall>w. solid w \<longrightarrow> str_includes w c \<longrightarrow> str_includes w c')"
  using assms
proof (induction es arbitrary: s c)
  case Nil
  then show ?case by auto
next
  case (Cons e es)
  note parts = importsArray_again [OF Cons.prems(1)]
  let ?c = "newArrayContent e (js_trim c)"
  have "balanced ?c" using Cons.prems(2) parts(2) by (simp add: newArrayContent_facts(1) trim_balanced)
  from parts(7) [OF this] have "importsArray (insertIntoImportsArray s e) = Some (p, ?c, z)"
    by (simp add: insert_array Cons.prems(1))
  from Cons.IH [OF this] Cons.prems(2) obtain c'
    where c': "importsArray (fold (\<lambda>e s. insertIntoImportsArray s e) (e # es) s) = Some (p, c', z)"
      "\<forall>x \<in> set es. str_includes x c'" "\<forall>w. solid w \<longrightarrow> str_includes w ?c \<longrightarrow> str_includes w c'" by auto
  have "str_includes w ?c" if "solid w" "str_includes w c" for w
    using newArrayContent_facts(3) includes_trim [OF that] that(1) by (simp add: solid_def)
  with c' Cons.prems(2) newArrayContent_facts(2) show ?case by auto
qed

section \<open>Facts about the wiring\<close>

definition wiring_ok :: "wire_options \<Rightarrow> bool" where
  "wiring_ok opts \<longleftrightarrow>
     (\<forall>e \<in> set (wo_entries opts). balanced (we_code e) \<and> solid (we_code e) \<and> plain_word (we_sentinel e) \<and>
        (\<exists>e' \<in> set (wo_entries opts). we_sentinel e' = we_sentinel e \<and> str_includes (we_sentinel e) (we_code e'))) \<and>
     (\<forall>i \<in> set (wo_importLines opts). plain_word (il_marker i) \<and> str_includes (il_marker i) (il_line i))"

lemma importLines_keep:
  "plain_word w \<Longrightarrow> str_includes w s \<Longrightarrow> str_includes w (fold (\<lambda>i s. ensureImportLine s i) is s)"
  by (induction "is" arbitrary: s) (simp_all add: ensureImportLine_keeps)

lemma importLines_have:
  "\<forall>i \<in> set is. plain_word (il_marker i) \<and> str_includes (il_marker i) (il_line i) \<Longrightarrow> i \<in> set is \<Longrightarrow>
   str_includes (il_marker i) (fold (\<lambda>i s. ensureImportLine s i) is s)"
  by (induction "is" arbitrary: s) (auto simp: importLines_keep ensureImportLine_has)

lemma importLines_there:
  "\<forall>i \<in> set is. str_includes (il_marker i) s \<Longrightarrow> fold (\<lambda>i s. ensureImportLine s i) is s = s"
  by (induction "is") (simp_all add: ensureImportLine_def)

lemma inserts_keep: "plain_word w \<Longrightarrow> str_includes w s \<Longrightarrow> str_includes w (fold (\<lambda>e s. insertIntoImportsArray s (f e)) es s)"
  by (induction es arbitrary: s) (simp_all add: insert_keeps)

lemma wireContent_keeps: "plain_word w \<Longrightarrow> str_includes w s \<Longrightarrow> str_includes w (wireContent opts s)"
  by (simp add: wireContent_def wireImports_def Let_def inserts_keep importLines_keep ensureLibImport_keeps)

lemma wireContent_markers:
  "wiring_ok opts \<Longrightarrow> i \<in> set (wo_importLines opts) \<Longrightarrow> str_includes (il_marker i) (wireContent opts s)"
  unfolding wireContent_def Let_def
  by (intro inserts_keep) (simp_all add: wiring_ok_def wireImports_def importLines_have)

lemma wireContent_codes:
  assumes "wiring_ok opts" and "importsArray (wireImports opts s) \<noteq> None" and "e \<in> set (entriesToAdd opts (wireImports opts s))"
  shows "str_includes (we_code e) (wireContent opts s)"
proof -
  let ?es = "map we_code (rev (entriesToAdd opts (wireImports opts s)))"
  from assms(2) obtain p c z where "importsArray (wireImports opts s) = Some (p, c, z)" by auto
  moreover have "\<forall>e \<in> set ?es. balanced e \<and> solid e" using assms(1) by (auto simp: wiring_ok_def entriesToAdd_def)
  ultimately obtain c' where arr: "importsArray (fold (\<lambda>e s. insertIntoImportsArray s e) ?es (wireImports opts s)) = Some (p, c', z)"
    and all: "\<forall>e \<in> set ?es. str_includes e c'" using inserts_array by blast
  have "fold (\<lambda>e s. insertIntoImportsArray s e) ?es (wireImports opts s) = wireContent opts s"
    by (simp add: wireContent_def Let_def fold_map comp_def)
  with importsArray_again(1) [OF arr] have out: "wireContent opts s = p @ c' @ z" by simp
  have "str_includes (we_code e) c'" using all assms(3) by simp
  then show ?thesis unfolding out by (rule includes_append)
qed

lemma wireContent_sentinels:
  assumes ok: "wiring_ok opts" and arr: "importsArray (wireImports opts s) \<noteq> None" and e: "e \<in> set (wo_entries opts)"
  shows "str_includes (we_sentinel e) (wireContent opts s)"
proof (cases "str_includes (we_sentinel e) (wireImports opts s)")
  case True
  then show ?thesis using ok e unfolding wireContent_def Let_def by (intro inserts_keep) (auto simp: wiring_ok_def)
next
  case False
  from ok e obtain e' where e': "e' \<in> set (wo_entries opts)" "we_sentinel e' = we_sentinel e" "str_includes (we_sentinel e) (we_code e')"
    unfolding wiring_ok_def by metis
  with False have "e' \<in> set (entriesToAdd opts (wireImports opts s))" by (simp add: entriesToAdd_def)
  from wireContent_codes [OF ok arr this] obtain a b where "wireContent opts s = a @ we_code e' @ b" unfolding includes_iff by blast
  with includes_append [OF e'(3)] show ?thesis by simp
qed

lemma wireContent_again:
  assumes ok: "wiring_ok opts" and arr: "importsArray (wireImports opts s) \<noteq> None"
  shows "wireContent opts (wireContent opts s) = ensureLibImport (wireContent opts s) (wo_libSymbols opts)"
proof -
  let ?o = "ensureLibImport (wireContent opts s) (wo_libSymbols opts)"
  have "str_includes (il_marker i) ?o" if "i \<in> set (wo_importLines opts)" for i
    using wireContent_markers [OF ok that] ensureLibImport_keeps ok that by (simp add: wiring_ok_def)
  then have again: "wireImports opts (wireContent opts s) = ?o" by (simp add: wireImports_def importLines_there)
  have "str_includes (we_sentinel e) ?o" if "e \<in> set (wo_entries opts)" for e
    using wireContent_sentinels [OF ok arr that] ensureLibImport_keeps ok that by (auto simp: wiring_ok_def)
  then have "entriesToAdd opts ?o = []" by (simp add: entriesToAdd_def filter_empty_conv)
  then show ?thesis unfolding wireContent_def [of opts "wireContent opts s"] again by (simp add: Let_def)
qed

subsection \<open>The gateway's and the core's entries\<close>

lemma plain_words:
  "plain_word ''ConfigModule.forRoot''" "plain_word ''BrokerModule.forRootAsync''" "plain_word ''ProxyModule.forRootAsync''"
  "plain_word ''AclModule.forRoot''" "plain_word ''GatewayAdminModule.forRoot''" "plain_word ''@nestjs/config''"
  "plain_word ''./config/config.loader''" "plain_word ''@nestjs/axios''" "plain_word ''./modules/database/repository/acl.repository''"
  "plain_word ''./cache/in-memory-acl-store''" "plain_word ''./modules/database/repository/gateway.repository''"
  "plain_word ''./modules/database/repository/route-sync.repository''" "plain_word ''ConfigService''" "plain_word ''GatewayConfig''"
  by code_simp+

lemma import_from_marker: "str_includes (il_marker (import_from what path)) (il_line (import_from what path))"
proof -
  have "il_line (import_from what path) = (''import '' @ what @ '' from '' @ [CHR 0x27]) @ path @ (CHR 0x27 # '';'')"
    by (simp add: import_from_def quoted_def)
  with includes_append [OF includes_self] show ?thesis by (metis import_from_def import_line.select_convs(2))
qed

lemma starts_includes: "starts_with w s \<Longrightarrow> str_includes w s"
  by (cases s) (auto simp: starts_with_iff)

definition entry_ok :: "wire_entry \<Rightarrow> bool" where
  "entry_ok e \<longleftrightarrow> balanced (we_code e) \<and> solid (we_code e) \<and> plain_word (we_sentinel e)"

lemma core_entries_ok: "entry_ok configModuleEntry" "entry_ok brokerModuleEntry" "entry_ok (entry ''HttpModule'' GATEWAY_SENTINEL)"
  "entry_ok (entry aclForRoot ''AclModule.forRoot'')"
  by code_simp+

lemma proxy_entry_ok: "entry_ok (entry (proxyForRootAsync f) GATEWAY_SENTINEL) \<and> starts_with GATEWAY_SENTINEL (proxyForRootAsync f)"
proof -
  have "proxyForRootAsync f = proxyForRootAsync \<lparr>gf_acl = gf_acl f, gf_admin = gf_admin f, gf_routeReception = False, gf_routeExchange = [], gf_routeQueue = []\<rparr>"
    by (simp add: proxyForRootAsync_def proxyProviders_def)
  moreover have "entry_ok (entry (proxyForRootAsync \<lparr>gf_acl = a, gf_admin = b, gf_routeReception = False, gf_routeExchange = [], gf_routeQueue = []\<rparr>) GATEWAY_SENTINEL) \<and>
      starts_with GATEWAY_SENTINEL (proxyForRootAsync \<lparr>gf_acl = a, gf_admin = b, gf_routeReception = False, gf_routeExchange = [], gf_routeQueue = []\<rparr>)"
    for a b by (cases a; cases b; simp only:; code_simp)
  ultimately show ?thesis by metis
qed

text \<open>The admin module's entry as its fixed text around the two names that the options give.\<close>

definition adminHead :: string where
  "adminHead = lines
     [''GatewayAdminModule.forRoot('',
      ''      ['',
      ''        InMemoryHttpPathRepository,'',
      ''        { provide: HttpPathRepository, useExisting: InMemoryHttpPathRepository },'',
      ''        InMemoryAuthProviderRepository,'',
      ''        { provide: AuthProviderRepository, useExisting: InMemoryAuthProviderRepository },'',
      ''        InMemoryHttpMetricRepository,'',
      ''        { provide: HttpMetricRepository, useExisting: InMemoryHttpMetricRepository },'',
      ''        InMemoryRouteSyncLogRepository,'',
      ''        { provide: RouteSyncLogRepository, useExisting: InMemoryRouteSyncLogRepository },'',
      ''      ]'']"

definition discoveryHead :: string where
  "discoveryHead = '','' @ nl # lines
     [''      {'',
      ''        // Consumer-side route-discovery -- names MUST match the publishers'' @ [CHR 0x27] @ '' broker.routeDiscovery.'',
      ''        routeDiscovery: { exchange: '' @ [CHR 0x27]]"

definition adminTail :: string where
  "adminTail = '','' @ nl # ''    )''"

lemma gatewayAdmin_parts:
  "gatewayAdminForRoot f = adminHead @ discoveryOptions f @ adminTail"
  "gf_routeReception f \<Longrightarrow> discoveryOptions f = discoveryHead @ gf_routeExchange f @
     ([CHR 0x27] @ '', queue: '' @ [CHR 0x27]) @ gf_routeQueue f @ ([CHR 0x27] @ '' },'' @ nl # ''      }'')"
  by (simp_all add: gatewayAdminForRoot_def adminHead_def adminTail_def discoveryOptions_def discoveryHead_def lines_def quoted_def)

definition no_bracket :: "string \<Rightarrow> bool" where
  "no_bracket s \<longleftrightarrow> CHR ''['' \<notin> set s \<and> CHR '']'' \<notin> set s"

lemma admin_texts:
  "balanced adminHead" "balanced adminTail" "balanced discoveryHead" "balanced ([CHR 0x27] @ '', queue: '' @ [CHR 0x27])"
  "balanced ([CHR 0x27] @ '' },'' @ nl # ''      }'')" "starts_with ''GatewayAdminModule.forRoot'' adminHead"
  "\<not> is_space (hd adminHead)" "adminHead \<noteq> []" "\<not> is_space (last adminTail)" "adminTail \<noteq> []"
  by code_simp+

lemma discovery_balanced:
  "no_bracket (gf_routeExchange f) \<Longrightarrow> no_bracket (gf_routeQueue f) \<Longrightarrow> balanced (discoveryOptions f)"
proof (cases "gf_routeReception f")
  case True
  assume "no_bracket (gf_routeExchange f)" "no_bracket (gf_routeQueue f)"
  then show ?thesis unfolding gatewayAdmin_parts(2) [OF True] no_bracket_def
    by (intro balanced_append admin_texts balanced_plain) simp_all
qed (simp add: discoveryOptions_def balanced_def)

lemma admin_entry_ok:
  assumes "no_bracket (gf_routeExchange f)" and "no_bracket (gf_routeQueue f)"
  shows "entry_ok (entry (gatewayAdminForRoot f) ''GatewayAdminModule.forRoot'') \<and>
    starts_with ''GatewayAdminModule.forRoot'' (gatewayAdminForRoot f)"
proof -
  have "balanced (gatewayAdminForRoot f)"
    unfolding gatewayAdmin_parts(1) by (intro balanced_append admin_texts discovery_balanced assms)
  moreover have "solid (gatewayAdminForRoot f)"
    using admin_texts(7-10) by (simp add: solid_def gatewayAdmin_parts(1))
  moreover have "starts_with ''GatewayAdminModule.forRoot'' (gatewayAdminForRoot f)"
  proof -
    from admin_texts(6) obtain t where t: "adminHead = ''GatewayAdminModule.forRoot'' @ t" unfolding starts_with_iff by blast
    show ?thesis unfolding gatewayAdmin_parts(1) t append_assoc by (rule starts_with_append)
  qed
  ultimately show ?thesis using plain_words(5) by (simp add: entry_ok_def entry_def)
qed

lemma core_starts:
  "starts_with (we_sentinel configModuleEntry) (we_code configModuleEntry)"
  "starts_with (we_sentinel brokerModuleEntry) (we_code brokerModuleEntry)"
  "starts_with ''AclModule.forRoot'' aclForRoot"
  by code_simp+

lemma gateway_wiring_ok:
  assumes "no_bracket (gf_routeExchange f)" and "no_bracket (gf_routeQueue f)"
  shows "wiring_ok (gatewayWiring f)"
proof -
  have simps: "we_code (entry c s) = c" "we_sentinel (entry c s) = s" for c s by (simp_all add: entry_def)
  have "entry_ok e" if "e \<in> set (moduleEntries f)" for e
    using that core_entries_ok proxy_entry_ok admin_entry_ok [OF assms] by (auto simp: moduleEntries_def split: if_splits)
  moreover have "\<exists>e' \<in> set (moduleEntries f). we_sentinel e' = we_sentinel e \<and> starts_with (we_sentinel e) (we_code e')"
    if "e \<in> set (moduleEntries f)" for e
  proof -
    have proxy: "entry (proxyForRootAsync f) GATEWAY_SENTINEL \<in> set (moduleEntries f)" by (simp add: moduleEntries_def)
    from that consider "e = configModuleEntry" | "e = brokerModuleEntry" | "we_sentinel e = GATEWAY_SENTINEL"
      | "e = entry aclForRoot ''AclModule.forRoot''" | "e = entry (gatewayAdminForRoot f) ''GatewayAdminModule.forRoot''"
      by (auto simp: moduleEntries_def simps split: if_splits)
    then show ?thesis
    proof cases
      case 3
      with proxy proxy_entry_ok show ?thesis by (intro bexI [OF _ proxy]) (simp add: simps)
    next
      case 1
      with that core_starts(1) show ?thesis by blast
    next
      case 2
      with that core_starts(2) show ?thesis by blast
    next
      case 4
      with that core_starts(3) show ?thesis using simps by metis
    next
      case 5
      with that admin_entry_ok [OF assms] show ?thesis using simps by metis
    qed
  qed
  moreover have "plain_word (il_marker i) \<and> str_includes (il_marker i) (il_line i)" if "i \<in> set (importLines f)" for i
  proof -
    from that obtain what path where "i = import_from what path" "plain_word path"
      using plain_words unfolding importLines_def by (auto split: if_splits)
    with import_from_marker show ?thesis by (metis import_from_def import_line.select_convs(2))
  qed
  ultimately show ?thesis unfolding wiring_ok_def entry_ok_def gatewayWiring_def wire_options.select_convs
    using starts_includes by metis
qed

subsection \<open>The tree\<close>

context file_tree
begin

lemma candidate_exists: "findCandidate T cs n f = Some p \<Longrightarrow> tr_exists T p f"
  by (auto simp: findCandidate_def findFileInTree_def find_Some_iff paths_exist split: option.splits)

lemma candidate_again: "tr_exists T q f \<Longrightarrow> findCandidate T cs n (tr_overwrite T q c f) = findCandidate T cs n f"
  using overwrite_law [of q f c] by (simp add: findCandidate_def findFileInTree_def split: option.split)

end

lemma module_read:
  assumes T: "file_tree T" and "wireAppModule T opts f = (Some p, f')"
  shows "tr_read T p f' = wireContent opts (tr_read T p f)" and "findAppModule T f' = Some p"
proof -
  from assms(2) have p: "findAppModule T f = Some p" and f': "f' = tr_overwrite T p (wireContent opts (tr_read T p f)) f"
    by (auto simp: wireAppModule_def split: option.splits)
  have "tr_exists T p f" using p file_tree.candidate_exists [OF T] by (simp add: findAppModule_def)
  with f' p file_tree.overwrite_law [OF T] file_tree.candidate_again [OF T]
  show "tr_read T p f' = wireContent opts (tr_read T p f)" "findAppModule T f' = Some p"
    by (simp_all add: findAppModule_def)
qed

section \<open>Facts about main.ts and the dependencies\<close>

lemma replaceFirst_has: "str_includes old s \<Longrightarrow> str_includes new (replaceFirst old new s)"
proof (induction s)
  case Nil
  then show ?case by (simp add: includes_self)
next
  case (Cons c s)
  then show ?case using includes_left [OF includes_self] includes_right [of new "replaceFirst old new s" "[c]"] by auto
qed

lemma createdApp_words:
  "str_includes ''WsAdapter'' (createdApp a m)" "str_includes ''enableShutdownHooks'' (createdApp a m)"
proof -
  have "createdApp a m = (''const '' @ a @ '' = await NestFactory.create('' @ m @ '', { rawBody: true });'' @ [nl] @ ''  '' @ a @
      ''.useWebSocketAdapter(new '') @ ''WsAdapter'' @ (''('' @ a @ ''));'' @ [nl] @ ''  '' @ a @ ''.enableShutdownHooks();'')"
    by (simp add: createdApp_def lines_def)
  then show "str_includes ''WsAdapter'' (createdApp a m)" by (metis includes_append includes_self)
  have "createdApp a m = (''const '' @ a @ '' = await NestFactory.create('' @ m @ '', { rawBody: true });'' @ [nl] @ ''  '' @ a @
      ''.useWebSocketAdapter(new WsAdapter('' @ a @ ''));'' @ [nl] @ ''  '' @ a @ ''.'') @ ''enableShutdownHooks'' @ ''();''"
    by (simp add: createdApp_def lines_def)
  then show "str_includes ''enableShutdownHooks'' (createdApp a m)" by (metis includes_append includes_self)
qed

lemma found_includes: "rx_find r s = Some (pre, m, g, t) \<Longrightarrow> str_includes (rx_matched m t) s"
  using rx_find_split(1) [of r s pre m g t] includes_append [OF includes_self, of "rx_matched m t" pre t] by simp

lemma configureMain_cases:
  obtains "configureMain s = s" | "str_includes ''WsAdapter'' (configureMain s)"
proof (cases "str_includes ''WsAdapter'' s")
  case True
  then show ?thesis using that(1) by (simp add: configureMain_def)
next
  case False
  let ?i = "import_from ''{ WsAdapter }'' ''@nestjs/platform-ws''"
  let ?c = "ensureImportLine s ?i"
  show ?thesis
  proof (cases "rx_find createRx ?c")
    case None
    then have eq: "configureMain s = ?c" using False by (simp add: configureMain_def)
    show ?thesis
    proof (cases "str_includes (il_marker ?i) s")
      case True
      with eq that(1) show ?thesis by (simp add: ensureImportLine_def)
    next
      case False
      have "il_line ?i = ''import { '' @ ''WsAdapter'' @ '' } from '' @ quoted ''@nestjs/platform-ws'' @ '';''"
        by (simp add: import_from_def)
      then have "str_includes ''WsAdapter'' (nl # il_line ?i)"
        using includes_append [OF includes_self, of "''WsAdapter''" "nl # ''import { ''"] by simp
      with False eq that(2) insert_at_has show ?thesis by (simp add: ensureImportLine_def)
    qed
  next
    case (Some r)
    obtain pre m g t where r: "r = (pre, m, g, t)" by (cases r)
    have "configureMain s = replaceFirst (rx_matched m t) (createdApp (g ! 0) (g ! 1)) ?c"
      using False Some r by (simp add: configureMain_def)
    moreover have "str_includes (createdApp (g ! 0) (g ! 1)) (replaceFirst (rx_matched m t) (createdApp (g ! 0) (g ! 1)) ?c)"
      by (rule replaceFirst_has [OF found_includes [OF Some [unfolded r]]])
    ultimately show ?thesis using that(2) createdApp_words(1) includes_append unfolding includes_iff [of "createdApp (g ! 0) (g ! 1)"] by metis
  qed
qed

lemma block_word: "str_includes ''useBodyParser'' (bodyParserBlock app)"
proof -
  have "bodyParserBlock app = ([nl, nl] @ ''  const gateway = '' @ app @ ''.get(ConfigService).get<GatewayConfig>('' @ quoted ''gateway'' @ '');'' @
      [nl] @ ''  if (gateway?.maxBodyBytes) {'' @ [nl] @ ''    '' @ app @ ''.'') @ ''useBodyParser'' @
      (''('' @ quoted ''json'' @ '', { limit: gateway.maxBodyBytes });'' @ [nl] @ ''    '' @ app @ ''.useBodyParser('' @ quoted ''urlencoded'' @
      '', { extended: true, limit: gateway.maxBodyBytes });'' @ [nl] @ ''  }'')"
    by (simp add: bodyParserBlock_def lines_def)
  then show ?thesis by (metis includes_append includes_self)
qed

lemma parserImports_there:
  "parserImports s \<noteq> [] \<Longrightarrow> parserImports (insert_at (findLastImportEndIndex s) (parserImports s) s) = []"
proof -
  have inc: "str_includes ''ConfigService'' (il_line (import_from ''{ ConfigService }'' ''@nestjs/config''))"
    "str_includes ''GatewayConfig'' (il_line (import_from ''{ GatewayConfig }'' LIB))" by code_simp+
  have "str_includes w (insert_at (findLastImportEndIndex s) (parserImports s) s)"
    if "plain_word w" "str_includes w s \<or> str_includes w (parserImports s)" for w
    using that insert_at_keeps [OF that(1) last_import_gap] insert_at_has by blast
  moreover have "str_includes ''ConfigService'' s \<or> str_includes ''ConfigService'' (parserImports s)"
    "str_includes ''GatewayConfig'' s \<or> str_includes ''GatewayConfig'' (parserImports s)"
    using inc(1) includes_append [OF inc(1), of "[nl]"] includes_right [OF inc(2), of "[nl]"]
      includes_right [OF includes_right [OF inc(2), of "[nl]"]] by (auto simp: parserImports_def)
  ultimately show ?thesis using plain_words(13,14) by (simp add: parserImports_def)
qed

lemma patchMain_again: "patchMain (patchMain s) = patchMain s"
proof (cases "str_includes ''useBodyParser'' s")
  case True
  then show ?thesis by (simp add: patchMain_def)
next
  case False
  define c where "c = (if parserImports s = [] then s else insert_at (findLastImportEndIndex s) (parserImports s) s)"
  have imp: "parserImports c = []" using parserImports_there by (simp add: c_def)
  show ?thesis
  proof (cases "rx_find patchRx c")
    case None
    then have "patchMain s = c" using False by (simp add: patchMain_def c_def Let_def)
    with None imp show ?thesis by (simp add: patchMain_def)
  next
    case (Some r)
    obtain pre m g t where r: "r = (pre, m, g, t)" by (cases r)
    have "patchMain s = (pre @ rx_matched m t) @ bodyParserBlock (g ! 0) @ t"
      using False Some r by (simp add: patchMain_def c_def Let_def)
    with includes_append [OF block_word] have "str_includes ''useBodyParser'' (patchMain s)" by metis
    then show ?thesis by (simp add: patchMain_def)
  qed
qed

lemma addDep_object:
  assumes "jget p ''dependencies'' = JObj ds"
  shows "\<exists>ds'. jget (addDep d p) ''dependencies'' = JObj ds'"
    and "jget (jget (addDep d p) ''dependencies'') k =
      (if k = fst d \<and> \<not> truthy (jget (jget p ''dependencies'') k) then JStr (snd d) else jget (jget p ''dependencies'') k)"
    and "k' \<noteq> ''dependencies'' \<Longrightarrow> jget (addDep d p) k' = jget p k'"
proof -
  from assms obtain kvs where p: "p = JObj kvs" by (cases p) auto
  have obj: "\<exists>ds'. jset (JObj ds) k v = JObj ds'" for k v by simp
  show "\<exists>ds'. jget (addDep d p) ''dependencies'' = JObj ds'" using assms by (simp add: addDep_def p jget_jset obj del: jget.simps jset.simps)
  show "jget (jget (addDep d p) ''dependencies'') k =
      (if k = fst d \<and> \<not> truthy (jget (jget p ''dependencies'') k) then JStr (snd d) else jget (jget p ''dependencies'') k)"
    using assms by (auto simp: addDep_def p jget_jset obj simp del: jget.simps jset.simps)
  show "k' \<noteq> ''dependencies'' \<Longrightarrow> jget (addDep d p) k' = jget p k'" by (simp add: addDep_def p jget_jset obj del: jget.simps jset.simps)
qed

lemma fold_addDep:
  assumes "jget p ''dependencies'' = JObj ds"
  shows "truthy (jget (jget p ''dependencies'') k) \<Longrightarrow>
      jget (jget (fold addDep deps p) ''dependencies'') k = jget (jget p ''dependencies'') k"
    and "\<forall>d \<in> set deps. snd d \<noteq> [] \<Longrightarrow> n \<in> fst ` set deps \<Longrightarrow> truthy (jget (jget (fold addDep deps p) ''dependencies'') n)"
    and "k' \<noteq> ''dependencies'' \<Longrightarrow> jget (fold addDep deps p) k' = jget p k'"
proof -
  have keep: "jget (jget (fold addDep deps p) ''dependencies'') k = jget (jget p ''dependencies'') k"
    if "jget p ''dependencies'' = JObj ds" "truthy (jget (jget p ''dependencies'') k)" for p ds deps k
    using that
  proof (induction deps arbitrary: p ds)
    case (Cons d deps)
    from addDep_object(1) [OF Cons.prems(1)] obtain ds' where ds': "jget (addDep d p) ''dependencies'' = JObj ds'" by blast
    have e: "jget (jget (addDep d p) ''dependencies'') k = jget (jget p ''dependencies'') k"
      using addDep_object(2) [OF Cons.prems(1), of d k] Cons.prems(2) by metis
    have "jget (jget (fold addDep deps (addDep d p)) ''dependencies'') k = jget (jget (addDep d p) ''dependencies'') k"
      by (rule Cons.IH [OF ds']) (use e Cons.prems(2) in metis)
    with e show ?case by (simp only: fold.simps comp_apply)
  qed simp
  with assms show "truthy (jget (jget p ''dependencies'') k) \<Longrightarrow>
      jget (jget (fold addDep deps p) ''dependencies'') k = jget (jget p ''dependencies'') k" by blast
  show "truthy (jget (jget (fold addDep deps p) ''dependencies'') n)" if "\<forall>d \<in> set deps. snd d \<noteq> []" "n \<in> fst ` set deps"
    using assms that
  proof (induction deps arbitrary: p ds)
    case (Cons d deps)
    from addDep_object(1) [OF Cons.prems(1)] obtain ds' where ds': "jget (addDep d p) ''dependencies'' = JObj ds'" by blast
    show ?case
    proof (cases "n = fst d")
      case True
      have "truthy (jget (jget (addDep d p) ''dependencies'') n)"
        using addDep_object(2) [OF Cons.prems(1), of d n] Cons.prems(2) True by (simp del: jget.simps)
      with keep [OF ds' this] show ?thesis by (simp del: jget.simps)
    next
      case False
      with Cons.IH [OF ds'] Cons.prems show ?thesis by (simp del: jget.simps)
    qed
  qed simp
  show "jget (fold addDep deps p) k' = jget p k'" if "k' \<noteq> ''dependencies''"
    using assms
  proof (induction deps arbitrary: p ds)
    case (Cons d deps)
    from addDep_object(1) [OF Cons.prems] obtain ds' where ds': "jget (addDep d p) ''dependencies'' = JObj ds'" by blast
    with Cons.IH [OF ds'] addDep_object(3) [OF Cons.prems that] show ?case by (simp del: jget.simps)
  qed simp
qed


section \<open>Properties\<close>


definition plain_features :: gw_features where
  "plain_features = \<lparr>gf_acl = False, gf_admin = False, gf_routeReception = False, gf_routeExchange = ''ex'', gf_routeQueue = ''q''\<rparr>"

definition sample_module :: string where
  "sample_module = ''// @nestjs/config ./config/config.loader @nestjs/axios'' @ nl # ''@Module({imports: [],})''"

lemma sample_array: "importsArray (wireImports (gatewayWiring plain_features) sample_module) \<noteq> None"
  by code_simp



definition sample_tree :: "(string \<times> string) list" where
  "sample_tree = [(''src/app.module.ts'', sample_module)]"


text \<open>The edit keeps what the application had: every name, path or module of the source is in the result, for
  any list of imports and entries.\<close>

theorem wiring_keeps_words:
  "plain_word w \<Longrightarrow> str_includes w source \<Longrightarrow> str_includes w (wireContent opts source)"
  by (rule wireContent_keeps)

theorem wiring_keeps_words_witness: "str_includes ''Module'' (wireContent coreWiring sample_module)"
proof (rule wiring_keeps_words)
  show "plain_word ''Module''" "str_includes ''Module'' sample_module" by code_simp+
qed

text \<open>The library's import names everything that was asked for, whether a line of imports was there or not.\<close>

theorem library_symbols_imported:
  "\<exists>before names after. ensureLibImport source symbols = before @ libImportLine names @ after \<and> set symbols \<subseteq> set names"
  by (rule ensureLibImport_names)

text \<open>The edits of \<open>main.ts\<close> settle: running \<open>add-gateway\<close> or \<open>harden-gateway\<close> again changes nothing.\<close>

theorem main_edits_settle:
  "configureMain (configureMain source) = configureMain source \<and> patchMain (patchMain source) = patchMain source"
proof
  show "configureMain (configureMain source) = configureMain source"
    by (rule configureMain_cases [of source]) (simp_all add: configureMain_def)
  show "patchMain (patchMain source) = patchMain source" by (rule patchMain_again)
qed

text \<open>Dependencies are added and never changed: after \<open>addDeps\<close> every one of them is in the package file, a version
  that was there is still there, and the other fields are as they were.\<close>

theorem dependencies_added:
  assumes "jget pkg ''dependencies'' = JObj ds" and "\<forall>d \<in> set deps. snd d \<noteq> []"
  shows "(\<forall>n \<in> fst ` set deps. truthy (jget (jget (addDeps deps pkg) ''dependencies'') n)) \<and>
    (truthy (jget (JObj ds) k) \<longrightarrow> jget (jget (addDeps deps pkg) ''dependencies'') k = jget (JObj ds) k) \<and>
    (k \<noteq> ''dependencies'' \<longrightarrow> jget (addDeps deps pkg) k = jget pkg k)"
  using fold_addDep [OF assms(1), where deps = deps] assms by (auto simp: addDeps_def simp del: jget.simps)

theorem dependencies_added_witness:
  "truthy (jget (jget (addDeps CORE_DEPS (JObj [(''dependencies'', JObj [(''rxjs'', JStr ''7'')])])) ''dependencies'') ''js-yaml'')"
  using dependencies_added [of "JObj [(''dependencies'', JObj [(''rxjs'', JStr ''7'')])]" "[(''rxjs'', JStr ''7'')]" CORE_DEPS]
  by (simp add: CORE_DEPS_def)

text \<open>A module without an array of imports: the entries are dropped, and the caller is told that the module was wired.\<close>

theorem module_without_imports:
  "findAppModule T t = Some p \<Longrightarrow> importsArray (wireImports opts (tr_read T p t)) = None \<Longrightarrow>
   wireAppModule T opts t = (Some p, tr_overwrite T p (wireImports opts (tr_read T p t)) t)"
proof -
  assume p: "findAppModule T t = Some p" and none: "importsArray (wireImports opts (tr_read T p t)) = None"
  have "fold (\<lambda>e s. insertIntoImportsArray s (we_code e)) es s = s" if "importsArray s = None"
    for s and es :: "wire_entry list"
    using that by (induction es) (simp_all add: insert_array)
  from this [OF none] p show ?thesis by (simp add: wireAppModule_def wireContent_def Let_def)
qed

text \<open>The options of the application's own \<open>create\<close> call are not in the call that replaces it.\<close>

theorem create_options_dropped:
  "\<not> str_includes ''cors'' (configureMain ''const app = await NestFactory.create(AppModule, { cors: true });'')"
  by code_simp

text \<open>A \<open>main.ts\<close> whose call is written otherwise gets the import and nothing else, and the answer is that it is wired.\<close>

theorem other_call_not_wired:
  "\<not> str_includes ''useWebSocketAdapter'' (configureMain ''NestFactory.create(AppModule).then(run);'')"
  by code_simp

theorem wired_main_reported: "fst (configureMainForGateway T t) = (findMainTs T t \<noteq> None)"
  by (simp add: configureMainForGateway_def split: option.splits)

end
