(* ===== verification/Spec2Isabelle.thy ===== *)
theory Spec2Isabelle
  imports  Path_Order Retry_Policy Amqp_Utils Amqp_Consumer Amqp_Topology Amqp_Connection Broker_Service Broker_Metadata Amqp_Boot Decorators Codemod Gateway_Auth Gateway_Http Gateway_Reload Gateway_WebSocket Metrics Metric_Jobs Influx_Points Gateway_Providers
    Acl_Cache Memory_Collection Acl_Repository Acl_Service Acl_Management Acl_Queries Startup
    Route_Manifest Route_Diff Route_Sync Route_Convergence Gateway_Path
    Config_Yaml Config_Schematics Config_Wiring Js_Regex Module_Wiring
begin

section \<open>What is verified\<close>

text \<open>
  A verification development of the library \<open>@open-rlb/nestjs-amqp\<close>
  (\<open>libs/rlb-nestjs-amqp/src\<close>): a NestJS module that gives microservices topics over RabbitMQ
  and gives a gateway that turns HTTP and WebSocket requests into messages. The paths below are
  relative to that directory unless they start with \<open>sample\<close>.

  \<^bold>\<open>The parts and how they interact.\<close> A microservice decorates methods; the metadata scanner turns
  them into consumers of the broker service, which runs over the AMQP connection, whose consumers
  end every message with an acknowledgement, a rejection or a bounded retry. The decorated routes
  are announced on a fanout exchange; the gateway's route sync compares an announcement with the
  stored routes and writes the difference; an administrator edits the same rows. A change sends a
  reload signal on which each gateway rebuilds its route table. A request to the gateway passes the
  concurrency cap, authentication by a provider, the access check of the access-control module (a
  two-tier cache over grants, roles and actions) and becomes a message; each request leaves a
  metric point, and scheduled jobs roll the points up and prune them.

  \<^bold>\<open>How the code is modelled.\<close> Each source function is a definition of its own, in the order of its file
  and with its name (a prefix where two files share one). A plain JavaScript object is an
  association list of fields (\<open>doc\<close>), a dynamic value is a \<open>jval\<close>, a typed object a record. A
  function that throws or changes state is an \<open>eff\<close>: from a state to an error or a value, and a
  new state; an \<open>await\<close> inside one is sequencing, and where the interleaving at an
  \<open>await\<close> matters (the access cache, the AMQP consumers, the reloads, the WebSocket clients, the
  scheduled jobs) the two sides of it are separate steps of a transition system, so that its
  theorems are about every interleaving. Numbers are integers; times are arguments. Log lines are
  left out.

  \<^bold>\<open>Theories.\<close>
    \<^item> \<open>Prelude\<close>: strings, splitting and joining, \<open>??\<close> and truthiness, JavaScript values, number
      texts, errors, and the \<open>eff\<close> combinators, with the lemmas and simplification rules the others use.
    \<^item> \<open>Base64\<close>: the decoding of credentials by Node's \<open>Buffer\<close>.
    \<^item> \<open>Retry_Policy\<close> (\<open>amqp-lib/amqp/retry-policy.ts\<close>), \<open>Amqp_Utils\<close> (\<open>utils.ts\<close>),
      \<open>Amqp_Consumer\<close>, \<open>Amqp_Topology\<close>, \<open>Amqp_Connection\<close> (\<open>connection.ts\<close>, \<open>errorBehaviors.ts\<close>):
      a message is settled exactly once and retried a bounded number of times; an RPC reply is
      sent before its request is acknowledged; a request ends in its own reply or a timeout; after
      a drain nothing subscribes again; the routing filter refines the AMQP topic relation.
    \<^item> \<open>Amqp_Boot\<close> (\<open>connection.ts\<close>, \<open>modules/broker/broker.module.ts\<close>): from the module's options
      to a connected instance, its publisher, and the setup of its consumers; a subscription that
      resolves is consuming, and the instance's name is that of its default channel.
    \<^item> \<open>Broker_Service\<close>, \<open>Broker_Metadata\<close> (\<open>modules/broker\<close>): topics, registration and
      unregistration of handlers; scanning, routes and the auth pairing; the announcement. The
      locale \<open>broker_link\<close> states what the broker service needs of a connection.
    \<^item> \<open>Decorators\<close>, \<open>Codemod\<close> (\<open>modules/broker/decorators\<close>, \<open>scripts/broker-http-decorators.js\<close> at the
      root of the sources): the metadata that decorators leave, over a heap of shared arrays, and the
      decorators the codemod writes; with the scanner, these carry the configuration's protection over.
    \<^item> \<open>Acl_Cache\<close>, \<open>Acl_Repository\<close>, \<open>Acl_Service\<close>, \<open>Acl_Management\<close> (\<open>modules/acl\<close>): the cache as an
      interleaving system with invalidation generations; the repositories as locales with the
      generated in-memory ones as interpretations; a check answers what the grants, roles and
      actions now stored say, for every sequence of changes (a refinement of a relation), and a
      grant needs authority. \<open>Acl_Queries\<close>: the listings and searches, whose pages are complete.
    \<^item> \<open>Startup\<close>: the subscriptions that the access control and the route sync make at start.
    \<^item> \<open>Memory_Collection\<close>: the document collection under the generated repositories.
    \<^item> \<open>Route_Manifest\<close>, \<open>Route_Diff\<close>, \<open>Route_Sync\<close>, \<open>Route_Convergence\<close>, \<open>Gateway_Path\<close>,
      \<open>Gateway_Providers\<close>, \<open>Path_Order\<close> (\<open>modules/gateway-admin\<close>): routes as content, the diff, its
      application over the contract \<open>path_repository\<close>, the administrator's operations on routes
      and auth providers, the readiness probe, and the order of routes. A sync touches only the
      rows of its service and settles; an administrator's edit survives it; removing a provider
      leaves no dangling reference.
    \<^item> \<open>Gateway_Auth\<close>, \<open>Gateway_Http\<close>, \<open>Gateway_Reload\<close>, \<open>Gateway_WebSocket\<close> (\<open>modules/proxy\<close>):
      authentication, the handler of one request, the route table, and the WebSocket service. Nothing
      reaches the broker past the gate, identity headers are the verified ones, signals are
      coalesced without loss, and a delivery goes only to a subscription that was admitted.
    \<^item> \<open>Metrics\<close>, \<open>Metric_Jobs\<close> (\<open>gateway-admin/util/metrics.ts\<close>, the metrics, rollup and
      retention services): the aggregations are those of the points they cover, one instance at
      a time runs a job, and the retention keeps its window.
    \<^item> \<open>Config_Yaml\<close>, \<open>Config_Schematics\<close>, \<open>Config_Wiring\<close> (\<open>schematics\<close>): the editing of
      \<open>config.yaml\<close> over the contracts of a YAML document and a file tree, the commands, and what they
      keep: upserts settle, a configuration goes on naming only what it declares, a gateway's
      management routes have their topics.
    \<^item> \<open>Js_Regex\<close>, \<open>Module_Wiring\<close> (\<open>schematics/utils/nest-wiring.util.ts\<close>, \<open>add-gateway/wiring.ts\<close>, \<open>nest-add\<close>,
      \<open>patchMainTs\<close> of \<open>harden-gateway\<close>): JavaScript's backtracking match, and the edits of an application's sources
      with it; every module of a gateway is wired, nothing is wired twice and no word of the source is lost.

  \<^bold>\<open>Interfaces.\<close> Every contract between components is a locale whose \<open>assumes\<close> are what the client
  relies on, and is interpreted by the implementation in the repository: \<open>broker_link\<close>,
  \<open>l2_store\<close>, \<open>grant_repository\<close>, \<open>role_repository\<close>, \<open>action_repository\<close>, \<open>acl_system\<close>,
  \<open>acl_gate\<close>, \<open>path_repository\<close>, \<open>route_references\<close>, \<open>provider_store\<close>, \<open>provider_admin\<close>,
  \<open>metric_repository\<close>, \<open>scheduler_lock\<close>; the YAML document and the file tree of the schematics are
  \<open>yaml_document\<close> and \<open>file_tree\<close>, interpreted on plain data. Code that is not in the repository is an argument: the
  verification of a token's signature, the multipart parser, the router, the answers of the broker
  and of health indicators, the clock.

  \<^bold>\<open>Bounds and fuel.\<close> Every definition is total. Recursion is structural or decreases a length,
  except the retry loop, which takes as fuel one more than the policy's attempts; its theorem shows
  that this is enough for every policy. Counters are unbounded integers, as no value of the code comes
  near 2 to the 53.
\<close>

section \<open>What is not modelled, and why\<close>

text \<open>
    \<^item> The source surgery of the schematics through the compiler's syntax tree, which is third-party code, and the files
      they copy; the code they emit is modelled where it holds logic (the in-memory collection and repositories),
      and so are their edits by regular expressions and those of the configuration, up to comments and formatting. The codemod is modelled from the decorators
      it finds in a source file on, not the finding.
    \<^item> The Nest modules, and the parameter pipes' classes are wiring; what they carry is the input of the
      scanner's model.
    \<^item> The sample applications, among them the Mongo repositories, are calls to their drivers;
      the in-memory copies in the samples repeat the generated ones.
    \<^item> Sockets, reconnection and the log lines on connection events in \<open>connection.ts\<close> are those of
      \<open>amqp-connection-manager\<close>; HTTP and WebSocket transport are those of their servers.
    \<^item> Strings are sequences of characters below 256, and floating-point values occur only as integers and
      exact rationals (error rates); a fractional duration or limit is outside the model.
\<close>

end
